(* ===== verification/Rust_Prelude.thy ===== *)
theory Rust_Prelude
  imports Main "HOL-Library.Signed_Division" "HOL-Library.Monad_Syntax"
begin

text \<open>
  Shared vocabulary of the development: Rust results and the question-mark operator,
  the fixed-width integers of Rust with their checked, truncating and Euclidean
  operations, and the arithmetic facts on truncated division and powers of ten that the
  components use. A value of a machine type \<open>i<w>\<close> is an \<^typ>\<open>int\<close> that satisfies
  \<open>in_int w\<close>; every checked operation returns \<^term>\<open>None\<close> exactly where Rust does.
\<close>

named_theorems rust_int \<open>unfolding rules for the checked machine operations\<close>
named_theorems result_simps \<open>rewrite rules for results and the question-mark operator\<close>

section \<open>Results\<close>

type_synonym ('e, 'a) result = "'e + 'a"

definition ok_or :: "'a option \<Rightarrow> 'e \<Rightarrow> ('e, 'a) result" where
  "ok_or x e = (case x of None \<Rightarrow> Inl e | Some v \<Rightarrow> Inr v)"

definition and_then :: "('e, 'a) result \<Rightarrow> ('a \<Rightarrow> ('e, 'b) result) \<Rightarrow> ('e, 'b) result" where
  "and_then r f = (case r of Inl e \<Rightarrow> Inl e | Inr v \<Rightarrow> f v)"

definition map_ok :: "('a \<Rightarrow> 'b) \<Rightarrow> ('e, 'a) result \<Rightarrow> ('e, 'b) result" where
  "map_ok f r = (case r of Inl e \<Rightarrow> Inl e | Inr v \<Rightarrow> Inr (f v))"

definition map_err :: "('e \<Rightarrow> 'f) \<Rightarrow> ('e, 'a) result \<Rightarrow> ('f, 'a) result" where
  "map_err f r = (case r of Inl e \<Rightarrow> Inl (f e) | Inr v \<Rightarrow> Inr v)"

definition ok :: "('e, 'a) result \<Rightarrow> 'a option" where
  "ok r = (case r of Inl _ \<Rightarrow> None | Inr v \<Rightarrow> Some v)"

definition unwrap_or :: "'a option \<Rightarrow> 'a \<Rightarrow> 'a" where
  "unwrap_or x d = (case x of Some v \<Rightarrow> v | None \<Rightarrow> d)"

definition is_ok :: "('e, 'a) result \<Rightarrow> bool" where
  "is_ok r = (case r of Inl _ \<Rightarrow> False | Inr _ \<Rightarrow> True)"

lemma ok_or_simps [simp, result_simps]:
  "ok_or None e = Inl e" "ok_or (Some v) e = Inr v"
  by (simp_all add: ok_or_def)

lemma ok_or_eq_Inr_iff [simp]: "ok_or x e = Inr v \<longleftrightarrow> x = Some v"
  by (cases x) auto

lemma ok_or_eq_Inl_iff [simp]: "ok_or x e = Inl d \<longleftrightarrow> x = None \<and> d = e"
  by (cases x) auto

lemma and_then_simps [simp, result_simps]:
  "and_then (Inl e) f = Inl e" "and_then (Inr v) f = f v"
  by (simp_all add: and_then_def)

lemma and_then_eq_Inr_iff: "and_then r f = Inr w \<longleftrightarrow> (\<exists>v. r = Inr v \<and> f v = Inr w)"
  by (cases r) auto

lemma map_ok_simps [simp, result_simps]:
  "map_ok f (Inl e) = Inl e" "map_ok f (Inr v) = Inr (f v)"
  by (simp_all add: map_ok_def)

lemma map_ok_eq_Inr_iff: "map_ok f r = Inr w \<longleftrightarrow> (\<exists>v. r = Inr v \<and> f v = w)"
  by (cases r) auto

lemma map_err_simps [simp, result_simps]:
  "map_err f (Inl e) = Inl (f e)" "map_err f (Inr v) = Inr v"
  by (simp_all add: map_err_def)

lemma map_err_eq_Inr_iff [simp]: "map_err f r = Inr v \<longleftrightarrow> r = Inr v"
  by (cases r) auto

lemma ok_simps [simp, result_simps]: "ok (Inl e) = None" "ok (Inr v) = Some v"
  by (simp_all add: ok_def)

lemma unwrap_or_simps [simp, result_simps]: "unwrap_or (Some v) d = v" "unwrap_or None d = d"
  by (simp_all add: unwrap_or_def)

lemma is_ok_simps [simp, result_simps]: "\<not> is_ok (Inl e)" "is_ok (Inr v)"
  by (simp_all add: is_ok_def)

section \<open>Orderings\<close>

datatype Ordering = Less | Equal | Greater

definition int_cmp :: "int \<Rightarrow> int \<Rightarrow> Ordering" where
  "int_cmp a b = (if a < b then Less else if a = b then Equal else Greater)"

lemma int_cmp_simps [simp]:
  "int_cmp a b = Equal \<longleftrightarrow> a = b" "int_cmp a b = Less \<longleftrightarrow> a < b" "int_cmp a b = Greater \<longleftrightarrow> b < a" "int_cmp a a = Equal"
  by (auto simp: int_cmp_def)

section \<open>Fixed-width integers\<close>

definition in_int :: "nat \<Rightarrow> int \<Rightarrow> bool" where
  "in_int w x \<longleftrightarrow> - (2 ^ (w - 1)) \<le> x \<and> x < 2 ^ (w - 1)"

definition in_uint :: "nat \<Rightarrow> int \<Rightarrow> bool" where
  "in_uint w x \<longleftrightarrow> 0 \<le> x \<and> x < 2 ^ w"

definition int_min :: "nat \<Rightarrow> int" where
  "int_min w = - (2 ^ (w - 1))"

definition int_max :: "nat \<Rightarrow> int" where
  "int_max w = 2 ^ (w - 1) - 1"

text \<open>The checked operations of \<open>i<w>\<close> in the standard library.\<close>

definition checked_int :: "nat \<Rightarrow> int \<Rightarrow> int option" where
  "checked_int w x = (if in_int w x then Some x else None)"

definition i_checked_add :: "nat \<Rightarrow> int \<Rightarrow> int \<Rightarrow> int option" where
  "i_checked_add w a b = checked_int w (a + b)"

definition i_checked_sub :: "nat \<Rightarrow> int \<Rightarrow> int \<Rightarrow> int option" where
  "i_checked_sub w a b = checked_int w (a - b)"

definition i_checked_mul :: "nat \<Rightarrow> int \<Rightarrow> int \<Rightarrow> int option" where
  "i_checked_mul w a b = checked_int w (a * b)"

definition i_checked_div :: "nat \<Rightarrow> int \<Rightarrow> int \<Rightarrow> int option" where
  "i_checked_div w a b = (if b = 0 then None else checked_int w (a sdiv b))"

definition i_checked_rem :: "nat \<Rightarrow> int \<Rightarrow> int \<Rightarrow> int option" where
  "i_checked_rem w a b =
     (if b = 0 \<or> a = int_min w \<and> b = - 1 then None else Some (a smod b))"

definition i_checked_rem_euclid :: "nat \<Rightarrow> int \<Rightarrow> int \<Rightarrow> int option" where
  "i_checked_rem_euclid w a b =
     (if b = 0 \<or> a = int_min w \<and> b = - 1 then None else Some (a mod \<bar>b\<bar>))"

definition i_checked_neg :: "nat \<Rightarrow> int \<Rightarrow> int option" where
  "i_checked_neg w a = checked_int w (- a)"

definition i_checked_abs :: "nat \<Rightarrow> int \<Rightarrow> int option" where
  "i_checked_abs w a = checked_int w \<bar>a\<bar>"

definition i_checked_pow :: "nat \<Rightarrow> int \<Rightarrow> nat \<Rightarrow> int option" where
  "i_checked_pow w a n = checked_int w (a ^ n)"

definition u_checked_sub :: "nat \<Rightarrow> nat \<Rightarrow> nat option" where
  "u_checked_sub a b = (if b \<le> a then Some (a - b) else None)"

text \<open>A Rust \<open>as\<close> cast to \<open>i<w>\<close> and to \<open>u<w>\<close>: reduction modulo two to the width.\<close>

definition as_int :: "nat \<Rightarrow> int \<Rightarrow> int" where
  "as_int w x = (x + 2 ^ (w - 1)) mod 2 ^ w - 2 ^ (w - 1)"

definition as_uint :: "nat \<Rightarrow> int \<Rightarrow> int" where
  "as_uint w x = x mod 2 ^ w"

lemma in_int_bounds [rust_int]:
  "in_int 8 x \<longleftrightarrow> - 128 \<le> x \<and> x \<le> 127"
  "in_int 16 x \<longleftrightarrow> - 32768 \<le> x \<and> x \<le> 32767"
  "in_int 32 x \<longleftrightarrow> - 2147483648 \<le> x \<and> x \<le> 2147483647"
  "in_int 64 x \<longleftrightarrow> - 9223372036854775808 \<le> x \<and> x \<le> 9223372036854775807"
  "in_int 128 x \<longleftrightarrow> - 170141183460469231731687303715884105728 \<le> x \<and>
     x \<le> 170141183460469231731687303715884105727"
  by (auto simp: in_int_def)

lemma checked_int_eq_Some [simp]: "checked_int w x = Some y \<longleftrightarrow> y = x \<and> in_int w x"
  by (auto simp: checked_int_def)

lemma checked_int_eq_None [simp]: "checked_int w x = None \<longleftrightarrow> \<not> in_int w x"
  by (simp add: checked_int_def)

lemma i_checked_add_Some [simp]: "i_checked_add w a b = Some c \<longleftrightarrow> c = a + b \<and> in_int w (a + b)"
  by (simp add: i_checked_add_def)

lemma i_checked_sub_Some [simp]: "i_checked_sub w a b = Some c \<longleftrightarrow> c = a - b \<and> in_int w (a - b)"
  by (simp add: i_checked_sub_def)

lemma i_checked_mul_Some [simp]: "i_checked_mul w a b = Some c \<longleftrightarrow> c = a * b \<and> in_int w (a * b)"
  by (simp add: i_checked_mul_def)

lemma i_checked_div_Some [simp]:
  "i_checked_div w a b = Some c \<longleftrightarrow> b \<noteq> 0 \<and> c = a sdiv b \<and> in_int w (a sdiv b)"
  by (simp add: i_checked_div_def)

lemma i_checked_neg_Some [simp]: "i_checked_neg w a = Some c \<longleftrightarrow> c = - a \<and> in_int w (- a)"
  by (simp add: i_checked_neg_def)

lemma i_checked_abs_Some [simp]: "i_checked_abs w a = Some c \<longleftrightarrow> c = \<bar>a\<bar> \<and> in_int w \<bar>a\<bar>"
  by (simp add: i_checked_abs_def)

lemma i_checked_pow_Some [simp]: "i_checked_pow w a n = Some c \<longleftrightarrow> c = a ^ n \<and> in_int w (a ^ n)"
  by (simp add: i_checked_pow_def)

lemma u_checked_sub_Some [simp]: "u_checked_sub a b = Some c \<longleftrightarrow> b \<le> a \<and> c = a - b"
  by (auto simp: u_checked_sub_def)

lemma u_checked_sub_None [simp]: "u_checked_sub a b = None \<longleftrightarrow> a < b"
  by (auto simp: u_checked_sub_def)

lemmas checked_defs [rust_int] =
  checked_int_def i_checked_add_def i_checked_sub_def i_checked_mul_def i_checked_div_def
  i_checked_rem_def i_checked_rem_euclid_def i_checked_neg_def i_checked_abs_def
  i_checked_pow_def u_checked_sub_def

lemma in_int_0 [simp]: "in_int w 0"
  by (simp add: in_int_def)

lemma in_int_abs_le: "in_int w a \<Longrightarrow> \<bar>b\<bar> \<le> \<bar>a\<bar> \<Longrightarrow> 0 \<le> b * a \<Longrightarrow> in_int w b"
  by (auto simp: in_int_def abs_if zero_le_mult_iff split: if_splits)

lemma in_int_mono: "in_int v x \<Longrightarrow> v \<le> w \<Longrightarrow> in_int w x"
proof -
  assume "in_int v x" "v \<le> w"
  then have "(2::int) ^ (v - 1) \<le> 2 ^ (w - 1)"
    by (intro power_increasing) auto
  with \<open>in_int v x\<close> show ?thesis unfolding in_int_def by linarith
qed

lemma as_int_id: "0 < w \<Longrightarrow> in_int w x \<Longrightarrow> as_int w x = x"
proof -
  assume w: "0 < w" and x: "in_int w x"
  obtain v where v: "w = Suc v" using w by (cases w) auto
  have "0 \<le> x + 2 ^ v" "x + 2 ^ v < 2 ^ w"
    using x by (auto simp: in_int_def v)
  then show ?thesis by (simp add: as_int_def v)
qed

lemma as_int_in_range: "0 < w \<Longrightarrow> in_int w (as_int w x)"
proof -
  assume "0 < w"
  then obtain v where v: "w = Suc v" by (cases w) auto
  have "(x + 2 ^ v) mod 2 ^ w < 2 ^ w" "0 \<le> (x + 2 ^ v) mod 2 ^ w"
    by (simp_all add: v)
  then show ?thesis by (auto simp: in_int_def as_int_def v)
qed

section \<open>Truncated division\<close>

lemma sdiv_nonneg: "0 \<le> a \<Longrightarrow> 0 < b \<Longrightarrow> (a::int) sdiv b = a div b"
  by (auto simp: signed_divide_int_def sgn_if)

lemma sdiv_neg: "a < 0 \<Longrightarrow> 0 < b \<Longrightarrow> (a::int) sdiv b = - ((- a) div b)"
  by (auto simp: signed_divide_int_def sgn_if)

lemma smod_nonneg: "0 \<le> a \<Longrightarrow> 0 < b \<Longrightarrow> (a::int) smod b = a mod b"
  by (auto simp: signed_modulo_int_def sgn_if)

lemma smod_neg: "a < 0 \<Longrightarrow> 0 < b \<Longrightarrow> (a::int) smod b = - ((- a) mod b)"
  by (auto simp: signed_modulo_int_def sgn_if)

lemma sdiv_smod_eq: "(a::int) sdiv b * b + a smod b = a"
proof -
  have 1: "sgn b * b = \<bar>b\<bar>" for b :: int by (simp add: sgn_if)
  have 2: "sgn a * \<bar>a\<bar> = a" for a :: int by (simp add: sgn_if)
  have "a sdiv b * b + a smod b = sgn a * ((\<bar>a\<bar> div \<bar>b\<bar>) * (sgn b * b) + \<bar>a\<bar> mod \<bar>b\<bar>)"
    by (simp add: signed_divide_int_def signed_modulo_int_def algebra_simps)
  also have "\<dots> = a" by (simp add: 1 2)
  finally show ?thesis .
qed

lemma smod_eq_0_iff: "(a::int) smod b = 0 \<longleftrightarrow> b dvd a"
  by (auto simp: signed_modulo_int_def sgn_if dvd_eq_mod_eq_0 [symmetric])

lemma sdiv_exact: "b dvd a \<Longrightarrow> (a::int) sdiv b * b = a"
  using sdiv_smod_eq [of a b] by (simp add: smod_eq_0_iff [symmetric])

lemma smod_bounds: "0 < b \<Longrightarrow> \<bar>(a::int) smod b\<bar> < b"
  by (cases "0 \<le> a") (simp_all add: smod_nonneg smod_neg)

lemma smod_sign: "0 < b \<Longrightarrow> 0 \<le> (a::int) \<Longrightarrow> 0 \<le> a smod b"
  "0 < b \<Longrightarrow> (a::int) \<le> 0 \<Longrightarrow> a smod b \<le> 0"
  by (cases "a = 0"; simp add: smod_nonneg smod_neg)+

lemma abs_sdiv_le: "\<bar>(a::int) sdiv b\<bar> \<le> \<bar>a\<bar>"
proof -
  have "\<bar>a sdiv b\<bar> \<le> \<bar>a\<bar> div \<bar>b\<bar>"
    by (auto simp: signed_divide_int_def abs_mult sgn_if abs_if [of "_ div _"] pos_imp_zdiv_neg_iff)
  also have "\<dots> \<le> \<bar>a\<bar>"
    using div_le_dividend [of "nat \<bar>a\<bar>" "nat \<bar>b\<bar>"] by (simp add: nat_div_distrib [symmetric])
  finally show ?thesis .
qed

lemma sdiv_sdiv: "0 < b \<Longrightarrow> 0 < c \<Longrightarrow> ((a::int) sdiv b) sdiv c = a sdiv (b * c)"
proof (cases "0 \<le> a")
  case True
  assume "0 < b" "0 < c"
  with True show ?thesis
    by (simp add: sdiv_nonneg pos_imp_zdiv_nonneg_iff zdiv_zmult2_eq)
next
  case False
  assume bc: "0 < b" "0 < c"
  have "(- a) div b div c = (- a) div (b * c)"
    using bc by (simp add: zdiv_zmult2_eq)
  moreover have "(- ((- a) div b)) sdiv c = - ((- a) div b div c)"
  proof (cases "(- a) div b = 0")
    case True
    with bc show ?thesis by (simp add: sdiv_nonneg)
  next
    case nz: False
    then have "0 < (- a) div b"
      using False bc by (simp add: order.strict_iff_order pos_imp_zdiv_nonneg_iff)
    then show ?thesis using bc by (simp add: sdiv_nonneg)
  qed
  ultimately show ?thesis using False bc by (simp add: sdiv_neg)
qed

lemma sdiv_mult_cancel: "0 < c \<Longrightarrow> ((a::int) * c) sdiv (b * c) = a sdiv b"
  by (auto simp: signed_divide_int_def abs_mult sgn_mult)

lemma pow10_128: "in_int 128 (10 ^ n) \<longleftrightarrow> n \<le> 38"
proof
  assume "in_int 128 (10 ^ n)"
  show "n \<le> 38"
  proof (rule ccontr)
    assume "\<not> n \<le> 38"
    then have "(10::int) ^ 39 \<le> 10 ^ n" by (intro power_increasing) auto
    with \<open>in_int 128 (10 ^ n)\<close> show False by (simp add: in_int_def)
  qed
next
  assume "n \<le> 38"
  then have "(10::int) ^ n \<le> 10 ^ 38" by (intro power_increasing) auto
  also have "(10::int) ^ 38 = 100000000000000000000000000000000000000" by simp
  finally have le: "(10::int) ^ n \<le> 100000000000000000000000000000000000000" .
  have "(0::int) < 10 ^ n" by (rule zero_less_power) simp
  with le show "in_int 128 (10 ^ n)" unfolding in_int_bounds by (intro conjI; linarith)
qed

end
