(* ===== verification/Rust_Text.thy ===== *)
theory Rust_Text
  imports Rust_Prelude
begin

text \<open>
  The string primitives of Rust that the parsers and printers use, on strings as lists
  of bytes: ASCII digits, \<open>strip_prefix\<close>, \<open>split_at\<close> after the longest numeric
  prefix, the integer parser \<open>i<w>::from_str\<close> and zero-padded decimal printing.
\<close>

section \<open>Digits\<close>

definition is_ascii_digit :: "char \<Rightarrow> bool" where
  "is_ascii_digit c \<longleftrightarrow> 48 \<le> (of_char c :: nat) \<and> (of_char c :: nat) \<le> 57"

definition digit_val :: "char \<Rightarrow> int" where
  "digit_val c = int (of_char c) - 48"

definition digit_char :: "nat \<Rightarrow> char" where
  "digit_char d = char_of (48 + d)"

definition digits_val :: "int \<Rightarrow> int \<Rightarrow> nat list \<Rightarrow> int" where
  "digits_val sign acc ds = foldl (\<lambda>a d. a * 10 + sign * int d) acc ds"

lemma digit_char_props:
  assumes "d < 10"
  shows "is_ascii_digit (digit_char d)" and "digit_val (digit_char d) = int d"
proof -
  have c: "(of_char (digit_char d) :: nat) = 48 + d"
    using assms by (simp add: digit_char_def)
  then show "is_ascii_digit (digit_char d)" using assms by (simp add: is_ascii_digit_def)
  from c show "digit_val (digit_char d) = int d" by (simp add: digit_val_def)
qed

lemma digit_val_range: "is_ascii_digit c \<Longrightarrow> 0 \<le> digit_val c \<and> digit_val c \<le> 9"
  by (auto simp: digit_val_def is_ascii_digit_def)

lemma digit_char_val: "is_ascii_digit c \<Longrightarrow> digit_char (nat (digit_val c)) = c"
proof -
  assume d: "is_ascii_digit c"
  have "nat (digit_val c) = of_char c - 48" unfolding digit_val_def by simp
  then have "48 + nat (digit_val c) = of_char c" using d by (simp add: is_ascii_digit_def)
  then show ?thesis unfolding digit_char_def by (simp only: char_of_char)
qed

lemma not_digit_chars [simp]:
  "\<not> is_ascii_digit (CHR ''.'')" "\<not> is_ascii_digit (CHR ''-'')" "\<not> is_ascii_digit (CHR ''+'')"
  "\<not> is_ascii_digit (CHR ''T'')" "\<not> is_ascii_digit (CHR ''Z'')" "\<not> is_ascii_digit (CHR '':'')"
  "\<not> is_ascii_digit (CHR ''Y'')" "\<not> is_ascii_digit (CHR ''M'')" "\<not> is_ascii_digit (CHR ''D'')"
  "\<not> is_ascii_digit (CHR ''H'')" "\<not> is_ascii_digit (CHR ''S'')" "\<not> is_ascii_digit (CHR ''P'')"
  by (simp_all add: is_ascii_digit_def)

lemma digit_char_neq [simp]:
  assumes "d < 10"
  shows "digit_char d \<noteq> CHR ''.''" "digit_char d \<noteq> CHR ''-''" "digit_char d \<noteq> CHR ''+''"
    "digit_char d \<noteq> CHR ''T''" "digit_char d \<noteq> CHR ''P''" "digit_char d \<noteq> CHR ''Z''"
  using digit_char_props(1) [OF assms] not_digit_chars by metis+

lemma digit_char_eq_0: "d < 10 \<Longrightarrow> digit_char d = CHR ''0'' \<longleftrightarrow> d = 0"
proof
  assume "d < 10" "digit_char d = CHR ''0''"
  then have "int d = digit_val (CHR ''0'')" using digit_char_props(2) by metis
  then show "d = 0" by (simp add: digit_val_def)
next
  assume "d = 0"
  then show "digit_char d = CHR ''0''" unfolding digit_char_def by (simp only:) code_simp
qed

section \<open>Positional values\<close>

lemma digits_val_Nil [simp]: "digits_val sign acc [] = acc"
  by (simp add: digits_val_def)

lemma digits_val_Cons [simp]:
  "digits_val sign acc (d # ds) = digits_val sign (acc * 10 + sign * int d) ds"
  by (simp add: digits_val_def)

lemma digits_val_append: "digits_val sign acc (ds @ es) = digits_val sign (digits_val sign acc ds) es"
  by (simp add: digits_val_def)

lemma digits_val_acc: "digits_val sign acc ds = acc * 10 ^ length ds + digits_val sign 0 ds"
proof (induction ds arbitrary: acc)
  case Nil
  then show ?case by simp
next
  case (Cons d ds)
  show ?case
    using Cons.IH [of "acc * 10 + sign * int d"] Cons.IH [of "sign * int d"]
    by (simp add: algebra_simps)
qed

lemma digits_val_sign: "digits_val sign 0 ds = sign * digits_val 1 0 ds"
proof (induction ds)
  case Nil
  then show ?case by simp
next
  case (Cons d ds)
  then show ?case
    using digits_val_acc [of sign "sign * int d" ds] digits_val_acc [of 1 "int d" ds]
    by (simp add: algebra_simps)
qed

lemma digits_val_nonneg: "0 \<le> acc \<Longrightarrow> 0 \<le> digits_val 1 acc ds"
  by (induction ds arbitrary: acc) auto

text \<open>Appending digits never decreases the magnitude, so a number that fits had
  prefixes that fit.\<close>

lemma digits_val_grows: "sign = 1 \<or> sign = - 1 \<Longrightarrow> 0 \<le> sign * acc \<Longrightarrow>
   \<bar>acc\<bar> \<le> \<bar>digits_val sign acc ds\<bar> \<and> 0 \<le> sign * digits_val sign acc ds"
proof (induction ds arbitrary: acc)
  case Nil
  then show ?case by simp
next
  case (Cons d ds)
  have "0 \<le> sign * (acc * 10 + sign * int d)" "\<bar>acc\<bar> \<le> \<bar>acc * 10 + sign * int d\<bar>"
    using Cons.prems by (auto simp: algebra_simps)
  then show ?case using Cons.IH [OF Cons.prems(1), of "acc * 10 + sign * int d"] by simp
qed

lemma digits_val_prefix_in_int:
  assumes sign: "sign = 1 \<or> sign = - 1" and acc: "0 \<le> sign * acc"
    and fits: "in_int w (digits_val sign acc (d # ds))"
  shows "in_int w (acc * 10)" and "in_int w (acc * 10 + sign * int d)"
    and "0 \<le> sign * (acc * 10 + sign * int d)"
proof -
  let ?b = "acc * 10 + sign * int d"
  show b: "0 \<le> sign * ?b" using sign acc by (elim disjE) auto
  have le: "\<bar>?b\<bar> \<le> \<bar>digits_val sign ?b ds\<bar>" and s: "0 \<le> sign * digits_val sign ?b ds"
    using digits_val_grows [OF sign b, of ds] by auto
  have "0 \<le> ?b * digits_val sign ?b ds"
    using sign
  proof (elim disjE)
    assume "sign = 1"
    with b s show ?thesis by (intro mult_nonneg_nonneg) simp_all
  next
    assume "sign = - 1"
    with b s show ?thesis by (intro mult_nonpos_nonpos) simp_all
  qed
  with fits le show inb: "in_int w ?b" using in_int_abs_le by (metis digits_val_Cons)
  have "\<bar>acc * 10\<bar> \<le> \<bar>?b\<bar>" using sign acc by (elim disjE) auto
  moreover have "0 \<le> acc * 10 * ?b"
    using sign
  proof (elim disjE)
    assume "sign = 1"
    with acc show ?thesis by (intro mult_nonneg_nonneg) simp_all
  next
    assume "sign = - 1"
    with acc show ?thesis by (intro mult_nonpos_nonpos) simp_all
  qed
  ultimately show "in_int w (acc * 10)" using inb in_int_abs_le by blast
qed

section \<open>Prefixes and integer parsing\<close>

definition strip_prefix :: "char \<Rightarrow> string \<Rightarrow> string option" where
  "strip_prefix c s = (case s of x # xs \<Rightarrow> if x = c then Some xs else None | [] \<Rightarrow> None)"

lemma strip_prefix_simps [simp]:
  "strip_prefix c [] = None"
  "strip_prefix c (x # xs) = (if x = c then Some xs else None)"
  by (simp_all add: strip_prefix_def)

definition integer_prefix :: "string \<Rightarrow> string \<times> string" where
  "integer_prefix input = (takeWhile is_ascii_digit input, dropWhile is_ascii_digit input)"

fun decimal_prefix_from :: "bool \<Rightarrow> string \<Rightarrow> string \<times> string" where
  "decimal_prefix_from dot_seen [] = ([], [])"
| "decimal_prefix_from dot_seen (c # cs) =
     (if is_ascii_digit c then apfst ((#) c) (decimal_prefix_from dot_seen cs)
      else if c = CHR ''.'' \<and> \<not> dot_seen then apfst ((#) c) (decimal_prefix_from True cs)
      else ([], c # cs))"

definition decimal_prefix :: "string \<Rightarrow> string \<times> string" where
  "decimal_prefix input = decimal_prefix_from False input"

text \<open>\<open>i<w>::from_str\<close>: an optional sign and at least one digit, in range.\<close>

definition i_from_str :: "nat \<Rightarrow> string \<Rightarrow> int option" where
  "i_from_str w s =
     (let (sign, ds) =
            (case s of
               c # cs \<Rightarrow> if c = CHR ''+'' then (1, cs) else if c = CHR ''-'' then (- 1, cs) else (1, s)
             | [] \<Rightarrow> (1, s))
      in if ds \<noteq> [] \<and> list_all is_ascii_digit ds
         then checked_int w (digits_val sign 0 (map (\<lambda>c. nat (digit_val c)) ds))
         else None)"

text \<open>The digits of a natural number, and \<open>{:0w}\<close> formatting of a nonnegative integer.\<close>

fun nat_digits :: "nat \<Rightarrow> nat list" where
  "nat_digits n = (if n < 10 then [n] else nat_digits (n div 10) @ [n mod 10])"

declare nat_digits.simps [simp del]

definition show_nat :: "nat \<Rightarrow> string" where
  "show_nat n = map digit_char (nat_digits n)"

definition show_padded :: "nat \<Rightarrow> nat \<Rightarrow> string" where
  "show_padded w n = replicate (w - length (show_nat n)) (CHR ''0'') @ show_nat n"

lemma nat_digits_bound: "d \<in> set (nat_digits n) \<Longrightarrow> d < 10"
proof (induction n rule: nat_digits.induct)
  case (1 n)
  then show ?case by (cases "n < 10") (auto simp: nat_digits.simps [of n])
qed

lemma nat_digits_nonempty: "nat_digits n \<noteq> []"
  by (subst nat_digits.simps) simp

lemma digits_val_nat_digits: "digits_val 1 0 (nat_digits n) = int n"
proof (induction n rule: nat_digits.induct)
  case (1 n)
  show ?case
  proof (cases "n < 10")
    case True
    then show ?thesis by (simp add: nat_digits.simps [of n])
  next
    case False
    then have "digits_val 1 0 (nat_digits n) = int (n div 10) * 10 + int (n mod 10)"
      using "1.IH" by (simp add: nat_digits.simps [of n] digits_val_append)
    moreover have "int n = int (n div 10) * 10 + int (n mod 10)" by (simp add: zdiv_int zmod_int)
    ultimately show ?thesis by simp
  qed
qed

lemma map_digit_val_char: "\<forall>d \<in> set ds. d < 10 \<Longrightarrow>
   map (\<lambda>c. nat (digit_val c)) (map digit_char ds) = ds"
  by (induction ds) (auto simp: digit_char_props)

lemma all_digits_map_digit_char: "\<forall>d \<in> set ds. d < 10 \<Longrightarrow> list_all is_ascii_digit (map digit_char ds)"
  by (auto simp: list_all_iff digit_char_props)

lemma i_from_str_digits:
  assumes "ds \<noteq> []" "\<forall>d \<in> set ds. d < 10"
  shows "i_from_str w (map digit_char ds) = checked_int w (digits_val 1 0 ds)"
proof -
  obtain d es where ds: "ds = d # es" using assms(1) by (cases ds) auto
  have "d < 10" using assms(2) ds by simp
  then have "i_from_str w (map digit_char ds) =
      checked_int w (digits_val 1 0 (map (\<lambda>c. nat (digit_val c)) (map digit_char ds)))"
    using all_digits_map_digit_char [OF assms(2)] by (simp add: i_from_str_def ds)
  then show ?thesis by (simp only: map_digit_val_char [OF assms(2)])
qed

lemma i_from_str_show_nat: "in_int w (int n) \<Longrightarrow> i_from_str w (show_nat n) = Some (int n)"
  by (simp add: show_nat_def i_from_str_digits nat_digits_nonempty nat_digits_bound
      digits_val_nat_digits)

lemma integer_prefix_digits:
  assumes "list_all is_ascii_digit s" "r = [] \<or> \<not> is_ascii_digit (hd r)"
  shows "integer_prefix (s @ r) = (s, r)"
proof -
  have "takeWhile is_ascii_digit r = []" "dropWhile is_ascii_digit r = r"
    using assms(2) by (cases r; simp)+
  then show ?thesis using assms(1)
    by (simp add: integer_prefix_def takeWhile_append dropWhile_append list_all_iff)
qed

section \<open>Printing and reading machine integers\<close>

definition show_int :: "int \<Rightarrow> string" where
  "show_int x = (if x < 0 then CHR ''-'' # show_nat (nat (- x)) else show_nat (nat x))"

text \<open>\<open>u<w>::from_str\<close>: an optional plus sign and at least one digit, in range.\<close>

definition u_from_str :: "nat \<Rightarrow> string \<Rightarrow> nat option" where
  "u_from_str w s =
     (let ds = (case s of c # cs \<Rightarrow> if c = CHR ''+'' then cs else s | [] \<Rightarrow> s);
          x = digits_val 1 0 (map (\<lambda>c. nat (digit_val c)) ds)
      in if ds \<noteq> [] \<and> list_all is_ascii_digit ds \<and> in_uint w x then Some (nat x) else None)"

lemma digits_val_minus: "digits_val (- 1) (- a) ds = - digits_val 1 a ds"
proof (induction ds arbitrary: a)
  case (Cons d ds)
  have "digits_val (- 1) (- a) (d # ds) = digits_val (- 1) (- (a * 10 + int d)) ds"
    by (simp add: digits_val_def)
  also have "\<dots> = - digits_val 1 (a * 10 + int d) ds" by (rule Cons.IH)
  finally show ?case by (simp add: digits_val_def)
qed (simp add: digits_val_def)

lemma show_nat_digits: "list_all is_ascii_digit (show_nat n)"
  unfolding show_nat_def using nat_digits_bound by (intro all_digits_map_digit_char) blast

lemma show_nat_nonempty: "show_nat n \<noteq> []"
  by (simp add: show_nat_def nat_digits_nonempty)

lemma show_nat_val: "digits_val 1 0 (map (\<lambda>c. nat (digit_val c)) (show_nat n)) = int n"
  by (metis digits_val_nat_digits map_digit_val_char nat_digits_bound show_nat_def)

lemma i_from_str_show_int: "in_int w x \<Longrightarrow> i_from_str w (show_int x) = Some x"
proof (cases "x < 0")
  case True
  assume x: "in_int w x"
  have "digits_val (- 1) 0 (map (\<lambda>c. nat (digit_val c)) (show_nat (nat (- x)))) = x"
    using digits_val_minus [of 0] show_nat_val [of "nat (- x)"] True by simp
  then show ?thesis using True x
    by (simp add: show_int_def i_from_str_def show_nat_digits show_nat_nonempty del: map_map)
qed (simp add: show_int_def i_from_str_show_nat)

lemma u_from_str_show_nat: "in_uint w (int n) \<Longrightarrow> u_from_str w (show_nat n) = Some n"
proof -
  assume n: "in_uint w (int n)"
  have "(case show_nat n of c # cs \<Rightarrow> if c = CHR ''+'' then cs else show_nat n | [] \<Rightarrow> show_nat n) = show_nat n"
    using show_nat_digits [of n] by (cases "show_nat n") (auto simp: is_ascii_digit_def)
  then show ?thesis using n
    by (simp add: u_from_str_def show_nat_digits show_nat_nonempty show_nat_val del: map_map)
qed

end
