(* ===== verification/Checked_Arith.thy ===== *)
theory Checked_Arith
  imports Rust_Prelude
begin

text \<open>
  Two interfaces of the XSD value types. \<open>checked_additive\<close> is the contract of every
  value that wraps one machine integer and offers \<open>checked_add\<close>, \<open>checked_sub\<close> and
  \<open>checked_neg\<close>; the group laws with overflow are proved once and reach \<open>Integer\<close>,
  \<open>Int\<close>, \<open>Decimal\<close>, \<open>YearMonthDuration\<close> and \<open>DayTimeDuration\<close> by
  interpretation. The second half models the big-endian byte form of the machine
  integers, which \<open>to_be_bytes\<close> and \<open>from_be_bytes\<close> of the value types use.
\<close>

datatype thin_error = ExpectedError

type_synonym 'a thin_result = "(thin_error, 'a) result"

section \<open>Values that wrap one checked machine integer\<close>

locale checked_additive =
  fixes width :: nat
    and repr :: "'a \<Rightarrow> int"
    and add :: "'a \<Rightarrow> 'a \<Rightarrow> 'a thin_result"
    and sub :: "'a \<Rightarrow> 'a \<Rightarrow> 'a thin_result"
    and neg :: "'a \<Rightarrow> 'a thin_result"
  assumes repr_inj: "repr x = repr y \<Longrightarrow> x = y"
    and add_spec: "add x y = Inr z \<longleftrightarrow> repr z = repr x + repr y \<and> in_int width (repr z)"
    and sub_spec: "sub x y = Inr z \<longleftrightarrow> repr z = repr x - repr y \<and> in_int width (repr z)"
    and neg_spec: "neg x = Inr z \<longleftrightarrow> repr z = - repr x \<and> in_int width (repr z)"
    and repr_surj: "\<exists>x. repr x = i"
begin

lemma result_eqI: "(\<And>z. r = Inr z \<longleftrightarrow> s = Inr z) \<Longrightarrow> (r :: 'b thin_result) = s"
  by (cases r; cases s) (metis thin_error.exhaust sum.inject(2) sum.distinct(1))+

lemma add_commute: "add x y = add y x"
  by (rule result_eqI) (simp add: add_spec add.commute)

lemma add_assoc:
  assumes "add x y = Inr u" "add y z = Inr w"
  shows "add u z = add x w"
  using assms by (intro result_eqI) (simp add: add_spec add.assoc)

lemma sub_add_cancel: "in_int width (repr x) \<Longrightarrow> add x y = Inr z \<Longrightarrow> sub z y = Inr x"
  by (auto simp: add_spec sub_spec)

lemma add_sub_cancel: "in_int width (repr x) \<Longrightarrow> sub x y = Inr z \<Longrightarrow> add z y = Inr x"
  by (auto simp: add_spec sub_spec)

lemma neg_neg: "in_int width (repr x) \<Longrightarrow> neg x = Inr y \<Longrightarrow> neg y = Inr x"
  by (auto simp: neg_spec)

lemma sub_neg: "neg y = Inr n \<Longrightarrow> sub x y = add x n"
  by (rule result_eqI) (simp add: add_spec sub_spec neg_spec)

lemma add_error_iff: "add x y = Inl ExpectedError \<longleftrightarrow> \<not> in_int width (repr x + repr y)"
proof -
  obtain s where s: "repr s = repr x + repr y" using repr_surj by blast
  show ?thesis
  proof (cases "add x y")
    case (Inl e)
    then show ?thesis using s add_spec [of x y s] by (cases e) simp
  next
    case (Inr z)
    then show ?thesis using add_spec [of x y z] by auto
  qed
qed

lemma add_mono:
  assumes "add x y = Inr u" "add x z = Inr v" "repr y \<le> repr z"
  shows "repr u \<le> repr v"
  using assms by (simp add: add_spec)

end

section \<open>Big-endian bytes\<close>

text \<open>A byte is a natural number below 256; \<open>to_be_bytes n x\<close> is the two's
  complement of \<open>x\<close> on \<open>n\<close> bytes, most significant first.\<close>

fun unsigned_be_bytes :: "nat \<Rightarrow> int \<Rightarrow> nat list" where
  "unsigned_be_bytes 0 x = []"
| "unsigned_be_bytes (Suc n) x = unsigned_be_bytes n (x div 256) @ [nat (x mod 256)]"

definition to_be_bytes :: "nat \<Rightarrow> int \<Rightarrow> nat list" where
  "to_be_bytes n x = unsigned_be_bytes n (x mod 256 ^ n)"

definition from_be_bytes :: "nat list \<Rightarrow> int" where
  "from_be_bytes bs =
     as_int (8 * length bs) (foldl (\<lambda>acc b. acc * 256 + int b) 0 bs)"

lemma length_unsigned_be_bytes [simp]: "length (unsigned_be_bytes n x) = n"
  by (induction n arbitrary: x) auto

lemma length_to_be_bytes [simp]: "length (to_be_bytes n x) = n"
  by (simp add: to_be_bytes_def)

lemma unsigned_be_bytes_range: "b \<in> set (unsigned_be_bytes n x) \<Longrightarrow> b < 256"
  by (induction n arbitrary: x) (auto simp: nat_less_iff)

lemma foldl_unsigned_be_bytes:
  "0 \<le> x \<Longrightarrow> x < 256 ^ n \<Longrightarrow>
   foldl (\<lambda>acc b. acc * 256 + int b) 0 (unsigned_be_bytes n x) = x"
proof (induction n arbitrary: x)
  case 0
  then show ?case by simp
next
  case (Suc n)
  have "x div 256 < 256 ^ n" using Suc.prems by (simp add: div_less_iff_less_mult mult.commute)
  then have "foldl (\<lambda>acc b. acc * 256 + int b) 0 (unsigned_be_bytes n (x div 256)) = x div 256"
    using Suc.prems by (intro Suc.IH) (simp_all add: pos_imp_zdiv_nonneg_iff)
  then show ?case by simp
qed

theorem from_to_be_bytes: "0 < n \<Longrightarrow> in_int (8 * n) x \<Longrightarrow> from_be_bytes (to_be_bytes n x) = x"
proof -
  assume n: "0 < n" and x: "in_int (8 * n) x"
  have p: "(256::int) ^ n = 2 ^ (8 * n)" by (simp add: power_mult)
  have "from_be_bytes (to_be_bytes n x) = as_int (8 * n) (x mod 2 ^ (8 * n))"
    by (simp add: from_be_bytes_def to_be_bytes_def foldl_unsigned_be_bytes p)
  also have "\<dots> = as_int (8 * n) x"
    by (simp add: as_int_def mod_add_left_eq)
  also have "\<dots> = x" using n x by (simp add: as_int_id)
  finally show ?thesis .
qed

end
