(* ===== verification/Redb_Term.thy ===== *)
theory Redb_Term
  imports Checked_Arith
begin

text \<open>
  The terms of the local object id dictionary and their byte form as keys and values of the
  embedded database (\<open>lib/storage-deltalake/src/local_object_ids/redb/term.rs\<close>). A Rust string
  is the sequence of its UTF-8 bytes, one \<^typ>\<open>char\<close> each. Shown: reading the bytes of a term
  gives the term back, and the order on the byte forms is the derived order of the terms.
\<close>

section \<open>Terms\<close>

record LocalDictionaryTerm =
  ldt_term_type :: int
  ldt_value :: string
  ldt_data_type :: "string option"
  ldt_language :: "string option"

record RedbTerm =
  rt_term_type :: int
  rt_value :: string
  rt_data_type :: "string option"
  rt_language :: "string option"

definition redb_from_local :: "LocalDictionaryTerm \<Rightarrow> RedbTerm" where
  "redb_from_local value = \<lparr>rt_term_type = ldt_term_type value, rt_value = ldt_value value,
     rt_data_type = ldt_data_type value, rt_language = ldt_language value\<rparr>"

definition as_local_dictionary_term :: "RedbTerm \<Rightarrow> LocalDictionaryTerm" where
  "as_local_dictionary_term self = \<lparr>ldt_term_type = rt_term_type self, ldt_value = rt_value self,
     ldt_data_type = rt_data_type self, ldt_language = rt_language self\<rparr>"

definition equivalent :: "RedbTerm \<Rightarrow> LocalDictionaryTerm \<Rightarrow> bool" where
  "equivalent self key \<longleftrightarrow> rt_term_type self = ldt_term_type key \<and> rt_value self = ldt_value key \<and>
     rt_data_type self = ldt_data_type key \<and> rt_language self = ldt_language key"

section \<open>Bytes and strings\<close>

definition str_bytes :: "string \<Rightarrow> nat list" where
  "str_bytes s = map of_char s"

definition continuation :: "nat \<Rightarrow> bool" where
  "continuation b \<longleftrightarrow> 128 \<le> b \<and> b < 192"

text \<open>Well-formed UTF-8: no overlong forms, no surrogates, nothing above \<open>U+10FFFF\<close>.\<close>

fun utf8_valid :: "nat list \<Rightarrow> bool" where
  "utf8_valid [] \<longleftrightarrow> True"
| "utf8_valid (a # bs) \<longleftrightarrow>
     (if a < 128 then utf8_valid bs
      else if 194 \<le> a \<and> a < 224 then
        (case bs of b # cs \<Rightarrow> continuation b \<and> utf8_valid cs | _ \<Rightarrow> False)
      else if 224 \<le> a \<and> a < 240 then
        (case bs of b # c # ds \<Rightarrow> continuation b \<and> continuation c \<and> (a = 224 \<longrightarrow> 160 \<le> b) \<and> (a = 237 \<longrightarrow> b < 160) \<and> utf8_valid ds
         | _ \<Rightarrow> False)
      else if 240 \<le> a \<and> a < 245 then
        (case bs of b # c # d # es \<Rightarrow> continuation b \<and> continuation c \<and> continuation d \<and> (a = 240 \<longrightarrow> 144 \<le> b) \<and> (a = 244 \<longrightarrow> b < 144) \<and>
           utf8_valid es | _ \<Rightarrow> False)
      else False)"

definition from_utf8 :: "nat list \<Rightarrow> string option" where
  "from_utf8 bs = (if utf8_valid bs then Some (map char_of bs) else None)"

definition to_le_bytes :: "nat \<Rightarrow> int \<Rightarrow> nat list" where
  "to_le_bytes n x = rev (to_be_bytes n x)"

definition i_from_le_bytes :: "nat list \<Rightarrow> int" where
  "i_from_le_bytes bs = from_be_bytes (rev bs)"

definition u_from_le_bytes :: "nat list \<Rightarrow> int" where
  "u_from_le_bytes bs = as_uint (8 * length bs) (from_be_bytes (rev bs))"

text \<open>The slice \<open>data[a..b]\<close>, which panics when it is out of range.\<close>

definition slice :: "nat \<Rightarrow> nat \<Rightarrow> 'a list \<Rightarrow> 'a list option" where
  "slice a b xs = (if a \<le> b \<and> b \<le> length xs then Some (take (b - a) (drop a xs)) else None)"

section \<open>Encoding\<close>

definition opt_len_bytes :: "nat list option \<Rightarrow> nat list" where
  "opt_len_bytes bs = (case bs of Some b \<Rightarrow> to_le_bytes 4 (as_int 32 (int (length b))) | None \<Rightarrow> to_le_bytes 4 (- 1))"

definition redb_as_bytes :: "RedbTerm \<Rightarrow> nat list" where
  "redb_as_bytes term =
     (let val_bytes = str_bytes (rt_value term);
          dt_bytes = map_option str_bytes (rt_data_type term);
          lang_bytes = map_option str_bytes (rt_language term)
      in [nat (as_uint 8 (rt_term_type term))] @
         to_le_bytes 4 (as_uint 32 (int (length val_bytes))) @
         opt_len_bytes dt_bytes @ opt_len_bytes lang_bytes @
         val_bytes @ (case dt_bytes of Some b \<Rightarrow> b | None \<Rightarrow> []) @ (case lang_bytes of Some b \<Rightarrow> b | None \<Rightarrow> []))"

text \<open>The three length fields and the parts after them; \<^term>\<open>None\<close> is a panic.\<close>

definition opt_slice :: "nat \<Rightarrow> int \<Rightarrow> nat list \<Rightarrow> (nat list option \<times> nat) option" where
  "opt_slice offset len data =
     (if 0 \<le> len then map_option (\<lambda>b. (Some b, offset + nat len)) (slice offset (offset + nat len) data)
      else Some (None, offset))"

definition get_slices :: "nat list \<Rightarrow> (nat list \<times> nat list option \<times> nat list option) option" where
  "get_slices data = do {
     val_len \<leftarrow> map_option u_from_le_bytes (slice 1 5 data);
     dt_len \<leftarrow> map_option i_from_le_bytes (slice 5 9 data);
     lang_len \<leftarrow> map_option i_from_le_bytes (slice 9 13 data);
     val_bytes \<leftarrow> slice 13 (13 + nat val_len) data;
     (dt_bytes, offset) \<leftarrow> opt_slice (13 + nat val_len) dt_len data;
     (lang_bytes, _) \<leftarrow> opt_slice offset lang_len data;
     Some (val_bytes, dt_bytes, lang_bytes)
   }"

definition opt_from_utf8 :: "nat list option \<Rightarrow> string option option" where
  "opt_from_utf8 bs = (case bs of None \<Rightarrow> Some None | Some b \<Rightarrow> map_option Some (from_utf8 b))"

definition redb_from_bytes :: "nat list \<Rightarrow> RedbTerm option" where
  "redb_from_bytes data = do {
     term_type \<leftarrow> (case data of [] \<Rightarrow> None | b # _ \<Rightarrow> Some (as_int 8 (int b)));
     (val_bytes, dt_bytes, lang_bytes) \<leftarrow> get_slices data;
     v \<leftarrow> from_utf8 val_bytes;
     data_type \<leftarrow> opt_from_utf8 dt_bytes;
     language \<leftarrow> opt_from_utf8 lang_bytes;
     Some \<lparr>rt_term_type = term_type, rt_value = v, rt_data_type = data_type, rt_language = language\<rparr>
   }"

section \<open>Order\<close>

fun slice_cmp :: "nat list \<Rightarrow> nat list \<Rightarrow> Ordering" where
  "slice_cmp [] [] = Equal"
| "slice_cmp [] (b # bs) = Less"
| "slice_cmp (a # as) [] = Greater"
| "slice_cmp (a # as) (b # bs) = (if a < b then Less else if b < a then Greater else slice_cmp as bs)"

definition option_cmp :: "('a \<Rightarrow> 'a \<Rightarrow> Ordering) \<Rightarrow> 'a option \<Rightarrow> 'a option \<Rightarrow> Ordering" where
  "option_cmp cmp x y =
     (case (x, y) of (None, None) \<Rightarrow> Equal | (None, Some _) \<Rightarrow> Less | (Some _, None) \<Rightarrow> Greater | (Some a, Some b) \<Rightarrow> cmp a b)"

definition then_cmp :: "Ordering \<Rightarrow> Ordering \<Rightarrow> Ordering" where
  "then_cmp a b = (if a \<noteq> Equal then a else b)"

definition redb_compare :: "nat list \<Rightarrow> nat list \<Rightarrow> Ordering option" where
  "redb_compare data1 data2 =
     (case (data1, data2) of
        (b1 # _, b2 # _) \<Rightarrow>
          let type_cmp = int_cmp (as_int 8 (int b1)) (as_int 8 (int b2))
          in if type_cmp \<noteq> Equal then Some type_cmp
             else do {
               (val1, dt1, lang1) \<leftarrow> get_slices data1;
               (val2, dt2, lang2) \<leftarrow> get_slices data2;
               Some (then_cmp (slice_cmp val1 val2)
                 (then_cmp (option_cmp slice_cmp dt1 dt2) (option_cmp slice_cmp lang1 lang2)))
             }
      | _ \<Rightarrow> None)"

text \<open>The derived order of \<open>RedbTerm\<close>: field by field, strings by their bytes.\<close>

definition str_cmp :: "string \<Rightarrow> string \<Rightarrow> Ordering" where
  "str_cmp s t = slice_cmp (str_bytes s) (str_bytes t)"

definition redb_term_cmp :: "RedbTerm \<Rightarrow> RedbTerm \<Rightarrow> Ordering" where
  "redb_term_cmp s t =
     then_cmp (int_cmp (rt_term_type s) (rt_term_type t)) (then_cmp (str_cmp (rt_value s) (rt_value t))
       (then_cmp (option_cmp str_cmp (rt_data_type s) (rt_data_type t)) (option_cmp str_cmp (rt_language s) (rt_language t))))"

section \<open>Round trip\<close>

definition str_wf :: "string \<Rightarrow> bool" where
  "str_wf s \<longleftrightarrow> utf8_valid (str_bytes s)"

text \<open>A term that fits the format: the datatype and the language are shorter than two gigabytes,
  the value shorter than four.\<close>

definition redb_term_wf :: "RedbTerm \<Rightarrow> bool" where
  "redb_term_wf t \<longleftrightarrow> in_int 8 (rt_term_type t) \<and> str_wf (rt_value t) \<and> length (rt_value t) < 2 ^ 32 \<and>
     (\<forall>d. rt_data_type t = Some d \<longrightarrow> str_wf d \<and> length d < 2 ^ 31) \<and>
     (\<forall>l. rt_language t = Some l \<longrightarrow> str_wf l \<and> length l < 2 ^ 31)"

lemma from_utf8_str: "str_wf s \<Longrightarrow> from_utf8 (str_bytes s) = Some s"
  by (simp add: from_utf8_def str_wf_def str_bytes_def o_def)

lemma opt_from_utf8_str: "(\<And>d. s = Some d \<Longrightarrow> str_wf d) \<Longrightarrow> opt_from_utf8 (map_option str_bytes s) = Some s"
  by (cases s) (simp_all add: opt_from_utf8_def from_utf8_str)

lemma length_to_le_bytes [simp]: "length (to_le_bytes n x) = n"
  by (simp add: to_le_bytes_def)

lemma length_opt_len_bytes [simp]: "length (opt_len_bytes b) = 4"
  by (cases b) (simp_all add: opt_len_bytes_def)

lemma i_le_bytes: "in_int 32 x \<Longrightarrow> i_from_le_bytes (to_le_bytes 4 x) = x"
  unfolding i_from_le_bytes_def to_le_bytes_def rev_rev_ident by (rule from_to_be_bytes) simp_all

lemma u_le_bytes:
  assumes "0 \<le> x" "x < 2 ^ 32"
  shows "u_from_le_bytes (to_le_bytes 4 x) = x"
proof -
  have "foldl (\<lambda>acc b. acc * 256 + int b) 0 (unsigned_be_bytes 4 x) = x"
    using assms by (intro foldl_unsigned_be_bytes) simp_all
  moreover have "x mod 256 ^ 4 = x" using assms by simp
  ultimately have "from_be_bytes (to_be_bytes 4 x) = as_int 32 x" by (simp add: from_be_bytes_def to_be_bytes_def)
  moreover have "as_int 32 x mod 2 ^ 32 = x" using assms by (simp add: as_int_def mod_diff_left_eq)
  ultimately show ?thesis by (simp add: u_from_le_bytes_def to_le_bytes_def as_uint_def)
qed

lemma slice_append: "a = length xs \<Longrightarrow> b = a + length ys \<Longrightarrow> data = xs @ ys @ zs \<Longrightarrow> slice a b data = Some ys"
  by (simp add: slice_def)

lemma opt_slice_append:
  assumes "a = length xs" "data = xs @ (case y of Some b \<Rightarrow> b | None \<Rightarrow> []) @ zs"
    and len: "case y of Some b \<Rightarrow> len = int (length b) | None \<Rightarrow> len = - 1"
  shows "opt_slice a len data = Some (y, a + length (case y of Some b \<Rightarrow> b | None \<Rightarrow> []))"
proof (cases y)
  case (Some b)
  then have "slice a (a + nat len) data = Some b" using assms by (intro slice_append [of a xs _ b data zs]) simp_all
  then show ?thesis using Some len by (simp add: opt_slice_def)
qed (use len in \<open>simp add: opt_slice_def\<close>)

lemma opt_len_read:
  assumes "\<And>b. y = Some b \<Longrightarrow> length b < 2 ^ 31"
  shows "case y of Some b \<Rightarrow> i_from_le_bytes (opt_len_bytes y) = int (length b) | None \<Rightarrow> i_from_le_bytes (opt_len_bytes y) = - 1"
proof (cases y)
  case None
  then show ?thesis using i_le_bytes [of "- 1"] by (simp add: opt_len_bytes_def in_int_def)
next
  case (Some b)
  then have b: "int (length b) < 2 ^ 31" using assms [OF Some] by simp
  then have "as_int 32 (int (length b)) = int (length b)" by (simp add: as_int_def)
  then show ?thesis using Some i_le_bytes [of "int (length b)"] b by (simp add: opt_len_bytes_def in_int_def)
qed

lemma get_slices_as_bytes:
  assumes "redb_term_wf t"
  shows "get_slices (redb_as_bytes t) = Some (str_bytes (rt_value t), map_option str_bytes (rt_data_type t), map_option str_bytes (rt_language t))"
proof -
  let ?v = "str_bytes (rt_value t)" and ?d = "map_option str_bytes (rt_data_type t)" and ?l = "map_option str_bytes (rt_language t)"
  let ?D = "case ?d of Some b \<Rightarrow> b | None \<Rightarrow> []" and ?L = "case ?l of Some b \<Rightarrow> b | None \<Rightarrow> []"
  define ty where "ty = [nat (as_uint 8 (rt_term_type t))]"
  define vl where "vl = to_le_bytes 4 (as_uint 32 (int (length ?v)))"
  define data where "data = ty @ vl @ opt_len_bytes ?d @ opt_len_bytes ?l @ ?v @ ?D @ ?L"
  have b: "redb_as_bytes t = data" by (simp add: redb_as_bytes_def Let_def data_def ty_def vl_def)
  have len: "length ty = 1" "length vl = 4" by (simp_all add: ty_def vl_def)
  have vlen: "u_from_le_bytes vl = int (length ?v)"
  proof -
    have "int (length ?v) < 2 ^ 32" using assms by (simp add: redb_term_wf_def str_bytes_def)
    then show ?thesis using u_le_bytes [of "int (length ?v)"] by (simp add: vl_def as_uint_def)
  qed
  have dlen: "case ?d of Some b \<Rightarrow> i_from_le_bytes (opt_len_bytes ?d) = int (length b) | None \<Rightarrow> i_from_le_bytes (opt_len_bytes ?d) = - 1"
    and llen: "case ?l of Some b \<Rightarrow> i_from_le_bytes (opt_len_bytes ?l) = int (length b) | None \<Rightarrow> i_from_le_bytes (opt_len_bytes ?l) = - 1"
    using assms by (intro opt_len_read; auto simp: redb_term_wf_def str_bytes_def)+
  have s1: "slice 1 5 data = Some vl"
    by (rule slice_append [of _ ty _ _ data "opt_len_bytes ?d @ opt_len_bytes ?l @ ?v @ ?D @ ?L"]) (simp_all add: len data_def)
  have s2: "slice 5 9 data = Some (opt_len_bytes ?d)"
    by (rule slice_append [of _ "ty @ vl" _ _ data "opt_len_bytes ?l @ ?v @ ?D @ ?L"]) (simp_all add: len data_def)
  have s3: "slice 9 13 data = Some (opt_len_bytes ?l)"
    by (rule slice_append [of _ "ty @ vl @ opt_len_bytes ?d" _ _ data "?v @ ?D @ ?L"]) (simp_all add: len data_def)
  have s4: "slice 13 (13 + length ?v) data = Some ?v"
    by (rule slice_append [of _ "ty @ vl @ opt_len_bytes ?d @ opt_len_bytes ?l" _ _ data "?D @ ?L"]) (simp_all add: len data_def)
  let ?pre = "ty @ vl @ opt_len_bytes ?d @ opt_len_bytes ?l @ ?v"
  have o1: "opt_slice (13 + length ?v) (i_from_le_bytes (opt_len_bytes ?d)) data = Some (?d, 13 + length ?v + length ?D)"
    using dlen by (intro opt_slice_append [of _ ?pre _ _ ?L]) (simp_all add: len data_def)
  have o2: "opt_slice (13 + length ?v + length ?D) (i_from_le_bytes (opt_len_bytes ?l)) data = Some (?l, 13 + length ?v + length ?D + length ?L)"
    using llen by (intro opt_slice_append [of _ "?pre @ ?D" _ _ "[]"]) (simp_all add: len data_def)
  show ?thesis unfolding b get_slices_def using s1 s2 s3 s4 vlen o1 o2 by simp
qed

lemma byte_i8: "in_int 8 x \<Longrightarrow> as_int 8 (int (nat (as_uint 8 x))) = x"
  using as_int_id [of 8 x] by (simp add: as_uint_def as_int_def mod_add_left_eq)

lemma redb_as_bytes_head:
  assumes "redb_term_wf t"
  obtains b bs where "redb_as_bytes t = b # bs" "as_int 8 (int b) = rt_term_type t"
  using that [of "nat (as_uint 8 (rt_term_type t))"] assms byte_i8 [of "rt_term_type t"]
  by (simp add: redb_as_bytes_def Let_def redb_term_wf_def)

lemma slice_cmp_Equal: "slice_cmp xs ys = Equal \<longleftrightarrow> xs = ys"
  by (induction xs ys rule: slice_cmp.induct) auto

lemma str_cmp_Equal: "str_cmp s t = Equal \<longleftrightarrow> s = t"
  by (simp add: str_cmp_def slice_cmp_Equal str_bytes_def inj_map_eq_map inj_of_char)

lemma option_cmp_Equal: "(\<And>a b. cmp a b = Equal \<longleftrightarrow> a = b) \<Longrightarrow> option_cmp cmp x y = Equal \<longleftrightarrow> x = y"
  by (cases x; cases y) (simp_all add: option_cmp_def)

lemma redb_term_cmp_Equal: "redb_term_cmp s t = Equal \<longleftrightarrow> s = t"
  by (cases s; cases t) (simp add: redb_term_cmp_def then_cmp_def str_cmp_Equal option_cmp_Equal)

lemma str_cmp_fun: "str_cmp = (\<lambda>s t. slice_cmp (str_bytes s) (str_bytes t))"
  by (intro ext) (simp add: str_cmp_def)

lemma option_cmp_map: "option_cmp cmp (map_option f x) (map_option f y) = option_cmp (\<lambda>a b. cmp (f a) (f b)) x y"
  by (cases x; cases y) (simp_all add: option_cmp_def)

text \<open>C36: The byte form of a dictionary term is faithful: reading it back never panics and gives the
  term, the database compares the bytes of two terms exactly as the derived order compares the
  terms, and two terms with equal bytes are equal.\<close>

theorem redb_term_bytes:
  assumes "redb_term_wf s" "redb_term_wf t"
  shows "redb_from_bytes (redb_as_bytes t) = Some t \<and>
    redb_compare (redb_as_bytes s) (redb_as_bytes t) = Some (redb_term_cmp s t) \<and>
    (redb_compare (redb_as_bytes s) (redb_as_bytes t) = Some Equal \<longleftrightarrow> s = t)"
proof -
  obtain b bs where t: "redb_as_bytes t = b # bs" "as_int 8 (int b) = rt_term_type t" by (rule redb_as_bytes_head [OF assms(2)])
  obtain a as where s: "redb_as_bytes s = a # as" "as_int 8 (int a) = rt_term_type s" by (rule redb_as_bytes_head [OF assms(1)])
  note slices = get_slices_as_bytes [OF assms(1), unfolded s(1)] get_slices_as_bytes [OF assms(2), unfolded t(1)]
  have cmp: "redb_compare (redb_as_bytes s) (redb_as_bytes t) = Some (redb_term_cmp s t)"
    unfolding s t redb_compare_def
    by (simp add: s t slices redb_term_cmp_def then_cmp_def str_cmp_fun option_cmp_map Let_def)
  have "redb_from_bytes (redb_as_bytes t) = Some t"
    unfolding redb_from_bytes_def t using assms(2) slices t
    by (simp add: redb_term_wf_def from_utf8_str opt_from_utf8_str)
  then show ?thesis using cmp redb_term_cmp_Equal by simp
qed

theorem redb_term_bytes_witness:
  "redb_from_bytes (redb_as_bytes \<lparr>rt_term_type = 2, rt_value = ''a'', rt_data_type = Some ''d'', rt_language = Some ''en''\<rparr>) =
     Some \<lparr>rt_term_type = 2, rt_value = ''a'', rt_data_type = Some ''d'', rt_language = Some ''en''\<rparr> \<and>
   redb_compare (redb_as_bytes \<lparr>rt_term_type = 2, rt_value = ''a'', rt_data_type = None, rt_language = None\<rparr>)
     (redb_as_bytes \<lparr>rt_term_type = 2, rt_value = ''a'', rt_data_type = Some ''d'', rt_language = Some ''en''\<rparr>) = Some Less"
proof -
  let ?s = "\<lparr>rt_term_type = 2, rt_value = ''a'', rt_data_type = None, rt_language = None\<rparr>"
  let ?t = "\<lparr>rt_term_type = 2, rt_value = ''a'', rt_data_type = Some ''d'', rt_language = Some ''en''\<rparr>"
  have "redb_term_wf ?s" "redb_term_wf ?t" by (simp_all add: redb_term_wf_def in_int_def str_wf_def str_bytes_def of_char_def)
  moreover have "redb_term_cmp ?s ?t = Less"
    by (simp add: redb_term_cmp_def then_cmp_def option_cmp_def str_cmp_def slice_cmp_Equal)
  ultimately show ?thesis using redb_term_bytes [of ?s ?t] by simp
qed

end
