(* ===== verification/Object_Id_Claim.thy ===== *)
theory Object_Id_Claim
  imports Rust_Text Redb_Term
begin

text \<open>
  Claims of object id ranges (\<open>local_object_ids/claim.rs\<close> and \<open>objectids/claimer.rs\<close> of
  \<open>lib/storage-deltalake\<close>). A node hands out ids from the range it holds and asks a claimer for
  the next range. The claimer of a Delta table reads the next free id from a file of the object
  store and writes it back increased, with a conditional put and at most ten retries. The object
  store is a parameter, the record \<open>ObjectStore\<close>; what the claimer relies on is
  \<open>conditional_store\<close>. Nodes run concurrently: \<open>claim_step\<close> interleaves the reads and writes of
  any number of them. Shown: the ranges handed to the nodes never overlap.
\<close>

section \<open>Claims of a node\<close>

datatype LocalObjectIdError =
    Storage string | NotFound int | ObjectIdClaimer string | Corruption string
  | ArrowErr string | DataFusionErr string

type_synonym id_range = "int \<times> int"

text \<open>A claimer is a fallible operation on the world it shares with other nodes.\<close>

type_synonym 'w claimer = "'w \<Rightarrow> (LocalObjectIdError, id_range) result \<times> 'w"

definition static_claim_next_range :: "'w claimer" where
  "static_claim_next_range w = (Inr (0, int_max 64), w)"

record 'w ObjectIdClaim =
  claim_state :: "id_range option"
  claimer :: "'w claimer option"

record NextIdResult =
  next_id :: int
  newly_claimed :: "id_range option"

definition peek_current_claim :: "'w ObjectIdClaim \<Rightarrow> id_range option" where
  "peek_current_claim c = claim_state c"

definition set_claim_state :: "id_range option \<Rightarrow> 'w ObjectIdClaim \<Rightarrow> 'w ObjectIdClaim" where
  "set_claim_state state c = c\<lparr>claim_state := state\<rparr>"

text \<open>The second half of \<open>acquire_next_id\<close>: the claim is used up or there is none.\<close>

definition acquire_from_claimer ::
    "'w ObjectIdClaim \<Rightarrow> 'w \<Rightarrow> (LocalObjectIdError, NextIdResult) result \<times> 'w ObjectIdClaim \<times> 'w" where
  "acquire_from_claimer c w =
     (case claimer c of
        None \<Rightarrow> (Inl (ObjectIdClaimer ''ObjectIdClaimer is required to claim new ID range but none was configured''), c, w)
      | Some f \<Rightarrow>
          (case f w of
             (Inl e, w') \<Rightarrow> (Inl e, c, w')
           | (Inr (next_free, last_free), w') \<Rightarrow>
               if next_free < last_free then
                 (Inr \<lparr>next_id = next_free, newly_claimed = Some (next_free, last_free)\<rparr>,
                  c\<lparr>claim_state := Some (as_int 64 (next_free + 1), last_free)\<rparr>, w')
               else if next_free = last_free then
                 (Inr \<lparr>next_id = next_free, newly_claimed = Some (next_free, last_free)\<rparr>, c\<lparr>claim_state := None\<rparr>, w')
               else (Inl (ObjectIdClaimer ''Invalid claim retruned from object id claimer.''), c, w')))"

definition acquire_next_id ::
    "'w ObjectIdClaim \<Rightarrow> 'w \<Rightarrow> (LocalObjectIdError, NextIdResult) result \<times> 'w ObjectIdClaim \<times> 'w" where
  "acquire_next_id c w =
     (case claim_state c of
        Some (next_free, last_free) \<Rightarrow>
          if next_free < last_free then
            (Inr \<lparr>next_id = next_free, newly_claimed = None\<rparr>, c\<lparr>claim_state := Some (as_int 64 (next_free + 1), last_free)\<rparr>, w)
          else if next_free = last_free then acquire_from_claimer (c\<lparr>claim_state := None\<rparr>) w
          else (Inl (ObjectIdClaimer ''Invalid range in object id claim.''), c, w)
      | None \<Rightarrow> acquire_from_claimer c w)"

definition validate_initial_claim ::
    "int option \<Rightarrow> int option \<Rightarrow> (LocalObjectIdError, id_range option) result" where
  "validate_initial_claim next_free_id last_free_id =
     (case (next_free_id, last_free_id) of
        (Some nxt, Some lst) \<Rightarrow>
          if nxt > lst then
            Inl (Corruption (''Invalid object id claim when loading local object id dictionary (['' @ show_int nxt @
              '', '' @ show_int lst @ ''])''))
          else Inr (Some (nxt, lst))
      | (None, None) \<Rightarrow> Inr None
      | _ \<Rightarrow> Inl (Corruption ''Only one claim tracking value was found in the local object id mapping.''))"

section \<open>The object store\<close>

text \<open>What the claimer calls of the object store: reading an object with its version information,
  and a put in one of three modes.\<close>

datatype GetOutcome =
    Found (found_e_tag: "string option") (found_version: "string option") (found_bytes: "(string, nat list) result")
  | GetNotFound
  | GetErr string

datatype PutMode = Overwrite | Create | Update "string option" "string option"

datatype PutOutcome = PutOk | NotImplemented | NotSupported | AlreadyExists | Precondition | PutErr string

record 's ObjectStore =
  os_get :: "'s \<Rightarrow> GetOutcome"
  os_put :: "'s \<Rightarrow> PutMode \<Rightarrow> nat list \<Rightarrow> 's \<times> PutOutcome"

section \<open>The claimer of a Delta table\<close>

datatype ObjectIdClaimerPutMode = AlwaysOverwrite | EnsureVersion

record DeltaObjectIdClaimer =
  claim_size :: int
  put_mode :: ObjectIdClaimerPutMode

definition put_mode_for :: "ObjectIdClaimerPutMode \<Rightarrow> (string option \<times> string option) option \<Rightarrow> PutMode" where
  "put_mode_for self version_info =
     (case self of
        AlwaysOverwrite \<Rightarrow> Overwrite
      | EnsureVersion \<Rightarrow> (case version_info of Some (e_tag, version) \<Rightarrow> Update e_tag version | None \<Rightarrow> Create))"

definition trim_matches :: "char \<Rightarrow> string \<Rightarrow> string" where
  "trim_matches c s = rev (dropWhile ((=) c) (rev (dropWhile ((=) c) s)))"

text \<open>\<open>str::trim\<close>: the characters with the Unicode property \<open>White_Space\<close> take one, two or three
  bytes.\<close>

definition white1 :: "nat \<Rightarrow> bool" where
  "white1 a \<longleftrightarrow> 9 \<le> a \<and> a \<le> 13 \<or> a = 32"

definition white2 :: "nat \<Rightarrow> nat \<Rightarrow> bool" where
  "white2 a b \<longleftrightarrow> a = 194 \<and> (b = 133 \<or> b = 160)"

definition white3 :: "nat \<Rightarrow> nat \<Rightarrow> nat \<Rightarrow> bool" where
  "white3 a b c \<longleftrightarrow> a = 225 \<and> b = 154 \<and> c = 128 \<or>
     a = 226 \<and> b = 128 \<and> (128 \<le> c \<and> c \<le> 138 \<or> c = 168 \<or> c = 169 \<or> c = 175) \<or>
     a = 226 \<and> b = 129 \<and> c = 159 \<or> a = 227 \<and> b = 128 \<and> c = 128"

fun trim_with :: "(nat \<Rightarrow> bool) \<Rightarrow> (nat \<Rightarrow> nat \<Rightarrow> bool) \<Rightarrow> (nat \<Rightarrow> nat \<Rightarrow> nat \<Rightarrow> bool) \<Rightarrow> nat list \<Rightarrow> nat list" where
  "trim_with w1 w2 w3 (a # b # c # ds) =
     (if w1 a then trim_with w1 w2 w3 (b # c # ds) else if w2 a b then trim_with w1 w2 w3 (c # ds)
      else if w3 a b c then trim_with w1 w2 w3 ds else a # b # c # ds)"
| "trim_with w1 w2 w3 [a, b] = (if w1 a then trim_with w1 w2 w3 [b] else if w2 a b then [] else [a, b])"
| "trim_with w1 w2 w3 [a] = (if w1 a then [] else [a])"
| "trim_with w1 w2 w3 [] = []"

definition str_trim :: "string \<Rightarrow> string" where
  "str_trim s = map char_of
     (rev (trim_with white1 (\<lambda>b a. white2 a b) (\<lambda>c b a. white3 a b c) (rev (trim_with white1 white2 white3 (str_bytes s)))))"

text \<open>One call of \<open>claim_next_range\<close> is at the head of its loop, between the read and the put, or
  has returned.\<close>

datatype ClaimPhase =
    Claiming (phase_retries: nat)
  | GotId nat int "(string option \<times> string option) option"
  | Claimed "(LocalObjectIdError, id_range) result"

definition claim_get :: "'s ObjectStore \<Rightarrow> nat \<Rightarrow> 's \<Rightarrow> ClaimPhase" where
  "claim_get S retries s =
     (if retries \<ge> 10 then Claimed (Inl (ObjectIdClaimer ''Exceeded maximum retries (10) for claiming object IDs''))
      else
        (case os_get S s of
           Found e version content \<Rightarrow>
             (let e_tag = map_option (trim_matches (CHR 0x22)) e in
              case content of
                Inl msg \<Rightarrow> Claimed (Inl (ObjectIdClaimer msg))
              | Inr bytes \<Rightarrow>
                  (case from_utf8 bytes of
                     None \<Rightarrow> Claimed (Inl (ObjectIdClaimer ''invalid utf-8 sequence''))
                   | Some text \<Rightarrow>
                       (case i_from_str 64 (str_trim text) of
                          None \<Rightarrow> Claimed (Inl (ObjectIdClaimer ''invalid digit found in string''))
                        | Some i \<Rightarrow> GotId retries i (Some (e_tag, version)))))
         | GetNotFound \<Rightarrow> GotId retries 0 None
         | GetErr msg \<Rightarrow> Claimed (Inl (ObjectIdClaimer msg))))"

definition no_conditional_puts :: string where
  "no_conditional_puts = ''The object store does not support conditional puts. If you are running a single node, you can set the RDF_FUSION_STORAGE_DELTA_ASSUME_SINGLE_NODE=true environment variable to bypass this check.''"

definition claim_put ::
    "DeltaObjectIdClaimer \<Rightarrow> 's ObjectStore \<Rightarrow> nat \<Rightarrow> int \<Rightarrow> (string option \<times> string option) option \<Rightarrow> 's \<Rightarrow> 's \<times> ClaimPhase" where
  "claim_put self S retries current_id version_info s =
     (let next_free_id = as_int 64 (current_id + claim_size self);
          next_id = as_int 64 (next_free_id - 1);
          payload = str_bytes (show_int next_free_id);
          (s', put_result) = os_put S s (put_mode_for (put_mode self) version_info) payload
      in (s',
          case put_result of
            PutOk \<Rightarrow> Claimed (Inr (current_id, next_id))
          | NotImplemented \<Rightarrow> Claimed (Inl (ObjectIdClaimer no_conditional_puts))
          | NotSupported \<Rightarrow> Claimed (Inl (ObjectIdClaimer no_conditional_puts))
          | AlreadyExists \<Rightarrow> Claiming (retries + 1)
          | Precondition \<Rightarrow> Claiming (retries + 1)
          | PutErr msg \<Rightarrow> Claimed (Inl (ObjectIdClaimer msg))))"

text \<open>The loop run without interference, as the claimer of one node.\<close>

function claim_loop :: "DeltaObjectIdClaimer \<Rightarrow> 's ObjectStore \<Rightarrow> ClaimPhase \<Rightarrow> 's claimer" where
  "claim_loop self S (Claimed r) s = (r, s)"
| "claim_loop self S (Claiming n) s = claim_loop self S (claim_get S n s) s"
| "claim_loop self S (GotId n i v) s = (let (s', p) = claim_put self S n i v s in claim_loop self S p s')"
  by pat_completeness auto

fun phase_measure :: "ClaimPhase \<Rightarrow> nat" where
  "phase_measure (Claimed r) = 0"
| "phase_measure (Claiming n) = (if n \<ge> 10 then 1 else 2 * (10 - n) + 2)"
| "phase_measure (GotId n i v) = (if n \<ge> 10 then 2 else 2 * (10 - n) + 1)"

lemma claim_get_measure: "phase_measure (claim_get S n s) < phase_measure (Claiming n)"
  by (auto simp: claim_get_def Let_def split: GetOutcome.splits sum.splits option.splits)

lemma claim_put_measure: "claim_put self S n i v s = (s', p) \<Longrightarrow> phase_measure p < phase_measure (GotId n i v)"
  by (auto simp: claim_put_def Let_def split: prod.splits PutOutcome.splits)

termination claim_loop
proof (relation "measure (\<lambda>(self, S, p, s). phase_measure p)")
  fix self S n and s :: 'a
  show "((self, S, claim_get S n s, s), self, S, Claiming n, s) \<in> measure (\<lambda>(self, S, p, s). phase_measure p)"
    using claim_get_measure [of S n s] by simp
next
  fix self n i v x s' p and S :: "'a ObjectStore" and s :: 'a
  assume "x = claim_put self S n i v s" "(s', p) = x"
  then show "((self, S, p, s'), self, S, GotId n i v, s) \<in> measure (\<lambda>(self, S, p, s). phase_measure p)"
    using claim_put_measure [of self S n i v s s' p] by simp
qed simp

definition claim_next_range :: "DeltaObjectIdClaimer \<Rightarrow> 's ObjectStore \<Rightarrow> 's claimer" where
  "claim_next_range self S = claim_loop self S (Claiming 0)"

section \<open>Concurrent nodes\<close>

text \<open>The nodes share the store. A node is idle (\<^term>\<open>None\<close>) or inside a call; \<open>cs_claims\<close> is the history
  of the ranges that calls have returned, the newest first.\<close>

record 's ClaimSystem =
  cs_store :: 's
  cs_calls :: "nat \<Rightarrow> ClaimPhase option"
  cs_claims :: "(nat \<times> id_range) list"

fun claimed_by :: "nat \<Rightarrow> ClaimPhase \<Rightarrow> (nat \<times> id_range) list" where
  "claimed_by i (Claimed (Inr r)) = [(i, r)]"
| "claimed_by i p = []"

inductive claim_step :: "DeltaObjectIdClaimer \<Rightarrow> 's ObjectStore \<Rightarrow> nat set \<Rightarrow> 's ClaimSystem \<Rightarrow> nat \<Rightarrow> 's ClaimSystem \<Rightarrow> bool"
  for self :: DeltaObjectIdClaimer and S :: "'s ObjectStore" and nodes :: "nat set" where
  begin_call: "i \<in> nodes \<Longrightarrow> cs_calls st i = None \<Longrightarrow>
    claim_step self S nodes st 0 (st\<lparr>cs_calls := (cs_calls st)(i \<mapsto> Claiming 0)\<rparr>)"
| read_id: "cs_calls st i = Some (Claiming n) \<Longrightarrow>
    claim_step self S nodes st 0 (st\<lparr>cs_calls := (cs_calls st)(i \<mapsto> claim_get S n (cs_store st))\<rparr>)"
| write_id: "cs_calls st i = Some (GotId n x v) \<Longrightarrow> claim_put self S n x v (cs_store st) = (s', p) \<Longrightarrow>
    claim_step self S nodes st 1
      (st\<lparr>cs_store := s', cs_calls := (cs_calls st)(i \<mapsto> p), cs_claims := claimed_by i p @ cs_claims st\<rparr>)"
| end_call: "cs_calls st i = Some (Claimed r) \<Longrightarrow>
    claim_step self S nodes st 0 (st\<lparr>cs_calls := (cs_calls st)(i := None)\<rparr>)"

text \<open>\<open>claim_run self S nodes s k st\<close>: from the store \<open>s\<close> and idle nodes the state \<open>st\<close> is reached with \<open>k\<close> writes.\<close>

inductive claim_run :: "DeltaObjectIdClaimer \<Rightarrow> 's ObjectStore \<Rightarrow> nat set \<Rightarrow> 's \<Rightarrow> nat \<Rightarrow> 's ClaimSystem \<Rightarrow> bool"
  for self :: DeltaObjectIdClaimer and S :: "'s ObjectStore" and nodes :: "nat set" and s :: 's where
  start: "claim_run self S nodes s 0 \<lparr>cs_store = s, cs_calls = \<lambda>_. None, cs_claims = []\<rparr>"
| step: "claim_run self S nodes s k st \<Longrightarrow> claim_step self S nodes st j st' \<Longrightarrow> claim_run self S nodes s (k + j) st'"

section \<open>What the claimer relies on\<close>

text \<open>States of the store that puts lead to.\<close>

inductive store_reach :: "'s ObjectStore \<Rightarrow> 's \<Rightarrow> 's \<Rightarrow> bool" for S :: "'s ObjectStore" where
  same: "store_reach S s s"
| put: "store_reach S s t \<Longrightarrow> store_reach S s (fst (os_put S t m b))"

text \<open>The documented behaviour of conditional puts. A put is either applied, and then a read finds its
  bytes, or it leaves the object as it was. A put that reports success is applied, one that
  reports a failed condition or missing support is not, and any other error leaves it open. A \<open>Create\<close> is applied only where no
  object is, an \<open>Update\<close> with the version information of an earlier read (with the entity tag
  passed on without quotes) only when the object is still the one that was read.\<close>

definition put_applied :: "'s ObjectStore \<Rightarrow> 's \<Rightarrow> 's \<Rightarrow> PutMode \<Rightarrow> nat list \<Rightarrow> 's \<Rightarrow> bool" where
  "put_applied S s0 s m b s' \<longleftrightarrow> (\<exists>e v. os_get S s' = Found e v (Inr b)) \<and>
     (m = Create \<longrightarrow> os_get S s = GetNotFound) \<and>
     (\<forall>e v t c. m = Update (map_option (trim_matches (CHR 0x22)) e) v \<and> store_reach S s0 t \<and> store_reach S t s \<and>
        os_get S t = Found e v c \<longrightarrow> os_get S s = os_get S t)"

definition conditional_store :: "'s ObjectStore \<Rightarrow> 's \<Rightarrow> bool" where
  "conditional_store S s0 \<longleftrightarrow>
     (\<forall>s m b s' r. store_reach S s0 s \<and> os_put S s m b = (s', r) \<longrightarrow>
        (case r of
           PutOk \<Rightarrow> put_applied S s0 s m b s'
         | PutErr msg \<Rightarrow> put_applied S s0 s m b s' \<or> os_get S s' = os_get S s
         | _ \<Rightarrow> os_get S s' = os_get S s))"

section \<open>Ranges never overlap\<close>

lemma store_reach_trans: "store_reach S t u \<Longrightarrow> store_reach S s t \<Longrightarrow> store_reach S s u"
  by (induction rule: store_reach.induct) (auto intro: store_reach.intros)

lemma trim_with_ascii:
  assumes "bs \<noteq> []" "\<not> w1 (hd bs)" "\<And>b. \<not> w2 (hd bs) b" "\<And>b c. \<not> w3 (hd bs) b c"
  shows "trim_with w1 w2 w3 bs = bs"
  using assms by (cases "(w1, w2, w3, bs)" rule: trim_with.cases) auto

lemma digit_byte: "is_ascii_digit c \<Longrightarrow> 48 \<le> (of_char c :: nat) \<and> (of_char c :: nat) \<le> 57"
  by (simp add: is_ascii_digit_def)

lemma show_nat_char: "c \<in> set (show_nat n) \<Longrightarrow> is_ascii_digit c"
  using show_nat_digits [of n] by (simp add: list_all_iff)

lemma last_show_int: "is_ascii_digit (last (show_int x))"
  by (simp add: show_int_def show_nat_nonempty show_nat_char [OF last_in_set])

lemma hd_show_int: "hd (show_int x) = CHR ''-'' \<or> is_ascii_digit (hd (show_int x))"
  by (simp add: show_int_def show_nat_nonempty show_nat_char [OF hd_in_set])

lemma show_int_nonempty: "show_int x \<noteq> []"
  by (simp add: show_int_def show_nat_nonempty)

lemma str_trim_show_int: "str_trim (show_int x) = show_int x"
proof -
  let ?b = "str_bytes (show_int x)"
  have ne: "?b \<noteq> []" by (simp add: str_bytes_def show_int_nonempty)
  have h: "45 \<le> hd ?b \<and> hd ?b \<le> 57"
    using hd_show_int [of x] digit_byte [of "hd (show_int x)"] show_int_nonempty [of x]
    by (auto simp: str_bytes_def hd_map)
  have l: "48 \<le> hd (rev ?b) \<and> hd (rev ?b) \<le> 57"
    using digit_byte [OF last_show_int [of x]] show_int_nonempty [of x] by (simp add: str_bytes_def hd_rev last_map)
  have 1: "trim_with white1 white2 white3 ?b = ?b"
    by (rule trim_with_ascii [OF ne]) (use h in \<open>simp_all add: white1_def white2_def white3_def\<close>)
  have 2: "trim_with white1 (\<lambda>b a. white2 a b) (\<lambda>c b a. white3 a b c) (rev ?b) = rev ?b"
    by (rule trim_with_ascii) (use ne l in \<open>simp_all add: white1_def white2_def white3_def\<close>)
  show ?thesis unfolding str_trim_def 1 2 by (simp add: str_bytes_def o_def)
qed

lemma utf8_valid_ascii: "\<forall>b \<in> set bs. b < 128 \<Longrightarrow> utf8_valid bs"
  by (induction bs) auto

lemma from_utf8_show_int: "from_utf8 (str_bytes (show_int x)) = Some (show_int x)"
proof -
  have "(of_char c :: nat) < 128" if "c \<in> set (show_int x)" for c
    using that by (auto simp: show_int_def dest!: show_nat_char digit_byte split: if_splits)
  then have "utf8_valid (str_bytes (show_int x))" by (intro utf8_valid_ascii) (auto simp: str_bytes_def)
  then show ?thesis by (intro from_utf8_str) (simp add: str_wf_def)
qed

text \<open>The store holds \<open>x\<close> as the next free id; the version information a read passes on.\<close>

definition stored_id :: "GetOutcome \<Rightarrow> int \<Rightarrow> bool" where
  "stored_id g x \<longleftrightarrow> g = GetNotFound \<and> x = 0 \<or> in_int 64 x \<and> (\<exists>e v. g = Found e v (Inr (str_bytes (show_int x))))"

definition version_of :: "GetOutcome \<Rightarrow> (string option \<times> string option) option" where
  "version_of g = (case g of Found e v _ \<Rightarrow> Some (map_option (trim_matches (CHR 0x22)) e, v) | _ \<Rightarrow> None)"

lemma str_bytes_inject: "str_bytes s = str_bytes t \<longleftrightarrow> s = t"
  by (simp add: str_bytes_def inj_map_eq_map inj_of_char)

lemma show_int_inject: "show_int x = show_int y \<Longrightarrow> in_int w x \<Longrightarrow> in_int w y \<Longrightarrow> x = y"
  by (metis i_from_str_show_int option.inject)

lemma stored_id_unique: "stored_id g x \<Longrightarrow> stored_id g y \<Longrightarrow> x = y"
  by (auto simp: stored_id_def str_bytes_inject dest: show_int_inject)

lemma claim_get_stored:
  "stored_id (os_get S s) x \<Longrightarrow> n < 10 \<Longrightarrow> claim_get S n s = GotId n x (version_of (os_get S s))"
  by (auto simp: stored_id_def claim_get_def version_of_def from_utf8_show_int str_trim_show_int i_from_str_show_int)

lemma claim_get_GotId:
  assumes "claim_get S n s = GotId m y v" "stored_id (os_get S s) x"
  shows "y = x" "v = version_of (os_get S s)"
proof -
  have "n < 10" using assms(1) by (auto simp: claim_get_def split: if_splits)
  then show "y = x" "v = version_of (os_get S s)" using claim_get_stored [OF assms(2)] assms(1) by simp_all
qed

text \<open>A put that is applied found the object as the same call had read it.\<close>

lemma put_applied_unchanged:
  assumes "put_applied S s0 s (put_mode_for EnsureVersion (version_of (os_get S t))) b s'"
    and "store_reach S s0 t" "store_reach S t s" "stored_id (os_get S t) x"
  shows "os_get S s = os_get S t"
proof (cases "os_get S t")
  case (Found e v c)
  then show ?thesis using assms by (auto simp: put_applied_def version_of_def put_mode_for_def)
next
  case GetNotFound
  then show ?thesis using assms(1) by (simp add: put_applied_def version_of_def put_mode_for_def)
qed (use assms(4) in \<open>simp add: stored_id_def\<close>)

definition claims_below :: "int \<Rightarrow> int \<Rightarrow> (nat \<times> id_range) list \<Rightarrow> bool" where
  "claims_below sz x claims \<longleftrightarrow> (\<forall>(i, a, b) \<in> set claims. 0 \<le> a \<and> b = a + sz - 1 \<and> b < x)"

abbreviation above :: "nat \<times> id_range \<Rightarrow> nat \<times> id_range \<Rightarrow> bool" where
  "above c d \<equiv> snd (snd d) < fst (snd c)"

definition read_before :: "DeltaObjectIdClaimer \<Rightarrow> 's ObjectStore \<Rightarrow> 's \<Rightarrow> 's \<Rightarrow> int \<Rightarrow> (string option \<times> string option) option \<Rightarrow> bool" where
  "read_before self S s0 s x v \<longleftrightarrow>
     (\<exists>t. store_reach S s0 t \<and> store_reach S t s \<and> stored_id (os_get S t) x \<and> v = version_of (os_get S t) \<and>
        (put_mode self = AlwaysOverwrite \<longrightarrow> os_get S t = os_get S s))"

definition claims_inv :: "DeltaObjectIdClaimer \<Rightarrow> 's ObjectStore \<Rightarrow> nat set \<Rightarrow> 's \<Rightarrow> nat \<Rightarrow> 's ClaimSystem \<Rightarrow> bool" where
  "claims_inv self S nodes s0 k st \<longleftrightarrow> store_reach S s0 (cs_store st) \<and>
     (\<exists>x. stored_id (os_get S (cs_store st)) x \<and> 0 \<le> x \<and> x \<le> int k * claim_size self \<and>
        claims_below (claim_size self) x (cs_claims st)) \<and>
     sorted_wrt above (cs_claims st) \<and> (\<forall>i. cs_calls st i \<noteq> None \<longrightarrow> i \<in> nodes) \<and>
     (\<forall>i n x v. cs_calls st i = Some (GotId n x v) \<longrightarrow> read_before self S s0 (cs_store st) x v)"

text \<open>What one write does to the store and to the history.\<close>

lemma claim_put_cases:
  assumes "conditional_store S s0" "store_reach S s0 s" "read_before self S s0 s x v" "claim_put self S n x v s = (s', p)"
    and cur: "stored_id (os_get S s) y"
    and fits: "in_int 64 (y + claim_size self)" "in_int 64 (y + claim_size self - 1)"
  shows "os_get S s' = os_get S s \<and> claimed_by i p = [] \<or>
    stored_id (os_get S s') (y + claim_size self) \<and> (claimed_by i p = [] \<or> claimed_by i p = [(i, y, y + claim_size self - 1)])"
proof -
  let ?m = "put_mode_for (put_mode self) v" and ?b = "str_bytes (show_int (as_int 64 (x + claim_size self)))"
  obtain r where r: "os_put S s ?m ?b = (s', r)" using assms(4) by (auto simp: claim_put_def Let_def split: prod.splits)
  obtain t where t: "store_reach S s0 t" "store_reach S t s" "stored_id (os_get S t) x" "v = version_of (os_get S t)"
    "put_mode self = AlwaysOverwrite \<longrightarrow> os_get S t = os_get S s"
    using assms(3) by (auto simp: read_before_def)
  have applied: "x = y \<and> stored_id (os_get S s') (y + claim_size self)" if "put_applied S s0 s ?m ?b s'"
  proof -
    have "os_get S s = os_get S t"
      using put_applied_unchanged [of S s0 s t ?b s' x] that t by (cases "put_mode self") simp_all
    then have "x = y" using stored_id_unique t(3) cur by metis
    then show ?thesis using that fits(1) by (auto simp: put_applied_def stored_id_def as_int_id)
  qed
  have "case r of PutOk \<Rightarrow> put_applied S s0 s ?m ?b s' | PutErr msg \<Rightarrow> put_applied S s0 s ?m ?b s' \<or> os_get S s' = os_get S s
     | _ \<Rightarrow> os_get S s' = os_get S s"
    using assms(1,2) r unfolding conditional_store_def by blast
  moreover have "claimed_by i p = (if r = PutOk then [(i, x, as_int 64 (as_int 64 (x + claim_size self) - 1))] else [])"
    using assms(4) r by (auto simp: claim_put_def Let_def split: PutOutcome.splits)
  ultimately show ?thesis using applied fits by (cases r) (auto simp: as_int_id)
qed

lemma read_before_step:
  "read_before self S s0 s x v \<Longrightarrow> put_mode self = EnsureVersion \<Longrightarrow> read_before self S s0 (fst (os_put S s m b)) x v"
  unfolding read_before_def by (auto intro: store_reach.put)

lemma claim_put_store: "claim_put self S n x v s = (s', p) \<Longrightarrow> \<exists>m b. s' = fst (os_put S s m b)"
  by (auto simp: claim_put_def Let_def split: prod.splits) (metis fst_conv)

lemma claim_put_not_GotId: "claim_put self S n x v s \<noteq> (s', GotId n' x' v')"
  by (auto simp: claim_put_def Let_def split: prod.splits PutOutcome.splits)

lemma claims_inv_write:
  assumes inv: "claims_inv self S nodes s0 k st" and S: "conditional_store S s0" and sz: "0 < claim_size self"
    and mode: "put_mode self = EnsureVersion \<or> (\<exists>i. nodes = {i})"
    and fits: "int (k + 1) * claim_size self < 2 ^ 63"
    and call: "cs_calls st i = Some (GotId n x v)" and put: "claim_put self S n x v (cs_store st) = (s', p)"
  shows "claims_inv self S nodes s0 (k + 1)
    (st\<lparr>cs_store := s', cs_calls := (cs_calls st)(i \<mapsto> p), cs_claims := claimed_by i p @ cs_claims st\<rparr>)"
proof -
  let ?s = "cs_store st"
  obtain y where y: "stored_id (os_get S ?s) y" "0 \<le> y" "y \<le> int k * claim_size self"
      "claims_below (claim_size self) y (cs_claims st)"
    and reach: "store_reach S s0 ?s" and sorted: "sorted_wrt above (cs_claims st)"
    and ids: "\<And>i. cs_calls st i \<noteq> None \<Longrightarrow> i \<in> nodes"
    and reads: "\<And>i n x v. cs_calls st i = Some (GotId n x v) \<Longrightarrow> read_before self S s0 ?s x v"
    using inv unfolding claims_inv_def by blast
  have "y + claim_size self < 2 ^ 63" using y(3) fits by (simp add: algebra_simps)
  then have r64: "in_int 64 (y + claim_size self)" "in_int 64 (y + claim_size self - 1)"
    using y(2) sz by (simp_all add: in_int_def)
  obtain m b where s': "s' = fst (os_put S ?s m b)" using claim_put_store [OF put] by blast
  have "os_get S s' = os_get S ?s \<and> claimed_by i p = [] \<or>
    stored_id (os_get S s') (y + claim_size self) \<and> (claimed_by i p = [] \<or> claimed_by i p = [(i, y, y + claim_size self - 1)])"
    by (rule claim_put_cases [OF S reach reads [OF call] put y(1) r64])
  then obtain z where z: "stored_id (os_get S s') z" "y \<le> z" "z \<le> int (k + 1) * claim_size self"
    "claimed_by i p = [] \<or> claimed_by i p = [(i, y, y + claim_size self - 1)] \<and> z = y + claim_size self"
    using y(1,3) sz that [of y] that [of "y + claim_size self"] by (auto simp: algebra_simps)
  have below: "claims_below (claim_size self) z (claimed_by i p @ cs_claims st)"
    using z(2,4) y(2,4) by (auto simp: claims_below_def)
  have order: "sorted_wrt above (claimed_by i p @ cs_claims st)"
    using z(4) sorted y(4) by (force simp: claims_below_def)
  have "read_before self S s0 s' x' v'" if "cs_calls st j = Some (GotId n' x' v')" "j \<noteq> i" for j n' x' v'
  proof -
    have "i \<in> nodes" "j \<in> nodes" using ids that(1) call by auto
    then have "put_mode self = EnsureVersion" using mode that(2) by auto
    then show ?thesis unfolding s' using reads [OF that(1)] by (intro read_before_step)
  qed
  moreover have "p \<noteq> GotId n' x' v'" for n' x' v' using put claim_put_not_GotId [of self S n x v ?s s'] by auto
  moreover have "store_reach S s0 s'" unfolding s' using reach by (rule store_reach.put)
  ultimately show ?thesis unfolding claims_inv_def using z(1,3) y(2) z(2) below order ids call
    by (fastforce split: if_splits)
qed

lemma claims_inv_step:
  assumes inv: "claims_inv self S nodes s0 k st" and step: "claim_step self S nodes st j st'"
    and S: "conditional_store S s0" and sz: "0 < claim_size self"
    and mode: "put_mode self = EnsureVersion \<or> (\<exists>i. nodes = {i})" and fits: "int (k + j) * claim_size self < 2 ^ 63"
  shows "claims_inv self S nodes s0 (k + j) st'"
  using step
proof cases
  case (read_id i n)
  obtain x where x: "stored_id (os_get S (cs_store st)) x" and reach: "store_reach S s0 (cs_store st)"
    using inv unfolding claims_inv_def by blast
  have "read_before self S s0 (cs_store st) y v" if "claim_get S n (cs_store st) = GotId m y v" for m y v
    using claim_get_GotId [OF that x] x reach store_reach.same [of S "cs_store st"] unfolding read_before_def by blast
  then show ?thesis using inv read_id unfolding claims_inv_def by (auto split: if_splits)
next
  case (write_id i n x v s' p)
  then show ?thesis using claims_inv_write [OF inv S sz mode] fits by simp
qed (use inv in \<open>auto simp: claims_inv_def split: if_splits\<close>)

lemma claims_inv_run:
  assumes "claim_run self S nodes s k st" "conditional_store S s" "os_get S s = GetNotFound" "0 < claim_size self"
    "put_mode self = EnsureVersion \<or> (\<exists>i. nodes = {i})" "int k * claim_size self < 2 ^ 63"
  shows "claims_inv self S nodes s k st"
  using assms
proof (induction rule: claim_run.induct)
  case start
  then show ?case by (auto simp: claims_inv_def claims_below_def stored_id_def intro: store_reach.same)
next
  case (step k st j st')
  have "int k * claim_size self \<le> int (k + j) * claim_size self"
    using step.prems(3) by (intro mult_right_mono) simp_all
  then have "int k * claim_size self < 2 ^ 63" using step.prems(5) by (rule order_le_less_trans)
  then have "claims_inv self S nodes s k st" using step.IH step.prems by blast
  then show ?case using step by (intro claims_inv_step) auto
qed

section \<open>Schedules and a store in memory\<close>

text \<open>The next step of one node, and a run along a list of node numbers with the number of its writes.\<close>

definition run_node :: "DeltaObjectIdClaimer \<Rightarrow> 's ObjectStore \<Rightarrow> nat \<Rightarrow> 's ClaimSystem \<Rightarrow> nat \<times> 's ClaimSystem" where
  "run_node self S i st =
     (case cs_calls st i of
        None \<Rightarrow> (0, st\<lparr>cs_calls := (cs_calls st)(i \<mapsto> Claiming 0)\<rparr>)
      | Some (Claiming n) \<Rightarrow> (0, st\<lparr>cs_calls := (cs_calls st)(i \<mapsto> claim_get S n (cs_store st))\<rparr>)
      | Some (GotId n x v) \<Rightarrow>
          (let (s', p) = claim_put self S n x v (cs_store st)
           in (1, st\<lparr>cs_store := s', cs_calls := (cs_calls st)(i \<mapsto> p), cs_claims := claimed_by i p @ cs_claims st\<rparr>))
      | Some (Claimed r) \<Rightarrow> (0, st\<lparr>cs_calls := (cs_calls st)(i := None)\<rparr>))"

fun run_schedule :: "DeltaObjectIdClaimer \<Rightarrow> 's ObjectStore \<Rightarrow> nat list \<Rightarrow> nat \<times> 's ClaimSystem \<Rightarrow> nat \<times> 's ClaimSystem" where
  "run_schedule self S [] kst = kst"
| "run_schedule self S (i # is) (k, st) = (let (j, st') = run_node self S i st in run_schedule self S is (k + j, st'))"

lemma run_node_step: "i \<in> nodes \<Longrightarrow> run_node self S i st = (j, st') \<Longrightarrow> claim_step self S nodes st j st'"
  by (auto simp: run_node_def Let_def intro: claim_step.intros simp del: One_nat_def
      split: option.splits ClaimPhase.splits prod.splits)

lemma run_schedule_run:
  "set is \<subseteq> nodes \<Longrightarrow> claim_run self S nodes s k st \<Longrightarrow> run_schedule self S is (k, st) = (k', st') \<Longrightarrow>
    claim_run self S nodes s k' st'"
  by (induction "is" arbitrary: k st) (auto simp: Let_def split: prod.splits intro: claim_run.step run_node_step)

type_synonym mem_store = "(nat list \<times> nat) option \<times> nat"

definition mem_write :: "mem_store \<Rightarrow> nat list \<Rightarrow> mem_store \<times> PutOutcome" where
  "mem_write s b = ((Some (b, snd s), snd s + 1), PutOk)"

definition mem_put :: "mem_store \<Rightarrow> PutMode \<Rightarrow> nat list \<Rightarrow> mem_store \<times> PutOutcome" where
  "mem_put s m b =
     (case m of
        Overwrite \<Rightarrow> mem_write s b
      | Create \<Rightarrow> (if fst s = None then mem_write s b else (s, AlreadyExists))
      | Update e v \<Rightarrow> (case fst s of Some (_, t) \<Rightarrow> if e = Some (show_nat t) then mem_write s b else (s, Precondition)
                       | None \<Rightarrow> (s, Precondition)))"

definition mem_get :: "mem_store \<Rightarrow> GetOutcome" where
  "mem_get s = (case fst s of None \<Rightarrow> GetNotFound | Some (b, t) \<Rightarrow> Found (Some (show_nat t)) None (Inr b))"

definition mem_objects :: "mem_store ObjectStore" where
  "mem_objects = \<lparr>os_get = mem_get, os_put = mem_put\<rparr>"

lemma mem_put_cases: "fst (mem_put s m b) = s \<or> fst (mem_put s m b) = (Some (b, snd s), snd s + 1)"
  by (auto simp: mem_put_def mem_write_def split: PutMode.splits option.splits)

lemma mem_reach:
  "store_reach mem_objects t s \<Longrightarrow> snd t \<le> snd s \<and> (\<forall>b k. fst s = Some (b, k) \<and> k < snd t \<longrightarrow> fst t = Some (b, k))"
proof (induction rule: store_reach.induct)
  case (put s t m b)
  then show ?case using mem_put_cases [of t m b] by (auto simp: mem_objects_def)
qed auto

lemma mem_tags: "store_reach mem_objects (None, 0) s \<Longrightarrow> fst s = Some (b, k) \<Longrightarrow> k < snd s"
proof (induction "(None, 0) :: mem_store" s arbitrary: b k rule: store_reach.induct)
  case (put t m c)
  then show ?case using mem_put_cases [of t m c] by (auto simp: mem_objects_def)
qed simp

lemma show_nat_inject: "show_nat m = show_nat n \<longleftrightarrow> m = n"
  by (metis of_nat_eq_iff show_nat_val)

lemma trim_matches_show_nat: "trim_matches (CHR 0x22) (show_nat n) = show_nat n"
proof -
  have *: "dropWhile ((=) (CHR 0x22)) s = s" if "list_all is_ascii_digit s" for s
    using that by (cases s) (auto simp: is_ascii_digit_def)
  then show ?thesis unfolding trim_matches_def using show_nat_digits [of n] by (simp add: list_all_rev)
qed

lemma mem_put_applied:
  assumes s: "store_reach mem_objects (None, 0) s" and put: "mem_put s m b = (s', PutOk)"
  shows "put_applied mem_objects (None, 0) s m b s'"
proof -
  have w: "s' = (Some (b, snd s), snd s + 1)"
    using put by (auto simp: mem_put_def mem_write_def split: PutMode.splits option.splits if_splits)
  have "mem_get s = mem_get t"
    if m: "m = Update (map_option (trim_matches (CHR 0x22)) e) v" and t: "store_reach mem_objects (None, 0) t"
      and ts: "store_reach mem_objects t s" and g: "mem_get t = Found e v c" for e v t c
  proof -
    obtain d k where k: "fst t = Some (d, k)" "e = Some (show_nat k)"
      using g by (auto simp: mem_get_def split: option.splits)
    have "\<exists>d. fst s = Some (d, k)"
      using put m k(2) by (auto simp: mem_put_def trim_matches_show_nat show_nat_inject split: option.splits if_splits)
    then have "fst t = fst s" using mem_reach [OF ts] mem_tags [OF t k(1)] by auto
    then show ?thesis by (simp add: mem_get_def)
  qed
  moreover have "m = Create \<longrightarrow> mem_get s = GetNotFound"
    using put by (auto simp: mem_put_def mem_get_def split: if_splits)
  ultimately show ?thesis unfolding put_applied_def by (auto simp: mem_objects_def mem_get_def w)
qed

lemma mem_conditional: "conditional_store mem_objects (None, 0)"
proof -
  have "r = PutOk \<or> (r = AlreadyExists \<or> r = Precondition) \<and> s' = s" if "mem_put s m b = (s', r)" for s m b s' r
    using that by (auto simp: mem_put_def mem_write_def split: PutMode.splits option.splits if_splits)
  then show ?thesis unfolding conditional_store_def
    using mem_put_applied by (fastforce simp: mem_objects_def)
qed

abbreviation idle_system :: "'s \<Rightarrow> 's ClaimSystem" where
  "idle_system s \<equiv> \<lparr>cs_store = s, cs_calls = \<lambda>_. None, cs_claims = []\<rparr>"

lemma claim_schedule:
  "set is \<subseteq> nodes \<Longrightarrow> run_schedule self S is (0, idle_system s) = (k, st) \<Longrightarrow> claim_run self S nodes s k st"
  by (rule run_schedule_run [OF _ claim_run.start])

text \<open>With unconditional puts two nodes that read before either writes claim the same ids.\<close>

theorem overwrite_claims_collide:
  "\<exists>st. claim_run \<lparr>claim_size = 1000, put_mode = AlwaysOverwrite\<rparr> mem_objects {0, 1} (None, 0) 2 st \<and>
     cs_claims st = [(1, 0, 999), (0, 0, 999)]"
proof -
  let ?r = "run_schedule \<lparr>claim_size = 1000, put_mode = AlwaysOverwrite\<rparr> mem_objects [0, 1, 0, 1, 0, 1] (0, idle_system (None, 0))"
  have "fst ?r = 2" "cs_claims (snd ?r) = [(1, 0, 999), (0, 0, 999)]" by code_simp+
  then show ?thesis
    using claim_schedule [of "[0, 1, 0, 1, 0, 1]" "{0, 1}" _ mem_objects "(None, 0)" 2 "snd ?r"]
    by (intro exI [of _ "snd ?r"]) (auto simp del: run_schedule.simps simp: prod_eq_iff)
qed

section \<open>The main property\<close>

text \<open>C37: The ranges of object ids that concurrent nodes claim never overlap: after any interleaving of
  reads, conditional puts, retries and failures on a store with the documented behaviour of
  conditional puts, every returned range has the configured size and no two of them share an id, as long as
  fewer than \<open>2^63\<close> ids are claimed. With unconditional puts this holds for a single node.\<close>

theorem claim_ranges_disjoint:
  assumes "claim_run self S nodes s k st" "conditional_store S s" "os_get S s = GetNotFound" "0 < claim_size self"
    "put_mode self = EnsureVersion \<or> (\<exists>i. nodes = {i})" "int k * claim_size self < 2 ^ 63"
  shows "(\<forall>(i, a, b) \<in> set (cs_claims st). 0 \<le> a \<and> b = a + claim_size self - 1) \<and>
    (\<forall>m < length (cs_claims st). \<forall>n < length (cs_claims st). m \<noteq> n \<longrightarrow>
       (case (cs_claims st ! m, cs_claims st ! n) of ((_, a, b), (_, c, d)) \<Rightarrow> {a..b} \<inter> {c..d} = {}))"
proof -
  let ?c = "cs_claims st"
  have inv: "claims_inv self S nodes s k st" using assms by (rule claims_inv_run)
  then have sorted: "sorted_wrt above ?c" unfolding claims_inv_def by blast
  have lt: "{fst (snd (?c ! m))..snd (snd (?c ! m))} \<inter> {fst (snd (?c ! n))..snd (snd (?c ! n))} = {}"
    if "m < n" "n < length ?c" for m n
    using sorted_wrt_nth_less [OF sorted that] by auto
  have "{fst (snd (?c ! m))..snd (snd (?c ! m))} \<inter> {fst (snd (?c ! n))..snd (snd (?c ! n))} = {}"
    if "m < length ?c" "n < length ?c" "m \<noteq> n" for m n
    using lt [of m n] lt [of n m] that by (cases "m < n") (simp_all add: Int_commute)
  moreover have "\<forall>(i, a, b) \<in> set ?c. 0 \<le> a \<and> b = a + claim_size self - 1"
    using inv unfolding claims_inv_def claims_below_def by fast
  ultimately show ?thesis by (simp add: case_prod_beta)
qed

theorem claim_ranges_disjoint_witness:
  "\<exists>st. claim_run \<lparr>claim_size = 1000, put_mode = EnsureVersion\<rparr> mem_objects {0, 1} (None, 0) 3 st \<and>
     cs_claims st = [(1, 1000, 1999), (0, 0, 999)] \<and> {1000..1999} \<inter> {0..999::int} = {}"
proof -
  let ?c = "\<lparr>claim_size = 1000, put_mode = EnsureVersion\<rparr>"
  let ?r = "run_schedule ?c mem_objects [0, 1, 0, 1, 0, 1, 1, 1] (0, idle_system (None, 0))"
  obtain st where run: "claim_run ?c mem_objects {0, 1} (None, 0) 3 st" and cl: "cs_claims st = [(1, 1000, 1999), (0, 0, 999)]"
  proof
    show "cs_claims (snd ?r) = [(1, 1000, 1999), (0, 0, 999)]" by code_simp
    have "fst ?r = 3" by code_simp
    then show "claim_run ?c mem_objects {0, 1} (None, 0) 3 (snd ?r)"
      using claim_schedule [of "[0, 1, 0, 1, 0, 1, 1, 1]" "{0, 1}" ?c mem_objects "(None, 0)" 3 "snd ?r"]
      by (auto simp del: run_schedule.simps simp: prod_eq_iff)
  qed
  have "os_get mem_objects (None, 0) = GetNotFound" by (simp add: mem_objects_def mem_get_def)
  then have "\<forall>m < 2. \<forall>n < 2. m \<noteq> n \<longrightarrow> (case (cs_claims st ! m, cs_claims st ! n) of
      ((_, a, b), (_, c, d)) \<Rightarrow> {a..b} \<inter> {c..d} = {})"
    using claim_ranges_disjoint [OF run mem_conditional] by (simp add: cl numeral_2_eq_2)
  from this [rule_format, of 0 1] show ?thesis using run cl by auto
qed

end
