(* ===== verification/Plain_Term.thy ===== *)
theory Plain_Term
  imports Rust_Prelude
begin

text \<open>
  RDF terms and their plain term encoding (\<open>lib/encoding/src/plain_term\<close>): the Arrow struct
  array of term type, value, datatype and language tag, the builder that appends terms row by
  row, and the decoders. The term types come from the \<open>oxrdf\<close> crate; a literal is known only
  through its accessors and constructors, the record \<open>LiteralApi\<close>, whose documented behaviour
  is \<open>literal_ok\<close>. Shown: the builder keeps its columns aligned, finishing it never panics,
  decoding inverts encoding for terms, graph names and quads, and equality of encoded rows
  is \<open>sameTerm\<close>.
\<close>

section \<open>Terms\<close>

datatype 'l Term = NamedNode string | BlankNode string | Literal 'l

datatype NamedOrBlankNode = NBNamedNode string | NBBlankNode string

datatype GraphName = GNamedNode string | GBlankNode string | DefaultGraph

record 'l Quad =
  quad_graph_name :: GraphName
  quad_subject :: NamedOrBlankNode
  quad_predicate :: string
  quad_object :: "'l Term"

record 'l LiteralApi =
  lit_value :: "'l \<Rightarrow> string"
  lit_datatype :: "'l \<Rightarrow> string"
  lit_language :: "'l \<Rightarrow> string option"
  new_typed_literal :: "string \<Rightarrow> string \<Rightarrow> 'l"
  new_language_tagged_literal_unchecked :: "string \<Rightarrow> string \<Rightarrow> 'l"

definition rdf_lang_string :: string where
  "rdf_lang_string = ''http://www.w3.org/1999/02/22-rdf-syntax-ns#langString''"

text \<open>Two literals are equal when value, datatype and language agree; a literal has a language
  exactly when it is a language-tagged string, whose datatype is \<open>rdf:langString\<close>; the
  constructors store their arguments.\<close>

definition literal_ok :: "'l LiteralApi \<Rightarrow> bool" where
  "literal_ok L \<longleftrightarrow>
     (\<forall>x y. lit_value L x = lit_value L y \<and> lit_datatype L x = lit_datatype L y \<and>
        lit_language L x = lit_language L y \<longrightarrow> x = y) \<and>
     (\<forall>x t. lit_language L x = Some t \<longrightarrow> lit_datatype L x = rdf_lang_string) \<and>
     (\<forall>v d. lit_value L (new_typed_literal L v d) = v \<and> lit_datatype L (new_typed_literal L v d) = d \<and>
        lit_language L (new_typed_literal L v d) = None) \<and>
     (\<forall>v t. lit_value L (new_language_tagged_literal_unchecked L v t) = v \<and>
        lit_datatype L (new_language_tagged_literal_unchecked L v t) = rdf_lang_string \<and>
        lit_language L (new_language_tagged_literal_unchecked L v t) = Some t)"

section \<open>The array builder\<close>

datatype PlainTermType = TNamedNode | TBlankNode | TLiteral

fun plain_term_type_code :: "PlainTermType \<Rightarrow> int" where
  "plain_term_type_code TNamedNode = 0"
| "plain_term_type_code TBlankNode = 1"
| "plain_term_type_code TLiteral = 2"

definition plain_term_type_try_from :: "int \<Rightarrow> PlainTermType option" where
  "plain_term_type_try_from v =
     (if v = 0 then Some TNamedNode else if v = 1 then Some TBlankNode
      else if v = 2 then Some TLiteral else None)"

text \<open>The builder and the finished struct array have the same five columns: the validity
  of the struct rows and the four children.\<close>

record PlainTermArray =
  null_buffer :: "bool list"
  term_type :: "int option list"
  value_col :: "string option list"
  data_type :: "string option list"
  language_tag :: "string option list"

definition builder_new :: PlainTermArray where
  "builder_new = \<lparr>null_buffer = [], term_type = [], value_col = [], data_type = [], language_tag = []\<rparr>"

definition append_null :: "PlainTermArray \<Rightarrow> PlainTermArray" where
  "append_null b = \<lparr>null_buffer = null_buffer b @ [False], term_type = term_type b @ [None],
     value_col = value_col b @ [None], data_type = data_type b @ [None],
     language_tag = language_tag b @ [None]\<rparr>"

definition append_raw ::
  "int \<Rightarrow> string \<Rightarrow> string option \<Rightarrow> string option \<Rightarrow> PlainTermArray \<Rightarrow> PlainTermArray" where
  "append_raw ty v dt lang b = \<lparr>null_buffer = null_buffer b @ [True], term_type = term_type b @ [Some ty],
     value_col = value_col b @ [Some v], data_type = data_type b @ [dt],
     language_tag = language_tag b @ [lang]\<rparr>"

text \<open>\<open>append\<close> asserts that a literal has a datatype; \<^term>\<open>None\<close> is the failed assertion.\<close>

definition append_checked ::
  "PlainTermType \<Rightarrow> string \<Rightarrow> string option \<Rightarrow> string option \<Rightarrow> PlainTermArray \<Rightarrow> PlainTermArray option" where
  "append_checked ty v dt lang b =
     (if ty = TLiteral \<and> dt = None then None
      else Some (append_raw (plain_term_type_code ty) v dt lang b))"

definition append_named_node :: "string \<Rightarrow> PlainTermArray \<Rightarrow> PlainTermArray option" where
  "append_named_node nn = append_checked TNamedNode nn None None"

definition append_blank_node :: "string \<Rightarrow> PlainTermArray \<Rightarrow> PlainTermArray option" where
  "append_blank_node bnode = append_checked TBlankNode bnode None None"

fun append_named_or_blank_node :: "NamedOrBlankNode \<Rightarrow> PlainTermArray \<Rightarrow> PlainTermArray option" where
  "append_named_or_blank_node (NBNamedNode nn) b = append_named_node nn b"
| "append_named_or_blank_node (NBBlankNode bnode) b = append_blank_node bnode b"

fun append_graph_name :: "GraphName \<Rightarrow> PlainTermArray \<Rightarrow> PlainTermArray option" where
  "append_graph_name (GNamedNode nn) b = append_named_node nn b"
| "append_graph_name (GBlankNode bnode) b = append_blank_node bnode b"
| "append_graph_name DefaultGraph b = Some (append_null b)"

definition append_literal :: "'l LiteralApi \<Rightarrow> 'l \<Rightarrow> PlainTermArray \<Rightarrow> PlainTermArray option" where
  "append_literal L l = append_checked TLiteral (lit_value L l) (Some (lit_datatype L l)) (lit_language L l)"

fun append_term :: "'l LiteralApi \<Rightarrow> 'l Term \<Rightarrow> PlainTermArray \<Rightarrow> PlainTermArray option" where
  "append_term L (NamedNode nn) b = append_named_node nn b"
| "append_term L (BlankNode bnode) b = append_blank_node bnode b"
| "append_term L (Literal l) b = append_literal L l b"

definition builder_len :: "PlainTermArray \<Rightarrow> nat" where
  "builder_len b = length (term_type b)"

text \<open>\<open>finish\<close> builds the struct array, which panics (\<^term>\<open>None\<close>) when the children differ in
  length or a non-nullable child (term type, value) is null in a valid row.\<close>

definition struct_array_new :: "PlainTermArray \<Rightarrow> PlainTermArray option" where
  "struct_array_new b =
     (let n = length (null_buffer b) in
      if length (term_type b) = n \<and> length (value_col b) = n \<and> length (data_type b) = n \<and>
         length (language_tag b) = n \<and>
         (\<forall>i \<in> set [0..<n]. null_buffer b ! i \<longrightarrow> term_type b ! i \<noteq> None \<and> value_col b ! i \<noteq> None)
      then Some b else None)"

definition finish :: "PlainTermArray \<Rightarrow> PlainTermArray option" where
  "finish b = struct_array_new b"

section \<open>The encoder\<close>

datatype ThinError = ExpectedError

text \<open>\<^term>\<open>None\<close> is a panic of the builder.\<close>

fun encode_loop :: "'l LiteralApi \<Rightarrow> (ThinError, 'l Term) result list \<Rightarrow> PlainTermArray \<Rightarrow> PlainTermArray option" where
  "encode_loop L [] b = Some b"
| "encode_loop L (t # ts) b =
     Option.bind (case t of
        Inr (NamedNode v) \<Rightarrow> append_named_node v b
      | Inr (BlankNode v) \<Rightarrow> append_blank_node v b
      | Inr (Literal v) \<Rightarrow> append_literal L v b
      | Inl _ \<Rightarrow> Some (append_null b)) (encode_loop L ts)"

definition encode_terms :: "'l LiteralApi \<Rightarrow> (ThinError, 'l Term) result list \<Rightarrow> PlainTermArray option" where
  "encode_terms L ts = Option.bind (encode_loop L ts builder_new) finish"

section \<open>The decoders\<close>

text \<open>A decoded element is a term, the expected error, or a panic. Arrow's \<open>value(i)\<close> of a
  null slot reads the zero or the empty string that the builder left there.\<close>

datatype 'a decoded = Decoded 'a | DecodeErr ThinError | DecodePanic string

definition arrow_value :: "'a \<Rightarrow> 'a option list \<Rightarrow> nat \<Rightarrow> 'a" where
  "arrow_value dflt col i = (case col ! i of Some v \<Rightarrow> v | None \<Rightarrow> dflt)"

fun decode_term :: "'l LiteralApi \<Rightarrow> PlainTermArray \<Rightarrow> nat \<Rightarrow> PlainTermType \<Rightarrow> 'l Term" where
  "decode_term L a i TNamedNode = NamedNode (arrow_value [] (value_col a) i)"
| "decode_term L a i TBlankNode = BlankNode (arrow_value [] (value_col a) i)"
| "decode_term L a i TLiteral =
     (if language_tag a ! i \<noteq> None
      then Literal (new_language_tagged_literal_unchecked L (arrow_value [] (value_col a) i)
             (arrow_value [] (language_tag a) i))
      else Literal (new_typed_literal L (arrow_value [] (value_col a) i) (arrow_value [] (data_type a) i)))"

definition extract_term :: "'l LiteralApi \<Rightarrow> PlainTermArray \<Rightarrow> nat \<Rightarrow> 'l Term decoded" where
  "extract_term L a i =
     (if null_buffer a ! i
      then (case plain_term_type_try_from (arrow_value 0 (term_type a) i) of
              None \<Rightarrow> DecodePanic ''Unexpected term type encoding. Should be ensured by the wrapping type.''
            | Some ty \<Rightarrow> Decoded (decode_term L a i ty))
      else DecodeErr ExpectedError)"

definition decode_terms :: "'l LiteralApi \<Rightarrow> PlainTermArray \<Rightarrow> 'l Term decoded list" where
  "decode_terms L a = map (extract_term L a) [0..<length (null_buffer a)]"

fun map_term_ref_to_graph_name_ref :: "'l Term decoded \<Rightarrow> GraphName decoded" where
  "map_term_ref_to_graph_name_ref (Decoded (NamedNode nn)) = Decoded (GNamedNode nn)"
| "map_term_ref_to_graph_name_ref (Decoded (BlankNode bnode)) = Decoded (GBlankNode bnode)"
| "map_term_ref_to_graph_name_ref (Decoded (Literal _)) = DecodePanic ''Literal when extracting graph name''"
| "map_term_ref_to_graph_name_ref (DecodeErr _) = Decoded DefaultGraph"
| "map_term_ref_to_graph_name_ref (DecodePanic m) = DecodePanic m"

definition decode_graph_names :: "'l LiteralApi \<Rightarrow> PlainTermArray \<Rightarrow> GraphName decoded list" where
  "decode_graph_names L a = map map_term_ref_to_graph_name_ref (decode_terms L a)"

section \<open>Quads\<close>

record PlainTermQuads =
  graphs :: PlainTermArray
  subjects :: PlainTermArray
  predicates :: PlainTermArray
  objects :: PlainTermArray

definition quads_builder_new :: PlainTermQuads where
  "quads_builder_new = \<lparr>graphs = builder_new, subjects = builder_new, predicates = builder_new,
     objects = builder_new\<rparr>"

definition append_quad :: "'l LiteralApi \<Rightarrow> 'l Quad \<Rightarrow> PlainTermQuads \<Rightarrow> PlainTermQuads option" where
  "append_quad L q b =
     Option.bind (append_graph_name (quad_graph_name q) (graphs b)) (\<lambda>g.
     Option.bind (append_named_or_blank_node (quad_subject q) (subjects b)) (\<lambda>s.
     Option.bind (append_named_node (quad_predicate q) (predicates b)) (\<lambda>p.
     Option.bind (append_term L (quad_object q) (objects b)) (\<lambda>obj.
     Some \<lparr>graphs = g, subjects = s, predicates = p, objects = obj\<rparr>))))"

definition append_graph :: "NamedOrBlankNode option \<Rightarrow> PlainTermQuads \<Rightarrow> PlainTermQuads option" where
  "append_graph g b =
     Option.bind (append_graph_name (case g of Some (NBNamedNode nn) \<Rightarrow> GNamedNode nn
        | Some (NBBlankNode bn) \<Rightarrow> GBlankNode bn | None \<Rightarrow> DefaultGraph) (graphs b)) (\<lambda>gs.
     Some \<lparr>graphs = gs, subjects = append_null (subjects b), predicates = append_null (predicates b),
       objects = append_null (objects b)\<rparr>)"

definition quads_finish :: "PlainTermQuads \<Rightarrow> PlainTermQuads option" where
  "quads_finish b =
     Option.bind (finish (graphs b)) (\<lambda>g. Option.bind (finish (subjects b)) (\<lambda>s.
     Option.bind (finish (predicates b)) (\<lambda>p. Option.bind (finish (objects b)) (\<lambda>obj.
     Some \<lparr>graphs = g, subjects = s, predicates = p, objects = obj\<rparr>))))"

fun append_quads_loop :: "'l LiteralApi \<Rightarrow> 'l Quad list \<Rightarrow> PlainTermQuads \<Rightarrow> PlainTermQuads option" where
  "append_quads_loop L [] b = Some b"
| "append_quads_loop L (q # qs) b = Option.bind (append_quad L q b) (append_quads_loop L qs)"

section \<open>Well-formed builders\<close>

definition array_wf :: "PlainTermArray \<Rightarrow> bool" where
  "array_wf b \<longleftrightarrow> length (term_type b) = length (null_buffer b) \<and> length (value_col b) = length (null_buffer b) \<and>
     length (data_type b) = length (null_buffer b) \<and> length (language_tag b) = length (null_buffer b) \<and>
     (\<forall>i < length (null_buffer b). null_buffer b ! i \<longrightarrow> term_type b ! i \<noteq> None \<and> value_col b ! i \<noteq> None)"

lemma finish_wf [simp]: "array_wf b \<Longrightarrow> finish b = Some b"
  by (auto simp: finish_def struct_array_new_def array_wf_def Let_def)

lemma builder_new_wf [simp]: "array_wf builder_new"
  by (simp add: array_wf_def builder_new_def)

lemma append_wf [simp]:
  "array_wf b \<Longrightarrow> array_wf (append_null b)"
  "array_wf b \<Longrightarrow> array_wf (append_raw ty v dt lang b)"
  by (auto simp: array_wf_def append_null_def append_raw_def nth_append less_Suc_eq)

definition decode_raw :: "'l LiteralApi \<Rightarrow> int \<Rightarrow> string \<Rightarrow> string option \<Rightarrow> string option \<Rightarrow> 'l Term decoded" where
  "decode_raw L ty v dt lang = extract_term L (append_raw ty v dt lang builder_new) 0"

lemma extract_append_old:
  "array_wf b \<Longrightarrow> i < length (null_buffer b) \<Longrightarrow> extract_term L (append_null b) i = extract_term L b i"
  "array_wf b \<Longrightarrow> i < length (null_buffer b) \<Longrightarrow> extract_term L (append_raw ty v dt lang b) i = extract_term L b i"
proof -
  have d: "decode_term L b' i ty' = decode_term L b i ty'"
    if "value_col b' ! i = value_col b ! i" "data_type b' ! i = data_type b ! i"
       "language_tag b' ! i = language_tag b ! i" for b' ty'
    using that by (cases ty') (auto simp: arrow_value_def)
  show "array_wf b \<Longrightarrow> i < length (null_buffer b) \<Longrightarrow> extract_term L (append_null b) i = extract_term L b i"
    unfolding extract_term_def
    by (subst d) (auto simp: append_null_def array_wf_def nth_append arrow_value_def)
  show "array_wf b \<Longrightarrow> i < length (null_buffer b) \<Longrightarrow>
      extract_term L (append_raw ty v dt lang b) i = extract_term L b i"
    unfolding extract_term_def
    by (subst d) (auto simp: append_raw_def array_wf_def nth_append arrow_value_def)
qed

lemma extract_append_new:
  "array_wf b \<Longrightarrow> extract_term L (append_raw ty v dt lang b) (length (null_buffer b)) = decode_raw L ty v dt lang"
  by (auto simp: extract_term_def decode_raw_def append_raw_def array_wf_def nth_append builder_new_def
      arrow_value_def plain_term_type_try_from_def)

lemma decode_append:
  "array_wf b \<Longrightarrow> decode_terms L (append_null b) = decode_terms L b @ [DecodeErr ExpectedError]"
  "array_wf b \<Longrightarrow> decode_terms L (append_raw ty v dt lang b) = decode_terms L b @ [decode_raw L ty v dt lang]"
proof -
  have 1: "null_buffer (append_null b) = null_buffer b @ [False]"
    "null_buffer (append_raw ty v dt lang b) = null_buffer b @ [True]"
    by (simp_all add: append_null_def append_raw_def)
  show "array_wf b \<Longrightarrow> decode_terms L (append_null b) = decode_terms L b @ [DecodeErr ExpectedError]"
    by (simp add: decode_terms_def 1 extract_append_old) (simp add: extract_term_def 1 nth_append)
  show "array_wf b \<Longrightarrow> decode_terms L (append_raw ty v dt lang b) = decode_terms L b @ [decode_raw L ty v dt lang]"
    by (simp add: decode_terms_def 1 extract_append_old extract_append_new)
qed

lemma decode_terms_new [simp]: "decode_terms L builder_new = []"
  by (simp add: decode_terms_def builder_new_def)

lemma literal_okD:
  assumes "literal_ok L"
  shows "lit_language L l = Some t \<Longrightarrow> new_language_tagged_literal_unchecked L (lit_value L l) t = l"
    and "lit_language L l = None \<Longrightarrow> new_typed_literal L (lit_value L l) (lit_datatype L l) = l"
  using assms unfolding literal_ok_def by metis+

text \<open>Appending a term to a well-formed builder never panics, keeps it well-formed, and adds
  exactly this term to what the decoder reads.\<close>

definition appends :: "'l LiteralApi \<Rightarrow> 'l Term decoded \<Rightarrow> PlainTermArray \<Rightarrow> PlainTermArray option \<Rightarrow> bool" where
  "appends L x b r \<longleftrightarrow> (\<exists>b'. r = Some b' \<and> array_wf b' \<and> decode_terms L b' = decode_terms L b @ [x])"

lemma appends_null: "array_wf b \<Longrightarrow> appends L (DecodeErr ExpectedError) b (Some (append_null b))"
  by (simp add: appends_def decode_append)

lemma appends_named: "array_wf b \<Longrightarrow> appends L (Decoded (NamedNode v)) b (append_named_node v b)"
  by (simp add: appends_def append_named_node_def append_checked_def decode_append)
    (simp add: decode_raw_def extract_term_def append_raw_def builder_new_def arrow_value_def
      plain_term_type_try_from_def)

lemma appends_blank: "array_wf b \<Longrightarrow> appends L (Decoded (BlankNode v)) b (append_blank_node v b)"
  by (simp add: appends_def append_blank_node_def append_checked_def decode_append)
    (simp add: decode_raw_def extract_term_def append_raw_def builder_new_def arrow_value_def
      plain_term_type_try_from_def)

lemma appends_literal:
  "literal_ok L \<Longrightarrow> array_wf b \<Longrightarrow> appends L (Decoded (Literal l)) b (append_literal L l b)"
  by (simp add: appends_def append_literal_def append_checked_def decode_append)
    (auto simp: decode_raw_def extract_term_def append_raw_def builder_new_def arrow_value_def
      plain_term_type_try_from_def literal_okD split: option.splits)

lemmas appends_cases = appends_null appends_named appends_blank appends_literal

lemma appends_term: "literal_ok L \<Longrightarrow> array_wf b \<Longrightarrow> appends L (Decoded t) b (append_term L t b)"
  by (cases t) (simp_all add: appends_cases)

fun node_term :: "NamedOrBlankNode \<Rightarrow> 'l Term" where
  "node_term (NBNamedNode v) = NamedNode v"
| "node_term (NBBlankNode v) = BlankNode v"

fun graph_term :: "GraphName \<Rightarrow> 'l Term decoded" where
  "graph_term (GNamedNode v) = Decoded (NamedNode v)"
| "graph_term (GBlankNode v) = Decoded (BlankNode v)"
| "graph_term DefaultGraph = DecodeErr ExpectedError"

lemma graph_of_graph_term [simp]: "map_term_ref_to_graph_name_ref (graph_term g) = Decoded g"
  by (cases g) simp_all

lemma appends_node: "array_wf b \<Longrightarrow> appends L (Decoded (node_term n)) b (append_named_or_blank_node n b)"
  by (cases n) (simp_all add: appends_cases)

lemma appends_graph: "array_wf b \<Longrightarrow> appends L (graph_term g) b (append_graph_name g b)"
  by (cases g) (simp_all add: appends_cases)

section \<open>Encoding and decoding are inverse\<close>

fun decoded_of :: "(ThinError, 'a) result \<Rightarrow> 'a decoded" where
  "decoded_of (Inl e) = DecodeErr e"
| "decoded_of (Inr v) = Decoded v"

lemma encode_loop_decode:
  "literal_ok L \<Longrightarrow> array_wf b \<Longrightarrow>
   \<exists>b'. encode_loop L ts b = Some b' \<and> array_wf b' \<and> decode_terms L b' = decode_terms L b @ map decoded_of ts"
proof (induction ts arbitrary: b)
  case (Cons t ts)
  define r where "r = (case t of Inr (NamedNode v) \<Rightarrow> append_named_node v b
      | Inr (BlankNode v) \<Rightarrow> append_blank_node v b
      | Inr (Literal v) \<Rightarrow> append_literal L v b | Inl _ \<Rightarrow> Some (append_null b))"
  have "appends L (decoded_of t) b r"
  proof (cases t)
    case (Inl e)
    then show ?thesis using appends_null [OF Cons.prems(2), of L] by (cases e) (simp add: r_def)
  next
    case (Inr v)
    then show ?thesis using Cons.prems by (cases v) (simp_all add: r_def appends_cases)
  qed
  then obtain b1 where b1: "r = Some b1" "array_wf b1" "decode_terms L b1 = decode_terms L b @ [decoded_of t]"
    by (auto simp: appends_def)
  then show ?case
    using Cons.IH [OF Cons.prems(1) b1(2)] by (simp add: r_def [symmetric])
qed simp

lemma encode_terms_decode:
  "literal_ok L \<Longrightarrow> \<exists>a. encode_terms L ts = Some a \<and> decode_terms L a = map decoded_of ts"
  using encode_loop_decode [OF _ builder_new_wf, of L ts] by (auto simp: encode_terms_def)

lemma encode_terms_total: "literal_ok L \<Longrightarrow> \<exists>a. encode_terms L ts = Some a"
  using encode_terms_decode by blast

lemma append_quads_loop_decode:
  "literal_ok L \<Longrightarrow> array_wf (graphs b) \<Longrightarrow> array_wf (subjects b) \<Longrightarrow> array_wf (predicates b) \<Longrightarrow> array_wf (objects b) \<Longrightarrow>
   \<exists>b'. append_quads_loop L qs b = Some b' \<and>
     (array_wf (graphs b') \<and> decode_terms L (graphs b') = decode_terms L (graphs b) @ map (graph_term \<circ> quad_graph_name) qs) \<and>
     (array_wf (subjects b') \<and> decode_terms L (subjects b') =
        decode_terms L (subjects b) @ map (Decoded \<circ> node_term \<circ> quad_subject) qs) \<and>
     (array_wf (predicates b') \<and> decode_terms L (predicates b') =
        decode_terms L (predicates b) @ map (Decoded \<circ> NamedNode \<circ> quad_predicate) qs) \<and>
     (array_wf (objects b') \<and> decode_terms L (objects b') =
        decode_terms L (objects b) @ map (Decoded \<circ> quad_object) qs)"
proof (induction qs arbitrary: b)
  case (Cons q qs)
  obtain g s p obj where
    g: "append_graph_name (quad_graph_name q) (graphs b) = Some g" "array_wf g"
       "decode_terms L g = decode_terms L (graphs b) @ [graph_term (quad_graph_name q)]" and
    s: "append_named_or_blank_node (quad_subject q) (subjects b) = Some s" "array_wf s"
       "decode_terms L s = decode_terms L (subjects b) @ [Decoded (node_term (quad_subject q))]" and
    p: "append_named_node (quad_predicate q) (predicates b) = Some p" "array_wf p"
       "decode_terms L p = decode_terms L (predicates b) @ [Decoded (NamedNode (quad_predicate q))]" and
    obj: "append_term L (quad_object q) (objects b) = Some obj" "array_wf obj"
       "decode_terms L obj = decode_terms L (objects b) @ [Decoded (quad_object q)]"
    using appends_graph [OF Cons.prems(2), of L "quad_graph_name q"]
      appends_node [OF Cons.prems(3), of L "quad_subject q"]
      appends_named [OF Cons.prems(4), of L "quad_predicate q"]
      appends_term [OF Cons.prems(1) Cons.prems(5), of "quad_object q"]
    unfolding appends_def by blast
  let ?b = "\<lparr>graphs = g, subjects = s, predicates = p, objects = obj\<rparr>"
  have q: "append_quads_loop L (q # qs) b = append_quads_loop L qs ?b"
    by (simp add: append_quad_def g(1) s(1) p(1) obj(1))
  show ?case
    unfolding q using Cons.IH [of ?b] Cons.prems(1) g(2) s(2) p(2) obj(2)
    by (simp only: g(3) s(3) p(3) obj(3) PlainTermQuads.simps append_assoc append_Cons append_Nil list.map o_apply)
qed simp

text \<open>A reference literal type with which the hypotheses on the literal interface hold.\<close>

datatype RefLiteral = TypedLiteral string string | TaggedLiteral string string

fun ref_value :: "RefLiteral \<Rightarrow> string" where
  "ref_value (TypedLiteral v d) = v"
| "ref_value (TaggedLiteral v t) = v"

fun ref_datatype :: "RefLiteral \<Rightarrow> string" where
  "ref_datatype (TypedLiteral v d) = d"
| "ref_datatype (TaggedLiteral v t) = rdf_lang_string"

fun ref_language :: "RefLiteral \<Rightarrow> string option" where
  "ref_language (TypedLiteral v d) = None"
| "ref_language (TaggedLiteral v t) = Some t"

definition ref_literals :: "RefLiteral LiteralApi" where
  "ref_literals = \<lparr>lit_value = ref_value, lit_datatype = ref_datatype, lit_language = ref_language,
     new_typed_literal = TypedLiteral, new_language_tagged_literal_unchecked = TaggedLiteral\<rparr>"

lemma ref_literals_simps [simp]:
  "lit_value ref_literals = ref_value" "lit_datatype ref_literals = ref_datatype"
  "lit_language ref_literals = ref_language" "new_typed_literal ref_literals = TypedLiteral"
  "new_language_tagged_literal_unchecked ref_literals = TaggedLiteral"
  by (simp_all add: ref_literals_def)

lemma ref_literals_ok: "literal_ok ref_literals"
proof -
  have "x = y" if "ref_value x = ref_value y" "ref_datatype x = ref_datatype y" "ref_language x = ref_language y"
    for x y using that by (cases x; cases y) simp_all
  moreover have "ref_datatype x = rdf_lang_string" if "ref_language x = Some t" for x t
    using that by (cases x) simp_all
  ultimately show ?thesis by (simp add: literal_ok_def)
qed

text \<open>C10: Decoding the plain term encoding of any sequence of terms and errors gives the sequence
  back: encoding never panics and keeps every term, with its lexical value, and every error.\<close>

theorem plain_term_roundtrip:
  assumes "literal_ok L"
  shows "map_option (decode_terms L) (encode_terms L ts) = Some (map decoded_of ts)"
  using encode_terms_decode [OF assms, of ts] by auto

theorem plain_term_roundtrip_witness:
  "map_option (decode_terms ref_literals)
     (encode_terms ref_literals [Inr (Literal (TaggedLiteral ''chat'' ''fr'')), Inl ExpectedError, Inr (BlankNode ''b'')]) =
   Some [Decoded (Literal (TaggedLiteral ''chat'' ''fr'')), DecodeErr ExpectedError, Decoded (BlankNode ''b'')]"
  using plain_term_roundtrip [OF ref_literals_ok,
    of "[Inr (Literal (TaggedLiteral ''chat'' ''fr'')), Inl ExpectedError, Inr (BlankNode ''b'')]"] by simp

text \<open>C31: Building the four columns of any list of quads never panics, and decoding the columns
  row by row gives the quads back, the default graph through a null graph.\<close>

theorem quads_roundtrip:
  assumes "literal_ok L"
  shows "\<exists>b. Option.bind (append_quads_loop L qs quads_builder_new) quads_finish = Some b \<and>
     decode_graph_names L (graphs b) = map (Decoded \<circ> quad_graph_name) qs \<and>
     decode_terms L (subjects b) = map (Decoded \<circ> node_term \<circ> quad_subject) qs \<and>
     decode_terms L (predicates b) = map (Decoded \<circ> NamedNode \<circ> quad_predicate) qs \<and>
     decode_terms L (objects b) = map (Decoded \<circ> quad_object) qs"
proof -
  have wf: "array_wf (graphs quads_builder_new)" "array_wf (subjects quads_builder_new)"
    "array_wf (predicates quads_builder_new)" "array_wf (objects quads_builder_new)"
    and nil: "decode_terms L (graphs quads_builder_new) = []" "decode_terms L (subjects quads_builder_new) = []"
    "decode_terms L (predicates quads_builder_new) = []" "decode_terms L (objects quads_builder_new) = []"
    by (simp_all add: quads_builder_new_def)
  obtain b where b: "append_quads_loop L qs quads_builder_new = Some b"
    "array_wf (graphs b)" "decode_terms L (graphs b) = map (graph_term \<circ> quad_graph_name) qs"
    "array_wf (subjects b)" "decode_terms L (subjects b) = map (Decoded \<circ> node_term \<circ> quad_subject) qs"
    "array_wf (predicates b)" "decode_terms L (predicates b) = map (Decoded \<circ> NamedNode \<circ> quad_predicate) qs"
    "array_wf (objects b)" "decode_terms L (objects b) = map (Decoded \<circ> quad_object) qs"
    using append_quads_loop_decode [OF assms wf, of qs] by (auto simp: nil)
  have "quads_finish b = Some b" using b by (simp add: quads_finish_def)
  moreover have "decode_graph_names L (graphs b) = map (Decoded \<circ> quad_graph_name) qs"
    by (simp add: decode_graph_names_def b(3))
  ultimately show ?thesis using b by simp
qed

theorem quads_roundtrip_witness:
  "\<exists>b. Option.bind (append_quads_loop ref_literals
       [\<lparr>quad_graph_name = DefaultGraph, quad_subject = NBBlankNode ''b'', quad_predicate = ''p'',
         quad_object = Literal (TypedLiteral ''1'' ''int'')\<rparr>] quads_builder_new) quads_finish = Some b \<and>
     decode_graph_names ref_literals (graphs b) = [Decoded DefaultGraph] \<and>
     decode_terms ref_literals (objects b) = [Decoded (Literal (TypedLiteral ''1'' ''int''))]"
  using quads_roundtrip [OF ref_literals_ok, of "[\<lparr>quad_graph_name = DefaultGraph, quad_subject = NBBlankNode ''b'',
    quad_predicate = ''p'', quad_object = Literal (TypedLiteral ''1'' ''int'')\<rparr>]"] by auto

section \<open>Equality of encoded rows\<close>

definition row_cells :: "PlainTermArray \<Rightarrow> nat \<Rightarrow> bool \<times> int option \<times> string option \<times> string option \<times> string option" where
  "row_cells a i = (null_buffer a ! i, term_type a ! i, value_col a ! i, data_type a ! i, language_tag a ! i)"

definition array_cells :: "PlainTermArray \<Rightarrow> (bool \<times> int option \<times> string option \<times> string option \<times> string option) list" where
  "array_cells a = map (row_cells a) [0..<length (null_buffer a)]"

fun term_cells :: "'l LiteralApi \<Rightarrow> (ThinError, 'l Term) result \<Rightarrow>
    bool \<times> int option \<times> string option \<times> string option \<times> string option" where
  "term_cells L (Inl e) = (False, None, None, None, None)"
| "term_cells L (Inr (NamedNode v)) = (True, Some 0, Some v, None, None)"
| "term_cells L (Inr (BlankNode v)) = (True, Some 1, Some v, None, None)"
| "term_cells L (Inr (Literal l)) = (True, Some 2, Some (lit_value L l), Some (lit_datatype L l), lit_language L l)"

lemma array_cells_append:
  "array_wf b \<Longrightarrow> array_cells (append_null b) = array_cells b @ [(False, None, None, None, None)]"
  "array_wf b \<Longrightarrow> array_cells (append_raw ty v dt lang b) = array_cells b @ [(True, Some ty, Some v, dt, lang)]"
  by (auto simp: array_cells_def row_cells_def append_null_def append_raw_def array_wf_def nth_append)

lemma encode_loop_cells:
  "array_wf b \<Longrightarrow> encode_loop L ts b = Some b' \<Longrightarrow>
   array_cells b' = array_cells b @ map (term_cells L) ts \<and> array_wf b'"
proof (induction ts arbitrary: b)
  case (Cons t ts)
  note defs = append_named_node_def append_blank_node_def append_literal_def append_checked_def
  have "\<exists>b1. encode_loop L (t # ts) b = encode_loop L ts b1 \<and> array_wf b1 \<and>
      array_cells b1 = array_cells b @ [term_cells L t]"
  proof (cases t)
    case (Inl e)
    then show ?thesis using Cons.prems(1) by (auto simp: array_cells_append)
  next
    case (Inr v)
    then show ?thesis using Cons.prems(1) by (cases v) (auto simp: array_cells_append defs)
  qed
  then show ?case using Cons.IH Cons.prems by auto
qed simp

lemma encode_terms_cells: "encode_terms L ts = Some a \<Longrightarrow> array_cells a = map (term_cells L) ts"
  using encode_loop_cells [OF builder_new_wf, of L ts]
  by (auto simp: encode_terms_def bind_eq_Some_conv) (simp add: array_cells_def builder_new_def)

lemma term_cells_eq_iff:
  assumes "literal_ok L"
  shows "term_cells L (Inr x) = term_cells L (Inr y) \<longleftrightarrow> x = y"
proof -
  have "l = k" if "lit_value L l = lit_value L k" "lit_datatype L l = lit_datatype L k"
    "lit_language L l = lit_language L k" for l k
    using assms that unfolding literal_ok_def by blast
  then show ?thesis by (cases x; cases y) auto
qed

text \<open>Arrow's equality of struct rows: both rows valid and all children equal, a null row equal to
  nothing.\<close>

definition row_eq :: "PlainTermArray \<Rightarrow> nat \<Rightarrow> nat \<Rightarrow> bool" where
  "row_eq a i j \<longleftrightarrow> null_buffer a ! i \<and> null_buffer a ! j \<and> row_cells a i = row_cells a j"

text \<open>C32: Equality of encoded rows is sameTerm: two rows of an encoded array are equal, null being
  equal to nothing, exactly when both were encoded from the same term.\<close>

theorem plain_term_same_term:
  assumes "literal_ok L" "encode_terms L ts = Some a" "i < length ts" "j < length ts"
  shows "row_eq a i j \<longleftrightarrow> (\<exists>t. ts ! i = Inr t \<and> ts ! j = Inr t)"
proof -
  have cells: "array_cells a = map (term_cells L) ts" by (rule encode_terms_cells [OF assms(2)])
  then have len: "length (null_buffer a) = length ts"
    by (metis array_cells_def length_map length_upt diff_zero)
  have row: "row_cells a k = term_cells L (ts ! k)" if "k < length ts" for k
    using arg_cong [OF cells, of "\<lambda>xs. xs ! k"] that by (simp add: array_cells_def len)
  have valid: "null_buffer a ! k \<longleftrightarrow> (\<exists>t. ts ! k = Inr t)" if "k < length ts" for k
    using row [OF that] by (cases "(L, ts ! k)" rule: term_cells.cases) (auto simp: row_cells_def)
  show ?thesis
    unfolding row_eq_def row [OF assms(3)] row [OF assms(4)] valid [OF assms(3)] valid [OF assms(4)]
    using term_cells_eq_iff [OF assms(1)] by fastforce
qed

theorem plain_term_same_term_witness:
  "\<exists>a. encode_terms ref_literals [Inr (Literal (TypedLiteral ''1'' ''int'')), Inr (Literal (TypedLiteral ''01'' ''int'')),
      Inr (Literal (TypedLiteral ''1'' ''int''))] = Some a \<and> row_eq a 0 2 \<and> \<not> row_eq a 0 1"
proof -
  let ?ts = "[Inr (Literal (TypedLiteral ''1'' ''int'')), Inr (Literal (TypedLiteral ''01'' ''int'')),
      Inr (Literal (TypedLiteral ''1'' ''int''))]"
  obtain a where a: "encode_terms ref_literals ?ts = Some a"
    using encode_terms_total [OF ref_literals_ok] by blast
  show ?thesis
    using plain_term_same_term [OF ref_literals_ok a, of 0 2] plain_term_same_term [OF ref_literals_ok a, of 0 1] a
    by simp
qed

end
