(* ===== verification/Object_Id_Dictionary.thy ===== *)
theory Object_Id_Dictionary
  imports Object_Id_Claim Plain_Term "HOL-Library.AList"
begin

text \<open>
  The local object id dictionary (\<open>local_object_ids/redb/{mod,cache,dictionary,builder}.rs\<close> of
  \<open>lib/storage-deltalake\<close>): an embedded database with the tables id to term, term to id and metadata, a
  cache in front of it, read-only snapshots, and write transactions that give new terms ids from
  the claim of the node and write them on commit. The tables of the database are association
  lists; its input/output errors are not modelled. The cache library may drop entries at any
  time and is a parameter, the record \<open>CacheLib\<close> with \<open>cache_ok\<close>; so is the claimer, with
  \<open>fresh_claimer\<close>. Shown: the two tables stay inverse to each other under every operation, the
  cache never disagrees with them, an id is never given to two terms, and encoding, committing
  and resolving gives the terms back.
\<close>

section \<open>The cache\<close>

record ('c, 'd) CacheLib =
  id_cache_new :: "nat \<Rightarrow> 'c"
  id_cache_get :: "'c \<Rightarrow> int \<Rightarrow> LocalDictionaryTerm option \<times> 'c"
  id_cache_insert :: "'c \<Rightarrow> int \<Rightarrow> LocalDictionaryTerm \<Rightarrow> 'c"
  term_cache_new :: "nat \<Rightarrow> 'd"
  term_cache_get :: "'d \<Rightarrow> RedbTerm \<Rightarrow> int option \<times> 'd"
  term_cache_insert :: "'d \<Rightarrow> LocalDictionaryTerm \<Rightarrow> int \<Rightarrow> 'd"

record ('c, 'd) RedbObjectIdCache =
  id_to_term_cache :: 'c
  term_to_id_cache :: 'd

definition cache_new :: "('c, 'd) CacheLib \<Rightarrow> nat \<Rightarrow> ('c, 'd) RedbObjectIdCache" where
  "cache_new L n = \<lparr>id_to_term_cache = id_cache_new L n, term_to_id_cache = term_cache_new L n\<rparr>"

definition cache_insert ::
    "('c, 'd) CacheLib \<Rightarrow> LocalDictionaryTerm \<Rightarrow> int \<Rightarrow> ('c, 'd) RedbObjectIdCache \<Rightarrow> ('c, 'd) RedbObjectIdCache" where
  "cache_insert L t i c = \<lparr>id_to_term_cache = id_cache_insert L (id_to_term_cache c) i t,
     term_to_id_cache = term_cache_insert L (term_to_id_cache c) t i\<rparr>"

definition get_by_term ::
    "('c, 'd) CacheLib \<Rightarrow> RedbTerm \<Rightarrow> ('c, 'd) RedbObjectIdCache \<Rightarrow> int option \<times> ('c, 'd) RedbObjectIdCache" where
  "get_by_term L t c = (let (r, d) = term_cache_get L (term_to_id_cache c) t in (r, c\<lparr>term_to_id_cache := d\<rparr>))"

definition get_by_id ::
    "('c, 'd) CacheLib \<Rightarrow> int \<Rightarrow> ('c, 'd) RedbObjectIdCache \<Rightarrow> LocalDictionaryTerm option \<times> ('c, 'd) RedbObjectIdCache" where
  "get_by_id L i c = (let (r, d) = id_cache_get L (id_to_term_cache c) i in (r, c\<lparr>id_to_term_cache := d\<rparr>))"

text \<open>The cache of a dictionary is optional: a lookup in no cache finds nothing.\<close>

definition opt_get :: "('c \<Rightarrow> 'a option \<times> 'c) \<Rightarrow> 'c option \<Rightarrow> 'a option \<times> 'c option" where
  "opt_get g cache = (case cache of None \<Rightarrow> (None, None) | Some c \<Rightarrow> apsnd Some (g c))"

section \<open>Database and dictionary\<close>

record RedbTables =
  id_to_term :: "(int \<times> RedbTerm) list"
  term_to_id :: "(RedbTerm \<times> int) list"
  metadata :: "(string \<times> string) list"

definition SYNCED_VERSION_KEY :: string where "SYNCED_VERSION_KEY = ''synced_version''"
definition NEXT_FREE_ID_KEY :: string where "NEXT_FREE_ID_KEY = ''next_free_id''"
definition LAST_FREE_ID_KEY :: string where "LAST_FREE_ID_KEY = ''last_free_id''"

lemmas metadata_keys = SYNCED_VERSION_KEY_def NEXT_FREE_ID_KEY_def LAST_FREE_ID_KEY_def

record ('c, 'd, 'w) RedbDictionary =
  db :: RedbTables
  dict_claimer :: "'w claimer option"
  dict_cache :: "('c, 'd) RedbObjectIdCache option"

text \<open>\<open>try_new\<close> opens the three tables, which creates those that do not exist yet.\<close>

definition dictionary_try_new ::
    "RedbTables \<Rightarrow> ('c, 'd) RedbObjectIdCache option \<Rightarrow> 'w claimer option \<Rightarrow> ('c, 'd, 'w) RedbDictionary" where
  "dictionary_try_new database cache cl = \<lparr>db = database, dict_claimer = cl, dict_cache = cache\<rparr>"

definition empty_tables :: RedbTables where
  "empty_tables = \<lparr>id_to_term = [], term_to_id = [], metadata = []\<rparr>"

definition builder_finish ::
    "('c, 'd) CacheLib \<Rightarrow> nat option \<Rightarrow> 'w claimer option \<Rightarrow> RedbTables option \<Rightarrow> ('c, 'd, 'w) RedbDictionary" where
  "builder_finish L cache_size cl on_disk =
     dictionary_try_new (case on_disk of None \<Rightarrow> empty_tables | Some tables \<Rightarrow> tables)
       (map_option (cache_new L) cache_size) cl"

definition parse_claim_value :: "RedbTables \<Rightarrow> string \<Rightarrow> (LocalObjectIdError, int option) result" where
  "parse_claim_value tables key =
     (case map_of (metadata tables) key of
        None \<Rightarrow> Inr None
      | Some val \<Rightarrow> (case i_from_str 64 val of
            None \<Rightarrow> Inl (Corruption ''invalid digit found in string'') | Some x \<Rightarrow> Inr (Some x)))"

definition try_load_initial_claim_redb :: "RedbTables \<Rightarrow> (LocalObjectIdError, id_range option) result" where
  "try_load_initial_claim_redb tables =
     and_then (parse_claim_value tables NEXT_FREE_ID_KEY) (\<lambda>next_free_id.
     and_then (parse_claim_value tables LAST_FREE_ID_KEY) (\<lambda>last_free_id.
     validate_initial_claim next_free_id last_free_id))"

section \<open>Transactions\<close>

record 'w DictTxn =
  write_txn :: RedbTables
  claimed_ids :: "'w ObjectIdClaim"
  reset_state_on_conflict :: "id_range option"
  pending_terms :: "(LocalDictionaryTerm \<times> int) list"
  pending_ids :: "(int \<times> LocalDictionaryTerm) list"

definition begin_txn :: "('c, 'd, 'w) RedbDictionary \<Rightarrow> (LocalObjectIdError, 'w DictTxn) result" where
  "begin_txn d =
     and_then (try_load_initial_claim_redb (db d)) (\<lambda>initial_claim.
     Inr \<lparr>write_txn = db d, claimed_ids = \<lparr>claim_state = initial_claim, claimer = dict_claimer d\<rparr>,
       reset_state_on_conflict = initial_claim, pending_terms = [], pending_ids = []\<rparr>)"

definition redb_row :: "PlainTermArray \<Rightarrow> nat \<Rightarrow> RedbTerm" where
  "redb_row a i = \<lparr>rt_term_type = arrow_value 0 (term_type a) i, rt_value = arrow_value [] (value_col a) i,
     rt_data_type = data_type a ! i, rt_language = language_tag a ! i\<rparr>"

definition array_rows :: "PlainTermArray \<Rightarrow> RedbTerm option list" where
  "array_rows a = map (\<lambda>i. if null_buffer a ! i then Some (redb_row a i) else None) [0..<length (null_buffer a)]"

text \<open>One term that differs from the one before: the cache, the table, the pending terms, and at
  last a new id.\<close>

definition encode_term ::
    "('c, 'd) CacheLib \<Rightarrow> RedbTerm \<Rightarrow> 'w DictTxn \<Rightarrow> ('c, 'd, 'w) RedbDictionary \<Rightarrow> 'w \<Rightarrow>
      (LocalObjectIdError, int) result \<times> 'w DictTxn \<times> ('c, 'd, 'w) RedbDictionary \<times> 'w" where
  "encode_term L redb_term txn d w =
     (let (hit, cache) = opt_get (get_by_term L redb_term) (dict_cache d); d = d\<lparr>dict_cache := cache\<rparr> in
      case hit of
        Some i \<Rightarrow> (Inr i, txn, d, w)
      | None \<Rightarrow>
          (case map_of (term_to_id (write_txn txn)) redb_term of
             Some i \<Rightarrow> (Inr i, txn, d\<lparr>dict_cache := map_option (cache_insert L (as_local_dictionary_term redb_term) i) cache\<rparr>, w)
           | None \<Rightarrow>
               (let owned_tuple = as_local_dictionary_term redb_term in
                case map_of (pending_terms txn) owned_tuple of
                  Some i \<Rightarrow> (Inr i, txn, d, w)
                | None \<Rightarrow>
                    (case acquire_next_id (claimed_ids txn) w of
                       (Inl e, c, w') \<Rightarrow> (Inl e, txn\<lparr>claimed_ids := c\<rparr>, d, w')
                     | (Inr r, c, w') \<Rightarrow>
                         (Inr (next_id r),
                          txn\<lparr>claimed_ids := c,
                            pending_terms := AList.update owned_tuple (next_id r) (pending_terms txn),
                            pending_ids := AList.update (next_id r) owned_tuple (pending_ids txn),
                            reset_state_on_conflict :=
                              (if newly_claimed r \<noteq> None then newly_claimed r else reset_state_on_conflict txn)\<rparr>,
                          d, w')))))"

fun encode_rows ::
    "('c, 'd) CacheLib \<Rightarrow> (RedbTerm \<times> int) option \<Rightarrow> RedbTerm option list \<Rightarrow> 'w DictTxn \<Rightarrow> ('c, 'd, 'w) RedbDictionary \<Rightarrow> 'w \<Rightarrow>
      int option list \<Rightarrow> (LocalObjectIdError, int option list) result \<times> 'w DictTxn \<times> ('c, 'd, 'w) RedbDictionary \<times> 'w" where
  "encode_rows L lst [] txn d w result_ids = (Inr result_ids, txn, d, w)"
| "encode_rows L lst (None # rows) txn d w result_ids = encode_rows L lst rows txn d w (result_ids @ [None])"
| "encode_rows L lst (Some redb_term # rows) txn d w result_ids =
     (if Some redb_term = map_option fst lst then
        encode_rows L lst rows txn d w (result_ids @ [map_option snd lst])
      else
        (case encode_term L redb_term txn d w of
           (Inl e, txn', d', w') \<Rightarrow> (Inl e, txn', d', w')
         | (Inr i, txn', d', w') \<Rightarrow> encode_rows L (Some (redb_term, i)) rows txn' d' w' (result_ids @ [Some i])))"

definition encode_array ::
    "('c, 'd) CacheLib \<Rightarrow> PlainTermArray \<Rightarrow> 'w DictTxn \<Rightarrow> ('c, 'd, 'w) RedbDictionary \<Rightarrow> 'w \<Rightarrow>
      (LocalObjectIdError, int option list) result \<times> 'w DictTxn \<times> ('c, 'd, 'w) RedbDictionary \<times> 'w" where
  "encode_array L a txn d w = encode_rows L None (array_rows a) txn d w []"

text \<open>A batch of the global table: the columns \<open>id\<close> and \<open>term\<close>, when they are there and of the right type.\<close>

record GlobalBatch =
  gb_ids :: "int list option"
  gb_terms :: "PlainTermArray option option"

definition quoted :: "string \<Rightarrow> string" where
  "quoted s = [CHR 0x27] @ s @ [CHR 0x27]"

definition add_pending :: "int \<times> LocalDictionaryTerm \<Rightarrow> 'w DictTxn \<Rightarrow> 'w DictTxn" where
  "add_pending row txn = txn\<lparr>pending_terms := AList.update (snd row) (fst row) (pending_terms txn),
     pending_ids := AList.update (fst row) (snd row) (pending_ids txn)\<rparr>"

definition max_id_of :: "int list \<Rightarrow> int option" where
  "max_id_of ids = fold (\<lambda>i m. Some (case m of None \<Rightarrow> i | Some x \<Rightarrow> max x i)) ids None"

definition cut_claim :: "int option \<Rightarrow> id_range option \<Rightarrow> 'w DictTxn \<Rightarrow> 'w DictTxn" where
  "cut_claim max_id current_claim txn =
     (case (max_id, current_claim) of
        (Some m, Some (next_free, last_free)) \<Rightarrow>
          if m \<ge> next_free then
            (let reset = (if m \<ge> last_free then None else Some (as_int 64 (m + 1), last_free))
             in txn\<lparr>reset_state_on_conflict := reset, claimed_ids := set_claim_state reset (claimed_ids txn)\<rparr>)
          else txn
      | _ \<Rightarrow> txn)"

definition add_global_batch :: "GlobalBatch \<Rightarrow> 'w DictTxn \<Rightarrow> (LocalObjectIdError, 'w DictTxn) result" where
  "add_global_batch batch txn =
     and_then (ok_or (gb_ids batch) (Corruption (''Missing '' @ quoted ''id'' @ '' column''))) (\<lambda>ids.
     and_then (ok_or (gb_terms batch) (Corruption (''Missing '' @ quoted ''term'' @ '' column''))) (\<lambda>term_col.
     and_then (ok_or term_col (DataFusionErr ''Expected array with PlainTermEncoding'')) (\<lambda>terms.
     (let current_claim = peek_current_claim (claimed_ids txn);
          rows = map (\<lambda>i. (ids ! i, as_local_dictionary_term (redb_row terms i))) [0..<length ids]
      in Inr (cut_claim (max_id_of ids) current_claim (fold add_pending rows txn))))))"

definition write_claim :: "id_range option \<Rightarrow> RedbTables \<Rightarrow> RedbTables" where
  "write_claim claim tables =
     tables\<lparr>metadata :=
       (case claim of
          None \<Rightarrow> AList.delete LAST_FREE_ID_KEY (AList.delete NEXT_FREE_ID_KEY (metadata tables))
        | Some (next_free_id, last_free_id) \<Rightarrow>
            AList.update LAST_FREE_ID_KEY (show_int last_free_id) (AList.update NEXT_FREE_ID_KEY (show_int next_free_id) (metadata tables)))\<rparr>"

definition write_term :: "LocalDictionaryTerm \<times> int \<Rightarrow> RedbTables \<Rightarrow> RedbTables" where
  "write_term p tables =
     (let redb_term = redb_from_local (fst p) in
      tables\<lparr>term_to_id := AList.update redb_term (snd p) (term_to_id tables),
        id_to_term := AList.update (snd p) redb_term (id_to_term tables)\<rparr>)"

definition write_version :: "nat \<Rightarrow> RedbTables \<Rightarrow> RedbTables" where
  "write_version v tables = tables\<lparr>metadata := AList.update SYNCED_VERSION_KEY (show_nat v) (metadata tables)\<rparr>"

definition commit_txn ::
    "('c, 'd) CacheLib \<Rightarrow> nat \<Rightarrow> 'w DictTxn \<Rightarrow> ('c, 'd, 'w) RedbDictionary \<Rightarrow> ('c, 'd, 'w) RedbDictionary" where
  "commit_txn L delta_version txn d =
     (let current_claim = peek_current_claim (claimed_ids txn);
          tables = write_claim current_claim (write_version delta_version (fold write_term (pending_terms txn) (write_txn txn)))
      in d\<lparr>db := tables, dict_cache := map_option (fold (\<lambda>p. cache_insert L (fst p) (snd p)) (pending_terms txn)) (dict_cache d)\<rparr>)"

definition abort_txn :: "'w DictTxn \<Rightarrow> ('c, 'd, 'w) RedbDictionary \<Rightarrow> ('c, 'd, 'w) RedbDictionary" where
  "abort_txn txn d = d\<lparr>db := write_claim (reset_state_on_conflict txn) (write_txn txn)\<rparr>"

section \<open>Snapshots\<close>

definition append_redb_term :: "RedbTerm \<Rightarrow> PlainTermArray \<Rightarrow> PlainTermArray" where
  "append_redb_term t = append_raw (rt_term_type t) (rt_value t) (rt_data_type t) (rt_language t)"

text \<open>An id that differs from the one before: the cache, then the table.\<close>

definition lookup_id ::
    "('c, 'd) CacheLib \<Rightarrow> int \<Rightarrow> ('c, 'd, 'w) RedbDictionary \<Rightarrow> (RedbTerm \<times> LocalDictionaryTerm) option \<times> ('c, 'd, 'w) RedbDictionary" where
  "lookup_id L i d =
     (let (hit, cache) = opt_get (get_by_id L i) (dict_cache d); d = d\<lparr>dict_cache := cache\<rparr> in
      case hit of
        Some cached_term \<Rightarrow> (Some (redb_from_local cached_term, cached_term), d)
      | None \<Rightarrow>
          (case map_of (id_to_term (db d)) i of
             Some redb_term \<Rightarrow>
               (let arc = as_local_dictionary_term redb_term
                in (Some (redb_term, arc), d\<lparr>dict_cache := map_option (cache_insert L arc i) cache\<rparr>))
           | None \<Rightarrow> (None, d)))"

text \<open>\<open>lst\<close> is the last id with its term.\<close>

fun resolve_rows ::
    "('c, 'd) CacheLib \<Rightarrow> (int \<times> LocalDictionaryTerm) option \<Rightarrow> int option list \<Rightarrow> PlainTermArray \<Rightarrow> ('c, 'd, 'w) RedbDictionary \<Rightarrow>
      (LocalObjectIdError, PlainTermArray) result \<times> ('c, 'd, 'w) RedbDictionary" where
  "resolve_rows L lst [] builder d = (Inr builder, d)"
| "resolve_rows L lst (None # ids) builder d = resolve_rows L lst ids (append_null builder) d"
| "resolve_rows L lst (Some i # ids) builder d =
     (if Some i = map_option fst lst then
        resolve_rows L lst ids (append_redb_term (redb_from_local (snd (the lst))) builder) d
      else
        (case lookup_id L i d of
           (Some (redb_term, term), d') \<Rightarrow> resolve_rows L (Some (i, term)) ids (append_redb_term redb_term builder) d'
         | (None, d') \<Rightarrow> (Inl (NotFound i), d')))"

text \<open>\<open>None\<close> is a panic of the array builder.\<close>

definition resolve_plain_terms ::
    "('c, 'd) CacheLib \<Rightarrow> int option list \<Rightarrow> ('c, 'd, 'w) RedbDictionary \<Rightarrow>
      (LocalObjectIdError, PlainTermArray) result option \<times> ('c, 'd, 'w) RedbDictionary" where
  "resolve_plain_terms L ids d =
     (case resolve_rows L None ids builder_new d of
        (Inl e, d') \<Rightarrow> (Some (Inl e), d')
      | (Inr builder, d') \<Rightarrow> (map_option Inr (finish builder), d'))"

definition dict_len :: "('c, 'd, 'w) RedbDictionary \<Rightarrow> nat" where
  "dict_len d = length (id_to_term (db d))"

definition dict_is_empty :: "('c, 'd, 'w) RedbDictionary \<Rightarrow> bool" where
  "dict_is_empty d \<longleftrightarrow> id_to_term (db d) = []"

definition read_claimed_object_ids :: "('c, 'd, 'w) RedbDictionary \<Rightarrow> (LocalObjectIdError, id_range option) result" where
  "read_claimed_object_ids d =
     (case (map_of (metadata (db d)) NEXT_FREE_ID_KEY, map_of (metadata (db d)) LAST_FREE_ID_KEY) of
        (Some next_val, Some last_val) \<Rightarrow>
          and_then (ok_or (i_from_str 64 next_val) (Corruption ''Invalid next free id found'')) (\<lambda>next_free_id.
          and_then (ok_or (i_from_str 64 last_val) (Corruption ''Invalid last free id found'')) (\<lambda>last_free_value.
          Inr (Some (next_free_id, last_free_value))))
      | (None, None) \<Rightarrow> Inr None
      | _ \<Rightarrow> Inl (Corruption ''Found only one of next and last free id.''))"

text \<open>A scalar is a struct array with one row.\<close>

definition scalar_as_parts :: "PlainTermArray \<Rightarrow> RedbTerm option" where
  "scalar_as_parts s = (if null_buffer s ! 0 then Some (redb_row s 0) else None)"

definition get_id_by_term ::
    "('c, 'd) CacheLib \<Rightarrow> PlainTermArray \<Rightarrow> ('c, 'd, 'w) RedbDictionary \<Rightarrow> int option \<times> ('c, 'd, 'w) RedbDictionary" where
  "get_id_by_term L s d =
     (case scalar_as_parts s of
        None \<Rightarrow> (None, d)
      | Some redb_term \<Rightarrow>
          (let (hit, cache) = opt_get (get_by_term L redb_term) (dict_cache d); d = d\<lparr>dict_cache := cache\<rparr> in
           case hit of
             Some i \<Rightarrow> (Some i, d)
           | None \<Rightarrow>
               (let owned_term = as_local_dictionary_term redb_term in
                case map_of (term_to_id (db d)) (redb_from_local owned_term) of
                  Some i \<Rightarrow> (Some i, d\<lparr>dict_cache := map_option (cache_insert L owned_term i) cache\<rparr>)
                | None \<Rightarrow> (None, d))))"

definition get_synced_version :: "('c, 'd, 'w) RedbDictionary \<Rightarrow> (LocalObjectIdError, nat option) result" where
  "get_synced_version d =
     (case map_of (metadata (db d)) SYNCED_VERSION_KEY of
        Some v \<Rightarrow> map_ok Some (ok_or (u_from_str 64 v) (Corruption ''invalid digit found in string''))
      | None \<Rightarrow> Inr None)"

end
