(* ===== verification/Object_Id_Invariant.thy ===== *)
theory Object_Id_Invariant
  imports Object_Id_Dictionary
begin

text \<open>
  The invariant of the local object id dictionary and its proofs: tables, cache, open transaction
  and claim are described by the partial function \<open>known\<close> from terms to ids, which every operation only extends.
\<close>

section \<open>Hypotheses on the cache library and the claimer\<close>

text \<open>\<open>hi\<close> and \<open>ht\<close> give the entries a cache holds. A lookup finds only held entries and adds none; an
  insertion adds the one entry, replaces an entry of the same key and may drop any other.\<close>

definition cache_ok ::
    "('c, 'd) CacheLib \<Rightarrow> ('c \<Rightarrow> (int \<times> LocalDictionaryTerm) set) \<Rightarrow> ('d \<Rightarrow> (LocalDictionaryTerm \<times> int) set) \<Rightarrow> bool" where
  "cache_ok L hi ht \<longleftrightarrow>
     (\<forall>n. hi (id_cache_new L n) = {} \<and> ht (term_cache_new L n) = {}) \<and>
     (\<forall>c i. hi (snd (id_cache_get L c i)) \<subseteq> hi c \<and> (\<forall>t. fst (id_cache_get L c i) = Some t \<longrightarrow> (i, t) \<in> hi c)) \<and>
     (\<forall>d r. ht (snd (term_cache_get L d r)) \<subseteq> ht d \<and>
        (\<forall>i. fst (term_cache_get L d r) = Some i \<longrightarrow> (\<exists>t. equivalent r t \<and> (t, i) \<in> ht d))) \<and>
     (\<forall>c i t. hi (id_cache_insert L c i t) \<subseteq> insert (i, t) {e \<in> hi c. fst e \<noteq> i}) \<and>
     (\<forall>d i t. ht (term_cache_insert L d t i) \<subseteq> insert (t, i) {e \<in> ht d. fst e \<noteq> t})"

text \<open>\<open>taken w\<close> are the ids that are claimed in the world \<open>w\<close>. A claimer returns only ranges that are not
  taken yet, and takes them.\<close>

definition fresh_claimer :: "'w claimer \<Rightarrow> ('w \<Rightarrow> bool) \<Rightarrow> ('w \<Rightarrow> int set) \<Rightarrow> bool" where
  "fresh_claimer f P taken \<longleftrightarrow>
     (\<forall>w r w'. P w \<and> f w = (r, w') \<longrightarrow> P w' \<and> taken w \<subseteq> taken w' \<and>
        (\<forall>a b. r = Inr (a, b) \<longrightarrow> in_int 64 a \<and> in_int 64 b \<and> {a..b} \<inter> taken w = {} \<and> {a..b} \<subseteq> taken w'))"

definition claimer_ok :: "'w claimer option \<Rightarrow> ('w \<Rightarrow> bool) \<Rightarrow> ('w \<Rightarrow> int set) \<Rightarrow> bool" where
  "claimer_ok cl P taken \<longleftrightarrow> (\<forall>f. cl = Some f \<longrightarrow> fresh_claimer f P taken)"

section \<open>Terms in both representations\<close>

lemma redb_local [simp]: "redb_from_local (as_local_dictionary_term t) = t" "as_local_dictionary_term (redb_from_local l) = l"
  by (simp_all add: redb_from_local_def as_local_dictionary_term_def)

lemma equivalent_iff: "equivalent r t \<longleftrightarrow> redb_from_local t = r"
  by (cases r; cases t) (auto simp: equivalent_def redb_from_local_def)

lemma redb_from_local_inject [simp]: "redb_from_local a = redb_from_local b \<longleftrightarrow> a = b"
  by (metis redb_local(2))

lemma as_local_inject [simp]: "as_local_dictionary_term a = as_local_dictionary_term b \<longleftrightarrow> a = b"
  by (metis redb_local(1))

section \<open>The cache agrees with the tables\<close>

definition cache_sub ::
    "('c \<Rightarrow> (int \<times> LocalDictionaryTerm) set) \<Rightarrow> ('d \<Rightarrow> (LocalDictionaryTerm \<times> int) set) \<Rightarrow> (RedbTerm \<rightharpoonup> int) \<Rightarrow>
      ('c, 'd) RedbObjectIdCache option \<Rightarrow> bool" where
  "cache_sub hi ht m cache \<longleftrightarrow> (\<forall>c. cache = Some c \<longrightarrow>
     (\<forall>i t. (i, t) \<in> hi (id_to_term_cache c) \<longrightarrow> m (redb_from_local t) = Some i) \<and>
     (\<forall>i t. (t, i) \<in> ht (term_to_id_cache c) \<longrightarrow> m (redb_from_local t) = Some i))"

lemma cache_sub_insert:
  assumes "cache_ok L hi ht" "cache_sub hi ht m cache" "m (redb_from_local t) = Some i"
  shows "cache_sub hi ht m (map_option (cache_insert L t i) cache)"
proof -
  have "(j, u) = (i, t) \<or> (j, u) \<in> hi c" if "(j, u) \<in> hi (id_cache_insert L c i t)" for c j u
    using assms(1) that unfolding cache_ok_def by blast
  moreover have "(u, j) = (t, i) \<or> (u, j) \<in> ht c" if "(u, j) \<in> ht (term_cache_insert L c t i)" for c j u
    using assms(1) that unfolding cache_ok_def by blast
  ultimately show ?thesis using assms(2,3) unfolding cache_sub_def by (fastforce simp: cache_insert_def)
qed

lemma cache_sub_fold_insert:
  assumes "cache_ok L hi ht"
  shows "cache_sub hi ht m cache \<Longrightarrow> (\<And>p. p \<in> set ps \<Longrightarrow> m (redb_from_local (fst p)) = Some (snd p)) \<Longrightarrow>
    cache_sub hi ht m (map_option (fold (\<lambda>p. cache_insert L (fst p) (snd p)) ps) cache)"
proof (induction ps arbitrary: cache)
  case (Cons p ps)
  have "cache_sub hi ht m (map_option (cache_insert L (fst p) (snd p)) cache)"
    using cache_sub_insert [OF assms Cons.prems(1)] Cons.prems(2) by simp
  from Cons.IH [OF this] Cons.prems(2) show ?case by (simp add: option.map_comp o_def)
qed (simp add: option.map_id)

lemma cache_sub_mono: "cache_sub hi ht m cache \<Longrightarrow> m \<subseteq>\<^sub>m m' \<Longrightarrow> cache_sub hi ht m' cache"
  unfolding cache_sub_def map_le_def by (metis domIff option.distinct(1))

lemma cache_sub_get_by_term:
  assumes "cache_ok L hi ht" "cache_sub hi ht m cache" "opt_get (get_by_term L r) cache = (hit, cache')"
  shows "cache_sub hi ht m cache'" "hit = Some i \<Longrightarrow> m r = Some i"
proof -
  have 1: "ht (snd (term_cache_get L d r)) \<subseteq> ht d" for d using assms(1) by (auto simp: cache_ok_def)
  have 2: "\<exists>t. redb_from_local t = r \<and> (t, i) \<in> ht d" if "fst (term_cache_get L d r) = Some i" for d
    using assms(1) that unfolding cache_ok_def equivalent_iff by blast
  show "cache_sub hi ht m cache'"
    using assms(2,3) 1 by (fastforce simp: opt_get_def get_by_term_def cache_sub_def case_prod_beta Let_def split: option.splits)
  show "m r = Some i" if "hit = Some i"
    using assms(2,3) 2 that by (fastforce simp: opt_get_def get_by_term_def cache_sub_def case_prod_beta Let_def split: option.splits)
qed

lemma cache_sub_get_by_id:
  assumes "cache_ok L hi ht" "cache_sub hi ht m cache" "opt_get (get_by_id L i) cache = (hit, cache')"
  shows "cache_sub hi ht m cache'" "hit = Some t \<Longrightarrow> m (redb_from_local t) = Some i"
proof -
  have 1: "hi (snd (id_cache_get L d i)) \<subseteq> hi d" for d using assms(1) by (auto simp: cache_ok_def)
  have 2: "(i, t) \<in> hi d" if "fst (id_cache_get L d i) = Some t" for d
    using assms(1) that unfolding cache_ok_def by blast
  show "cache_sub hi ht m cache'"
    using assms(2,3) 1 by (fastforce simp: opt_get_def get_by_id_def cache_sub_def case_prod_beta Let_def split: option.splits)
  show "m (redb_from_local t) = Some i" if "hit = Some t"
    using assms(2,3) 2 that by (fastforce simp: opt_get_def get_by_id_def cache_sub_def case_prod_beta Let_def split: option.splits)
qed

section \<open>Claims\<close>

definition claim_free :: "id_range option \<Rightarrow> int set \<Rightarrow> int set \<Rightarrow> bool" where
  "claim_free c used taken \<longleftrightarrow>
     (\<forall>n l. c = Some (n, l) \<longrightarrow> n \<le> l \<and> in_int 64 n \<and> in_int 64 l \<and> {n..l} \<inter> used = {} \<and> {n..l} \<subseteq> taken)"

lemma claim_free_None [simp]: "claim_free None used taken"
  by (simp add: claim_free_def)

lemma claim_free_mono: "claim_free c used taken \<Longrightarrow> used' \<subseteq> used \<Longrightarrow> taken \<subseteq> taken' \<Longrightarrow> claim_free c used' taken'"
  unfolding claim_free_def by blast

lemma succ_in_int: "in_int w n \<Longrightarrow> in_int w l \<Longrightarrow> n < l \<Longrightarrow> in_int w (n + 1)"
  by (auto simp: in_int_def)

lemma claim_free_next:
  assumes "claim_free (Some (n, l)) used taken" "n < l"
  shows "claim_free (Some (as_int 64 (n + 1), l)) (insert n used) taken" "n \<notin> used" "n \<in> taken"
proof -
  have *: "in_int 64 (n + 1)" using assms succ_in_int [of 64 n l] by (simp add: claim_free_def)
  have "n \<in> {n..l}" using assms(2) by simp
  then show "n \<notin> used" "n \<in> taken" using assms(1) unfolding claim_free_def by blast+
  have "{n + 1..l} \<subseteq> {n..l}" "n \<notin> {n + 1..l}" by auto
  then have "{n + 1..l} \<inter> insert n used = {}" "{n + 1..l} \<subseteq> taken" using assms(1) unfolding claim_free_def by blast+
  then show "claim_free (Some (as_int 64 (n + 1), l)) (insert n used) taken"
    using assms unfolding as_int_id [OF _ *, simplified] by (simp add: claim_free_def *)
qed

definition next_id_ok :: "id_range option \<Rightarrow> NextIdResult \<Rightarrow> int set \<Rightarrow> int set \<Rightarrow> bool" where
  "next_id_ok c r used taken \<longleftrightarrow> next_id r \<notin> used \<and> next_id r \<in> taken \<and> claim_free c (insert (next_id r) used) taken \<and>
     (newly_claimed r \<noteq> None \<longrightarrow> claim_free (newly_claimed r) used taken)"

lemma acquire_from_claimer_ok:
  assumes "claimer_ok (claimer c) P taken" "P w" "used \<subseteq> taken w" "claim_state c = None"
    and eq: "acquire_from_claimer c w = (res, c', w')"
  shows "P w' \<and> taken w \<subseteq> taken w' \<and> claimer c' = claimer c \<and>
    (case res of Inl e \<Rightarrow> claim_state c' = None | Inr r \<Rightarrow> next_id_ok (claim_state c') r used (taken w'))"
proof (cases "claimer c")
  case None
  then show ?thesis using eq assms(2,4) by (auto simp: acquire_from_claimer_def)
next
  case (Some f)
  obtain r v where f: "f w = (r, v)" by fastforce
  have fresh: "P v" "taken w \<subseteq> taken v"
    "\<And>a b. r = Inr (a, b) \<Longrightarrow> in_int 64 a \<and> in_int 64 b \<and> {a..b} \<inter> taken w = {} \<and> {a..b} \<subseteq> taken v"
    using assms(1,2) Some f unfolding claimer_ok_def fresh_claimer_def by blast+
  show ?thesis
  proof (cases r)
    case (Inl e)
    then show ?thesis using eq Some f fresh(1,2) assms(4) by (auto simp: acquire_from_claimer_def)
  next
    case (Inr ab)
    obtain a b where ab: "ab = (a, b)" by (cases ab)
    have free: "claim_free (Some (a, b)) used (taken v)" if "a \<le> b"
      using fresh(3) [of a b] Inr ab that assms(3) by (auto simp: claim_free_def)
    consider "a < b" | "a = b" | "b < a" by linarith
    then show ?thesis
    proof cases
      case 1
      then show ?thesis using eq Some f Inr ab fresh(1,2) free claim_free_next [OF free 1]
        by (auto simp: acquire_from_claimer_def next_id_ok_def)
    next
      case 2
      then show ?thesis using eq Some f Inr ab fresh(1,2) free
        by (auto simp: acquire_from_claimer_def next_id_ok_def claim_free_def)
    next
      case 3
      then show ?thesis using eq Some f Inr ab fresh(1,2) assms(4) by (auto simp: acquire_from_claimer_def)
    qed
  qed
qed

lemma acquire_next_id_ok:
  assumes "claimer_ok (claimer c) P taken" "P w" "used \<subseteq> taken w" "claim_free (claim_state c) used (taken w)"
    and eq: "acquire_next_id c w = (res, c', w')"
  shows "P w' \<and> taken w \<subseteq> taken w' \<and> claimer c' = claimer c \<and>
    (case res of Inl e \<Rightarrow> claim_state c' = None | Inr r \<Rightarrow> next_id_ok (claim_state c') r used (taken w'))"
proof (cases "claim_state c")
  case None
  then show ?thesis using acquire_from_claimer_ok [OF assms(1-3) None] eq by (simp add: acquire_next_id_def)
next
  case (Some nl)
  obtain n l where nl: "nl = (n, l)" by (cases nl)
  have free: "claim_free (Some (n, l)) used (taken w)" using assms(4) Some nl by simp
  show ?thesis
  proof (cases "n < l")
    case True
    then show ?thesis using eq Some nl assms(2) claim_free_next [OF free True]
      by (auto simp: acquire_next_id_def next_id_ok_def)
  next
    case False
    then have "n = l" using free by (simp add: claim_free_def)
    then have "acquire_from_claimer (c\<lparr>claim_state := None\<rparr>) w = (res, c', w')"
      using eq Some nl by (simp add: acquire_next_id_def)
    with acquire_from_claimer_ok [where c = "c\<lparr>claim_state := None\<rparr>" and P = P and taken = taken and w = w and used = used]
    show ?thesis using assms(1-3) by simp
  qed
qed

section \<open>Tables and transactions\<close>

abbreviation table_map :: "RedbTables \<Rightarrow> RedbTerm \<rightharpoonup> int" where
  "table_map tables \<equiv> map_of (term_to_id tables)"

text \<open>Two maps that are inverse to each other.\<close>

definition inverse_maps :: "('a \<rightharpoonup> 'b) \<Rightarrow> ('b \<rightharpoonup> 'a) \<Rightarrow> bool" where
  "inverse_maps f g \<longleftrightarrow> (\<forall>a b. f a = Some b \<longleftrightarrow> g b = Some a)"

definition tables_inv :: "RedbTables \<Rightarrow> bool" where
  "tables_inv tb \<longleftrightarrow> distinct (map fst (id_to_term tb)) \<and> distinct (map fst (term_to_id tb)) \<and>
     inverse_maps (table_map tb) (map_of (id_to_term tb))"

abbreviation table_ids :: "RedbTables \<Rightarrow> int set" where
  "table_ids tb \<equiv> ran (table_map tb)"

text \<open>The dictionary between transactions: the stored claim can be loaded and is free.\<close>

definition dict_inv ::
    "('c \<Rightarrow> (int \<times> LocalDictionaryTerm) set) \<Rightarrow> ('d \<Rightarrow> (LocalDictionaryTerm \<times> int) set) \<Rightarrow> int set \<Rightarrow>
      ('c, 'd, 'w) RedbDictionary \<Rightarrow> bool" where
  "dict_inv hi ht taken d \<longleftrightarrow> tables_inv (db d) \<and> cache_sub hi ht (table_map (db d)) (dict_cache d) \<and>
     table_ids (db d) \<subseteq> taken \<and>
     (\<exists>c. try_load_initial_claim_redb (db d) = Inr c \<and> claim_free c (table_ids (db d)) taken)"

text \<open>The ids that a transaction gives to terms.\<close>

definition known :: "'w DictTxn \<Rightarrow> RedbTerm \<rightharpoonup> int" where
  "known txn t = (case table_map (write_txn txn) t of
     Some i \<Rightarrow> Some i | None \<Rightarrow> map_of (pending_terms txn) (as_local_dictionary_term t))"

definition txn_inv :: "int set \<Rightarrow> ('c, 'd, 'w) RedbDictionary \<Rightarrow> 'w DictTxn \<Rightarrow> bool" where
  "txn_inv taken d txn \<longleftrightarrow> write_txn txn = db d \<and> claimer (claimed_ids txn) = dict_claimer d \<and>
     distinct (map fst (pending_terms txn)) \<and> distinct (map fst (pending_ids txn)) \<and>
     inverse_maps (map_of (pending_terms txn)) (map_of (pending_ids txn)) \<and>
     (\<forall>t i. map_of (pending_terms txn) t = Some i \<longrightarrow>
        table_map (db d) (redb_from_local t) = None \<and> i \<notin> table_ids (db d) \<and> i \<in> taken) \<and>
     claim_free (claim_state (claimed_ids txn)) (ran (known txn)) taken \<and>
     claim_free (reset_state_on_conflict txn) (table_ids (db d)) taken"

lemma map_of_update [simp]: "map_of (AList.update k v xs) = (map_of xs)(k \<mapsto> v)"
  by (rule AList.update_conv')

lemma inverse_maps_update:
  "inverse_maps f g \<Longrightarrow> f a = None \<Longrightarrow> g b = None \<Longrightarrow> inverse_maps (f(a \<mapsto> b)) (g(b \<mapsto> a))"
  unfolding inverse_maps_def by (auto split: if_splits) (metis option.distinct(1))+

lemma inverse_maps_inj: "inverse_maps f g \<Longrightarrow> f a = Some b \<Longrightarrow> f a' = Some b \<Longrightarrow> a = a'"
  unfolding inverse_maps_def by (metis option.inject)

lemma inverse_maps_ran: "inverse_maps f g \<Longrightarrow> b \<in> ran f \<longleftrightarrow> g b \<noteq> None"
  unfolding inverse_maps_def ran_def by auto

lemma known_claimed_ids [simp]: "known (txn\<lparr>claimed_ids := c\<rparr>) = known txn" "known (txn\<lparr>reset_state_on_conflict := r\<rparr>) = known txn"
  by (simp_all add: known_def fun_eq_iff split: option.splits)

lemma known_table: "table_map (write_txn txn) t = Some i \<Longrightarrow> known txn t = Some i"
  by (simp add: known_def)

lemma known_add_pending:
  "table_map (write_txn txn) t = None \<Longrightarrow>
    known (txn\<lparr>claimed_ids := c, pending_terms := AList.update (as_local_dictionary_term t) i (pending_terms txn),
      pending_ids := q, reset_state_on_conflict := r\<rparr>) = (known txn)(t \<mapsto> i)"
  by (auto simp: known_def fun_eq_iff split: option.splits)

lemma known_inj:
  assumes "tables_inv (db d)" "txn_inv taken d txn" "known txn t = Some i" "known txn u = Some i"
  shows "t = u"
proof -
  have inv: "inverse_maps (table_map (db d)) (map_of (id_to_term (db d)))"
      "inverse_maps (map_of (pending_terms txn)) (map_of (pending_ids txn))" "write_txn txn = db d"
    and fresh: "\<And>t i. map_of (pending_terms txn) t = Some i \<Longrightarrow> i \<notin> table_ids (db d)"
    using assms(1,2) by (auto simp: tables_inv_def txn_inv_def)
  have 1: "t = u" if "map_of (pending_terms txn) (as_local_dictionary_term t) = Some i" "map_of (pending_terms txn) (as_local_dictionary_term u) = Some i"
    using inverse_maps_inj [OF inv(2) that] by simp
  have 2: "t = u" if "table_map (db d) t = Some i" "table_map (db d) u = Some i"
    using that by (rule inverse_maps_inj [OF inv(1)])
  have 3: "table_map (db d) a \<noteq> Some i" if "map_of (pending_terms txn) b = Some i" for a b
    using fresh [OF that] by (auto intro: ranI)
  have "(case table_map (db d) x of Some i \<Rightarrow> Some i | None \<Rightarrow> map_of (pending_terms txn) (as_local_dictionary_term x)) = Some i \<Longrightarrow>
    table_map (db d) x = Some i \<or> map_of (pending_terms txn) (as_local_dictionary_term x) = Some i" for x
    by (cases "table_map (db d) x") simp_all
  then show ?thesis using assms(3,4) 1 2 3 unfolding known_def inv(3) by meson
qed

lemma ran_known:
  assumes "txn_inv taken d txn"
  shows "ran (known txn) = table_ids (db d) \<union> ran (map_of (pending_terms txn))"
proof -
  have w: "write_txn txn = db d" and n: "\<And>t i. map_of (pending_terms txn) t = Some i \<Longrightarrow> table_map (db d) (redb_from_local t) = None"
    using assms by (auto simp: txn_inv_def)
  show ?thesis
  proof (intro equalityI subsetI)
    fix i assume "i \<in> ran (known txn)"
    then show "i \<in> table_ids (db d) \<union> ran (map_of (pending_terms txn))"
      by (auto simp: ran_def known_def w split: option.splits)
  next
    fix i assume "i \<in> table_ids (db d) \<union> ran (map_of (pending_terms txn))"
    then consider t where "table_map (db d) t = Some i" | t where "map_of (pending_terms txn) t = Some i"
      by (auto simp: ran_def)
    then show "i \<in> ran (known txn)"
    proof cases
      case (1 t)
      then show ?thesis using known_table [of txn t i] w by (auto intro: ranI)
    next
      case (2 t)
      then have "known txn (redb_from_local t) = Some i" using n [OF 2] by (simp add: known_def w)
      then show ?thesis by (rule ranI)
    qed
  qed
qed

section \<open>Encoding\<close>

lemma map_le_Some: "m \<subseteq>\<^sub>m m' \<Longrightarrow> m a = Some b \<Longrightarrow> m' a = Some b"
  by (metis domI map_le_def)

lemma txn_inv_cache: "txn_inv taken (d\<lparr>dict_cache := c\<rparr>) txn = txn_inv taken d txn"
  by (simp add: txn_inv_def)

lemma dict_inv_cache:
  "dict_inv hi ht taken d \<Longrightarrow> cache_sub hi ht (table_map (db d)) c \<Longrightarrow> dict_inv hi ht taken (d\<lparr>dict_cache := c\<rparr>)"
  by (simp add: dict_inv_def)

lemma dict_inv_mono: "dict_inv hi ht taken d \<Longrightarrow> taken \<subseteq> taken' \<Longrightarrow> dict_inv hi ht taken' d"
  unfolding dict_inv_def using claim_free_mono by blast

lemma txn_inv_mono: "txn_inv taken d txn \<Longrightarrow> taken \<subseteq> taken' \<Longrightarrow> txn_inv taken' d txn"
  unfolding txn_inv_def using claim_free_mono [OF _ order.refl] by blast

text \<open>A new pair of a term and an id that neither the tables nor the transaction know.\<close>

lemma txn_inv_new_pair:
  assumes inv: "txn_inv taken d txn" and tb: "tables_inv (db d)" and t: "known txn t = None" and i: "i \<notin> ran (known txn)" "i \<in> taken"
    and c: "claim_free (claim_state c) (insert i (ran (known txn))) taken" "claimer c = claimer (claimed_ids txn)"
    and r: "claim_free r (table_ids (db d)) taken"
  shows "txn_inv taken d (txn\<lparr>claimed_ids := c,
      pending_terms := AList.update (as_local_dictionary_term t) i (pending_terms txn),
      pending_ids := AList.update i (as_local_dictionary_term t) (pending_ids txn), reset_state_on_conflict := r\<rparr>)"
proof -
  have w: "write_txn txn = db d" using inv by (simp add: txn_inv_def)
  have t': "table_map (db d) t = None" "map_of (pending_terms txn) (as_local_dictionary_term t) = None"
    using t by (auto simp: known_def w split: option.splits)
  have i': "i \<notin> table_ids (db d)" "map_of (pending_ids txn) i = None"
    using i(1) inverse_maps_ran [of "map_of (pending_terms txn)" "map_of (pending_ids txn)" i] inv
    unfolding ran_known [OF inv] by (auto simp: txn_inv_def)
  have "ran ((known txn)(t \<mapsto> i)) \<subseteq> insert i (ran (known txn))" by (auto simp: ran_def split: if_splits)
  then have "claim_free (claim_state c) (ran ((known txn)(t \<mapsto> i))) taken" using c(1) claim_free_mono by blast
  moreover have "inverse_maps ((map_of (pending_terms txn))(as_local_dictionary_term t \<mapsto> i)) ((map_of (pending_ids txn))(i \<mapsto> as_local_dictionary_term t))"
    using inv t'(2) i'(2) by (intro inverse_maps_update) (simp_all add: txn_inv_def)
  ultimately show ?thesis
    using inv t' i' i(2) c(2) r known_add_pending [where txn = txn and t = t and c = c and i = i] w
    unfolding txn_inv_def by (auto simp: AList.distinct_update)
qed

lemma encode_term_ok:
  assumes L: "cache_ok L hi ht" and cl: "claimer_ok (dict_claimer d) P taken" "P w"
    and d: "dict_inv hi ht (taken w) d" and txn: "txn_inv (taken w) d txn"
    and eq: "encode_term L t txn d w = (res, txn', d', w')"
  shows "P w' \<and> taken w \<subseteq> taken w' \<and> dict_inv hi ht (taken w') d' \<and> txn_inv (taken w') d' txn' \<and> db d' = db d \<and>
    dict_claimer d' = dict_claimer d \<and> known txn \<subseteq>\<^sub>m known txn' \<and> (\<forall>i. res = Inr i \<longrightarrow> known txn' t = Some i)"
proof -
  obtain hit cache where g: "opt_get (get_by_term L t) (dict_cache d) = (hit, cache)" by fastforce
  have sub: "cache_sub hi ht (table_map (db d)) (dict_cache d)" using d by (simp add: dict_inv_def)
  note got = cache_sub_get_by_term [OF L sub g]
  have wt: "write_txn txn = db d" using txn by (simp add: txn_inv_def)
  have d': "dict_inv hi ht (taken w) (d\<lparr>dict_cache := cache\<rparr>)" using d got(1) by (rule dict_inv_cache)
  note base = cl(2) d' txn txn_inv_cache
  show ?thesis
  proof (cases hit)
    case (Some i)
    then show ?thesis using eq g base got(2) [OF Some] wt by (auto simp: encode_term_def known_def)
  next
    case None
    show ?thesis
    proof (cases "table_map (db d) t")
      case (Some i)
      have "cache_sub hi ht (table_map (db d)) (map_option (cache_insert L (as_local_dictionary_term t) i) cache)"
        using cache_sub_insert [OF L got(1)] Some by simp
      from dict_inv_cache [OF d this] show ?thesis using eq g None Some base wt by (auto simp: encode_term_def known_def)
    next
      case new: None
      show ?thesis
      proof (cases "map_of (pending_terms txn) (as_local_dictionary_term t)")
        case (Some i)
        then show ?thesis using eq g None new base wt by (auto simp: encode_term_def known_def)
      next
        case unknown: None
        obtain r c v where a: "acquire_next_id (claimed_ids txn) w = (r, c, v)" by (metis prod_cases3)
        have "table_ids (db d) \<subseteq> taken w" using d by (simp add: dict_inv_def)
        moreover have "ran (map_of (pending_terms txn)) \<subseteq> taken w" using txn by (auto simp: txn_inv_def ran_def)
        ultimately have ids: "ran (known txn) \<subseteq> taken w" by (simp add: ran_known [OF txn])
        have acq: "P v \<and> taken w \<subseteq> taken v \<and> claimer c = claimer (claimed_ids txn) \<and>
          (case r of Inl e \<Rightarrow> claim_state c = None | Inr r \<Rightarrow> next_id_ok (claim_state c) r (ran (known txn)) (taken v))"
          using txn cl ids a by (intro acquire_next_id_ok [where w = w and P = P and taken = taken]) (simp_all add: txn_inv_def)
        have inv: "dict_inv hi ht (taken v) (d\<lparr>dict_cache := cache\<rparr>)" "txn_inv (taken v) d txn"
          using dict_inv_mono [OF d'] txn_inv_mono [OF txn] acq by blast+
        have nk: "known txn t = None" using new unknown by (simp add: known_def wt)
        show ?thesis
        proof (cases r)
          case (Inl e)
          have "txn_inv (taken v) d (txn\<lparr>claimed_ids := c\<rparr>)"
            using inv(2) acq Inl unfolding txn_inv_def by (simp add: known_def)
          then show ?thesis using eq g None new unknown a Inl acq inv(1) wt
            by (auto simp: encode_term_def Let_def txn_inv_cache known_def)
        next
          case (Inr n)
          define rs where "rs = (if newly_claimed n \<noteq> None then newly_claimed n else reset_state_on_conflict txn)"
          have ok: "next_id_ok (claim_state c) n (ran (known txn)) (taken v)" using acq Inr by simp
          have "table_ids (db d) \<subseteq> ran (known txn)" using ran_known [OF txn] by blast
          then have rs: "claim_free rs (table_ids (db d)) (taken v)"
            using ok inv(2) claim_free_mono [of "newly_claimed n"] unfolding rs_def next_id_ok_def txn_inv_def by auto
          have "txn_inv (taken v) d (txn\<lparr>claimed_ids := c,
              pending_terms := AList.update (as_local_dictionary_term t) (next_id n) (pending_terms txn),
              pending_ids := AList.update (next_id n) (as_local_dictionary_term t) (pending_ids txn),
              reset_state_on_conflict := rs\<rparr>)"
            using ok acq d rs by (intro txn_inv_new_pair [OF inv(2) _ nk]) (auto simp: next_id_ok_def dict_inv_def)
          moreover have "known txn \<subseteq>\<^sub>m (known txn)(t \<mapsto> next_id n)" using nk by (auto simp: map_le_def)
          moreover have "res = Inr (next_id n)" "d' = d\<lparr>dict_cache := cache\<rparr>" "w' = v" "txn' = txn\<lparr>claimed_ids := c,
              pending_terms := AList.update (as_local_dictionary_term t) (next_id n) (pending_terms txn),
              pending_ids := AList.update (next_id n) (as_local_dictionary_term t) (pending_ids txn),
              reset_state_on_conflict := rs\<rparr>"
            using eq g None new unknown a Inr wt by (simp_all add: encode_term_def Let_def rs_def)
          moreover have "table_map (write_txn txn) t = None" using new wt by simp
          ultimately show ?thesis using acq inv(1) by (simp add: txn_inv_cache known_add_pending del: known_claimed_ids)
        qed
      qed
    qed
  qed
qed

text \<open>What an encoding step keeps: the invariants, the tables, and all ids that are known already.\<close>

definition encodes ::
    "('c \<Rightarrow> (int \<times> LocalDictionaryTerm) set) \<Rightarrow> ('d \<Rightarrow> (LocalDictionaryTerm \<times> int) set) \<Rightarrow> ('w \<Rightarrow> bool) \<Rightarrow> ('w \<Rightarrow> int set) \<Rightarrow>
      'w DictTxn \<Rightarrow> ('c, 'd, 'w) RedbDictionary \<Rightarrow> 'w \<Rightarrow> 'w DictTxn \<Rightarrow> ('c, 'd, 'w) RedbDictionary \<Rightarrow> 'w \<Rightarrow> bool" where
  "encodes hi ht P taken txn d w txn' d' w' \<longleftrightarrow>
     P w' \<and> taken w \<subseteq> taken w' \<and> dict_inv hi ht (taken w') d' \<and> txn_inv (taken w') d' txn' \<and> db d' = db d \<and>
     dict_claimer d' = dict_claimer d \<and> known txn \<subseteq>\<^sub>m known txn'"

lemma encodes_trans:
  "encodes hi ht P taken txn d w txn' d' w' \<Longrightarrow> encodes hi ht P taken txn' d' w' txn'' d'' w'' \<Longrightarrow> encodes hi ht P taken txn d w txn'' d'' w''"
  unfolding encodes_def by (auto intro: map_le_trans)

lemma encode_rows_ok:
  "cache_ok L hi ht \<Longrightarrow> claimer_ok (dict_claimer d) P taken \<Longrightarrow> P w \<Longrightarrow> dict_inv hi ht (taken w) d \<Longrightarrow> txn_inv (taken w) d txn \<Longrightarrow>
    (\<And>u j. lst = Some (u, j) \<Longrightarrow> known txn u = Some j) \<Longrightarrow> encode_rows L lst rows txn d w acc = (res, txn', d', w') \<Longrightarrow>
    encodes hi ht P taken txn d w txn' d' w' \<and>
    (\<forall>ids. res = Inr ids \<longrightarrow> ids = acc @ map (map_option (\<lambda>t. the (known txn' t))) rows \<and> (\<forall>t. Some t \<in> set rows \<longrightarrow> known txn' t \<noteq> None))"
proof (induction rows arbitrary: lst txn d w acc)
  case Nil
  then show ?case by (auto simp: encodes_def)
next
  case (Cons row rows)
  show ?case
  proof (cases row)
    case None
    then have "encode_rows L lst rows txn d w (acc @ [None]) = (res, txn', d', w')" using Cons.prems(7) by simp
    from Cons.IH [OF Cons.prems(1-6) this] show ?thesis using None by simp
  next
    case (Some t)
    show ?thesis
    proof (cases "Some t = map_option fst lst")
      case True
      then obtain i where lst: "lst = Some (t, i)" by (cases lst) auto
      then have "encode_rows L lst rows txn d w (acc @ [Some i]) = (res, txn', d', w')" using Cons.prems(7) Some by simp
      note IH = Cons.IH [OF Cons.prems(1-6) this]
      have "known txn \<subseteq>\<^sub>m known txn'" using IH by (simp add: encodes_def)
      moreover have "known txn t = Some i" using Cons.prems(6) lst by blast
      ultimately have "known txn' t = Some i" by (rule map_le_Some)
      then show ?thesis using IH Some by simp
    next
      case False
      obtain r txn1 d1 w1 where e: "encode_term L t txn d w = (r, txn1, d1, w1)" by (metis prod_cases4)
      have ok: "encodes hi ht P taken txn d w txn1 d1 w1" "\<And>i. r = Inr i \<Longrightarrow> known txn1 t = Some i"
        using encode_term_ok [OF Cons.prems(1-5) e] by (simp_all add: encodes_def)
      show ?thesis
      proof (cases r)
        case (Inl x)
        then show ?thesis using Cons.prems(7) Some False e ok(1) by (auto split: if_splits)
      next
        case (Inr i)
        have eq: "encode_rows L (Some (t, i)) rows txn1 d1 w1 (acc @ [Some i]) = (res, txn', d', w')"
          using Cons.prems(7) Some False e Inr by (simp split: if_splits)
        have pre: "claimer_ok (dict_claimer d1) P taken" "P w1" "dict_inv hi ht (taken w1) d1" "txn_inv (taken w1) d1 txn1"
          using ok(1) Cons.prems(2) by (simp_all add: encodes_def)
        have "\<And>u j. Some (t, i) = Some (u, j) \<Longrightarrow> known txn1 u = Some j" using ok(2) [OF Inr] by simp
        note IH = Cons.IH [OF Cons.prems(1) pre this eq]
        then have "known txn1 \<subseteq>\<^sub>m known txn'" by (simp add: encodes_def)
        then have "known txn' t = Some i" using ok(2) [OF Inr] by (rule map_le_Some)
        then show ?thesis using IH encodes_trans [OF ok(1)] Some by simp
      qed
    qed
  qed
qed

section \<open>Commit and abort\<close>

lemma write_claim_simps [simp]:
  "term_to_id (write_claim c tb) = term_to_id tb" "id_to_term (write_claim c tb) = id_to_term tb"
  "term_to_id (write_version v tb) = term_to_id tb" "id_to_term (write_version v tb) = id_to_term tb"
  by (simp_all add: write_claim_def write_version_def)

lemma write_claim_load:
  assumes "claim_free c used taken"
  shows "try_load_initial_claim_redb (write_claim c tb) = Inr c"
proof (cases c)
  case None
  then show ?thesis
    by (simp add: try_load_initial_claim_redb_def parse_claim_value_def write_claim_def validate_initial_claim_def
        AList.delete_conv' metadata_keys)
next
  case (Some nl)
  obtain n l where nl: "nl = (n, l)" by (cases nl)
  then have "n \<le> l" "in_int 64 n" "in_int 64 l" using assms Some by (auto simp: claim_free_def)
  then show ?thesis
    by (simp add: Some nl try_load_initial_claim_redb_def parse_claim_value_def write_claim_def validate_initial_claim_def
        metadata_keys i_from_str_show_int)
qed

lemma write_term_ok:
  assumes "tables_inv tb" "table_map tb (redb_from_local t) = None" "i \<notin> table_ids tb"
  shows "tables_inv (write_term (t, i) tb)" "table_map (write_term (t, i) tb) = (table_map tb)(redb_from_local t \<mapsto> i)"
proof -
  have "map_of (id_to_term tb) i = None"
    using assms(1,3) inverse_maps_ran unfolding tables_inv_def by metis
  then have "inverse_maps ((table_map tb)(redb_from_local t \<mapsto> i)) ((map_of (id_to_term tb))(i \<mapsto> redb_from_local t))"
    using assms by (intro inverse_maps_update) (simp_all add: tables_inv_def)
  then show "tables_inv (write_term (t, i) tb)"
    using assms(1) by (simp add: tables_inv_def write_term_def Let_def AList.distinct_update)
  show "table_map (write_term (t, i) tb) = (table_map tb)(redb_from_local t \<mapsto> i)" by (simp add: write_term_def Let_def)
qed

lemma fold_write_term:
  "tables_inv tb \<Longrightarrow> distinct (map fst ps) \<Longrightarrow> distinct (map snd ps) \<Longrightarrow>
    (\<And>t i. (t, i) \<in> set ps \<Longrightarrow> table_map tb (redb_from_local t) = None \<and> i \<notin> table_ids tb) \<Longrightarrow>
    tables_inv (fold write_term ps tb) \<and>
    table_map (fold write_term ps tb) = (\<lambda>t. case map_of ps (as_local_dictionary_term t) of Some i \<Rightarrow> Some i | None \<Rightarrow> table_map tb t)"
proof (induction ps arbitrary: tb)
  case (Cons p ps)
  obtain t i where p: "p = (t, i)" by (cases p)
  have new: "table_map tb (redb_from_local t) = None" "i \<notin> table_ids tb" using Cons.prems(4) p by auto
  note w = write_term_ok [OF Cons.prems(1) new]
  have "table_map (write_term (t, i) tb) (redb_from_local u) = None \<and> j \<notin> table_ids (write_term (t, i) tb)"
    if "(u, j) \<in> set ps" for u j
  proof -
    have "u \<noteq> t" "j \<noteq> i" using Cons.prems(2,3) p that by force+
    then show ?thesis using Cons.prems(4) [of u j] that by (auto simp: w ran_def)
  qed
  then have IH: "tables_inv (fold write_term ps (write_term (t, i) tb)) \<and> table_map (fold write_term ps (write_term (t, i) tb)) =
      (\<lambda>s. case map_of ps (as_local_dictionary_term s) of Some i \<Rightarrow> Some i | None \<Rightarrow> table_map (write_term (t, i) tb) s)"
    using Cons.prems(2,3) w(1) by (intro Cons.IH) auto
  have "t \<notin> fst ` set ps" using Cons.prems(2) p by auto
  then have "map_of ps t = None" by (simp add: map_of_eq_None_iff)
  then have "(case map_of ps (as_local_dictionary_term s) of Some i \<Rightarrow> Some i | None \<Rightarrow> table_map (write_term (t, i) tb) s) =
      (case map_of (p # ps) (as_local_dictionary_term s) of Some i \<Rightarrow> Some i | None \<Rightarrow> table_map tb s)" for s
    by (auto simp: w(2) p split: option.splits)
  then show ?case using IH p by (simp add: fun_eq_iff)
qed simp

lemma inverse_distinct_snd:
  assumes "distinct (map fst ps)" "inverse_maps (map_of ps) g"
  shows "distinct (map snd ps)"
proof -
  have "inj_on snd (set ps)"
  proof (rule inj_onI)
    fix p q assume pq: "p \<in> set ps" "q \<in> set ps" "snd p = snd q"
    then have "map_of ps (fst p) = Some (snd p)" "map_of ps (fst q) = Some (snd p)"
      using assms(1) by (metis map_of_is_SomeI prod.collapse)+
    then have "fst p = fst q" by (rule inverse_maps_inj [OF assms(2)])
    then show "p = q" using pq(3) by (simp add: prod_eq_iff)
  qed
  then show ?thesis using assms(1) by (auto simp: distinct_map)
qed

lemma commit_ok:
  assumes L: "cache_ok L hi ht" and d: "dict_inv hi ht taken d" and txn: "txn_inv taken d txn"
  shows "dict_inv hi ht taken (commit_txn L v txn d)" "table_map (db (commit_txn L v txn d)) = known txn"
    "dict_claimer (commit_txn L v txn d) = dict_claimer d"
proof -
  let ?tb = "fold write_term (pending_terms txn) (write_txn txn)"
  have w: "write_txn txn = db d" and dist: "distinct (map fst (pending_terms txn))"
    and inv: "inverse_maps (map_of (pending_terms txn)) (map_of (pending_ids txn))"
    and new: "\<And>t i. (t, i) \<in> set (pending_terms txn) \<Longrightarrow> table_map (db d) (redb_from_local t) = None \<and> i \<notin> table_ids (db d)"
    using txn by (auto simp: txn_inv_def)
  have fold: "tables_inv ?tb \<and> table_map ?tb =
      (\<lambda>t. case map_of (pending_terms txn) (as_local_dictionary_term t) of Some i \<Rightarrow> Some i | None \<Rightarrow> table_map (db d) t)"
    using fold_write_term [OF _ dist inverse_distinct_snd [OF dist inv], of "db d"] d new w by (auto simp: dict_inv_def)
  moreover have "known txn t = (case map_of (pending_terms txn) (as_local_dictionary_term t) of Some i \<Rightarrow> Some i | None \<Rightarrow> table_map (db d) t)" for t
  proof (cases "map_of (pending_terms txn) (as_local_dictionary_term t)")
    case (Some i)
    then show ?thesis using new [OF map_of_SomeD [OF Some]] by (simp add: known_def w)
  qed (simp add: known_def w split: option.splits)
  ultimately have m: "table_map ?tb = known txn" by (simp add: fun_eq_iff)
  then show db: "table_map (db (commit_txn L v txn d)) = known txn" by (simp add: commit_txn_def Let_def)
  show "dict_claimer (commit_txn L v txn d) = dict_claimer d" by (simp add: commit_txn_def Let_def)
  have le: "table_map (db d) \<subseteq>\<^sub>m known txn" by (auto simp: map_le_def known_def w)
  have "known txn (redb_from_local (fst p)) = Some (snd p)" if "p \<in> set (pending_terms txn)" for p
    using that new [of "fst p" "snd p"] dist by (simp add: known_def w)
  then have "cache_sub hi ht (known txn) (map_option (fold (\<lambda>p. cache_insert L (fst p) (snd p)) (pending_terms txn)) (dict_cache d))"
    using d cache_sub_mono [OF _ le] by (intro cache_sub_fold_insert [OF L]) (auto simp: dict_inv_def)
  moreover have "ran (known txn) \<subseteq> taken"
    using d txn unfolding ran_known [OF txn] by (auto simp: dict_inv_def txn_inv_def ran_def)
  moreover have free: "claim_free (claim_state (claimed_ids txn)) (ran (known txn)) taken" using txn by (simp add: txn_inv_def)
  moreover have "tables_inv ?tb" using fold by blast
  ultimately show "dict_inv hi ht taken (commit_txn L v txn d)"
    using write_claim_load [OF free] unfolding dict_inv_def
    by (simp add: commit_txn_def Let_def peek_current_claim_def tables_inv_def m)
qed

lemma abort_ok:
  assumes "dict_inv hi ht taken d" "txn_inv taken d txn"
  shows "dict_inv hi ht taken (abort_txn txn d)" "table_map (db (abort_txn txn d)) = table_map (db d)"
    "id_to_term (db (abort_txn txn d)) = id_to_term (db d)" "dict_claimer (abort_txn txn d) = dict_claimer d"
proof -
  have w: "write_txn txn = db d" and r: "claim_free (reset_state_on_conflict txn) (table_ids (db d)) taken"
    using assms(2) by (simp_all add: txn_inv_def)
  show "table_map (db (abort_txn txn d)) = table_map (db d)" "id_to_term (db (abort_txn txn d)) = id_to_term (db d)"
    "dict_claimer (abort_txn txn d) = dict_claimer d" by (simp_all add: abort_txn_def w)
  show "dict_inv hi ht taken (abort_txn txn d)"
    using assms(1) write_claim_load [OF r, of "db d"] r by (simp add: dict_inv_def abort_txn_def w tables_inv_def)
qed

lemma begin_ok:
  assumes "dict_inv hi ht taken d"
  obtains txn where "begin_txn d = Inr txn" "txn_inv taken d txn" "known txn = table_map (db d)"
proof -
  obtain c where c: "try_load_initial_claim_redb (db d) = Inr c" "claim_free c (table_ids (db d)) taken"
    using assms by (auto simp: dict_inv_def)
  let ?t = "\<lparr>write_txn = db d, claimed_ids = \<lparr>claim_state = c, claimer = dict_claimer d\<rparr>,
       reset_state_on_conflict = c, pending_terms = [], pending_ids = []\<rparr>"
  have k: "known ?t = table_map (db d)" by (auto simp: known_def fun_eq_iff split: option.splits)
  then have "txn_inv taken d ?t" using c(2) by (simp add: txn_inv_def inverse_maps_def)
  then show ?thesis using that [of ?t] c(1) k by (simp add: begin_txn_def)
qed

section \<open>Batches of the global table\<close>

text \<open>The rows of a batch are new pairs: distinct ids and terms, unknown so far, with claimed ids.\<close>

definition rows_new :: "int set \<Rightarrow> 'w DictTxn \<Rightarrow> (int \<times> LocalDictionaryTerm) list \<Rightarrow> bool" where
  "rows_new taken txn rows \<longleftrightarrow> distinct (map fst rows) \<and> distinct (map snd rows) \<and>
     (\<forall>(i, t) \<in> set rows. known txn (redb_from_local t) = None \<and> i \<notin> ran (known txn) \<and> i \<in> taken)"

definition unclaim :: "'w DictTxn \<Rightarrow> 'w DictTxn" where
  "unclaim txn = txn\<lparr>claimed_ids := set_claim_state None (claimed_ids txn)\<rparr>"

lemma unclaim_simps [simp]:
  "known (unclaim txn) = known txn" "reset_state_on_conflict (unclaim txn) = reset_state_on_conflict txn"
  "claim_state (claimed_ids (unclaim txn)) = None" "claimer (claimed_ids (unclaim txn)) = claimer (claimed_ids txn)"
  by (simp_all add: unclaim_def set_claim_state_def)

lemma claimed_ids_fold [simp]: "claimed_ids (fold add_pending rows txn) = claimed_ids txn"
  "reset_state_on_conflict (fold add_pending rows txn) = reset_state_on_conflict txn"
  by (induction rows arbitrary: txn) (simp_all add: add_pending_def)

lemma txn_inv_unclaim: "txn_inv taken d txn \<Longrightarrow> txn_inv taken d (unclaim txn)"
  by (simp add: txn_inv_def) (simp add: unclaim_def)

lemma txn_inv_reclaim:
  assumes "txn_inv taken d (unclaim txn)" "claim_free (claim_state c) (ran (known txn)) taken" "claim_free r (table_ids (db d)) taken"
    "claimer c = claimer (claimed_ids txn)"
  shows "txn_inv taken d (txn\<lparr>reset_state_on_conflict := r, claimed_ids := c\<rparr>)"
  using assms by (simp add: txn_inv_def) (simp add: unclaim_def set_claim_state_def)

lemma known_add_row:
  "table_map (write_txn txn) (redb_from_local t) = None \<Longrightarrow> known (add_pending (i, t) txn) = (known txn)(redb_from_local t \<mapsto> i)"
  by (auto simp: known_def add_pending_def fun_eq_iff split: option.splits)

lemma add_pending_ok:
  assumes "txn_inv taken d (unclaim txn)" "tables_inv (db d)" "known txn (redb_from_local t) = None" "i \<notin> ran (known txn)" "i \<in> taken"
  shows "txn_inv taken d (unclaim (add_pending (i, t) txn))" "known (add_pending (i, t) txn) = (known txn)(redb_from_local t \<mapsto> i)"
proof -
  let ?u = "unclaim txn"
  have "unclaim (add_pending (i, t) txn) = ?u\<lparr>claimed_ids := claimed_ids ?u,
      pending_terms := AList.update (as_local_dictionary_term (redb_from_local t)) i (pending_terms ?u),
      pending_ids := AList.update i (as_local_dictionary_term (redb_from_local t)) (pending_ids ?u),
      reset_state_on_conflict := reset_state_on_conflict ?u\<rparr>"
    by (simp add: unclaim_def add_pending_def)
  moreover have "claim_free (reset_state_on_conflict ?u) (table_ids (db d)) taken" using assms(1) by (simp add: txn_inv_def)
  ultimately show "txn_inv taken d (unclaim (add_pending (i, t) txn))"
    using txn_inv_new_pair [OF assms(1,2), of "redb_from_local t" i "claimed_ids ?u"] assms(3-5) by simp
  show "known (add_pending (i, t) txn) = (known txn)(redb_from_local t \<mapsto> i)"
    using assms(3) by (intro known_add_row) (auto simp: known_def split: option.splits)
qed

lemma fold_add_pending_ok:
  "txn_inv taken d (unclaim txn) \<Longrightarrow> tables_inv (db d) \<Longrightarrow> rows_new taken txn rows \<Longrightarrow>
    txn_inv taken d (unclaim (fold add_pending rows txn)) \<and> known txn \<subseteq>\<^sub>m known (fold add_pending rows txn) \<and>
    (\<forall>(i, t) \<in> set rows. known (fold add_pending rows txn) (redb_from_local t) = Some i) \<and>
    ran (known (fold add_pending rows txn)) \<subseteq> ran (known txn) \<union> set (map fst rows)"
proof (induction rows arbitrary: txn)
  case (Cons row rows)
  obtain i t where row: "row = (i, t)" by (cases row)
  have new: "known txn (redb_from_local t) = None" "i \<notin> ran (known txn)" "i \<in> taken"
    using Cons.prems(3) row by (auto simp: rows_new_def)
  note ok = add_pending_ok [OF Cons.prems(1,2) new]
  have "known (add_pending (i, t) txn) (redb_from_local u) = None \<and> j \<notin> ran (known (add_pending (i, t) txn)) \<and> j \<in> taken"
    if ju: "(j, u) \<in> set rows" for j u
  proof -
    have "u \<noteq> t" "j \<noteq> i" using Cons.prems(3) row ju by (force simp: rows_new_def)+
    moreover have "known txn (redb_from_local u) = None" "j \<notin> ran (known txn)" "j \<in> taken"
      using Cons.prems(3) ju by (auto simp: rows_new_def)
    ultimately show ?thesis by (auto simp: ok(2) ran_def split: if_splits)
  qed
  then have "rows_new taken (add_pending (i, t) txn) rows" using Cons.prems(3) by (auto simp: rows_new_def)
  note tail = Cons.IH [OF ok(1) Cons.prems(2) this, unfolded ok(2)]
  have IH: "txn_inv taken d (unclaim (fold add_pending (row # rows) txn))"
      "(known txn)(redb_from_local t \<mapsto> i) \<subseteq>\<^sub>m known (fold add_pending (row # rows) txn)"
      "\<forall>(i, t) \<in> set rows. known (fold add_pending (row # rows) txn) (redb_from_local t) = Some i"
      "ran (known (fold add_pending (row # rows) txn)) \<subseteq> ran ((known txn)(redb_from_local t \<mapsto> i)) \<union> set (map fst rows)"
    using tail unfolding row fold_simps by blast+
  have "known txn \<subseteq>\<^sub>m (known txn)(redb_from_local t \<mapsto> i)" using new(1) by (auto simp: map_le_def)
  then have "known txn \<subseteq>\<^sub>m known (fold add_pending (row # rows) txn)" using IH(2) by (rule map_le_trans)
  moreover have "known (fold add_pending (row # rows) txn) (redb_from_local t) = Some i" by (rule map_le_Some [OF IH(2)]) simp
  moreover have "ran ((known txn)(redb_from_local t \<mapsto> i)) \<subseteq> insert i (ran (known txn))" by (auto simp: ran_def)
  ultimately show ?case using IH row by auto
qed simp

lemma max_id_of_props:
  "max_id_of ids = None \<longleftrightarrow> ids = []" "max_id_of ids = Some m \<Longrightarrow> i \<in> set ids \<Longrightarrow> i \<le> m"
proof -
  have *: "\<exists>x. fold (\<lambda>i m. Some (case m of None \<Rightarrow> i | Some x \<Rightarrow> max x i)) ids (Some a) = Some x \<and> a \<le> x \<and> (\<forall>i \<in> set ids. i \<le> x)" for ids :: "int list" and a
  proof (induction ids arbitrary: a)
    case (Cons j ids)
    from Cons.IH [of "max a j"] show ?case by auto
  qed simp
  show "max_id_of ids = None \<longleftrightarrow> ids = []" using * by (cases ids) (auto simp: max_id_of_def, metis option.distinct(1))
  show "i \<le> m" if "max_id_of ids = Some m" "i \<in> set ids"
    using that * by (cases ids) (auto simp: max_id_of_def, (metis option.inject)+)
qed

lemma add_global_batch_ok:
  assumes d: "dict_inv hi ht taken d" and txn: "txn_inv taken d txn"
    and rows: "rows_new taken txn (map (\<lambda>i. (ids ! i, as_local_dictionary_term (redb_row terms i))) [0..<length ids])"
    and eq: "add_global_batch \<lparr>gb_ids = Some ids, gb_terms = Some (Some terms)\<rparr> txn = Inr txn'"
  shows "txn_inv taken d txn' \<and> known txn \<subseteq>\<^sub>m known txn' \<and> (\<forall>i < length ids. known txn' (redb_row terms i) = Some (ids ! i))"
proof -
  let ?rows = "map (\<lambda>i. (ids ! i, as_local_dictionary_term (redb_row terms i))) [0..<length ids]"
  define T where "T = fold add_pending ?rows txn"
  have tb: "tables_inv (db d)" using d by (simp add: dict_inv_def)
  note fold = fold_add_pending_ok [OF txn_inv_unclaim [OF txn] tb rows, folded T_def]
  have cl: "claimed_ids T = claimed_ids txn" "reset_state_on_conflict T = reset_state_on_conflict txn" by (simp_all add: T_def)
  have ids: "map fst ?rows = ids" by (simp add: o_def map_nth)
  have ran: "ran (known T) \<subseteq> ran (known txn) \<union> set ids" using fold unfolding ids by blast
  have reset: "claim_free (reset_state_on_conflict T) (table_ids (db d)) taken" using txn by (simp add: txn_inv_def cl)
  have tid: "table_ids (db d) \<subseteq> ran (known T)" using fold ran_known [of taken d "unclaim T"] by auto
  have free: "claim_free (claim_state (claimed_ids txn)) (ran (known txn)) taken" using txn by (simp add: txn_inv_def)
  have txn': "txn' = cut_claim (max_id_of ids) (claim_state (claimed_ids txn)) T"
    using eq by (simp add: add_global_batch_def peek_current_claim_def Let_def T_def)
  have keep: "txn_inv taken d T" if "claim_free (claim_state (claimed_ids T)) (ran (known T)) taken"
    using txn_inv_reclaim [of taken d T "claimed_ids T" "reset_state_on_conflict T"] fold reset that by simp
  have cut: "txn_inv taken d (T\<lparr>reset_state_on_conflict := r, claimed_ids := set_claim_state r (claimed_ids T)\<rparr>)"
    if "claim_free r (ran (known T)) taken" for r
    using txn_inv_reclaim [of taken d T "set_claim_state r (claimed_ids T)" r] fold that claim_free_mono [OF that tid order.refl]
    by (simp add: set_claim_state_def)
  have "txn_inv taken d txn'"
  proof (cases "claim_state (claimed_ids txn)")
    case None
    then show ?thesis using keep cl(1) by (simp add: txn' cut_claim_def split: option.splits)
  next
    case (Some nl)
    obtain n l where nl: "nl = (n, l)" by (cases nl)
    have f: "n \<le> l" "in_int 64 n" "in_int 64 l" "{n..l} \<inter> ran (known txn) = {}" "{n..l} \<subseteq> taken"
      using free Some nl by (auto simp: claim_free_def)
    show ?thesis
    proof (cases "max_id_of ids")
      case None
      then have "ids = []" by (simp add: max_id_of_props)
      then have "claim_free (claim_state (claimed_ids txn)) (ran (known T)) taken" using free by (simp add: T_def)
      then show ?thesis using keep None cl(1) by (simp add: txn' cut_claim_def)
    next
      case m: (Some m)
      have le: "i \<le> m" if "i \<in> set ids" for i using max_id_of_props(2) [OF m that] .
      consider "m < n" | "n \<le> m" "l \<le> m" | "n \<le> m" "m < l" by linarith
      then show ?thesis
      proof cases
        case 1
        then have "{n..l} \<inter> set ids = {}" using le by fastforce
        then have "{n..l} \<inter> ran (known T) = {}" using f(4) ran by blast
        then have "claim_free (claim_state (claimed_ids txn)) (ran (known T)) taken" using f Some nl by (simp add: claim_free_def)
        then show ?thesis using keep m Some nl 1 cl(1) by (simp add: txn' cut_claim_def)
      next
        case 2
        then show ?thesis using cut [of None] m Some nl by (simp add: txn' cut_claim_def Let_def)
      next
        case 3
        have m1: "in_int 64 (m + 1)" using f(2,3) 3 by (simp add: in_int_def)
        have sub: "{m + 1..l} \<subseteq> {n..l}" using 3 by auto
        moreover have "{m + 1..l} \<inter> set ids = {}" using le by fastforce
        ultimately have "{m + 1..l} \<inter> ran (known T) = {}" using f(4) ran by blast
        moreover have "{m + 1..l} \<subseteq> taken" using sub f(5) by (rule subset_trans)
        ultimately have "claim_free (Some (as_int 64 (m + 1), l)) (ran (known T)) taken"
          using f(3) 3 m1 by (simp add: claim_free_def as_int_id)
        then show ?thesis using cut m Some nl 3 by (simp add: txn' cut_claim_def Let_def)
      qed
    qed
  qed
  moreover have "known txn' = known T" by (auto simp: txn' cut_claim_def Let_def split: option.splits)
  ultimately show ?thesis using fold by auto
qed

section \<open>Snapshots\<close>

lemma array_rows_append:
  assumes "array_wf b"
  shows "array_rows (append_null b) = array_rows b @ [None]" "array_rows (append_redb_term t b) = array_rows b @ [Some t]"
proof -
  have len: "length (term_type b) = length (null_buffer b)" "length (value_col b) = length (null_buffer b)"
    "length (data_type b) = length (null_buffer b)" "length (language_tag b) = length (null_buffer b)"
    using assms by (simp_all add: array_wf_def)
  show "array_rows (append_null b) = array_rows b @ [None]"
    by (auto simp: array_rows_def append_null_def redb_row_def arrow_value_def nth_append len)
  show "array_rows (append_redb_term t b) = array_rows b @ [Some t]"
    by (auto simp: array_rows_def append_redb_term_def append_raw_def redb_row_def arrow_value_def nth_append len)
qed

lemma lookup_id_ok:
  assumes L: "cache_ok L hi ht" and d: "dict_inv hi ht taken d" and eq: "lookup_id L i d = (r, d')"
  shows "dict_inv hi ht taken d'" "db d' = db d" "dict_claimer d' = dict_claimer d"
    "map_option fst r = map_of (id_to_term (db d)) i" "\<And>rt lt. r = Some (rt, lt) \<Longrightarrow> redb_from_local lt = rt"
proof -
  obtain hit cache where g: "opt_get (get_by_id L i) (dict_cache d) = (hit, cache)" by fastforce
  have sub: "cache_sub hi ht (table_map (db d)) (dict_cache d)" and inv: "inverse_maps (table_map (db d)) (map_of (id_to_term (db d)))"
    using d by (simp_all add: dict_inv_def tables_inv_def)
  note got = cache_sub_get_by_id [OF L sub g]
  have hit: "map_of (id_to_term (db d)) i = Some (redb_from_local t)" if "hit = Some t" for t
    using got(2) [OF that] inv by (simp add: inverse_maps_def)
  have ins: "cache_sub hi ht (table_map (db d)) (map_option (cache_insert L (as_local_dictionary_term t) i) cache)"
    if "map_of (id_to_term (db d)) i = Some t" for t
    using cache_sub_insert [OF L got(1)] that inv by (simp add: inverse_maps_def)
  show "dict_inv hi ht taken d'"
    using eq g dict_inv_cache [OF d got(1)] dict_inv_cache [OF d ins] by (auto simp: lookup_id_def Let_def split: option.splits)
  show "db d' = db d" "dict_claimer d' = dict_claimer d" "\<And>rt lt. r = Some (rt, lt) \<Longrightarrow> redb_from_local lt = rt"
    using eq g by (auto simp: lookup_id_def Let_def split: option.splits)
  show "map_option fst r = map_of (id_to_term (db d)) i"
    using eq g hit by (cases hit) (auto simp: lookup_id_def Let_def split: option.splits)
qed

text \<open>An id is missing when no term has it.\<close>

definition missing :: "RedbTables \<Rightarrow> int option \<Rightarrow> bool" where
  "missing tb x \<longleftrightarrow> (case x of None \<Rightarrow> False | Some i \<Rightarrow> map_of (id_to_term tb) i = None)"

lemma resolve_rows_ok:
  "cache_ok L hi ht \<Longrightarrow> dict_inv hi ht taken d \<Longrightarrow> array_wf b \<Longrightarrow>
    (\<And>j l. lst = Some (j, l) \<Longrightarrow> map_of (id_to_term (db d)) j = Some (redb_from_local l)) \<Longrightarrow>
    resolve_rows L lst ids b d = (res, d') \<Longrightarrow>
    dict_inv hi ht taken d' \<and> db d' = db d \<and> dict_claimer d' = dict_claimer d \<and>
    (case find (missing (db d)) ids of
       Some x \<Rightarrow> res = Inl (NotFound (the x))
     | None \<Rightarrow> \<exists>b'. res = Inr b' \<and> array_wf b' \<and>
         array_rows b' = array_rows b @ map (map_option (\<lambda>i. the (map_of (id_to_term (db d)) i))) ids)"
proof (induction ids arbitrary: lst b d)
  case (Cons x ids)
  show ?case
  proof (cases x)
    case None
    have wf: "array_wf (append_null b)" using Cons.prems(3) by simp
    have "resolve_rows L lst ids (append_null b) d = (res, d')" using Cons.prems(5) None by simp
    from Cons.IH [OF Cons.prems(1,2) wf Cons.prems(4) this] show ?thesis
      using None by (simp add: missing_def array_rows_append [OF Cons.prems(3)] split: option.splits)
  next
    case (Some i)
    have wf: "array_wf (append_redb_term t b)" for t using Cons.prems(3) by (simp add: append_redb_term_def)
    show ?thesis
    proof (cases "Some i = map_option fst lst")
      case True
      then obtain l where lst: "lst = Some (i, l)" by (cases lst) auto
      then have m: "map_of (id_to_term (db d)) i = Some (redb_from_local l)" using Cons.prems(4) by blast
      have "resolve_rows L lst ids (append_redb_term (redb_from_local l) b) d = (res, d')" using Cons.prems(5) Some lst by simp
      from Cons.IH [OF Cons.prems(1,2) wf Cons.prems(4) this] show ?thesis
        using Some m by (simp add: missing_def array_rows_append [OF Cons.prems(3)] split: option.splits)
    next
      case False
      obtain r d1 where lk: "lookup_id L i d = (r, d1)" by fastforce
      note ok = lookup_id_ok [OF Cons.prems(1,2) lk]
      show ?thesis
      proof (cases r)
        case None
        then have "res = Inl (NotFound i)" "d' = d1" using Cons.prems(5) Some False lk by simp_all
        then show ?thesis using ok None Some by (simp add: missing_def)
      next
        case r: (Some p)
        obtain rt lt where p: "p = (rt, lt)" by (cases p)
        have m: "map_of (id_to_term (db d)) i = Some rt" "redb_from_local lt = rt" using ok(4,5) r p by auto
        have eq: "resolve_rows L (Some (i, lt)) ids (append_redb_term rt b) d1 = (res, d')"
          using Cons.prems(5) Some False lk r p by simp
        have "\<And>j l. Some (i, lt) = Some (j, l) \<Longrightarrow> map_of (id_to_term (db d1)) j = Some (redb_from_local l)"
          using m ok(2) by auto
        from Cons.IH [OF Cons.prems(1) ok(1) wf this eq] show ?thesis
          using Some m ok(2,3) by (simp add: missing_def array_rows_append [OF Cons.prems(3)] split: option.splits)
      qed
    qed
  qed
qed auto

lemma resolve_plain_terms_ok:
  assumes "cache_ok L hi ht" "dict_inv hi ht taken d" "resolve_plain_terms L ids d = (res, d')"
  shows "dict_inv hi ht taken d'" "db d' = db d" "dict_claimer d' = dict_claimer d"
    "find (missing (db d)) ids = Some x \<Longrightarrow> res = Some (Inl (NotFound (the x)))"
    "find (missing (db d)) ids = None \<Longrightarrow>
      \<exists>a. res = Some (Inr a) \<and> array_wf a \<and> array_rows a = map (map_option (\<lambda>i. the (map_of (id_to_term (db d)) i))) ids"
proof -
  obtain r d1 where r: "resolve_rows L None ids builder_new d = (r, d1)" by fastforce
  have rows: "array_rows builder_new = []" by (simp add: array_rows_def builder_new_def)
  note ok = resolve_rows_ok [OF assms(1,2) builder_new_wf _ r, unfolded rows, simplified]
  have d: "d' = d1" using assms(3) r by (auto simp: resolve_plain_terms_def split: sum.splits)
  show "dict_inv hi ht taken d'" "db d' = db d" "dict_claimer d' = dict_claimer d" using ok d by auto
  show "res = Some (Inl (NotFound (the x)))" if "find (missing (db d)) ids = Some x"
    using ok that assms(3) r by (auto simp: resolve_plain_terms_def)
  show "\<exists>a. res = Some (Inr a) \<and> array_wf a \<and> array_rows a = map (map_option (\<lambda>i. the (map_of (id_to_term (db d)) i))) ids"
    if "find (missing (db d)) ids = None"
    using ok that assms(3) r by (auto simp: resolve_plain_terms_def)
qed

lemma get_id_by_term_ok:
  assumes L: "cache_ok L hi ht" and d: "dict_inv hi ht taken d" and eq: "get_id_by_term L s d = (r, d')"
  shows "dict_inv hi ht taken d'" "db d' = db d" "dict_claimer d' = dict_claimer d" "r = Option.bind (scalar_as_parts s) (table_map (db d))"
proof -
  have "dict_inv hi ht taken d' \<and> db d' = db d \<and> dict_claimer d' = dict_claimer d \<and> r = Option.bind (scalar_as_parts s) (table_map (db d))"
  proof (cases "scalar_as_parts s")
    case None
    then show ?thesis using eq d by (simp add: get_id_by_term_def)
  next
    case (Some t)
    obtain hit cache where g: "opt_get (get_by_term L t) (dict_cache d) = (hit, cache)" by fastforce
    have sub: "cache_sub hi ht (table_map (db d)) (dict_cache d)" using d by (simp add: dict_inv_def)
    note got = cache_sub_get_by_term [OF L sub g]
    have ins: "dict_inv hi ht taken (d\<lparr>dict_cache := map_option (cache_insert L (as_local_dictionary_term t) i) cache\<rparr>)"
      if "table_map (db d) t = Some i" for i
      using cache_sub_insert [OF L got(1)] that by (intro dict_inv_cache [OF d]) simp
    show ?thesis
    proof (cases hit)
      case (Some i)
      then show ?thesis using eq g \<open>scalar_as_parts s = Some t\<close> got(2) [OF Some] dict_inv_cache [OF d got(1)]
        by (auto simp: get_id_by_term_def)
    next
      case None
      then show ?thesis using eq g \<open>scalar_as_parts s = Some t\<close> ins dict_inv_cache [OF d got(1)]
        by (cases "table_map (db d) t") (auto simp: get_id_by_term_def Let_def)
    qed
  qed
  then show "dict_inv hi ht taken d'" "db d' = db d" "dict_claimer d' = dict_claimer d" "r = Option.bind (scalar_as_parts s) (table_map (db d))"
    by auto
qed

end
