(* ===== verification/Object_Id_Properties.thy ===== *)
theory Object_Id_Properties
  imports Object_Id_Invariant
begin

text \<open>
  The properties of the local object id dictionary over all sequences of its operations, and the
  contract that its users rely on: the locale \<open>object_id_dictionary\<close>, interpreted by the redb
  dictionary.
\<close>

section \<open>Sequences of operations\<close>

text \<open>A dictionary with at most one open write transaction, in a world shared with other nodes.\<close>

record ('c, 'd, 'w) DictSystem =
  sys_dict :: "('c, 'd, 'w) RedbDictionary"
  sys_txn :: "'w DictTxn option"
  sys_world :: 'w

definition batch_rows :: "GlobalBatch \<Rightarrow> (int \<times> LocalDictionaryTerm) list" where
  "batch_rows b = (case (gb_ids b, gb_terms b) of
     (Some ids, Some (Some terms)) \<Rightarrow> map (\<lambda>i. (ids ! i, as_local_dictionary_term (redb_row terms i))) [0..<length ids] | _ \<Rightarrow> [])"

text \<open>\<open>sync\<close> adds a batch of the global table; \<open>delivers\<close> says which batches the table can deliver to which transaction.
  \<open>drop_txn\<close> is a transaction that ends without commit or abort, for instance because its commit failed; \<open>others\<close> is a step
  of another node, which may claim ids.\<close>

inductive dict_step ::
    "('c, 'd) CacheLib \<Rightarrow> ('w \<Rightarrow> bool) \<Rightarrow> ('w \<Rightarrow> int set) \<Rightarrow> ('w \<Rightarrow> 'w DictTxn \<Rightarrow> GlobalBatch \<Rightarrow> bool) \<Rightarrow>
      ('c, 'd, 'w) DictSystem \<Rightarrow> ('c, 'd, 'w) DictSystem \<Rightarrow> bool"
  for L :: "('c, 'd) CacheLib" and P :: "'w \<Rightarrow> bool" and taken :: "'w \<Rightarrow> int set" and delivers :: "'w \<Rightarrow> 'w DictTxn \<Rightarrow> GlobalBatch \<Rightarrow> bool" where
  open_txn: "sys_txn s = None \<Longrightarrow> begin_txn (sys_dict s) = Inr txn \<Longrightarrow> dict_step L P taken delivers s (s\<lparr>sys_txn := Some txn\<rparr>)"
| encode: "sys_txn s = Some txn \<Longrightarrow> encode_array L a txn (sys_dict s) (sys_world s) = (r, txn', d', w') \<Longrightarrow>
    dict_step L P taken delivers s \<lparr>sys_dict = d', sys_txn = Some txn', sys_world = w'\<rparr>"
| sync: "sys_txn s = Some txn \<Longrightarrow> delivers (sys_world s) txn b \<Longrightarrow> add_global_batch b txn = Inr txn' \<Longrightarrow>
    dict_step L P taken delivers s (s\<lparr>sys_txn := Some txn'\<rparr>)"
| commit: "sys_txn s = Some txn \<Longrightarrow> dict_step L P taken delivers s (s\<lparr>sys_dict := commit_txn L v txn (sys_dict s), sys_txn := None\<rparr>)"
| abort: "sys_txn s = Some txn \<Longrightarrow> dict_step L P taken delivers s (s\<lparr>sys_dict := abort_txn txn (sys_dict s), sys_txn := None\<rparr>)"
| drop_txn: "sys_txn s = Some txn \<Longrightarrow> dict_step L P taken delivers s (s\<lparr>sys_txn := None\<rparr>)"
| resolve: "resolve_plain_terms L ids (sys_dict s) = (r, d') \<Longrightarrow> dict_step L P taken delivers s (s\<lparr>sys_dict := d'\<rparr>)"
| get_id: "get_id_by_term L x (sys_dict s) = (r, d') \<Longrightarrow> dict_step L P taken delivers s (s\<lparr>sys_dict := d'\<rparr>)"
| others: "P w' \<Longrightarrow> taken (sys_world s) \<subseteq> taken w' \<Longrightarrow> dict_step L P taken delivers s (s\<lparr>sys_world := w'\<rparr>)"

abbreviation dict_steps ::
    "('c, 'd) CacheLib \<Rightarrow> ('w \<Rightarrow> bool) \<Rightarrow> ('w \<Rightarrow> int set) \<Rightarrow> ('w \<Rightarrow> 'w DictTxn \<Rightarrow> GlobalBatch \<Rightarrow> bool) \<Rightarrow> ('c, 'd, 'w) DictSystem \<Rightarrow> ('c, 'd, 'w) DictSystem \<Rightarrow> bool" where
  "dict_steps L P taken delivers \<equiv> (dict_step L P taken delivers)\<^sup>*\<^sup>*"

text \<open>What the dictionary relies on: a delivered batch has one row for each of its ids and terms, and its ids are claimed, but
  neither the transaction nor the tables know any of the ids or of the terms yet.\<close>

definition delivers_new :: "('w \<Rightarrow> int set) \<Rightarrow> ('w \<Rightarrow> 'w DictTxn \<Rightarrow> GlobalBatch \<Rightarrow> bool) \<Rightarrow> bool" where
  "delivers_new taken delivers \<longleftrightarrow> (\<forall>w txn b. delivers w txn b \<longrightarrow> rows_new (taken w) txn (batch_rows b))"

abbreviation dict_start :: "('c, 'd) CacheLib \<Rightarrow> nat option \<Rightarrow> 'w claimer option \<Rightarrow> 'w \<Rightarrow> ('c, 'd, 'w) DictSystem" where
  "dict_start L n cl w \<equiv> \<lparr>sys_dict = builder_finish L n cl None, sys_txn = None, sys_world = w\<rparr>"

definition system_inv ::
    "('c \<Rightarrow> (int \<times> LocalDictionaryTerm) set) \<Rightarrow> ('d \<Rightarrow> (LocalDictionaryTerm \<times> int) set) \<Rightarrow> ('w \<Rightarrow> bool) \<Rightarrow> ('w \<Rightarrow> int set) \<Rightarrow>
      ('c, 'd, 'w) DictSystem \<Rightarrow> bool" where
  "system_inv hi ht P taken s \<longleftrightarrow> P (sys_world s) \<and> claimer_ok (dict_claimer (sys_dict s)) P taken \<and>
     dict_inv hi ht (taken (sys_world s)) (sys_dict s) \<and>
     (\<forall>txn. sys_txn s = Some txn \<longrightarrow> txn_inv (taken (sys_world s)) (sys_dict s) txn)"

lemma encode_array_ok:
  assumes "cache_ok L hi ht" "claimer_ok (dict_claimer d) P taken" "P w" "dict_inv hi ht (taken w) d" "txn_inv (taken w) d txn"
    "encode_array L a txn d w = (r, txn', d', w')"
  shows "encodes hi ht P taken txn d w txn' d' w'"
    "r = Inr ids \<Longrightarrow> ids = map (map_option (\<lambda>t. the (known txn' t))) (array_rows a) \<and> (\<forall>t. Some t \<in> set (array_rows a) \<longrightarrow> known txn' t \<noteq> None)"
  using encode_rows_ok [OF assms(1-5) _ assms(6) [unfolded encode_array_def]] by simp_all

lemma txn_inv_same_db: "db d' = db d \<Longrightarrow> dict_claimer d' = dict_claimer d \<Longrightarrow> txn_inv taken d' txn = txn_inv taken d txn"
  by (simp add: txn_inv_def)

lemma add_global_batch_cases:
  assumes "add_global_batch b txn = Inr txn'"
  obtains ids terms where "b = \<lparr>gb_ids = Some ids, gb_terms = Some (Some terms)\<rparr>"
  using assms by (cases b) (auto simp: add_global_batch_def and_then_def ok_or_def split: option.splits sum.splits)

lemma step_inv:
  assumes L: "cache_ok L hi ht" and new: "delivers_new taken delivers" and inv: "system_inv hi ht P taken s" and step: "dict_step L P taken delivers s s'"
  shows "system_inv hi ht P taken s'" "table_map (db (sys_dict s)) \<subseteq>\<^sub>m table_map (db (sys_dict s'))"
proof -
  have P: "P (sys_world s)" and cl: "claimer_ok (dict_claimer (sys_dict s)) P taken"
    and d: "dict_inv hi ht (taken (sys_world s)) (sys_dict s)"
    and t: "\<And>txn. sys_txn s = Some txn \<Longrightarrow> txn_inv (taken (sys_world s)) (sys_dict s) txn"
    using inv by (auto simp: system_inv_def)
  have "system_inv hi ht P taken s' \<and> table_map (db (sys_dict s)) \<subseteq>\<^sub>m table_map (db (sys_dict s'))"
    using step
  proof cases
    case (open_txn txn)
    obtain txn' where "begin_txn (sys_dict s) = Inr txn'" "txn_inv (taken (sys_world s)) (sys_dict s) txn'"
      using d by (rule begin_ok)
    then show ?thesis using open_txn P cl d by (simp add: system_inv_def)
  next
    case (encode txn a r txn' d' w')
    have "encodes hi ht P taken txn (sys_dict s) (sys_world s) txn' d' w'"
      by (rule encode_array_ok(1) [OF L cl P d t [OF encode(2)] encode(3)])
    then show ?thesis using encode(1) cl by (simp add: system_inv_def encodes_def)
  next
    case (sync txn b txn')
    obtain ids terms where b: "b = \<lparr>gb_ids = Some ids, gb_terms = Some (Some terms)\<rparr>" by (rule add_global_batch_cases [OF sync(4)])
    then have "txn_inv (taken (sys_world s)) (sys_dict s) txn'"
      using add_global_batch_ok [OF d t [OF sync(2)], of ids terms txn'] sync(3,4) new by (fastforce simp: batch_rows_def delivers_new_def)
    then show ?thesis using sync(1) P cl d by (simp add: system_inv_def)
  next
    case (commit txn v)
    have "table_map (db (sys_dict s)) \<subseteq>\<^sub>m known txn" using t [OF commit(2)] by (auto simp: txn_inv_def map_le_def known_def)
    then show ?thesis using commit(1) commit_ok [OF L d t [OF commit(2)]] P cl by (simp add: system_inv_def)
  next
    case (abort txn)
    then show ?thesis using abort_ok [OF d t] P cl by (simp add: system_inv_def)
  next
    case (drop_txn txn)
    then show ?thesis using P cl d by (simp add: system_inv_def)
  next
    case (resolve ids r d')
    note r = resolve_plain_terms_ok(1-3) [OF L d resolve(2)]
    show ?thesis using resolve(1) r P cl t by (simp add: system_inv_def txn_inv_same_db [OF r(2,3)])
  next
    case (get_id x r d')
    note r = get_id_by_term_ok(1-3) [OF L d get_id(2)]
    show ?thesis using get_id(1) r P cl t by (simp add: system_inv_def txn_inv_same_db [OF r(2,3)])
  next
    case (others w')
    then show ?thesis using cl dict_inv_mono [OF d] txn_inv_mono [OF t] by (simp add: system_inv_def)
  qed
  then show "system_inv hi ht P taken s'" "table_map (db (sys_dict s)) \<subseteq>\<^sub>m table_map (db (sys_dict s'))" by auto
qed

lemma steps_inv:
  assumes "cache_ok L hi ht" "delivers_new taken delivers"
  shows "dict_steps L P taken delivers s s' \<Longrightarrow> system_inv hi ht P taken s \<Longrightarrow>
    system_inv hi ht P taken s' \<and> table_map (db (sys_dict s)) \<subseteq>\<^sub>m table_map (db (sys_dict s'))"
proof (induction rule: rtranclp_induct)
  case (step y z)
  then show ?case using step_inv [OF assms _ step(2)] by (blast intro: map_le_trans)
qed simp

lemma start_inv:
  assumes "cache_ok L hi ht" "claimer_ok cl P taken" "P w"
  shows "system_inv hi ht P taken (dict_start L n cl w)"
proof -
  have c: "cache_sub hi ht m (map_option (cache_new L) n)" for m
    using assms(1) by (auto simp: cache_sub_def cache_new_def cache_ok_def)
  have "try_load_initial_claim_redb empty_tables = Inr None"
    by (simp add: try_load_initial_claim_redb_def parse_claim_value_def empty_tables_def validate_initial_claim_def)
  then show ?thesis using assms(2,3) c
    by (simp add: system_inv_def dict_inv_def builder_finish_def dictionary_try_new_def tables_inv_def inverse_maps_def empty_tables_def)
qed

lemma read_claim_load: "try_load_initial_claim_redb (db d) = Inr c \<Longrightarrow> read_claimed_object_ids d = Inr c"
  by (auto simp: try_load_initial_claim_redb_def parse_claim_value_def read_claimed_object_ids_def validate_initial_claim_def
      split: option.splits if_splits)

section \<open>The contract of a dictionary\<close>

text \<open>The loop of a caller that encodes several columns in one transaction and stops at the first error.\<close>

fun encode_arrays ::
    "('a \<Rightarrow> 't \<Rightarrow> 'd \<Rightarrow> 'w \<Rightarrow> ('e + 'i) \<times> 't \<times> 'd \<times> 'w) \<Rightarrow> 'a list \<Rightarrow> 't \<Rightarrow> 'd \<Rightarrow> 'w \<Rightarrow> ('e + 'i list) \<times> 't \<times> 'd \<times> 'w" where
  "encode_arrays enc [] t d w = (Inr [], t, d, w)"
| "encode_arrays enc (a # as) t d w =
     (case enc a t d w of
        (Inl e, t', d', w') \<Rightarrow> (Inl e, t', d', w')
      | (Inr i, t', d', w') \<Rightarrow>
          (case encode_arrays enc as t' d' w' of
             (Inl e, t'', d'', w'') \<Rightarrow> (Inl e, t'', d'', w'')
           | (Inr is, t'', d'', w'') \<Rightarrow> (Inr (i # is), t'', d'', w'')))"

text \<open>What the users of a dictionary rely on. \<open>ids_of\<close> are the committed ids of a dictionary, \<open>known_ids\<close> the ids
  that a transaction sees.\<close>

locale object_id_dictionary =
  fixes inv :: "'d \<Rightarrow> 'w \<Rightarrow> bool"
    and tinv :: "'d \<Rightarrow> 't \<Rightarrow> 'w \<Rightarrow> bool"
    and ids_of :: "'d \<Rightarrow> 'r \<rightharpoonup> int"
    and known_ids :: "'t \<Rightarrow> 'r \<rightharpoonup> int"
    and begin_op :: "'d \<Rightarrow> ('e, 't) result"
    and encode_op :: "'a \<Rightarrow> 't \<Rightarrow> 'd \<Rightarrow> 'w \<Rightarrow> ('e, int option list) result \<times> 't \<times> 'd \<times> 'w"
    and commit_op :: "nat \<Rightarrow> 't \<Rightarrow> 'd \<Rightarrow> 'd"
    and abort_op :: "'t \<Rightarrow> 'd \<Rightarrow> 'd"
    and resolve_op :: "int option list \<Rightarrow> 'd \<Rightarrow> ('e, 'a) result option \<times> 'd"
    and rows_of :: "'a \<Rightarrow> 'r option list"
  assumes begin_law: "inv d w \<Longrightarrow> \<exists>t. begin_op d = Inr t \<and> tinv d t w \<and> known_ids t = ids_of d"
    and encode_law: "inv d w \<Longrightarrow> tinv d t w \<Longrightarrow> encode_op a t d w = (r, t', d', w') \<Longrightarrow>
      inv d' w' \<and> tinv d' t' w' \<and> ids_of d' = ids_of d \<and> known_ids t \<subseteq>\<^sub>m known_ids t'"
    and encoded_law: "inv d w \<Longrightarrow> tinv d t w \<Longrightarrow> encode_op a t d w = (Inr ids, t', d', w') \<Longrightarrow>
      ids = map (map_option (\<lambda>x. the (known_ids t' x))) (rows_of a) \<and> (\<forall>x. Some x \<in> set (rows_of a) \<longrightarrow> known_ids t' x \<noteq> None)"
    and commit_law: "inv d w \<Longrightarrow> tinv d t w \<Longrightarrow> inv (commit_op v t d) w \<and> ids_of (commit_op v t d) = known_ids t"
    and abort_law: "inv d w \<Longrightarrow> tinv d t w \<Longrightarrow> inv (abort_op t d) w \<and> ids_of (abort_op t d) = ids_of d"
    and resolve_law: "inv d w \<Longrightarrow> (\<And>x. Some x \<in> set rows \<Longrightarrow> ids_of d x \<noteq> None) \<Longrightarrow>
      resolve_op (map (map_option (\<lambda>x. the (ids_of d x))) rows) d = (q, d') \<Longrightarrow>
      inv d' w \<and> ids_of d' = ids_of d \<and> (\<exists>a. q = Some (Inr a) \<and> rows_of a = rows)"
begin

text \<open>Ids that an extension of the known ids resolves back to the rows they were made from.\<close>

definition encoded_as :: "('r \<rightharpoonup> int) \<Rightarrow> 'a \<Rightarrow> int option list \<Rightarrow> bool" where
  "encoded_as m a ids \<longleftrightarrow> ids = map (map_option (\<lambda>x. the (m x))) (rows_of a) \<and> (\<forall>x. Some x \<in> set (rows_of a) \<longrightarrow> m x \<noteq> None)"

lemma encoded_as_mono: "encoded_as m a ids \<Longrightarrow> m \<subseteq>\<^sub>m m' \<Longrightarrow> encoded_as m' a ids"
proof -
  assume a: "encoded_as m a ids" "m \<subseteq>\<^sub>m m'"
  have eq: "m' x = m x" if "Some x \<in> set (rows_of a)" for x
    using a that by (auto simp: encoded_as_def map_le_def dom_def)
  have "map_option (\<lambda>x. the (m x)) y = map_option (\<lambda>x. the (m' x)) y" if "y \<in> set (rows_of a)" for y
    using eq that by (cases y) simp_all
  then show ?thesis using a(1) eq by (simp add: encoded_as_def)
qed

lemma encode_arrays_ok:
  "inv d w \<Longrightarrow> tinv d t w \<Longrightarrow> encode_arrays encode_op as t d w = (r, t', d', w') \<Longrightarrow>
    inv d' w' \<and> tinv d' t' w' \<and> ids_of d' = ids_of d \<and> known_ids t \<subseteq>\<^sub>m known_ids t' \<and>
    (\<forall>idss. r = Inr idss \<longrightarrow> list_all2 (encoded_as (known_ids t')) as idss)"
proof (induction "as" arbitrary: t d w r t' d' w')
  case (Cons a "as")
  obtain x t1 d1 w1 where e: "encode_op a t d w = (x, t1, d1, w1)" by (metis prod_cases4)
  note law = encode_law [OF Cons.prems(1,2) e]
  show ?case
  proof (cases x)
    case (Inl y)
    then show ?thesis using Cons.prems(3) e law by auto
  next
    case (Inr ids)
    obtain y t2 d2 w2 where rest: "encode_arrays encode_op as t1 d1 w1 = (y, t2, d2, w2)" by (metis prod_cases4)
    have IH: "inv d2 w2 \<and> tinv d2 t2 w2 \<and> ids_of d2 = ids_of d1 \<and> known_ids t1 \<subseteq>\<^sub>m known_ids t2 \<and>
        (\<forall>idss. y = Inr idss \<longrightarrow> list_all2 (encoded_as (known_ids t2)) as idss)"
      using law by (intro Cons.IH [OF _ _ rest]) simp_all
    have "encoded_as (known_ids t1) a ids"
      using encoded_law [OF Cons.prems(1,2) e [unfolded Inr]] by (simp add: encoded_as_def)
    then have "encoded_as (known_ids t2) a ids" using IH by (blast intro: encoded_as_mono)
    moreover have "known_ids t \<subseteq>\<^sub>m known_ids t2" using law IH by (blast intro: map_le_trans)
    ultimately show ?thesis using Cons.prems(3) e Inr rest law IH by (cases y) auto
  qed
qed auto

lemma resolve_encoded:
  assumes "inv d w" "encoded_as (ids_of d) a ids" "resolve_op ids d = (r, d')"
  shows "\<exists>a'. r = Some (Inr a') \<and> rows_of a' = rows_of a"
  using resolve_law [OF assms(1), of "rows_of a" r d'] assms(2,3) by (simp add: encoded_as_def)

lemma committed_encoded:
  assumes "inv d w" "tinv d t w" "encode_arrays encode_op as t d w = (Inr idss, t', d', w')"
  shows "inv (commit_op v t' d') w' \<and> list_all2 (encoded_as (ids_of (commit_op v t' d'))) as idss"
  using encode_arrays_ok [OF assms] commit_law [of d' w' t' v] by simp

end

text \<open>The redb dictionary keeps the contract.\<close>

definition redb_inv ::
    "('c, 'd) CacheLib \<Rightarrow> ('c \<Rightarrow> (int \<times> LocalDictionaryTerm) set) \<Rightarrow> ('d \<Rightarrow> (LocalDictionaryTerm \<times> int) set) \<Rightarrow> ('w \<Rightarrow> bool) \<Rightarrow> ('w \<Rightarrow> int set) \<Rightarrow>
      ('c, 'd, 'w) RedbDictionary \<Rightarrow> 'w \<Rightarrow> bool" where
  "redb_inv L hi ht P taken d w \<longleftrightarrow>
     cache_ok L hi ht \<and> claimer_ok (dict_claimer d) P taken \<and> P w \<and> dict_inv hi ht (taken w) d"

lemma find_none_missing:
  assumes "tables_inv tb" "\<And>x. Some x \<in> set rows \<Longrightarrow> table_map tb x \<noteq> None"
  shows "find (missing tb) (map (map_option (\<lambda>x. the (table_map tb x))) rows) = None"
    "map (map_option (\<lambda>i. the (map_of (id_to_term tb) i)) \<circ> map_option (\<lambda>x. the (table_map tb x))) rows = rows"
proof -
  have inv: "map_of (id_to_term tb) (the (table_map tb x)) = Some x" if row: "Some x \<in> set rows" for x
  proof -
    obtain i where "table_map tb x = Some i" using assms(2) [OF row] by blast
    then show ?thesis using assms(1) unfolding tables_inv_def inverse_maps_def by force
  qed
  show "find (missing tb) (map (map_option (\<lambda>x. the (table_map tb x))) rows) = None"
    using inv by (auto simp: find_None_iff missing_def split: option.splits)
  show "map (map_option (\<lambda>i. the (map_of (id_to_term tb) i)) \<circ> map_option (\<lambda>x. the (table_map tb x))) rows = rows"
  proof (rule map_idI)
    fix x assume x: "x \<in> set rows"
    show "(map_option (\<lambda>i. the (map_of (id_to_term tb) i)) \<circ> map_option (\<lambda>x. the (table_map tb x))) x = x"
    proof (cases x)
      case (Some y)
      then show ?thesis using inv [of y] x by simp
    qed simp
  qed
qed

interpretation redb: object_id_dictionary "redb_inv L hi ht P taken" "\<lambda>d t w. txn_inv (taken w) d t" "\<lambda>d. table_map (db d)" known
    begin_txn "encode_array L" "commit_txn L" abort_txn "resolve_plain_terms L" array_rows
  for L hi ht P taken
proof
  fix d w assume "redb_inv L hi ht P taken d w"
  then have "dict_inv hi ht (taken w) d" by (simp add: redb_inv_def)
  then show "\<exists>t. begin_txn d = Inr t \<and> txn_inv (taken w) d t \<and> known t = table_map (db d)" by (metis begin_ok)
next
  fix d w t a r t' d' w'
  assume "redb_inv L hi ht P taken d w" "txn_inv (taken w) d t" "encode_array L a t d w = (r, t', d', w')"
  then show "redb_inv L hi ht P taken d' w' \<and> txn_inv (taken w') d' t' \<and> table_map (db d') = table_map (db d) \<and> known t \<subseteq>\<^sub>m known t'"
    using encode_array_ok(1) [of L hi ht d P taken w t a r t' d' w'] by (auto simp: redb_inv_def encodes_def)
next
  fix d w t a ids t' d' w'
  assume "redb_inv L hi ht P taken d w" "txn_inv (taken w) d t" "encode_array L a t d w = (Inr ids, t', d', w')"
  then show "ids = map (map_option (\<lambda>x. the (known t' x))) (array_rows a) \<and> (\<forall>x. Some x \<in> set (array_rows a) \<longrightarrow> known t' x \<noteq> None)"
    using encode_array_ok(2) [of L hi ht d P taken w t a "Inr ids" t' d' w'] by (simp add: redb_inv_def)
next
  fix d w t v assume "redb_inv L hi ht P taken d w" "txn_inv (taken w) d t"
  then show "redb_inv L hi ht P taken (commit_txn L v t d) w \<and> table_map (db (commit_txn L v t d)) = known t"
    using commit_ok [of L hi ht "taken w" d t v] by (simp add: redb_inv_def)
next
  fix d w t assume "redb_inv L hi ht P taken d w" "txn_inv (taken w) d t"
  then show "redb_inv L hi ht P taken (abort_txn t d) w \<and> table_map (db (abort_txn t d)) = table_map (db d)"
    using abort_ok [of hi ht "taken w" d t] by (simp add: redb_inv_def)
next
  fix d w rows r d'
  assume inv: "redb_inv L hi ht P taken d w" and rows: "\<And>x. Some x \<in> set rows \<Longrightarrow> table_map (db d) x \<noteq> None"
    and eq: "resolve_plain_terms L (map (map_option (\<lambda>x. the (table_map (db d) x))) rows) d = (r, d')"
  then have L: "cache_ok L hi ht" and d: "dict_inv hi ht (taken w) d" by (simp_all add: redb_inv_def)
  have tb: "tables_inv (db d)" using d by (simp add: dict_inv_def)
  note ok = resolve_plain_terms_ok [OF L d eq]
  have "\<exists>a. r = Some (Inr a) \<and> array_rows a = rows"
    using ok(5) find_none_missing [OF tb rows] by auto
  then show "redb_inv L hi ht P taken d' w \<and> table_map (db d') = table_map (db d) \<and> (\<exists>a. r = Some (Inr a) \<and> array_rows a = rows)"
    using inv ok(1-3) by (simp add: redb_inv_def)
qed

section \<open>Properties\<close>

text \<open>A row decodes to a term; the decoder of the plain term encoding works row by row.\<close>

definition decode_row :: "'l LiteralApi \<Rightarrow> RedbTerm option \<Rightarrow> 'l Term decoded" where
  "decode_row A row = (case row of None \<Rightarrow> DecodeErr ExpectedError
     | Some t \<Rightarrow> decode_raw A (rt_term_type t) (rt_value t) (rt_data_type t) (rt_language t))"

lemma decode_terms_rows: "decode_terms A a = map (decode_row A) (array_rows a)"
proof -
  have "decode_term A a i ty = decode_term A (append_raw (rt_term_type (redb_row a i)) (rt_value (redb_row a i))
      (rt_data_type (redb_row a i)) (rt_language (redb_row a i)) builder_new) 0 ty" for i ty
    by (cases ty) (simp_all add: redb_row_def append_raw_def builder_new_def arrow_value_def)
  then show ?thesis
    by (auto simp: decode_terms_def array_rows_def decode_row_def decode_raw_def extract_term_def
        append_raw_def builder_new_def arrow_value_def redb_row_def split: option.splits)
qed

lemma start_redb_inv:
  assumes "cache_ok L hi ht" "claimer_ok cl P taken" "P w" "delivers_new taken delivers" "dict_steps L P taken delivers (dict_start L n cl w) s"
  shows "system_inv hi ht P taken s"
  using steps_inv [OF assms(1,4,5) start_inv [OF assms(1-3)]] by simp

text \<open>C38: Take a fresh local dictionary and any sequence of transactions, encodings, syncs, commits, aborts, dropped
  transactions, lookups and claims of other nodes, with a cache that may drop entries at any time and a claimer that never returns
  a claimed id again. The syncs are restricted: the global table delivers only pairs with a claimed id, whose id and whose term the
  dictionary does not know yet, each once. Then the two tables are inverse to each other (no term has two ids, no id has two terms), the lookup of
  a term answers what the tables say, the stored claim can be read and holds only ids that no term has, and a new transaction can
  be opened. Without the restriction this fails: a delivered pair overwrites what is known of its id and of its term.\<close>

theorem dictionary_invariant:
  assumes "cache_ok L hi ht" "claimer_ok cl P taken" "P w" "delivers_new taken delivers" "dict_steps L P taken delivers (dict_start L n cl w) s"
  shows "(\<forall>t i. map_of (term_to_id (db (sys_dict s))) t = Some i \<longleftrightarrow> map_of (id_to_term (db (sys_dict s))) i = Some t) \<and>
    (\<forall>x. fst (get_id_by_term L x (sys_dict s)) = Option.bind (scalar_as_parts x) (map_of (term_to_id (db (sys_dict s))))) \<and>
    (\<exists>c. read_claimed_object_ids (sys_dict s) = Inr c \<and>
       (\<forall>a b. c = Some (a, b) \<longrightarrow> a \<le> b \<and> (\<forall>i \<in> {a..b}. map_of (id_to_term (db (sys_dict s))) i = None))) \<and>
    (\<exists>txn. begin_txn (sys_dict s) = Inr txn)"
proof -
  have inv: "dict_inv hi ht (taken (sys_world s)) (sys_dict s)"
    using start_redb_inv [OF assms] by (simp add: system_inv_def)
  then have m: "inverse_maps (table_map (db (sys_dict s))) (map_of (id_to_term (db (sys_dict s))))"
    by (simp add: dict_inv_def tables_inv_def)
  obtain c where c: "try_load_initial_claim_redb (db (sys_dict s)) = Inr c"
    "claim_free c (table_ids (db (sys_dict s))) (taken (sys_world s))"
    using inv by (auto simp: dict_inv_def)
  have "map_of (id_to_term (db (sys_dict s))) i = None" if "c = Some (a, b)" "i \<in> {a..b}" for a b i
    using c(2) that inverse_maps_ran [OF m, of i] by (auto simp: claim_free_def)
  moreover have "a \<le> b" if "c = Some (a, b)" for a b using c(2) that by (simp add: claim_free_def)
  moreover have "fst (get_id_by_term L x (sys_dict s)) = Option.bind (scalar_as_parts x) (table_map (db (sys_dict s)))" for x
    using get_id_by_term_ok(4) [OF assms(1) inv, of x] by (metis prod.collapse)
  moreover have "\<exists>txn. begin_txn (sys_dict s) = Inr txn" by (metis begin_ok inv)
  ultimately show ?thesis using m read_claim_load [OF c(1)] unfolding inverse_maps_def by blast
qed

text \<open>C39: Ids are permanent and resolve to their terms, as long as the syncs bring only pairs with a claimed id whose
  id and whose term the dictionary does not know yet and the claimer never returns a claimed id again. When the columns of a
  batch are encoded in an open transaction of a dictionary and the transaction is committed, then after any further operations
  (transactions, encodings, such syncs, commits, aborts, dropped transactions, lookups and claims of other nodes) each column
  of ids resolves, without an error and without a panic, to a column with the same rows, so it decodes to the same
  terms.\<close>

theorem encode_commit_resolve:
  assumes "cache_ok L hi ht" "claimer_ok cl P taken" "P w" "delivers_new taken delivers" "dict_steps L P taken delivers (dict_start L n cl w) s" "sys_txn s = Some txn"
    and "encode_arrays (encode_array L) cols txn (sys_dict s) (sys_world s) = (Inr idss, txn', d', w')"
    and "dict_steps L P taken delivers \<lparr>sys_dict = commit_txn L v txn' d', sys_txn = None, sys_world = w'\<rparr> s'"
  shows "list_all2 (\<lambda>col ids. \<exists>col'. fst (resolve_plain_terms L ids (sys_dict s')) = Some (Inr col') \<and>
      array_rows col' = array_rows col \<and> decode_terms A col' = decode_terms A col) cols idss"
proof -
  let ?c = "\<lparr>sys_dict = commit_txn L v txn' d', sys_txn = None, sys_world = w'\<rparr>"
  have sinv: "system_inv hi ht P taken s" using assms(1-5) by (rule start_redb_inv)
  then have inv: "redb_inv L hi ht P taken (sys_dict s) (sys_world s)" "txn_inv (taken (sys_world s)) (sys_dict s) txn"
    using assms(1,6) by (simp_all add: system_inv_def redb_inv_def)
  note com = redb.committed_encoded [OF inv assms(7), of v]
  then have "system_inv hi ht P taken ?c" by (simp add: system_inv_def redb_inv_def)
  note later = steps_inv [OF assms(1,4,8) this]
  then have inv': "redb_inv L hi ht P taken (sys_dict s') (sys_world s')" using assms(1) by (simp add: system_inv_def redb_inv_def)
  show ?thesis
  proof (rule list_all2_mono [OF conjunct2 [OF com]])
    fix col ids assume "redb.encoded_as (table_map (db (commit_txn L v txn' d'))) col ids"
    then have "redb.encoded_as (table_map (db (sys_dict s'))) col ids" using later by (auto intro: redb.encoded_as_mono)
    then obtain col' where "fst (resolve_plain_terms L ids (sys_dict s')) = Some (Inr col')" "array_rows col' = array_rows col"
      using redb.resolve_encoded [OF inv'] by (metis prod.collapse)
    then show "\<exists>col'. fst (resolve_plain_terms L ids (sys_dict s')) = Some (Inr col') \<and> array_rows col' = array_rows col \<and>
        decode_terms A col' = decode_terms A col"
      by (simp add: decode_terms_rows)
  qed
qed

section \<open>A concrete dictionary\<close>

text \<open>A cache with room for one entry, and a claimer that counts up in ranges of ten.\<close>

definition tiny_cache :: "((int \<times> LocalDictionaryTerm) option, (LocalDictionaryTerm \<times> int) option) CacheLib" where
  "tiny_cache = \<lparr>id_cache_new = \<lambda>_. None,
     id_cache_get = \<lambda>c i. (case c of Some (j, t) \<Rightarrow> if i = j then Some t else None | None \<Rightarrow> None, c),
     id_cache_insert = \<lambda>c i t. Some (i, t),
     term_cache_new = \<lambda>_. None,
     term_cache_get = \<lambda>d r. (case d of Some (t, i) \<Rightarrow> if equivalent r t then Some i else None | None \<Rightarrow> None, d),
     term_cache_insert = \<lambda>d t i. Some (t, i)\<rparr>"

definition counting_claimer :: "int claimer" where
  "counting_claimer w = (if w + 10 < 2 ^ 63 then (Inr (w, w + 9), w + 10) else (Inl (ObjectIdClaimer ''exhausted''), w))"

lemma tiny_cache_ok: "cache_ok tiny_cache set_option set_option"
  by (auto simp: cache_ok_def tiny_cache_def split: option.splits)

lemma counting_claimer_ok: "claimer_ok (Some counting_claimer) (\<lambda>w. 0 \<le> w) (\<lambda>w. {0..<w})"
  by (auto simp: claimer_ok_def fresh_claimer_def counting_claimer_def in_int_def split: if_splits)

abbreviation two_terms :: PlainTermArray where
  "two_terms \<equiv> \<lparr>null_buffer = [True, False, True], term_type = [Some 0, None, Some 2], value_col = [Some ''a'', None, Some ''b''],
     data_type = [None, None, Some ''d''], language_tag = [None, None, None]\<rparr>"

abbreviation first_txn :: "int DictTxn" where
  "first_txn \<equiv> \<lparr>write_txn = empty_tables, claimed_ids = \<lparr>claim_state = None, claimer = Some counting_claimer\<rparr>,
     reset_state_on_conflict = None, pending_terms = [], pending_ids = []\<rparr>"

text \<open>A global table that delivers every batch of new rows.\<close>

definition new_rows :: "int \<Rightarrow> int DictTxn \<Rightarrow> GlobalBatch \<Rightarrow> bool" where
  "new_rows w txn b = rows_new {0..<w} txn (batch_rows b)"

lemma new_rows_ok: "delivers_new (\<lambda>w. {0..<w}) new_rows"
  by (simp add: delivers_new_def new_rows_def)

abbreviation tiny_steps where
  "tiny_steps \<equiv> dict_steps tiny_cache (\<lambda>w. 0 \<le> w) (\<lambda>w. {0..<w}) new_rows"

abbreviation tiny_start where
  "tiny_start \<equiv> dict_start tiny_cache (Some 1) (Some counting_claimer) 0"

lemma tiny_begin: "begin_txn (sys_dict tiny_start) = Inr first_txn"
  by (simp add: begin_txn_def builder_finish_def dictionary_try_new_def try_load_initial_claim_redb_def
      parse_claim_value_def empty_tables_def validate_initial_claim_def)

lemma tiny_opened: "tiny_steps tiny_start (tiny_start\<lparr>sys_txn := Some first_txn\<rparr>)"
  by (rule r_into_rtranclp, rule dict_step.open_txn) (simp_all add: tiny_begin [simplified])

lemma tiny_encoded:
  obtains txn' d' w' where "encode_arrays (encode_array tiny_cache) [two_terms] first_txn (sys_dict tiny_start) 0 = (Inr [[Some 0, None, Some 1]], txn', d', w')"
proof -
  have "fst (encode_arrays (encode_array tiny_cache) [two_terms] first_txn (sys_dict tiny_start) 0) = Inr [[Some 0, None, Some 1]]"
    by code_simp
  then show ?thesis using that by (metis prod.collapse)
qed

theorem encode_commit_resolve_witness:
  "\<exists>txn' d' w'. encode_arrays (encode_array tiny_cache) [two_terms] first_txn (sys_dict tiny_start) 0 = (Inr [[Some 0, None, Some 1]], txn', d', w') \<and>
     (\<exists>col'. fst (resolve_plain_terms tiny_cache [Some 0, None, Some 1] (commit_txn tiny_cache 1 txn' d')) = Some (Inr col') \<and>
        array_rows col' = array_rows two_terms \<and> decode_terms ref_literals col' = decode_terms ref_literals two_terms)"
proof -
  obtain txn' d' w' where e: "encode_arrays (encode_array tiny_cache) [two_terms] first_txn (sys_dict tiny_start) 0 =
      (Inr [[Some 0, None, Some 1]], txn', d', w')"
    by (rule tiny_encoded)
  have "list_all2 (\<lambda>col ids. \<exists>col'. fst (resolve_plain_terms tiny_cache ids
        (sys_dict \<lparr>sys_dict = commit_txn tiny_cache 1 txn' d', sys_txn = None, sys_world = w'\<rparr>)) = Some (Inr col') \<and>
      array_rows col' = array_rows col \<and> decode_terms ref_literals col' = decode_terms ref_literals col) [two_terms] [[Some 0, None, Some 1]]"
    by (rule encode_commit_resolve [OF tiny_cache_ok counting_claimer_ok _ new_rows_ok tiny_opened, where txn = first_txn and txn' = txn' and d' = d' and w' = w' and v = 1])
      (use e in simp_all)
  then show ?thesis using e by auto
qed

theorem dictionary_invariant_witness:
  "\<exists>s. tiny_steps tiny_start s \<and> sys_txn s = None \<and> table_map (db (sys_dict s)) (redb_row two_terms 0) = Some 0 \<and>
     map_of (id_to_term (db (sys_dict s))) 0 = Some (redb_row two_terms 0) \<and> (\<exists>txn. begin_txn (sys_dict s) = Inr txn)"
proof -
  let ?e = "encode_array tiny_cache two_terms first_txn (sys_dict tiny_start) 0"
  let ?s = "\<lparr>sys_dict = commit_txn tiny_cache 1 (fst (snd ?e)) (fst (snd (snd ?e))), sys_txn = None, sys_world = snd (snd (snd ?e))\<rparr>"
  have "dict_step tiny_cache (\<lambda>w. 0 \<le> w) (\<lambda>w. {0..<w}) new_rows (tiny_start\<lparr>sys_txn := Some first_txn\<rparr>)
      \<lparr>sys_dict = fst (snd (snd ?e)), sys_txn = Some (fst (snd ?e)), sys_world = snd (snd (snd ?e))\<rparr>"
    by (rule dict_step.encode [where txn = first_txn and a = two_terms and r = "fst ?e"]) simp_all
  moreover have "dict_step tiny_cache (\<lambda>w. 0 \<le> w) (\<lambda>w. {0..<w}) new_rows
      \<lparr>sys_dict = fst (snd (snd ?e)), sys_txn = Some (fst (snd ?e)), sys_world = snd (snd (snd ?e))\<rparr> ?s"
    using dict_step.commit [where txn = "fst (snd ?e)" and v = 1 and L = tiny_cache and
      s = "\<lparr>sys_dict = fst (snd (snd ?e)), sys_txn = Some (fst (snd ?e)), sys_world = snd (snd (snd ?e))\<rparr>"] by simp
  ultimately have steps: "tiny_steps tiny_start ?s" using tiny_opened by (meson rtranclp.rtrancl_into_rtrancl)
  have "table_map (db (sys_dict ?s)) (redb_row two_terms 0) = Some 0" by code_simp
  moreover have "(\<forall>t i. table_map (db (sys_dict ?s)) t = Some i \<longleftrightarrow> map_of (id_to_term (db (sys_dict ?s))) i = Some t) \<and>
      (\<exists>txn. begin_txn (sys_dict ?s) = Inr txn)"
    using dictionary_invariant [OF tiny_cache_ok counting_claimer_ok _ new_rows_ok steps] by simp
  ultimately show ?thesis using steps by (intro exI [of _ ?s]) simp
qed

end
