(* ===== verification/Object_Id_Stream.thy ===== *)
theory Object_Id_Stream
  imports Object_Id_Properties "HOL-Library.Multiset"
begin

text \<open>
  Encoding streams (\<open>objectids/encoding/{writer,stream}.rs\<close> and the write path of \<open>objectids/mapping.rs\<close> in
  \<open>lib/storage-deltalake\<close>). Several streams share one writer and encode their batches in its
  open transaction. When the transaction has enough new ids, or a stream needs its rows, one
  stream commits it to the Delta table, and then to the local dictionary, or finds that another
  node was faster, aborts, syncs and lets every stream of the transaction retry. The steps of any
  number of streams, of other nodes and of failing operations are interleaved by \<open>enc_step\<close>.
\<close>

section \<open>The shared writer\<close>

datatype TxnOutcome = Committed | Conflicted

text \<open>The watch channel of a transaction; its sender is known by the version of the transaction.\<close>

datatype Channel = Waiting | Sent TxnOutcome | SenderDropped

record 'w SharedWriterState =
  active_delta_version :: nat
  active_txn :: "'w DictTxn option"
  active_outcome_sender :: "nat option"
  outcome_receivers :: "nat \<rightharpoonup> Channel"

definition writer_new :: "nat \<Rightarrow> 'w SharedWriterState" where
  "writer_new v = \<lparr>active_delta_version = v, active_txn = None, active_outcome_sender = Some v, outcome_receivers = [v \<mapsto> Waiting]\<rparr>"

type_synonym batch = "PlainTermArray list"
type_synonym id_batch = "int option list list"

datatype StreamError = WriterErr string | DeltaErr string | BatchErr string | Panic string

datatype 'w EncodeSharedResult =
    Buffering id_batch nat
  | EncTriggeredCommit id_batch nat "'w DictTxn" nat
  | EncClosed TxnOutcome

datatype 'w ForceCommitResult =
    ForceTriggeredCommit nat "'w DictTxn" nat
  | ForceClosed TxnOutcome

text \<open>Waiting for an outcome; \<^term>\<open>None\<close> means that the call is blocked.\<close>

fun await_outcome :: "Channel \<Rightarrow> (StreamError, TxnOutcome) result option" where
  "await_outcome Waiting = None"
| "await_outcome (Sent oc) = Some (Inr oc)"
| "await_outcome SenderDropped = Some (Inl (WriterErr ''Sender dropped without outcome''))"

definition await_version :: "nat \<Rightarrow> 'w SharedWriterState \<Rightarrow> (StreamError, TxnOutcome) result option" where
  "await_version v wr =
     (case outcome_receivers wr v of
        Some ch \<Rightarrow> await_outcome ch
      | None \<Rightarrow> Some (Inl (WriterErr (''Unknown transaction id: '' @ show_nat v))))"

text \<open>The transaction is taken out and the next version becomes active.\<close>

definition next_version :: "'w SharedWriterState \<Rightarrow> 'w SharedWriterState" where
  "next_version wr =
     (let next_delta_version = active_delta_version wr + 1
      in wr\<lparr>active_delta_version := next_delta_version, active_txn := None, active_outcome_sender := Some next_delta_version,
           outcome_receivers := (outcome_receivers wr)(next_delta_version \<mapsto> Waiting)\<rparr>)"

text \<open>\<open>can_begin\<close>: the database has no open write transaction; opening one waits for that.\<close>

definition open_active ::
    "bool \<Rightarrow> 'w SharedWriterState \<Rightarrow> ('c, 'd, 'w) RedbDictionary \<Rightarrow> (LocalObjectIdError, 'w DictTxn) result option" where
  "open_active can_begin wr d =
     (case active_txn wr of Some txn \<Rightarrow> Some (Inr txn) | None \<Rightarrow> if can_begin then Some (begin_txn d) else None)"

definition encode_shared ::
    "('c, 'd) CacheLib \<Rightarrow> bool \<Rightarrow> nat \<Rightarrow> batch \<Rightarrow> nat \<Rightarrow> 'w SharedWriterState \<Rightarrow> ('c, 'd, 'w) RedbDictionary \<Rightarrow> 'w \<Rightarrow>
      ((StreamError, 'w EncodeSharedResult) result \<times> 'w SharedWriterState \<times> ('c, 'd, 'w) RedbDictionary \<times> 'w) option" where
  "encode_shared L can_begin v cols max_buffered_ids wr d w =
     (if v < active_delta_version wr then
        map_option (\<lambda>r. (map_ok EncClosed r, wr, d, w)) (await_version v wr)
      else if v = active_delta_version wr then
        (case open_active can_begin wr d of
           None \<Rightarrow> None
         | Some (Inl e) \<Rightarrow> Some (Inl (WriterErr ''Failed to create transaction''), wr, d, w)
         | Some (Inr txn) \<Rightarrow>
             (case encode_arrays (encode_array L) cols txn d w of
                (Inl e, txn', d', w') \<Rightarrow> Some (Inl (WriterErr ''Failed to encode array''), wr\<lparr>active_txn := Some txn'\<rparr>, d', w')
              | (Inr encoded, txn', d', w') \<Rightarrow>
                  if length (pending_ids txn') > max_buffered_ids then
                    (case active_outcome_sender wr of
                       Some sender \<Rightarrow> Some (Inr (EncTriggeredCommit encoded v txn' sender), next_version wr, d', w')
                     | None \<Rightarrow> Some (Inl (Panic ''unwrap''), wr\<lparr>active_txn := None\<rparr>, d', w'))
                  else Some (Inr (Buffering encoded v), wr\<lparr>active_txn := Some txn'\<rparr>, d', w')))
      else Some (Inl (WriterErr (''Intended delta version '' @ show_nat v @ '' is in the future'')), wr, d, w))"

definition force_commit ::
    "nat \<Rightarrow> 'w SharedWriterState \<Rightarrow> ((StreamError, 'w ForceCommitResult) result \<times> 'w SharedWriterState) option" where
  "force_commit v wr =
     (if v < active_delta_version wr then map_option (\<lambda>r. (map_ok ForceClosed r, wr)) (await_version v wr)
      else if v = active_delta_version wr then
        (case active_txn wr of
           Some txn \<Rightarrow>
             (case active_outcome_sender wr of
                Some sender \<Rightarrow> Some (Inr (ForceTriggeredCommit v txn sender), next_version wr)
              | None \<Rightarrow> Some (Inl (Panic ''unwrap''), wr\<lparr>active_txn := None\<rparr>))
         | None \<Rightarrow> Some (Inr (ForceClosed Committed), wr))
      else Some (Inl (WriterErr (''Intended delta version '' @ show_nat v @ '' is in the future'')), wr))"

definition drop_sender :: "nat \<Rightarrow> 'w SharedWriterState \<Rightarrow> 'w SharedWriterState" where
  "drop_sender v wr = (if outcome_receivers wr v = Some Waiting
     then wr\<lparr>outcome_receivers := (outcome_receivers wr)(v \<mapsto> SenderDropped)\<rparr> else wr)"

definition send_outcome :: "TxnOutcome \<Rightarrow> nat \<Rightarrow> 'w SharedWriterState \<Rightarrow> 'w SharedWriterState" where
  "send_outcome oc v wr = wr\<lparr>outcome_receivers := (outcome_receivers wr)(v \<mapsto> Sent oc)\<rparr>"

text \<open>Replacing the active sender drops it.\<close>

definition sync_active_version :: "nat \<Rightarrow> 'w SharedWriterState \<Rightarrow> 'w SharedWriterState" where
  "sync_active_version new_version wr =
     (if new_version > active_delta_version wr then
        (let wr = (case active_outcome_sender wr of Some v \<Rightarrow> drop_sender v wr | None \<Rightarrow> wr)
         in wr\<lparr>active_delta_version := new_version, active_outcome_sender := Some new_version,
              outcome_receivers := (outcome_receivers wr)(new_version \<mapsto> Waiting)\<rparr>)
      else wr)"

section \<open>The streams\<close>

datatype 'w EncoderStreamState =
    AwaitingInitialVersion
  | ReadyToProcess
  | AwaitingEncoding batch nat
  | AwaitingForceCommit nat
  | AwaitingDictionaryDeltaCommit "'w DictTxn" nat
  | AwaitingLocalDictionaryUpdate nat
  | UpdatingLocalDictionary nat
  | ReadingDeltaVersion nat
  | SyncingActiveVersion nat nat
  | Done
  | Failed StreamError

text \<open>The three states after \<open>AwaitingLocalDictionaryUpdate\<close> are the parts of its future: the update that holds the lock of the
  table, reading the version of the table, and moving the writer to the version after it. \<open>Failed\<close> is a stream whose future
  returned an error: it must not be polled again (a completed future panics), so it is dropped with the sender it has. Items
  of the input are batches or errors.\<close>

record 'w EncodingStream =
  stream_input :: "(string, batch) result list"
  retry_queue :: "batch list"
  active_txn_raw_batches :: "batch list"
  active_txn_encoded_batches :: "id_batch list"
  ready_to_yield_batches :: "id_batch list"
  intended_delta_version :: nat
  max_buffered_rows :: nat
  max_buffered_ids :: nat
  stream_state :: "'w EncoderStreamState"
  is_exhausted :: bool

definition encoding_stream_new :: "(string, batch) result list \<Rightarrow> nat \<Rightarrow> nat \<Rightarrow> 'w EncodingStream" where
  "encoding_stream_new inp rows ids = \<lparr>stream_input = inp, retry_queue = [], active_txn_raw_batches = [], active_txn_encoded_batches = [],
     ready_to_yield_batches = [], intended_delta_version = 0, max_buffered_rows = rows, max_buffered_ids = ids,
     stream_state = AwaitingInitialVersion, is_exhausted = False\<rparr>"

definition num_rows :: "id_batch \<Rightarrow> nat" where
  "num_rows b = (case b of c # _ \<Rightarrow> length c | [] \<Rightarrow> 0)"

text \<open>\<open>RecordBatch::try_new\<close> wants at least one column and columns of one length.\<close>

definition batch_try_new :: "id_batch \<Rightarrow> (StreamError, id_batch) result" where
  "batch_try_new cols =
     (if cols \<noteq> [] \<and> list_all (\<lambda>c. length c = num_rows cols) cols then Inr cols else Inl (BatchErr ''Batch creation failed''))"

definition should_force_commit :: "'w EncodingStream \<Rightarrow> bool" where
  "should_force_commit st =
     (let pending_rows = sum_list (map num_rows (active_txn_encoded_batches st));
          is_input_empty = is_exhausted st \<and> retry_queue st = [];
          reached_row_limit = pending_rows \<ge> max_buffered_rows st
      in (is_input_empty \<or> reached_row_limit) \<and> pending_rows > 0)"

definition handle_successful_commit :: "'w EncodingStream \<Rightarrow> 'w EncodingStream" where
  "handle_successful_commit st =
     st\<lparr>ready_to_yield_batches := ready_to_yield_batches st @ active_txn_encoded_batches st, active_txn_encoded_batches := [],
       active_txn_raw_batches := [], intended_delta_version := intended_delta_version st + 1,
       stream_state := (if is_exhausted st \<and> retry_queue st = [] then Done else ReadyToProcess)\<rparr>"

definition handle_conflict :: "nat \<Rightarrow> 'w EncodingStream \<Rightarrow> 'w EncodingStream" where
  "handle_conflict v st =
     st\<lparr>retry_queue := retry_queue st @ active_txn_raw_batches st, active_txn_raw_batches := [], active_txn_encoded_batches := [],
       intended_delta_version := v, stream_state := ReadyToProcess\<rparr>"

definition fail :: "StreamError \<Rightarrow> 'w EncodingStream \<Rightarrow> 'w EncodingStream" where
  "fail e st = st\<lparr>stream_state := Failed e\<rparr>"

text \<open>The state \<open>ReadyToProcess\<close>: a batch to retry, a forced commit, the end, or the next item of the input. An error of the
  input goes to the caller and the stream stays ready.\<close>

definition start_encoding :: "batch \<Rightarrow> 'w EncodingStream \<Rightarrow> 'w EncodingStream" where
  "start_encoding b st = st\<lparr>active_txn_raw_batches := active_txn_raw_batches st @ [b],
     stream_state := AwaitingEncoding b (intended_delta_version st)\<rparr>"

definition process :: "'w EncodingStream \<Rightarrow> 'w EncodingStream" where
  "process st =
     (case retry_queue st of
        b # bs \<Rightarrow> start_encoding b (st\<lparr>retry_queue := bs\<rparr>)
      | [] \<Rightarrow>
          if should_force_commit st then st\<lparr>stream_state := AwaitingForceCommit (intended_delta_version st)\<rparr>
          else if is_exhausted st then st\<lparr>stream_state := Done\<rparr>
          else
            (case stream_input st of
               Inr b # bs \<Rightarrow> start_encoding b (st\<lparr>stream_input := bs\<rparr>)
             | Inl e # bs \<Rightarrow> st\<lparr>stream_input := bs\<rparr>
             | [] \<Rightarrow> st\<lparr>is_exhausted := True\<rparr>))"

text \<open>The result of an encoding, and the sender that is dropped with a failing stream.\<close>

definition push_encoded :: "id_batch \<Rightarrow> 'w EncodingStream \<Rightarrow> 'w EncodingStream" where
  "push_encoded b st = st\<lparr>active_txn_encoded_batches := active_txn_encoded_batches st @ [b]\<rparr>"

definition after_encoding ::
    "(StreamError, 'w EncodeSharedResult) result \<Rightarrow> 'w EncodingStream \<Rightarrow> 'w EncodingStream \<times> nat option" where
  "after_encoding r st =
     (case r of
        Inl e \<Rightarrow> (fail e st, None)
      | Inr (Buffering encoded _) \<Rightarrow>
          (case batch_try_new encoded of
             Inl e \<Rightarrow> (fail e st, None)
           | Inr b \<Rightarrow> (push_encoded b st\<lparr>stream_state := ReadyToProcess\<rparr>, None))
      | Inr (EncTriggeredCommit encoded _ txn sender) \<Rightarrow>
          (case batch_try_new encoded of
             Inl e \<Rightarrow> (fail e st, Some sender)
           | Inr b \<Rightarrow> (push_encoded b st\<lparr>stream_state := AwaitingDictionaryDeltaCommit txn sender\<rparr>, None))
      | Inr (EncClosed Committed) \<Rightarrow>
          (handle_successful_commit
             (st\<lparr>active_txn_raw_batches := butlast (active_txn_raw_batches st),
                retry_queue := last (active_txn_raw_batches st) # retry_queue st\<rparr>), None)
      | Inr (EncClosed Conflicted) \<Rightarrow> (handle_conflict (intended_delta_version st + 1) st, None))"

definition after_force_commit :: "(StreamError, 'w ForceCommitResult) result \<Rightarrow> 'w EncodingStream \<Rightarrow> 'w EncodingStream" where
  "after_force_commit r st =
     (case r of
        Inl e \<Rightarrow> fail e st
      | Inr (ForceTriggeredCommit _ txn sender) \<Rightarrow> st\<lparr>stream_state := AwaitingDictionaryDeltaCommit txn sender\<rparr>
      | Inr (ForceClosed Committed) \<Rightarrow> handle_successful_commit st
      | Inr (ForceClosed Conflicted) \<Rightarrow> handle_conflict (intended_delta_version st + 1) st)"

section \<open>Syncing the local dictionary\<close>

text \<open>One transaction of the Delta log is the list of the batches in its added files.\<close>

fun add_batches :: "GlobalBatch list \<Rightarrow> 'w DictTxn \<Rightarrow> (LocalObjectIdError, 'w DictTxn) result" where
  "add_batches [] txn = Inr txn"
| "add_batches (b # bs) txn = and_then (add_global_batch b txn) (add_batches bs)"

text \<open>Each transaction of the log is one transaction of the dictionary; an error keeps those before it.\<close>

fun sync_incrementally ::
    "('c, 'd) CacheLib \<Rightarrow> nat \<Rightarrow> GlobalBatch list list \<Rightarrow> ('c, 'd, 'w) RedbDictionary \<Rightarrow> (LocalObjectIdError, unit) result \<times> ('c, 'd, 'w) RedbDictionary" where
  "sync_incrementally L v [] d = (Inr (), d)"
| "sync_incrementally L v (tx # txs) d =
     (case and_then (begin_txn d) (add_batches tx) of
        Inl e \<Rightarrow> (Inl e, d)
      | Inr txn \<Rightarrow> sync_incrementally L (v + 1) txs (commit_txn L v txn d))"

text \<open>\<open>table_version\<close> is the version of the loaded table, \<open>log\<close> the transactions up to it. \<^term>\<open>None\<close>: the update is
  blocked by an open write transaction.\<close>

definition update_local_dictionary ::
    "('c, 'd) CacheLib \<Rightarrow> bool \<Rightarrow> GlobalBatch list list \<Rightarrow> ('c, 'd, 'w) RedbDictionary \<Rightarrow>
      ((StreamError, unit) result \<times> ('c, 'd, 'w) RedbDictionary) option" where
  "update_local_dictionary L can_begin log d =
     (case get_synced_version d of
        Inl e \<Rightarrow> Some (Inl (DeltaErr ''Storage error''), d)
      | Inr sv \<Rightarrow>
          (let local_version = unwrap_or sv 0; table_version = length log in
           if local_version = table_version then Some (Inr (), d)
           else if local_version > table_version then
             Some (Inl (DeltaErr ''The local dictionary has a higher version than the global dictionary''), d)
           else if can_begin then
             Some (case sync_incrementally L (local_version + 1) (drop local_version log) d of
                     (Inl e, d') \<Rightarrow> (Inl (DeltaErr ''Storage error''), d')
                   | (Inr _, d') \<Rightarrow> (Inr (), d'))
           else None))"

text \<open>The batch of pending ids that a commit appends to the Delta table.\<close>

definition pending_batch :: "'w DictTxn \<Rightarrow> GlobalBatch" where
  "pending_batch txn =
     \<lparr>gb_ids = Some (map fst (pending_ids txn)),
      gb_terms = Some (Some (fold (\<lambda>p. append_redb_term (redb_from_local (snd p))) (pending_ids txn) builder_new))\<rparr>"

section \<open>Interleaving\<close>

record ('c, 'd, 'w) EncSystem =
  es_dict :: "('c, 'd, 'w) RedbDictionary"
  es_world :: 'w
  es_writer :: "'w SharedWriterState"
  es_streams :: "nat \<Rightarrow> 'w EncodingStream"
  es_output :: "nat \<Rightarrow> id_batch list"
  es_table_lock :: "nat option"
  es_table_version :: nat
  es_log :: "GlobalBatch list list"

fun holds_txn :: "'w EncoderStreamState \<Rightarrow> bool" where
  "holds_txn (AwaitingDictionaryDeltaCommit txn v) = True"
| "holds_txn _ = False"

text \<open>The database allows one write transaction at a time.\<close>

definition redb_free :: "('c, 'd, 'w) EncSystem \<Rightarrow> bool" where
  "redb_free s \<longleftrightarrow> active_txn (es_writer s) = None \<and> (\<forall>i. \<not> holds_txn (stream_state (es_streams s i)))"

abbreviation at_state :: "('c, 'd, 'w) EncSystem \<Rightarrow> nat \<Rightarrow> 'w EncoderStreamState \<Rightarrow> bool" where
  "at_state s i q \<equiv> ready_to_yield_batches (es_streams s i) = [] \<and> stream_state (es_streams s i) = q"

abbreviation set_stream :: "nat \<Rightarrow> 'w EncodingStream \<Rightarrow> ('c, 'd, 'w) EncSystem \<Rightarrow> ('c, 'd, 'w) EncSystem" where
  "set_stream i st s \<equiv> s\<lparr>es_streams := (es_streams s)(i := st)\<rparr>"

definition opt_drop :: "nat option \<Rightarrow> 'w SharedWriterState \<Rightarrow> 'w SharedWriterState" where
  "opt_drop v wr = (case v of Some u \<Rightarrow> drop_sender u wr | None \<Rightarrow> wr)"

text \<open>Whether the pairs that a sync brings are new to the local dictionary. The code does not check it: \<open>add_global_batch\<close> writes
  every pair it is given.\<close>

fun batches_new :: "int set \<Rightarrow> GlobalBatch list \<Rightarrow> 'w DictTxn \<Rightarrow> bool" where
  "batches_new taken [] txn = True"
| "batches_new taken (b # bs) txn = (rows_new taken txn (batch_rows b) \<and>
     (case add_global_batch b txn of Inl e \<Rightarrow> True | Inr txn' \<Rightarrow> batches_new taken bs txn'))"

fun sync_new :: "('c, 'd) CacheLib \<Rightarrow> int set \<Rightarrow> nat \<Rightarrow> GlobalBatch list list \<Rightarrow> ('c, 'd, 'w) RedbDictionary \<Rightarrow> bool" where
  "sync_new L taken v [] d = True"
| "sync_new L taken v (tx # txs) d =
     (case begin_txn d of
        Inl e \<Rightarrow> True
      | Inr txn \<Rightarrow> batches_new taken tx txn \<and>
          (case add_batches tx txn of Inl e \<Rightarrow> True | Inr txn' \<Rightarrow> sync_new L taken (v + 1) txs (commit_txn L v txn' d)))"

definition synced_version :: "('c, 'd, 'w) RedbDictionary \<Rightarrow> nat" where
  "synced_version d = (case get_synced_version d of Inr (Some v) \<Rightarrow> v | _ \<Rightarrow> 0)"

text \<open>A commit writes the pending ids to the Delta table and then, with the version that the table has by then, to the local
  dictionary: other nodes, and a failing update that loads the table, may come between the two (\<open>commit_delta\<close>), and the
  second may fail after the first (\<open>commit_error\<close>). An update syncs the versions of the table one by one; each of them is a
  transaction of its own (\<open>update_version\<close>), and \<open>update_sync\<close> is the rest of the update. The lock of the table is free again
  before the version of the table is read.\<close>

inductive enc_step ::
    "('c, 'd) CacheLib \<Rightarrow> ('w \<Rightarrow> bool) \<Rightarrow> ('w \<Rightarrow> int set) \<Rightarrow> ('c, 'd, 'w) EncSystem \<Rightarrow> ('c, 'd, 'w) EncSystem \<Rightarrow> bool"
  for L :: "('c, 'd) CacheLib" and P :: "'w \<Rightarrow> bool" and taken :: "'w \<Rightarrow> int set" where
  yield_batch: "ready_to_yield_batches (es_streams s i) = b # bs \<Longrightarrow>
    enc_step L P taken s (set_stream i (es_streams s i\<lparr>ready_to_yield_batches := bs\<rparr>) s\<lparr>es_output := (es_output s)(i := es_output s i @ [b])\<rparr>)"
| initial: "at_state s i AwaitingInitialVersion \<Longrightarrow>
    enc_step L P taken s (set_stream i (es_streams s i\<lparr>intended_delta_version := active_delta_version (es_writer s), stream_state := ReadyToProcess\<rparr>) s)"
| ready: "at_state s i ReadyToProcess \<Longrightarrow> enc_step L P taken s (set_stream i (process (es_streams s i)) s)"
| encoding: "at_state s i (AwaitingEncoding b v) \<Longrightarrow>
    encode_shared L (redb_free s) v b (max_buffered_ids (es_streams s i)) (es_writer s) (es_dict s) (es_world s) = Some (r, wr, d, w) \<Longrightarrow>
    after_encoding r (es_streams s i) = (st, dropped) \<Longrightarrow>
    enc_step L P taken s (set_stream i st s\<lparr>es_dict := d, es_world := w, es_writer := opt_drop dropped wr\<rparr>)"
| forcing: "at_state s i (AwaitingForceCommit v) \<Longrightarrow> force_commit v (es_writer s) = Some (r, wr) \<Longrightarrow>
    enc_step L P taken s (set_stream i (after_force_commit r (es_streams s i)) s\<lparr>es_writer := wr\<rparr>)"
| commit_nothing: "at_state s i (AwaitingDictionaryDeltaCommit txn v) \<Longrightarrow> es_table_lock s = None \<Longrightarrow> pending_ids txn = [] \<Longrightarrow>
    enc_step L P taken s (set_stream i (handle_successful_commit (es_streams s i)) s
      \<lparr>es_dict := commit_txn L (es_table_version s) txn (es_dict s), es_writer := send_outcome Committed v (es_writer s)\<rparr>)"
| commit_delta: "at_state s i (AwaitingDictionaryDeltaCommit txn v) \<Longrightarrow> es_table_lock s = None \<Longrightarrow> pending_ids txn \<noteq> [] \<Longrightarrow>
    es_table_version s = length (es_log s) \<Longrightarrow> log = es_log s @ [[pending_batch txn]] @ others_txs \<Longrightarrow>
    es_table_version s < delta_version \<Longrightarrow> delta_version \<le> length log \<Longrightarrow>
    enc_step L P taken s (set_stream i (handle_successful_commit (es_streams s i)) s
      \<lparr>es_log := log, es_table_version := delta_version,
       es_dict := commit_txn L delta_version txn (es_dict s), es_writer := send_outcome Committed v (es_writer s)\<rparr>)"
| commit_conflict: "at_state s i (AwaitingDictionaryDeltaCommit txn v) \<Longrightarrow> es_table_lock s = None \<Longrightarrow> pending_ids txn \<noteq> [] \<Longrightarrow>
    es_table_version s \<noteq> length (es_log s) \<Longrightarrow>
    enc_step L P taken s (set_stream i (es_streams s i\<lparr>stream_state := AwaitingLocalDictionaryUpdate v\<rparr>) s
      \<lparr>es_dict := abort_txn txn (es_dict s)\<rparr>)"
| commit_error: "at_state s i (AwaitingDictionaryDeltaCommit txn v) \<Longrightarrow>
    es_table_version s = length (es_log s) \<and> logged = [[pending_batch txn]] \<or> logged = [] \<Longrightarrow>
    enc_step L P taken s (set_stream i (fail (DeltaErr ''Delta error'') (es_streams s i)) s
      \<lparr>es_log := es_log s @ logged, es_table_version := es_table_version s + length logged, es_writer := drop_sender v (es_writer s)\<rparr>)"
| update_lock: "at_state s i (AwaitingLocalDictionaryUpdate v) \<Longrightarrow> es_table_lock s = None \<Longrightarrow>
    enc_step L P taken s (set_stream i (es_streams s i\<lparr>stream_state := UpdatingLocalDictionary v\<rparr>) s
      \<lparr>es_table_lock := Some i, es_table_version := length (es_log s)\<rparr>)"
| load_error: "at_state s i (AwaitingLocalDictionaryUpdate v) \<Longrightarrow>
    enc_step L P taken s (set_stream i (fail (DeltaErr ''Delta error'') (es_streams s i)) s\<lparr>es_writer := drop_sender v (es_writer s)\<rparr>)"
| update_version: "at_state s i (UpdatingLocalDictionary v) \<Longrightarrow> sv = synced_version (es_dict s) \<Longrightarrow> sv < es_table_version s \<Longrightarrow>
    redb_free s \<Longrightarrow> sync_incrementally L (sv + 1) (take 1 (drop sv (es_log s))) (es_dict s) = (Inr (), d) \<Longrightarrow>
    enc_step L P taken s (s\<lparr>es_dict := d\<rparr>)"
| update_sync: "at_state s i (UpdatingLocalDictionary v) \<Longrightarrow>
    update_local_dictionary L (redb_free s) (take (es_table_version s) (es_log s)) (es_dict s) = Some (Inr (), d) \<Longrightarrow>
    enc_step L P taken s (set_stream i (es_streams s i\<lparr>stream_state := ReadingDeltaVersion v\<rparr>) s
      \<lparr>es_table_lock := None, es_dict := d\<rparr>)"
| update_error: "at_state s i (UpdatingLocalDictionary v) \<Longrightarrow> txs = take k (drop (synced_version (es_dict s)) (es_log s)) \<Longrightarrow>
    txs \<noteq> [] \<longrightarrow> redb_free s \<Longrightarrow> sync_incrementally L (synced_version (es_dict s) + 1) txs (es_dict s) = (r, d) \<Longrightarrow>
    enc_step L P taken s (set_stream i (fail (DeltaErr ''Delta error'') (es_streams s i)) s
      \<lparr>es_table_lock := None, es_dict := d, es_writer := drop_sender v (es_writer s)\<rparr>)"
| read_version: "at_state s i (ReadingDeltaVersion v) \<Longrightarrow> es_table_lock s = None \<Longrightarrow>
    enc_step L P taken s (set_stream i (es_streams s i\<lparr>stream_state := SyncingActiveVersion v (es_table_version s + 1)\<rparr>) s)"
| sync_version: "at_state s i (SyncingActiveVersion v new_version) \<Longrightarrow>
    enc_step L P taken s (set_stream i (handle_conflict new_version (es_streams s i)) s
      \<lparr>es_writer := send_outcome Conflicted v (sync_active_version new_version (es_writer s))\<rparr>)"
| foreign_commit: "enc_step L P taken s (s\<lparr>es_log := es_log s @ [tx]\<rparr>)"
| others: "P w' \<Longrightarrow> taken (es_world s) \<subseteq> taken w' \<Longrightarrow> enc_step L P taken s (s\<lparr>es_world := w'\<rparr>)"

text \<open>Every pair that an update in the state \<open>s\<close> may read from the table is new to the local dictionary. A commit that reaches
  the Delta table and then fails locally breaks it (\<open>lost_commit_reuses_ids\<close>).\<close>

definition syncs_new :: "('c, 'd) CacheLib \<Rightarrow> ('w \<Rightarrow> int set) \<Rightarrow> ('c, 'd, 'w) EncSystem \<Rightarrow> bool" where
  "syncs_new L taken s \<longleftrightarrow>
     (\<forall>i v k. stream_state (es_streams s i) = UpdatingLocalDictionary v \<longrightarrow>
        sync_new L (taken (es_world s)) (synced_version (es_dict s) + 1) (take k (drop (synced_version (es_dict s)) (es_log s))) (es_dict s))"

definition enc_start ::
    "('c, 'd, 'w) RedbDictionary \<Rightarrow> 'w \<Rightarrow> (nat \<Rightarrow> (string, batch) result list \<times> nat \<times> nat) \<Rightarrow> GlobalBatch list list \<Rightarrow> ('c, 'd, 'w) EncSystem" where
  "enc_start d w inputs log = \<lparr>es_dict = d, es_world = w, es_writer = writer_new (length log + 1),
     es_streams = (\<lambda>i. case inputs i of (inp, rows, ids) \<Rightarrow> encoding_stream_new inp rows ids), es_output = (\<lambda>_. []),
     es_table_lock = None, es_table_version = length log, es_log = log\<rparr>"

end
