(* ===== verification/Object_Id_Stream_Invariant.thy ===== *)
theory Object_Id_Stream_Invariant
  imports Object_Id_Stream
begin

text \<open>
  The invariant of the encoding streams: which batches a stream still has to encode, which it has
  encoded in which transaction, and that everything it has given out is encoded with committed
  ids.
\<close>

section \<open>Valid encodings\<close>

definition enc :: "(RedbTerm \<rightharpoonup> int) \<Rightarrow> batch \<Rightarrow> id_batch \<Rightarrow> bool" where
  "enc m b e \<longleftrightarrow> list_all2 (redb.encoded_as m) b e"

definition same_shape :: "batch \<Rightarrow> id_batch \<Rightarrow> bool" where
  "same_shape b e \<longleftrightarrow> list_all2 (\<lambda>col ids. length ids = length (array_rows col)) b e \<and> list_all (\<lambda>c. length c = num_rows e) e"

lemma enc_mono: "enc m b e \<Longrightarrow> m \<subseteq>\<^sub>m m' \<Longrightarrow> enc m' b e"
  unfolding enc_def by (erule list_all2_mono) (erule redb.encoded_as_mono)

lemma encs_mono: "list_all2 (enc m) bs es \<Longrightarrow> m \<subseteq>\<^sub>m m' \<Longrightarrow> list_all2 (enc m') bs es"
  by (erule list_all2_mono) (erule enc_mono)

lemma enc_shape: "enc m b e \<Longrightarrow> batch_try_new e = Inr e' \<Longrightarrow> e' = e \<and> same_shape b e"
  by (auto simp: batch_try_new_def same_shape_def enc_def redb.encoded_as_def split: if_splits elim: list_all2_mono)

section \<open>The invariant\<close>

fun sender_of :: "'w EncoderStreamState \<Rightarrow> nat option" where
  "sender_of (AwaitingDictionaryDeltaCommit txn v) = Some v"
| "sender_of (AwaitingLocalDictionaryUpdate v) = Some v"
| "sender_of (UpdatingLocalDictionary v) = Some v"
| "sender_of (ReadingDeltaVersion v) = Some v"
| "sender_of (SyncingActiveVersion v n) = Some v"
| "sender_of _ = None"

text \<open>The states of a stream that lost its transaction and updates the dictionary.\<close>

fun updating :: "'w EncoderStreamState \<Rightarrow> nat option" where
  "updating (AwaitingLocalDictionaryUpdate v) = Some v"
| "updating (UpdatingLocalDictionary v) = Some v"
| "updating (ReadingDeltaVersion v) = Some v"
| "updating (SyncingActiveVersion v n) = Some v"
| "updating _ = None"

fun alive :: "'w EncoderStreamState \<Rightarrow> bool" where
  "alive (Failed e) = False"
| "alive _ = True"

text \<open>The raw batches that belong to the encoded ones: all but the one that is being encoded.\<close>

definition finished_raw :: "'w EncodingStream \<Rightarrow> batch list" where
  "finished_raw st = (case stream_state st of AwaitingEncoding b v \<Rightarrow> butlast (active_txn_raw_batches st) | _ \<Rightarrow> active_txn_raw_batches st)"

definition local_inv :: "'w EncodingStream \<Rightarrow> bool" where
  "local_inv st \<longleftrightarrow>
     (case stream_state st of
        AwaitingInitialVersion \<Rightarrow> active_txn_raw_batches st = [] \<and> active_txn_encoded_batches st = []
      | AwaitingEncoding b v \<Rightarrow> v = intended_delta_version st \<and> active_txn_raw_batches st \<noteq> [] \<and> last (active_txn_raw_batches st) = b
      | AwaitingForceCommit v \<Rightarrow> v = intended_delta_version st \<and> active_txn_encoded_batches st \<noteq> []
      | AwaitingDictionaryDeltaCommit txn v \<Rightarrow> v = intended_delta_version st
      | Done \<Rightarrow> is_exhausted st \<and> retry_queue st = [] \<and> sum_list (map num_rows (active_txn_encoded_batches st)) = 0
      | _ \<Rightarrow> True) \<and>
     list_all2 same_shape (finished_raw st) (active_txn_encoded_batches st) \<and> (is_exhausted st \<longrightarrow> stream_input st = [])"

text \<open>The id map in which the batches that were encoded for version \<open>u\<close> have to be valid.\<close>

definition version_map :: "('c, 'd, 'w) EncSystem \<Rightarrow> nat \<Rightarrow> (RedbTerm \<rightharpoonup> int) \<Rightarrow> bool" where
  "version_map s u m \<longleftrightarrow>
     u = active_delta_version (es_writer s) \<and> (\<exists>t. active_txn (es_writer s) = Some t \<and> m = known t) \<or>
     u < active_delta_version (es_writer s) \<and> outcome_receivers (es_writer s) u = Some (Sent Committed) \<and> m = table_map (db (es_dict s)) \<or>
     (\<exists>j txn. stream_state (es_streams s j) = AwaitingDictionaryDeltaCommit txn u \<and> m = known txn)"

definition context_inv :: "('c, 'd, 'w) EncSystem \<Rightarrow> 'w EncodingStream \<Rightarrow> bool" where
  "context_inv s st \<longleftrightarrow>
     (stream_state st \<noteq> AwaitingInitialVersion \<longrightarrow> intended_delta_version st \<le> active_delta_version (es_writer s)) \<and>
     (active_txn_encoded_batches st \<noteq> [] \<and> intended_delta_version st = active_delta_version (es_writer s) \<longrightarrow> active_txn (es_writer s) \<noteq> None) \<and>
     (\<forall>m. version_map s (intended_delta_version st) m \<longrightarrow> list_all2 (enc m) (finished_raw st) (active_txn_encoded_batches st))"

definition oks :: "('e + 'a) list \<Rightarrow> 'a list" where
  "oks xs = List.map_filter (\<lambda>x. case x of Inl _ \<Rightarrow> None | Inr y \<Rightarrow> Some y) xs"

definition account_inv :: "(RedbTerm \<rightharpoonup> int) \<Rightarrow> (string, batch) result list \<Rightarrow> 'w EncodingStream \<Rightarrow> id_batch list \<Rightarrow> bool" where
  "account_inv m inp st out \<longleftrightarrow>
     (\<exists>src. mset src + mset (retry_queue st) + mset (active_txn_raw_batches st) + mset (oks (stream_input st)) = mset (oks inp) \<and>
        list_all2 (enc m) src (out @ ready_to_yield_batches st))"

text \<open>The shared state: the dictionary, the one open transaction, and the one sender of every waiting channel.\<close>

definition shared_inv ::
    "('c, 'd) CacheLib \<Rightarrow> ('c \<Rightarrow> (int \<times> LocalDictionaryTerm) set) \<Rightarrow> ('d \<Rightarrow> (LocalDictionaryTerm \<times> int) set) \<Rightarrow> ('w \<Rightarrow> bool) \<Rightarrow> ('w \<Rightarrow> int set) \<Rightarrow>
      ('c, 'd, 'w) EncSystem \<Rightarrow> bool" where
  "shared_inv L hi ht P taken s \<longleftrightarrow>
     redb_inv L hi ht P taken (es_dict s) (es_world s) \<and>
     active_outcome_sender (es_writer s) = Some (active_delta_version (es_writer s)) \<and>
     outcome_receivers (es_writer s) (active_delta_version (es_writer s)) = Some Waiting \<and>
     (\<forall>t. active_txn (es_writer s) = Some t \<longrightarrow>
        txn_inv (taken (es_world s)) (es_dict s) t \<and> (\<forall>i. \<not> holds_txn (stream_state (es_streams s i)))) \<and>
     (\<forall>i txn v. stream_state (es_streams s i) = AwaitingDictionaryDeltaCommit txn v \<longrightarrow> txn_inv (taken (es_world s)) (es_dict s) txn) \<and>
     (\<forall>i j. holds_txn (stream_state (es_streams s i)) \<and> holds_txn (stream_state (es_streams s j)) \<longrightarrow> i = j) \<and>
     (\<forall>i v. sender_of (stream_state (es_streams s i)) = Some v \<longrightarrow>
        v < active_delta_version (es_writer s) \<and> outcome_receivers (es_writer s) v = Some Waiting) \<and>
     (\<forall>i j v. sender_of (stream_state (es_streams s i)) = Some v \<and> sender_of (stream_state (es_streams s j)) = Some v \<longrightarrow> i = j)"

definition enc_inv ::
    "('c, 'd) CacheLib \<Rightarrow> ('c \<Rightarrow> (int \<times> LocalDictionaryTerm) set) \<Rightarrow> ('d \<Rightarrow> (LocalDictionaryTerm \<times> int) set) \<Rightarrow> ('w \<Rightarrow> bool) \<Rightarrow> ('w \<Rightarrow> int set) \<Rightarrow>
      (nat \<Rightarrow> (string, batch) result list) \<Rightarrow> ('c, 'd, 'w) EncSystem \<Rightarrow> bool" where
  "enc_inv L hi ht P taken inp s \<longleftrightarrow> shared_inv L hi ht P taken s \<and>
     (\<forall>i. (alive (stream_state (es_streams s i)) \<longrightarrow> local_inv (es_streams s i) \<and> context_inv s (es_streams s i)) \<and>
       account_inv (table_map (db (es_dict s))) (inp i) (es_streams s i) (es_output s i))"

text \<open>A step of stream \<open>i\<close> that keeps or extends the id maps of all versions in use keeps the invariant of the other streams.\<close>

definition maps_extend :: "('c, 'd, 'w) EncSystem \<Rightarrow> ('c, 'd, 'w) EncSystem \<Rightarrow> bool" where
  "maps_extend s s' \<longleftrightarrow>
     table_map (db (es_dict s)) \<subseteq>\<^sub>m table_map (db (es_dict s')) \<and>
     active_delta_version (es_writer s) \<le> active_delta_version (es_writer s') \<and>
     (active_delta_version (es_writer s) = active_delta_version (es_writer s') \<and> active_txn (es_writer s) \<noteq> None \<longrightarrow> active_txn (es_writer s') \<noteq> None) \<and>
     (\<forall>u m'. version_map s' u m' \<longrightarrow> (\<exists>m. version_map s u m \<and> m \<subseteq>\<^sub>m m') \<or>
        u = active_delta_version (es_writer s) \<and> active_txn (es_writer s) = None \<or> active_delta_version (es_writer s) < u)"

lemma maps_extend_sub:
  assumes "table_map (db (es_dict s)) \<subseteq>\<^sub>m table_map (db (es_dict s'))" "active_delta_version (es_writer s) \<le> active_delta_version (es_writer s')"
    "active_delta_version (es_writer s) = active_delta_version (es_writer s') \<and> active_txn (es_writer s) \<noteq> None \<longrightarrow> active_txn (es_writer s') \<noteq> None"
    and vm: "\<And>u m'. version_map s' u m' \<Longrightarrow> \<exists>m. version_map s u m \<and> m \<subseteq>\<^sub>m m'"
  shows "maps_extend s s'"
  unfolding maps_extend_def using assms(1-3) vm by blast

lemma context_inv_extend:
  assumes ext: "maps_extend s s'" and st: "local_inv st" "context_inv s st" "alive (stream_state st)"
  shows "context_inv s' st"
proof -
  let ?a = "active_delta_version (es_writer s)" and ?u = "intended_delta_version st"
  have init: "finished_raw st = [] \<and> active_txn_encoded_batches st = []" if "stream_state st = AwaitingInitialVersion"
    using st(1) that by (simp add: local_inv_def finished_raw_def)
  have len: "length (finished_raw st) = length (active_txn_encoded_batches st)"
    using st(1) by (auto simp: local_inv_def dest: list_all2_lengthD)
  have le: "stream_state st \<noteq> AwaitingInitialVersion \<Longrightarrow> ?u \<le> ?a" using st(2) by (simp add: context_inv_def)
  have 1: "?a \<le> active_delta_version (es_writer s')" using ext by (simp add: maps_extend_def)
  have 2: "active_txn (es_writer s') \<noteq> None" if "active_txn_encoded_batches st \<noteq> []" "?u = active_delta_version (es_writer s')"
  proof -
    have "?u \<le> ?a" using le init that(1) by blast
    then have "?u = ?a" "?a = active_delta_version (es_writer s')" using 1 that(2) by auto
    then show ?thesis using st(2) that(1) ext by (simp add: context_inv_def maps_extend_def)
  qed
  have "list_all2 (enc m') (finished_raw st) (active_txn_encoded_batches st)" if vm: "version_map s' ?u m'" for m'
  proof -
    have "(\<exists>m. version_map s ?u m \<and> m \<subseteq>\<^sub>m m') \<or> ?u = ?a \<and> active_txn (es_writer s) = None \<or> ?a < ?u"
      using ext vm unfolding maps_extend_def by metis
    then consider m where "version_map s ?u m" "m \<subseteq>\<^sub>m m'" | "?u = ?a" "active_txn (es_writer s) = None" | "?a < ?u"
      by metis
    then show ?thesis
    proof cases
      case (1 m)
      then show ?thesis using st(2) encs_mono by (auto simp: context_inv_def)
    next
      case 2
      then show ?thesis using st(2) len by (auto simp: context_inv_def)
    next
      case 3
      then show ?thesis using le init by force
    qed
  qed
  then show ?thesis using 1 2 le unfolding context_inv_def by (meson order_trans)
qed

lemma account_inv_mono: "account_inv m inp st out \<Longrightarrow> m \<subseteq>\<^sub>m m' \<Longrightarrow> account_inv m' inp st out"
  unfolding account_inv_def by (blast intro: encs_mono)

lemma enc_inv_frame:
  assumes inv: "enc_inv L hi ht P taken inp s" and shared: "shared_inv L hi ht P taken s'" and ext: "maps_extend s s'"
    and others: "\<And>j. j \<noteq> i \<Longrightarrow> es_streams s' j = es_streams s j \<and> es_output s' j = es_output s j"
    and me: "alive (stream_state (es_streams s' i)) \<Longrightarrow> local_inv (es_streams s' i) \<and> context_inv s' (es_streams s' i)"
    and acct: "account_inv (table_map (db (es_dict s'))) (inp i) (es_streams s' i) (es_output s' i)"
  shows "enc_inv L hi ht P taken inp s'"
proof -
  have m: "table_map (db (es_dict s)) \<subseteq>\<^sub>m table_map (db (es_dict s'))" using ext by (simp add: maps_extend_def)
  have "(alive (stream_state (es_streams s' j)) \<longrightarrow> local_inv (es_streams s' j) \<and> context_inv s' (es_streams s' j)) \<and>
      account_inv (table_map (db (es_dict s'))) (inp j) (es_streams s' j) (es_output s' j)" for j
  proof (cases "j = i")
    case False
    have "account_inv (table_map (db (es_dict s))) (inp j) (es_streams s j) (es_output s j)" using inv by (simp add: enc_inv_def)
    then have "account_inv (table_map (db (es_dict s'))) (inp j) (es_streams s j) (es_output s j)" using m by (rule account_inv_mono)
    then show ?thesis using others [OF False] inv context_inv_extend [OF ext] by (auto simp: enc_inv_def)
  qed (use me acct in simp)
  then show ?thesis using shared by (simp add: enc_inv_def)
qed

section \<open>Steps of one stream\<close>

lemma quiet_not_delta: "sender_of q = None \<Longrightarrow> q \<noteq> AwaitingDictionaryDeltaCommit txn v" "sender_of q = None \<Longrightarrow> \<not> holds_txn q"
  by (cases q; simp)+

lemma version_map_cong:
  assumes "es_writer s' = es_writer s" "es_dict s' = es_dict s"
    "\<And>j txn u. stream_state (es_streams s' j) = AwaitingDictionaryDeltaCommit txn u \<longleftrightarrow> stream_state (es_streams s j) = AwaitingDictionaryDeltaCommit txn u"
  shows "version_map s' u m \<longleftrightarrow> version_map s u m"
  using assms by (simp add: version_map_def)

lemma context_inv_cong:
  assumes "es_writer s' = es_writer s" "\<And>u m. version_map s' u m \<longleftrightarrow> version_map s u m"
  shows "context_inv s' st \<longleftrightarrow> context_inv s st"
  using assms by (simp add: context_inv_def)

lemma local_step:
  assumes inv: "enc_inv L hi ht P taken inp s"
    and same: "es_dict s' = es_dict s" "es_writer s' = es_writer s" "es_world s' = es_world s" "es_streams s' = (es_streams s)(i := st')"
      "\<And>j. j \<noteq> i \<Longrightarrow> es_output s' j = es_output s j"
    and quiet: "sender_of (stream_state (es_streams s i)) = None" "sender_of (stream_state st') = None"
    and me: "alive (stream_state st') \<Longrightarrow> local_inv st' \<and> context_inv s st'"
    and acct: "account_inv (table_map (db (es_dict s))) (inp i) st' (es_output s' i)"
  shows "enc_inv L hi ht P taken inp s'"
proof (rule enc_inv_frame [OF inv, where i = i])
  have delta: "stream_state (es_streams s' j) = AwaitingDictionaryDeltaCommit txn u \<longleftrightarrow> stream_state (es_streams s j) = AwaitingDictionaryDeltaCommit txn u" for j txn u
    using same(4) quiet quiet_not_delta(1) by (cases "j = i") auto
  note vm = version_map_cong [OF same(2,1) delta]
  have senders: "sender_of (stream_state (es_streams s' j)) = sender_of (stream_state (es_streams s j))"
      "holds_txn (stream_state (es_streams s' j)) = holds_txn (stream_state (es_streams s j))" for j
    using same(4) quiet quiet_not_delta(2) by (cases "j = i"; auto)+
  have "shared_inv L hi ht P taken s" using inv by (simp add: enc_inv_def)
  then show "shared_inv L hi ht P taken s'" unfolding shared_inv_def same(1-3) senders delta .
  show "maps_extend s s'" unfolding maps_extend_def vm using same(1,2) by auto
  show "es_streams s' j = es_streams s j \<and> es_output s' j = es_output s j" if "j \<noteq> i" for j using that same(4,5) by simp
  show "local_inv (es_streams s' i) \<and> context_inv s' (es_streams s' i)" if "alive (stream_state (es_streams s' i))"
    using me that same(4) context_inv_cong [OF same(2) vm] by simp
  show "account_inv (table_map (db (es_dict s'))) (inp i) (es_streams s' i) (es_output s' i)" using acct same(1,4) by simp
qed

lemma oks_simps [simp]: "oks [] = []" "oks (Inl e # xs) = oks xs" "oks (Inr x # xs) = x # oks xs"
  by (simp_all add: oks_def List.map_filter_def)

lemma process_ok:
  assumes "stream_state st = ReadyToProcess" "local_inv st" "context_inv s st" "account_inv m inp st out"
  shows "alive (stream_state (process st)) \<Longrightarrow> local_inv (process st)" "context_inv s (process st)" "account_inv m inp (process st) out"
    "sender_of (stream_state (process st)) = None"
proof -
  have raw: "finished_raw st = active_txn_raw_batches st" using assms(1) by (simp add: finished_raw_def)
  note defs = process_def start_encoding_def fail_def
  show "local_inv (process st)" if "alive (stream_state (process st))"
    using that assms(1,2) raw by (auto simp: defs local_inv_def finished_raw_def should_force_commit_def Let_def
        split: list.splits sum.splits if_splits)
  show "context_inv s (process st)"
    using assms(1,3) raw by (auto simp: defs context_inv_def finished_raw_def split: list.splits sum.splits)
  obtain src where src: "mset src + mset (retry_queue st) + mset (active_txn_raw_batches st) + mset (oks (stream_input st)) = mset (oks inp)"
      "list_all2 (enc m) src (out @ ready_to_yield_batches st)"
    using assms(4) by (auto simp: account_inv_def)
  show "account_inv m inp (process st) out"
    unfolding account_inv_def
    by (rule exI [of _ src]) (use src in \<open>auto simp: defs add_mset_commute split: list.splits sum.splits\<close>)
  show "sender_of (stream_state (process st)) = None"
    using assms(1) by (auto simp: defs split: list.splits sum.splits)
qed

lemma success_ok:
  assumes "list_all2 (enc m) (active_txn_raw_batches st) (active_txn_encoded_batches st)" "ready_to_yield_batches st = []"
    "account_inv m inp st out" "is_exhausted st \<longrightarrow> stream_input st = []" "intended_delta_version st < active_delta_version (es_writer s)"
  shows "local_inv (handle_successful_commit st)" "context_inv s (handle_successful_commit st)" "account_inv m inp (handle_successful_commit st) out"
    "sender_of (stream_state (handle_successful_commit st)) = None"
proof -
  obtain src where src: "mset src + mset (retry_queue st) + mset (active_txn_raw_batches st) + mset (oks (stream_input st)) = mset (oks inp)"
      "list_all2 (enc m) src (out @ ready_to_yield_batches st)"
    using assms(3) by (auto simp: account_inv_def)
  show "account_inv m inp (handle_successful_commit st) out"
    unfolding account_inv_def
    by (rule exI [of _ "src @ active_txn_raw_batches st"])
      (use src assms(1,2) in \<open>auto simp: handle_successful_commit_def ac_simps intro!: list_all2_appendI\<close>)
  show "local_inv (handle_successful_commit st)" "context_inv s (handle_successful_commit st)"
    "sender_of (stream_state (handle_successful_commit st)) = None"
    using assms(4,5) by (auto simp: handle_successful_commit_def local_inv_def context_inv_def finished_raw_def)
qed

lemma conflict_ok:
  assumes "account_inv m inp st out" "is_exhausted st \<longrightarrow> stream_input st = []" "v \<le> active_delta_version (es_writer s)"
  shows "local_inv (handle_conflict v st)" "context_inv s (handle_conflict v st)" "account_inv m inp (handle_conflict v st) out"
    "sender_of (stream_state (handle_conflict v st)) = None"
  using assms by (auto simp: handle_conflict_def local_inv_def context_inv_def finished_raw_def account_inv_def ac_simps)

lemma fail_ok: "account_inv m inp (fail e st) out = account_inv m inp st out" "\<not> alive (stream_state (fail e st))"
  "sender_of (stream_state (fail e st)) = None"
  by (simp_all add: fail_def account_inv_def)

section \<open>Encoding in the active transaction\<close>

lemma shared_invD:
  assumes "shared_inv L hi ht P taken s"
  shows "redb_inv L hi ht P taken (es_dict s) (es_world s)"
    "active_outcome_sender (es_writer s) = Some (active_delta_version (es_writer s))"
    "outcome_receivers (es_writer s) (active_delta_version (es_writer s)) = Some Waiting"
    "\<And>t. active_txn (es_writer s) = Some t \<Longrightarrow> txn_inv (taken (es_world s)) (es_dict s) t"
    "\<And>t i. active_txn (es_writer s) = Some t \<Longrightarrow> \<not> holds_txn (stream_state (es_streams s i))"
    "\<And>i txn v. stream_state (es_streams s i) = AwaitingDictionaryDeltaCommit txn v \<Longrightarrow> txn_inv (taken (es_world s)) (es_dict s) txn"
    "\<And>i j. holds_txn (stream_state (es_streams s i)) \<Longrightarrow> holds_txn (stream_state (es_streams s j)) \<Longrightarrow> i = j"
    "\<And>i v. sender_of (stream_state (es_streams s i)) = Some v \<Longrightarrow> v < active_delta_version (es_writer s) \<and> outcome_receivers (es_writer s) v = Some Waiting"
    "\<And>i j v. sender_of (stream_state (es_streams s i)) = Some v \<Longrightarrow> sender_of (stream_state (es_streams s j)) = Some v \<Longrightarrow> i = j"
  using assms unfolding shared_inv_def by blast+

lemma holds_txn_iff: "holds_txn q \<longleftrightarrow> (\<exists>txn v. q = AwaitingDictionaryDeltaCommit txn v)"
  by (cases q) simp_all

lemma not_held: "\<not> holds_txn q \<Longrightarrow> q \<noteq> AwaitingDictionaryDeltaCommit txn v"
  by auto

text \<open>What is known when stream \<open>i\<close> has encoded the batch \<open>b\<close> in the active transaction.\<close>

definition encoded_active ::
    "('c, 'd) CacheLib \<Rightarrow> ('c \<Rightarrow> (int \<times> LocalDictionaryTerm) set) \<Rightarrow> ('d \<Rightarrow> (LocalDictionaryTerm \<times> int) set) \<Rightarrow> ('w \<Rightarrow> bool) \<Rightarrow> ('w \<Rightarrow> int set) \<Rightarrow>
      ('c, 'd, 'w) EncSystem \<Rightarrow> nat \<Rightarrow> 'w DictTxn \<Rightarrow> ('c, 'd, 'w) RedbDictionary \<Rightarrow> 'w \<Rightarrow> bool" where
  "encoded_active L hi ht P taken s i txn' d' w' \<longleftrightarrow>
     redb_inv L hi ht P taken d' w' \<and> txn_inv (taken w') d' txn' \<and> table_map (db d') = table_map (db (es_dict s)) \<and>
     (\<forall>j. \<not> holds_txn (stream_state (es_streams s j))) \<and>
     (\<forall>t. active_txn (es_writer s) = Some t \<longrightarrow> known t \<subseteq>\<^sub>m known txn') \<and>
     list_all2 (enc (known txn')) (finished_raw (es_streams s i)) (active_txn_encoded_batches (es_streams s i))"

lemma encoded_active_facts:
  assumes inv: "enc_inv L hi ht P taken inp s" and st: "stream_state (es_streams s i) = AwaitingEncoding b (active_delta_version (es_writer s))"
    and opened: "open_active (redb_free s) (es_writer s) (es_dict s) = Some r"
  shows "\<exists>txn. r = Inr txn \<and> (\<forall>x txn' d' w'. encode_arrays (encode_array L) b txn (es_dict s) (es_world s) = (x, txn', d', w') \<longrightarrow>
    encoded_active L hi ht P taken s i txn' d' w' \<and> (\<forall>e. x = Inr e \<longrightarrow> enc (known txn') b e))"
proof -
  let ?wr = "es_writer s" and ?d = "es_dict s" and ?w = "es_world s" and ?st = "es_streams s i"
  have sh: "shared_inv L hi ht P taken s" and lc: "local_inv ?st" "context_inv s ?st" using inv st by (simp_all add: enc_inv_def)
  note sh' = shared_invD [OF sh]
  have iv: "intended_delta_version ?st = active_delta_version ?wr" using lc(1) st by (simp add: local_inv_def)
  have len: "length (finished_raw ?st) = length (active_txn_encoded_batches ?st)"
    using lc(1) by (auto simp: local_inv_def dest: list_all2_lengthD)
  obtain txn where txn: "r = Inr txn" "txn_inv (taken ?w) ?d txn" "\<And>j. \<not> holds_txn (stream_state (es_streams s j))"
    "active_txn ?wr = Some txn \<or> active_txn ?wr = None"
  proof (cases "active_txn ?wr")
    case (Some t)
    then show ?thesis using that [of t] opened sh'(4,5) [OF Some] by (simp add: open_active_def)
  next
    case None
    then have free: "redb_free s" and r: "r = begin_txn ?d" using opened by (auto simp: open_active_def split: if_splits)
    obtain t where "begin_txn ?d = Inr t" "txn_inv (taken ?w) ?d t" using redb.begin_law [OF sh'(1)] by blast
    then show ?thesis using that [of t] r free None by (simp add: redb_free_def)
  qed
  have "encoded_active L hi ht P taken s i txn' d' w' \<and> (\<forall>e. x = Inr e \<longrightarrow> enc (known txn') b e)"
    if e: "encode_arrays (encode_array L) b txn ?d ?w = (x, txn', d', w')" for x txn' d' w'
  proof -
    note ok = redb.encode_arrays_ok [OF sh'(1) txn(2) e]
    have "list_all2 (enc (known txn')) (finished_raw ?st) (active_txn_encoded_batches ?st)"
    proof (cases "active_txn ?wr")
      case (Some t)
      then have "version_map s (intended_delta_version ?st) (known txn)" using txn(4) iv by (simp add: version_map_def)
      then show ?thesis using lc(2) ok encs_mono by (auto simp: context_inv_def)
    next
      case None
      then show ?thesis using lc(2) iv len by (auto simp: context_inv_def)
    qed
    then show ?thesis using ok txn(3,4) unfolding encoded_active_def enc_def by auto
  qed
  then show ?thesis using txn(1) by blast
qed

text \<open>The version of the active transaction keeps its map or gets its first one.\<close>

lemma encoded_active_maps:
  assumes "encoded_active L hi ht P taken s i txn' d' w'"
  shows "(\<exists>m. version_map s (active_delta_version (es_writer s)) m \<and> m \<subseteq>\<^sub>m known txn') \<or> active_txn (es_writer s) = None"
  using assms by (cases "active_txn (es_writer s)") (auto simp: encoded_active_def version_map_def)

lemma buffering_step:
  assumes inv: "enc_inv L hi ht P taken inp s" and st: "stream_state (es_streams s i) = AwaitingEncoding b (active_delta_version (es_writer s))"
    and ea: "encoded_active L hi ht P taken s i txn' d' w'"
    and s': "s' = set_stream i st' s\<lparr>es_dict := d', es_world := w', es_writer := (es_writer s)\<lparr>active_txn := Some txn'\<rparr>\<rparr>"
    and quiet: "sender_of (stream_state st') = None"
    and me: "alive (stream_state st') \<Longrightarrow> local_inv st' \<and> intended_delta_version st' = active_delta_version (es_writer s) \<and>
      list_all2 (enc (known txn')) (finished_raw st') (active_txn_encoded_batches st')"
    and acct: "account_inv (table_map (db (es_dict s))) (inp i) st' (es_output s i)"
  shows "enc_inv L hi ht P taken inp s'"
proof (rule enc_inv_frame [OF inv, where i = i])
  have sh: "shared_inv L hi ht P taken s" using inv by (simp add: enc_inv_def)
  note sh' = shared_invD [OF sh]
  have q: "sender_of (stream_state (es_streams s i)) = None" using st by simp
  have noheld: "\<not> holds_txn (stream_state (es_streams s' j))" for j
    using ea quiet_not_delta(2) [OF quiet] by (simp add: s' encoded_active_def)
  have senders: "sender_of (stream_state (es_streams s' j)) = sender_of (stream_state (es_streams s j))" for j
    using q quiet by (simp add: s')
  show "shared_inv L hi ht P taken s'"
    unfolding shared_inv_def senders using ea sh'(2,3,8,9) noheld not_held [OF noheld] by (auto simp: s' encoded_active_def)
  have vm: "version_map s' u m \<Longrightarrow> u = active_delta_version (es_writer s) \<and> m = known txn' \<or> version_map s u m" for u m
    using not_held [OF noheld] ea by (auto simp: version_map_def s' encoded_active_def split: if_splits)
  have ext: "(\<exists>m. version_map s u m \<and> m \<subseteq>\<^sub>m m') \<or> u = active_delta_version (es_writer s) \<and> active_txn (es_writer s) = None" if "version_map s' u m'" for u m'
    using vm [OF that] encoded_active_maps [OF ea] map_le_refl by blast
  show "maps_extend s s'"
    unfolding maps_extend_def using ext ea by (simp add: s' encoded_active_def) metis
  show "es_streams s' j = es_streams s j \<and> es_output s' j = es_output s j" if "j \<noteq> i" for j using that by (simp add: s')
  show "local_inv (es_streams s' i) \<and> context_inv s' (es_streams s' i)" if "alive (stream_state (es_streams s' i))"
  proof -
    have "m = known txn'" if "version_map s' (active_delta_version (es_writer s)) m" for m
      using that not_held [OF noheld] by (auto simp: version_map_def s' split: if_splits)
    then show ?thesis using me that unfolding context_inv_def by (auto simp: s')
  qed
  show "account_inv (table_map (db (es_dict s'))) (inp i) (es_streams s' i) (es_output s' i)"
    using acct ea by (simp add: s' encoded_active_def)
qed

lemma next_version_simps [simp]:
  "active_delta_version (next_version wr) = active_delta_version wr + 1" "active_txn (next_version wr) = None"
  "active_outcome_sender (next_version wr) = Some (active_delta_version wr + 1)"
  "outcome_receivers (next_version wr) = (outcome_receivers wr)(active_delta_version wr + 1 \<mapsto> Waiting)"
  by (simp_all add: next_version_def Let_def)

lemma trigger_step:
  assumes inv: "enc_inv L hi ht P taken inp s" and quiet: "sender_of (stream_state (es_streams s i)) = None"
    and ea: "encoded_active L hi ht P taken s i txn' d' w'"
    and s': "s' = set_stream i st' s\<lparr>es_dict := d', es_world := w', es_writer := next_version (es_writer s)\<rparr>"
    and st': "stream_state st' = AwaitingDictionaryDeltaCommit txn' (active_delta_version (es_writer s))"
    and me: "local_inv st'" "intended_delta_version st' = active_delta_version (es_writer s)"
      "list_all2 (enc (known txn')) (finished_raw st') (active_txn_encoded_batches st')"
    and acct: "account_inv (table_map (db (es_dict s))) (inp i) st' (es_output s i)"
  shows "enc_inv L hi ht P taken inp s'"
proof (rule enc_inv_frame [OF inv, where i = i])
  let ?a = "active_delta_version (es_writer s)"
  have sh: "shared_inv L hi ht P taken s" using inv by (simp add: enc_inv_def)
  note sh' = shared_invD [OF sh]
  have held: "stream_state (es_streams s' j) = AwaitingDictionaryDeltaCommit txn u \<longleftrightarrow> j = i \<and> txn = txn' \<and> u = ?a" for j txn u
    using ea st' not_held by (auto simp: s' encoded_active_def)
  have senders: "sender_of (stream_state (es_streams s' j)) = (if j = i then Some ?a else sender_of (stream_state (es_streams s j)))" for j
    using st' by (simp add: s')
  have old: "u < ?a \<and> outcome_receivers (es_writer s) u = Some Waiting" if "sender_of (stream_state (es_streams s j)) = Some u" for j u
    using sh'(8) [OF that] .
  have old': "u < active_delta_version (es_writer s') \<and> outcome_receivers (es_writer s') u = Some Waiting"
    if "sender_of (stream_state (es_streams s j)) = Some u" for j u
    using old [OF that] by (simp add: s')
  have new: "?a < active_delta_version (es_writer s')" "outcome_receivers (es_writer s') ?a = Some Waiting" using sh'(3) by (simp_all add: s')
  show "shared_inv L hi ht P taken s'"
    unfolding shared_inv_def holds_txn_iff held senders
  proof (intro conjI)
    show "\<forall>j v. (if j = i then Some ?a else sender_of (stream_state (es_streams s j))) = Some v \<longrightarrow>
        v < active_delta_version (es_writer s') \<and> outcome_receivers (es_writer s') v = Some Waiting"
      using old' new by (auto split: if_splits)
    show "\<forall>j k v. (if j = i then Some ?a else sender_of (stream_state (es_streams s j))) = Some v \<and>
        (if k = i then Some ?a else sender_of (stream_state (es_streams s k))) = Some v \<longrightarrow> j = k"
      using old sh'(9) by (auto split: if_splits)
  qed (use ea in \<open>auto simp: s' encoded_active_def\<close>)
  have vm: "version_map s' u m \<Longrightarrow> u = ?a \<and> m = known txn' \<or> version_map s u m" for u m
    unfolding version_map_def held using ea sh'(3) by (auto simp: s' encoded_active_def less_Suc_eq split: if_splits)
  have ext: "(\<exists>m. version_map s u m \<and> m \<subseteq>\<^sub>m m') \<or> u = ?a \<and> active_txn (es_writer s) = None" if "version_map s' u m'" for u m'
    using vm [OF that] encoded_active_maps [OF ea] map_le_refl by blast
  show "maps_extend s s'"
    unfolding maps_extend_def using ext ea by (simp add: s' encoded_active_def) metis
  show "es_streams s' j = es_streams s j \<and> es_output s' j = es_output s j" if "j \<noteq> i" for j using that by (simp add: s')
  have "m = known txn'" if "version_map s' ?a m" for m
    using that sh'(3) unfolding version_map_def held by (auto simp: s')
  then show "local_inv (es_streams s' i) \<and> context_inv s' (es_streams s' i)"
    using me unfolding context_inv_def by (auto simp: s')
  show "account_inv (table_map (db (es_dict s'))) (inp i) (es_streams s' i) (es_output s' i)"
    using acct ea by (simp add: s' encoded_active_def)
qed

lemma drop_sender_simps [simp]:
  "active_delta_version (drop_sender v wr) = active_delta_version wr" "active_txn (drop_sender v wr) = active_txn wr"
  "active_outcome_sender (drop_sender v wr) = active_outcome_sender wr"
  "u \<noteq> v \<Longrightarrow> outcome_receivers (drop_sender v wr) u = outcome_receivers wr u"
  "outcome_receivers (drop_sender v wr) u = Some (Sent oc) \<longleftrightarrow> outcome_receivers wr u = Some (Sent oc)"
  by (auto simp: drop_sender_def)

lemma trigger_fail_step:
  assumes inv: "enc_inv L hi ht P taken inp s" and quiet: "sender_of (stream_state (es_streams s i)) = None"
    and ea: "encoded_active L hi ht P taken s i txn' d' w'"
    and s': "s' = set_stream i (fail e (es_streams s i)) s\<lparr>es_dict := d', es_world := w',
      es_writer := drop_sender (active_delta_version (es_writer s)) (next_version (es_writer s))\<rparr>"
  shows "enc_inv L hi ht P taken inp s'"
proof (rule enc_inv_frame [OF inv, where i = i])
  let ?a = "active_delta_version (es_writer s)"
  have sh: "shared_inv L hi ht P taken s" using inv by (simp add: enc_inv_def)
  note sh' = shared_invD [OF sh]
  have noheld: "\<not> holds_txn (stream_state (es_streams s' j))" for j using ea by (simp add: s' encoded_active_def fail_def)
  have senders: "sender_of (stream_state (es_streams s' j)) = sender_of (stream_state (es_streams s j))" for j
    using quiet by (simp add: s' fail_def)
  have old: "u < ?a \<and> outcome_receivers (es_writer s) u = Some Waiting" if "sender_of (stream_state (es_streams s j)) = Some u" for j u
    using sh'(8) [OF that] .
  have old': "u < ?a + 1 \<and> outcome_receivers (es_writer s') u = Some Waiting" if "sender_of (stream_state (es_streams s j)) = Some u" for j u
    using old [OF that] by (simp add: s')
  show "shared_inv L hi ht P taken s'"
    unfolding shared_inv_def senders
    using ea sh'(9) old' noheld not_held [OF noheld] by (auto simp: s' encoded_active_def)
  have vm: "version_map s' u m \<Longrightarrow> version_map s u m" for u m
    using ea sh'(3) not_held [OF noheld] by (auto simp: version_map_def s' encoded_active_def less_Suc_eq split: if_splits)
  have "\<exists>m. version_map s u m \<and> m \<subseteq>\<^sub>m m'" if "version_map s' u m'" for u m' using vm [OF that] map_le_refl by blast
  then show "maps_extend s s'" by (intro maps_extend_sub) (use ea in \<open>simp_all add: s' encoded_active_def\<close>)
  show "es_streams s' j = es_streams s j \<and> es_output s' j = es_output s j" if "j \<noteq> i" for j using that by (simp add: s')
  show "local_inv (es_streams s' i) \<and> context_inv s' (es_streams s' i)" if "alive (stream_state (es_streams s' i))"
    using that by (simp add: s' fail_ok)
  have "account_inv (table_map (db (es_dict s))) (inp i) (es_streams s i) (es_output s i)" using inv by (simp add: enc_inv_def)
  then show "account_inv (table_map (db (es_dict s'))) (inp i) (es_streams s' i) (es_output s' i)"
    using ea by (simp add: s' encoded_active_def fail_ok)
qed

section \<open>Steps that hold the sender of a version\<close>

text \<open>Stream \<open>i\<close> gives up the sender of version \<open>v\<close>.\<close>

lemma release_step:
  assumes inv: "enc_inv L hi ht P taken inp s" and v: "sender_of (stream_state (es_streams s i)) = Some v"
    and s': "es_streams s' = (es_streams s)(i := st')" "es_output s' = es_output s" "es_world s' = es_world s"
    and quiet: "sender_of (stream_state st') = None"
    and wr: "active_delta_version (es_writer s) \<le> active_delta_version (es_writer s')"
      "active_outcome_sender (es_writer s') = Some (active_delta_version (es_writer s'))"
      "outcome_receivers (es_writer s') (active_delta_version (es_writer s')) = Some Waiting"
      "active_txn (es_writer s') = active_txn (es_writer s)"
      "\<And>u. u \<noteq> v \<Longrightarrow> u < active_delta_version (es_writer s) \<Longrightarrow> outcome_receivers (es_writer s) u = Some Waiting \<Longrightarrow>
        outcome_receivers (es_writer s') u = Some Waiting"
      "\<And>u. u \<le> active_delta_version (es_writer s) \<Longrightarrow> u < active_delta_version (es_writer s') \<Longrightarrow>
        outcome_receivers (es_writer s') u = Some (Sent Committed) \<Longrightarrow> \<exists>m. version_map s u m \<and> m \<subseteq>\<^sub>m table_map (db (es_dict s'))"
    and d: "redb_inv L hi ht P taken (es_dict s') (es_world s)" "table_map (db (es_dict s)) \<subseteq>\<^sub>m table_map (db (es_dict s'))"
      "es_dict s' = es_dict s \<or> active_txn (es_writer s) = None \<and> (\<forall>j. j \<noteq> i \<longrightarrow> \<not> holds_txn (stream_state (es_streams s j)))"
    and me: "alive (stream_state st') \<Longrightarrow> local_inv st' \<and> context_inv s' st'"
    and acct: "account_inv (table_map (db (es_dict s'))) (inp i) st' (es_output s i)"
  shows "enc_inv L hi ht P taken inp s'"
proof (rule enc_inv_frame [OF inv, where i = i])
  let ?a = "active_delta_version (es_writer s)"
  have sh: "shared_inv L hi ht P taken s" using inv by (simp add: enc_inv_def)
  note sh' = shared_invD [OF sh]
  have held: "stream_state (es_streams s' j) = AwaitingDictionaryDeltaCommit txn u \<Longrightarrow> j \<noteq> i \<and> stream_state (es_streams s j) = AwaitingDictionaryDeltaCommit txn u" for j txn u
    using quiet quiet_not_delta(1) by (cases "j = i") (auto simp: s')
  have holds: "holds_txn (stream_state (es_streams s' j)) \<Longrightarrow> j \<noteq> i \<and> holds_txn (stream_state (es_streams s j))" for j
    using quiet quiet_not_delta(2) by (cases "j = i") (auto simp: s')
  have senders: "sender_of (stream_state (es_streams s' j)) = Some u \<Longrightarrow> j \<noteq> i \<and> u \<noteq> v \<and> sender_of (stream_state (es_streams s j)) = Some u" for j u
    using quiet v sh'(9) [of j u i] by (cases "j = i") (auto simp: s')
  have old: "u < active_delta_version (es_writer s') \<and> outcome_receivers (es_writer s') u = Some Waiting"
    if "sender_of (stream_state (es_streams s' j)) = Some u" for j u
    using senders [OF that] sh'(8) [of j u] wr(1,5) by auto
  show "shared_inv L hi ht P taken s'"
    unfolding shared_inv_def
  proof (intro conjI)
    show "\<forall>t. active_txn (es_writer s') = Some t \<longrightarrow>
        txn_inv (taken (es_world s')) (es_dict s') t \<and> (\<forall>i. \<not> holds_txn (stream_state (es_streams s' i)))"
      using d(3) sh'(4,5) holds by (auto simp: wr(4) s'(3))
    show "\<forall>i txn v. stream_state (es_streams s' i) = AwaitingDictionaryDeltaCommit txn v \<longrightarrow> txn_inv (taken (es_world s')) (es_dict s') txn"
      using d(3) sh'(6) held by (force simp: s'(3))
    show "\<forall>i j. holds_txn (stream_state (es_streams s' i)) \<and> holds_txn (stream_state (es_streams s' j)) \<longrightarrow> i = j"
      using sh'(7) holds by blast
    show "\<forall>i j v. sender_of (stream_state (es_streams s' i)) = Some v \<and> sender_of (stream_state (es_streams s' j)) = Some v \<longrightarrow> i = j"
      using sh'(9) senders by blast
  qed (use wr(2,3) d(1) old s'(3) in auto)
  have "(\<exists>m. version_map s u m \<and> m \<subseteq>\<^sub>m m') \<or> ?a < u" if vm: "version_map s' u m'" for u m'
  proof (cases "?a < u")
    case False
    have "\<exists>m. version_map s u m \<and> m \<subseteq>\<^sub>m m'"
      using vm unfolding version_map_def [of s']
    proof (elim disjE conjE exE)
      fix t assume "u = active_delta_version (es_writer s')" "active_txn (es_writer s') = Some t" "m' = known t"
      then have "version_map s u m'" using False wr(1,4) by (auto simp: version_map_def)
      then show ?thesis using map_le_refl by blast
    next
      assume "u < active_delta_version (es_writer s')" "outcome_receivers (es_writer s') u = Some (Sent Committed)" "m' = table_map (db (es_dict s'))"
      then show ?thesis using wr(6) [of u] False by auto
    next
      fix j txn assume "stream_state (es_streams s' j) = AwaitingDictionaryDeltaCommit txn u" "m' = known txn"
      then have "version_map s u m'" using held [of j txn u] unfolding version_map_def by blast
      then show ?thesis using map_le_refl by blast
    qed
    then show ?thesis ..
  qed simp
  then show "maps_extend s s'" unfolding maps_extend_def using d(2) wr(1,4) by simp metis
  show "es_streams s' j = es_streams s j \<and> es_output s' j = es_output s j" if "j \<noteq> i" for j using that by (simp add: s')
qed (use me acct s' in simp_all)

lemma send_outcome_simps [simp]:
  "active_delta_version (send_outcome oc v wr) = active_delta_version wr" "active_txn (send_outcome oc v wr) = active_txn wr"
  "active_outcome_sender (send_outcome oc v wr) = active_outcome_sender wr"
  "outcome_receivers (send_outcome oc v wr) = (outcome_receivers wr)(v \<mapsto> Sent oc)"
  by (simp_all add: send_outcome_def)

lemma delta_commit_facts:
  assumes inv: "enc_inv L hi ht P taken inp s" and st: "stream_state (es_streams s i) = AwaitingDictionaryDeltaCommit txn v"
  shows "txn_inv (taken (es_world s)) (es_dict s) txn" "active_txn (es_writer s) = None" "\<And>j. j \<noteq> i \<Longrightarrow> \<not> holds_txn (stream_state (es_streams s j))"
    "v = intended_delta_version (es_streams s i)" "v < active_delta_version (es_writer s)"
    "list_all2 (enc (known txn)) (active_txn_raw_batches (es_streams s i)) (active_txn_encoded_batches (es_streams s i))"
    "local_inv (es_streams s i)" "redb_inv L hi ht P taken (es_dict s) (es_world s)"
    "account_inv (table_map (db (es_dict s))) (inp i) (es_streams s i) (es_output s i)"
proof -
  have sh: "shared_inv L hi ht P taken s" and me: "local_inv (es_streams s i)" "context_inv s (es_streams s i)"
    "account_inv (table_map (db (es_dict s))) (inp i) (es_streams s i) (es_output s i)"
    using inv st by (simp_all add: enc_inv_def)
  note sh' = shared_invD [OF sh]
  show "txn_inv (taken (es_world s)) (es_dict s) txn" by (rule sh'(6) [OF st])
  show "active_txn (es_writer s) = None" using sh'(5) [of _ i] st by (cases "active_txn (es_writer s)") auto
  show "\<not> holds_txn (stream_state (es_streams s j))" if "j \<noteq> i" for j using sh'(7) [of i j] st that by auto
  show iv: "v = intended_delta_version (es_streams s i)" using me(1) st by (simp add: local_inv_def)
  show "v < active_delta_version (es_writer s)" using sh'(8) [of i v] st by simp
  have "version_map s v (known txn)" using st unfolding version_map_def by blast
  then show "list_all2 (enc (known txn)) (active_txn_raw_batches (es_streams s i)) (active_txn_encoded_batches (es_streams s i))"
    using me(2) iv st by (simp add: context_inv_def finished_raw_def)
  show "local_inv (es_streams s i)" "redb_inv L hi ht P taken (es_dict s) (es_world s)"
    "account_inv (table_map (db (es_dict s))) (inp i) (es_streams s i) (es_output s i)"
    using me(1,3) sh'(1) by simp_all
qed

lemma commit_step:
  assumes inv: "enc_inv L hi ht P taken inp s" and st: "stream_state (es_streams s i) = AwaitingDictionaryDeltaCommit txn v"
    and ready: "ready_to_yield_batches (es_streams s i) = []"
    and s': "es_streams s' = (es_streams s)(i := handle_successful_commit (es_streams s i))" "es_output s' = es_output s" "es_world s' = es_world s"
      "es_dict s' = commit_txn L k txn (es_dict s)" "es_writer s' = send_outcome Committed v (es_writer s)"
  shows "enc_inv L hi ht P taken inp s'"
proof -
  note f = delta_commit_facts [OF inv st]
  have com: "redb_inv L hi ht P taken (es_dict s') (es_world s)" "table_map (db (es_dict s')) = known txn"
    using redb.commit_law [OF f(8,1)] by (simp_all add: s')
  have le: "table_map (db (es_dict s)) \<subseteq>\<^sub>m known txn" using f(1) by (auto simp: txn_inv_def map_le_def known_def)
  have acct: "account_inv (known txn) (inp i) (es_streams s i) (es_output s i)" using f(9) le by (rule account_inv_mono)
  have exh: "is_exhausted (es_streams s i) \<longrightarrow> stream_input (es_streams s i) = []" using f(7) by (simp add: local_inv_def)
  have lt: "intended_delta_version (es_streams s i) < active_delta_version (es_writer s')" using f(4,5) by (simp add: s')
  note me = success_ok [OF f(6) ready acct exh lt]
  have "shared_inv L hi ht P taken s" using inv by (simp add: enc_inv_def)
  note sh' = shared_invD [OF this]
  have vm: "version_map s v (known txn)" using st unfolding version_map_def by blast
  have "\<exists>m. version_map s u m \<and> m \<subseteq>\<^sub>m table_map (db (es_dict s'))"
    if "u < active_delta_version (es_writer s')" "outcome_receivers (es_writer s') u = Some (Sent Committed)" for u
  proof (cases "u = v")
    case True
    then show ?thesis using vm com(2) map_le_refl by auto
  next
    case False
    then have "version_map s u (table_map (db (es_dict s)))" using that by (simp add: version_map_def s')
    then show ?thesis using le com(2) by auto
  qed
  then show ?thesis
    using st sh'(2,3) f(2,3,5) com le me by (intro release_step [OF inv, of i v s' "handle_successful_commit (es_streams s i)"]) (simp_all add: s')
qed

lemma conflict_step:
  assumes inv: "enc_inv L hi ht P taken inp s" and st: "stream_state (es_streams s i) = AwaitingDictionaryDeltaCommit txn v"
    and s': "s' = set_stream i (es_streams s i\<lparr>stream_state := AwaitingLocalDictionaryUpdate v\<rparr>) s\<lparr>es_dict := abort_txn txn (es_dict s)\<rparr>"
  shows "enc_inv L hi ht P taken inp s'"
proof (rule enc_inv_frame [OF inv, where i = i])
  note f = delta_commit_facts [OF inv st]
  have ab: "redb_inv L hi ht P taken (abort_txn txn (es_dict s)) (es_world s)" "table_map (db (abort_txn txn (es_dict s))) = table_map (db (es_dict s))"
    using redb.abort_law [OF f(8,1)] by simp_all
  have sh: "shared_inv L hi ht P taken s" and ctx: "context_inv s (es_streams s i)" using inv st by (simp_all add: enc_inv_def)
  note sh' = shared_invD [OF sh]
  have noheld: "\<not> holds_txn (stream_state (es_streams s' j))" for j using f(3) by (simp add: s')
  have senders: "sender_of (stream_state (es_streams s' j)) = sender_of (stream_state (es_streams s j))" for j using st by (simp add: s')
  show "shared_inv L hi ht P taken s'"
    unfolding shared_inv_def senders using ab(1) sh'(2,3,8,9) f(2) noheld not_held [OF noheld] by (auto simp: s')
  have vm: "version_map s' u m \<Longrightarrow> version_map s u m" for u m
    using not_held [OF noheld] by (auto simp: version_map_def s' ab(2) split: if_splits)
  have "\<exists>m. version_map s u m \<and> m \<subseteq>\<^sub>m m'" if "version_map s' u m'" for u m' using vm [OF that] map_le_refl by blast
  then show "maps_extend s s'" by (intro maps_extend_sub) (simp_all add: s' ab(2))
  show "es_streams s' j = es_streams s j \<and> es_output s' j = es_output s j" if "j \<noteq> i" for j using that by (simp add: s')
  have fin: "finished_raw (es_streams s' i) = finished_raw (es_streams s i)" using st by (simp add: finished_raw_def s')
  have "local_inv (es_streams s' i)" using f(7) st fin by (simp add: local_inv_def) (simp add: s')
  moreover have "context_inv s' (es_streams s' i)" using ctx st vm fin by (simp add: context_inv_def) (simp add: s')
  ultimately show "local_inv (es_streams s' i) \<and> context_inv s' (es_streams s' i)" ..
  show "account_inv (table_map (db (es_dict s'))) (inp i) (es_streams s' i) (es_output s' i)"
    using f(9) by (simp add: s' ab(2) account_inv_def)
qed

lemma updatingD:
  assumes "updating q = Some v"
  shows "sender_of q = Some v" "\<not> holds_txn q" "alive q" "q \<noteq> AwaitingInitialVersion" "q \<noteq> AwaitingDictionaryDeltaCommit txn u"
    "stream_state st = q \<Longrightarrow> finished_raw st = active_txn_raw_batches st"
    "stream_state st = q \<Longrightarrow> local_inv st \<longleftrightarrow>
      list_all2 same_shape (active_txn_raw_batches st) (active_txn_encoded_batches st) \<and> (is_exhausted st \<longrightarrow> stream_input st = [])"
  using assms by (cases q; simp add: finished_raw_def local_inv_def)+

text \<open>An updating stream changes the dictionary and goes on updating.\<close>

lemma updating_step:
  assumes inv: "enc_inv L hi ht P taken inp s" and q: "updating (stream_state (es_streams s i)) = Some v" "updating q' = Some v"
    and s': "s' = set_stream i (es_streams s i\<lparr>stream_state := q'\<rparr>) s\<lparr>es_dict := d, es_table_lock := l, es_table_version := n\<rparr>"
    and d: "redb_inv L hi ht P taken d (es_world s)" "table_map (db (es_dict s)) \<subseteq>\<^sub>m table_map (db d)" "d = es_dict s \<or> redb_free s"
  shows "enc_inv L hi ht P taken inp s'"
proof (rule enc_inv_frame [OF inv, where i = i])
  note q1 = updatingD [OF q(1)] and q2 = updatingD [OF q(2)]
  have sh: "shared_inv L hi ht P taken s" and me: "local_inv (es_streams s i)" "context_inv s (es_streams s i)"
    "account_inv (table_map (db (es_dict s))) (inp i) (es_streams s i) (es_output s i)"
    using inv q1(3) by (simp_all add: enc_inv_def)
  note sh' = shared_invD [OF sh]
  have delta: "stream_state (es_streams s' j) = AwaitingDictionaryDeltaCommit txn u \<longleftrightarrow> stream_state (es_streams s j) = AwaitingDictionaryDeltaCommit txn u" for j txn u
    using q1(5) q2(5) by (simp add: s')
  have senders: "sender_of (stream_state (es_streams s' j)) = sender_of (stream_state (es_streams s j))"
    "holds_txn (stream_state (es_streams s' j)) = holds_txn (stream_state (es_streams s j))" for j using q1(1,2) q2(1,2) by (simp_all add: s')
  have same: "es_writer s' = es_writer s" "es_world s' = es_world s" "es_dict s' = d" by (simp_all add: s')
  have active: "txn_inv (taken (es_world s)) d t" if "active_txn (es_writer s) = Some t" for t
    using d(3) that sh'(4) by (auto simp: redb_free_def)
  have held: "txn_inv (taken (es_world s)) d txn" if "stream_state (es_streams s j) = AwaitingDictionaryDeltaCommit txn u" for j txn u
  proof -
    have "\<not> redb_free s" using that unfolding redb_free_def by (metis holds_txn.simps(1))
    then show ?thesis using d(3) sh'(6) [OF that] by simp
  qed
  show "shared_inv L hi ht P taken s'"
    unfolding shared_inv_def same senders delta
    by (intro conjI allI impI) (use d(1) sh'(2,3,5,7-9) active held in blast)+
  have vm: "\<exists>m. version_map s u m \<and> m \<subseteq>\<^sub>m m'" if "version_map s' u m'" for u m'
    using that d(2) unfolding version_map_def same delta by (metis map_le_refl)
  then show "maps_extend s s'" by (intro maps_extend_sub) (simp_all add: same d(2))
  show "es_streams s' j = es_streams s j \<and> es_output s' j = es_output s j" if "j \<noteq> i" for j using that by (simp add: s')
  let ?st' = "es_streams s i\<lparr>stream_state := q'\<rparr>"
  have fin: "finished_raw ?st' = active_txn_raw_batches (es_streams s i)" "finished_raw (es_streams s i) = active_txn_raw_batches (es_streams s i)"
    using q1(6) [OF refl] q2(6) [of ?st'] by simp_all
  have "local_inv ?st'" using me(1) q1(7) [OF refl] q2(7) [of ?st'] by simp
  moreover have "context_inv s' ?st'"
    using me(2) fin q1(4) vm encs_mono unfolding context_inv_def by (simp add: same) blast
  ultimately show "local_inv (es_streams s' i) \<and> context_inv s' (es_streams s' i)" by (simp add: s')
  show "account_inv (table_map (db (es_dict s'))) (inp i) (es_streams s' i) (es_output s' i)"
    using account_inv_mono [OF me(3) d(2)] by (simp add: s' account_inv_def)
qed

section \<open>Syncing\<close>

lemma add_batches_ok:
  "dict_inv hi ht taken d \<Longrightarrow> txn_inv taken d txn \<Longrightarrow> batches_new taken bs txn \<Longrightarrow> add_batches bs txn = Inr txn' \<Longrightarrow>
    txn_inv taken d txn' \<and> known txn \<subseteq>\<^sub>m known txn'"
proof (induction bs arbitrary: txn)
  case (Cons b bs)
  obtain txn1 where 1: "add_global_batch b txn = Inr txn1" "add_batches bs txn1 = Inr txn'"
    using Cons.prems(4) by (auto simp: and_then_eq_Inr_iff)
  obtain ids terms where b: "b = \<lparr>gb_ids = Some ids, gb_terms = Some (Some terms)\<rparr>" by (rule add_global_batch_cases [OF 1(1)])
  have ok: "txn_inv taken d txn1 \<and> known txn \<subseteq>\<^sub>m known txn1"
    using add_global_batch_ok [OF Cons.prems(1,2), of ids terms txn1] 1(1) Cons.prems(3) by (simp add: b batch_rows_def)
  then have "txn_inv taken d txn' \<and> known txn1 \<subseteq>\<^sub>m known txn'"
    using Cons.prems(3) 1 by (intro Cons.IH [OF Cons.prems(1)]) simp_all
  then show ?case using ok by (blast intro: map_le_trans)
qed simp

lemma sync_ok:
  "redb_inv L hi ht P taken d w \<Longrightarrow> sync_new L (taken w) v txs d \<Longrightarrow> sync_incrementally L v txs d = (r, d') \<Longrightarrow>
    redb_inv L hi ht P taken d' w \<and> table_map (db d) \<subseteq>\<^sub>m table_map (db d')"
proof (induction txs arbitrary: v d)
  case (Cons tx txs)
  obtain txn where txn: "begin_txn d = Inr txn" "txn_inv (taken w) d txn" "known txn = table_map (db d)"
    using redb.begin_law [OF Cons.prems(1)] by blast
  show ?case
  proof (cases "add_batches tx txn")
    case (Inl e)
    then show ?thesis using Cons.prems txn(1) by simp
  next
    case (Inr txn')
    have "txn_inv (taken w) d txn' \<and> known txn \<subseteq>\<^sub>m known txn'"
      using Cons.prems(1,2) txn by (intro add_batches_ok [where hi = hi and ht = ht, OF _ txn(2) _ Inr]) (simp_all add: redb_inv_def)
    then have com: "redb_inv L hi ht P taken (commit_txn L v txn' d) w" "table_map (db d) \<subseteq>\<^sub>m table_map (db (commit_txn L v txn' d))"
      using redb.commit_law [OF Cons.prems(1)] txn(3) by auto
    have "sync_new L (taken w) (v + 1) txs (commit_txn L v txn' d)" "sync_incrementally L (v + 1) txs (commit_txn L v txn' d) = (r, d')"
      using Cons.prems(2,3) txn(1) Inr by simp_all
    from Cons.IH [OF com(1) this] show ?thesis using com(2) by (blast intro: map_le_trans)
  qed
qed auto

lemma update_ok:
  assumes "redb_inv L hi ht P taken d w" "sync_new L (taken w) (synced_version d + 1) (drop (synced_version d) log) d"
    "update_local_dictionary L free log d = Some (r, d')"
  shows "redb_inv L hi ht P taken d' w" "table_map (db d) \<subseteq>\<^sub>m table_map (db d')" "d' = d \<or> free"
proof -
  have "redb_inv L hi ht P taken d' w \<and> table_map (db d) \<subseteq>\<^sub>m table_map (db d') \<and> (d' = d \<or> free)"
  proof (cases "get_synced_version d")
    case (Inl e)
    then show ?thesis using assms(1,3) by (auto simp: update_local_dictionary_def)
  next
    case (Inr sv)
    have lv: "unwrap_or sv 0 = synced_version d" using Inr by (cases sv) (simp_all add: synced_version_def)
    obtain x d1 where sy: "sync_incrementally L (synced_version d + 1) (drop (synced_version d) log) d = (x, d1)" by fastforce
    show ?thesis using sync_ok [OF assms(1,2) sy] assms(1,3) Inr lv sy
      by (auto simp: update_local_dictionary_def Let_def split: if_splits sum.splits)
  qed
  then show "redb_inv L hi ht P taken d' w" "table_map (db d) \<subseteq>\<^sub>m table_map (db d')" "d' = d \<or> free" by auto
qed

lemma sync_active_version_simps [simp]:
  "active_delta_version (sync_active_version n wr) = max n (active_delta_version wr)"
  "active_txn (sync_active_version n wr) = active_txn wr"
  by (auto simp: sync_active_version_def Let_def split: option.splits)

lemma sync_active_version_receivers:
  assumes "active_outcome_sender wr = Some (active_delta_version wr)"
  shows "active_outcome_sender (sync_active_version n wr) = Some (max n (active_delta_version wr))"
    "outcome_receivers wr (active_delta_version wr) = Some Waiting \<Longrightarrow> outcome_receivers (sync_active_version n wr) (max n (active_delta_version wr)) = Some Waiting"
    "u < active_delta_version wr \<Longrightarrow> outcome_receivers (sync_active_version n wr) u = outcome_receivers wr u"
    "outcome_receivers wr (active_delta_version wr) = Some Waiting \<Longrightarrow> outcome_receivers (sync_active_version n wr) (active_delta_version wr) \<noteq> Some (Sent oc)"
  using assms by (auto simp: sync_active_version_def Let_def max_def)

lemma sender_fail_step:
  assumes inv: "enc_inv L hi ht P taken inp s" and v: "sender_of (stream_state (es_streams s i)) = Some v"
    and s': "es_streams s' = (es_streams s)(i := fail e (es_streams s i))" "es_output s' = es_output s" "es_world s' = es_world s"
      "es_writer s' = drop_sender v (es_writer s)"
    and d: "redb_inv L hi ht P taken (es_dict s') (es_world s)" "table_map (db (es_dict s)) \<subseteq>\<^sub>m table_map (db (es_dict s'))"
      "es_dict s' = es_dict s \<or> redb_free s"
  shows "enc_inv L hi ht P taken inp s'"
proof -
  have sh: "shared_inv L hi ht P taken s" and acct: "account_inv (table_map (db (es_dict s))) (inp i) (es_streams s i) (es_output s i)"
    using inv by (simp_all add: enc_inv_def)
  note sh' = shared_invD [OF sh]
  have lt: "v < active_delta_version (es_writer s)" using sh'(8) [OF v] by simp
  have "\<exists>m. version_map s u m \<and> m \<subseteq>\<^sub>m table_map (db (es_dict s'))"
    if "u < active_delta_version (es_writer s)" "outcome_receivers (es_writer s) u = Some (Sent Committed)" for u
    using that d(2) by (auto simp: version_map_def)
  moreover have "account_inv (table_map (db (es_dict s'))) (inp i) (es_streams s i) (es_output s i)" using acct d(2) by (rule account_inv_mono)
  ultimately show ?thesis
    using sh'(2,3) lt d by (intro release_step [OF inv v s'(1-3)]) (auto simp: s'(4) fail_ok redb_free_def)
qed

lemma sync_version_step:
  assumes inv: "enc_inv L hi ht P taken inp s" and st: "stream_state (es_streams s i) = SyncingActiveVersion v n"
    and s': "es_streams s' = (es_streams s)(i := handle_conflict n (es_streams s i))" "es_output s' = es_output s" "es_world s' = es_world s"
      "es_writer s' = send_outcome Conflicted v (sync_active_version n (es_writer s))" "es_dict s' = es_dict s"
  shows "enc_inv L hi ht P taken inp s'"
proof -
  let ?a = "active_delta_version (es_writer s)"
  have v: "sender_of (stream_state (es_streams s i)) = Some v" using st by simp
  have sh: "shared_inv L hi ht P taken s" and lc: "local_inv (es_streams s i)"
    and acct: "account_inv (table_map (db (es_dict s))) (inp i) (es_streams s i) (es_output s i)"
    using inv st by (simp_all add: enc_inv_def)
  note sh' = shared_invD [OF sh]
  note sync = sync_active_version_receivers [OF sh'(2)]
  have lt: "v < ?a" using sh'(8) [OF v] by simp
  have com: "\<exists>m. version_map s u m \<and> m \<subseteq>\<^sub>m table_map (db (es_dict s'))"
    if "u \<le> ?a" "outcome_receivers (es_writer s') u = Some (Sent Committed)" for u
  proof -
    have "u \<noteq> v" using that(2) by (auto simp: s'(4))
    then have "u \<noteq> ?a" using that(2) sync(4) [OF sh'(3)] by (auto simp: s'(4))
    then have "version_map s u (table_map (db (es_dict s)))" using that \<open>u \<noteq> v\<close> sync(3) by (simp add: s'(4) version_map_def)
    then show ?thesis using map_le_refl s'(5) by auto
  qed
  have acct': "account_inv (table_map (db (es_dict s'))) (inp i) (es_streams s i) (es_output s i)" using acct by (simp add: s'(5))
  have exh: "is_exhausted (es_streams s i) \<longrightarrow> stream_input (es_streams s i) = []" using lc by (simp add: local_inv_def)
  have nle: "n \<le> active_delta_version (es_writer s')" by (simp add: s'(4))
  note me = conflict_ok [OF acct' exh nle]
  have "v \<noteq> max n ?a" using lt by simp
  then show ?thesis
    using sync sh'(1,3) lt com me by (intro release_step [OF inv v s'(1-3)]) (auto simp: s'(4,5))
qed

section \<open>Every step keeps the invariant\<close>

lemma closed_committed:
  assumes "v < active_delta_version (es_writer s)" "await_version v (es_writer s) = Some (Inr Committed)"
  shows "version_map s v (table_map (db (es_dict s)))"
proof -
  obtain ch where "outcome_receivers (es_writer s) v = Some ch" "await_outcome ch = Some (Inr Committed)"
    using assms(2) by (auto simp: await_version_def split: option.splits)
  then have "outcome_receivers (es_writer s) v = Some (Sent Committed)" by (cases ch) auto
  then show ?thesis using assms(1) by (simp add: version_map_def)
qed

lemma encoding_closed_step:
  assumes inv: "enc_inv L hi ht P taken inp s" and st: "stream_state (es_streams s i) = AwaitingEncoding b v"
    and ready: "ready_to_yield_batches (es_streams s i) = []"
    and q: "v < active_delta_version (es_writer s) \<and> await_version v (es_writer s) = Some q \<or> (\<exists>e. q = Inl e)"
    and ae: "after_encoding (map_ok EncClosed q) (es_streams s i) = (st', dropped)"
  shows "enc_inv L hi ht P taken inp (set_stream i st' s)" "dropped = None"
proof -
  let ?st = "es_streams s i" and ?m = "table_map (db (es_dict s))"
  have lc: "local_inv ?st" "context_inv s ?st" and acct: "account_inv ?m (inp i) ?st (es_output s i)"
    using inv st by (simp_all add: enc_inv_def)
  have iv: "v = intended_delta_version ?st" "active_txn_raw_batches ?st \<noteq> []" and exh: "is_exhausted ?st \<longrightarrow> stream_input ?st = []"
    using lc(1) st by (simp_all add: local_inv_def)
  have fin: "finished_raw ?st = butlast (active_txn_raw_batches ?st)" using st by (simp add: finished_raw_def)
  show "dropped = None" using ae by (cases q) (auto simp: after_encoding_def split: TxnOutcome.splits)
  have "(alive (stream_state st') \<longrightarrow> local_inv st' \<and> context_inv s st') \<and> account_inv ?m (inp i) st' (es_output s i) \<and> sender_of (stream_state st') = None"
  proof (cases q)
    case (Inl e)
    then show ?thesis using ae acct by (auto simp: after_encoding_def fail_ok)
  next
    case (Inr oc)
    then have lt: "v < active_delta_version (es_writer s)" and aw: "await_version v (es_writer s) = Some (Inr oc)" using q by auto
    show ?thesis
    proof (cases oc)
      case Committed
      let ?st2 = "?st\<lparr>active_txn_raw_batches := butlast (active_txn_raw_batches ?st),
        retry_queue := last (active_txn_raw_batches ?st) # retry_queue ?st\<rparr>"
      have "version_map s v ?m" using closed_committed [OF lt] aw Committed by simp
      then have "list_all2 (enc ?m) (active_txn_raw_batches ?st2) (active_txn_encoded_batches ?st2)"
        using lc(2) iv(1) fin by (simp add: context_inv_def)
      moreover have "account_inv ?m (inp i) ?st2 (es_output s i)"
      proof -
        have "mset (active_txn_raw_batches ?st) = add_mset (last (active_txn_raw_batches ?st)) (mset (butlast (active_txn_raw_batches ?st)))"
          using iv(2) by (metis append_butlast_last_id mset.simps(2) mset_append union_code union_commute add_mset_add_single mset.simps(1))
        then show ?thesis using acct by (auto simp: account_inv_def)
      qed
      moreover have "intended_delta_version ?st2 < active_delta_version (es_writer s)" using lt iv(1) by simp
      ultimately have "local_inv (handle_successful_commit ?st2)" "context_inv s (handle_successful_commit ?st2)"
        "account_inv ?m (inp i) (handle_successful_commit ?st2) (es_output s i)" "sender_of (stream_state (handle_successful_commit ?st2)) = None"
        using success_ok [of ?m ?st2] ready exh by simp_all
      moreover have "st' = handle_successful_commit ?st2" using ae Inr Committed by (simp add: after_encoding_def)
      ultimately show ?thesis by simp
    next
      case Conflicted
      have "v + 1 \<le> active_delta_version (es_writer s)" using lt by simp
      from conflict_ok [OF acct exh this] show ?thesis using ae Inr Conflicted iv(1) by (auto simp: after_encoding_def)
    qed
  qed
  then show "enc_inv L hi ht P taken inp (set_stream i st' s)"
    using st by (intro local_step [OF inv, where i = i and st' = st']) simp_all
qed

lemma encoding_step:
  assumes inv: "enc_inv L hi ht P taken inp s" and st: "stream_state (es_streams s i) = AwaitingEncoding b v"
    and ready: "ready_to_yield_batches (es_streams s i) = []"
    and es: "encode_shared L (redb_free s) v b k (es_writer s) (es_dict s) (es_world s) = Some (r, wr, d, w)"
    and ae: "after_encoding r (es_streams s i) = (st', dropped)"
  shows "enc_inv L hi ht P taken inp (set_stream i st' s\<lparr>es_dict := d, es_world := w, es_writer := opt_drop dropped wr\<rparr>)"
proof -
  let ?st = "es_streams s i" and ?a = "active_delta_version (es_writer s)"
  consider "v < ?a" | "v = ?a" | "?a < v" by linarith
  then show ?thesis
  proof cases
    case 1
    then obtain q where q: "await_version v (es_writer s) = Some q" "r = map_ok EncClosed q" "wr = es_writer s" "d = es_dict s" "w = es_world s"
      using es by (auto simp: encode_shared_def)
    note c = encoding_closed_step [OF inv st ready, of q st' dropped]
    show ?thesis using c 1 q ae by (simp add: opt_drop_def)
  next
    case 3
    then obtain e where "r = map_ok EncClosed (Inl e)" "wr = es_writer s" "d = es_dict s" "w = es_world s" using es by (auto simp: encode_shared_def)
    then show ?thesis using encoding_closed_step [OF inv st ready, of "Inl e" st' dropped] ae by (simp add: opt_drop_def)
  next
    case 2
    note st2 = st [unfolded 2]
    have lc: "local_inv ?st" and acct: "account_inv (table_map (db (es_dict s))) (inp i) ?st (es_output s i)"
      and sh: "shared_inv L hi ht P taken s" using inv st by (simp_all add: enc_inv_def)
    note sender = shared_invD(2) [OF sh]
    have raw: "active_txn_raw_batches ?st \<noteq> []" "last (active_txn_raw_batches ?st) = b" and iv: "intended_delta_version ?st = ?a"
      using lc st2 by (simp_all add: local_inv_def)
    have fin: "finished_raw ?st = butlast (active_txn_raw_batches ?st)" using st by (simp add: finished_raw_def)
    obtain o1 where "open_active (redb_free s) (es_writer s) (es_dict s) = Some o1" using es 2 by (auto simp: encode_shared_def split: option.splits)
    moreover from encoded_active_facts [OF inv st2 this] obtain txn where txn: "o1 = Inr txn"
      and facts: "\<And>x txn' d' w'. encode_arrays (encode_array L) b txn (es_dict s) (es_world s) = (x, txn', d', w') \<Longrightarrow>
        encoded_active L hi ht P taken s i txn' d' w' \<and> (\<forall>e. x = Inr e \<longrightarrow> enc (known txn') b e)" by blast
    ultimately have op: "open_active (redb_free s) (es_writer s) (es_dict s) = Some (Inr txn)" by simp
    obtain x txn' d' w' where enc: "encode_arrays (encode_array L) b txn (es_dict s) (es_world s) = (x, txn', d', w')" by (metis prod_cases4)
    note ea = conjunct1 [OF facts [OF enc]]
    note eqs = es [unfolded encode_shared_def, simplified 2, simplified, unfolded op, simplified, unfolded enc, simplified]
    have pushed: "list_all2 (enc (known txn')) (active_txn_raw_batches ?st) (active_txn_encoded_batches ?st @ [e])"
      "list_all2 same_shape (active_txn_raw_batches ?st) (active_txn_encoded_batches ?st @ [e])"
      if "x = Inr e0" "batch_try_new e0 = Inr e" for e0 e
    proof -
      have e: "enc (known txn') b e" "same_shape b e" using facts [OF enc] that enc_shape [of "known txn'" b e0 e] by auto
      have old: "list_all2 (enc (known txn')) (butlast (active_txn_raw_batches ?st)) (active_txn_encoded_batches ?st)"
        "list_all2 same_shape (butlast (active_txn_raw_batches ?st)) (active_txn_encoded_batches ?st)"
        using ea lc fin by (auto simp: encoded_active_def local_inv_def)
      have "active_txn_raw_batches ?st = butlast (active_txn_raw_batches ?st) @ [b]" using raw by (metis append_butlast_last_id)
      then show "list_all2 (enc (known txn')) (active_txn_raw_batches ?st) (active_txn_encoded_batches ?st @ [e])"
        "list_all2 same_shape (active_txn_raw_batches ?st) (active_txn_encoded_batches ?st @ [e])"
        using old e by (metis list_all2_appendI list_all2_Cons list_all2_Nil)+
    qed
    have exh: "is_exhausted ?st \<longrightarrow> stream_input ?st = []" using lc by (simp add: local_inv_def)
    have failed: "enc_inv L hi ht P taken inp (set_stream i (fail e ?st) s\<lparr>es_dict := d', es_world := w', es_writer := (es_writer s)\<lparr>active_txn := Some txn'\<rparr>\<rparr>)" for e
      using acct by (intro buffering_step [OF inv st2 ea HOL.refl]) (simp_all add: fail_ok)
    show ?thesis
    proof (cases x)
      case (Inl e)
      then have "r = Inl (WriterErr ''Failed to encode array'')" "wr = (es_writer s)\<lparr>active_txn := Some txn'\<rparr>" "d = d'" "w = w'"
        using eqs by simp_all
      then show ?thesis using ae failed by (auto simp: after_encoding_def opt_drop_def)
    next
      case (Inr e0)
      show ?thesis
      proof (cases "length (pending_ids txn') > k")
        case True
        then have r: "r = Inr (EncTriggeredCommit e0 ?a txn' ?a)" "wr = next_version (es_writer s)" "d = d'" "w = w'"
          using eqs Inr sender by simp_all
        show ?thesis
        proof (cases "batch_try_new e0")
          case (Inl e)
          then have "st' = fail e ?st" "dropped = Some ?a" using ae r(1) by (simp_all add: after_encoding_def)
          then show ?thesis using st r(2-4) by (intro trigger_fail_step [OF inv _ ea]) (simp_all add: opt_drop_def)
        next
          case e: (Inr e)
          then have st': "st' = push_encoded e ?st\<lparr>stream_state := AwaitingDictionaryDeltaCommit txn' ?a\<rparr>" "dropped = None"
            using ae r(1) by (simp_all add: after_encoding_def)
          have acct': "account_inv (table_map (db (es_dict s))) (inp i) st' (es_output s i)" using acct by (simp add: st' push_encoded_def account_inv_def)
          show ?thesis
            using st r(2-4) pushed [OF Inr e] iv exh acct'
            by (intro trigger_step [OF inv _ ea]) (simp_all add: st' opt_drop_def push_encoded_def local_inv_def finished_raw_def)
        qed
      next
        case False
        then have r: "r = Inr (Buffering e0 ?a)" "wr = (es_writer s)\<lparr>active_txn := Some txn'\<rparr>" "d = d'" "w = w'"
          using eqs Inr by simp_all
        show ?thesis
        proof (cases "batch_try_new e0")
          case (Inl e)
          then show ?thesis using ae r failed by (auto simp: after_encoding_def opt_drop_def)
        next
          case e: (Inr e)
          then have st': "st' = push_encoded e ?st\<lparr>stream_state := ReadyToProcess\<rparr>" "dropped = None" using ae r(1) by (simp_all add: after_encoding_def)
          have acct': "account_inv (table_map (db (es_dict s))) (inp i) st' (es_output s i)" using acct by (simp add: st' push_encoded_def account_inv_def)
          show ?thesis
            using r(2-4) pushed [OF Inr e] iv exh acct'
            by (intro buffering_step [OF inv st2 ea]) (simp_all add: st' opt_drop_def push_encoded_def local_inv_def finished_raw_def)
        qed
      qed
    qed
  qed
qed

end
