(* ===== verification/Object_Id_Stream_Properties.thy ===== *)
theory Object_Id_Stream_Properties
  imports Object_Id_Stream_Invariant
begin

text \<open>
  Every step of the encoding streams keeps their invariant, so in every interleaving of the
  streams, of other nodes and of failures the batches that a stream gives out are encodings of
  its input, each used once, with ids that resolve.
\<close>

section \<open>The remaining steps\<close>

lemma forcing_closed_step:
  assumes inv: "enc_inv L hi ht P taken inp s" and st: "stream_state (es_streams s i) = AwaitingForceCommit v"
    and ready: "ready_to_yield_batches (es_streams s i) = []"
    and q: "v < active_delta_version (es_writer s) \<and> await_version v (es_writer s) = Some q \<or> (\<exists>e. q = Inl e)"
  shows "enc_inv L hi ht P taken inp (set_stream i (after_force_commit (map_ok ForceClosed q) (es_streams s i)) s)"
proof -
  let ?st = "es_streams s i" and ?m = "table_map (db (es_dict s))" and ?st' = "after_force_commit (map_ok ForceClosed q) (es_streams s i)"
  have lc: "local_inv ?st" "context_inv s ?st" and acct: "account_inv ?m (inp i) ?st (es_output s i)"
    using inv st by (simp_all add: enc_inv_def)
  have iv: "v = intended_delta_version ?st" and exh: "is_exhausted ?st \<longrightarrow> stream_input ?st = []"
    using lc(1) st by (simp_all add: local_inv_def)
  have fin: "finished_raw ?st = active_txn_raw_batches ?st" using st by (simp add: finished_raw_def)
  have "(alive (stream_state ?st') \<longrightarrow> local_inv ?st' \<and> context_inv s ?st') \<and> account_inv ?m (inp i) ?st' (es_output s i) \<and> sender_of (stream_state ?st') = None"
  proof (cases q)
    case (Inl e)
    then show ?thesis using acct by (simp add: after_force_commit_def fail_ok)
  next
    case (Inr oc)
    then have lt: "v < active_delta_version (es_writer s)" and aw: "await_version v (es_writer s) = Some (Inr oc)" using q by auto
    show ?thesis
    proof (cases oc)
      case Committed
      have "version_map s v ?m" using closed_committed [OF lt] aw Committed by simp
      then have "list_all2 (enc ?m) (active_txn_raw_batches ?st) (active_txn_encoded_batches ?st)"
        using lc(2) iv fin by (simp add: context_inv_def)
      from success_ok [OF this ready acct exh lt [unfolded iv]] show ?thesis using Inr Committed by (simp add: after_force_commit_def)
    next
      case Conflicted
      have "v + 1 \<le> active_delta_version (es_writer s)" using lt by simp
      from conflict_ok [OF acct exh this] show ?thesis using Inr Conflicted iv by (simp add: after_force_commit_def)
    qed
  qed
  then show ?thesis using st by (intro local_step [OF inv, where i = i and st' = ?st']) simp_all
qed

lemma forcing_step:
  assumes inv: "enc_inv L hi ht P taken inp s" and st: "stream_state (es_streams s i) = AwaitingForceCommit v"
    and ready: "ready_to_yield_batches (es_streams s i) = []"
    and fc: "force_commit v (es_writer s) = Some (r, wr)"
  shows "enc_inv L hi ht P taken inp (set_stream i (after_force_commit r (es_streams s i)) s\<lparr>es_writer := wr\<rparr>)"
proof -
  let ?st = "es_streams s i" and ?a = "active_delta_version (es_writer s)"
  have lc: "local_inv ?st" "context_inv s ?st" and acct: "account_inv (table_map (db (es_dict s))) (inp i) ?st (es_output s i)"
    and sh: "shared_inv L hi ht P taken s" using inv st by (simp_all add: enc_inv_def)
  note sh' = shared_invD [OF sh]
  have iv: "v = intended_delta_version ?st" "active_txn_encoded_batches ?st \<noteq> []" using lc(1) st by (simp_all add: local_inv_def)
  consider "v < ?a" | "v = ?a" | "?a < v" by linarith
  then show ?thesis
  proof cases
    case 1
    then obtain q where "await_version v (es_writer s) = Some q" "r = map_ok ForceClosed q" "wr = es_writer s"
      using fc by (auto simp: force_commit_def)
    then show ?thesis using forcing_closed_step [OF inv st ready, of q] 1 by simp
  next
    case 3
    then obtain e where "r = map_ok ForceClosed (Inl e)" "wr = es_writer s" using fc by (auto simp: force_commit_def)
    then show ?thesis using forcing_closed_step [OF inv st ready, of "Inl e"] by simp
  next
    case 2
    then obtain t where t: "active_txn (es_writer s) = Some t" using lc(2) iv by (auto simp: context_inv_def)
    then have r: "r = Inr (ForceTriggeredCommit ?a t ?a)" "wr = next_version (es_writer s)" using fc 2 sh'(2) by (simp_all add: force_commit_def)
    have "version_map s v (known t)" using 2 t by (simp add: version_map_def)
    then have encs: "list_all2 (enc (known t)) (finished_raw ?st) (active_txn_encoded_batches ?st)" using lc(2) iv(1) by (simp add: context_inv_def)
    then have ea: "encoded_active L hi ht P taken s i t (es_dict s) (es_world s)"
      using sh'(1) sh'(4,5) [OF t] t by (simp add: encoded_active_def)
    have acct': "account_inv (table_map (db (es_dict s))) (inp i) (?st\<lparr>stream_state := AwaitingDictionaryDeltaCommit t ?a\<rparr>) (es_output s i)"
      using acct by (simp add: account_inv_def)
    show ?thesis
      using st 2 iv(1) lc(1) encs acct'
      by (intro trigger_step [OF inv _ ea]) (simp_all add: r after_force_commit_def local_inv_def finished_raw_def)
  qed
qed

lemma yield_step:
  assumes inv: "enc_inv L hi ht P taken inp s" and ready: "ready_to_yield_batches (es_streams s i) = b # bs"
  shows "enc_inv L hi ht P taken inp (set_stream i (es_streams s i\<lparr>ready_to_yield_batches := bs\<rparr>) s\<lparr>es_output := (es_output s)(i := es_output s i @ [b])\<rparr>)"
    (is "enc_inv L hi ht P taken inp ?s'")
proof (rule enc_inv_frame [OF inv, where i = i])
  have sh: "shared_inv L hi ht P taken s" and me: "alive (stream_state (es_streams s i)) \<Longrightarrow> local_inv (es_streams s i) \<and> context_inv s (es_streams s i)"
    and acct: "account_inv (table_map (db (es_dict s))) (inp i) (es_streams s i) (es_output s i)" using inv by (simp_all add: enc_inv_def)
  have same: "es_dict ?s' = es_dict s" "es_writer ?s' = es_writer s" "es_world ?s' = es_world s" by simp_all
  have state: "stream_state (es_streams ?s' j) = stream_state (es_streams s j)" for j by simp
  show "shared_inv L hi ht P taken ?s'" using sh unfolding shared_inv_def same state .
  have vm: "version_map ?s' u m = version_map s u m" for u m by (rule version_map_cong) (simp_all only: same state)
  show "maps_extend s ?s'" unfolding maps_extend_def vm same by auto
  have "local_inv (es_streams ?s' i) = local_inv (es_streams s i)"
    by (cases "stream_state (es_streams s i)") (simp_all add: local_inv_def finished_raw_def)
  moreover have "finished_raw (es_streams s i\<lparr>ready_to_yield_batches := bs\<rparr>) = finished_raw (es_streams s i)"
    by (cases "stream_state (es_streams s i)") (simp_all add: finished_raw_def)
  then have "context_inv ?s' (es_streams ?s' i) = context_inv s (es_streams s i)" using vm by (simp add: context_inv_def)
  ultimately show "local_inv (es_streams ?s' i) \<and> context_inv ?s' (es_streams ?s' i)" if "alive (stream_state (es_streams ?s' i))"
    using me that unfolding state by simp
  show "account_inv (table_map (db (es_dict ?s'))) (inp i) (es_streams ?s' i) (es_output ?s' i)"
    using acct ready by (simp add: account_inv_def)
qed simp

lemma world_step:
  assumes inv: "enc_inv L hi ht P taken inp s" and w: "P w'" "taken (es_world s) \<subseteq> taken w'"
  shows "enc_inv L hi ht P taken inp (s\<lparr>es_world := w'\<rparr>)" (is "enc_inv L hi ht P taken inp ?s'")
proof -
  have sh: "shared_inv L hi ht P taken s" using inv by (simp add: enc_inv_def)
  note sh' = shared_invD [OF sh]
  have t: "txn_inv (taken (es_world s)) d t \<Longrightarrow> txn_inv (taken w') d t" for d t using w(2) by (blast intro: txn_inv_mono)
  have "redb_inv L hi ht P taken (es_dict s) w'"
    using shared_invD(1) [OF sh] w dict_inv_mono by (auto simp: redb_inv_def)
  then have "shared_inv L hi ht P taken ?s'"
    unfolding shared_inv_def using sh'(2,3,5,7-9) t [OF sh'(4)] t [OF sh'(6)] by auto
  moreover have "version_map ?s' u m = version_map s u m" for u m by (simp add: version_map_def)
  then have "context_inv ?s' st = context_inv s st" for st by (simp add: context_inv_def)
  ultimately show ?thesis using inv by (simp add: enc_inv_def)
qed

lemma log_step:
  assumes "enc_inv L hi ht P taken inp s" shows "enc_inv L hi ht P taken inp (s\<lparr>es_log := l\<rparr>)"
  using assms by (simp add: enc_inv_def shared_inv_def context_inv_def version_map_def)

lemma syncs_newD:
  assumes "syncs_new L taken s" "at_state s i (UpdatingLocalDictionary v)"
  shows "sync_new L (taken (es_world s)) (synced_version (es_dict s) + 1) (take k (drop (synced_version (es_dict s)) (es_log s))) (es_dict s)"
    "sync_new L (taken (es_world s)) (synced_version (es_dict s) + 1) (drop (synced_version (es_dict s)) (take k (es_log s))) (es_dict s)"
  using assms unfolding syncs_new_def drop_take by blast+

lemma enc_step_inv:
  assumes inv: "enc_inv L hi ht P taken inp s" and new: "syncs_new L taken s" and step: "enc_step L P taken s s'"
  shows "enc_inv L hi ht P taken inp s'"
  using step
proof cases
  case (yield_batch i b bs)
  then show ?thesis using yield_step [OF inv] by simp
next
  case (initial i)
  let ?st' = "es_streams s i\<lparr>intended_delta_version := active_delta_version (es_writer s), stream_state := ReadyToProcess\<rparr>"
  have lc: "local_inv (es_streams s i)" and acct: "account_inv (table_map (db (es_dict s))) (inp i) (es_streams s i) (es_output s i)"
    using inv initial(2) by (simp_all add: enc_inv_def)
  have "local_inv ?st' \<and> context_inv s ?st'" using lc initial(2) by (simp add: local_inv_def context_inv_def finished_raw_def)
  moreover have "account_inv (table_map (db (es_dict s))) (inp i) ?st' (es_output s i)" using acct by (simp add: account_inv_def)
  ultimately show ?thesis using initial by (intro local_step [OF inv, where i = i and st' = ?st']) simp_all
next
  case (ready i)
  have lc: "local_inv (es_streams s i)" "context_inv s (es_streams s i)"
    and acct: "account_inv (table_map (db (es_dict s))) (inp i) (es_streams s i) (es_output s i)"
    using inv ready(2) by (simp_all add: enc_inv_def)
  note ok = process_ok [OF conjunct2 [OF ready(2)] lc acct]
  show ?thesis using ready ok by (intro local_step [OF inv, where i = i and st' = "process (es_streams s i)"]) simp_all
next
  case (encoding i b v r wr d w st dropped)
  then show ?thesis using encoding_step [OF inv] by blast
next
  case (forcing i v r wr)
  then show ?thesis using forcing_step [OF inv] by blast
next
  case (commit_nothing i txn v)
  then show ?thesis using commit_step [OF inv, of i txn v _ "es_table_version s"] by simp
next
  case (commit_delta i txn v log more k)
  then show ?thesis using commit_step [OF inv, of i txn v _ k] by simp
next
  case (commit_conflict i txn v)
  then show ?thesis using conflict_step [OF inv] by blast
next
  case (commit_error i txn v logged)
  have "redb_inv L hi ht P taken (es_dict s) (es_world s)" using inv by (simp add: enc_inv_def shared_inv_def)
  then show ?thesis using commit_error by (intro sender_fail_step [OF inv, of i v]) simp_all
next
  case (update_lock i v)
  have "redb_inv L hi ht P taken (es_dict s) (es_world s)" using inv by (simp add: enc_inv_def shared_inv_def)
  then show ?thesis
    using update_lock by (intro updating_step [OF inv, where i = i and v = v and q' = "UpdatingLocalDictionary v" and d = "es_dict s" and l = "Some i" and n = "length (es_log s)"]) simp_all
next
  case (load_error i v)
  have "redb_inv L hi ht P taken (es_dict s) (es_world s)" using inv by (simp add: enc_inv_def shared_inv_def)
  then show ?thesis using load_error by (intro sender_fail_step [OF inv, of i v]) simp_all
next
  case (update_version i v sv d)
  have rinv: "redb_inv L hi ht P taken (es_dict s) (es_world s)" using inv by (simp add: enc_inv_def shared_inv_def)
  have "sync_new L (taken (es_world s)) (sv + 1) (take 1 (drop sv (es_log s))) (es_dict s)"
    unfolding update_version(3) by (rule syncs_newD(1) [OF new update_version(2)])
  note ok = sync_ok [OF rinv this update_version(6)]
  have "es_streams s i\<lparr>stream_state := UpdatingLocalDictionary v\<rparr> = es_streams s i"
    using update_version(2) by (simp add: EncodingStream.equality)
  then have s': "s' = set_stream i (es_streams s i\<lparr>stream_state := UpdatingLocalDictionary v\<rparr>) s
      \<lparr>es_dict := d, es_table_lock := es_table_lock s, es_table_version := es_table_version s\<rparr>"
    using update_version(1) by (simp add: EncSystem.equality)
  show ?thesis using update_version(2,5) ok by (intro updating_step [OF inv _ _ s']) simp_all
next
  case (update_sync i v d)
  have "redb_inv L hi ht P taken (es_dict s) (es_world s)" using inv by (simp add: enc_inv_def shared_inv_def)
  note u = update_ok [OF this syncs_newD(2) [OF new update_sync(2)] update_sync(3)]
  show ?thesis using update_sync u
    by (intro updating_step [OF inv, where i = i and v = v and q' = "ReadingDeltaVersion v" and d = d and l = None and n = "es_table_version s"]) simp_all
next
  case (update_error i v txs k r d)
  have rinv: "redb_inv L hi ht P taken (es_dict s) (es_world s)" using inv by (simp add: enc_inv_def shared_inv_def)
  have "d = es_dict s \<or> redb_free s" using update_error(4,5) by (cases txs) auto
  moreover have "redb_inv L hi ht P taken d (es_world s) \<and> table_map (db (es_dict s)) \<subseteq>\<^sub>m table_map (db d)"
    using update_error(5) unfolding update_error(3) by (rule sync_ok [OF rinv syncs_newD(1) [OF new update_error(2)]])
  ultimately show ?thesis using update_error(1,2) by (intro sender_fail_step [OF inv, of i v]) simp_all
next
  case (read_version i v)
  have "redb_inv L hi ht P taken (es_dict s) (es_world s)" using inv by (simp add: enc_inv_def shared_inv_def)
  then show ?thesis
    using read_version
    by (intro updating_step [OF inv, where i = i and v = v and q' = "SyncingActiveVersion v (es_table_version s + 1)" and d = "es_dict s" and l = "es_table_lock s" and n = "es_table_version s"]) simp_all
next
  case (sync_version i v n)
  then show ?thesis by (intro sync_version_step [OF inv, of i v n]) simp_all
next
  case (foreign_commit tx)
  then show ?thesis using log_step [OF inv] by simp
next
  case (others w')
  then show ?thesis using world_step [OF inv] by simp
qed

text \<open>A run in which every pair that an update reads from the table is new to the local dictionary.\<close>

abbreviation enc_steps ::
    "('c, 'd) CacheLib \<Rightarrow> ('w \<Rightarrow> bool) \<Rightarrow> ('w \<Rightarrow> int set) \<Rightarrow> ('c, 'd, 'w) EncSystem \<Rightarrow> ('c, 'd, 'w) EncSystem \<Rightarrow> bool" where
  "enc_steps L P taken \<equiv> (\<lambda>s s'. syncs_new L taken s \<and> enc_step L P taken s s')\<^sup>*\<^sup>*"

lemma enc_steps_inv: "enc_steps L P taken s s' \<Longrightarrow> enc_inv L hi ht P taken inp s \<Longrightarrow> enc_inv L hi ht P taken inp s'"
  by (induction rule: rtranclp_induct) (auto intro: enc_step_inv)

lemma enc_start_inv:
  assumes "redb_inv L hi ht P taken d w"
  shows "enc_inv L hi ht P taken (\<lambda>i. fst (inputs i)) (enc_start d w inputs log)"
  using assms
  by (auto simp: enc_inv_def enc_start_def shared_inv_def writer_new_def encoding_stream_new_def local_inv_def context_inv_def finished_raw_def account_inv_def
      split: prod.split)

section \<open>Properties\<close>

text \<open>The ids of a batch resolve, column by column, to the rows of the batch they were made from.\<close>

definition resolves_to :: "('c, 'd) CacheLib \<Rightarrow> ('c, 'd, 'w) RedbDictionary \<Rightarrow> batch \<Rightarrow> id_batch \<Rightarrow> bool" where
  "resolves_to L d = list_all2 (\<lambda>col ids. \<exists>col'. fst (resolve_plain_terms L ids d) = Some (Inr col') \<and> array_rows col' = array_rows col)"

lemma enc_resolves:
  assumes "redb_inv L hi ht P taken d w" "enc (table_map (db d)) b e"
  shows "resolves_to L d b e"
proof -
  have "\<exists>col'. fst (resolve_plain_terms L ids d) = Some (Inr col') \<and> array_rows col' = array_rows col"
    if "redb.encoded_as (table_map (db d)) col ids" for col ids
    using redb.resolve_encoded [OF assms(1) that] by (metis prod.collapse)
  then show ?thesis using assms(2) unfolding enc_def resolves_to_def by (rule list_all2_mono [rotated])
qed

lemma empty_shape:
  assumes "same_shape b e" "num_rows e = 0" "col \<in> set b"
  shows "array_rows col = []"
proof -
  obtain n where n: "n < length b" "col = b ! n" using assms(3) by (auto simp: in_set_conv_nth)
  have "length (e ! n) = length (array_rows col)" "n < length e" using assms(1) n by (auto simp: same_shape_def list_all2_conv_all_nth)
  moreover have "length (e ! n) = 0" using assms(1,2) calculation(2) by (simp add: same_shape_def list_all_length)
  ultimately show ?thesis by simp
qed

lemma done_leftover:
  assumes "local_inv st" "stream_state st = Done" "b \<in> set (active_txn_raw_batches st)" "col \<in> set b"
  shows "array_rows col = []"
proof -
  have l: "list_all2 same_shape (active_txn_raw_batches st) (active_txn_encoded_batches st)" "sum_list (map num_rows (active_txn_encoded_batches st)) = 0"
    using assms(1,2) by (simp_all add: local_inv_def finished_raw_def)
  obtain e where "e \<in> set (active_txn_encoded_batches st)" "same_shape b e"
    using l(1) assms(3) unfolding list_all2_conv_all_nth in_set_conv_nth by metis
  then show ?thesis using l(2) assms(4) empty_shape by (auto simp: sum_list_eq_0_iff)
qed

text \<open>C2: Take any interleaving of the steps of the streams of one dictionary with each other, with commits and claims
  of other nodes, with conflicts and with errors, in which every pair that a sync reads from the Delta table has a claimed id
  and neither its id nor its term is known to the local dictionary yet, also in the run that made the dictionary. (The code
  does not check that: a commit that reaches the Delta table and then fails locally leads to a run that violates it, see
  lost_commit_reuses_ids.) The cache may drop entries, and the claimer never returns a claimed id again. Then the batches that
  a stream has given out correspond one to one to input batches of that stream (none is encoded twice, none is made up), each
  column of ids resolves in the local dictionary to the rows of its input column, and a stream that ends has given out all
  batches of its input but batches without rows.\<close>

theorem encoding_streams_exactly_once:
  assumes "cache_ok L hi ht" "claimer_ok cl P taken" "P w" "delivers_new taken delivers" "dict_steps L P taken delivers (dict_start L n cl w) s0"
    and "enc_steps L P taken (enc_start (sys_dict s0) (sys_world s0) inputs log) s"
  shows "\<exists>given left. mset given + mset left = mset (oks (fst (inputs i))) \<and>
    list_all2 (resolves_to L (es_dict s)) given (es_output s i) \<and>
    (at_state s i Done \<longrightarrow> (\<forall>b \<in> set left. \<forall>col \<in> set b. array_rows col = []))"
proof -
  let ?st = "es_streams s i"
  have "system_inv hi ht P taken s0" by (rule start_redb_inv [OF assms(1-5)])
  then have "redb_inv L hi ht P taken (sys_dict s0) (sys_world s0)" using assms(1) by (simp add: system_inv_def redb_inv_def)
  then have inv: "enc_inv L hi ht P taken (\<lambda>i. fst (inputs i)) s" by (rule enc_steps_inv [OF assms(6) enc_start_inv])
  then have rinv: "redb_inv L hi ht P taken (es_dict s) (es_world s)" by (simp add: enc_inv_def shared_inv_def)
  obtain src where src: "mset src + mset (retry_queue ?st) + mset (active_txn_raw_batches ?st) + mset (oks (stream_input ?st)) = mset (oks (fst (inputs i)))"
    "list_all2 (enc (table_map (db (es_dict s)))) src (es_output s i @ ready_to_yield_batches ?st)"
    using inv by (auto simp: enc_inv_def account_inv_def)
  obtain given more where split: "src = given @ more" "list_all2 (enc (table_map (db (es_dict s)))) given (es_output s i)"
    "list_all2 (enc (table_map (db (es_dict s)))) more (ready_to_yield_batches ?st)"
    using src(2) by (auto simp: list_all2_append2)
  let ?left = "more @ retry_queue ?st @ active_txn_raw_batches ?st @ oks (stream_input ?st)"
  have "mset given + mset ?left = mset (oks (fst (inputs i)))" using src(1) split(1) by (simp add: ac_simps)
  moreover have "list_all2 (resolves_to L (es_dict s)) given (es_output s i)"
    using split(2) enc_resolves [OF rinv] by (rule list_all2_mono)
  moreover have "\<forall>b \<in> set ?left. \<forall>col \<in> set b. array_rows col = []" if "at_state s i Done"
  proof -
    have lc: "local_inv ?st" using inv that by (simp add: enc_inv_def)
    then have "stream_input ?st = []" "retry_queue ?st = []" "more = []" using that split(3) by (simp_all add: local_inv_def)
    then show ?thesis using done_leftover [OF lc] that by auto
  qed
  ultimately show ?thesis by (intro exI [of _ given] exI [of _ ?left]) simp
qed

section \<open>A concrete run\<close>

text \<open>One stream with one batch: it reads the batch, encodes it, sees the end of its input, forces a commit and gives the ids out.\<close>

abbreviation tiny_dict :: "((int \<times> LocalDictionaryTerm) option, (LocalDictionaryTerm \<times> int) option, int) RedbDictionary" where
  "tiny_dict \<equiv> builder_finish tiny_cache (Some 1) (Some counting_claimer) None"

abbreviation tiny_inputs :: "nat \<Rightarrow> (string, batch) result list \<times> nat \<times> nat" where
  "tiny_inputs \<equiv> \<lambda>i. (if i = 0 then [Inr [two_terms]] else [], 100, 100)"

abbreviation tiny_enc where
  "tiny_enc \<equiv> enc_start tiny_dict 0 tiny_inputs []"

abbreviation tiny_enc_steps where
  "tiny_enc_steps \<equiv> enc_steps tiny_cache (\<lambda>w. 0 \<le> w) (\<lambda>w. {0..<w})"

lemma enc_steps_cons: "syncs_new L taken s \<Longrightarrow> enc_step L P taken s s' \<Longrightarrow> enc_steps L P taken s' s'' \<Longrightarrow> enc_steps L P taken s s''"
  by (rule converse_rtranclp_into_rtranclp) simp_all

lemma no_update_syncs_new: "(\<And>i v. stream_state (es_streams s i) \<noteq> UpdatingLocalDictionary v) \<Longrightarrow> syncs_new L taken s"
  by (simp add: syncs_new_def)

lemma tiny_columns:
  obtains txn' d' w' where "encode_arrays (encode_array tiny_cache) [two_terms] first_txn tiny_dict 0 = (Inr [[Some 0, None, Some 1]], txn', d', w')"
    "length (pending_ids txn') = 2"
proof -
  let ?e = "encode_arrays (encode_array tiny_cache) [two_terms] first_txn tiny_dict 0"
  have "fst ?e = Inr [[Some 0, None, Some 1]]" "length (pending_ids (fst (snd ?e))) = 2" by code_simp+
  then show ?thesis using that by (metis prod.collapse)
qed

lemma two_terms_rows: "length (array_rows two_terms) = 3" "array_rows two_terms \<noteq> []"
  by (simp_all add: array_rows_def)

lemma tiny_run:
  obtains s where "tiny_enc_steps tiny_enc s" "at_state s 0 Done" "es_output s 0 = [[[Some 0, None, Some 1]]]"
proof -
  let ?step = "enc_step tiny_cache (\<lambda>w. 0 \<le> w) (\<lambda>w. {0..<w})" and ?new = "syncs_new tiny_cache (\<lambda>w :: int. {0..<w})"
  let ?ids = "[[Some 0, None, Some 1]] :: id_batch"
  let ?st = "\<lambda>q raw encd ready exh v. \<lparr>stream_input = [], retry_queue = [], active_txn_raw_batches = raw, active_txn_encoded_batches = encd,
     ready_to_yield_batches = ready, intended_delta_version = v, max_buffered_rows = 100, max_buffered_ids = 100, stream_state = q, is_exhausted = exh\<rparr>"
  obtain txn d w where e: "encode_arrays (encode_array tiny_cache) [two_terms] first_txn tiny_dict 0 = (Inr ?ids, txn, d, w)"
    "length (pending_ids txn) = 2" by (rule tiny_columns)
  have b: "begin_txn tiny_dict = Inr first_txn" using tiny_begin by simp
  define s1 where "s1 = set_stream 0 (es_streams tiny_enc 0\<lparr>intended_delta_version := 1, stream_state := ReadyToProcess\<rparr>) tiny_enc"
  have 1: "?step tiny_enc s1"
    using enc_step.initial [where s = tiny_enc and i = 0] by (simp add: s1_def enc_start_def encoding_stream_new_def writer_new_def)
  define s2 where "s2 = set_stream 0 (?st (AwaitingEncoding [two_terms] 1) [[two_terms]] [] [] False 1) s1"
  have 2: "?step s1 s2"
    using enc_step.ready [where s = s1 and i = 0]
    by (simp add: s2_def s1_def enc_start_def encoding_stream_new_def process_def should_force_commit_def start_encoding_def)
  have free: "redb_free s2" by (simp add: redb_free_def s2_def s1_def enc_start_def writer_new_def encoding_stream_new_def)
  have s2: "es_writer s2 = writer_new 1" "es_dict s2 = tiny_dict" "es_world s2 = 0" by (simp_all add: s2_def s1_def enc_start_def)
  define s3 where "s3 = set_stream 0 (?st ReadyToProcess [[two_terms]] [?ids] [] False 1) s2\<lparr>es_dict := d, es_world := w, es_writer := writer_new 1\<lparr>active_txn := Some txn\<rparr>\<rparr>"
  have "encode_shared tiny_cache True 1 [two_terms] 100 (writer_new 1) tiny_dict 0 = Some (Inr (Buffering ?ids 1), writer_new 1\<lparr>active_txn := Some txn\<rparr>, d, w)"
    using e b by (simp add: encode_shared_def writer_new_def open_active_def)
  then have 3: "?step s2 s3"
    using enc_step.encoding [where s = s2 and i = 0 and b = "[two_terms]" and v = 1 and dropped = None] free s2
    by (simp add: s3_def s2_def after_encoding_def batch_try_new_def num_rows_def push_encoded_def opt_drop_def)
  define s4 where "s4 = set_stream 0 (?st ReadyToProcess [[two_terms]] [?ids] [] True 1) s3"
  have 4: "?step s3 s4"
    using enc_step.ready [where s = s3 and i = 0] by (simp add: s4_def s3_def process_def should_force_commit_def num_rows_def)
  define s5 where "s5 = set_stream 0 (?st (AwaitingForceCommit 1) [[two_terms]] [?ids] [] True 1) s4"
  have 5: "?step s4 s5"
    using enc_step.ready [where s = s4 and i = 0] by (simp add: s5_def s4_def process_def should_force_commit_def num_rows_def)
  define s6 where "s6 = set_stream 0 (?st (AwaitingDictionaryDeltaCommit txn 1) [[two_terms]] [?ids] [] True 1) s5\<lparr>es_writer := next_version (es_writer s5)\<rparr>"
  have "force_commit 1 (es_writer s5) = Some (Inr (ForceTriggeredCommit 1 txn 1), next_version (es_writer s5))"
    by (simp add: s5_def s4_def s3_def force_commit_def writer_new_def)
  then have 6: "?step s5 s6"
    using enc_step.forcing [where s = s5 and i = 0 and v = 1 and r = "Inr (ForceTriggeredCommit 1 txn 1)"]
    by (simp add: s6_def s5_def after_force_commit_def)
  define s7 where "s7 = set_stream 0 (handle_successful_commit (es_streams s6 0)) s6\<lparr>es_log := es_log s6 @ [[pending_batch txn]],
      es_table_version := es_table_version s6 + 1, es_dict := commit_txn tiny_cache (es_table_version s6 + 1) txn (es_dict s6),
      es_writer := send_outcome Committed 1 (es_writer s6)\<rparr>"
  have 7: "?step s6 s7"
    unfolding s7_def using e(2)
    by (intro enc_step.commit_delta [where others_txs = "[]"]) (auto simp: s6_def s5_def s4_def s3_def s2_def s1_def enc_start_def)
  define s8 where "s8 = set_stream 0 (es_streams s7 0\<lparr>ready_to_yield_batches := []\<rparr>) s7\<lparr>es_output := (es_output s7)(0 := es_output s7 0 @ [?ids])\<rparr>"
  have 8: "?step s7 s8" unfolding s8_def by (rule enc_step.yield_batch) (simp add: s7_def s6_def handle_successful_commit_def)
  note states = s1_def s2_def s3_def s4_def s5_def s6_def s7_def handle_successful_commit_def enc_start_def encoding_stream_new_def
  have n0: "?new tiny_enc" by (rule no_update_syncs_new) (simp add: enc_start_def encoding_stream_new_def)
  have n1: "?new s1" and n2: "?new s2" and n3: "?new s3" and n4: "?new s4" and n5: "?new s5" and n6: "?new s6" and n7: "?new s7"
    by (rule no_update_syncs_new, simp add: states)+
  have "tiny_enc_steps tiny_enc s8"
    by (rule enc_steps_cons [OF n0 1], rule enc_steps_cons [OF n1 2], rule enc_steps_cons [OF n2 3], rule enc_steps_cons [OF n3 4], rule enc_steps_cons [OF n4 5], rule enc_steps_cons [OF n5 6], rule enc_steps_cons [OF n6 7], rule enc_steps_cons [OF n7 8], rule rtranclp.rtrancl_refl)
  moreover have "at_state s8 0 Done" by (simp add: s8_def s7_def s6_def handle_successful_commit_def)
  moreover have "es_output s8 0 = [?ids]" by (simp add: s8_def s7_def s6_def s5_def s4_def s3_def s2_def s1_def enc_start_def)
  ultimately show ?thesis by (rule that)
qed

theorem encoding_streams_exactly_once_witness:
  "\<exists>s. tiny_enc_steps tiny_enc s \<and> at_state s 0 Done \<and> es_output s 0 = [[[Some 0, None, Some 1]]] \<and>
     resolves_to tiny_cache (es_dict s) [two_terms] [[Some 0, None, Some 1]]"
proof -
  obtain s where s: "tiny_enc_steps tiny_enc s" "at_state s 0 Done" "es_output s 0 = [[[Some 0, None, Some 1]]]" by (rule tiny_run)
  have "\<exists>given left. mset given + mset left = mset (oks (fst (tiny_inputs 0))) \<and>
      list_all2 (resolves_to tiny_cache (es_dict s)) given (es_output s 0) \<and>
      (at_state s 0 Done \<longrightarrow> (\<forall>b \<in> set left. \<forall>col \<in> set b. array_rows col = []))"
    by (rule encoding_streams_exactly_once [OF tiny_cache_ok counting_claimer_ok _ new_rows_ok rtranclp.rtrancl_refl, where n = "Some 1" and w = 0 and log = "[]"])
      (use s(1) in simp_all)
  then obtain g left where g: "mset [g] + mset left = mset [[two_terms]]" "resolves_to tiny_cache (es_dict s) g [[Some 0, None, Some 1]]"
    using s(3) by (auto simp: list_all2_Cons2)
  then have "g = [two_terms]" by (auto simp: add_mset_eq_single)
  then show ?thesis using s g(2) by blast
qed

section \<open>Streams that fail or block\<close>

text \<open>Two commits reach the Delta table and fail locally: the claim of the first is not stored, so the second uses its id again.
  The sync of the two versions then gives one id to two terms, and the first term resolves to the second.\<close>

abbreviation iri_column :: "string \<Rightarrow> PlainTermArray" where
  "iri_column x \<equiv> \<lparr>null_buffer = [True], term_type = [Some 0], value_col = [Some x], data_type = [None], language_tag = [None]\<rparr>"

abbreviation used_dict where
  "used_dict \<equiv> (let (_, txn, d, _) = encode_array tiny_cache (iri_column ''a'') first_txn tiny_dict 0 in commit_txn tiny_cache 1 txn d)"

definition failed_commit :: "string \<Rightarrow> (int option list \<times> GlobalBatch) option" where
  "failed_commit x =
     (case begin_txn used_dict of
        Inr txn \<Rightarrow>
          (case encode_array tiny_cache (iri_column x) txn used_dict 10 of
             (Inr ids, txn', _) \<Rightarrow> Some (ids, pending_batch txn')
           | _ \<Rightarrow> None)
      | _ \<Rightarrow> None)"

theorem lost_commit_reuses_ids:
  "map_option fst (failed_commit ''b'') = Some [Some 1]" "map_option fst (failed_commit ''c'') = Some [Some 1]"
  "let d = snd (sync_incrementally tiny_cache 2 [[snd (the (failed_commit ''b''))], [snd (the (failed_commit ''c''))]] used_dict)
   in table_map (db d) (redb_row (iri_column ''b'') 0) = Some 1 \<and> map_of (id_to_term (db d)) 1 = Some (redb_row (iri_column ''c'') 0)"
  by code_simp+

text \<open>When a conflict moves the writer past its active version, the sender of that version is dropped, and a stream that
  wants to encode for it fails although nothing of it was lost.\<close>

theorem skipped_version_fails:
  assumes "active_outcome_sender wr = Some (active_delta_version wr)" "outcome_receivers wr (active_delta_version wr) = Some Waiting"
    "active_delta_version wr < n"
  shows "encode_shared L can_begin (active_delta_version wr) cols k (sync_active_version n wr) d w =
    Some (Inl (WriterErr ''Sender dropped without outcome''), sync_active_version n wr, d, w)"
  using assms by (simp add: encode_shared_def await_version_def sync_active_version_def drop_sender_def)

text \<open>A stream that updates the dictionary holds the lock of the table and waits for the write transaction; a stream that
  owns the transaction waits for the lock. Neither of them, nor a commit of any other stream, can go on.\<close>

theorem update_commit_deadlock:
  assumes "stream_state (es_streams s i) = UpdatingLocalDictionary v" "es_table_lock s = Some i"
    and "stream_state (es_streams s j) = AwaitingDictionaryDeltaCommit txn u"
    and "get_synced_version (es_dict s) = Inr sv" "unwrap_or sv 0 < es_table_version s" "es_table_version s \<le> length (es_log s)"
  shows "update_local_dictionary L (redb_free s) (take (es_table_version s) (es_log s)) (es_dict s) = None \<and> es_table_lock s \<noteq> None"
proof -
  have "\<not> redb_free s" using assms(3) by (auto simp: redb_free_def) (metis holds_txn.simps(1))
  then show ?thesis using assms(2,4-6) by (simp add: update_local_dictionary_def)
qed

end
