(* ===== verification/Xsd_Integer.thy ===== *)
theory Xsd_Integer
  imports Checked_Arith
begin

text \<open>
  The XSD value types \<open>Boolean\<close>, \<open>Int\<close> and \<open>Integer\<close> of
  \<open>lib/common/src/xsd/\<close> (\<open>boolean.rs\<close>, \<open>int.rs\<close>, \<open>integer.rs\<close>):
  their structs, constructors, checked operations, conversions and byte forms.
  \<open>Int\<close> wraps an \<open>i32\<close>, \<open>Integer\<close> an \<open>i64\<close>.
\<close>

section \<open>Data\<close>

record Boolean =
  boolean_value :: bool

record XsdInt =
  int_value :: int

record Integer =
  integer_value :: int

definition int_wf :: "XsdInt \<Rightarrow> bool" where
  "int_wf x \<longleftrightarrow> in_int 32 (int_value x)"

definition integer_wf :: "Integer \<Rightarrow> bool" where
  "integer_wf x \<longleftrightarrow> in_int 64 (integer_value x)"

section \<open>Integer\<close>

definition integer_MAX :: Integer where
  "integer_MAX = \<lparr>integer_value = int_max 64\<rparr>"

definition integer_MIN :: Integer where
  "integer_MIN = \<lparr>integer_value = int_min 64\<rparr>"

definition integer_from_be_bytes :: "nat list \<Rightarrow> Integer" where
  "integer_from_be_bytes bytes = \<lparr>integer_value = from_be_bytes bytes\<rparr>"

definition integer_to_be_bytes :: "Integer \<Rightarrow> nat list" where
  "integer_to_be_bytes self = to_be_bytes 8 (integer_value self)"

definition integer_checked_add :: "Integer \<Rightarrow> Integer \<Rightarrow> Integer thin_result" where
  "integer_checked_add self rhs =
     and_then (ok_or (i_checked_add 64 (integer_value self) (integer_value rhs)) ExpectedError)
       (\<lambda>v. Inr \<lparr>integer_value = v\<rparr>)"

definition integer_checked_sub :: "Integer \<Rightarrow> Integer \<Rightarrow> Integer thin_result" where
  "integer_checked_sub self rhs =
     and_then (ok_or (i_checked_sub 64 (integer_value self) (integer_value rhs)) ExpectedError)
       (\<lambda>v. Inr \<lparr>integer_value = v\<rparr>)"

definition integer_checked_mul :: "Integer \<Rightarrow> Integer \<Rightarrow> Integer thin_result" where
  "integer_checked_mul self rhs =
     and_then (ok_or (i_checked_mul 64 (integer_value self) (integer_value rhs)) ExpectedError)
       (\<lambda>v. Inr \<lparr>integer_value = v\<rparr>)"

definition integer_checked_div :: "Integer \<Rightarrow> Integer \<Rightarrow> Integer thin_result" where
  "integer_checked_div self rhs =
     and_then (ok_or (i_checked_div 64 (integer_value self) (integer_value rhs)) ExpectedError)
       (\<lambda>v. Inr \<lparr>integer_value = v\<rparr>)"

definition integer_checked_rem :: "Integer \<Rightarrow> Integer \<Rightarrow> Integer thin_result" where
  "integer_checked_rem self rhs =
     and_then (ok_or (i_checked_rem 64 (integer_value self) (integer_value rhs)) ExpectedError)
       (\<lambda>v. Inr \<lparr>integer_value = v\<rparr>)"

definition integer_checked_rem_euclid :: "Integer \<Rightarrow> Integer \<Rightarrow> Integer thin_result" where
  "integer_checked_rem_euclid self rhs =
     and_then
       (ok_or (i_checked_rem_euclid 64 (integer_value self) (integer_value rhs)) ExpectedError)
       (\<lambda>v. Inr \<lparr>integer_value = v\<rparr>)"

definition integer_checked_neg :: "Integer \<Rightarrow> Integer thin_result" where
  "integer_checked_neg self =
     ok_or (map_option (\<lambda>value. \<lparr>integer_value = value\<rparr>) (i_checked_neg 64 (integer_value self)))
       ExpectedError"

definition integer_checked_abs :: "Integer \<Rightarrow> Integer thin_result" where
  "integer_checked_abs self =
     ok_or (map_option (\<lambda>value. \<lparr>integer_value = value\<rparr>) (i_checked_abs 64 (integer_value self)))
       ExpectedError"

definition integer_is_negative :: "Integer \<Rightarrow> bool" where
  "integer_is_negative self \<longleftrightarrow> integer_value self < 0"

definition integer_is_positive :: "Integer \<Rightarrow> bool" where
  "integer_is_positive self \<longleftrightarrow> integer_value self > 0"

definition integer_is_identical_with :: "Integer \<Rightarrow> Integer \<Rightarrow> bool" where
  "integer_is_identical_with self other \<longleftrightarrow> self = other"

definition integer_from_bool :: "bool \<Rightarrow> Integer" where
  "integer_from_bool value = \<lparr>integer_value = of_bool value\<rparr>"

definition integer_from :: "int \<Rightarrow> Integer" where
  "integer_from value = \<lparr>integer_value = value\<rparr>"

definition integer_from_Boolean :: "Boolean \<Rightarrow> Integer" where
  "integer_from_Boolean value = integer_from_bool (boolean_value value)"

definition integer_from_Int :: "XsdInt \<Rightarrow> Integer" where
  "integer_from_Int value = integer_from (int_value value)"

section \<open>Int\<close>

definition int_MAX :: XsdInt where
  "int_MAX = \<lparr>int_value = int_max 32\<rparr>"

definition int_MIN :: XsdInt where
  "int_MIN = \<lparr>int_value = int_min 32\<rparr>"

definition int_from_be_bytes :: "nat list \<Rightarrow> XsdInt" where
  "int_from_be_bytes bytes = \<lparr>int_value = from_be_bytes bytes\<rparr>"

definition int_to_be_bytes :: "XsdInt \<Rightarrow> nat list" where
  "int_to_be_bytes self = to_be_bytes 4 (int_value self)"

definition int_checked_add :: "XsdInt \<Rightarrow> XsdInt \<Rightarrow> XsdInt thin_result" where
  "int_checked_add self rhs =
     and_then (ok_or (i_checked_add 32 (int_value self) (int_value rhs)) ExpectedError)
       (\<lambda>v. Inr \<lparr>int_value = v\<rparr>)"

definition int_checked_sub :: "XsdInt \<Rightarrow> XsdInt \<Rightarrow> XsdInt thin_result" where
  "int_checked_sub self rhs =
     and_then (ok_or (i_checked_sub 32 (int_value self) (int_value rhs)) ExpectedError)
       (\<lambda>v. Inr \<lparr>int_value = v\<rparr>)"

definition int_checked_mul :: "XsdInt \<Rightarrow> XsdInt \<Rightarrow> XsdInt thin_result" where
  "int_checked_mul self rhs =
     and_then (ok_or (i_checked_mul 32 (int_value self) (int_value rhs)) ExpectedError)
       (\<lambda>v. Inr \<lparr>int_value = v\<rparr>)"

definition int_checked_div :: "XsdInt \<Rightarrow> XsdInt \<Rightarrow> XsdInt thin_result" where
  "int_checked_div self rhs =
     and_then (ok_or (i_checked_div 32 (int_value self) (int_value rhs)) ExpectedError)
       (\<lambda>v. Inr \<lparr>int_value = v\<rparr>)"

definition int_checked_rem :: "XsdInt \<Rightarrow> XsdInt \<Rightarrow> XsdInt thin_result" where
  "int_checked_rem self rhs =
     and_then (ok_or (i_checked_rem 32 (int_value self) (int_value rhs)) ExpectedError)
       (\<lambda>v. Inr \<lparr>int_value = v\<rparr>)"

definition int_checked_rem_euclid :: "XsdInt \<Rightarrow> XsdInt \<Rightarrow> XsdInt thin_result" where
  "int_checked_rem_euclid self rhs =
     and_then (ok_or (i_checked_rem_euclid 32 (int_value self) (int_value rhs)) ExpectedError)
       (\<lambda>v. Inr \<lparr>int_value = v\<rparr>)"

definition int_checked_neg :: "XsdInt \<Rightarrow> XsdInt thin_result" where
  "int_checked_neg self =
     and_then (ok_or (i_checked_neg 32 (int_value self)) ExpectedError)
       (\<lambda>v. Inr \<lparr>int_value = v\<rparr>)"

definition int_checked_abs :: "XsdInt \<Rightarrow> XsdInt thin_result" where
  "int_checked_abs self =
     and_then (ok_or (i_checked_abs 32 (int_value self)) ExpectedError)
       (\<lambda>v. Inr \<lparr>int_value = v\<rparr>)"

definition int_from :: "int \<Rightarrow> XsdInt" where
  "int_from value = \<lparr>int_value = value\<rparr>"

definition int_from_bool :: "bool \<Rightarrow> XsdInt" where
  "int_from_bool value = \<lparr>int_value = of_bool value\<rparr>"

section \<open>Boolean\<close>

datatype parse_bool_error = ParseBoolError

definition boolean_from_be_bytes :: "nat list \<Rightarrow> Boolean" where
  "boolean_from_be_bytes bytes = \<lparr>boolean_value = (bytes ! 0 = 1)\<rparr>"

definition boolean_to_be_bytes :: "Boolean \<Rightarrow> nat list" where
  "boolean_to_be_bytes self = [of_bool (boolean_value self)]"

definition boolean_from_bool :: "bool \<Rightarrow> Boolean" where
  "boolean_from_bool value = \<lparr>boolean_value = value\<rparr>"

definition boolean_from_Int :: "XsdInt \<Rightarrow> Boolean" where
  "boolean_from_Int value = boolean_from_bool (value \<noteq> int_from 0)"

definition boolean_from_Integer :: "Integer \<Rightarrow> Boolean" where
  "boolean_from_Integer value = boolean_from_bool (value \<noteq> integer_from 0)"

text \<open>\<open>bool::from_str\<close> of the standard library accepts exactly the two words.\<close>

definition bool_from_str :: "string \<Rightarrow> (parse_bool_error, bool) result" where
  "bool_from_str input =
     (if input = ''true'' then Inr True else if input = ''false'' then Inr False
      else Inl ParseBoolError)"

definition boolean_from_str :: "string \<Rightarrow> (parse_bool_error, Boolean) result" where
  "boolean_from_str input =
     map_ok boolean_from_bool
       (if input = ''true'' \<or> input = ''1'' then Inr True
        else if input = ''false'' \<or> input = ''0'' then Inr False
        else bool_from_str input)"

definition boolean_display :: "Boolean \<Rightarrow> string" where
  "boolean_display self = (if boolean_value self then ''true'' else ''false'')"

section \<open>The checked-arithmetic contract\<close>

lemmas integer_op_defs =
  integer_checked_add_def integer_checked_sub_def integer_checked_mul_def
  integer_checked_div_def integer_checked_rem_def integer_checked_rem_euclid_def
  integer_checked_neg_def integer_checked_abs_def

lemmas int_op_defs =
  int_checked_add_def int_checked_sub_def int_checked_mul_def
  int_checked_div_def int_checked_rem_def int_checked_rem_euclid_def
  int_checked_neg_def int_checked_abs_def

lemma integer_eq_iff: "(x :: Integer) = y \<longleftrightarrow> integer_value x = integer_value y"
  by (cases x; cases y) simp

lemma int_eq_iff: "(x :: XsdInt) = y \<longleftrightarrow> int_value x = int_value y"
  by (cases x; cases y) simp

interpretation integer_add: checked_additive 64 integer_value
  integer_checked_add integer_checked_sub integer_checked_neg
  by unfold_locales
    (auto simp: integer_op_defs integer_eq_iff and_then_eq_Inr_iff intro: exI [of _ "integer_from _"]
      simp: integer_from_def)

interpretation int_add: checked_additive 32 int_value
  int_checked_add int_checked_sub int_checked_neg
  by unfold_locales
    (auto simp: int_op_defs int_eq_iff and_then_eq_Inr_iff intro: exI [of _ "int_from _"]
      simp: int_from_def)

end
