(* ===== verification/Xsd_Decimal.thy ===== *)
theory Xsd_Decimal
  imports Xsd_Integer Complex_Main
begin

text \<open>
  The fixed-point \<open>Decimal\<close> of \<open>lib/common/src/xsd/decimal.rs\<close>: an \<open>i128\<close>
  that stores the value multiplied by ten to the eighteenth. This theory holds the
  struct, its constructors and conversions, the checked arithmetic and the rounding
  functions; the lexical form is in the theory \<open>Xsd_Decimal_Text\<close>.
\<close>

section \<open>Data and constructors\<close>

record Decimal =
  dec_value :: int

datatype too_large_error = TooLargeForDecimalError | TooLargeForIntegerError | TooLargeForIntError

definition DECIMAL_PART_DIGITS :: nat where
  "DECIMAL_PART_DIGITS = 18"

definition DECIMAL_PART_POW :: int where
  "DECIMAL_PART_POW = 1000000000000000000"

definition DECIMAL_PART_POW_MINUS_ONE :: int where
  "DECIMAL_PART_POW_MINUS_ONE = 100000000000000000"

definition dec_wf :: "Decimal \<Rightarrow> bool" where
  "dec_wf d \<longleftrightarrow> in_int 128 (dec_value d)"

definition decimal_MAX :: Decimal where
  "decimal_MAX = \<lparr>dec_value = int_max 128\<rparr>"

definition decimal_MIN :: Decimal where
  "decimal_MIN = \<lparr>dec_value = int_min 128\<rparr>"

definition decimal_default :: Decimal where
  "decimal_default = \<lparr>dec_value = 0\<rparr>"

definition decimal_new :: "int \<Rightarrow> nat \<Rightarrow> (too_large_error, Decimal) result" where
  "decimal_new i n =
     (case u_checked_sub DECIMAL_PART_DIGITS n of
        None \<Rightarrow> Inl TooLargeForDecimalError
      | Some shift \<Rightarrow>
          (case i_checked_mul 128 i (10 ^ shift) of
             None \<Rightarrow> Inl TooLargeForDecimalError
           | Some value \<Rightarrow> Inr \<lparr>dec_value = value\<rparr>))"

definition decimal_from_be_bytes :: "nat list \<Rightarrow> Decimal" where
  "decimal_from_be_bytes bytes = \<lparr>dec_value = from_be_bytes bytes\<rparr>"

definition decimal_to_be_bytes :: "Decimal \<Rightarrow> nat list" where
  "decimal_to_be_bytes self = to_be_bytes 16 (dec_value self)"

text \<open>The conversions from \<open>i8\<close> to \<open>u64\<close> all multiply by the scale without a
  check: the product of a 64-bit value and the scale stays inside \<open>i128\<close>.\<close>

definition decimal_from :: "int \<Rightarrow> Decimal" where
  "decimal_from value = \<lparr>dec_value = value * DECIMAL_PART_POW\<rparr>"

definition decimal_from_bool :: "bool \<Rightarrow> Decimal" where
  "decimal_from_bool value = \<lparr>dec_value = of_bool value * DECIMAL_PART_POW\<rparr>"

definition decimal_from_Int :: "XsdInt \<Rightarrow> Decimal" where
  "decimal_from_Int value = decimal_from (int_value value)"

definition decimal_from_Integer :: "Integer \<Rightarrow> Decimal" where
  "decimal_from_Integer value = decimal_from (integer_value value)"

definition decimal_from_Boolean :: "Boolean \<Rightarrow> Decimal" where
  "decimal_from_Boolean value = decimal_from_bool (boolean_value value)"

definition decimal_try_from_i128 :: "int \<Rightarrow> (too_large_error, Decimal) result" where
  "decimal_try_from_i128 value =
     and_then (ok_or (i_checked_mul 128 value DECIMAL_PART_POW) TooLargeForDecimalError)
       (\<lambda>v. Inr \<lparr>dec_value = v\<rparr>)"

definition int_try_from_Decimal :: "Decimal \<Rightarrow> (too_large_error, XsdInt) result" where
  "int_try_from_Decimal value =
     and_then (ok_or (i_checked_div 128 (dec_value value) DECIMAL_PART_POW) TooLargeForIntError)
       (\<lambda>q. map_ok int_from (ok_or (checked_int 32 q) TooLargeForIntError))"

definition integer_try_from_Decimal :: "Decimal \<Rightarrow> (too_large_error, Integer) result" where
  "integer_try_from_Decimal value =
     and_then
       (ok_or (i_checked_div 128 (dec_value value) DECIMAL_PART_POW) TooLargeForIntegerError)
       (\<lambda>q. map_ok integer_from (ok_or (checked_int 64 q) TooLargeForIntegerError))"

definition int_try_from_Integer :: "Integer \<Rightarrow> (too_large_error, XsdInt) result" where
  "int_try_from_Integer value = int_try_from_Decimal (decimal_from_Integer value)"

definition boolean_from_Decimal :: "Decimal \<Rightarrow> Boolean" where
  "boolean_from_Decimal value = boolean_from_bool (value \<noteq> decimal_from 0)"

section \<open>Checked arithmetic\<close>

definition decimal_checked_add :: "Decimal \<Rightarrow> Decimal \<Rightarrow> Decimal thin_result" where
  "decimal_checked_add self rhs =
     and_then (ok_or (i_checked_add 128 (dec_value self) (dec_value rhs)) ExpectedError)
       (\<lambda>v. Inr \<lparr>dec_value = v\<rparr>)"

definition decimal_checked_sub :: "Decimal \<Rightarrow> Decimal \<Rightarrow> Decimal thin_result" where
  "decimal_checked_sub self rhs =
     and_then (ok_or (i_checked_sub 128 (dec_value self) (dec_value rhs)) ExpectedError)
       (\<lambda>v. Inr \<lparr>dec_value = v\<rparr>)"

text \<open>
  The loop \<open>while v % 10 == 0 { v /= 10; shift += 1 }\<close>, which the code enters for
  \<open>v != 0\<close> only; the guard is repeated in the recursion, where it stays true.
\<close>

function strip_zeros :: "int \<Rightarrow> nat \<Rightarrow> int \<times> nat" where
  "strip_zeros v shift =
     (if v \<noteq> 0 \<and> v smod 10 = 0 then strip_zeros (v sdiv 10) (shift + 1) else (v, shift))"
  by pat_completeness auto
termination
proof (relation "measure (\<lambda>(v, shift). nat \<bar>v\<bar>)")
  fix v :: int and shift :: nat
  assume "v \<noteq> 0 \<and> v smod 10 = 0"
  then have "v sdiv 10 * 10 = v" "v \<noteq> 0" by (auto simp: smod_eq_0_iff sdiv_exact)
  then have "\<bar>v sdiv 10\<bar> * 10 = \<bar>v\<bar>" by (metis abs_mult abs_numeral)
  with \<open>v \<noteq> 0\<close> show "((v sdiv 10, shift + 1), v, shift) \<in> measure (\<lambda>(v, shift). nat \<bar>v\<bar>)"
    by simp
qed simp

declare strip_zeros.simps [simp del]

text \<open>The loop \<open>while let Some(r) = left.checked_mul(10) { left = r; shift += 1 }\<close>.\<close>

function grow :: "int \<Rightarrow> nat \<Rightarrow> int \<times> nat" where
  "grow v shift =
     (if v = 0 then (v, shift)
      else case i_checked_mul 128 v 10 of
             None \<Rightarrow> (v, shift)
           | Some r \<Rightarrow> grow r (shift + 1))"
  by pat_completeness auto
termination
proof (relation "measure (\<lambda>(v, shift). nat (2 ^ 128 - \<bar>v\<bar>))")
  fix v r :: int and shift :: nat
  assume "v \<noteq> 0" "i_checked_mul 128 v 10 = Some r"
  then have "r = v * 10" "- (2 ^ 127) \<le> v * 10" "v * 10 < 2 ^ 127"
    by (simp_all add: in_int_def)
  with \<open>v \<noteq> 0\<close> show "((r, shift + 1), v, shift) \<in> measure (\<lambda>(v, shift). nat (2 ^ 128 - \<bar>v\<bar>))"
    by (auto simp: abs_if)
qed simp

declare grow.simps [simp del]

definition decimal_checked_mul :: "Decimal \<Rightarrow> Decimal \<Rightarrow> Decimal thin_result" where
  "decimal_checked_mul self rhs =
     (let (left, shift_left) = strip_zeros (dec_value self) 0;
          (right, shift_right) = strip_zeros (dec_value rhs) 0
      in and_then (ok_or (u_checked_sub (shift_left + shift_right) DECIMAL_PART_DIGITS) ExpectedError)
           (\<lambda>shift.
         and_then (ok_or (i_checked_mul 128 left right) ExpectedError)
           (\<lambda>prod.
         and_then (ok_or (i_checked_pow 128 10 shift) ExpectedError)
           (\<lambda>pow.
         and_then (ok_or (i_checked_mul 128 prod pow) ExpectedError)
           (\<lambda>v. Inr \<lparr>dec_value = v\<rparr>)))))"

definition decimal_checked_div :: "Decimal \<Rightarrow> Decimal \<Rightarrow> Decimal thin_result" where
  "decimal_checked_div self rhs =
     (let (left, shift_left) = grow (dec_value self) 0;
          (right, shift_right) = strip_zeros (dec_value rhs) 0
      in and_then (ok_or (u_checked_sub (shift_left + shift_right) DECIMAL_PART_DIGITS) ExpectedError)
           (\<lambda>shift.
         and_then (ok_or (i_checked_div 128 left right) ExpectedError)
           (\<lambda>quot.
         and_then (ok_or (i_checked_pow 128 10 shift) ExpectedError)
           (\<lambda>pow.
         and_then (ok_or (i_checked_div 128 quot pow) ExpectedError)
           (\<lambda>v. Inr \<lparr>dec_value = v\<rparr>)))))"

definition decimal_checked_rem :: "Decimal \<Rightarrow> Decimal \<Rightarrow> Decimal option" where
  "decimal_checked_rem self rhs =
     map_option (\<lambda>v. \<lparr>dec_value = v\<rparr>) (i_checked_rem 128 (dec_value self) (dec_value rhs))"

definition decimal_checked_rem_euclid :: "Decimal \<Rightarrow> Decimal \<Rightarrow> Decimal option" where
  "decimal_checked_rem_euclid self rhs =
     map_option (\<lambda>v. \<lparr>dec_value = v\<rparr>) (i_checked_rem_euclid 128 (dec_value self) (dec_value rhs))"

definition decimal_checked_neg :: "Decimal \<Rightarrow> Decimal thin_result" where
  "decimal_checked_neg self =
     and_then (ok_or (i_checked_neg 128 (dec_value self)) ExpectedError)
       (\<lambda>v. Inr \<lparr>dec_value = v\<rparr>)"

definition decimal_checked_abs :: "Decimal \<Rightarrow> Decimal thin_result" where
  "decimal_checked_abs self =
     and_then (ok_or (i_checked_abs 128 (dec_value self)) ExpectedError)
       (\<lambda>v. Inr \<lparr>dec_value = v\<rparr>)"

section \<open>Rounding and predicates\<close>

definition decimal_checked_round :: "Decimal \<Rightarrow> Decimal thin_result" where
  "decimal_checked_round self =
     (let value = dec_value self sdiv DECIMAL_PART_POW_MINUS_ONE
      in and_then
           (ok_or
             (i_checked_mul 128
               (if value \<ge> 0 then value sdiv 10 + of_bool (value smod 10 \<ge> 5)
                else value sdiv 10 - of_bool ((- value) smod 10 > 5))
               DECIMAL_PART_POW)
             ExpectedError)
           (\<lambda>v. Inr \<lparr>dec_value = v\<rparr>))"

definition decimal_checked_ceil :: "Decimal \<Rightarrow> Decimal thin_result" where
  "decimal_checked_ceil self =
     and_then
       (ok_or
         (i_checked_mul 128
           (if dec_value self > 0 \<and> dec_value self smod DECIMAL_PART_POW \<noteq> 0
            then dec_value self sdiv DECIMAL_PART_POW + 1
            else dec_value self sdiv DECIMAL_PART_POW)
           DECIMAL_PART_POW)
         ExpectedError)
       (\<lambda>v. Inr \<lparr>dec_value = v\<rparr>)"

definition decimal_checked_floor :: "Decimal \<Rightarrow> Decimal thin_result" where
  "decimal_checked_floor self =
     and_then
       (ok_or
         (i_checked_mul 128
           (if dec_value self \<ge> 0 \<or> dec_value self smod DECIMAL_PART_POW = 0
            then dec_value self sdiv DECIMAL_PART_POW
            else dec_value self sdiv DECIMAL_PART_POW - 1)
           DECIMAL_PART_POW)
         ExpectedError)
       (\<lambda>v. Inr \<lparr>dec_value = v\<rparr>)"

definition decimal_is_negative :: "Decimal \<Rightarrow> bool" where
  "decimal_is_negative self \<longleftrightarrow> dec_value self < 0"

definition decimal_is_positive :: "Decimal \<Rightarrow> bool" where
  "decimal_is_positive self \<longleftrightarrow> dec_value self > 0"

definition decimal_is_identical_with :: "Decimal \<Rightarrow> Decimal \<Rightarrow> bool" where
  "decimal_is_identical_with self other \<longleftrightarrow> self = other"

definition decimal_as_i128 :: "Decimal \<Rightarrow> int" where
  "decimal_as_i128 self = dec_value self sdiv DECIMAL_PART_POW"

definition decimal_is_zero :: "Decimal \<Rightarrow> bool" where
  "decimal_is_zero self \<longleftrightarrow> dec_value self = 0"

section \<open>The checked-arithmetic contract\<close>

lemmas decimal_consts [simp] =
  DECIMAL_PART_DIGITS_def DECIMAL_PART_POW_def DECIMAL_PART_POW_MINUS_ONE_def

lemma decimal_eq_iff: "(x :: Decimal) = y \<longleftrightarrow> dec_value x = dec_value y"
  by (cases x; cases y) simp

lemma decimal_value_surj: "\<exists>x :: Decimal. dec_value x = i"
  by (rule exI [of _ "\<lparr>dec_value = i\<rparr>"]) simp

interpretation decimal_add: checked_additive 128 dec_value
  decimal_checked_add decimal_checked_sub decimal_checked_neg
  by unfold_locales
    (auto simp: decimal_checked_add_def decimal_checked_sub_def decimal_checked_neg_def
      decimal_eq_iff and_then_eq_Inr_iff decimal_value_surj)

section \<open>Multiplication and division\<close>

lemma strip_zeros_spec:
  assumes "strip_zeros v s = (r, t)"
  shows "s \<le> t \<and> v = r * 10 ^ (t - s) \<and> (v \<noteq> 0 \<longrightarrow> \<not> 10 dvd r)"
  using assms
proof (induction v s rule: strip_zeros.induct)
  case (1 v s)
  show ?case
  proof (cases "v \<noteq> 0 \<and> v smod 10 = 0")
    case True
    then have rec: "strip_zeros (v sdiv 10) (s + 1) = (r, t)"
      using "1.prems" by (simp add: strip_zeros.simps [of v s])
    have IH: "s + 1 \<le> t \<and> v sdiv 10 = r * 10 ^ (t - (s + 1)) \<and>
        (v sdiv 10 \<noteq> 0 \<longrightarrow> \<not> 10 dvd r)"
      using "1.IH" [OF True rec] .
    have v: "v = v sdiv 10 * 10" using True by (simp add: smod_eq_0_iff sdiv_exact)
    have "t - s = Suc (t - (s + 1))" using IH by arith
    then have "v = r * 10 ^ (t - s)" using IH v by (simp only: power_Suc ac_simps)
    moreover have "v sdiv 10 \<noteq> 0" using v True by auto
    ultimately show ?thesis using IH by auto
  next
    case False
    then have "r = v" "t = s" using "1.prems" by (auto simp: strip_zeros.simps [of v s])
    with False show ?thesis by (auto simp: smod_eq_0_iff)
  qed
qed

lemma strip_zeros_0 [simp]: "strip_zeros 0 s = (0, s)"
  by (simp add: strip_zeros.simps)

lemma grow_spec:
  assumes "grow v s = (r, t)" "in_int 128 v"
  shows "s \<le> t \<and> r = v * 10 ^ (t - s) \<and> in_int 128 r \<and> (v \<noteq> 0 \<longrightarrow> \<not> in_int 128 (r * 10))"
  using assms
proof (induction v s rule: grow.induct)
  case (1 v s)
  show ?case
  proof (cases "v \<noteq> 0 \<and> in_int 128 (v * 10)")
    case True
    then have m: "i_checked_mul 128 v 10 = Some (v * 10)" by simp
    then have rec: "grow (v * 10) (s + 1) = (r, t)"
      using "1.prems"(1) True
      by (simp add: grow.simps [of v s] i_checked_mul_def checked_int_def)
    have "in_int 128 (v * 10)" "v \<noteq> 0" using True by simp_all
    from "1.IH" [OF this(2) m rec this(1)]
    have IH: "s + 1 \<le> t \<and> r = v * 10 * 10 ^ (t - (s + 1)) \<and> in_int 128 r \<and>
        (v * 10 \<noteq> 0 \<longrightarrow> \<not> in_int 128 (r * 10))" .
    moreover have "t - s = Suc (t - (s + 1))" using IH by arith
    then have "r = v * 10 ^ (t - s)" using IH by (simp only: power_Suc ac_simps)
    ultimately show ?thesis using True by auto
  next
    case False
    then have "r = v" "t = s"
      using "1.prems"(1) by (auto simp: grow.simps [of v s] i_checked_mul_def checked_int_def split: if_splits)
    with False "1.prems"(2) show ?thesis by auto
  qed
qed

text \<open>A successful product is exact: no digit is lost.\<close>

lemma decimal_checked_mul_exact:
  assumes "decimal_checked_mul a b = Inr c"
  shows "dec_value c * 10 ^ 18 = dec_value a * dec_value b" and "in_int 128 (dec_value c)"
proof -
  obtain l i where l: "strip_zeros (dec_value a) 0 = (l, i)" by fastforce
  obtain r j where r: "strip_zeros (dec_value b) 0 = (r, j)" by fastforce
  have ab: "dec_value a = l * 10 ^ i" "dec_value b = r * 10 ^ j"
    using strip_zeros_spec [OF l] strip_zeros_spec [OF r] by simp_all
  have c: "18 \<le> i + j" "dec_value c = l * r * 10 ^ (i + j - 18)" "in_int 128 (dec_value c)"
    using assms by (auto simp: decimal_checked_mul_def l r and_then_eq_Inr_iff)
  have "(10::int) ^ (i + j - 18) * 10 ^ 18 = 10 ^ (i + j)"
    using c(1) by (simp only: power_add [symmetric]) simp
  then show "dec_value c * 10 ^ 18 = dec_value a * dec_value b"
    by (simp only: c(2) ab power_add mult.assoc) (simp only: ac_simps)
  show "in_int 128 (dec_value c)" by (rule c(3))
qed

text \<open>A successful quotient is the exact quotient truncated at eighteen digits.\<close>

lemma decimal_checked_div_trunc:
  assumes "decimal_checked_div a b = Inr c" "dec_wf a"
  shows "dec_value b \<noteq> 0" and "dec_value c = (dec_value a * 10 ^ 18) sdiv dec_value b"
    and "in_int 128 (dec_value c)"
proof -
  obtain l i where l: "grow (dec_value a) 0 = (l, i)" by fastforce
  obtain r j where r: "strip_zeros (dec_value b) 0 = (r, j)" by fastforce
  have a: "l = dec_value a * 10 ^ i"
    using grow_spec [OF l] assms(2) by (simp add: dec_wf_def)
  have b: "dec_value b = r * 10 ^ j" using strip_zeros_spec [OF r] by simp
  have c: "18 \<le> i + j" "r \<noteq> 0" "dec_value c = (l sdiv r) sdiv 10 ^ (i + j - 18)"
      "in_int 128 (dec_value c)"
    using assms(1) by (auto simp: decimal_checked_div_def l r and_then_eq_Inr_iff)
  show "dec_value b \<noteq> 0" using b c(2) by simp
  show "in_int 128 (dec_value c)" by (rule c(4))
  define p :: int where "p = 10 ^ (i + j - 18)"
  have p: "0 < p" by (simp add: p_def)
  have sdiv_neg_right: "x sdiv (- y) = - (x sdiv y)" for x y :: int
    by (simp add: signed_divide_int_def)
  have sdiv_neg_left: "(- x) sdiv y = - (x sdiv y)" for x y :: int
    by (simp add: signed_divide_int_def)
  have ll: "(l sdiv r) sdiv p = l sdiv (r * p)"
  proof (cases "0 < r")
    case True then show ?thesis using p by (rule sdiv_sdiv)
  next
    case False
    then have "0 < - r" using c(2) by simp
    from sdiv_sdiv [OF this p, of l] show ?thesis
      by (simp add: sdiv_neg_right sdiv_neg_left)
  qed
  have e: "p * 10 ^ 18 = 10 ^ i * 10 ^ j"
    using c(1) by (simp only: p_def power_add [symmetric]) simp
  have "l sdiv (r * p) = (l * 10 ^ j) sdiv (r * p * 10 ^ j)"
    by (simp add: sdiv_mult_cancel)
  also have "\<dots> = (dec_value a * 10 ^ 18 * p) sdiv (dec_value b * p)"
  proof -
    have "l * 10 ^ j = dec_value a * 10 ^ 18 * p" using e by (simp only: a mult.assoc) (simp only: ac_simps)
    moreover have "r * p * 10 ^ j = dec_value b * p" by (simp only: b ac_simps)
    ultimately show ?thesis by (simp only:)
  qed
  also have "\<dots> = (dec_value a * 10 ^ 18) sdiv dec_value b"
    using p by (rule sdiv_mult_cancel)
  finally show "dec_value c = (dec_value a * 10 ^ 18) sdiv dec_value b"
    using c(3) ll by (simp add: p_def)
qed

text \<open>The zeros that the loop strips. For nonzero operands the product succeeds when the operands carry
  eighteen trailing zeros together and the scaled product fits.\<close>

definition trailing_zeros :: "Decimal \<Rightarrow> nat" where
  "trailing_zeros d = snd (strip_zeros (dec_value d) 0)"

lemma decimal_checked_mul_complete:
  assumes nz: "dec_value a \<noteq> 0" "dec_value b \<noteq> 0"
    and tz: "18 \<le> trailing_zeros a + trailing_zeros b"
    and c: "dec_value c * 10 ^ 18 = dec_value a * dec_value b" "in_int 128 (dec_value c)"
  shows "decimal_checked_mul a b = Inr c"
proof -
  obtain l i where l: "strip_zeros (dec_value a) 0 = (l, i)" by fastforce
  obtain r j where r: "strip_zeros (dec_value b) 0 = (r, j)" by fastforce
  have ab: "dec_value a = l * 10 ^ i" "dec_value b = r * 10 ^ j"
    using strip_zeros_spec [OF l] strip_zeros_spec [OF r] by simp_all
  have ij: "18 \<le> i + j" using tz by (simp add: trailing_zeros_def l r)
  define p :: int where "p = 10 ^ (i + j - 18)"
  have p: "0 < p" by (simp add: p_def)
  have "p * 10 ^ 18 = 10 ^ i * 10 ^ j"
    using ij by (simp only: p_def power_add [symmetric]) simp
  then have "dec_value c * 10 ^ 18 = (l * r * p) * 10 ^ 18"
    using c(1) by (simp only: ab mult.assoc) (simp only: ac_simps)
  then have cv: "dec_value c = l * r * p" by simp
  have lr: "l * r \<noteq> 0" using nz ab by auto
  have "\<bar>l * r\<bar> * 1 \<le> \<bar>l * r\<bar> * p" using p by (intro mult_left_mono) auto
  then have "\<bar>l * r\<bar> \<le> \<bar>dec_value c\<bar>" using p by (simp add: cv abs_mult)
  moreover have "0 \<le> l * r * dec_value c"
  proof -
    have "l * r * dec_value c = (l * r) * (l * r) * p" by (simp only: cv ac_simps)
    moreover have "0 \<le> (l * r) * (l * r) * p" using p by (intro mult_nonneg_nonneg [OF zero_le_square]) auto
    ultimately show ?thesis by (simp only:)
  qed
  ultimately have lr_in: "in_int 128 (l * r)" using c(2) by (rule in_int_abs_le [rotated])
  have "1 \<le> \<bar>l * r\<bar>" using lr by (simp only: zero_less_abs_iff [symmetric])
  then have "1 * p \<le> \<bar>l * r\<bar> * p" using p by (intro mult_right_mono) auto
  then have "p \<le> \<bar>dec_value c\<bar>" using p by (simp add: cv abs_mult)
  also have "\<dots> \<le> 2 ^ 127" using c(2) by (auto simp: in_int_def)
  finally have "i + j - 18 \<le> 38"
  proof -
    assume le: "p \<le> 2 ^ 127"
    show ?thesis
    proof (rule ccontr)
      assume "\<not> i + j - 18 \<le> 38"
      then have "(10::int) ^ 39 \<le> p" unfolding p_def by (intro power_increasing) auto
      with le show False by simp
    qed
  qed
  then have "in_int 128 (10 ^ (i + j - 18))" by (simp add: pow10_128)
  then show ?thesis
    using ij lr_in c(2) cv
    by (simp add: decimal_checked_mul_def l r and_then_eq_Inr_iff decimal_eq_iff p_def [symmetric])
qed

lemma decimal_div_by_zero: "dec_value b = 0 \<Longrightarrow> decimal_checked_div a b = Inl ExpectedError"
  by (cases "grow (dec_value a) 0")
    (auto simp: decimal_checked_div_def i_checked_div_def ok_or_def split: option.splits)

section \<open>Rounding\<close>

lemma sdiv_eq_div: "0 < b \<Longrightarrow> 0 \<le> a \<or> b dvd a \<Longrightarrow> (a::int) sdiv b = a div b"
  by (cases "0 \<le> a") (auto simp: sdiv_nonneg sdiv_neg zdiv_zminus1_eq_if)

lemma sdiv_eq_div_plus_1: "0 < b \<Longrightarrow> a < 0 \<Longrightarrow> \<not> b dvd a \<Longrightarrow> (a::int) sdiv b = a div b + 1"
  by (auto simp: sdiv_neg zdiv_zminus1_eq_if dvd_eq_mod_eq_0)

lemma decimal_checked_floor_eq:
  "decimal_checked_floor d =
     (let v = dec_value d div 10 ^ 18 * 10 ^ 18
      in if in_int 128 v then Inr \<lparr>dec_value = v\<rparr> else Inl ExpectedError)"
proof -
  have "(if dec_value d \<ge> 0 \<or> dec_value d smod DECIMAL_PART_POW = 0
         then dec_value d sdiv DECIMAL_PART_POW else dec_value d sdiv DECIMAL_PART_POW - 1)
        = dec_value d div 10 ^ 18"
    by (simp add: smod_eq_0_iff sdiv_eq_div sdiv_eq_div_plus_1)
  then show ?thesis
    by (simp add: decimal_checked_floor_def i_checked_mul_def checked_int_def Let_def)
qed

lemma decimal_checked_ceil_eq:
  "decimal_checked_ceil d =
     (let v = - ((- dec_value d) div 10 ^ 18) * 10 ^ 18
      in if in_int 128 v then Inr \<lparr>dec_value = v\<rparr> else Inl ExpectedError)"
proof -
  have "(if dec_value d > 0 \<and> dec_value d smod DECIMAL_PART_POW \<noteq> 0
         then dec_value d sdiv DECIMAL_PART_POW + 1 else dec_value d sdiv DECIMAL_PART_POW)
        = - ((- dec_value d) div 10 ^ 18)"
  proof (cases "dec_value d > 0")
    case True
    then show ?thesis
      by (simp add: smod_eq_0_iff sdiv_nonneg zdiv_zminus1_eq_if dvd_eq_mod_eq_0)
  next
    case False
    then show ?thesis by (cases "dec_value d = 0") (simp_all add: sdiv_neg)
  qed
  then show ?thesis
    by (simp add: decimal_checked_ceil_def i_checked_mul_def checked_int_def Let_def)
qed

lemma div_10_carry: "0 \<le> j \<Longrightarrow> j < 10 \<Longrightarrow> (n + j) div 10 = n div 10 + of_bool (n mod 10 + j \<ge> 10)"
  for n j :: int
proof -
  assume j: "0 \<le> j" "j < 10"
  have "(n mod 10 + j) div 10 = of_bool (n mod 10 + j \<ge> 10)"
  proof (cases "n mod 10 + j \<ge> 10")
    case True
    have "n mod 10 < 10" by simp
    then have "n mod 10 + j < 20" using j by linarith
    with True show ?thesis using div_pos_geq [of 10 "n mod 10 + j"] by (simp add: div_pos_pos_trivial)
  next
    case False
    then show ?thesis using j by (simp add: div_pos_pos_trivial)
  qed
  then show ?thesis using div_add1_eq [of n j 10] j by (simp add: div_pos_pos_trivial)
qed

lemma round_half_up: "0 < k \<Longrightarrow> (v + 5 * k) div (10 * k) = v div k div 10 + of_bool (v div k mod 10 \<ge> 5)"
  for v k :: int
proof -
  assume k: "0 < k"
  have "(v + 5 * k) div (10 * k) = ((v + 5 * k) div k) div 10"
    using k by (simp add: zdiv_zmult2_eq mult.commute [of 10])
  also have "(v + 5 * k) div k = v div k + 5" using k by simp
  also have "(v div k + 5) div 10 = v div k div 10 + of_bool (v div k mod 10 \<ge> 5)"
    using div_10_carry [of 5 "v div k"] by simp
  finally show ?thesis .
qed

lemma round_above_half: "0 < k \<Longrightarrow> (w + 4 * k) div (10 * k) = w div k div 10 + of_bool (w div k mod 10 > 5)"
  for w k :: int
proof -
  assume k: "0 < k"
  have "(w + 4 * k) div (10 * k) = ((w + 4 * k) div k) div 10"
    using k by (simp add: zdiv_zmult2_eq mult.commute [of 10])
  also have "(w + 4 * k) div k = w div k + 4" using k by simp
  also have "(w div k + 4) div 10 = w div k div 10 + of_bool (w div k mod 10 > 5)"
    using div_10_carry [of 4 "w div k"] by (simp add: of_bool_def)
  finally show ?thesis .
qed

lemma decimal_checked_round_eq:
  "decimal_checked_round d =
     (let v = dec_value d;
          q = (if v \<ge> 0 then (v + 5 * 10 ^ 17) div 10 ^ 18 else - ((- v + 4 * 10 ^ 17) div 10 ^ 18));
          r = q * 10 ^ 18
      in if in_int 128 r then Inr \<lparr>dec_value = r\<rparr> else Inl ExpectedError)"
proof -
  define v n where "v = dec_value d" and "n = (- v) div 100000000000000000"
  have "(let value = v sdiv 100000000000000000
         in if value \<ge> 0 then value sdiv 10 + of_bool (value smod 10 \<ge> 5)
            else value sdiv 10 - of_bool ((- value) smod 10 > 5))
        = (if v \<ge> 0 then (v + 5 * 10 ^ 17) div 10 ^ 18 else - ((- v + 4 * 10 ^ 17) div 10 ^ 18))"
  proof (cases "v \<ge> 0")
    case True
    then show ?thesis
      using round_half_up [of 100000000000000000 v]
      by (simp add: Let_def sdiv_nonneg smod_nonneg pos_imp_zdiv_nonneg_iff)
  next
    case False
    have n0: "0 \<le> n" using False by (simp add: n_def pos_imp_zdiv_nonneg_iff)
    have vs: "v sdiv 100000000000000000 = - n" using False by (simp add: sdiv_neg n_def)
    have "- ((- v + 4 * 10 ^ 17) div 10 ^ 18) = - (n div 10 + of_bool (n mod 10 > 5))"
      using round_above_half [of 100000000000000000 "- v"] by (simp add: n_def)
    then show ?thesis using False n0
      by (cases "n = 0") (simp_all add: Let_def vs sdiv_nonneg smod_nonneg)
  qed
  then show ?thesis
    by (simp add: decimal_checked_round_def v_def i_checked_mul_def checked_int_def Let_def)
qed

lemma neg_round_cases:
  "- ((- v + 4 * 10 ^ 17) div 10 ^ 18) =
     (v + 5 * 10 ^ 17) div 10 ^ 18 + of_bool (5 * 10 ^ 17 < (- v) mod 10 ^ 18 \<and> (- v) mod 10 ^ 18 < 6 * 10 ^ 17)"
  for v :: int
proof -
  define m q where "m = (- v) mod 10 ^ 18" and "q = (- v) div (10 ^ 18)"
  have v: "- v = q * 10 ^ 18 + m" by (simp add: m_def q_def)
  have m: "0 \<le> m" "m < 10 ^ 18" by (simp_all add: m_def)
  have "(- v + 4 * 10 ^ 17) div 10 ^ 18 = q + of_bool (6 * 10 ^ 17 \<le> m)"
    using m unfolding v by (simp add: of_bool_def) linarith
  moreover have "(v + 5 * 10 ^ 17) div 10 ^ 18 = - q - of_bool (5 * 10 ^ 17 < m)"
    using m v by (simp add: of_bool_def) linarith
  ultimately show ?thesis unfolding m_def [symmetric] by (simp add: of_bool_def)
qed

section \<open>Conversions\<close>

lemma decimal_from_wf: "in_int 65 i \<Longrightarrow> dec_wf (decimal_from i)"
  by (simp add: dec_wf_def decimal_from_def in_int_def)

lemma integer_decimal_roundtrip:
  "integer_wf x \<Longrightarrow> integer_try_from_Decimal (decimal_from_Integer x) = Inr x"
proof -
  assume x: "integer_wf x"
  have "dec_value (decimal_from_Integer x) sdiv DECIMAL_PART_POW = integer_value x"
    by (simp add: decimal_from_Integer_def decimal_from_def sdiv_eq_div)
  with x show ?thesis
    by (auto simp: integer_try_from_Decimal_def and_then_eq_Inr_iff map_ok_eq_Inr_iff integer_wf_def
        integer_from_def integer_eq_iff intro: in_int_mono)
qed

section \<open>Correctness of the decimal operations\<close>

text \<open>The loop strips all zeros: the count it returns is the largest power of ten in the number.\<close>

lemma power_dvd_iff_trailing:
  assumes "dec_value d \<noteq> 0"
  shows "10 ^ i dvd dec_value d \<longleftrightarrow> i \<le> trailing_zeros d"
proof -
  obtain r t where rt: "strip_zeros (dec_value d) 0 = (r, t)" by fastforce
  have d: "dec_value d = r * 10 ^ t" "\<not> 10 dvd r" using strip_zeros_spec [OF rt] assms by auto
  have "\<not> 10 ^ i dvd dec_value d" if "t < i"
  proof
    assume "10 ^ i dvd dec_value d"
    moreover have "(10 :: int) ^ Suc t dvd 10 ^ i" using that by (simp only: Suc_le_eq le_imp_power_dvd)
    ultimately have "10 * 10 ^ t dvd r * 10 ^ t" unfolding d(1) by (metis dvd_trans power_Suc)
    then show False using d(2) by simp
  qed
  moreover have "10 ^ i dvd dec_value d" if "i \<le> t" using that by (simp add: d(1) le_imp_power_dvd)
  ultimately show ?thesis using rt by (auto simp: trailing_zeros_def not_le [symmetric])
qed

lemma enough_zeros_iff:
  assumes "dec_value a \<noteq> 0" "dec_value b \<noteq> 0"
  shows "k \<le> trailing_zeros a + trailing_zeros b \<longleftrightarrow> (\<exists>i j. k \<le> i + j \<and> 10 ^ i dvd dec_value a \<and> 10 ^ j dvd dec_value b)"
  unfolding power_dvd_iff_trailing [OF assms(1)] power_dvd_iff_trailing [OF assms(2)] by (meson add_mono le_trans order_refl)

text \<open>C15: Multiplication of nonzero decimals is exact and succeeds exactly when the raw 128 bit values of the two operands together
  end in at least eighteen decimal zeros (one is divisible by \<open>10^i\<close>, the other by \<open>10^j\<close>, with \<open>i + j\<close> at least 18) and
  the product fits 128 bits: a success loses no digit, and every failure has one of these two causes.\<close>

theorem decimal_mul_correct:
  assumes "dec_value a \<noteq> 0" "dec_value b \<noteq> 0"
  shows "decimal_checked_mul a b = Inr c \<longleftrightarrow>
    (\<exists>i j. 18 \<le> i + j \<and> 10 ^ i dvd dec_value a \<and> 10 ^ j dvd dec_value b) \<and> in_int 128 (dec_value c) \<and>
    dec_value c * 10 ^ 18 = dec_value a * dec_value b"
  unfolding enough_zeros_iff [OF assms, symmetric]
proof
  assume m: "decimal_checked_mul a b = Inr c"
  then have "18 \<le> trailing_zeros a + trailing_zeros b"
    by (auto simp: decimal_checked_mul_def trailing_zeros_def and_then_eq_Inr_iff split: prod.splits)
  with decimal_checked_mul_exact [OF m]
  show "18 \<le> trailing_zeros a + trailing_zeros b \<and> in_int 128 (dec_value c) \<and>
    dec_value c * 10 ^ 18 = dec_value a * dec_value b" by simp
qed (use assms decimal_checked_mul_complete in blast)

theorem decimal_mul_correct_witness:
  "decimal_checked_mul \<lparr>dec_value = 1500000000000000000\<rparr> \<lparr>dec_value = -2000000000000000000\<rparr>
     = Inr \<lparr>dec_value = -3000000000000000000\<rparr>"
proof -
  have "18 \<le> (17 :: nat) + 1 \<and> 10 ^ 17 dvd (1500000000000000000 :: int) \<and> 10 ^ 1 dvd (-2000000000000000000 :: int)" by simp
  then have tz: "\<exists>i j. 18 \<le> (i :: nat) + j \<and> 10 ^ i dvd (1500000000000000000 :: int) \<and> 10 ^ j dvd (-2000000000000000000 :: int)" by blast
  show ?thesis
    using decimal_mul_correct [of "\<lparr>dec_value = 1500000000000000000\<rparr>"
        "\<lparr>dec_value = -2000000000000000000\<rparr>" "\<lparr>dec_value = -3000000000000000000\<rparr>"] tz
    by (simp add: in_int_def)
qed

text \<open>C16: A successful division returns the exact quotient truncated towards zero at the
  eighteenth digit and fits 128 bits; the divisor was not zero.\<close>

theorem decimal_div_correct:
  assumes "decimal_checked_div a b = Inr c" "dec_wf a"
  shows "dec_value b \<noteq> 0 \<and> dec_value c = (dec_value a * 10 ^ 18) sdiv dec_value b \<and> dec_wf c"
  using decimal_checked_div_trunc [OF assms] by (simp add: dec_wf_def)

theorem decimal_div_correct_witness:
  "dec_value \<lparr>dec_value = 333333333333333333\<rparr> = (10 ^ 18 * 10 ^ 18) sdiv (3 * 10 ^ 18)"
proof -
  have "decimal_checked_div \<lparr>dec_value = 10 ^ 18\<rparr> \<lparr>dec_value = 3 * 10 ^ 18\<rparr> =
      Inr \<lparr>dec_value = 333333333333333333\<rparr>"
    by code_simp
  moreover have "dec_wf \<lparr>dec_value = 10 ^ 18\<rparr>" by (simp add: dec_wf_def in_int_def)
  ultimately show ?thesis
    using decimal_div_correct [of "\<lparr>dec_value = 10 ^ 18\<rparr>" "\<lparr>dec_value = 3 * 10 ^ 18\<rparr>"] by simp
qed

text \<open>floor and ceil return the greatest integral decimal below and the least integral
  decimal above the operand, and report an error exactly when that decimal does not fit.\<close>

theorem decimal_floor_ceil_correct:
  "decimal_checked_floor d =
     (let v = \<lfloor>real_of_int (dec_value d) / 10 ^ 18\<rfloor> * 10 ^ 18
      in if in_int 128 v then Inr \<lparr>dec_value = v\<rparr> else Inl ExpectedError) \<and>
   decimal_checked_ceil d =
     (let v = \<lceil>real_of_int (dec_value d) / 10 ^ 18\<rceil> * 10 ^ 18
      in if in_int 128 v then Inr \<lparr>dec_value = v\<rparr> else Inl ExpectedError)"
proof -
  have "\<lfloor>real_of_int i / 10 ^ 18\<rfloor> = i div 10 ^ 18" for i
    using floor_divide_of_int_eq [of i "10 ^ 18", where 'a = real] by simp
  moreover from this have "\<lceil>real_of_int i / 10 ^ 18\<rceil> = - ((- i) div 10 ^ 18)" for i
    using calculation [of "- i"] by (simp add: ceiling_def)
  ultimately show ?thesis by (simp add: decimal_checked_floor_eq decimal_checked_ceil_eq)
qed

text \<open>C17: round agrees with rounding half up, except for the negative decimals whose
  fractional part lies strictly between 0.5 and 0.6: the digits after the first one are cut
  before the comparison, so these are rounded towards zero (-1.55 becomes -1).\<close>

theorem decimal_round_correct:
  "decimal_checked_round d =
     (let v = dec_value d; f = (- v) mod 10 ^ 18;
          q = \<lfloor>real_of_int v / 10 ^ 18 + 1 / 2\<rfloor> + of_bool (v < 0 \<and> 5 * 10 ^ 17 < f \<and> f < 6 * 10 ^ 17);
          r = q * 10 ^ 18
      in if in_int 128 r then Inr \<lparr>dec_value = r\<rparr> else Inl ExpectedError)"
proof -
  define v where "v = dec_value d"
  have fl: "\<lfloor>real_of_int v / 10 ^ 18 + 1 / 2\<rfloor> = (v + 5 * 10 ^ 17) div 10 ^ 18"
  proof -
    have "real_of_int v / 10 ^ 18 + 1 / 2 = real_of_int (v + 5 * 10 ^ 17) / real_of_int (10 ^ 18)"
      by (simp add: field_simps)
    then show ?thesis by (simp only: floor_divide_of_int_eq)
  qed
  have "- ((- v + 4 * 10 ^ 17) div 10 ^ 18) =
      (v + 5 * 10 ^ 17) div 10 ^ 18 + of_bool (5 * 10 ^ 17 < (- v) mod 10 ^ 18 \<and> (- v) mod 10 ^ 18 < 6 * 10 ^ 17)"
    by (rule neg_round_cases)
  then have "(if v \<ge> 0 then (v + 5 * 10 ^ 17) div 10 ^ 18 else - ((- v + 4 * 10 ^ 17) div 10 ^ 18)) =
      (v + 5 * 10 ^ 17) div 10 ^ 18 + of_bool (v < 0 \<and> 5 * 10 ^ 17 < (- v) mod 10 ^ 18 \<and> (- v) mod 10 ^ 18 < 6 * 10 ^ 17)"
    by simp
  then show ?thesis by (simp only: decimal_checked_round_eq v_def [symmetric] fl Let_def)
qed

end
