(* ===== verification/Xsd_Decimal_Text.thy ===== *)
theory Xsd_Decimal_Text
  imports Xsd_Decimal Rust_Text
begin

text \<open>
  The lexical form of \<open>Decimal\<close> (\<open>FromStr\<close> and \<open>Display\<close> in
  \<open>lib/common/src/xsd/decimal.rs\<close>): the digit-by-digit parser with its overflow and
  underflow errors, the printer with its forty-byte digit buffer and the width and
  precision options of the formatter, and the round trip between the two.
\<close>

section \<open>Parsing\<close>

datatype decimal_parse_error = Overflow | Underflow | UnexpectedChar | UnexpectedEnd

definition push_digit :: "int \<Rightarrow> int \<Rightarrow> char \<Rightarrow> (decimal_parse_error, int) result" where
  "push_digit sign value c =
     and_then (ok_or (i_checked_mul 128 value 10) Overflow)
       (\<lambda>v. ok_or (i_checked_add 128 v (sign * digit_val c)) Overflow)"

fun parse_before_dot :: "int \<Rightarrow> int \<Rightarrow> string \<Rightarrow> (decimal_parse_error, int \<times> string) result" where
  "parse_before_dot sign value [] = Inr (value, [])"
| "parse_before_dot sign value (c # input) =
     (if is_ascii_digit c
      then and_then (push_digit sign value c) (\<lambda>v. parse_before_dot sign v input)
      else Inr (value, c # input))"

fun parse_after_dot :: "int \<Rightarrow> int \<Rightarrow> int \<Rightarrow> string \<Rightarrow> (decimal_parse_error, int \<times> int) result" where
  "parse_after_dot sign value expo [] = Inr (value, expo)"
| "parse_after_dot sign value expo (c # input) =
     (if is_ascii_digit c
      then and_then (push_digit sign value c) (\<lambda>v. parse_after_dot sign v (expo sdiv 10) input)
      else Inl UnexpectedChar)"

definition strip_trailing_zeros :: "string \<Rightarrow> string" where
  "strip_trailing_zeros input = rev (dropWhile (\<lambda>c. c = CHR ''0'') (rev input))"

definition decimal_from_str :: "string \<Rightarrow> (decimal_parse_error, Decimal) result" where
  "decimal_from_str input =
     (if input = [] then Inl UnexpectedEnd
      else
        let (sign, input) =
              (case input of
                 c # cs \<Rightarrow>
                   if c = CHR ''+'' then (1, cs) else if c = CHR ''-'' then (- 1, cs) else (1, input)
               | [] \<Rightarrow> (1, input));
            with_before_dot = (case input of c # _ \<Rightarrow> is_ascii_digit c | [] \<Rightarrow> False)
        in and_then (parse_before_dot sign 0 input) (\<lambda>(value, input).
           and_then
             (case input of
                c # rest \<Rightarrow>
                  if c \<noteq> CHR ''.'' then Inl UnexpectedChar
                  else if rest = [] \<and> \<not> with_before_dot then Inl UnexpectedEnd
                  else and_then
                         (parse_after_dot sign value DECIMAL_PART_POW (strip_trailing_zeros rest))
                         (\<lambda>(value, expo). if expo = 0 then Inl Underflow else Inr (value, expo))
              | [] \<Rightarrow> if \<not> with_before_dot then Inl UnexpectedEnd else Inr (value, DECIMAL_PART_POW))
             (\<lambda>(value, expo).
                map_ok (\<lambda>v. \<lparr>dec_value = v\<rparr>) (ok_or (i_checked_mul 128 value expo) Overflow))))"

section \<open>Printing\<close>

text \<open>The loop that fills the digit buffer, least significant digit first.\<close>

function dec_digits :: "int \<Rightarrow> nat list" where
  "dec_digits value = (if value \<noteq> 0 then nat \<bar>value smod 10\<bar> # dec_digits (value sdiv 10) else [])"
  by pat_completeness auto
termination
proof (relation "measure (\<lambda>v. nat \<bar>v\<bar>)")
  fix v :: int
  assume "v \<noteq> 0"
  then have "\<bar>v sdiv 10\<bar> < \<bar>v\<bar>" by (cases "0 \<le> v") (simp_all add: sdiv_nonneg sdiv_neg)
  then show "(v sdiv 10, v) \<in> measure (\<lambda>v. nat \<bar>v\<bar>)" by simp
qed simp

declare dec_digits.simps [simp del]

fun position :: "('a \<Rightarrow> bool) \<Rightarrow> 'a list \<Rightarrow> nat option" where
  "position p [] = None"
| "position p (x # xs) = (if p x then Some 0 else map_option Suc (position p xs))"

text \<open>
  \<open>fmt\<close> with the formatter's width and precision. \<^term>\<open>None\<close> is a panic: a slice
  end outside the buffer, or the subtraction \<open>width - 1\<close> at width zero.
\<close>

definition int_part_end :: "nat option \<Rightarrow> bool \<Rightarrow> nat \<Rightarrow> nat option" where
  "int_part_end width negative last_non_zero =
     (case width of
        None \<Rightarrow> Some (last_non_zero + 1)
      | Some w \<Rightarrow>
          Option.bind (if negative then u_checked_sub w 1 else Some w) (\<lambda>w.
            if last_non_zero - DECIMAL_PART_DIGITS + 1 < w then Some (DECIMAL_PART_DIGITS + w)
            else Some (last_non_zero + 1)))"

definition decimal_fmt :: "nat option \<Rightarrow> nat option \<Rightarrow> Decimal \<Rightarrow> string option" where
  "decimal_fmt width precision self =
     (if dec_value self = 0
      then Some (case width of Some w \<Rightarrow> replicate w (CHR ''0'') | None \<Rightarrow> ''0'')
      else
        let negative = dec_value self < 0;
            written = dec_digits (dec_value self);
            digits = written @ replicate (40 - length written) 0;
            last_non_zero = length written - 1;
            first_non_zero = (case position (\<lambda>v. v \<noteq> 0) digits of Some i \<Rightarrow> i | None \<Rightarrow> 40);
            start = (case precision of
                       Some p \<Rightarrow> if DECIMAL_PART_DIGITS - first_non_zero > p
                                then DECIMAL_PART_DIGITS - p else first_non_zero
                     | None \<Rightarrow> first_non_zero);
            fraction = (if DECIMAL_PART_DIGITS > first_non_zero
                        then ''.'' @ map digit_char (rev (drop start (take DECIMAL_PART_DIGITS digits)))
                        else [])
        in map_option (\<lambda>int_part. (if negative then ''-'' else []) @ int_part @ fraction)
             (if last_non_zero \<ge> DECIMAL_PART_DIGITS
              then Option.bind (int_part_end width negative last_non_zero) (\<lambda>e.
                     if e \<le> length digits
                     then Some (map digit_char (rev (drop DECIMAL_PART_DIGITS (take e digits))))
                     else None)
              else Some ''0''))"

abbreviation decimal_to_string :: "Decimal \<Rightarrow> string option" where
  "decimal_to_string \<equiv> decimal_fmt None None"

section \<open>What the parser computes\<close>

lemma push_digit_char:
  assumes "d < 10" "in_int 128 (acc * 10)" "in_int 128 (acc * 10 + sign * int d)"
  shows "push_digit sign acc (digit_char d) = Inr (acc * 10 + sign * int d)"
  using assms by (simp add: push_digit_def i_checked_mul_def i_checked_add_def checked_int_def
      digit_char_props)

lemma parse_before_dot_digits:
  assumes "\<forall>d \<in> set ds. d < 10" "sign = 1 \<or> sign = - 1" "0 \<le> sign * acc"
    and "in_int 128 (digits_val sign acc ds)" "rest = [] \<or> \<not> is_ascii_digit (hd rest)"
  shows "parse_before_dot sign acc (map digit_char ds @ rest) = Inr (digits_val sign acc ds, rest)"
  using assms(1,3,4)
proof (induction ds arbitrary: acc)
  case Nil
  then show ?case using assms(5) by (cases rest) auto
next
  case (Cons d ds)
  note b = digits_val_prefix_in_int [OF assms(2) Cons.prems(2,3)]
  show ?case using Cons.prems Cons.IH [OF _ b(3)] b
    by (simp add: push_digit_char digit_char_props)
qed

lemma parse_after_dot_digits:
  assumes "\<forall>d \<in> set ds. d < 10" "sign = 1 \<or> sign = - 1" "0 \<le> sign * acc" "0 \<le> e"
    and "in_int 128 (digits_val sign acc ds)"
  shows "parse_after_dot sign acc e (map digit_char ds) =
     Inr (digits_val sign acc ds, e div 10 ^ length ds)"
  using assms(1,3,4,5)
proof (induction ds arbitrary: acc e)
  case Nil
  then show ?case by simp
next
  case (Cons d ds)
  note b = digits_val_prefix_in_int [OF assms(2) Cons.prems(2,4)]
  have "e div 10 div 10 ^ length ds = e div (10 * 10 ^ length ds)"
    by (simp add: zdiv_zmult2_eq)
  then show ?case using Cons.prems Cons.IH [OF _ b(3), of "e div 10"] b
    by (simp add: push_digit_char digit_char_props sdiv_nonneg pos_imp_zdiv_nonneg_iff)
qed

lemma strip_trailing_zeros_digits:
  assumes "\<forall>d \<in> set ds. d < 10" "ds = [] \<or> last ds \<noteq> 0"
  shows "strip_trailing_zeros (map digit_char ds) = map digit_char ds"
proof (cases ds rule: rev_cases)
  case Nil
  then show ?thesis by (simp add: strip_trailing_zeros_def)
next
  case (snoc es d)
  then have "digit_char d \<noteq> CHR ''0''" using assms by (simp add: digit_char_eq_0)
  then show ?thesis by (simp add: strip_trailing_zeros_def snoc)
qed

lemma decimal_from_str_canonical:
  fixes I F :: "nat list"
  assumes I: "I \<noteq> []" "\<forall>d \<in> set (I @ F). d < 10" and F: "F = [] \<or> last F \<noteq> 0" "length F \<le> 18"
    and sign: "sign = 1 \<or> sign = - 1"
    and v: "v = digits_val sign 0 (I @ F) * 10 ^ (18 - length F)" "in_int 128 v"
  shows "decimal_from_str ((if sign = - 1 then ''-'' else []) @ map digit_char I @
      (if F = [] then [] else ''.'' @ map digit_char F)) = Inr \<lparr>dec_value = v\<rparr>"
proof -
  obtain i js where i: "I = i # js" "i < 10" using I by (cases I) auto
  let ?rest = "if F = [] then [] else ''.'' @ map digit_char F"
  let ?a = "digits_val sign 0 I" and ?b = "digits_val sign 0 (I @ F)"
  have ab: "?b = digits_val sign ?a F" by (simp add: digits_val_append)
  have ga: "0 \<le> sign * ?a" using digits_val_grows [OF sign, of 0 I] by simp
  have gb: "\<bar>?a\<bar> \<le> \<bar>?b\<bar>" "0 \<le> sign * ?b" using digits_val_grows [OF sign ga, of F] ab by auto
  have same: "0 \<le> x * y" if "0 \<le> sign * x" "0 \<le> sign * y" for x y
    using sign that by (elim disjE) (auto intro: mult_nonneg_nonneg mult_nonpos_nonpos)
  have bv: "\<bar>?b\<bar> \<le> \<bar>v\<bar>"
  proof -
    have "\<bar>?b\<bar> * 1 \<le> \<bar>?b\<bar> * 10 ^ (18 - length F)" by (intro mult_left_mono) auto
    then show ?thesis by (simp add: v(1) abs_mult)
  qed
  have sv: "0 \<le> sign * v" using gb(2) by (simp add: v(1) mult.assoc [symmetric])
  have inb: "in_int 128 ?b" using v(2) bv same [OF gb(2) sv] by (rule in_int_abs_le)
  have ina: "in_int 128 ?a" using inb gb(1) same [OF ga gb(2)] by (rule in_int_abs_le)
  have before: "parse_before_dot sign 0 (map digit_char I @ ?rest) = Inr (?a, ?rest)"
    using I(2) sign ina by (intro parse_before_dot_digits) auto
  have after: "parse_after_dot sign ?a DECIMAL_PART_POW (map digit_char F) =
      Inr (?b, 10 ^ (18 - length F))"
  proof -
    have "(10::int) ^ 18 div 10 ^ length F = 10 ^ (18 - length F)"
      using F(2) by (simp only: power_diff [of 10 "length F" 18])
    then show ?thesis
      using parse_after_dot_digits [of F sign ?a "10 ^ 18"] I(2) sign ga inb ab by simp
  qed
  have strip: "strip_trailing_zeros (map digit_char F) = map digit_char F"
    using I(2) F(1) by (intro strip_trailing_zeros_digits) auto
  have first: "digit_char i \<noteq> CHR ''-''" "digit_char i \<noteq> CHR ''+''" "is_ascii_digit (digit_char i)"
    using i(2) by (simp_all add: digit_char_props)
  have mul: "i_checked_mul 128 ?b (10 ^ (18 - length F)) = Some v" using v by simp
  show ?thesis
  proof (cases "F = []")
    case True
    then have "i_checked_mul 128 ?a 1000000000000000000 = Some v" using mul by simp
    then show ?thesis
      using sign before first True 
      by (elim disjE) (simp_all add: decimal_from_str_def i(1) Let_def i_checked_mul_def checked_int_def)
  next
    case False
    then show ?thesis
      using sign before after strip first mul
      by (elim disjE) (simp_all add: decimal_from_str_def i(1) Let_def i_checked_mul_def checked_int_def)
  qed
qed

section \<open>What the printer writes\<close>

lemma sdiv_smod_abs: "\<bar>v\<bar> = \<bar>v sdiv 10\<bar> * 10 + \<bar>v smod 10\<bar>" "\<bar>v smod 10\<bar> < 10" for v :: int
  by (cases "0 \<le> v"; simp add: sdiv_nonneg sdiv_neg smod_nonneg smod_neg)+

lemma dec_digits_bound: "d \<in> set (dec_digits v) \<Longrightarrow> d < 10"
proof (induction v rule: dec_digits.induct)
  case (1 v)
  show ?case
  proof (cases "v = 0")
    case True
    with "1.prems" show ?thesis by (simp add: dec_digits.simps)
  next
    case False
    then have "d = nat \<bar>v smod 10\<bar> \<or> d \<in> set (dec_digits (v sdiv 10))"
      using "1.prems" by (simp add: dec_digits.simps [of v])
    then show ?thesis using "1.IH" False sdiv_smod_abs(2) [of v] by auto
  qed
qed

lemma digits_val_dec_digits: "digits_val 1 0 (rev (dec_digits v)) = \<bar>v\<bar>"
proof (induction v rule: dec_digits.induct)
  case (1 v)
  then show ?case
    by (cases "v = 0")
      (simp_all add: dec_digits.simps [of v] dec_digits.simps [of 0] digits_val_append
        sdiv_smod_abs(1) [symmetric])
qed

lemma dec_digits_length: "v \<noteq> 0 \<Longrightarrow> 10 ^ (length (dec_digits v) - 1) \<le> \<bar>v\<bar>"
proof (induction v rule: dec_digits.induct)
  case (1 v)
  show ?case
  proof (cases "v sdiv 10 = 0")
    case True
    then have "dec_digits (v sdiv 10) = []" by (simp add: dec_digits.simps)
    then show ?thesis using "1.prems" by (simp add: dec_digits.simps [of v])
  next
    case False
    have ne: "dec_digits (v sdiv 10) \<noteq> []" using False by (simp add: dec_digits.simps [of "v sdiv 10"])
    have "10 ^ (length (dec_digits (v sdiv 10)) - 1) \<le> \<bar>v sdiv 10\<bar>"
      using "1.IH" "1.prems" False by blast
    then have "10 ^ (length (dec_digits (v sdiv 10)) - 1) * 10 \<le> \<bar>v sdiv 10\<bar> * 10" by simp
    also have "\<dots> \<le> \<bar>v\<bar>" using sdiv_smod_abs(1) [of v] by simp
    finally have "10 ^ Suc (length (dec_digits (v sdiv 10)) - 1) \<le> \<bar>v\<bar>" by (simp add: mult.commute)
    moreover have "Suc (length (dec_digits (v sdiv 10)) - 1) = length (dec_digits v) - 1"
      using "1.prems" ne by (simp add: dec_digits.simps [of v])
    ultimately show ?thesis by (simp only:)
  qed
qed

lemma dec_digits_last: "v \<noteq> 0 \<Longrightarrow> last (dec_digits v) \<noteq> 0"
proof (induction v rule: dec_digits.induct)
  case (1 v)
  show ?case
  proof (cases "v sdiv 10 = 0")
    case True
    then have "\<bar>v smod 10\<bar> = \<bar>v\<bar>" using sdiv_smod_abs(1) [of v] by simp
    then show ?thesis using True "1.prems" by (simp add: dec_digits.simps [of v] dec_digits.simps [of 0])
  next
    case False
    then have "dec_digits (v sdiv 10) \<noteq> []" by (simp add: dec_digits.simps [of "v sdiv 10"])
    then show ?thesis using "1.IH" "1.prems" False by (simp add: dec_digits.simps [of v])
  qed
qed

lemma dec_digits_fit: "in_int 128 v \<Longrightarrow> length (dec_digits v) \<le> 39"
proof (rule ccontr)
  assume v: "in_int 128 v" and long: "\<not> length (dec_digits v) \<le> 39"
  then have "v \<noteq> 0" by (auto simp: dec_digits.simps)
  then have "10 ^ (length (dec_digits v) - 1) \<le> \<bar>v\<bar>" by (rule dec_digits_length)
  moreover have "(10::int) ^ 39 \<le> 10 ^ (length (dec_digits v) - 1)"
    using long by (intro power_increasing) auto
  moreover have "\<bar>v\<bar> \<le> 2 ^ 127" using v by (auto simp: in_int_def)
  ultimately show False by simp
qed

lemma position_None: "position p xs = None \<longleftrightarrow> (\<forall>x \<in> set xs. \<not> p x)"
  by (induction xs) auto

lemma position_Some: "position p xs = Some i \<Longrightarrow> i < length xs \<and> p (xs ! i) \<and> (\<forall>j < i. \<not> p (xs ! j))"
  by (induction xs arbitrary: i) (auto split: if_splits simp: less_Suc_eq_0_disj nth_Cons')

lemma digits_val_zeros: "digits_val sign 0 (replicate k 0 @ ds) = digits_val sign 0 ds"
  by (induction k) auto

lemma digits_val_replicate_0: "digits_val sign acc (replicate k 0) = acc * 10 ^ k"
  by (induction k arbitrary: acc) auto

text \<open>
  The printed digits: an integer part \<open>I\<close> and a fraction \<open>F\<close> without trailing zero
  that together spell the magnitude of the value.
\<close>

lemma decimal_fmt_shape:
  assumes wf: "in_int 128 v" and nz: "v \<noteq> 0"
  obtains I F where
    "decimal_to_string \<lparr>dec_value = v\<rparr> = Some ((if v < 0 then ''-'' else []) @ map digit_char I @
       (if F = [] then [] else ''.'' @ map digit_char F))"
    "I \<noteq> []" "\<forall>d \<in> set (I @ F). d < 10" "F = [] \<or> last F \<noteq> 0" "length F \<le> 18"
    "digits_val 1 0 (I @ F) * 10 ^ (18 - length F) = \<bar>v\<bar>" "length I = 1 \<or> hd I \<noteq> 0"
proof -
  define ds where "ds = dec_digits v"
  define D where "D = ds @ replicate (40 - length ds) 0"
  have lds: "length ds \<le> 39" "ds \<noteq> []"
    using dec_digits_fit [OF wf] nz by (auto simp: ds_def dec_digits.simps [of v])
  have lD: "length D = 40" using lds by (simp add: D_def)
  have bD: "\<forall>d \<in> set D. d < 10" using dec_digits_bound by (auto simp: D_def ds_def)
  have vD: "digits_val 1 0 (rev D) = \<bar>v\<bar>"
    by (simp add: D_def ds_def digits_val_zeros digits_val_dec_digits)
  have "position (\<lambda>v. v \<noteq> 0) D \<noteq> None"
  proof
    assume "position (\<lambda>v. v \<noteq> 0) D = None"
    then have "rev D = replicate (length D) 0"
      by (intro replicate_eqI) (auto simp: position_None)
    then have "digits_val 1 0 (rev D) = 0" by (simp add: digits_val_replicate_0)
    with vD nz show False by simp
  qed
  then obtain f where f: "position (\<lambda>v. v \<noteq> 0) D = Some f" by auto
  have pf: "f < 40" "D ! f \<noteq> 0" "\<forall>j < f. D ! j = 0" using position_Some [OF f] lD by auto
  define F where "F = (if f < 18 then rev (drop f (take 18 D)) else [])"
  define I where "I = (if 19 \<le> length ds then rev (drop 18 ds) else [0])"
  have lF: "18 - length F = min f 18" "length F \<le> 18" using pf(1) lD by (auto simp: F_def)
  have low: "take (min f 18) D = replicate (min f 18) 0"
    using pf(3) lD by (intro nth_equalityI) auto
  have "take 18 D = take (min f 18) D @ rev F"
  proof (cases "f < 18")
    case True
    then show ?thesis using append_take_drop_id [of f "take 18 D"] by (simp add: F_def min_def)
  qed (simp add: F_def min_def)
  then have "rev (take 18 D) = F @ replicate (min f 18) 0" by (simp add: low)
  moreover have "digits_val 1 0 (rev (drop 18 D)) = digits_val 1 0 I"
    by (simp add: D_def I_def digits_val_zeros digits_val_replicate_0)
  moreover have "rev D = rev (drop 18 D) @ rev (take 18 D)"
    by (simp only: rev_append [symmetric] append_take_drop_id)
  ultimately have val: "digits_val 1 0 (I @ F) * 10 ^ (18 - length F) = \<bar>v\<bar>"
    using vD by (simp add: digits_val_append digits_val_replicate_0 lF(1))
  have lastF: "F = [] \<or> last F \<noteq> 0"
    using pf(2) lD by (auto simp: F_def last_rev hd_drop_conv_nth)
  have bIF: "\<forall>d \<in> set (I @ F). d < 10"
    using bD by (auto simp: I_def F_def D_def dest: in_set_dropD in_set_takeD)
  have out: "decimal_to_string \<lparr>dec_value = v\<rparr> = Some ((if v < 0 then ''-'' else []) @ map digit_char I @
       (if F = [] then [] else ''.'' @ map digit_char F))"
  proof -
    have "take (Suc (length ds - Suc 0)) D = ds" using lds by (cases ds) (auto simp: D_def)
    moreover have "(18 \<le> length ds - Suc 0) = (19 \<le> length ds)" by arith
    moreover have "F = [] \<longleftrightarrow> \<not> f < 18" using lD pf(1) by (auto simp: F_def)
    ultimately show ?thesis
      using nz f lD lds digit_char_eq_0 [of 0]
      by (simp add: decimal_fmt_def Let_def ds_def [symmetric] D_def [symmetric] I_def F_def
          int_part_end_def)
  qed
  have "hd I \<noteq> 0" if "19 \<le> length ds"
    using that dec_digits_last [OF nz] by (simp add: I_def hd_rev last_drop ds_def)
  then show ?thesis by (intro that [OF out _ bIF lastF lF(2) val]) (auto simp: I_def)
qed

text \<open>Printed text: the printer writes digits, and the parser reads them back.\<close>

lemma decimal_text:
  assumes "dec_wf d"
  obtains I F where
    "decimal_to_string d = Some ((if dec_value d < 0 then ''-'' else []) @ map digit_char I @
       (if F = [] then [] else ''.'' @ map digit_char F))"
    "decimal_from_str ((if dec_value d < 0 then ''-'' else []) @ map digit_char I @
       (if F = [] then [] else ''.'' @ map digit_char F)) = Inr d"
    "I \<noteq> []" "\<forall>d \<in> set (I @ F). d < 10" "digits_val 1 0 (I @ F) * 10 ^ (18 - length F) = \<bar>dec_value d\<bar>"
    "length F \<le> 18" "F = [] \<or> last F \<noteq> 0" "length I = 1 \<or> hd I \<noteq> 0"
proof (cases "dec_value d = 0")
  case True
  then have "d = \<lparr>dec_value = 0\<rparr>" by (simp add: decimal_eq_iff)
  then show ?thesis
    using decimal_from_str_canonical [of "[0]" "[]" 1 0] digit_char_eq_0 [of 0] that [of "[0]" "[]"]
    by (simp add: decimal_fmt_def)
next
  case False
  let ?v = "dec_value d" and ?s = "if dec_value d < 0 then - 1 else (1 :: int)"
  have d: "d = \<lparr>dec_value = ?v\<rparr>" by (simp add: decimal_eq_iff)
  have wf: "in_int 128 ?v" using assms by (simp add: dec_wf_def)
  from decimal_fmt_shape [OF wf False] obtain I F where
    out: "decimal_to_string \<lparr>dec_value = ?v\<rparr> = Some ((if ?v < 0 then ''-'' else []) @
       map digit_char I @ (if F = [] then [] else ''.'' @ map digit_char F))"
    and IF: "I \<noteq> []" "\<forall>d \<in> set (I @ F). d < 10" "F = [] \<or> last F \<noteq> 0" "length F \<le> 18"
    and val: "digits_val 1 0 (I @ F) * 10 ^ (18 - length F) = \<bar>?v\<bar>" and lead: "length I = 1 \<or> hd I \<noteq> 0" .
  have "?v = digits_val ?s 0 (I @ F) * 10 ^ (18 - length F)"
    using val by (simp add: digits_val_sign [of "- 1"] mult.assoc)
  from decimal_from_str_canonical [OF IF _ this wf]
  have parse: "decimal_from_str ((if ?v < 0 then ''-'' else []) @ map digit_char I @
       (if F = [] then [] else ''.'' @ map digit_char F)) = Inr d"
    using d by (auto split: if_splits)
  show ?thesis using that [OF _ parse IF(1,2) val IF(4,3) lead] out d False by simp
qed

text \<open>C18: Printing a decimal never panics and parsing the printed form gives the decimal
  back: the printer loses no digit and writes only text the parser accepts.\<close>

theorem decimal_display_parse:
  assumes "dec_wf d"
  shows "\<exists>s. decimal_to_string d = Some s \<and> decimal_from_str s = Inr d"
  using decimal_text [OF assms] by metis

theorem decimal_display_parse_witness:
  "\<exists>s. decimal_to_string \<lparr>dec_value = -1500000000000000000\<rparr> = Some s \<and>
     decimal_from_str s = Inr \<lparr>dec_value = -1500000000000000000\<rparr>"
  by (rule decimal_display_parse) (simp add: dec_wf_def in_int_def)

end
