(* ===== verification/Xsd_Duration.thy ===== *)
theory Xsd_Duration
  imports Xsd_Decimal_Text
begin

text \<open>
  The durations of \<open>lib/common/src/xsd/duration.rs\<close>: \<open>YearMonthDuration\<close> counts months in
  an \<open>i64\<close>, \<open>DayTimeDuration\<close> counts seconds in a \<open>Decimal\<close>, and \<open>Duration\<close> pairs the two
  with equal signs. This theory holds the values, their conversions and checked arithmetic and
  the byte form; the lexical form is in \<open>Xsd_Duration_Text\<close> and the order, which goes through
  \<open>DateTime\<close>, in \<open>Xsd_DateTime\<close>.
\<close>

section \<open>Data\<close>

record YearMonthDuration =
  ym_months :: int

record DayTimeDuration =
  dt_seconds :: Decimal

record Duration =
  year_month :: YearMonthDuration
  day_time :: DayTimeDuration

datatype DurationOverflowError = DurationOverflowError

datatype OppositeSignError = OppositeSignInDurationComponentsError

text \<open>The representable values: the component ranges, and the sign rule of \<open>construct\<close>.\<close>

definition ym_wf :: "YearMonthDuration \<Rightarrow> bool" where
  "ym_wf d \<longleftrightarrow> in_int 64 (ym_months d)"

definition dt_wf :: "DayTimeDuration \<Rightarrow> bool" where
  "dt_wf d \<longleftrightarrow> dec_wf (dt_seconds d)"

definition same_sign :: "Duration \<Rightarrow> bool" where
  "same_sign d \<longleftrightarrow>
     (0 \<le> ym_months (year_month d) \<and> 0 \<le> dec_value (dt_seconds (day_time d))) \<or>
     (ym_months (year_month d) \<le> 0 \<and> dec_value (dt_seconds (day_time d)) \<le> 0)"

definition duration_wf :: "Duration \<Rightarrow> bool" where
  "duration_wf d \<longleftrightarrow> ym_wf (year_month d) \<and> dt_wf (day_time d) \<and> same_sign d"

section \<open>Year-month durations\<close>

definition ym_new :: "int \<Rightarrow> YearMonthDuration" where
  "ym_new months = \<lparr>ym_months = months\<rparr>"

definition ym_default :: YearMonthDuration where
  "ym_default = \<lparr>ym_months = 0\<rparr>"

definition ym_MAX :: YearMonthDuration where
  "ym_MAX = \<lparr>ym_months = int_max 64\<rparr>"

definition ym_MIN :: YearMonthDuration where
  "ym_MIN = \<lparr>ym_months = int_min 64\<rparr>"

definition ym_from_be_bytes :: "nat list \<Rightarrow> YearMonthDuration" where
  "ym_from_be_bytes bytes = \<lparr>ym_months = from_be_bytes bytes\<rparr>"

definition ym_to_be_bytes :: "YearMonthDuration \<Rightarrow> nat list" where
  "ym_to_be_bytes self = to_be_bytes 8 (ym_months self)"

definition ym_years :: "YearMonthDuration \<Rightarrow> int" where
  "ym_years self = ym_months self sdiv 12"

definition ym_months_part :: "YearMonthDuration \<Rightarrow> int" where
  "ym_months_part self = ym_months self smod 12"

definition ym_checked_add :: "YearMonthDuration \<Rightarrow> YearMonthDuration \<Rightarrow> YearMonthDuration thin_result" where
  "ym_checked_add self rhs =
     map_ok ym_new (ok_or (i_checked_add 64 (ym_months self) (ym_months rhs)) ExpectedError)"

definition ym_checked_sub :: "YearMonthDuration \<Rightarrow> YearMonthDuration \<Rightarrow> YearMonthDuration thin_result" where
  "ym_checked_sub self rhs =
     map_ok ym_new (ok_or (i_checked_sub 64 (ym_months self) (ym_months rhs)) ExpectedError)"

definition ym_checked_neg :: "YearMonthDuration \<Rightarrow> YearMonthDuration thin_result" where
  "ym_checked_neg self = map_ok ym_new (ok_or (i_checked_neg 64 (ym_months self)) ExpectedError)"

section \<open>Day-time durations\<close>

definition dt_new :: "Decimal \<Rightarrow> DayTimeDuration" where
  "dt_new seconds = \<lparr>dt_seconds = seconds\<rparr>"

definition dt_default :: DayTimeDuration where
  "dt_default = \<lparr>dt_seconds = decimal_default\<rparr>"

definition dt_MAX :: DayTimeDuration where
  "dt_MAX = \<lparr>dt_seconds = decimal_MAX\<rparr>"

definition dt_MIN :: DayTimeDuration where
  "dt_MIN = \<lparr>dt_seconds = decimal_MIN\<rparr>"

definition dt_from_be_bytes :: "nat list \<Rightarrow> DayTimeDuration" where
  "dt_from_be_bytes bytes = \<lparr>dt_seconds = decimal_from_be_bytes bytes\<rparr>"

definition dt_to_be_bytes :: "DayTimeDuration \<Rightarrow> nat list" where
  "dt_to_be_bytes self = decimal_to_be_bytes (dt_seconds self)"

definition dt_days :: "DayTimeDuration \<Rightarrow> int" where
  "dt_days self = as_int 64 (decimal_as_i128 (dt_seconds self) sdiv 86400)"

definition dt_hours :: "DayTimeDuration \<Rightarrow> int" where
  "dt_hours self = as_int 64 ((decimal_as_i128 (dt_seconds self) smod 86400) sdiv 3600)"

definition dt_minutes :: "DayTimeDuration \<Rightarrow> int" where
  "dt_minutes self = as_int 64 ((decimal_as_i128 (dt_seconds self) smod 3600) sdiv 60)"

text \<open>\<^term>\<open>None\<close> is the panic of \<open>unwrap\<close>, which cannot occur.\<close>

definition dt_seconds_part :: "DayTimeDuration \<Rightarrow> Decimal option" where
  "dt_seconds_part self = decimal_checked_rem (dt_seconds self) (decimal_from 60)"

definition dt_checked_add :: "DayTimeDuration \<Rightarrow> DayTimeDuration \<Rightarrow> DayTimeDuration thin_result" where
  "dt_checked_add self rhs = map_ok dt_new (decimal_checked_add (dt_seconds self) (dt_seconds rhs))"

definition dt_checked_sub :: "DayTimeDuration \<Rightarrow> DayTimeDuration \<Rightarrow> DayTimeDuration thin_result" where
  "dt_checked_sub self rhs = map_ok dt_new (decimal_checked_sub (dt_seconds self) (dt_seconds rhs))"

definition dt_checked_neg :: "DayTimeDuration \<Rightarrow> DayTimeDuration thin_result" where
  "dt_checked_neg self = map_ok dt_new (decimal_checked_neg (dt_seconds self))"

section \<open>Durations of the standard library\<close>

text \<open>\<open>std::time::Duration\<close>: seconds in a \<open>u64\<close> and nanoseconds below one thousand million.\<close>

record StdDuration =
  std_secs :: int
  std_nanos :: int

definition std_wf :: "StdDuration \<Rightarrow> bool" where
  "std_wf d \<longleftrightarrow> in_uint 64 (std_secs d) \<and> 0 \<le> std_nanos d \<and> std_nanos d < 1000000000"

definition as_nanos :: "StdDuration \<Rightarrow> int" where
  "as_nanos d = std_secs d * 1000000000 + std_nanos d"

definition std_new :: "int \<Rightarrow> int \<Rightarrow> StdDuration option" where
  "std_new secs nanos =
     (if nanos < 1000000000 then Some \<lparr>std_secs = secs, std_nanos = nanos\<rparr>
      else if in_uint 64 (secs + nanos div 1000000000)
      then Some \<lparr>std_secs = secs + nanos div 1000000000, std_nanos = nanos mod 1000000000\<rparr>
      else None)"

definition dt_try_from_std :: "StdDuration \<Rightarrow> (DurationOverflowError, DayTimeDuration) result" where
  "dt_try_from_std value =
     and_then (ok_or (checked_int 128 (as_nanos value)) DurationOverflowError) (\<lambda>nanos.
     map_ok dt_new (map_err (\<lambda>_. DurationOverflowError) (decimal_new nanos 9)))"

definition std_try_from_dt :: "DayTimeDuration \<Rightarrow> (DurationOverflowError, StdDuration option) result" where
  "std_try_from_dt value =
     (if decimal_is_negative (dt_seconds value) then Inl DurationOverflowError
      else
        let overflow = (\<lambda>_ :: thin_error. DurationOverflowError) in
        and_then (map_err overflow (decimal_checked_floor (dt_seconds value))) (\<lambda>secs.
        and_then (map_err overflow (decimal_checked_sub (dt_seconds value) secs)) (\<lambda>rest.
        and_then (map_err overflow (decimal_checked_mul rest (decimal_from 1000000000))) (\<lambda>scaled.
        and_then (map_err overflow (decimal_checked_floor scaled)) (\<lambda>nanos.
          if in_uint 64 (decimal_as_i128 secs) \<and> in_uint 32 (decimal_as_i128 nanos)
          then Inr (std_new (decimal_as_i128 secs) (decimal_as_i128 nanos))
          else Inl DurationOverflowError)))))"

section \<open>Durations\<close>

definition duration_construct ::
  "YearMonthDuration \<Rightarrow> DayTimeDuration \<Rightarrow> (OppositeSignError, Duration) result" where
  "duration_construct ym dt =
     (if (ym_months ym > 0 \<and> dec_value (dt_seconds dt) < 0) \<or>
         (ym_months ym < 0 \<and> dec_value (dt_seconds dt) > 0)
      then Inl OppositeSignInDurationComponentsError
      else Inr \<lparr>year_month = ym, day_time = dt\<rparr>)"

definition duration_new :: "int \<Rightarrow> Decimal \<Rightarrow> (OppositeSignError, Duration) result" where
  "duration_new months seconds = duration_construct (ym_new months) (dt_new seconds)"

definition duration_MAX :: Duration where
  "duration_MAX = \<lparr>year_month = ym_MAX, day_time = dt_MAX\<rparr>"

definition duration_MIN :: Duration where
  "duration_MIN = \<lparr>year_month = ym_MIN, day_time = dt_MIN\<rparr>"

definition duration_from_be_bytes :: "nat list \<Rightarrow> Duration" where
  "duration_from_be_bytes bytes =
     \<lparr>year_month = ym_from_be_bytes (take 8 bytes), day_time = dt_from_be_bytes (take 16 (drop 8 bytes))\<rparr>"

definition duration_to_be_bytes :: "Duration \<Rightarrow> nat list" where
  "duration_to_be_bytes self = ym_to_be_bytes (year_month self) @ dt_to_be_bytes (day_time self)"

definition duration_all_months :: "Duration \<Rightarrow> int" where
  "duration_all_months self = ym_months (year_month self)"

definition duration_all_seconds :: "Duration \<Rightarrow> Decimal" where
  "duration_all_seconds self = dt_seconds (day_time self)"

definition duration_checked_add :: "Duration \<Rightarrow> Duration \<Rightarrow> Duration thin_result" where
  "duration_checked_add self rhs =
     and_then (ym_checked_add (year_month self) (year_month rhs)) (\<lambda>ym.
     and_then (dt_checked_add (day_time self) (day_time rhs)) (\<lambda>dt.
     map_err (\<lambda>_. ExpectedError) (duration_construct ym dt)))"

definition duration_checked_sub :: "Duration \<Rightarrow> Duration \<Rightarrow> Duration thin_result" where
  "duration_checked_sub self rhs =
     and_then (ym_checked_sub (year_month self) (year_month rhs)) (\<lambda>ym.
     and_then (dt_checked_sub (day_time self) (day_time rhs)) (\<lambda>dt.
     map_err (\<lambda>_. ExpectedError) (duration_construct ym dt)))"

definition duration_checked_neg :: "Duration \<Rightarrow> Duration thin_result" where
  "duration_checked_neg self =
     and_then (ym_checked_neg (year_month self)) (\<lambda>ym.
     map_ok (\<lambda>dt. \<lparr>year_month = ym, day_time = dt\<rparr>) (dt_checked_neg (day_time self)))"

definition duration_from_ym :: "YearMonthDuration \<Rightarrow> Duration" where
  "duration_from_ym value = \<lparr>year_month = value, day_time = dt_default\<rparr>"

definition duration_from_dt :: "DayTimeDuration \<Rightarrow> Duration" where
  "duration_from_dt value = \<lparr>year_month = ym_default, day_time = value\<rparr>"

definition ym_try_from_duration :: "Duration \<Rightarrow> (DurationOverflowError, YearMonthDuration) result" where
  "ym_try_from_duration value =
     (if day_time value = dt_default then Inr (year_month value) else Inl DurationOverflowError)"

definition dt_try_from_duration :: "Duration \<Rightarrow> (DurationOverflowError, DayTimeDuration) result" where
  "dt_try_from_duration value =
     (if year_month value = ym_default then Inr (day_time value) else Inl DurationOverflowError)"

definition duration_try_from_std :: "StdDuration \<Rightarrow> (DurationOverflowError, Duration) result" where
  "duration_try_from_std value = map_ok duration_from_dt (dt_try_from_std value)"

section \<open>Equality, bounds and the checked-arithmetic contract\<close>

lemma ym_eq_iff: "(x :: YearMonthDuration) = y \<longleftrightarrow> ym_months x = ym_months y"
  by (cases x; cases y) simp

lemma dt_eq_iff: "(x :: DayTimeDuration) = y \<longleftrightarrow> dec_value (dt_seconds x) = dec_value (dt_seconds y)"
  by (cases x; cases y) (simp add: decimal_eq_iff)

lemma duration_eq_iff: "(x :: Duration) = y \<longleftrightarrow> year_month x = year_month y \<and> day_time x = day_time y"
  by (cases x; cases y) simp

interpretation ym_add: checked_additive 64 ym_months ym_checked_add ym_checked_sub ym_checked_neg
  by unfold_locales
    (auto simp: ym_checked_add_def ym_checked_sub_def ym_checked_neg_def ym_new_def ym_eq_iff map_ok_eq_Inr_iff
      intro: exI [of _ "ym_new _"])

interpretation dt_add: checked_additive 128 "\<lambda>d. dec_value (dt_seconds d)" dt_checked_add dt_checked_sub dt_checked_neg
proof unfold_locales
  fix x y z :: DayTimeDuration and i :: int
  let ?r = "\<lambda>d :: DayTimeDuration. dec_value (dt_seconds d)"
  show "?r x = ?r y \<Longrightarrow> x = y" by (simp add: dt_eq_iff)
  show "(dt_checked_add x y = Inr z) = (?r z = ?r x + ?r y \<and> in_int 128 (?r z))"
    using decimal_add.add_spec [of "dt_seconds x" "dt_seconds y" "dt_seconds z"]
    by (cases z) (auto simp: dt_checked_add_def map_ok_eq_Inr_iff dt_new_def)
  show "(dt_checked_sub x y = Inr z) = (?r z = ?r x - ?r y \<and> in_int 128 (?r z))"
    using decimal_add.sub_spec [of "dt_seconds x" "dt_seconds y" "dt_seconds z"]
    by (cases z) (auto simp: dt_checked_sub_def map_ok_eq_Inr_iff dt_new_def)
  show "(dt_checked_neg x = Inr z) = (?r z = - ?r x \<and> in_int 128 (?r z))"
    using decimal_add.neg_spec [of "dt_seconds x" "dt_seconds z"]
    by (cases z) (auto simp: dt_checked_neg_def map_ok_eq_Inr_iff dt_new_def)
  show "\<exists>x. ?r x = i" by (rule exI [of _ "dt_new \<lparr>dec_value = i\<rparr>"]) (simp add: dt_new_def)
qed

lemma duration_construct_ok:
  "duration_construct ym dt = Inr d \<longleftrightarrow> d = \<lparr>year_month = ym, day_time = dt\<rparr> \<and> same_sign d"
  by (auto simp: duration_construct_def same_sign_def)

lemma duration_checked_add_ok:
  "duration_checked_add x y = Inr d \<longleftrightarrow>
     ym_checked_add (year_month x) (year_month y) = Inr (year_month d) \<and>
     dt_checked_add (day_time x) (day_time y) = Inr (day_time d) \<and> same_sign d"
  by (cases d) (auto simp: duration_checked_add_def and_then_eq_Inr_iff duration_construct_ok)

lemma duration_checked_sub_ok:
  "duration_checked_sub x y = Inr d \<longleftrightarrow>
     ym_checked_sub (year_month x) (year_month y) = Inr (year_month d) \<and>
     dt_checked_sub (day_time x) (day_time y) = Inr (day_time d) \<and> same_sign d"
  by (cases d) (auto simp: duration_checked_sub_def and_then_eq_Inr_iff duration_construct_ok)

lemma duration_checked_neg_ok:
  "duration_checked_neg x = Inr d \<longleftrightarrow>
     ym_checked_neg (year_month x) = Inr (year_month d) \<and> dt_checked_neg (day_time x) = Inr (day_time d)"
  by (cases d) (auto simp: duration_checked_neg_def and_then_eq_Inr_iff map_ok_eq_Inr_iff)

lemma ym_bytes: "ym_wf d \<Longrightarrow> ym_from_be_bytes (ym_to_be_bytes d) = d"
  by (simp add: ym_wf_def ym_from_be_bytes_def ym_to_be_bytes_def from_to_be_bytes)

lemma dec_bytes: "dec_wf d \<Longrightarrow> decimal_from_be_bytes (decimal_to_be_bytes d) = d"
  by (simp add: dec_wf_def decimal_from_be_bytes_def decimal_to_be_bytes_def from_to_be_bytes)

lemma duration_bytes:
  assumes "duration_wf d"
  shows "duration_from_be_bytes (duration_to_be_bytes d) = d"
  using assms ym_bytes [of "year_month d"] dec_bytes [of "dt_seconds (day_time d)"]
  by (simp add: duration_wf_def dt_wf_def duration_from_be_bytes_def duration_to_be_bytes_def ym_to_be_bytes_def
      dt_to_be_bytes_def dt_from_be_bytes_def decimal_to_be_bytes_def duration_eq_iff)

lemma ThinError_cases: "(r :: 'a thin_result) = Inl ExpectedError \<longleftrightarrow> (\<forall>z. r \<noteq> Inr z)"
  by (cases r) (auto intro: thin_error.exhaust)

text \<open>C19: Adding two durations keeps the rule that months and seconds have one sign, and it can be
  undone by subtraction. It fails exactly when the months leave \<open>i64\<close>, the seconds leave the
  decimal range, or the sum would mix the signs.\<close>

theorem duration_add_sub:
  assumes "duration_wf x" "duration_wf y"
  shows "(case duration_checked_add x y of
      Inr z \<Rightarrow> duration_wf z \<and> duration_checked_sub z y = Inr x \<and> duration_checked_add y x = Inr z \<and>
        duration_all_months z = duration_all_months x + duration_all_months y \<and>
        dec_value (duration_all_seconds z) = dec_value (duration_all_seconds x) + dec_value (duration_all_seconds y)
    | Inl e \<Rightarrow> \<not> in_int 64 (duration_all_months x + duration_all_months y) \<or>
        \<not> in_int 128 (dec_value (duration_all_seconds x) + dec_value (duration_all_seconds y)) \<or>
        (duration_all_months x + duration_all_months y) * (dec_value (duration_all_seconds x) + dec_value (duration_all_seconds y)) < 0)"
proof (cases "duration_checked_add x y")
  case (Inr z)
  then have z: "ym_checked_add (year_month x) (year_month y) = Inr (year_month z)"
    "dt_checked_add (day_time x) (day_time y) = Inr (day_time z)" "same_sign z" by (simp_all add: duration_checked_add_ok)
  have range: "in_int 64 (ym_months (year_month x))" "in_int 128 (dec_value (dt_seconds (day_time x)))" "same_sign x"
    using assms(1) by (simp_all add: duration_wf_def ym_wf_def dt_wf_def dec_wf_def)
  have "duration_checked_sub z y = Inr x"
    using z range by (simp add: duration_checked_sub_ok ym_add.sub_add_cancel dt_add.sub_add_cancel)
  moreover have "duration_checked_add y x = Inr z"
    using z by (simp add: duration_checked_add_ok ym_add.add_commute [of "year_month y"] dt_add.add_commute [of "day_time y"])
  moreover have "duration_wf z"
    using z by (auto simp: duration_wf_def ym_wf_def dt_wf_def dec_wf_def ym_add.add_spec dt_add.add_spec)
  ultimately show ?thesis
    using Inr z by (simp add: duration_all_months_def duration_all_seconds_def ym_add.add_spec dt_add.add_spec)
next
  case (Inl e)
  let ?m = "ym_months (year_month x) + ym_months (year_month y)"
  let ?s = "dec_value (dt_seconds (day_time x)) + dec_value (dt_seconds (day_time y))"
  let ?z = "\<lparr>year_month = ym_new ?m, day_time = dt_new \<lparr>dec_value = ?s\<rparr>\<rparr>"
  have "duration_checked_add x y \<noteq> Inr ?z" using Inl by simp
  then have "\<not> in_int 64 ?m \<or> \<not> in_int 128 ?s \<or> \<not> same_sign ?z"
    by (auto simp: duration_checked_add_ok ym_add.add_spec dt_add.add_spec ym_new_def dt_new_def)
  moreover have "?m * ?s < 0" if "\<not> same_sign ?z"
    using that by (auto simp: same_sign_def ym_new_def dt_new_def mult_less_0_iff)
  ultimately show ?thesis using Inl by (auto simp: duration_all_months_def duration_all_seconds_def)
qed

theorem duration_add_sub_witness:
  "duration_wf \<lparr>year_month = \<lparr>ym_months = 3\<rparr>, day_time = \<lparr>dt_seconds = \<lparr>dec_value = 7\<rparr>\<rparr>\<rparr> \<and>
   duration_checked_sub \<lparr>year_month = \<lparr>ym_months = 3\<rparr>, day_time = \<lparr>dt_seconds = \<lparr>dec_value = 7\<rparr>\<rparr>\<rparr>
     \<lparr>year_month = \<lparr>ym_months = 1\<rparr>, day_time = \<lparr>dt_seconds = \<lparr>dec_value = 2\<rparr>\<rparr>\<rparr> =
     Inr \<lparr>year_month = \<lparr>ym_months = 2\<rparr>, day_time = \<lparr>dt_seconds = \<lparr>dec_value = 5\<rparr>\<rparr>\<rparr>"
proof -
  let ?x = "\<lparr>year_month = \<lparr>ym_months = 2\<rparr>, day_time = \<lparr>dt_seconds = \<lparr>dec_value = 5\<rparr>\<rparr>\<rparr>"
  let ?y = "\<lparr>year_month = \<lparr>ym_months = 1\<rparr>, day_time = \<lparr>dt_seconds = \<lparr>dec_value = 2\<rparr>\<rparr>\<rparr>"
  have "duration_wf ?x" "duration_wf ?y"
    by (simp_all add: duration_wf_def ym_wf_def dt_wf_def dec_wf_def same_sign_def in_int_def)
  note add = duration_add_sub [OF this]
  have "duration_checked_add ?x ?y = Inr \<lparr>year_month = \<lparr>ym_months = 3\<rparr>, day_time = \<lparr>dt_seconds = \<lparr>dec_value = 7\<rparr>\<rparr>\<rparr>"
    by (simp add: duration_checked_add_ok ym_add.add_spec dt_add.add_spec same_sign_def in_int_def)
  with add show ?thesis by simp
qed

end
