(* ===== verification/Xsd_Calendar.thy ===== *)
theory Xsd_Calendar
  imports Xsd_Duration
begin

text \<open>
  The calendar of \<open>lib/common/src/xsd/date_time.rs\<close>: the seven-property model, the position of
  a date on the time line (\<open>time_on_timeline\<close>), the way back from a number of days to year,
  month and day (\<open>year_month_day\<close>), and the normalisation functions of XML Schema. Shown: the
  proleptic Gregorian day number is injective on valid dates and \<open>year_month_day\<close> inverts it;
  the loop of \<open>normalize_day\<close> ends and keeps the day number, except when it meets month zero.
\<close>

section \<open>Data\<close>

record TimezoneOffset =
  tz_offset :: int

definition tz_MAX :: TimezoneOffset where
  "tz_MAX = \<lparr>tz_offset = 14 * 60\<rparr>"

definition tz_MIN :: TimezoneOffset where
  "tz_MIN = \<lparr>tz_offset = - 14 * 60\<rparr>"

definition tz_UTC :: TimezoneOffset where
  "tz_UTC = \<lparr>tz_offset = 0\<rparr>"

record DateTimeSevenPropertyModel =
  p_year :: "int option"
  p_month :: "int option"
  p_day :: "int option"
  p_hour :: "int option"
  p_minute :: "int option"
  p_second :: "Decimal option"
  p_timezone_offset :: "TimezoneOffset option"

section \<open>Months and days\<close>

definition days_in_month :: "int option \<Rightarrow> int \<Rightarrow> int" where
  "days_in_month y m =
     (if m = 2 then
        (case y of
           Some y \<Rightarrow> if y smod 4 \<noteq> 0 \<or> (y smod 100 = 0 \<and> y smod 400 \<noteq> 0) then 28 else 29
         | None \<Rightarrow> 28)
      else if m = 4 \<or> m = 6 \<or> m = 9 \<or> m = 11 then 30
      else 31)"

definition u8_try_from :: "int \<Rightarrow> int option" where
  "u8_try_from x = (if in_uint 8 x then Some x else None)"

definition normalize_month :: "int \<Rightarrow> int \<Rightarrow> (int \<times> int) option" where
  "normalize_month yr mo =
     (if mo \<ge> 0 then do {
        m1 \<leftarrow> i_checked_sub 64 mo 1;
        q \<leftarrow> i_checked_div 64 m1 12;
        yr \<leftarrow> i_checked_add 64 yr q;
        r \<leftarrow> i_checked_rem 64 m1 12;
        r \<leftarrow> i_checked_add 64 \<bar>r\<bar> 1;
        mo \<leftarrow> u8_try_from r;
        Some (yr, mo)
      } else do {
        m1 \<leftarrow> i_checked_sub 64 mo 1;
        q \<leftarrow> i_checked_div 64 m1 12;
        q \<leftarrow> i_checked_sub 64 q 1;
        yr \<leftarrow> i_checked_add 64 yr q;
        r \<leftarrow> i_checked_rem 64 m1 12;
        r \<leftarrow> i_checked_add 64 12 r;
        r \<leftarrow> i_checked_add 64 r 1;
        mo \<leftarrow> u8_try_from r;
        Some (yr, mo)
      })"

lemma days_in_month_bounds: "28 \<le> days_in_month y m" "days_in_month y m \<le> 31"
  by (auto simp: days_in_month_def split: option.splits)

text \<open>The loop of \<open>normalize_day\<close>; a day below one never passes the end of a month and the
  other way round, so the distance to the month decreases.\<close>

function normalize_day_loop :: "int \<Rightarrow> int \<Rightarrow> int \<Rightarrow> (int \<times> int \<times> int) option" where
  "normalize_day_loop yr mo da =
     (if da \<le> 0 then
        (case Option.bind (i_checked_sub 64 mo 1) (normalize_month yr) of
           None \<Rightarrow> None
         | Some (yr2, mo2) \<Rightarrow>
             (case i_checked_add 64 da (days_in_month (Some yr2) mo2) of
                None \<Rightarrow> None
              | Some da2 \<Rightarrow> normalize_day_loop yr2 mo2 da2))
      else if da > days_in_month (Some yr) mo then
        (case i_checked_sub 64 da (days_in_month (Some yr) mo) of
           None \<Rightarrow> None
         | Some da2 \<Rightarrow>
             (case Option.bind (i_checked_add 64 mo 1) (normalize_month yr) of
                None \<Rightarrow> None
              | Some (yr2, mo2) \<Rightarrow> normalize_day_loop yr2 mo2 da2))
      else Option.bind (u8_try_from da) (\<lambda>d. Some (yr, mo, d)))"
  by pat_completeness auto
termination
proof (relation "measure (\<lambda>(yr, mo, da). nat (if da \<le> 0 then 100 - da else da))")
  fix yr mo da da2 yr2 mo2 :: int
  assume "da \<le> 0" "i_checked_add 64 da (days_in_month (Some yr2) mo2) = Some da2"
  then show "((yr2, mo2, da2), yr, mo, da) \<in> measure (\<lambda>(yr, mo, da). nat (if da \<le> 0 then 100 - da else da))"
    using days_in_month_bounds [of "Some yr2" mo2] by auto
next
  fix yr mo da da2 yr2 mo2 :: int
  assume "\<not> da \<le> 0" "days_in_month (Some yr) mo < da" "i_checked_sub 64 da (days_in_month (Some yr) mo) = Some da2"
  then show "((yr2, mo2, da2), yr, mo, da) \<in> measure (\<lambda>(yr, mo, da). nat (if da \<le> 0 then 100 - da else da))"
    using days_in_month_bounds [of "Some yr" mo] by auto
qed simp

declare normalize_day_loop.simps [simp del]

definition normalize_day :: "int \<Rightarrow> int \<Rightarrow> int \<Rightarrow> (int \<times> int \<times> int) option" where
  "normalize_day yr mo da = Option.bind (normalize_month yr mo) (\<lambda>(yr, mo). normalize_day_loop yr mo da)"

definition normalize_minute ::
  "int \<Rightarrow> int \<Rightarrow> int \<Rightarrow> int \<Rightarrow> int \<Rightarrow> (int \<times> int \<times> int \<times> int \<times> int) option" where
  "normalize_minute yr mo da hr mi = do {
     q \<leftarrow> i_checked_div 64 mi 60;
     hr \<leftarrow> i_checked_add 64 hr q;
     mi \<leftarrow> i_checked_rem 64 mi 60;
     q \<leftarrow> i_checked_div 64 hr 24;
     da \<leftarrow> i_checked_add 64 da q;
     hr \<leftarrow> i_checked_rem 64 hr 24;
     (yr, mo, da) \<leftarrow> normalize_day yr mo da;
     hr \<leftarrow> u8_try_from hr;
     mi \<leftarrow> u8_try_from mi;
     Some (yr, mo, da, hr, mi)
   }"

definition normalize_second ::
  "int \<Rightarrow> int \<Rightarrow> int \<Rightarrow> int \<Rightarrow> int \<Rightarrow> Decimal \<Rightarrow> (int \<times> int \<times> int \<times> int \<times> int \<times> Decimal) option" where
  "normalize_second yr mo da hr mi se = do {
     q \<leftarrow> i_checked_div 128 (decimal_as_i128 se) 60;
     q \<leftarrow> checked_int 64 q;
     mi \<leftarrow> i_checked_add 64 mi q;
     se \<leftarrow> decimal_checked_rem se (decimal_from 60);
     (yr, mo, da, hr, mi) \<leftarrow> normalize_minute yr mo da hr mi;
     Some (yr, mo, da, hr, mi, se)
   }"

definition date_time_plus_duration ::
  "Duration \<Rightarrow> DateTimeSevenPropertyModel \<Rightarrow> DateTimeSevenPropertyModel thin_result" where
  "date_time_plus_duration du dt =
     (let yr = unwrap_or (p_year dt) 1;
          mo = unwrap_or (p_month dt) 1;
          da = unwrap_or (p_day dt) 1;
          hr = unwrap_or (p_hour dt) 0;
          mi = unwrap_or (p_minute dt) 0;
          se = unwrap_or (p_second dt) decimal_default
      in and_then (ok_or (i_checked_add 64 mo (duration_all_months du)) ExpectedError) (\<lambda>mo.
         and_then (ok_or (normalize_month yr mo) ExpectedError) (\<lambda>(yr, mo).
         let da = min da (days_in_month (Some yr) mo) in
         and_then (decimal_checked_add se (duration_all_seconds du)) (\<lambda>se.
         and_then (ok_or (normalize_second yr mo da hr mi se) ExpectedError) (\<lambda>(yr, mo, da, hr, mi, se).
         Inr \<lparr>p_year = map_option (\<lambda>_. yr) (p_year dt), p_month = map_option (\<lambda>_. mo) (p_month dt),
           p_day = map_option (\<lambda>_. da) (p_day dt), p_hour = map_option (\<lambda>_. hr) (p_hour dt),
           p_minute = map_option (\<lambda>_. mi) (p_minute dt), p_second = map_option (\<lambda>_. se) (p_second dt),
           p_timezone_offset = p_timezone_offset dt\<rparr>)))))"

section \<open>The time line\<close>

text \<open>The subtraction of one from the year cannot leave \<open>i64\<close>: a year comes from the parser,
  from a timestamp or from a checked sum, and none of them gives the least \<open>i64\<close>.\<close>

definition time_on_timeline :: "DateTimeSevenPropertyModel \<Rightarrow> Decimal thin_result" where
  "time_on_timeline props =
     (let yr = (case p_year props of Some y \<Rightarrow> y - 1 | None \<Rightarrow> 1971);
          mo = unwrap_or (p_month props) 12;
          da = (case p_day props of Some d \<Rightarrow> d - 1 | None \<Rightarrow> days_in_month (Some (yr + 1)) mo - 1);
          hr = unwrap_or (p_hour props) 0;
          mi = unwrap_or (p_minute props) 0 - tz_offset (unwrap_or (p_timezone_offset props) tz_UTC);
          se = unwrap_or (p_second props) decimal_default
      in and_then (map_err (\<lambda>_. ExpectedError) (decimal_try_from_i128
           (31536000 * yr + 86400 * (yr div 400 - yr div 100 + yr div 4) +
            86400 * sum_list (map (\<lambda>m. days_in_month (Some (yr + 1)) m) [1..mo - 1]) +
            86400 * da + 3600 * hr + 60 * mi)))
           (\<lambda>v. decimal_checked_add v se))"

fun find_month :: "int \<Rightarrow> int \<Rightarrow> int list \<Rightarrow> int \<times> int" where
  "find_month year days [] = (0, days)"
| "find_month year days (month_i # rest) =
     (if days_in_month (Some year) month_i > days then (month_i, days)
      else find_month year (days - days_in_month (Some year) month_i) rest)"

text \<open>\<open>year_month_day\<close> from the number of days since 1 January of year one.\<close>

definition year_month_day_of :: "int \<Rightarrow> int \<times> int \<times> int" where
  "year_month_day_of day_number =
     (let days = day_number + 366;
          shift = (if days < 0 then days sdiv 146097 - 1 else 0);
          days = (if days < 0 then days - shift * 146097 else days);
          shift = shift * 400;
          year_mul_400 = days sdiv 146097;
          days = days - year_mul_400 * 146097;
          days = days - 1;
          year_mul_100 = days sdiv 36524;
          days = days - year_mul_100 * 36524;
          days = days + 1;
          year_mul_4 = days sdiv 1461;
          days = days - year_mul_4 * 1461;
          days = days - 1;
          year_mod_4 = days sdiv 365;
          days = days - year_mod_4 * 365;
          year = as_int 64 (400 * year_mul_400 + 100 * year_mul_100 + 4 * year_mul_4 + year_mod_4 + shift);
          is_leap_year = ((year_mul_100 = 0 \<or> year_mul_4 \<noteq> 0) \<and> year_mod_4 = 0);
          days = days + of_bool is_leap_year;
          (month, days) = find_month year days [1..12]
      in (year, month, as_uint 8 days + 1))"

section \<open>The Gregorian day number\<close>

definition leap :: "int \<Rightarrow> bool" where
  "leap y \<longleftrightarrow> 4 dvd y \<and> (\<not> 100 dvd y \<or> 400 dvd y)"

definition year_start :: "int \<Rightarrow> int" where
  "year_start y = 365 * (y - 1) + (y - 1) div 400 - (y - 1) div 100 + (y - 1) div 4"

definition month_start :: "int \<Rightarrow> int \<Rightarrow> int" where
  "month_start y m = sum_list (map (\<lambda>m. days_in_month (Some y) m) [1..m - 1])"

definition day_number :: "int \<Rightarrow> int \<Rightarrow> int \<Rightarrow> int" where
  "day_number y m d = year_start y + month_start y m + (d - 1)"

definition valid_date :: "int \<Rightarrow> int \<Rightarrow> int \<Rightarrow> bool" where
  "valid_date y m d \<longleftrightarrow> 1 \<le> m \<and> m \<le> 12 \<and> 1 \<le> d \<and> d \<le> days_in_month (Some y) m"

lemma days_in_month_leap:
  "days_in_month (Some y) m = (if m = 2 then 28 + of_bool (leap y) else if m = 4 \<or> m = 6 \<or> m = 9 \<or> m = 11 then 30 else 31)"
  by (auto simp: days_in_month_def leap_def smod_eq_0_iff)

lemma month_start_1 [simp]: "month_start y 1 = 0"
  by (simp add: month_start_def)

lemma month_start_Suc: "1 \<le> m \<Longrightarrow> month_start y (m + 1) = month_start y m + days_in_month (Some y) m"
  by (simp add: month_start_def upto_rec2)

lemma div_pred:
  assumes k: "0 < k"
  shows "(y :: int) div k = (y - 1) div k + of_bool (k dvd y)"
proof -
  define q r where "q = (y - 1) div k" and "r = (y - 1) mod k"
  have r: "0 \<le> r" "r < k" using k by (simp_all add: r_def)
  have "y - 1 = k * q + r" unfolding q_def r_def by (rule mult_div_mod_eq [symmetric])
  then have y: "y = k * q + (r + 1)" by simp
  show ?thesis
  proof (cases "r + 1 < k")
    case True
    then have "y div k = q" "y mod k = r + 1" using y r by (auto intro: int_div_pos_eq int_mod_pos_eq)
    then show ?thesis using r by (simp add: dvd_eq_mod_eq_0 q_def [symmetric])
  next
    case False
    then have "r + 1 = k" using r by simp
    then have "y = k * (q + 1)" using y by (simp add: distrib_left)
    then have "y div k = q + 1" "k dvd y" using k by simp_all
    then show ?thesis unfolding q_def [symmetric] by simp
  qed
qed

lemma year_start_Suc: "year_start (y + 1) = year_start y + 365 + of_bool (leap y)"
proof -
  have "4 dvd y" if "100 dvd y" using that by (rule dvd_trans [rotated]) simp
  moreover have "100 dvd y" if "400 dvd y" using that by (rule dvd_trans [rotated]) simp
  ultimately have lp: "of_bool (400 dvd y) - of_bool (100 dvd y) + of_bool (4 dvd y) = (of_bool (leap y) :: int)"
    unfolding leap_def by (cases "4 dvd y"; cases "100 dvd y"; cases "400 dvd y") simp_all
  have arith: "365 * y + (a + i) - (b + j) + (c + k) = 365 * (y - 1) + a - b + c + 365 + (i - j + k)" for a b c i j k :: int by simp
  have "year_start (y + 1) = 365 * y + y div 400 - y div 100 + y div 4" by (simp add: year_start_def)
  also have "\<dots> = 365 * y + ((y - 1) div 400 + of_bool (400 dvd y)) - ((y - 1) div 100 + of_bool (100 dvd y)) +
      ((y - 1) div 4 + of_bool (4 dvd y))"
    by (simp only: div_pred [of 4 y] div_pred [of 100 y] div_pred [of 400 y] zero_less_numeral)
  finally show ?thesis unfolding arith lp year_start_def .
qed

lemma year_start_sign: "1 \<le> y \<Longrightarrow> 365 * (y - 1) \<le> year_start y" "y \<le> 1 \<Longrightarrow> year_start y \<le> 365 * (y - 1)"
proof -
  assume y: "1 \<le> y"
  then have "(y - 1) div 100 \<le> (y - 1) div 4" by (intro zdiv_mono2) simp_all
  moreover have "0 \<le> (y - 1) div 400" using y by (simp add: pos_imp_zdiv_nonneg_iff)
  ultimately show "365 * (y - 1) \<le> year_start y" by (simp add: year_start_def)
next
  assume y: "y \<le> 1"
  have "(y - 1) div 4 \<le> (y - 1) div 100"
  proof (cases "y = 1")
    case False
    then show ?thesis using y by (intro zdiv_mono2_neg) simp_all
  qed simp
  moreover have "(y - 1) div 400 \<le> 0" using y zdiv_mono1 [of "y - 1" 0 400] by simp
  ultimately show "year_start y \<le> 365 * (y - 1)" by (simp add: year_start_def)
qed

lemma month_start_13: "month_start y 13 = 365 + of_bool (leap y)"
proof -
  have "[1..12] = [1, 2, 3, 4, 5, 6, 7, 8, 9, 10, 11, 12 :: int]" by (simp add: upto_rec1)
  then show ?thesis by (simp add: month_start_def days_in_month_leap)
qed

lemma month_start_mono: "1 \<le> m \<Longrightarrow> m \<le> n \<Longrightarrow> month_start y m \<le> month_start y n"
proof (induction "nat (n - m)" arbitrary: n)
  case (Suc k)
  then have "month_start y m \<le> month_start y (n - 1)" by simp
  also have "\<dots> \<le> month_start y (n - 1 + 1)"
    using Suc days_in_month_bounds(1) [of "Some y" "n - 1"] by (subst month_start_Suc) auto
  finally show ?case by simp
qed simp

lemma month_start_lt:
  assumes "1 \<le> m" "m < n" "d \<le> days_in_month (Some y) m"
  shows "month_start y m + d \<le> month_start y n"
  using month_start_mono [of "m + 1" n y] assms month_start_Suc [of m y] by linarith

lemma year_start_mono: "y \<le> z \<Longrightarrow> year_start y \<le> year_start z"
proof (induction "nat (z - y)" arbitrary: z)
  case (Suc k)
  then have "year_start y \<le> year_start (z - 1)" by simp
  also have "\<dots> \<le> year_start (z - 1 + 1)" by (subst year_start_Suc) simp
  finally show ?case by simp
qed simp

lemma day_number_in_year:
  assumes "valid_date y m d"
  shows "year_start y \<le> day_number y m d" "day_number y m d < year_start (y + 1)"
proof -
  have "0 \<le> month_start y m" using month_start_mono [of 1 m y] assms by (simp add: valid_date_def)
  moreover have "month_start y m + d \<le> month_start y 13" using assms by (intro month_start_lt) (auto simp: valid_date_def)
  ultimately show "year_start y \<le> day_number y m d" "day_number y m d < year_start (y + 1)"
    using assms by (auto simp: day_number_def valid_date_def year_start_Suc month_start_13)
qed

lemma year_bound:
  assumes "valid_date y m d"
  shows "\<bar>y\<bar> \<le> \<bar>day_number y m d\<bar> + 1"
proof (cases "1 \<le> y")
  case True
  then show ?thesis
    using day_number_in_year(1) [OF assms] year_start_sign(1) [OF True] abs_ge_self [of "day_number y m d"] by simp
next
  case False
  then have "year_start (y + 1) \<le> 365 * y" using year_start_sign(2) [of "y + 1"] by simp
  then show ?thesis using day_number_in_year(2) [OF assms] False abs_ge_minus_self [of "day_number y m d"] by simp
qed

lemma day_number_inj:
  assumes v: "valid_date y m d" "valid_date y' m' d'" and eq: "day_number y m d = day_number y' m' d'"
  shows "y = y' \<and> m = m' \<and> d = d'"
proof -
  have y: "\<not> a < b" if "valid_date a k l" "valid_date b i j" "day_number a k l = day_number b i j" for a b i j k l
    using day_number_in_year(2) [OF that(1)] day_number_in_year(1) [OF that(2)] year_start_mono [of "a + 1" b] that(3) by auto
  have yy: "y = y'" using y [OF v eq] y [OF v(2,1) eq [symmetric]] by simp
  have m: "\<not> k < i" if "valid_date y k l" "valid_date y i j" "day_number y k l = day_number y i j" for i j k l
    using month_start_lt [of k i l y] that by (auto simp: valid_date_def day_number_def)
  have "m = m'" using m [OF v(1)] m [of m' d'] v eq yy by (metis linorder_neq_iff)
  then show ?thesis using eq yy by (simp add: day_number_def)
qed

section \<open>From the day number to the date\<close>

lemma find_month_ok:
  assumes "1 \<le> m" "m \<le> 13" "0 \<le> days" "days < month_start y 13 - month_start y m"
  obtains m' d where "find_month y days [m..12] = (m', d)" "m \<le> m'" "m' \<le> 12" "0 \<le> d" "d < days_in_month (Some y) m'"
    "days + month_start y m = month_start y m' + d"
proof -
  have "\<exists>m' d. find_month y days [m..12] = (m', d) \<and> m \<le> m' \<and> m' \<le> 12 \<and> 0 \<le> d \<and> d < days_in_month (Some y) m' \<and>
      days + month_start y m = month_start y m' + d"
    using assms
  proof (induction "nat (13 - m)" arbitrary: m days)
    case 0
    then show ?case by simp
  next
    case (Suc k)
    have k: "m \<le> 12" "k = nat (13 - (m + 1))" using Suc.hyps(2) by linarith+
    then have upto: "[m..12] = m # [m + 1..12]" by (intro upto_rec1) simp
    show ?case
    proof (cases "days_in_month (Some y) m > days")
      case True
      then show ?thesis using Suc.prems k(1) upto by auto
    next
      case False
      let ?d = "days - days_in_month (Some y) m"
      have next_month: "month_start y (m + 1) = month_start y m + days_in_month (Some y) m"
        using Suc.prems by (intro month_start_Suc) simp
      then obtain m' d where "find_month y ?d [m + 1..12] = (m', d)" "m + 1 \<le> m'" "m' \<le> 12" "0 \<le> d"
        "d < days_in_month (Some y) m'" "?d + month_start y (m + 1) = month_start y m' + d"
        using Suc.hyps(1) [of "m + 1" ?d] k Suc.prems False by auto
      then show ?thesis using False upto next_month by auto
    qed
  qed
  then show thesis using that by blast
qed

lemma sdiv_near:
  assumes "- 1 \<le> x" "1 < (k :: int)"
  shows "0 \<le> x sdiv k" "x < (x sdiv k + 1) * k" "0 \<le> x \<Longrightarrow> x sdiv k * k \<le> x" "x = - 1 \<Longrightarrow> x sdiv k = 0"
proof -
  have neg: "x sdiv k = 0" if "x = - 1" using assms that sdiv_neg [of x k] by simp
  show "x = - 1 \<Longrightarrow> x sdiv k = 0" by (rule neg)
  have pos: "x sdiv k = x div k" if "0 \<le> x" using assms that by (simp add: sdiv_nonneg)
  have "x div k * k + x mod k = x" "x mod k < k" "0 \<le> x mod k" using assms by simp_all
  then have eq: "x div k * k \<le> x" "x < (x div k + 1) * k" unfolding distrib_right mult_1 by linarith+
  show "0 \<le> x \<Longrightarrow> x sdiv k * k \<le> x" using pos eq by simp
  have "0 \<le> x \<or> x = - 1" using assms(1) by auto
  then show "0 \<le> x sdiv k" "x < (x sdiv k + 1) * k"
    using neg pos eq assms by (auto simp: pos_imp_zdiv_nonneg_iff)
qed

lemma year_split:
  fixes r b r1 c r2 e r3 :: int
  assumes r: "0 \<le> r" "r < 146097" and b: "b = (r - 1) sdiv 36524" and r1: "r1 = r - 1 - b * 36524"
    and c: "c = (r1 + 1) sdiv 1461" and r2: "r2 = r1 + 1 - c * 1461 - 1" and e: "e = r2 sdiv 365" and r3: "r3 = r2 - e * 365"
  shows "0 \<le> b" "b \<le> 3" "0 \<le> c" "c \<le> 24" "0 \<le> e" "e \<le> 3" "r3 < 365" "- 1 \<le> r3"
    "r3 = - 1 \<Longrightarrow> e = 0 \<and> (c = 0 \<longrightarrow> b = 0)"
proof -
  note nb = sdiv_near [of "r - 1" 36524, folded b]
  show b0: "0 \<le> b" using nb(1) r by simp
  have b_up: "r - 1 < (b + 1) * 36524" using nb(2) r by simp
  have b_lo: "b * 36524 \<le> r - 1 \<or> r = 0 \<and> b = 0" using nb(3,4) r by fastforce
  show b3: "b \<le> 3" using b_lo r by auto
  have r1_b: "- 1 \<le> r1" "r1 < 36524" "r1 = - 1 \<Longrightarrow> b = 0" using b_lo b_up unfolding r1 by auto
  note nc = sdiv_near [of "r1 + 1" 1461, folded c]
  show c0: "0 \<le> c" using nc(1) r1_b by simp
  have c_b: "r1 + 1 < (c + 1) * 1461" "c * 1461 \<le> r1 + 1" using nc(2,3) r1_b by simp_all
  show "c \<le> 24" using c_b r1_b by simp
  have r2_b: "- 1 \<le> r2" "r2 < 1460" "r2 = - 1 \<Longrightarrow> r1 + 1 = c * 1461" using c_b unfolding r2 by auto
  note ne = sdiv_near [of r2 365, folded e]
  show e0: "0 \<le> e" using ne(1) r2_b by simp
  have e_b: "r2 < (e + 1) * 365" "e * 365 \<le> r2 \<or> r2 = - 1 \<and> e = 0" using ne(2,3,4) r2_b by fastforce+
  show "e \<le> 3" using e_b r2_b by auto
  show "r3 < 365" "- 1 \<le> r3" using e_b unfolding r3 by auto
  show "r3 = - 1 \<Longrightarrow> e = 0 \<and> (c = 0 \<longrightarrow> b = 0)" using e_b r2_b r1_b unfolding r3 by auto
qed

lemma year_start_cycle:
  assumes bce: "0 \<le> b" "b \<le> 3" "0 \<le> c" "c \<le> 24" "0 \<le> e" "e \<le> 3"
  shows "year_start (400 * a + 100 * b + 4 * c + e) =
      146097 * a - 365 + 36524 * b + 1461 * c + 365 * e -
      of_bool (e = 0) + of_bool (c = 0 \<and> e = 0) - of_bool (b = 0 \<and> c = 0 \<and> e = 0)"
    and "leap (400 * a + 100 * b + 4 * c + e) \<longleftrightarrow> (b = 0 \<or> c \<noteq> 0) \<and> e = 0"
proof -
  let ?y = "400 * a + 100 * b + 4 * c + e"
  have d4: "(?y - 1) div 4 = 100 * a + 25 * b + c - of_bool (e = 0)"
    using bce by (intro int_div_pos_eq [where r = "if e = 0 then 3 else e - 1"]) auto
  have d100: "(?y - 1) div 100 = 4 * a + b - of_bool (c = 0 \<and> e = 0)"
    using bce by (intro int_div_pos_eq [where r = "if c = 0 \<and> e = 0 then 99 else 4 * c + e - 1"]) auto
  have d400: "(?y - 1) div 400 = a - of_bool (b = 0 \<and> c = 0 \<and> e = 0)"
    using bce by (intro int_div_pos_eq [where r = "if b = 0 \<and> c = 0 \<and> e = 0 then 399 else 100 * b + 4 * c + e - 1"]) auto
  show "year_start ?y = 146097 * a - 365 + 36524 * b + 1461 * c + 365 * e -
      of_bool (e = 0) + of_bool (c = 0 \<and> e = 0) - of_bool (b = 0 \<and> c = 0 \<and> e = 0)"
    unfolding year_start_def d4 d100 d400 by simp
  have "?y mod 4 = e" using bce by (intro int_mod_pos_eq [where q = "100 * a + 25 * b + c"]) auto
  moreover have "?y mod 100 = 4 * c + e" using bce by (intro int_mod_pos_eq [where q = "4 * a + b"]) auto
  moreover have "?y mod 400 = 100 * b + 4 * c + e" using bce by (intro int_mod_pos_eq [where q = a]) auto
  ultimately show "leap ?y \<longleftrightarrow> (b = 0 \<or> c \<noteq> 0) \<and> e = 0"
    using bce by (auto simp: leap_def dvd_eq_mod_eq_0)
qed

lemma div_shift:
  fixes x :: int
  assumes "shift = (if x < 0 then x sdiv 146097 - 1 else 0)" "x' = (if x < 0 then x - shift * 146097 else x)"
  shows "x' sdiv 146097 + shift = x div 146097" "x' - x' sdiv 146097 * 146097 = x mod 146097"
proof -
  have x': "x' = x - shift * 146097" using assms by simp
  have nonneg: "0 \<le> x'"
  proof (cases "x < 0")
    case True
    have "- x div 146097 * 146097 + (- x) mod 146097 = - x" "(- x) mod 146097 < 146097" by simp_all
    moreover have "shift = - (- x div 146097) - 1" using True assms(1) by (simp add: sdiv_neg)
    ultimately show ?thesis unfolding x' by linarith
  qed (simp add: assms)
  then have sd: "x' sdiv 146097 = x' div 146097" by (simp add: sdiv_nonneg)
  have dm: "x' div 146097 = x div 146097 - shift" "x' mod 146097 = x mod 146097"
    unfolding x' using div_mult_self1 [of 146097 x "- shift"] mod_mult_self1 [of x "- shift" 146097] by (simp_all add: mult.commute)
  show "x' sdiv 146097 + shift = x div 146097" "x' - x' sdiv 146097 * 146097 = x mod 146097"
    unfolding sd by (simp add: dm(1), simp only: minus_div_mult_eq_mod dm(2))
qed

lemma year_month_day_of_correct:
  assumes "\<bar>N\<bar> \<le> 2 ^ 60" "year_month_day_of N = (y, m, d)"
  shows "valid_date y m d" "day_number y m d = N"
proof -
  define x where "x = N + 366"
  define shift where "shift = (if x < 0 then x sdiv 146097 - 1 else 0)"
  define x' where "x' = (if x < 0 then x - shift * 146097 else x)"
  define q where "q = x' sdiv 146097"
  define r where "r = x' - q * 146097"
  define b where "b = (r - 1) sdiv 36524"
  define r1 where "r1 = r - 1 - b * 36524"
  define c where "c = (r1 + 1) sdiv 1461"
  define r2 where "r2 = r1 + 1 - c * 1461 - 1"
  define e where "e = r2 sdiv 365"
  define r3 where "r3 = r2 - e * 365"
  define Y where "Y = 400 * q + 100 * b + 4 * c + e + shift * 400"
  define lp where "lp \<longleftrightarrow> (b = 0 \<or> c \<noteq> 0) \<and> e = 0"
  define days where "days = r3 + of_bool lp"
  have out: "year_month_day_of N = (let year = as_int 64 Y; (month, d) = find_month year days [1..12] in (year, month, as_uint 8 d + 1))"
    unfolding year_month_day_of_def Let_def days_def lp_def Y_def r3_def e_def r2_def c_def r1_def b_def r_def q_def x'_def shift_def x_def
    by (simp only:)
  have qr: "q + shift = x div 146097" "r = x mod 146097" using div_shift [OF shift_def x'_def] by (simp_all add: q_def r_def)
  then have r: "0 \<le> r" "r < 146097" by simp_all
  note split = year_split [OF r b_def r1_def c_def r2_def e_def r3_def]
  have Y: "Y = 400 * (x div 146097) + 100 * b + 4 * c + e" unfolding Y_def qr(1) [symmetric] by simp
  have lpY: "lp \<longleftrightarrow> leap Y" unfolding Y year_start_cycle(2) [OF split(1-6)] lp_def ..
  have "x = x div 146097 * 146097 + r" unfolding qr(2) by simp
  then have N: "N = year_start Y + days"
    unfolding Y year_start_cycle(1) [OF split(1-6)] days_def lp_def r3_def r2_def r1_def x_def by auto
  have days: "0 \<le> days" "days < 365 + of_bool (leap Y)" 
    using split(7-9) by (cases "r3 = - 1"; auto simp: days_def lpY [symmetric] lp_def)+
  have "x div 146097 * 146097 \<le> x" "x < (x div 146097 + 1) * 146097"
    using div_mult_mod_eq [of x 146097] pos_mod_bound [of 146097 x] pos_mod_sign [of 146097 x] by (auto simp: distrib_right)
  then have "in_int 64 Y" using assms(1) split(1-6) unfolding Y x_def in_int_def by auto
  then have as: "as_int 64 Y = Y" by (simp add: as_int_id)
  obtain m' d' where fm: "find_month Y days [1..12] = (m', d')" "1 \<le> m'" "m' \<le> 12" "0 \<le> d'" "d' < days_in_month (Some Y) m'"
    "days + month_start Y 1 = month_start Y m' + d'"
    using find_month_ok [of 1 days Y] days by (auto simp: month_start_13)
  have "as_uint 8 d' = d'" using fm(4,5) days_in_month_bounds(2) [of "Some Y" m'] by (simp add: as_uint_def)
  then have ymd: "y = Y" "m = m'" "d = d' + 1" using assms(2) unfolding out by (simp_all add: as fm(1))
  show "valid_date y m d" using fm by (simp add: ymd valid_date_def)
  show "day_number y m d = N" using fm(6) by (simp add: ymd day_number_def N)
qed

lemma year_month_day_of_day_number:
  assumes "valid_date y m d" "\<bar>day_number y m d\<bar> \<le> 2 ^ 60"
  shows "year_month_day_of (day_number y m d) = (y, m, d)"
proof -
  obtain y' m' d' where out: "year_month_day_of (day_number y m d) = (y', m', d')" by (metis prod_cases3)
  from day_number_inj [OF year_month_day_of_correct(1) [OF assms(2) out] assms(1) year_month_day_of_correct(2) [OF assms(2) out]]
  show ?thesis using out by simp
qed

section \<open>Normalisation\<close>

text \<open>The shift of a month that XML Schema asks for (\<open>normalizeMonth\<close>).\<close>

definition shift_month :: "int \<Rightarrow> int \<Rightarrow> int \<times> int" where
  "shift_month yr mo = (yr + (mo - 1) div 12, (mo - 1) mod 12 + 1)"

lemma normalize_month_eq:
  assumes "\<bar>yr\<bar> \<le> 2 ^ 62" "\<bar>mo\<bar> \<le> 2 ^ 62"
  shows "normalize_month yr mo = Some (
    if mo = 0 then (yr, 2)
    else if mo < 0 \<and> (mo - 1) mod 12 = 0 then (yr + (mo - 1) div 12 - 1, 13)
    else shift_month yr mo)"
proof -
  define q r where "q = (mo - 1) div 12" and "r = (mo - 1) mod 12"
  have qr: "mo - 1 = q * 12 + r" "0 \<le> r" "r < 12" by (simp_all add: q_def r_def)
  have bq: "\<bar>q\<bar> \<le> 2 ^ 61" using qr assms(2) by auto
  consider (zero) "mo = 0" | (pos) "0 < mo" | (neg) "mo < 0" "r \<noteq> 0" | (thirteen) "mo < 0" "r = 0" by linarith
  then show ?thesis
  proof cases
    case zero
    then show ?thesis using assms
      by (auto simp: normalize_month_def i_checked_sub_def i_checked_add_def i_checked_div_def i_checked_rem_def checked_int_def
          in_int_def u8_try_from_def in_uint_def sdiv_nonneg smod_nonneg)
  next
    case pos
    then have "(mo - 1) sdiv 12 = q" "(mo - 1) smod 12 = r" by (simp_all add: sdiv_nonneg smod_nonneg q_def r_def)
    then show ?thesis using pos assms qr bq
      by (auto simp: normalize_month_def i_checked_sub_def i_checked_add_def i_checked_div_def i_checked_rem_def checked_int_def
          in_int_def u8_try_from_def in_uint_def shift_month_def q_def [symmetric] r_def [symmetric])
  next
    case neg
    have "- (mo - 1) div 12 = - q - 1" by (rule int_div_pos_eq [where r = "12 - r"]) (use qr neg in auto)
    moreover have "- (mo - 1) mod 12 = 12 - r" by (rule int_mod_pos_eq [where q = "- q - 1"]) (use qr neg in auto)
    ultimately have "(mo - 1) sdiv 12 = q + 1" "(mo - 1) smod 12 = r - 12" using neg by (simp_all add: sdiv_neg smod_neg)
    then show ?thesis using neg assms qr bq
      by (auto simp: normalize_month_def i_checked_sub_def i_checked_add_def i_checked_div_def i_checked_rem_def checked_int_def
          in_int_def u8_try_from_def in_uint_def shift_month_def q_def [symmetric] r_def [symmetric])
  next
    case thirteen
    then have "- (mo - 1) = (- q) * 12" using qr by simp
    then have "- (mo - 1) div 12 = - q" "- (mo - 1) mod 12 = 0" by simp_all
    then have "(mo - 1) sdiv 12 = q" "(mo - 1) smod 12 = 0" using thirteen by (simp_all add: sdiv_neg smod_neg)
    then show ?thesis using thirteen assms qr bq
      by (auto simp: normalize_month_def i_checked_sub_def i_checked_add_def i_checked_div_def i_checked_rem_def checked_int_def
          in_int_def u8_try_from_def in_uint_def shift_month_def q_def [symmetric] r_def [symmetric])
  qed
qed

lemma day_number_13: "day_number y 13 d = day_number (y + 1) 1 d"
  by (simp add: day_number_def month_start_13 year_start_Suc)

lemma day_number_next_month:
  assumes "1 \<le> m" "m \<le> 12"
  shows "normalize_month y (m + 1) = Some y'm' \<Longrightarrow> \<bar>y\<bar> \<le> 2 ^ 62 \<Longrightarrow>
    1 \<le> snd y'm' \<and> snd y'm' \<le> 12 \<and> \<bar>fst y'm'\<bar> \<le> \<bar>y\<bar> + 1 \<and>
    day_number (fst y'm') (snd y'm') d = day_number y m (d + days_in_month (Some y) m)"
proof -
  assume n: "normalize_month y (m + 1) = Some y'm'" "\<bar>y\<bar> \<le> 2 ^ 62"
  have "day_number y (m + 1) d = day_number y m (d + days_in_month (Some y) m)"
    using assms by (simp add: day_number_def month_start_Suc)
  moreover have "y'm' = (if m = 12 then (y + 1, 1) else (y, m + 1))"
    using n assms by (auto simp: normalize_month_eq shift_month_def)
  ultimately show ?thesis using assms by (auto simp: day_number_13)
qed

lemma normalize_day_loop_correct:
  assumes "1 \<le> mo" "mo \<le> 12" "1 \<le> da" "\<bar>yr\<bar> + da \<le> 2 ^ 62"
  shows "\<exists>y m d. normalize_day_loop yr mo da = Some (y, m, d) \<and> valid_date y m d \<and> day_number y m d = day_number yr mo da"
  using assms
proof (induction yr mo da rule: normalize_day_loop.induct)
  case (1 yr mo da)
  let ?n = "days_in_month (Some yr) mo"
  have n: "28 \<le> ?n" "?n \<le> 31" by (rule days_in_month_bounds)+
  show ?case
  proof (cases "da > ?n")
    case False
    moreover from this have "u8_try_from da = Some da" using "1.prems" n by (simp add: u8_try_from_def in_uint_def)
    ultimately show ?thesis using "1.prems" by (subst normalize_day_loop.simps) (simp add: valid_date_def)
  next
    case True
    obtain y m where ym: "normalize_month yr (mo + 1) = Some (y, m)"
      using "1.prems" by (simp add: normalize_month_eq split: prod.splits) (metis prod.collapse)
    have next_month: "1 \<le> m" "m \<le> 12" "\<bar>y\<bar> \<le> \<bar>yr\<bar> + 1" "day_number y m (da - ?n) = day_number yr mo da"
      using day_number_next_month [OF "1.prems"(1,2) ym, of "da - ?n"] "1.prems" by auto
    have sub: "i_checked_sub 64 da ?n = Some (da - ?n)" using "1.prems" n by (simp add: in_int_def)
    have add: "Option.bind (i_checked_add 64 mo 1) (normalize_month yr) = Some (y, m)"
      using "1.prems" ym by (simp add: i_checked_add_def checked_int_def in_int_def)
    have "\<exists>y' m' d'. normalize_day_loop y m (da - ?n) = Some (y', m', d') \<and> valid_date y' m' d' \<and> day_number y' m' d' = day_number y m (da - ?n)"
      using "1.IH"(2) [OF _ True sub add refl] "1.prems" True next_month n by auto
    moreover have "normalize_day_loop yr mo da = normalize_day_loop y m (da - ?n)"
      using True "1.prems"(3) add sub by (subst normalize_day_loop.simps) (simp add: i_checked_sub_def checked_int_def)
    ultimately show ?thesis using next_month by simp
  qed
qed

lemma normalize_month_13:
  assumes "1 \<le> mo" "mo \<le> 13" "\<bar>yr\<bar> \<le> 2 ^ 62"
  obtains y m where "normalize_month yr mo = Some (y, m)" "1 \<le> m" "m \<le> 12" "\<bar>y\<bar> \<le> \<bar>yr\<bar> + 1"
    "\<And>d. day_number y m d = day_number yr mo d" "days_in_month (Some yr) mo = days_in_month (Some y) m"
    "mo \<le> 12 \<Longrightarrow> y = yr \<and> m = mo"
proof (cases "mo = 13")
  case True
  then have "normalize_month yr mo = Some (yr + 1, 1)" using assms by (simp add: normalize_month_eq shift_month_def)
  then show ?thesis using True by (intro that [of "yr + 1" 1]) (simp_all add: day_number_13 days_in_month_def)
next
  case False
  then have "normalize_month yr mo = Some (yr, mo)" using assms by (simp add: normalize_month_eq shift_month_def)
  then show ?thesis using False assms by (intro that [of yr mo]) simp_all
qed

lemma normalize_day_correct:
  assumes "1 \<le> mo" "mo \<le> 13" "1 \<le> da" "\<bar>yr\<bar> + da < 2 ^ 62"
  obtains y m d where "normalize_day yr mo da = Some (y, m, d)" "valid_date y m d" "day_number y m d = day_number yr mo da"
proof -
  obtain y m where ym: "normalize_month yr mo = Some (y, m)" "1 \<le> m" "m \<le> 12" "\<bar>y\<bar> \<le> \<bar>yr\<bar> + 1"
    "\<And>d. day_number y m d = day_number yr mo d"
    by (rule normalize_month_13 [OF assms(1,2), of yr]) (use assms in simp, rule that)
  have "\<bar>y\<bar> + da \<le> 2 ^ 62" using ym(4) assms(4) by simp
  from normalize_day_loop_correct [OF ym(2,3) assms(3) this]
  show ?thesis using that by (auto simp: normalize_day_def ym(1,5))
qed

text \<open>The branch for days below one goes wrong: the day before the first of January 2000 becomes the 29 February, because the
  month sum of zero is normalised to February of the same year.\<close>

lemma normalize_day_below_one: "normalize_day 2000 1 0 = Some (2000, 2, 29)" "normalize_day 2000 2 0 = Some (2000, 1, 31)"
  by code_simp+

text \<open>So \<open>2000-02-01T00:00:00\<close> plus the duration \<open>-P1M1D\<close> is not \<open>1999-12-31T00:00:00\<close> but \<open>2000-02-29T00:00:00\<close>.\<close>

lemma negative_duration_wrong_month:
  "date_time_plus_duration \<lparr>year_month = \<lparr>ym_months = - 1\<rparr>, day_time = \<lparr>dt_seconds = \<lparr>dec_value = - 86400000000000000000000\<rparr>\<rparr>\<rparr>
     \<lparr>p_year = Some 2000, p_month = Some 2, p_day = Some 1, p_hour = Some 0, p_minute = Some 0, p_second = Some \<lparr>dec_value = 0\<rparr>, p_timezone_offset = z\<rparr> =
   Inr \<lparr>p_year = Some 2000, p_month = Some 2, p_day = Some 29, p_hour = Some 0, p_minute = Some 0, p_second = Some \<lparr>dec_value = 0\<rparr>, p_timezone_offset = z\<rparr>"
  by code_simp

text \<open>C21: The loop that carries days into months, started with a month from 1 to 13 and a day of at least one whose sum with the
  absolute value of the year is below \<open>2^62\<close>, comes to an end with a valid date, and that date is the same day of the calendar
  as the one it started from, however many months the day count spans. (A day below one is not covered: there the
  loop may return another day, see normalize_day_below_one.)\<close>

theorem normalize_day_returns:
  assumes "1 \<le> mo" "mo \<le> 13" "1 \<le> da" "\<bar>yr\<bar> + da < 2 ^ 62"
  shows "\<exists>y m d. normalize_day yr mo da = Some (y, m, d) \<and> valid_date y m d \<and> day_number y m d = day_number yr mo da"
  using normalize_day_correct [OF assms] by metis

theorem normalize_day_returns_witness:
  "\<exists>y m d. normalize_day 2024 13 4611686018427380000 = Some (y, m, d) \<and> valid_date y m d \<and>
     day_number y m d = day_number 2024 13 4611686018427380000"
  by (rule normalize_day_returns) simp_all

lemma normalize_second_correct:
  assumes mo: "1 \<le> mo" "mo \<le> 13" and da: "1 \<le> da" "da \<le> 31" and hm: "0 \<le> hr" "hr < 24" "0 \<le> mi" "mi < 60"
    and se: "0 \<le> dec_value se" "in_int 128 (dec_value se)" and yr: "\<bar>yr\<bar> \<le> 2 ^ 61"
  obtains y m d h i s where "normalize_second yr mo da hr mi se = Some (y, m, d, h, i, s)" "valid_date y m d"
    "0 \<le> h" "h < 24" "0 \<le> i" "i < 60" "0 \<le> dec_value s" "dec_value s < 60 * DECIMAL_PART_POW"
    "(86400 * day_number y m d + 3600 * h + 60 * i) * DECIMAL_PART_POW + dec_value s =
     (86400 * day_number yr mo da + 3600 * hr + 60 * mi) * DECIMAL_PART_POW + dec_value se"
proof -
  let ?M = "60 * DECIMAL_PART_POW"
  define q where "q = dec_value se div ?M"
  define mi1 where "mi1 = mi + q"
  define hr1 where "hr1 = hr + mi1 div 60"
  define da1 where "da1 = da + hr1 div 24"
  have "dec_value se < 2 ^ 127" using se(2) by (simp add: in_int_def)
  then have q: "0 \<le> q" "q \<le> 2835686391007820529" using se(1) zdiv_mono1 [of "dec_value se" "2 ^ 127" ?M] by (simp_all add: q_def)
  have mi1: "0 \<le> mi1" "mi1 \<le> 2835686391007820600" using q hm by (simp_all add: mi1_def)
  have hr1: "0 \<le> hr1" "hr1 \<le> 2 ^ 60" using mi1 hm by (simp_all add: hr1_def pos_imp_zdiv_nonneg_iff)
  have da1: "1 \<le> da1" "da1 \<le> 2 ^ 60" using hr1 da by (auto simp: da1_def pos_imp_zdiv_nonneg_iff)
  obtain y m d where ymd: "normalize_day yr mo da1 = Some (y, m, d)" "valid_date y m d" "day_number y m d = day_number yr mo da1"
    using normalize_day_correct [OF mo da1(1), of yr] yr da1(2) by auto
  let ?s = "\<lparr>dec_value = dec_value se mod ?M\<rparr>"
  have div_q: "decimal_as_i128 se sdiv 60 = q"
    using se(1) zdiv_zmult2_eq [of 60 "dec_value se" DECIMAL_PART_POW]
    by (simp add: decimal_as_i128_def sdiv_nonneg pos_imp_zdiv_nonneg_iff q_def mult.commute)
  have rem: "decimal_checked_rem se (decimal_from 60) = Some ?s"
    using se(1) by (simp add: decimal_checked_rem_def i_checked_rem_def decimal_from_def smod_nonneg)
  have minute: "normalize_minute yr mo da hr mi1 = Some (y, m, d, hr1 mod 24, mi1 mod 60)"
  proof -
    have in64: "in_int 64 x" if "0 \<le> x" "x \<le> 2 ^ 62" for x using that by (simp add: in_int_def)
    have byte: "u8_try_from x = Some x" if "0 \<le> x" "x < 60" for x using that by (simp add: u8_try_from_def in_uint_def)
    have divs: "i_checked_div 64 mi1 60 = Some (mi1 div 60)" "i_checked_rem 64 mi1 60 = Some (mi1 mod 60)"
      "i_checked_div 64 hr1 24 = Some (hr1 div 24)" "i_checked_rem 64 hr1 24 = Some (hr1 mod 24)"
      using mi1 hr1 by (auto simp: i_checked_div_def i_checked_rem_def checked_int_def sdiv_nonneg smod_nonneg pos_imp_zdiv_nonneg_iff intro!: in64)
    have adds: "i_checked_add 64 hr (mi1 div 60) = Some hr1" "i_checked_add 64 da (hr1 div 24) = Some da1"
      using hr1 da1 by (auto simp: hr1_def da1_def intro!: in64)
    have "u8_try_from (hr1 mod 24) = Some (hr1 mod 24)" "u8_try_from (mi1 mod 60) = Some (mi1 mod 60)"
      using byte [of "hr1 mod 24"] byte [of "mi1 mod 60"] pos_mod_bound [of 24 hr1] by simp_all
    then show ?thesis by (simp only: normalize_minute_def divs adds ymd(1) bind.bind_lunit prod.case)
  qed
  have "normalize_second yr mo da hr mi se = Some (y, m, d, hr1 mod 24, mi1 mod 60, ?s)"
  proof -
    have "i_checked_div 128 (decimal_as_i128 se) 60 = Some q" "checked_int 64 q = Some q" "i_checked_add 64 mi q = Some mi1"
      using q mi1 div_q by (auto simp: i_checked_div_def checked_int_def i_checked_add_def in_int_def mi1_def)
    then show ?thesis by (simp only: normalize_second_def rem minute bind.bind_lunit prod.case)
  qed
  moreover have "(86400 * day_number y m d + 3600 * (hr1 mod 24) + 60 * (mi1 mod 60)) * DECIMAL_PART_POW + dec_value se mod ?M =
     (86400 * day_number yr mo da + 3600 * hr + 60 * mi) * DECIMAL_PART_POW + dec_value se"
  proof -
    have "day_number y m d = day_number yr mo da + hr1 div 24" unfolding ymd(3) by (simp add: day_number_def da1_def)
    moreover have "hr1 = hr1 div 24 * 24 + hr1 mod 24" "mi1 = mi1 div 60 * 60 + mi1 mod 60" by simp_all
    ultimately have "86400 * day_number y m d + 3600 * (hr1 mod 24) + 60 * (mi1 mod 60) =
        86400 * day_number yr mo da + 3600 * hr + 60 * mi + 60 * q"
      unfolding hr1_def mi1_def by linarith
    moreover have "dec_value se = q * ?M + dec_value se mod ?M" by (simp add: q_def)
    ultimately show ?thesis by simp
  qed
  ultimately show ?thesis using ymd(2) that [of y m d "hr1 mod 24" "mi1 mod 60" ?s] by simp
qed

end
