(* ===== verification/Xsd_DateTime.thy ===== *)
theory Xsd_DateTime
  imports Xsd_Calendar
begin

text \<open>
  \<open>Timestamp\<close>, \<open>DateTime\<close> and \<open>TimezoneOffset\<close> of \<open>lib/common/src/xsd/date_time.rs\<close>: a
  timestamp is a number of seconds since 1 January of year one and an optional time zone. Shown:
  the components of a timestamp are a valid date and time of day, they determine the timestamp
  and the other way round, adding months follows XML Schema, and the byte form is faithful; each
  with the exceptions the code has.
\<close>

section \<open>Orderings\<close>

definition decimal_partial_cmp :: "Decimal \<Rightarrow> Decimal \<Rightarrow> Ordering option" where
  "decimal_partial_cmp a b = Some (int_cmp (dec_value a) (dec_value b))"

section \<open>Time zones\<close>

datatype InvalidTimezoneError = InvalidTimezoneError int

datatype DateTimeOverflowError = DateTimeOverflowError

definition tz_wf :: "TimezoneOffset \<Rightarrow> bool" where
  "tz_wf z \<longleftrightarrow> - 840 \<le> tz_offset z \<and> tz_offset z \<le> 840"

definition tz_new :: "int \<Rightarrow> (InvalidTimezoneError, TimezoneOffset) result" where
  "tz_new offset_in_minutes =
     (let value = \<lparr>tz_offset = offset_in_minutes\<rparr>
      in if tz_offset tz_MIN \<le> tz_offset value \<and> tz_offset value \<le> tz_offset tz_MAX then Inr value
         else Inl (InvalidTimezoneError offset_in_minutes))"

definition tz_new_unchecked :: "int \<Rightarrow> TimezoneOffset" where
  "tz_new_unchecked offset_in_minutes = \<lparr>tz_offset = offset_in_minutes\<rparr>"

definition tz_from_be_bytes :: "nat list \<Rightarrow> TimezoneOffset" where
  "tz_from_be_bytes bytes = \<lparr>tz_offset = from_be_bytes bytes\<rparr>"

definition tz_to_be_bytes :: "TimezoneOffset \<Rightarrow> nat list" where
  "tz_to_be_bytes self = to_be_bytes 2 (tz_offset self)"

definition dt_from_tz :: "TimezoneOffset \<Rightarrow> DayTimeDuration" where
  "dt_from_tz value = dt_new (decimal_from (tz_offset value * 60))"

definition tz_try_from_dt :: "DayTimeDuration \<Rightarrow> (InvalidTimezoneError, TimezoneOffset) result" where
  "tz_try_from_dt value =
     (let offset_in_minutes = dt_minutes value + dt_hours value * 60
      in and_then (ok_or (checked_int 16 offset_in_minutes) (InvalidTimezoneError offset_in_minutes)) (\<lambda>o16.
         and_then (tz_new o16) (\<lambda>r.
           if dt_from_tz r = value then Inr r else Inl (InvalidTimezoneError offset_in_minutes))))"

definition tz_try_from_duration :: "Duration \<Rightarrow> (InvalidTimezoneError, TimezoneOffset) result" where
  "tz_try_from_duration value =
     and_then (map_err (\<lambda>_. InvalidTimezoneError 0) (dt_try_from_duration value)) tz_try_from_dt"

definition duration_from_tz :: "TimezoneOffset \<Rightarrow> Duration" where
  "duration_from_tz value = duration_from_dt (dt_from_tz value)"

section \<open>Timestamps\<close>

record Timestamp =
  ts_value :: Decimal
  ts_timezone_offset :: "TimezoneOffset option"

definition ts_eq :: "Timestamp \<Rightarrow> Timestamp \<Rightarrow> bool" where
  "ts_eq self other =
     (case (ts_timezone_offset self, ts_timezone_offset other) of
        (Some _, Some _) \<Rightarrow> ts_value self = ts_value other
      | (None, None) \<Rightarrow> ts_value self = ts_value other
      | _ \<Rightarrow> False)"

definition fourteen_hours :: Decimal where
  "fourteen_hours = decimal_from (14 * 3600)"

definition ts_partial_cmp :: "Timestamp \<Rightarrow> Timestamp \<Rightarrow> Ordering option" where
  "ts_partial_cmp self other =
     (case (ts_timezone_offset self, ts_timezone_offset other) of
        (Some _, Some _) \<Rightarrow> decimal_partial_cmp (ts_value self) (ts_value other)
      | (None, None) \<Rightarrow> decimal_partial_cmp (ts_value self) (ts_value other)
      | (Some _, None) \<Rightarrow> do {
          plus \<leftarrow> ok (decimal_checked_add (ts_value other) fourteen_hours);
          let plus_result = decimal_partial_cmp (ts_value self) plus;
          minus \<leftarrow> ok (decimal_checked_sub (ts_value other) fourteen_hours);
          let minus_result = decimal_partial_cmp (ts_value self) minus;
          if plus_result = minus_result then plus_result else None
        }
      | (None, Some _) \<Rightarrow> do {
          plus \<leftarrow> ok (decimal_checked_add (ts_value self) fourteen_hours);
          let plus_result = decimal_partial_cmp plus (ts_value other);
          minus \<leftarrow> ok (decimal_checked_sub (ts_value self) fourteen_hours);
          let minus_result = decimal_partial_cmp minus (ts_value other);
          if plus_result = minus_result then plus_result else None
        })"

definition ts_from_seven_property_model :: "DateTimeSevenPropertyModel \<Rightarrow> (DateTimeOverflowError, Timestamp) result" where
  "ts_from_seven_property_model props =
     map_ok (\<lambda>v. \<lparr>ts_value = v, ts_timezone_offset = p_timezone_offset props\<rparr>)
       (map_err (\<lambda>_. DateTimeOverflowError) (time_on_timeline props))"

definition ts_new :: "Decimal \<Rightarrow> TimezoneOffset option \<Rightarrow> Timestamp" where
  "ts_new value timezone_offset = \<lparr>ts_value = value, ts_timezone_offset = timezone_offset\<rparr>"

definition ts_from_be_bytes :: "nat list \<Rightarrow> Timestamp" where
  "ts_from_be_bytes bytes =
     \<lparr>ts_value = decimal_from_be_bytes (take 16 bytes),
      ts_timezone_offset =
        (if take 2 (drop 16 bytes) = [255, 255] then None else Some (tz_from_be_bytes (take 2 (drop 16 bytes))))\<rparr>"

definition ts_to_be_bytes :: "Timestamp \<Rightarrow> nat list" where
  "ts_to_be_bytes self =
     decimal_to_be_bytes (ts_value self) @
     (case ts_timezone_offset self of Some z \<Rightarrow> tz_to_be_bytes z | None \<Rightarrow> [255, 255])"

definition ts_local_seconds :: "Timestamp \<Rightarrow> int" where
  "ts_local_seconds self =
     decimal_as_i128 (ts_value self) + tz_offset (unwrap_or (ts_timezone_offset self) tz_UTC) * 60"

definition ts_year_month_day :: "Timestamp \<Rightarrow> int \<times> int \<times> int" where
  "ts_year_month_day self = year_month_day_of (ts_local_seconds self div 86400)"

definition ts_year :: "Timestamp \<Rightarrow> int" where
  "ts_year self = (case ts_year_month_day self of (year, _, _) \<Rightarrow> year)"

definition ts_month :: "Timestamp \<Rightarrow> int" where
  "ts_month self = (case ts_year_month_day self of (_, month, _) \<Rightarrow> month)"

definition ts_day :: "Timestamp \<Rightarrow> int" where
  "ts_day self = (case ts_year_month_day self of (_, _, day) \<Rightarrow> day)"

definition ts_hour :: "Timestamp \<Rightarrow> int" where
  "ts_hour self = as_uint 8 (ts_local_seconds self mod 86400 sdiv 3600)"

definition ts_minute :: "Timestamp \<Rightarrow> int" where
  "ts_minute self = as_uint 8 (ts_local_seconds self mod 3600 sdiv 60)"

text \<open>Neither \<open>unwrap\<close> can fail, so the default is never used.\<close>

definition ts_second :: "Timestamp \<Rightarrow> Decimal" where
  "ts_second self =
     unwrap_or (Option.bind (decimal_checked_rem_euclid (ts_value self) (decimal_from 60)) (\<lambda>r. ok (decimal_checked_abs r)))
       decimal_default"

definition ts_checked_add_seconds :: "Timestamp \<Rightarrow> Decimal \<Rightarrow> Timestamp thin_result" where
  "ts_checked_add_seconds self seconds =
     map_ok (\<lambda>v. \<lparr>ts_value = v, ts_timezone_offset = ts_timezone_offset self\<rparr>) (decimal_checked_add (ts_value self) seconds)"

definition ts_checked_sub :: "Timestamp \<Rightarrow> Timestamp \<Rightarrow> DayTimeDuration thin_result" where
  "ts_checked_sub self rhs =
     (case (ts_timezone_offset self, ts_timezone_offset rhs) of
        (Some _, Some _) \<Rightarrow> map_ok dt_new (decimal_checked_sub (ts_value self) (ts_value rhs))
      | (None, None) \<Rightarrow> map_ok dt_new (decimal_checked_sub (ts_value self) (ts_value rhs))
      | _ \<Rightarrow> Inl ExpectedError)"

definition ts_checked_sub_seconds :: "Timestamp \<Rightarrow> Decimal \<Rightarrow> Timestamp thin_result" where
  "ts_checked_sub_seconds self seconds =
     map_ok (\<lambda>v. \<lparr>ts_value = v, ts_timezone_offset = ts_timezone_offset self\<rparr>) (decimal_checked_sub (ts_value self) seconds)"

definition ts_adjust :: "Timestamp \<Rightarrow> TimezoneOffset option \<Rightarrow> Timestamp thin_result" where
  "ts_adjust self timezone_offset =
     (case ts_timezone_offset self of
        Some from_timezone \<Rightarrow>
          (case timezone_offset of
             Some to_timezone \<Rightarrow> Inr \<lparr>ts_value = ts_value self, ts_timezone_offset = Some to_timezone\<rparr>
           | None \<Rightarrow> map_ok (\<lambda>v. \<lparr>ts_value = v, ts_timezone_offset = None\<rparr>)
               (decimal_checked_add (ts_value self) (decimal_from (tz_offset from_timezone * 60))))
      | None \<Rightarrow>
          (case timezone_offset of
             Some to_timezone \<Rightarrow> map_ok (\<lambda>v. \<lparr>ts_value = v, ts_timezone_offset = Some to_timezone\<rparr>)
               (decimal_checked_sub (ts_value self) (decimal_from (tz_offset to_timezone * 60)))
           | None \<Rightarrow> Inr \<lparr>ts_value = ts_value self, ts_timezone_offset = None\<rparr>))"

definition ts_is_identical_with :: "Timestamp \<Rightarrow> Timestamp \<Rightarrow> bool" where
  "ts_is_identical_with self other \<longleftrightarrow>
     ts_value self = ts_value other \<and> ts_timezone_offset self = ts_timezone_offset other"

section \<open>Date and time\<close>

record DateTime =
  date_time_timestamp :: Timestamp

definition date_time_from_seven_property_model ::
  "int \<Rightarrow> int \<Rightarrow> int \<Rightarrow> int \<Rightarrow> int \<Rightarrow> Decimal \<Rightarrow> TimezoneOffset option \<Rightarrow> (DateTimeOverflowError, DateTime) result" where
  "date_time_from_seven_property_model year month day hour minute second timezone_offset =
     map_ok (\<lambda>t. \<lparr>date_time_timestamp = t\<rparr>)
       (ts_from_seven_property_model \<lparr>p_year = Some year, p_month = Some month, p_day = Some day, p_hour = Some hour,
          p_minute = Some minute, p_second = Some second, p_timezone_offset = timezone_offset\<rparr>)"

definition date_time_properties :: "DateTime \<Rightarrow> DateTimeSevenPropertyModel" where
  "date_time_properties self =
     (let t = date_time_timestamp self
      in \<lparr>p_year = Some (ts_year t), p_month = Some (ts_month t), p_day = Some (ts_day t), p_hour = Some (ts_hour t),
          p_minute = Some (ts_minute t), p_second = Some (ts_second t), p_timezone_offset = ts_timezone_offset t\<rparr>)"

definition date_time_from_unix_millis :: "int \<Rightarrow> (DateTimeOverflowError, DateTime) result" where
  "date_time_from_unix_millis millis =
     (let overflow = (\<lambda>_ :: thin_error. DateTimeOverflowError) in
      and_then (map_err overflow (decimal_checked_div (decimal_from millis) (decimal_from 1000))) (\<lambda>seconds.
      and_then (map_err overflow (date_time_plus_duration (duration_from_dt (dt_new seconds))
          \<lparr>p_year = Some 1970, p_month = Some 1, p_day = Some 1, p_hour = Some 0, p_minute = Some 0,
           p_second = Some decimal_default, p_timezone_offset = Some tz_UTC\<rparr>)) (\<lambda>model.
      date_time_from_seven_property_model (unwrap_or (p_year model) 1) (unwrap_or (p_month model) 1)
        (unwrap_or (p_day model) 1) (unwrap_or (p_hour model) 0) (unwrap_or (p_minute model) 0)
        (unwrap_or (p_second model) decimal_default) (p_timezone_offset model))))"

definition date_time_checked_sub :: "DateTime \<Rightarrow> DateTime \<Rightarrow> DayTimeDuration thin_result" where
  "date_time_checked_sub self rhs = ts_checked_sub (date_time_timestamp self) (date_time_timestamp rhs)"

definition date_time_checked_add_day_time_duration :: "DateTime \<Rightarrow> Duration \<Rightarrow> DateTime thin_result" where
  "date_time_checked_add_day_time_duration self rhs =
     map_ok (\<lambda>t. \<lparr>date_time_timestamp = t\<rparr>) (ts_checked_add_seconds (date_time_timestamp self) (duration_all_seconds rhs))"

definition date_time_checked_add_duration :: "DateTime \<Rightarrow> Duration \<Rightarrow> DateTime thin_result" where
  "date_time_checked_add_duration self rhs =
     (case dt_try_from_duration rhs of
        Inr d \<Rightarrow> date_time_checked_add_day_time_duration self (duration_from_dt d)
      | Inl _ \<Rightarrow>
          and_then (date_time_plus_duration rhs (date_time_properties self)) (\<lambda>props.
            map_ok (\<lambda>t. \<lparr>date_time_timestamp = t\<rparr>) (map_err (\<lambda>_. ExpectedError) (ts_from_seven_property_model props))))"

definition date_time_checked_add_year_month_duration :: "DateTime \<Rightarrow> YearMonthDuration \<Rightarrow> DateTime thin_result" where
  "date_time_checked_add_year_month_duration self rhs = date_time_checked_add_duration self (duration_from_ym rhs)"

definition date_time_checked_sub_day_time_duration :: "DateTime \<Rightarrow> DayTimeDuration \<Rightarrow> DateTime thin_result" where
  "date_time_checked_sub_day_time_duration self rhs =
     map_ok (\<lambda>t. \<lparr>date_time_timestamp = t\<rparr>) (ts_checked_sub_seconds (date_time_timestamp self) (dt_seconds rhs))"

definition date_time_checked_sub_duration :: "DateTime \<Rightarrow> Duration \<Rightarrow> DateTime thin_result" where
  "date_time_checked_sub_duration self rhs =
     (case dt_try_from_duration rhs of
        Inr d \<Rightarrow> date_time_checked_sub_day_time_duration self d
      | Inl _ \<Rightarrow>
          and_then (duration_checked_neg rhs) (\<lambda>neg.
          and_then (date_time_plus_duration neg (date_time_properties self)) (\<lambda>props.
            map_ok (\<lambda>t. \<lparr>date_time_timestamp = t\<rparr>) (map_err (\<lambda>_. ExpectedError) (ts_from_seven_property_model props)))))"

definition date_time_checked_sub_year_month_duration :: "DateTime \<Rightarrow> YearMonthDuration \<Rightarrow> DateTime thin_result" where
  "date_time_checked_sub_year_month_duration self rhs = date_time_checked_sub_duration self (duration_from_ym rhs)"

definition date_time_adjust :: "DateTime \<Rightarrow> TimezoneOffset option \<Rightarrow> DateTime thin_result" where
  "date_time_adjust self timezone_offset =
     map_ok (\<lambda>t. \<lparr>date_time_timestamp = t\<rparr>) (ts_adjust (date_time_timestamp self) timezone_offset)"

section \<open>The order of durations\<close>

definition date_time_partial_cmp :: "DateTime \<Rightarrow> DateTime \<Rightarrow> Ordering option" where
  "date_time_partial_cmp self other = ts_partial_cmp (date_time_timestamp self) (date_time_timestamp other)"

text \<open>The comparison from one of the four reference dates; the outer option is the early return.\<close>

definition compare_from :: "int \<Rightarrow> int \<Rightarrow> Duration \<Rightarrow> Duration \<Rightarrow> Ordering option option" where
  "compare_from year month self other = do {
     start \<leftarrow> ok (date_time_from_seven_property_model year month 1 0 0 (decimal_from 0) None);
     a \<leftarrow> ok (date_time_checked_add_duration start self);
     b \<leftarrow> ok (date_time_checked_add_duration start other);
     Some (date_time_partial_cmp a b)
   }"

definition duration_partial_cmp :: "Duration \<Rightarrow> Duration \<Rightarrow> Ordering option" where
  "duration_partial_cmp self other = do {
     first_result \<leftarrow> compare_from 1969 9 self other;
     second_result \<leftarrow> compare_from 1697 2 self other;
     third_result \<leftarrow> compare_from 1903 3 self other;
     fourth_result \<leftarrow> compare_from 1903 7 self other;
     if first_result = second_result \<and> second_result = third_result \<and> third_result = fourth_result
     then first_result else None
   }"

text \<open>Comparisons between the duration types go through \<open>Duration\<close>.\<close>

definition ym_eq_duration :: "YearMonthDuration \<Rightarrow> Duration \<Rightarrow> bool" where
  "ym_eq_duration self other \<longleftrightarrow> duration_from_ym self = other"

definition duration_eq_ym :: "Duration \<Rightarrow> YearMonthDuration \<Rightarrow> bool" where
  "duration_eq_ym self other \<longleftrightarrow> self = duration_from_ym other"

definition ym_cmp_duration :: "YearMonthDuration \<Rightarrow> Duration \<Rightarrow> Ordering option" where
  "ym_cmp_duration self other = duration_partial_cmp (duration_from_ym self) other"

definition duration_cmp_ym :: "Duration \<Rightarrow> YearMonthDuration \<Rightarrow> Ordering option" where
  "duration_cmp_ym self other = duration_partial_cmp self (duration_from_ym other)"

definition dt_eq_duration :: "DayTimeDuration \<Rightarrow> Duration \<Rightarrow> bool" where
  "dt_eq_duration self other \<longleftrightarrow> duration_from_dt self = other"

definition duration_eq_dt :: "Duration \<Rightarrow> DayTimeDuration \<Rightarrow> bool" where
  "duration_eq_dt self other \<longleftrightarrow> self = duration_from_dt other"

definition dt_cmp_duration :: "DayTimeDuration \<Rightarrow> Duration \<Rightarrow> Ordering option" where
  "dt_cmp_duration self other = duration_partial_cmp (duration_from_dt self) other"

definition duration_cmp_dt :: "Duration \<Rightarrow> DayTimeDuration \<Rightarrow> Ordering option" where
  "duration_cmp_dt self other = duration_partial_cmp self (duration_from_dt other)"

definition dt_eq_ym :: "DayTimeDuration \<Rightarrow> YearMonthDuration \<Rightarrow> bool" where
  "dt_eq_ym self other \<longleftrightarrow> duration_from_dt self = duration_from_ym other"

definition dt_cmp_ym :: "DayTimeDuration \<Rightarrow> YearMonthDuration \<Rightarrow> Ordering option" where
  "dt_cmp_ym self other = duration_partial_cmp (duration_from_dt self) (duration_from_ym other)"

definition ym_eq_dt :: "YearMonthDuration \<Rightarrow> DayTimeDuration \<Rightarrow> bool" where
  "ym_eq_dt self other \<longleftrightarrow> duration_from_ym self = duration_from_dt other"

definition ym_cmp_dt :: "YearMonthDuration \<Rightarrow> DayTimeDuration \<Rightarrow> Ordering option" where
  "ym_cmp_dt self other = duration_partial_cmp (duration_from_ym self) (duration_from_dt other)"

section \<open>The components of a timestamp\<close>

abbreviation MINUTE :: int where
  "MINUTE \<equiv> 60 * DECIMAL_PART_POW"

definition ts_wf :: "Timestamp \<Rightarrow> bool" where
  "ts_wf t \<longleftrightarrow> dec_wf (ts_value t) \<and> (\<forall>z. ts_timezone_offset t = Some z \<longrightarrow> tz_wf z)"

text \<open>The minute on the local clock, counted from the start of year one, as the code computes it:
  it truncates the seconds towards zero, which passes the end of the minute when the value is
  negative and more than 59 seconds of the minute have gone.\<close>

definition ts_offset :: "Timestamp \<Rightarrow> int" where
  "ts_offset t = tz_offset (unwrap_or (ts_timezone_offset t) tz_UTC)"

definition minute_exact :: "Timestamp \<Rightarrow> bool" where
  "minute_exact t \<longleftrightarrow> 0 \<le> dec_value (ts_value t) \<or> dec_value (ts_value t) mod MINUTE \<le> 59 * DECIMAL_PART_POW"

definition local_minute :: "Timestamp \<Rightarrow> int" where
  "local_minute t = dec_value (ts_value t) div MINUTE + of_bool (\<not> minute_exact t) + ts_offset t"

lemma ts_offset_bounds: "ts_wf t \<Longrightarrow> - 840 \<le> ts_offset t \<and> ts_offset t \<le> 840"
  by (cases "ts_timezone_offset t") (auto simp: ts_wf_def tz_wf_def ts_offset_def tz_UTC_def)

lemma ts_second_eq: "dec_wf (ts_value t) \<Longrightarrow> ts_second t = \<lparr>dec_value = dec_value (ts_value t) mod MINUTE\<rparr>"
proof -
  let ?s = "dec_value (ts_value t) mod MINUTE"
  have s: "0 \<le> ?s" "?s < MINUTE" by simp_all
  have "in_int 128 x" if "0 \<le> x" "x < MINUTE" for x using that by (simp add: in_int_def)
  then have "in_int 128 ?s" using s .
  then show ?thesis
    using s by (simp add: ts_second_def decimal_checked_rem_euclid_def i_checked_rem_euclid_def decimal_from_def
        decimal_checked_abs_def i_checked_abs_def checked_int_def)
qed

lemma sdiv_minute:
  assumes "v = q * (60 * P) + s" "0 \<le> s" "s < 60 * P" "0 < (P :: int)"
  obtains k where "v sdiv P = 60 * (q + of_bool (\<not> (0 \<le> v \<or> s \<le> 59 * P))) + k" "0 \<le> k" "k < 60"
proof (cases "0 \<le> v")
  case True
  have "v div P = 60 * q + s div P" using assms(1,4) div_mult_self1 [of P s "60 * q"] by (simp add: ac_simps)
  moreover have "s div P < 60"
  proof -
    have "s div P * P \<le> s" using div_mult_mod_eq [of s P] pos_mod_sign [OF assms(4), of s] by linarith
    then have "s div P * P < 60 * P" using assms(3) by simp
    then show ?thesis using assms(4) by simp
  qed
  ultimately show ?thesis using that [of "s div P"] True assms(2,4) by (simp add: sdiv_nonneg pos_imp_zdiv_nonneg_iff)
next
  case False
  have eq: "- v = P * (- 60 * q - 60) + (60 * P - s)" using assms(1) by (simp add: algebra_simps)
  have "(- v) div P = - 60 * q - 60 + (60 * P - s) div P"
    unfolding eq using assms(4) by (simp add: div_mult_self4)
  then have sdiv: "v sdiv P = 60 * q + (60 - (60 * P - s) div P)" using False assms(4) by (simp add: sdiv_neg)
  have up: "(60 * P - s) div P \<le> 60" using assms(2,4) zdiv_mono1 [of "60 * P - s" "60 * P" P] by simp
  show ?thesis
  proof (cases "s \<le> 59 * P")
    case True
    then have "1 \<le> (60 * P - s) div P" using assms(4) by (simp add: pos_imp_zdiv_pos_iff int_one_le_iff_zero_less)
    then show ?thesis using up sdiv True by (intro that [of "60 - (60 * P - s) div P"]) simp_all
  next
    case late: False
    then have "(60 * P - s) div P = 0" using assms(3) by (intro div_pos_pos_trivial) simp_all
    then show ?thesis using sdiv late False by (intro that [of 0]) simp_all
  qed
qed

lemma local_parts:
  shows "ts_local_seconds t div 86400 = local_minute t div 1440"
    and "ts_local_seconds t mod 86400 sdiv 3600 = local_minute t mod 1440 div 60"
    and "ts_local_seconds t mod 3600 sdiv 60 = local_minute t mod 60"
proof -
  let ?v = "dec_value (ts_value t)"
  obtain k where k: "?v sdiv DECIMAL_PART_POW = 60 * (?v div MINUTE + of_bool (\<not> minute_exact t)) + k" "0 \<le> k" "k < 60"
    unfolding minute_exact_def
    by (rule sdiv_minute [of ?v "?v div MINUTE" DECIMAL_PART_POW "?v mod MINUTE"]) simp_all
  define L where "L = local_minute t"
  have S: "ts_local_seconds t = 60 * L + k"
    using k(1) by (simp add: ts_local_seconds_def decimal_as_i128_def L_def local_minute_def ts_offset_def)
  have d: "(60 * L + k) div 60 = L" "(60 * L + k) mod 60 = k" using k by simp_all
  have "(60 * L + k) div (60 * 1440) = L div 1440" unfolding zdiv_zmult2_eq [of 1440, simplified] d(1) by simp
  then show "ts_local_seconds t div 86400 = local_minute t div 1440" by (simp add: S L_def)
  have m1: "(60 * L + k) mod (60 * 1440) = 60 * (L mod 1440) + k" unfolding zmod_zmult2_eq [of 1440, simplified] d by simp
  have m2: "(60 * L + k) mod (60 * 60) = 60 * (L mod 60) + k" unfolding zmod_zmult2_eq [of 60, simplified] d by simp
  have "(60 * (L mod 1440) + k) div (60 * 60) = L mod 1440 div 60" using k unfolding zdiv_zmult2_eq [of 60, simplified] by simp
  then show "ts_local_seconds t mod 86400 sdiv 3600 = local_minute t mod 1440 div 60"
    using m1 k by (simp add: S L_def [symmetric] sdiv_nonneg)
  show "ts_local_seconds t mod 3600 sdiv 60 = local_minute t mod 60"
    using m2 k by (simp add: S L_def [symmetric] sdiv_nonneg)
qed

lemma time_on_timeline_full:
  "time_on_timeline \<lparr>p_year = Some y, p_month = Some m, p_day = Some d, p_hour = Some hr, p_minute = Some mi,
      p_second = Some se, p_timezone_offset = z\<rparr> = Inr v \<longleftrightarrow>
   (let w = (86400 * day_number y m d + 3600 * hr + 60 * (mi - tz_offset (unwrap_or z tz_UTC))) * DECIMAL_PART_POW
    in in_int 128 w \<and> dec_value v = w + dec_value se \<and> in_int 128 (dec_value v))"
proof -
  have "31536000 * (y - 1) + 86400 * ((y - 1) div 400 - (y - 1) div 100 + (y - 1) div 4) +
      86400 * sum_list (map (\<lambda>m. days_in_month (Some y) m) [1..m - 1]) + 86400 * (d - 1) + 3600 * hr + 60 * (mi - tz_offset (unwrap_or z tz_UTC)) =
      86400 * day_number y m d + 3600 * hr + 60 * (mi - tz_offset (unwrap_or z tz_UTC))"
    by (simp add: day_number_def year_start_def month_start_def)
  then show ?thesis
    by (auto simp: time_on_timeline_def Let_def decimal_try_from_i128_def and_then_eq_Inr_iff decimal_add.add_spec simp del: decimal_consts)
qed

lemma ts_day_number_bound:
  assumes "ts_wf t"
  shows "\<bar>local_minute t div 1440\<bar> \<le> 2 ^ 60"
proof -
  let ?v = "dec_value (ts_value t)"
  have v: "- (2 ^ 127) \<le> ?v" "?v < 2 ^ 127" using assms by (simp_all add: ts_wf_def dec_wf_def in_int_def)
  have "- (2 ^ 127) div MINUTE \<le> ?v div MINUTE" "?v div MINUTE \<le> 2 ^ 127 div MINUTE" using v by (intro zdiv_mono1; simp)+
  then have "- 2835686391007820529 \<le> ?v div MINUTE" "?v div MINUTE \<le> 2835686391007820528" by simp_all
  then have "\<bar>local_minute t\<bar> \<le> 2 ^ 62" using ts_offset_bounds [OF assms] unfolding local_minute_def by auto
  then show ?thesis by auto
qed

text \<open>The components of a timestamp describe its local minute.\<close>

lemma ts_components:
  assumes "ts_wf t"
  shows "valid_date (ts_year t) (ts_month t) (ts_day t)"
    and "day_number (ts_year t) (ts_month t) (ts_day t) = local_minute t div 1440"
    and "ts_hour t = local_minute t mod 1440 div 60" "ts_minute t = local_minute t mod 60"
proof -
  obtain y m d where ymd: "year_month_day_of (local_minute t div 1440) = (y, m, d)" by (metis prod_cases3)
  have "ts_year t = y" "ts_month t = m" "ts_day t = d"
    by (simp_all add: ts_year_def ts_month_def ts_day_def ts_year_month_day_def local_parts(1) ymd)
  then show "valid_date (ts_year t) (ts_month t) (ts_day t)"
    "day_number (ts_year t) (ts_month t) (ts_day t) = local_minute t div 1440"
    using year_month_day_of_correct [OF ts_day_number_bound [OF assms] ymd] by simp_all
  have small: "as_uint 8 x = x" if "0 \<le> x" "x < 60" for x using that by (simp add: as_uint_def)
  have h: "0 \<le> local_minute t mod 1440 div 60" "local_minute t mod 1440 div 60 < 24"
    by (simp_all add: pos_imp_zdiv_nonneg_iff)
  have m: "0 \<le> local_minute t mod 60" "local_minute t mod 60 < 60" by simp_all
  show "ts_hour t = local_minute t mod 1440 div 60" "ts_minute t = local_minute t mod 60"
    using small [OF h(1)] small [OF m] h(2) by (simp_all add: ts_hour_def ts_minute_def local_parts)
qed

lemma local_minute_split: "L = L div 1440 * 1440 + L mod 1440 div 60 * 60 + L mod (60 :: int)"
proof -
  have "L mod 1440 div 60 * 60 + L mod 60 = L mod 1440" using div_mult_mod_eq [of "L mod 1440" 60] by (simp add: mod_mod_cancel)
  then show ?thesis using div_mult_mod_eq [of L 1440] by linarith
qed

lemma ts_rebuild:
  assumes t: "ts_wf t" and w: "w = (dec_value (ts_value t) div MINUTE + of_bool (\<not> minute_exact t)) * MINUTE"
    and fit: "in_int 128 w" "in_int 128 (w + dec_value (ts_value t) mod MINUTE)"
  shows "ts_from_seven_property_model (date_time_properties \<lparr>date_time_timestamp = t\<rparr>) =
    Inr (t\<lparr>ts_value := \<lparr>dec_value = w + dec_value (ts_value t) mod MINUTE\<rparr>\<rparr>)"
proof -
  note c = ts_components [OF t]
  have "86400 * a + 3600 * b + 60 * (c - o') = 60 * (L - o')" if "L = a * 1440 + b * 60 + c" for a b c L o' :: int
    using that by simp
  note this [OF local_minute_split, of "local_minute t" "ts_offset t"]
  then have whole: "(86400 * (local_minute t div 1440) + 3600 * (local_minute t mod 1440 div 60) +
      60 * (local_minute t mod 60 - ts_offset t)) * DECIMAL_PART_POW = w"
    unfolding w local_minute_def by simp
  have "time_on_timeline (date_time_properties \<lparr>date_time_timestamp = t\<rparr>) = Inr \<lparr>dec_value = w + dec_value (ts_value t) mod MINUTE\<rparr>"
    using fit whole t by (simp add: date_time_properties_def Let_def time_on_timeline_full c(2-4) ts_offset_def [symmetric]
        ts_second_eq ts_wf_def del: decimal_consts)
  then show ?thesis by (simp add: ts_from_seven_property_model_def date_time_properties_def Let_def)
qed

text \<open>A timestamp whose value is that of a date and a time of day has them as its components.\<close>

lemma ts_of_parts:
  assumes "valid_date y m d" "0 \<le> hr" "hr < 24" "0 \<le> mi" "mi < 60" "0 \<le> dec_value se" "dec_value se < MINUTE"
    and tz: "\<forall>x. z = Some x \<longrightarrow> tz_wf x" and t: "t = \<lparr>ts_value = v, ts_timezone_offset = z\<rparr>"
    and v: "dec_value v = (86400 * day_number y m d + 3600 * hr + 60 * (mi - tz_offset (unwrap_or z tz_UTC))) * DECIMAL_PART_POW + dec_value se"
      "in_int 128 (dec_value v)"
    and exact: "0 \<le> dec_value v \<or> dec_value se \<le> 59 * DECIMAL_PART_POW"
  shows "ts_wf t" "ts_year t = y" "ts_month t = m" "ts_day t = d" "ts_hour t = hr" "ts_minute t = mi" "ts_second t = se"
proof -
  let ?o = "tz_offset (unwrap_or z tz_UTC)"
  define q where "q = 1440 * day_number y m d + 60 * hr + mi - ?o"
  have vq: "dec_value v = MINUTE * q + dec_value se" unfolding v(1) q_def by simp
  then have dm: "dec_value v div MINUTE = q" "dec_value v mod MINUTE = dec_value se"
    using assms(6,7) by (auto intro: int_div_pos_eq int_mod_pos_eq)
  show wf: "ts_wf t" using v(2) tz by (simp add: t ts_wf_def dec_wf_def)
  have "minute_exact t" using exact dm(2) by (simp add: minute_exact_def t del: decimal_consts)
  then have L: "local_minute t = 1440 * day_number y m d + (60 * hr + mi)"
    by (simp add: local_minute_def t dm(1) ts_offset_def q_def del: decimal_consts)
  have hm: "0 \<le> 60 * hr + mi" "60 * hr + mi < 1440" using assms(2-5) by simp_all
  have parts: "local_minute t div 1440 = day_number y m d" "local_minute t mod 1440 = 60 * hr + mi"
    unfolding L using hm by simp_all
  note c = ts_components [OF wf, unfolded parts]
  have "ts_year t = y \<and> ts_month t = m \<and> ts_day t = d" by (rule day_number_inj [OF c(1) assms(1) c(2)])
  then show "ts_year t = y" "ts_month t = m" "ts_day t = d" by simp_all
  show "ts_hour t = hr" unfolding c(3) using assms(4,5) by simp
  have "local_minute t mod 60 = local_minute t mod 1440 mod 60" by (simp add: mod_mod_cancel)
  then show "ts_minute t = mi" unfolding c(4) parts using assms(4,5) by simp
  show "ts_second t = se" using wf dm(2) by (simp add: ts_second_eq ts_wf_def decimal_eq_iff) (simp add: t)
qed

text \<open>C22: A date and time is recovered from the timestamp built from it: year, month, day, hour,
  minute, second and time zone are the ones given, for every valid date of the proleptic Gregorian
  calendar, before or after year one. Before year one the seconds must not exceed 59.\<close>

theorem date_time_components:
  assumes "valid_date y m d" "0 \<le> hr" "hr < 24" "0 \<le> mi" "mi < 60" "0 \<le> dec_value se" "dec_value se < MINUTE"
    and tz: "\<forall>x. z = Some x \<longrightarrow> tz_wf x"
    and made: "date_time_from_seven_property_model y m d hr mi se z = Inr dt"
    and exact: "0 \<le> dec_value (ts_value (date_time_timestamp dt)) \<or> dec_value se \<le> 59 * DECIMAL_PART_POW"
  shows "date_time_properties dt = \<lparr>p_year = Some y, p_month = Some m, p_day = Some d, p_hour = Some hr,
    p_minute = Some mi, p_second = Some se, p_timezone_offset = z\<rparr>"
proof -
  let ?o = "tz_offset (unwrap_or z tz_UTC)" and ?t = "date_time_timestamp dt"
  obtain v where v: "dec_value v = (86400 * day_number y m d + 3600 * hr + 60 * (mi - ?o)) * DECIMAL_PART_POW + dec_value se"
    "in_int 128 (dec_value v)" and t: "?t = \<lparr>ts_value = v, ts_timezone_offset = z\<rparr>"
    using made by (auto simp: date_time_from_seven_property_model_def ts_from_seven_property_model_def map_ok_eq_Inr_iff
        time_on_timeline_full Let_def simp del: decimal_consts)
  have "0 \<le> dec_value v \<or> dec_value se \<le> 59 * DECIMAL_PART_POW" using exact by (simp add: t del: decimal_consts)
  note ts_of_parts [OF assms(1-7) tz t v this]
  then show ?thesis by (simp add: date_time_properties_def Let_def) (simp add: t)
qed

theorem date_time_components_witness:
  "\<exists>dt. date_time_from_seven_property_model 2000 2 29 23 59 \<lparr>dec_value = 59500000000000000000\<rparr> (Some \<lparr>tz_offset = -60\<rparr>) = Inr dt \<and>
     date_time_properties dt = \<lparr>p_year = Some 2000, p_month = Some 2, p_day = Some 29, p_hour = Some 23, p_minute = Some 59,
       p_second = Some \<lparr>dec_value = 59500000000000000000\<rparr>, p_timezone_offset = Some \<lparr>tz_offset = -60\<rparr>\<rparr>"
proof -
  let ?v = "\<lparr>dec_value = 63087469199500000000000000000\<rparr>"
  let ?dt = "\<lparr>date_time_timestamp = \<lparr>ts_value = ?v, ts_timezone_offset = Some \<lparr>tz_offset = -60\<rparr>\<rparr>\<rparr>"
  have made: "date_time_from_seven_property_model 2000 2 29 23 59 \<lparr>dec_value = 59500000000000000000\<rparr> (Some \<lparr>tz_offset = -60\<rparr>) = Inr ?dt"
    by code_simp
  have "valid_date 2000 2 29" by code_simp
  from date_time_components [OF this _ _ _ _ _ _ _ made] made show ?thesis by (simp add: tz_wf_def)
qed

text \<open>C23: For every timestamp the components are those of a real date and time of day: the month
  lies between 1 and 12, the day inside the month, the hour below 24, the minute and the second
  below 60.\<close>

theorem timestamp_components_bounds:
  assumes "ts_wf t"
  shows "valid_date (ts_year t) (ts_month t) (ts_day t) \<and> 0 \<le> ts_hour t \<and> ts_hour t < 24 \<and> 0 \<le> ts_minute t \<and> ts_minute t < 60 \<and>
    0 \<le> dec_value (ts_second t) \<and> dec_value (ts_second t) < 60 * DECIMAL_PART_POW"
  using assms by (simp add: ts_components ts_second_eq ts_wf_def pos_imp_zdiv_nonneg_iff)

theorem timestamp_components_bounds_witness:
  "valid_date (ts_year \<lparr>ts_value = decimal_MIN, ts_timezone_offset = Some tz_MIN\<rparr>)
     (ts_month \<lparr>ts_value = decimal_MIN, ts_timezone_offset = Some tz_MIN\<rparr>) (ts_day \<lparr>ts_value = decimal_MIN, ts_timezone_offset = Some tz_MIN\<rparr>)"
proof -
  have "ts_wf \<lparr>ts_value = decimal_MIN, ts_timezone_offset = Some tz_MIN\<rparr>"
    by (simp add: ts_wf_def dec_wf_def decimal_MIN_def int_min_def in_int_def tz_wf_def tz_MIN_def)
  from timestamp_components_bounds [OF this] show ?thesis by simp
qed

lemma ts_rebuild_cases:
  assumes "ts_wf t" "- (2 ^ 120) \<le> dec_value (ts_value t)" "dec_value (ts_value t) \<le> 2 ^ 120"
  shows "ts_from_seven_property_model (date_time_properties \<lparr>date_time_timestamp = t\<rparr>) = Inr (
    if dec_value (ts_value t) < 0 \<and> dec_value (ts_second t) > 59 * DECIMAL_PART_POW
    then t\<lparr>ts_value := \<lparr>dec_value = dec_value (ts_value t) + 60 * DECIMAL_PART_POW\<rparr>\<rparr>
    else t)"
proof -
  let ?v = "dec_value (ts_value t)"
  define q s where "q = ?v div MINUTE" and "s = ?v mod MINUTE"
  have v: "?v = q * MINUTE + s" "0 \<le> s" "s < MINUTE" by (simp_all add: q_def s_def)
  define e :: int where "e = of_bool (\<not> minute_exact t)"
  have exact: "minute_exact t \<longleftrightarrow> \<not> (?v < 0 \<and> dec_value (ts_second t) > 59 * DECIMAL_PART_POW)"
    using assms(1) by (auto simp: minute_exact_def ts_second_eq ts_wf_def)
  have "0 \<le> e" "e \<le> 1" by (simp_all add: e_def)
  then have "in_int 128 ((q + e) * MINUTE)" "in_int 128 ((q + e) * MINUTE + s)"
    using v assms(2,3) unfolding in_int_def by (simp_all add: distrib_right)
  from ts_rebuild [OF assms(1) refl, folded q_def s_def e_def, OF this]
  have "ts_from_seven_property_model (date_time_properties \<lparr>date_time_timestamp = t\<rparr>) =
      Inr (t\<lparr>ts_value := \<lparr>dec_value = ?v + e * MINUTE\<rparr>\<rparr>)"
    using v(1) by (simp add: distrib_right)
  then show ?thesis using exact by (auto simp: e_def)
qed

text \<open>Rebuilding a timestamp from its components gives the timestamp back, except before year
  one in the last second of a minute: there the components denote the instant one minute later,
  because the seconds are truncated towards zero and not rounded down.\<close>

theorem timestamp_rebuild:
  assumes "ts_wf t" "- (2 ^ 120) \<le> dec_value (ts_value t)" "dec_value (ts_value t) \<le> 2 ^ 120"
  shows "ts_from_seven_property_model (date_time_properties \<lparr>date_time_timestamp = t\<rparr>) = Inr (
    if dec_value (ts_value t) < 0 \<and> dec_value (ts_second t) > 59 * DECIMAL_PART_POW
    then t\<lparr>ts_value := \<lparr>dec_value = dec_value (ts_value t) + 60 * DECIMAL_PART_POW\<rparr>\<rparr>
    else t)"
  by (rule ts_rebuild_cases [OF assms])

theorem timestamp_rebuild_witness:
  "ts_from_seven_property_model (date_time_properties \<lparr>date_time_timestamp = \<lparr>ts_value = \<lparr>dec_value = -500000000000000000\<rparr>, ts_timezone_offset = None\<rparr>\<rparr>) =
     Inr \<lparr>ts_value = \<lparr>dec_value = 59500000000000000000\<rparr>, ts_timezone_offset = None\<rparr>"
proof -
  let ?t = "\<lparr>ts_value = \<lparr>dec_value = -500000000000000000\<rparr>, ts_timezone_offset = None\<rparr>"
  have "ts_wf ?t" by (simp add: ts_wf_def dec_wf_def in_int_def)
  moreover have "dec_value (ts_second ?t) = 59500000000000000000" by code_simp
  ultimately show ?thesis using timestamp_rebuild [of ?t] by simp
qed

section \<open>Adding durations\<close>

lemma ts_year_bound:
  assumes "ts_wf t"
  shows "\<bar>ts_year t\<bar> \<le> 2 ^ 60 + 1"
  using year_bound [OF ts_components(1) [OF assms]] ts_day_number_bound [OF assms] ts_components(2) [OF assms] by simp

text \<open>The code's month arithmetic: the shift of XML Schema, but February of the same year when the
  sum of the months is zero.\<close>

definition code_month :: "int \<Rightarrow> int \<Rightarrow> int \<times> int" where
  "code_month yr mo = (if mo = 0 then (yr, 2) else shift_month yr mo)"

lemma normalize_month_code:
  assumes "\<bar>yr\<bar> \<le> 2 ^ 60 + 1" "\<bar>mo\<bar> \<le> 2 ^ 60" "code_month yr mo = (y, m)"
  obtains y1 m1 where "normalize_month yr mo = Some (y1, m1)" "1 \<le> m1" "m1 \<le> 13" "\<bar>y1\<bar> \<le> 2 ^ 61"
    "\<And>d. day_number y1 m1 d = day_number y m d" "days_in_month (Some y1) m1 = days_in_month (Some y) m"
proof -
  have n: "normalize_month yr mo = Some (if mo = 0 then (yr, 2)
      else if mo < 0 \<and> (mo - 1) mod 12 = 0 then (yr + (mo - 1) div 12 - 1, 13) else shift_month yr mo)"
    using assms(1,2) by (intro normalize_month_eq) auto
  have q: "\<bar>(mo - 1) div 12\<bar> \<le> 2 ^ 59" using assms(2) by auto
  have m12: "0 \<le> (mo - 1) mod 12" "(mo - 1) mod 12 < 12" by simp_all
  consider (zero) "mo = 0" | (thirteen) "mo < 0" "(mo - 1) mod 12 = 0" | (shift) "mo \<noteq> 0" "\<not> (mo < 0 \<and> (mo - 1) mod 12 = 0)" by blast
  then show ?thesis
  proof cases
    case zero
    then show ?thesis using n assms by (intro that [of yr 2]) (auto simp: code_month_def)
  next
    case thirteen
    then have ym: "y = yr + (mo - 1) div 12" "m = 1" using assms(3) by (auto simp: code_month_def shift_month_def)
    show ?thesis
    proof (rule that [of "y - 1" 13])
      show "\<bar>y - 1\<bar> \<le> 2 ^ 61" using q assms(1) unfolding ym by auto
    qed (use n thirteen ym in \<open>auto simp: day_number_13 days_in_month_def\<close>)
  next
    case shift
    then have ym: "(y, m) = shift_month yr mo" using assms(3) by (simp add: code_month_def)
    show ?thesis
    proof (rule that [of y m])
      show "\<bar>y\<bar> \<le> 2 ^ 61" using ym q assms(1) by (auto simp: shift_month_def)
      show "1 \<le> m" "m \<le> 13" using ym m12 by (auto simp: shift_month_def)
    qed (use n shift ym in auto)
  qed
qed

lemma time_on_timeline_whole:
  assumes "W = (86400 * day_number y m d + 3600 * hr + 60 * (mi - tz_offset (unwrap_or z tz_UTC))) * DECIMAL_PART_POW"
  shows "time_on_timeline \<lparr>p_year = Some y, p_month = Some m, p_day = Some d, p_hour = Some hr, p_minute = Some mi,
      p_second = Some se, p_timezone_offset = z\<rparr> =
    (if in_int 128 W \<and> in_int 128 (W + dec_value se) then Inr \<lparr>dec_value = W + dec_value se\<rparr> else Inl ExpectedError)"
proof (cases "in_int 128 W \<and> in_int 128 (W + dec_value se)")
  case True
  then show ?thesis using assms by (simp add: time_on_timeline_full Let_def del: decimal_consts)
next
  case False
  then have "time_on_timeline \<lparr>p_year = Some y, p_month = Some m, p_day = Some d, p_hour = Some hr, p_minute = Some mi,
      p_second = Some se, p_timezone_offset = z\<rparr> \<noteq> Inr v" for v
    using assms by (auto simp: time_on_timeline_full Let_def simp del: decimal_consts)
  then show ?thesis using False unfolding if_not_P [OF False] by (simp add: ThinError_cases)
qed

text \<open>C24: Adding a duration with a nonzero number of months, smaller than \<open>2^60 - 12\<close> in size, to a date and time, where the second
  of the minute plus the seconds of the duration is not negative, shifts the month, clamps the day to the length of the month
  reached and adds the seconds on the time line. It fails exactly when that sum of seconds, the result, or the whole minutes of
  the result leave 128 bits; so it also fails when only the intermediate sum overflows. A sum of months that is exactly zero
  reaches February of the same year and not December of the year before.\<close>

theorem date_time_add_duration:
  assumes t: "ts_wf t" and k: "duration_all_months du \<noteq> 0" "\<bar>duration_all_months du\<bar> < 2 ^ 60 - 12"
    and se1: "0 \<le> dec_value (ts_second t) + dec_value (duration_all_seconds du)"
    and ym: "(y, m) = (if ts_month t + duration_all_months du = 0 then (ts_year t, 2)
        else shift_month (ts_year t) (ts_month t + duration_all_months du))"
    and w: "w = (86400 * day_number y m (min (ts_day t) (days_in_month (Some y) m)) + 3600 * ts_hour t +
        60 * (ts_minute t - ts_offset t)) * DECIMAL_PART_POW + dec_value (ts_second t) + dec_value (duration_all_seconds du)"
  shows "date_time_checked_add_duration \<lparr>date_time_timestamp = t\<rparr> du =
    (if in_int 128 (dec_value (ts_second t) + dec_value (duration_all_seconds du)) \<and> in_int 128 w \<and> in_int 128 (w - w mod (60 * DECIMAL_PART_POW))
     then Inr \<lparr>date_time_timestamp = t\<lparr>ts_value := \<lparr>dec_value = w\<rparr>\<rparr>\<rparr> else Inl ExpectedError)"
proof -
  note b = ts_components(1) [OF t, unfolded valid_date_def]
  let ?mo = "ts_month t + duration_all_months du" and ?se = "\<lparr>dec_value = dec_value (ts_second t) + dec_value (duration_all_seconds du)\<rparr>"
  have hm: "0 \<le> ts_hour t" "ts_hour t < 24" "0 \<le> ts_minute t" "ts_minute t < 60"
    by (simp_all add: ts_components [OF t] pos_imp_zdiv_nonneg_iff)
  have mo: "\<bar>?mo\<bar> \<le> 2 ^ 60" "in_int 64 ?mo" using k b by (auto simp: in_int_def)
  obtain y1 m1 where n: "normalize_month (ts_year t) ?mo = Some (y1, m1)" "1 \<le> m1" "m1 \<le> 13" "\<bar>y1\<bar> \<le> 2 ^ 61"
    "\<And>d. day_number y1 m1 d = day_number y m d" "days_in_month (Some y1) m1 = days_in_month (Some y) m"
    using normalize_month_code [OF ts_year_bound [OF t] mo(1)] ym by (metis code_month_def)
  have days: "dt_try_from_duration du = Inl DurationOverflowError"
    using k(1) by (auto simp: dt_try_from_duration_def ym_default_def duration_all_months_def ym_eq_iff)
  show ?thesis
  proof (cases "in_int 128 (dec_value ?se)")
    case False
    have "decimal_checked_add (ts_second t) (duration_all_seconds du) = Inl ExpectedError"
      using False by (cases "decimal_checked_add (ts_second t) (duration_all_seconds du)") (simp_all add: decimal_add.add_spec ThinError_cases)
    then have "date_time_plus_duration du (date_time_properties \<lparr>date_time_timestamp = t\<rparr>) = Inl ExpectedError"
      using mo(2) n(1) by (simp add: date_time_plus_duration_def date_time_properties_def Let_def i_checked_add_def checked_int_def)
    then show ?thesis using days False by (simp add: date_time_checked_add_duration_def)
  next
    case True
    then have se: "0 \<le> dec_value ?se" "in_int 128 (dec_value (ts_second t) + dec_value (duration_all_seconds du))" using se1 by simp_all
    let ?da = "min (ts_day t) (days_in_month (Some y1) m1)"
    have da: "1 \<le> ?da" "?da \<le> 31" using b days_in_month_bounds [of "Some y1" m1] by auto
    obtain Y M D h i s where norm: "normalize_second y1 m1 ?da (ts_hour t) (ts_minute t) ?se = Some (Y, M, D, h, i, s)" "valid_date Y M D"
      "0 \<le> h" "h < 24" "0 \<le> i" "i < 60" "0 \<le> dec_value s" "dec_value s < MINUTE"
      "(86400 * day_number Y M D + 3600 * h + 60 * i) * DECIMAL_PART_POW + dec_value s =
       (86400 * day_number y1 m1 ?da + 3600 * ts_hour t + 60 * ts_minute t) * DECIMAL_PART_POW + dec_value ?se"
      by (rule normalize_second_correct [OF n(2,3) da hm _ _ n(4), of ?se]) (use se in simp, use se in simp, rule that)
    define W where "W = (86400 * day_number Y M D + 3600 * h + 60 * (i - ts_offset t)) * DECIMAL_PART_POW"
    have wW: "w = W + dec_value s"
      using norm(9) unfolding w W_def n(5,6) by (simp add: algebra_simps)
    let ?q = "1440 * day_number Y M D + 60 * h + (i - ts_offset t)"
    have "W = MINUTE * ?q" by (simp add: W_def)
    then have "w mod MINUTE = dec_value s" using norm(7,8) wW by (intro int_mod_pos_eq [where q = ?q]) simp_all
    then have w': "w - w mod MINUTE = W" using wW by simp
    have add: "decimal_checked_add (ts_second t) (duration_all_seconds du) = Inr ?se"
      using se(2) by (simp add: decimal_add.add_spec)
    have plus: "date_time_plus_duration du (date_time_properties \<lparr>date_time_timestamp = t\<rparr>) =
        Inr \<lparr>p_year = Some Y, p_month = Some M, p_day = Some D, p_hour = Some h, p_minute = Some i, p_second = Some s,
          p_timezone_offset = ts_timezone_offset t\<rparr>"
      using mo(2) n(1) add norm(1)
      by (simp add: date_time_plus_duration_def date_time_properties_def Let_def i_checked_add_def checked_int_def)
    note line = time_on_timeline_whole [of W Y M D h i "ts_timezone_offset t" s, folded ts_offset_def, OF W_def, folded wW]
    show ?thesis
      unfolding w' using days plus se(2)
      by (auto simp: date_time_checked_add_duration_def ts_from_seven_property_model_def line)
  qed
qed

theorem date_time_add_duration_witness:
  "date_time_checked_add_duration \<lparr>date_time_timestamp = \<lparr>ts_value = \<lparr>dec_value = 63108547200000000000000000000\<rparr>, ts_timezone_offset = None\<rparr>\<rparr>
     \<lparr>year_month = \<lparr>ym_months = 1\<rparr>, day_time = \<lparr>dt_seconds = \<lparr>dec_value = 3600000000000000000000\<rparr>\<rparr>\<rparr> =
   Inr \<lparr>date_time_timestamp = \<lparr>ts_value = \<lparr>dec_value = 63111142800000000000000000000\<rparr>, ts_timezone_offset = None\<rparr>\<rparr>"
proof -
  let ?t = "\<lparr>ts_value = \<lparr>dec_value = 63108547200000000000000000000\<rparr>, ts_timezone_offset = None\<rparr>"
  let ?du = "\<lparr>year_month = \<lparr>ym_months = 1\<rparr>, day_time = \<lparr>dt_seconds = \<lparr>dec_value = 3600000000000000000000\<rparr>\<rparr>\<rparr>"
  have wf: "ts_wf ?t" by (simp add: ts_wf_def dec_wf_def in_int_def decimal_from_def)
  have comps: "ts_year ?t = 2000" "ts_month ?t = 10" "ts_day ?t = 31" "ts_hour ?t = 0" "ts_minute ?t = 0" "ts_second ?t = \<lparr>dec_value = 0\<rparr>"
    by code_simp+
  have "day_number 2000 11 30 = 730453" "days_in_month (Some 2000) 11 = 30" by code_simp+
  then show ?thesis
    using date_time_add_duration [OF wf, of ?du 2000 11 "63111142800 * DECIMAL_PART_POW"]
    by (simp add: comps decimal_from_def in_int_def shift_month_def duration_all_months_def duration_all_seconds_def ts_offset_def tz_UTC_def)
qed

section \<open>Bytes and order\<close>

lemma tz_bytes_255:
  assumes "tz_wf z"
  shows "tz_to_be_bytes z = [255, 255] \<longleftrightarrow> tz_offset z = - 1"
proof
  assume "tz_to_be_bytes z = [255, 255]"
  then have "from_be_bytes (to_be_bytes 2 (tz_offset z)) = from_be_bytes [255, 255]" by (simp add: tz_to_be_bytes_def)
  moreover have "in_int 16 (tz_offset z)" using assms by (simp add: tz_wf_def in_int_def)
  then have "from_be_bytes (to_be_bytes 2 (tz_offset z)) = tz_offset z" by (intro from_to_be_bytes) simp_all
  moreover have "from_be_bytes [255, 255] = - 1" by code_simp
  ultimately show "tz_offset z = - 1" by simp
next
  assume "tz_offset z = - 1"
  moreover have "to_be_bytes 2 (- 1) = [255, 255]" by code_simp
  ultimately show "tz_to_be_bytes z = [255, 255]" by (simp add: tz_to_be_bytes_def)
qed

text \<open>Decoding the bytes of a timestamp gives the timestamp back, except for the time zone
  \<open>-00:01\<close>: its bytes are the mark for a missing time zone, which is what the decoder returns.\<close>

theorem timestamp_bytes:
  assumes "ts_wf t"
  shows "ts_from_be_bytes (ts_to_be_bytes t) =
    (if ts_timezone_offset t = Some \<lparr>tz_offset = - 1\<rparr> then t\<lparr>ts_timezone_offset := None\<rparr> else t)"
proof (cases "ts_timezone_offset t")
  case None
  then show ?thesis
    using assms dec_bytes [of "ts_value t"] by (cases t) (simp add: ts_from_be_bytes_def ts_to_be_bytes_def ts_wf_def decimal_to_be_bytes_def)
next
  case (Some z)
  then have z: "tz_wf z" using assms by (simp add: ts_wf_def)
  have "in_int 16 (tz_offset z)" using z by (simp add: tz_wf_def in_int_def)
  then have tzb: "tz_from_be_bytes (tz_to_be_bytes z) = z"
    by (cases z) (simp add: tz_from_be_bytes_def tz_to_be_bytes_def from_to_be_bytes)
  have len: "length (tz_to_be_bytes z) = 2" by (simp add: tz_to_be_bytes_def)
  have "z = \<lparr>tz_offset = - 1\<rparr> \<longleftrightarrow> tz_offset z = - 1" by (cases z) simp
  then show ?thesis
    using assms dec_bytes [of "ts_value t"] Some tzb len tz_bytes_255 [OF z]
    by (cases t) (auto simp: ts_from_be_bytes_def ts_to_be_bytes_def ts_wf_def decimal_to_be_bytes_def)
qed

theorem timestamp_bytes_witness:
  "ts_from_be_bytes (ts_to_be_bytes \<lparr>ts_value = decimal_from 7, ts_timezone_offset = Some \<lparr>tz_offset = - 1\<rparr>\<rparr>) =
     \<lparr>ts_value = decimal_from 7, ts_timezone_offset = None\<rparr>"
  using timestamp_bytes [of "\<lparr>ts_value = decimal_from 7, ts_timezone_offset = Some \<lparr>tz_offset = - 1\<rparr>\<rparr>"]
  by (simp add: ts_wf_def tz_wf_def dec_wf_def in_int_def decimal_from_def)

text \<open>The instant of a timestamp when a missing time zone is read as \<open>z\<close> minutes.\<close>

definition instant :: "int \<Rightarrow> Timestamp \<Rightarrow> int" where
  "instant z t = dec_value (ts_value t) - (if ts_timezone_offset t = None then z * MINUTE else 0)"

text \<open>C25: The order of two timestamps is the order that holds whatever time zone between \<open>-14:00\<close> and \<open>+14:00\<close> is assumed where none
  is given, and undefined when it depends on that zone. When exactly one of them has a zone, both values have to be within
  \<open>2^126\<close> units: nearer to the ends of the range the shift by fourteen hours overflows and the comparison is undefined.\<close>

theorem timestamp_order:
  assumes "(ts_timezone_offset a = None) \<noteq> (ts_timezone_offset b = None) \<Longrightarrow>
    \<bar>dec_value (ts_value a)\<bar> \<le> 2 ^ 126 \<and> \<bar>dec_value (ts_value b)\<bar> \<le> 2 ^ 126"
  shows "ts_partial_cmp a b = Some ord \<longleftrightarrow> (\<forall>z. - 840 \<le> z \<and> z \<le> 840 \<longrightarrow> int_cmp (instant z a) (instant z b) = ord)"
proof -
  let ?a = "dec_value (ts_value a)" and ?b = "dec_value (ts_value b)"
  have add: "decimal_checked_add x fourteen_hours = Inr \<lparr>dec_value = dec_value x + 840 * MINUTE\<rparr>"
    "decimal_checked_sub x fourteen_hours = Inr \<lparr>dec_value = dec_value x - 840 * MINUTE\<rparr>" if "\<bar>dec_value x\<bar> \<le> 2 ^ 126" for x
    using that by (auto simp: decimal_add.add_spec decimal_add.sub_spec fourteen_hours_def decimal_from_def in_int_def)
  have zero: "(\<forall>z. - 840 \<le> z \<and> z \<le> 840 \<longrightarrow> int_cmp (x - z * MINUTE) (y - z * MINUTE) = ord) \<longleftrightarrow> int_cmp x y = ord" for x y
    by (auto simp: int_cmp_def dest: spec [of _ 0])
  have both: "(\<forall>z. - 840 \<le> z \<and> z \<le> 840 \<longrightarrow> int_cmp x (y - z * MINUTE) = ord) \<longleftrightarrow>
      int_cmp x (y + 840 * MINUTE) = ord \<and> int_cmp x (y - 840 * MINUTE) = ord" for x y
  proof safe
    fix z :: int
    assume "int_cmp x (y - 840 * MINUTE) = int_cmp x (y + 840 * MINUTE)" "ord = int_cmp x (y + 840 * MINUTE)" "- 840 \<le> z" "z \<le> 840"
    then show "int_cmp x (y - z * MINUTE) = int_cmp x (y + 840 * MINUTE)" by (auto simp: int_cmp_def split: if_splits)
  qed (auto dest: spec [of _ 840] spec [of _ "- 840"])
  have flip: "(\<forall>z. - 840 \<le> z \<and> z \<le> 840 \<longrightarrow> int_cmp (x - z * MINUTE) y = ord) \<longleftrightarrow>
      int_cmp (x + 840 * MINUTE) y = ord \<and> int_cmp (x - 840 * MINUTE) y = ord" for x y
  proof safe
    fix z :: int
    assume "int_cmp (x - 840 * MINUTE) y = int_cmp (x + 840 * MINUTE) y" "ord = int_cmp (x + 840 * MINUTE) y" "- 840 \<le> z" "z \<le> 840"
    then show "int_cmp (x - z * MINUTE) y = int_cmp (x + 840 * MINUTE) y" by (auto simp: int_cmp_def split: if_splits)
  qed (auto dest: spec [of _ 840] spec [of _ "- 840"])
  show ?thesis
    by (cases "ts_timezone_offset a"; cases "ts_timezone_offset b")
      (use assms in \<open>auto simp: ts_partial_cmp_def instant_def zero both flip add decimal_partial_cmp_def simp del: decimal_consts\<close>)
qed

theorem timestamp_order_witness:
  "ts_partial_cmp \<lparr>ts_value = decimal_from 0, ts_timezone_offset = None\<rparr> \<lparr>ts_value = decimal_from 50401, ts_timezone_offset = Some tz_UTC\<rparr> = Some Less"
  by (subst timestamp_order) (simp_all add: decimal_from_def instant_def int_cmp_def)

end
