(* ===== verification/Xsd_Duration_Text.thy ===== *)
theory Xsd_Duration_Text
  imports Xsd_Duration
begin

text \<open>
  The lexical form of the durations (\<open>FromStr\<close> and \<open>Display\<close> in
  \<open>lib/common/src/xsd/duration.rs\<close>): the state machine \<open>duration_parts\<close> over the fragments
  year, month, day, hour, minute and second, the printers, and the round trip between them.
\<close>

section \<open>Parsing\<close>

datatype ParseDurationError = ParseDurationError string

definition OVERFLOW_ERROR :: ParseDurationError where
  "OVERFLOW_ERROR = ParseDurationError ''Overflow error''"

record DurationParts =
  parts_year_month :: "int option"
  parts_day_time :: "Decimal option"

abbreviation (input) START :: nat where "START \<equiv> 0"
abbreviation (input) AFTER_YEAR :: nat where "AFTER_YEAR \<equiv> 1"
abbreviation (input) AFTER_MONTH :: nat where "AFTER_MONTH \<equiv> 2"
abbreviation (input) AFTER_DAY :: nat where "AFTER_DAY \<equiv> 3"
abbreviation (input) AFTER_T :: nat where "AFTER_T \<equiv> 4"
abbreviation (input) AFTER_HOUR :: nat where "AFTER_HOUR \<equiv> 5"
abbreviation (input) AFTER_MINUTE :: nat where "AFTER_MINUTE \<equiv> 6"
abbreviation (input) AFTER_SECOND :: nat where "AFTER_SECOND \<equiv> 7"

definition apply_i64_neg :: "int \<Rightarrow> bool \<Rightarrow> (ParseDurationError, int) result" where
  "apply_i64_neg value is_negative =
     (if is_negative then ok_or (i_checked_neg 64 value) OVERFLOW_ERROR else Inr value)"

definition apply_decimal_neg :: "Decimal \<Rightarrow> bool \<Rightarrow> (ParseDurationError, Decimal) result" where
  "apply_decimal_neg value is_negative =
     (if is_negative then map_err (\<lambda>_. OVERFLOW_ERROR) (decimal_checked_neg value) else Inr value)"

definition add_months ::
  "bool \<Rightarrow> string \<Rightarrow> int option \<Rightarrow> int option \<Rightarrow> (ParseDurationError, int option) result" where
  "add_months is_negative number_str factor ym =
     and_then (ok_or (i_from_str 64 number_str) OVERFLOW_ERROR) (\<lambda>n.
     and_then (apply_i64_neg n is_negative) (\<lambda>n.
     and_then (case factor of Some f \<Rightarrow> ok_or (i_checked_mul 64 n f) OVERFLOW_ERROR | None \<Rightarrow> Inr n) (\<lambda>n.
     map_ok Some (ok_or (i_checked_add 64 (unwrap_or ym 0) n) OVERFLOW_ERROR))))"

definition add_seconds ::
  "bool \<Rightarrow> string \<Rightarrow> int option \<Rightarrow> Decimal option \<Rightarrow> (ParseDurationError, Decimal option) result" where
  "add_seconds is_negative number_str factor dt =
     and_then (map_err (\<lambda>_. OVERFLOW_ERROR) (decimal_from_str number_str)) (\<lambda>n.
     and_then (apply_decimal_neg n is_negative) (\<lambda>n.
     and_then (case factor of
         Some f \<Rightarrow> map_err (\<lambda>_. OVERFLOW_ERROR) (decimal_checked_mul n (decimal_from f))
       | None \<Rightarrow> Inr n) (\<lambda>n.
     map_ok Some (map_err (\<lambda>_. OVERFLOW_ERROR) (decimal_checked_add (unwrap_or dt decimal_default) n)))))"

text \<open>One turn of the loop for a number and the type character after it.\<close>

definition duration_frag ::
  "bool \<Rightarrow> string \<Rightarrow> char \<Rightarrow> nat \<times> int option \<times> Decimal option \<Rightarrow>
   (ParseDurationError, nat \<times> int option \<times> Decimal option) result" where
  "duration_frag is_negative number_str c st =
     (let (state, ym, dt) = st in
      if c = CHR ''Y'' \<and> state < AFTER_YEAR then
        map_ok (\<lambda>ym. (AFTER_YEAR, ym, dt)) (add_months is_negative number_str (Some 12) ym)
      else if c = CHR ''M'' \<and> state < AFTER_MONTH then
        map_ok (\<lambda>ym. (AFTER_MONTH, ym, dt)) (add_months is_negative number_str None ym)
      else if c = CHR ''D'' \<and> state < AFTER_DAY then
        if CHR ''.'' \<in> set number_str then Inl (ParseDurationError ''Decimal numbers are not allowed for days'')
        else map_ok (\<lambda>dt. (AFTER_DAY, ym, dt)) (add_seconds is_negative number_str (Some 86400) dt)
      else if c = CHR ''H'' \<and> state = AFTER_T then
        if CHR ''.'' \<in> set number_str then Inl (ParseDurationError ''Decimal numbers are not allowed for hours'')
        else map_ok (\<lambda>dt. (AFTER_HOUR, ym, dt)) (add_seconds is_negative number_str (Some 3600) dt)
      else if c = CHR ''M'' \<and> AFTER_T \<le> state \<and> state < AFTER_MINUTE then
        if CHR ''.'' \<in> set number_str then Inl (ParseDurationError ''Decimal numbers are not allowed for minutes'')
        else map_ok (\<lambda>dt. (AFTER_MINUTE, ym, dt)) (add_seconds is_negative number_str (Some 60) dt)
      else if c = CHR ''S'' \<and> AFTER_T \<le> state \<and> state < AFTER_SECOND then
        map_ok (\<lambda>dt. (AFTER_SECOND, ym, dt)) (add_seconds is_negative number_str None dt)
      else Inl (ParseDurationError ''Unexpected type character''))"

lemma decimal_prefix_length: "length (snd (decimal_prefix_from seen s)) \<le> length s"
  by (induction seen s rule: decimal_prefix_from.induct) auto

function duration_loop ::
  "bool \<Rightarrow> nat \<times> int option \<times> Decimal option \<Rightarrow> string \<Rightarrow> (ParseDurationError, DurationParts \<times> string) result" where
  "duration_loop is_negative st input =
     (if input = [] then Inr (\<lparr>parts_year_month = fst (snd st), parts_day_time = snd (snd st)\<rparr>, input)
      else case strip_prefix (CHR ''T'') input of
        Some left \<Rightarrow>
          if fst st \<ge> AFTER_T then Inl (ParseDurationError (''Duplicated time separator 'T'' @ [CHR 0x27]))
          else duration_loop is_negative (AFTER_T, snd st) left
      | None \<Rightarrow>
          (case decimal_prefix input of (number_str, left) \<Rightarrow>
            (case left of
               [] \<Rightarrow> Inl (ParseDurationError ''Numbers in durations must be followed by a type character'')
             | c # rest \<Rightarrow>
                 and_then (duration_frag is_negative number_str c st) (\<lambda>st. duration_loop is_negative st rest))))"
  by pat_completeness auto
termination
proof (relation "measure (\<lambda>(neg, st, input). length input)")
  fix neg st input left
  assume "strip_prefix (CHR ''T'') input = Some left"
  then show "((neg, (AFTER_T, snd st), left), neg, st, input) \<in> measure (\<lambda>(neg, st, input). length input)"
    by (cases input) (auto split: if_splits)
next
  fix neg st input number_str left c rest st'
  assume "(number_str, left) = decimal_prefix input" "left = c # rest"
  then have "c # rest = snd (decimal_prefix_from False input)" by (simp add: decimal_prefix_def prod_eq_iff)
  then have "Suc (length rest) \<le> length input" using decimal_prefix_length [of False input] by (metis length_Cons)
  then show "((neg, st', rest), neg, st, input) \<in> measure (\<lambda>(neg, st, input). length input)" by simp
qed simp

declare duration_loop.simps [simp del]

definition duration_expect_char :: "string \<Rightarrow> char \<Rightarrow> string \<Rightarrow> (ParseDurationError, string) result" where
  "duration_expect_char input constant error_message =
     ok_or (strip_prefix constant input) (ParseDurationError error_message)"

definition duration_parts :: "string \<Rightarrow> (ParseDurationError, DurationParts \<times> string) result" where
  "duration_parts input =
     (let (is_negative, input) =
        (case strip_prefix (CHR ''-'') input of Some left \<Rightarrow> (True, left) | None \<Rightarrow> (False, input))
      in and_then (duration_expect_char input (CHR ''P'') (''Durations must start with 'P'' @ [CHR 0x27]))
           (duration_loop is_negative (START, None, None)))"

definition duration_ensure_complete ::
  "string \<Rightarrow> (string \<Rightarrow> (ParseDurationError, 'a \<times> string) result) \<Rightarrow> (ParseDurationError, 'a) result" where
  "duration_ensure_complete input parse =
     and_then (parse input) (\<lambda>(r, left).
       if left \<noteq> [] then Inl (ParseDurationError ''Unrecognized value suffix'') else Inr r)"

definition duration_from_str :: "string \<Rightarrow> (ParseDurationError, Duration) result" where
  "duration_from_str input =
     and_then (duration_ensure_complete input duration_parts) (\<lambda>parts.
       if parts_year_month parts = None \<and> parts_day_time parts = None
       then Inl (ParseDurationError ''Empty duration'')
       else map_err (\<lambda>_. ParseDurationError ''The xsd:yearMonthDuration and xsd:dayTimeDuration components of a xsd:duration can't have opposite sign'')
         (duration_new (unwrap_or (parts_year_month parts) 0) (unwrap_or (parts_day_time parts) decimal_default)))"

definition ym_from_str :: "string \<Rightarrow> (ParseDurationError, YearMonthDuration) result" where
  "ym_from_str input =
     and_then (duration_ensure_complete input duration_parts) (\<lambda>parts.
       if parts_day_time parts \<noteq> None
       then Inl (ParseDurationError ''There must not be any day or time component in a yearMonthDuration'')
       else map_ok ym_new (ok_or (parts_year_month parts) (ParseDurationError ''No year and month values found'')))"

definition dt_from_str :: "string \<Rightarrow> (ParseDurationError, DayTimeDuration) result" where
  "dt_from_str input =
     and_then (duration_ensure_complete input duration_parts) (\<lambda>parts.
       if parts_year_month parts \<noteq> None
       then Inl (ParseDurationError ''There must not be any year or month component in a dayTimeDuration'')
       else map_ok dt_new (ok_or (parts_day_time parts) (ParseDurationError ''No day or time values found'')))"

section \<open>Printing\<close>

text \<open>\<^term>\<open>None\<close> is \<open>fmt::Error\<close> or a panic of the decimal printer.\<close>

definition show_abs :: "int \<Rightarrow> string" where
  "show_abs n = show_nat (nat \<bar>n\<bar>)"

definition duration_seconds_rest :: "Decimal \<Rightarrow> (int \<times> int \<times> int \<times> Decimal) option" where
  "duration_seconds_rest ss =
     (let s_int = decimal_as_i128 ss;
          d = s_int sdiv 86400;
          h = (s_int smod 86400) sdiv 3600;
          m = (s_int smod 3600) sdiv 60
      in Option.bind (ok (decimal_try_from_i128 (d * 86400 + h * 3600 + m * 60))) (\<lambda>whole.
         Option.bind (ok (decimal_checked_sub ss whole)) (\<lambda>s. Some (d, h, m, s))))"

definition year_month_text :: "int \<Rightarrow> Decimal \<Rightarrow> string" where
  "year_month_text ym ss =
     (let y = ym sdiv 12; m = ym smod 12
      in if y \<noteq> 0 then (if m = 0 then show_abs y @ ''Y'' else show_abs y @ ''Y'' @ show_abs m @ ''M'')
         else if m \<noteq> 0 \<or> ss = decimal_from 0 then show_abs m @ ''M'' else [])"

definition time_text :: "int \<Rightarrow> int \<Rightarrow> Decimal \<Rightarrow> string option" where
  "time_text h m s =
     (if h \<noteq> 0 \<or> m \<noteq> 0 \<or> s \<noteq> decimal_from 0 then
        map_option (\<lambda>sec. ''T'' @ (if h \<noteq> 0 then show_abs h @ ''H'' else []) @
            (if m \<noteq> 0 then show_abs m @ ''M'' else []) @ sec)
          (if s \<noteq> decimal_from 0
           then Option.bind (ok (decimal_checked_abs s)) (\<lambda>a. map_option (\<lambda>t. t @ ''S'') (decimal_to_string a))
           else Some [])
      else Some [])"

definition duration_fmt :: "Duration \<Rightarrow> string option" where
  "duration_fmt self =
     (let ym = ym_months (year_month self); ss = dt_seconds (day_time self);
          neg = ym < 0 \<or> dec_value ss < 0
      in if (ym < 0 \<and> dec_value ss > 0) \<or> (ym > 0 \<and> dec_value ss < 0) then None
         else map_option (\<lambda>t. (if neg then ''-'' else []) @ ''P'' @ t)
           (if ym = 0 \<and> ss = decimal_from 0 then Some ''T0S''
            else Option.bind (duration_seconds_rest ss) (\<lambda>(d, h, m, s).
              map_option (\<lambda>t. year_month_text ym ss @ (if d \<noteq> 0 then show_abs d @ ''D'' else []) @ t)
                (time_text h m s))))"

definition ym_fmt :: "YearMonthDuration \<Rightarrow> string option" where
  "ym_fmt self = (if ym_months self = 0 then Some ''P0M'' else duration_fmt (duration_from_ym self))"

definition dt_fmt :: "DayTimeDuration \<Rightarrow> string option" where
  "dt_fmt self = duration_fmt (duration_from_dt self)"

section \<open>Numbers and fragments\<close>

lemma decimal_prefix_digits:
  assumes "\<forall>d \<in> set ds. d < 10"
  shows "decimal_prefix_from seen (map digit_char ds @ s) = apfst ((@) (map digit_char ds)) (decimal_prefix_from seen s)"
  using assms by (induction ds) (auto simp: digit_char_props apfst_def map_prod_def split: prod.splits)

lemma decimal_prefix_number:
  assumes "\<forall>d \<in> set (I @ F). d < 10" "\<not> is_ascii_digit c" "c \<noteq> CHR ''.''"
  shows "decimal_prefix ((map digit_char I @ (if F = [] then [] else ''.'' @ map digit_char F)) @ c # rest) =
    (map digit_char I @ (if F = [] then [] else ''.'' @ map digit_char F), c # rest)"
  using assms by (auto simp: decimal_prefix_def decimal_prefix_digits)

lemma decimal_prefix_nat:
  "\<not> is_ascii_digit c \<Longrightarrow> c \<noteq> CHR ''.'' \<Longrightarrow> decimal_prefix (show_nat n @ c # rest) = (show_nat n, c # rest)"
  using decimal_prefix_number [of "nat_digits n" "[]" c rest] nat_digits_bound by (auto simp: show_nat_def)

lemma digits_start:
  assumes "I \<noteq> []" "\<forall>d \<in> set I. d < 10"
  obtains d ds where "map digit_char I = digit_char d # ds" "d < 10"
  using assms by (cases I) auto

lemma show_nat_start: obtains d ds where "show_nat n = digit_char d # ds" "d < 10"
  using digits_start [OF nat_digits_nonempty, of n] nat_digits_bound unfolding show_nat_def by blast

lemma show_nat_no_dot: "CHR ''.'' \<notin> set (show_nat n)"
proof
  assume "CHR ''.'' \<in> set (show_nat n)"
  then obtain d where "d \<in> set (nat_digits n)" "digit_char d = CHR ''.''" by (auto simp: show_nat_def)
  then show False using nat_digits_bound digit_char_neq(1) by metis
qed

lemma decimal_from_str_nat:
  assumes "in_int 128 (int n * 10 ^ 18)"
  shows "decimal_from_str (show_nat n) = Inr (decimal_from (int n))"
  using decimal_from_str_canonical [of "nat_digits n" "[]" 1 "int n * 10 ^ 18"] assms nat_digits_bound nat_digits_nonempty
  by (simp add: show_nat_def digits_val_nat_digits decimal_from_def)

lemma trailing_zeros_whole: "n \<noteq> 0 \<Longrightarrow> 18 \<le> trailing_zeros (decimal_from n)"
proof (rule ccontr)
  assume n: "n \<noteq> 0" and few: "\<not> 18 \<le> trailing_zeros (decimal_from n)"
  obtain r t where rt: "strip_zeros (n * 10 ^ 18) 0 = (r, t)" by fastforce
  then have r: "n * 10 ^ 18 = r * 10 ^ t" "\<not> 10 dvd r" using strip_zeros_spec [OF rt] n by auto
  have t: "t < 18" using few rt by (simp add: trailing_zeros_def decimal_from_def)
  then have "(10 :: int) ^ 18 = 10 * 10 ^ (17 - t) * 10 ^ t"
    by (simp only: power_add [symmetric] power_Suc [symmetric]) simp
  then have "n * (10 * 10 ^ (17 - t)) * 10 ^ t = r * 10 ^ t" using r(1) by (simp only: mult.assoc)
  then have "n * (10 * 10 ^ (17 - t)) = r" by simp
  then have "r = 10 * (n * 10 ^ (17 - t))" by (simp only: ac_simps)
  with r(2) show False by (metis dvd_triv_left)
qed

lemma decimal_mul_whole:
  assumes "in_int 128 (n * k * 10 ^ 18)" "0 < k" "n \<noteq> 0"
  shows "decimal_checked_mul (decimal_from n) (decimal_from k) = Inr (decimal_from (n * k))"
  using assms trailing_zeros_whole [OF assms(3)] by (intro decimal_checked_mul_complete) (auto simp: decimal_from_def)

lemma decimal_neg_sign:
  assumes "in_int 128 (dec_value x)" "in_int 128 (- dec_value x)"
  shows "apply_decimal_neg x neg = Inr \<lparr>dec_value = (if neg then - dec_value x else dec_value x)\<rparr>"
  using assms by (cases x) (auto simp: apply_decimal_neg_def decimal_checked_neg_def i_checked_neg_def checked_int_def)

text \<open>The signed contribution of a fragment to the months and to the seconds.\<close>

definition signed :: "bool \<Rightarrow> int \<Rightarrow> int" where
  "signed neg x = (if neg then - x else x)"

lemma add_months_ok:
  assumes "in_int 64 (int n)" "in_int 64 (- int n)" "in_int 64 (signed neg (int n) * f)" "factor = Some f \<or> factor = None \<and> f = 1"
    and "in_int 64 (unwrap_or ym 0 + signed neg (int n) * f)"
  shows "add_months neg (show_nat n) factor ym = Inr (Some (unwrap_or ym 0 + signed neg (int n) * f))"
proof -
  have "apply_i64_neg (int n) neg = Inr (signed neg (int n))"
    using assms(2) by (simp add: apply_i64_neg_def signed_def i_checked_neg_def checked_int_def)
  then show ?thesis
    using assms by (auto simp: add_months_def i_from_str_show_nat i_checked_mul_def i_checked_add_def checked_int_def)
qed

lemma add_seconds_ok:
  assumes "decimal_from_str s = Inr x" "in_int 128 (dec_value x)" "in_int 128 (- dec_value x)"
    and "factor = None \<and> f = 1 \<or> factor = Some f \<and> 0 < f \<and> x = decimal_from n \<and> n \<noteq> 0 \<and>
      in_int 128 (signed neg (dec_value x) * f)"
    and "in_int 128 (dec_value (unwrap_or dt decimal_default) + signed neg (dec_value x) * f)"
  shows "add_seconds neg s factor dt =
    Inr (Some \<lparr>dec_value = dec_value (unwrap_or dt decimal_default) + signed neg (dec_value x) * f\<rparr>)"
proof -
  let ?x = "\<lparr>dec_value = signed neg (dec_value x)\<rparr>"
  have neg: "apply_decimal_neg x neg = Inr ?x" using decimal_neg_sign [OF assms(2,3)] by (simp add: signed_def)
  have mul: "decimal_checked_mul ?x (decimal_from f) = Inr \<lparr>dec_value = signed neg (dec_value x) * f\<rparr>" if "factor = Some f"
  proof -
    have n: "0 < f" "x = decimal_from n" "n \<noteq> 0" "in_int 128 (signed neg (dec_value x) * f)" using assms(4) that by auto
    have "?x = decimal_from (signed neg n)" by (simp add: n(2) decimal_from_def signed_def)
    moreover have "signed neg (dec_value x) * f = signed neg n * f * 10 ^ 18" by (simp add: n(2) decimal_from_def signed_def)
    moreover have "signed neg n \<noteq> 0" using n(3) by (simp add: signed_def)
    ultimately show ?thesis
      using decimal_mul_whole [of "signed neg n" f] n(1,4) by (simp add: decimal_from_def ac_simps)
  qed
  show ?thesis
    using assms(1,4,5) neg mul
    by (auto simp: add_seconds_def decimal_checked_add_def i_checked_add_def checked_int_def)
qed

text \<open>A fragment that is left out contributes nothing.\<close>

definition opt_frag :: "nat \<Rightarrow> char \<Rightarrow> string" where
  "opt_frag n c = (if n = 0 then [] else show_nat n @ [c])"

lemma duration_loop_frag:
  assumes "decimal_prefix (d # input) = (num, c # rest)" "is_ascii_digit d"
  shows "duration_loop neg st (d # input) = and_then (duration_frag neg num c st) (\<lambda>st. duration_loop neg st rest)"
  using assms by (subst duration_loop.simps) (auto simp: is_ascii_digit_def)

lemma duration_loop_nat:
  assumes "\<not> is_ascii_digit c" "c \<noteq> CHR ''.''"
  shows "duration_loop neg st (show_nat n @ c # rest) =
    and_then (duration_frag neg (show_nat n) c st) (\<lambda>st. duration_loop neg st rest)"
proof -
  obtain d ds where "show_nat n = digit_char d # ds" "d < 10" by (rule show_nat_start)
  then show ?thesis
    using duration_loop_frag [of "digit_char d" "ds @ c # rest"] decimal_prefix_nat [OF assms, of n rest]
    by (simp add: digit_char_props)
qed

definition add_opt :: "int option \<Rightarrow> int \<Rightarrow> int option" where
  "add_opt a x = (if x = 0 then a else Some (unwrap_or a 0 + x))"

definition add_opt_dec :: "Decimal option \<Rightarrow> int \<Rightarrow> Decimal option" where
  "add_opt_dec a x = (if x = 0 then a else Some \<lparr>dec_value = dec_value (unwrap_or a decimal_default) + x\<rparr>)"

lemma unwrap_add_opt [simp]: "unwrap_or (add_opt a x) 0 = unwrap_or a 0 + x"
  by (simp add: add_opt_def unwrap_or_def split: option.splits)

lemma unwrap_add_opt_dec [simp]:
  "dec_value (unwrap_or (add_opt_dec a x) decimal_default) = dec_value (unwrap_or a decimal_default) + x"
  by (simp add: add_opt_dec_def unwrap_or_def split: option.splits)

lemma signed_in_int:
  assumes "in_int w (signed neg t)" "0 \<le> p" "p \<le> t"
  shows "in_int w (signed neg p)"
  using assms by (auto simp: signed_def in_int_def)

lemma in_int_below: "in_int w t \<Longrightarrow> 0 \<le> p \<Longrightarrow> p \<le> t \<Longrightarrow> in_int w p \<and> in_int w (- p)"
  by (auto simp: in_int_def)

lemma signed_simps: "signed neg a + signed neg b = signed neg (a + b)" "signed neg a * k = signed neg (a * k)" "signed neg 0 = 0"
  by (simp_all add: signed_def)

lemma loop_months:
  assumes c: "c = CHR ''Y'' \<and> st < AFTER_YEAR \<and> f = 12 \<and> st' = AFTER_YEAR \<or> c = CHR ''M'' \<and> st < AFTER_MONTH \<and> f = 1 \<and> st' = AFTER_MONTH"
    and fit: "in_int 64 (int n * f)" "in_int 64 (unwrap_or ym 0 + signed neg (int n * f))"
  shows "duration_loop neg (st, ym, dt) (opt_frag n c @ rest) =
    duration_loop neg (if n = 0 then st else st', add_opt ym (signed neg (int n * f)), dt) rest"
proof (cases "n = 0")
  case False
  have f: "1 \<le> f" using c by auto
  then have "int n * 1 \<le> int n * f" by (intro mult_left_mono) auto
  then have bounds: "in_int 64 (int n)" "in_int 64 (- int n)" "in_int 64 (signed neg (int n) * f)"
    using in_int_below [OF fit(1), of "int n"] in_int_below [OF fit(1), of "int n * f"] f by (auto simp: signed_def)
  have add: "add_months neg (show_nat n) factor ym = Inr (Some (unwrap_or ym 0 + signed neg (int n * f)))"
    if "factor = Some f \<or> factor = None \<and> f = 1" for factor
    using add_months_ok [OF bounds that] fit(2) by (simp add: signed_simps)
  have "duration_frag neg (show_nat n) c (st, ym, dt) = Inr (st', Some (unwrap_or ym 0 + signed neg (int n * f)), dt)"
    using c
  proof (elim disjE conjE)
    assume "c = CHR ''Y''" "st < AFTER_YEAR" "f = 12" "st' = AFTER_YEAR"
    with add [of "Some f"] show ?thesis by (simp add: duration_frag_def)
  next
    assume "c = CHR ''M''" "st < AFTER_MONTH" "f = 1" "st' = AFTER_MONTH"
    with add [of None] show ?thesis by (simp add: duration_frag_def)
  qed
  moreover have "\<not> is_ascii_digit c" "c \<noteq> CHR ''.''" using c by auto
  ultimately show ?thesis
    using False f duration_loop_nat [of c neg "(st, ym, dt)" n rest] by (simp add: opt_frag_def add_opt_def signed_def)
qed (simp add: opt_frag_def add_opt_def signed_simps)

lemma loop_seconds:
  assumes c: "c = CHR ''D'' \<and> st < AFTER_DAY \<and> f = 86400 \<and> st' = AFTER_DAY \<or>
      c = CHR ''H'' \<and> st = AFTER_T \<and> f = 3600 \<and> st' = AFTER_HOUR \<or>
      c = CHR ''M'' \<and> AFTER_T \<le> st \<and> st < AFTER_MINUTE \<and> f = 60 \<and> st' = AFTER_MINUTE"
    and fit: "in_int 128 (int n * f * 10 ^ 18)"
      "in_int 128 (dec_value (unwrap_or dt decimal_default) + signed neg (int n * f * 10 ^ 18))"
  shows "duration_loop neg (st, ym, dt) (opt_frag n c @ rest) =
    duration_loop neg (if n = 0 then st else st', ym, add_opt_dec dt (signed neg (int n * f * 10 ^ 18))) rest"
proof (cases "n = 0")
  case False
  have f: "1 \<le> f" using c by auto
  then have "int n * 1 \<le> int n * f" by (intro mult_left_mono) auto
  then have bounds: "in_int 128 (int n * 10 ^ 18)" "in_int 128 (- (int n * 10 ^ 18))"
    "in_int 128 (signed neg (int n * 10 ^ 18) * f)"
    using in_int_below [OF fit(1), of "int n * 10 ^ 18"] in_int_below [OF fit(1), of "int n * f * 10 ^ 18"] f
    by (auto simp: signed_def ac_simps)
  have eq: "signed neg (int n * 1000000000000000000) * f = signed neg (int n * f * 1000000000000000000)"
    by (simp add: signed_def)
  have add: "add_seconds neg (show_nat n) (Some f) dt =
      Inr (Some \<lparr>dec_value = dec_value (unwrap_or dt decimal_default) + signed neg (int n * f * 10 ^ 18)\<rparr>)"
    using add_seconds_ok [OF decimal_from_str_nat [OF bounds(1)], of "Some f" f "int n" neg dt] bounds f fit(2) False
    by (simp add: decimal_from_def eq)
  have "duration_frag neg (show_nat n) c (st, ym, dt) =
      Inr (st', ym, Some \<lparr>dec_value = dec_value (unwrap_or dt decimal_default) + signed neg (int n * f * 10 ^ 18)\<rparr>)"
    using c add show_nat_no_dot [of n] by (elim disjE conjE) (simp_all add: duration_frag_def)
  moreover have "\<not> is_ascii_digit c" "c \<noteq> CHR ''.''" using c by auto
  ultimately show ?thesis
    using False f duration_loop_nat [of c neg "(st, ym, dt)" n rest] by (simp add: opt_frag_def add_opt_dec_def signed_def)
qed (simp add: opt_frag_def add_opt_dec_def signed_simps)

lemma loop_second:
  assumes "dec_wf s" "0 \<le> dec_value s" "AFTER_T \<le> st" "st < AFTER_SECOND"
    and fit: "in_int 128 (dec_value (unwrap_or dt decimal_default) + signed neg (dec_value s))"
  obtains num where "decimal_to_string s = Some num"
    "duration_loop neg (st, ym, dt) (num @ ''S'') =
      Inr (\<lparr>parts_year_month = ym, parts_day_time = Some \<lparr>dec_value = dec_value (unwrap_or dt decimal_default) + signed neg (dec_value s)\<rparr>\<rparr>, [])"
proof -
  have pos: "(if dec_value s < 0 then ''-'' else []) = []" using assms(2) by simp
  obtain I F where
    out: "decimal_to_string s = Some (map digit_char I @ (if F = [] then [] else ''.'' @ map digit_char F))"
    and parse: "decimal_from_str (map digit_char I @ (if F = [] then [] else ''.'' @ map digit_char F)) = Inr s"
    and IF: "I \<noteq> []" "\<forall>d \<in> set (I @ F). d < 10"
    using decimal_text [OF assms(1), unfolded pos append_Nil] by blast
  let ?num = "map digit_char I @ (if F = [] then [] else ''.'' @ map digit_char F)"
  have bounds: "in_int 128 (dec_value s)" "in_int 128 (- dec_value s)"
    using assms(1,2) by (auto simp: dec_wf_def in_int_def)
  have frag: "duration_frag neg ?num (CHR ''S'') (st, ym, dt) =
      Inr (AFTER_SECOND, ym, Some \<lparr>dec_value = dec_value (unwrap_or dt decimal_default) + signed neg (dec_value s)\<rparr>)"
    using add_seconds_ok [OF parse bounds, of None 1 0 neg dt] assms(3,4) fit by (simp add: duration_frag_def)
  obtain i js where i: "I = i # js" "i < 10" using IF by (cases I) auto
  have prefix: "decimal_prefix (?num @ ''S'') = (?num, ''S'')" using decimal_prefix_number [OF IF(2), of "CHR ''S''" "[]"] by simp
  obtain tail where tail: "?num = digit_char i # tail" using i by simp
  have "duration_loop neg (st, ym, dt) (?num @ ''S'') =
      and_then (duration_frag neg ?num (CHR ''S'') (st, ym, dt)) (\<lambda>st. duration_loop neg st [])"
    using duration_loop_frag [of "digit_char i" "tail @ ''S''" ?num "CHR ''S''" "[]" neg "(st, ym, dt)"] prefix i(2)
    unfolding tail by (simp add: digit_char_props)
  then show ?thesis using that [OF out] by (simp add: frag duration_loop.simps [of neg _ "[]"])
qed

section \<open>The round trip\<close>

lemma signed_sdiv: "0 \<le> a \<Longrightarrow> 0 < k \<Longrightarrow> signed neg a sdiv k = signed neg (a div k)"
  by (cases "a = 0") (auto simp: signed_def sdiv_nonneg sdiv_neg)

lemma signed_smod: "0 \<le> a \<Longrightarrow> 0 < k \<Longrightarrow> signed neg a smod k = signed neg (a mod k)"
  by (cases "a = 0") (auto simp: signed_def smod_nonneg smod_neg)

lemma show_abs_signed: "0 \<le> a \<Longrightarrow> show_abs (signed neg a) = show_nat (nat a)"
  by (simp add: show_abs_def signed_def)

lemma signed_eq_0 [simp]: "signed neg a = 0 \<longleftrightarrow> a = 0"
  by (simp add: signed_def)

text \<open>Days, hours, minutes and the remaining seconds of a nonnegative number of attoseconds.\<close>

definition split_days :: "int \<Rightarrow> int" where
  "split_days V = V div DECIMAL_PART_POW div 86400"

definition split_hours :: "int \<Rightarrow> int" where
  "split_hours V = V div DECIMAL_PART_POW mod 86400 div 3600"

definition split_minutes :: "int \<Rightarrow> int" where
  "split_minutes V = V div DECIMAL_PART_POW mod 3600 div 60"

definition split_seconds :: "int \<Rightarrow> int" where
  "split_seconds V = V mod (60 * DECIMAL_PART_POW)"

lemma split_parts:
  assumes "0 \<le> V"
  shows "V = (split_days V * 86400 + split_hours V * 3600 + split_minutes V * 60) * DECIMAL_PART_POW + split_seconds V"
    and "0 \<le> split_days V" "0 \<le> split_hours V" "0 \<le> split_minutes V" "0 \<le> split_seconds V"
    and "split_seconds V < 60 * DECIMAL_PART_POW"
proof -
  define n where "n = V div DECIMAL_PART_POW"
  define w where "w = n div 86400 * 86400 + n mod 86400 div 3600 * 3600 + n mod 3600 div 60 * 60"
  have "n mod 86400 div 3600 * 3600 + n mod 3600 = n mod 86400" "n mod 3600 div 60 * 60 + n mod 60 = n mod 3600"
    using div_mult_mod_eq [of "n mod 86400" 3600] div_mult_mod_eq [of "n mod 3600" 60] by (simp_all add: mod_mod_cancel)
  with div_mult_mod_eq [of n 86400] have n: "n = w + n mod 60" unfolding w_def by linarith
  have sec: "split_seconds V = (n mod 60) * DECIMAL_PART_POW + V mod DECIMAL_PART_POW"
    unfolding split_seconds_def n_def using zmod_zmult2_eq [of 60 V DECIMAL_PART_POW] by (simp add: mult.commute)
  have "V = n * DECIMAL_PART_POW + V mod DECIMAL_PART_POW" by (simp add: n_def del: decimal_consts)
  also have "n * DECIMAL_PART_POW = w * DECIMAL_PART_POW + (n mod 60) * DECIMAL_PART_POW" using n by (metis distrib_right)
  finally have "V = w * DECIMAL_PART_POW + split_seconds V" unfolding sec by (simp only: add.assoc)
  then show "V = (split_days V * 86400 + split_hours V * 3600 + split_minutes V * 60) * DECIMAL_PART_POW + split_seconds V"
    by (simp only: w_def n_def split_days_def split_hours_def split_minutes_def)
  show "0 \<le> split_days V" "0 \<le> split_hours V" "0 \<le> split_minutes V" "0 \<le> split_seconds V"
    "split_seconds V < 60 * DECIMAL_PART_POW"
    using assms by (simp_all add: split_days_def split_hours_def split_minutes_def split_seconds_def pos_imp_zdiv_nonneg_iff)
qed

lemma duration_seconds_rest_split:
  assumes V: "0 \<le> V" "in_int 128 (signed neg V)"
  shows "duration_seconds_rest \<lparr>dec_value = signed neg V\<rparr> =
    Some (signed neg (split_days V), signed neg (split_hours V), signed neg (split_minutes V), \<lparr>dec_value = signed neg (split_seconds V)\<rparr>)"
proof -
  let ?w = "split_days V * 86400 + split_hours V * 3600 + split_minutes V * 60"
  note parts = split_parts [OF V(1)]
  have n: "0 \<le> V div DECIMAL_PART_POW" using V(1) by (simp add: pos_imp_zdiv_nonneg_iff)
  have comps: "decimal_as_i128 \<lparr>dec_value = signed neg V\<rparr> = signed neg (V div DECIMAL_PART_POW)"
    using V(1) by (simp add: decimal_as_i128_def signed_sdiv)
  have w: "0 \<le> ?w" "?w * DECIMAL_PART_POW \<le> V" using parts by simp_all
  have in_w: "in_int 128 (signed neg (?w * DECIMAL_PART_POW))" using signed_in_int [OF V(2)] w by simp
  have "split_seconds V \<le> V" unfolding split_seconds_def by (rule zmod_le_nonneg_dividend [OF V(1)])
  then have in_s: "in_int 128 (signed neg (split_seconds V))" by (rule signed_in_int [OF V(2) parts(5)])
  have sum: "signed neg (split_days V) * 86400 + signed neg (split_hours V) * 3600 + signed neg (split_minutes V) * 60 = signed neg ?w"
    by (simp add: signed_simps)
  have diff: "signed neg V - signed neg (?w * DECIMAL_PART_POW) = signed neg (split_seconds V)"
    using parts(1) by (auto simp: signed_def)
  have "decimal_try_from_i128 (signed neg ?w) = Inr \<lparr>dec_value = signed neg (?w * DECIMAL_PART_POW)\<rparr>"
    using in_w by (simp add: decimal_try_from_i128_def i_checked_mul_def checked_int_def signed_simps)
  moreover have "decimal_checked_sub \<lparr>dec_value = signed neg V\<rparr> \<lparr>dec_value = signed neg (?w * DECIMAL_PART_POW)\<rparr> =
      Inr \<lparr>dec_value = signed neg (split_seconds V)\<rparr>"
    using in_s diff by (simp add: decimal_checked_sub_def i_checked_sub_def checked_int_def)
  ultimately show ?thesis
    using n by (simp add: duration_seconds_rest_def Let_def comps signed_sdiv signed_smod sum
        split_days_def [symmetric] split_hours_def [symmetric] split_minutes_def [symmetric] del: decimal_consts)
qed

lemma loop_T: "st < AFTER_T \<Longrightarrow> duration_loop neg (st, ym, dt) (CHR ''T'' # rest) = duration_loop neg (AFTER_T, ym, dt) rest"
  by (subst duration_loop.simps) simp

lemma loop_end: "duration_loop neg (st, ym, dt) [] = Inr (\<lparr>parts_year_month = ym, parts_day_time = dt\<rparr>, [])"
  by (subst duration_loop.simps) simp

lemma add_opt_dec_None: "add_opt_dec None x = None \<longleftrightarrow> x = 0" "add_opt_dec (Some y) x \<noteq> None"
  by (auto simp: add_opt_dec_def)

lemma add_opt_None: "add_opt None x = None \<longleftrightarrow> x = 0" "add_opt (Some y) x \<noteq> None"
  by (auto simp: add_opt_def)

lemma add_opt_None_iff: "add_opt a x = None \<longleftrightarrow> a = None \<and> x = 0"
  by (auto simp: add_opt_def)

lemma add_opt_dec_None_iff: "add_opt_dec a x = None \<longleftrightarrow> a = None \<and> x = 0"
  by (auto simp: add_opt_dec_def)

lemma year_month_loop:
  assumes "0 \<le> T" "in_int 64 (signed neg T)"
  obtains st ym where "st < AFTER_DAY" "unwrap_or ym 0 = signed neg T" "ym = None \<longleftrightarrow> T = 0"
    "\<And>rest. duration_loop neg (START, None, None) (opt_frag (nat (T div 12)) (CHR ''Y'') @ opt_frag (nat (T mod 12)) (CHR ''M'') @ rest) =
       duration_loop neg (st, ym, None) rest"
proof -
  let ?Y = "nat (T div 12)" and ?M = "nat (T mod 12)"
  let ?y = "int ?Y * 12" and ?m = "int ?M * 1"
  have T: "T = ?y + ?m" "0 \<le> ?y" "0 \<le> ?m" "?m < 12" using assms(1) by (auto simp: pos_imp_zdiv_nonneg_iff)
  have "T \<le> 2 ^ 63" using assms by (auto simp: in_int_def signed_def split: if_splits)
  then have "T div 12 \<le> 768614336404564650" by simp
  then have y: "in_int 64 ?y" using assms(1) by (simp add: in_int_def pos_imp_zdiv_nonneg_iff)
  have "in_int 64 k" if "0 \<le> k" "k < 12" for k using that by (simp add: in_int_def)
  then have m: "in_int 64 ?m" using T(3,4) .
  have py: "in_int 64 (signed neg ?y)" using T by (intro signed_in_int [OF assms(2)]) auto
  have pt: "in_int 64 (signed neg ?y + signed neg ?m)" using assms(2) T(1) by (simp add: signed_simps)
  define s1 s2 :: nat where "s1 = (if ?Y = 0 then START else AFTER_YEAR)" and "s2 = (if ?M = 0 then s1 else AFTER_MONTH)"
  define ym where "ym = add_opt (add_opt None (signed neg ?y)) (signed neg ?m)"
  have "duration_loop neg (START, None, None) (opt_frag ?Y (CHR ''Y'') @ opt_frag ?M (CHR ''M'') @ rest) =
       duration_loop neg (s2, ym, None) rest" for rest
    using loop_months [of "CHR ''Y''" START 12 AFTER_YEAR ?Y None neg None "opt_frag ?M (CHR ''M'') @ rest"]
      loop_months [of "CHR ''M''" s1 1 AFTER_MONTH ?M "add_opt None (signed neg ?y)" neg None rest] y m py pt
    by (simp add: s1_def s2_def ym_def unwrap_or_def [of None])
  moreover have "unwrap_or ym 0 = signed neg T"
    using T(1) by (simp add: ym_def signed_simps unwrap_or_def [of None])
  moreover have "ym = None \<longleftrightarrow> T = 0" using T by (auto simp: ym_def add_opt_None_iff)
  ultimately show ?thesis by (intro that [of s2 ym]) (auto simp: s1_def s2_def)
qed

lemma time_text_parts:
  assumes "0 \<le> h" "0 \<le> m" "0 \<le> s" "in_int 128 s"
  shows "time_text (signed neg h) (signed neg m) \<lparr>dec_value = signed neg s\<rparr> =
    (if h = 0 \<and> m = 0 \<and> s = 0 then Some []
     else map_option (\<lambda>sec. CHR ''T'' # opt_frag (nat h) (CHR ''H'') @ opt_frag (nat m) (CHR ''M'') @ sec)
       (if s = 0 then Some [] else map_option (\<lambda>t. t @ ''S'') (decimal_to_string \<lparr>dec_value = s\<rparr>)))"
proof -
  have abs: "decimal_checked_abs \<lparr>dec_value = signed neg s\<rparr> = Inr \<lparr>dec_value = s\<rparr>"
    using assms(3,4) by (simp add: decimal_checked_abs_def i_checked_abs_def checked_int_def signed_def)
  have zero: "\<lparr>dec_value = signed neg s\<rparr> = decimal_from 0 \<longleftrightarrow> s = 0" by (simp add: decimal_eq_iff decimal_from_def)
  have frag: "(if signed neg x \<noteq> 0 then show_abs (signed neg x) @ [c] else []) = opt_frag (nat x) c" if "0 \<le> x" for x c
    using that by (auto simp: opt_frag_def show_abs_signed)
  show ?thesis
    unfolding time_text_def abs zero frag [OF assms(1)] frag [OF assms(2)] by simp
qed

lemma time_loop:
  fixes dt :: "Decimal option"
  defines "a \<equiv> dec_value (unwrap_or dt decimal_default)"
  assumes "in_int 128 (int H * 3600 * 10 ^ 18)" "in_int 128 (int M * 60 * 10 ^ 18)" "0 \<le> s" "in_int 128 s"
    and fit: "in_int 128 (a + signed neg (int H * 3600 * 10 ^ 18))"
      "in_int 128 (a + signed neg (int H * 3600 * 10 ^ 18) + signed neg (int M * 60 * 10 ^ 18))"
      "in_int 128 (a + signed neg (int H * 3600 * 10 ^ 18) + signed neg (int M * 60 * 10 ^ 18) + signed neg s)"
  obtains sec dt' where
    "(if s = 0 then Some [] else map_option (\<lambda>t. t @ ''S'') (decimal_to_string \<lparr>dec_value = s\<rparr>)) = Some sec"
    "duration_loop neg (AFTER_T, ym, dt) (opt_frag H (CHR ''H'') @ opt_frag M (CHR ''M'') @ sec) =
       Inr (\<lparr>parts_year_month = ym, parts_day_time = dt'\<rparr>, [])"
    "dec_value (unwrap_or dt' decimal_default) = a + signed neg (int H * 3600 * 10 ^ 18) + signed neg (int M * 60 * 10 ^ 18) + signed neg s"
    "dt' = None \<longleftrightarrow> dt = None \<and> H = 0 \<and> M = 0 \<and> s = 0"
proof -
  let ?h = "signed neg (int H * 3600 * 10 ^ 18)" and ?m = "signed neg (int M * 60 * 10 ^ 18)"
  define s1 s2 :: nat where "s1 = (if H = 0 then AFTER_T else AFTER_HOUR)" and "s2 = (if M = 0 then s1 else AFTER_MINUTE)"
  define d2 where "d2 = add_opt_dec (add_opt_dec dt ?h) ?m"
  have loop: "duration_loop neg (AFTER_T, ym, dt) (opt_frag H (CHR ''H'') @ opt_frag M (CHR ''M'') @ rest) =
      duration_loop neg (s2, ym, d2) rest" for rest
  proof -
    have "duration_loop neg (AFTER_T, ym, dt) (opt_frag H (CHR ''H'') @ opt_frag M (CHR ''M'') @ rest) =
        duration_loop neg (s1, ym, add_opt_dec dt ?h) (opt_frag M (CHR ''M'') @ rest)"
      unfolding s1_def by (rule loop_seconds) (use assms fit in auto)
    also have "\<dots> = duration_loop neg (s2, ym, d2) rest"
      unfolding s2_def d2_def by (rule loop_seconds) (use assms fit in \<open>auto simp: s1_def\<close>)
    finally show ?thesis .
  qed
  have d2: "dec_value (unwrap_or d2 decimal_default) = a + ?h + ?m" by (simp only: d2_def unwrap_add_opt_dec a_def)
  have d2_None: "d2 = None \<longleftrightarrow> dt = None \<and> H = 0 \<and> M = 0" by (auto simp: d2_def add_opt_dec_None_iff)
  have s2: "AFTER_T \<le> s2" "s2 < AFTER_SECOND" by (auto simp: s1_def s2_def)
  show thesis
  proof (cases "s = 0")
    case True
    then show ?thesis
      using loop [of "[]"] by (intro that [of "[]" d2]) (simp_all add: loop_end d2 d2_None signed_simps)
  next
    case False
    obtain num where num: "decimal_to_string \<lparr>dec_value = s\<rparr> = Some num"
      "duration_loop neg (s2, ym, d2) (num @ ''S'') =
        Inr (\<lparr>parts_year_month = ym, parts_day_time = Some \<lparr>dec_value = a + ?h + ?m + signed neg s\<rparr>\<rparr>, [])"
      using loop_second [of "\<lparr>dec_value = s\<rparr>" s2 d2 neg ym] assms s2 fit(3) d2 by (auto simp: dec_wf_def)
    then show ?thesis
      using False by (intro that [of "num @ ''S''" "Some \<lparr>dec_value = a + ?h + ?m + signed neg s\<rparr>"]) (simp_all add: loop unwrap_or_def)
  qed
qed

lemma day_time_loop:
  assumes V: "0 \<le> V" "in_int 128 (signed neg V)" and st: "st < AFTER_DAY"
  obtains t dt where
    "time_text (signed neg (split_hours V)) (signed neg (split_minutes V)) \<lparr>dec_value = signed neg (split_seconds V)\<rparr> = Some t"
    "duration_loop neg (st, ym, None) (opt_frag (nat (split_days V)) (CHR ''D'') @ t) =
       Inr (\<lparr>parts_year_month = ym, parts_day_time = dt\<rparr>, [])"
    "dec_value (unwrap_or dt decimal_default) = signed neg V" "dt = None \<longleftrightarrow> V = 0"
proof -
  note parts = split_parts [OF V(1)]
  let ?D = "nat (split_days V)" and ?H = "nat (split_hours V)" and ?M = "nat (split_minutes V)"
  define d h m s where "d = int ?D * 86400 * 10 ^ 18" and "h = int ?H * 3600 * 10 ^ 18"
    and "m = int ?M * 60 * 10 ^ 18" and "s = split_seconds V"
  note dhms = d_def h_def m_def s_def
  have sum: "V = d + h + m + s" "0 \<le> d" "0 \<le> h" "0 \<le> m" "0 \<le> s"
    using parts unfolding dhms by (simp_all add: ring_distribs)
  have whole: "in_int 128 p" if "0 \<le> k" "p = k * 10 ^ 18" "p \<le> V" for p k
  proof -
    have "V \<le> 2 ^ 127" using V by (auto simp: in_int_def signed_def split: if_splits)
    with that have "k * 1000000000000000000 \<le> 170141183460469231731687303715884105728" by simp
    then have "k \<le> 170141183460469231731" by linarith
    with that(1,2) show ?thesis by (simp add: in_int_def)
  qed
  have fit: "in_int 128 d" "in_int 128 h" "in_int 128 m"
  proof -
    have le: "d \<le> V" "h \<le> V" "m \<le> V" using sum by linarith+
    show "in_int 128 d" using whole [OF _ d_def le(1)] by simp
    show "in_int 128 h" using whole [OF _ h_def le(2)] by simp
    show "in_int 128 m" using whole [OF _ m_def le(3)] by simp
  qed
  have s: "in_int 128 s" using parts(5,6) by (simp add: s_def in_int_def)
  have part: "in_int 128 (signed neg p)" if "0 \<le> p" "p \<le> V" for p using signed_in_int [OF V(2) that] .
  define dt where "dt = add_opt_dec None (signed neg d)"
  have dt: "dec_value (unwrap_or dt decimal_default) = signed neg d"
    by (simp only: dt_def unwrap_add_opt_dec) (simp add: unwrap_or_def decimal_default_def)
  have none: "dec_value (unwrap_or None decimal_default) = 0" by (simp add: unwrap_or_def decimal_default_def)
  have day: "duration_loop neg (st, ym, None) (opt_frag ?D (CHR ''D'') @ rest) =
      duration_loop neg (if ?D = 0 then st else AFTER_DAY, ym, dt) rest" for rest
    unfolding dt_def d_def
  proof (rule loop_seconds)
    show "in_int 128 (int ?D * 86400 * 10 ^ 18)" using fit(1) unfolding d_def .
    show "in_int 128 (dec_value (unwrap_or None decimal_default) + signed neg (int ?D * 86400 * 10 ^ 18))"
      unfolding none d_def [symmetric] add_0 by (rule part; use sum in linarith)
  qed (use st in simp)
  have V0: "V = 0 \<longleftrightarrow> d = 0 \<and> h = 0 \<and> m = 0 \<and> s = 0" using sum by auto
  have zero: "d = 0 \<longleftrightarrow> dt = None" "h = 0 \<longleftrightarrow> ?H = 0" "m = 0 \<longleftrightarrow> ?M = 0"
    "split_hours V = 0 \<longleftrightarrow> ?H = 0" "split_minutes V = 0 \<longleftrightarrow> ?M = 0"
    using parts by (auto simp: dt_def add_opt_dec_None_iff h_def m_def)
  have f: "in_int 128 (dec_value (unwrap_or dt decimal_default) + signed neg (int ?H * 3600 * 10 ^ 18))"
    "in_int 128 (dec_value (unwrap_or dt decimal_default) + signed neg (int ?H * 3600 * 10 ^ 18) + signed neg (int ?M * 60 * 10 ^ 18))"
    "in_int 128 (dec_value (unwrap_or dt decimal_default) + signed neg (int ?H * 3600 * 10 ^ 18) + signed neg (int ?M * 60 * 10 ^ 18) + signed neg s)"
    unfolding dt h_def [symmetric] m_def [symmetric] signed_simps by (rule part; use sum in linarith)+
  obtain sec dt' where sec: "(if s = 0 then Some [] else map_option (\<lambda>t. t @ ''S'') (decimal_to_string \<lparr>dec_value = s\<rparr>)) = Some sec"
    and loop: "duration_loop neg (AFTER_T, ym, dt) (opt_frag ?H (CHR ''H'') @ opt_frag ?M (CHR ''M'') @ sec) =
       Inr (\<lparr>parts_year_month = ym, parts_day_time = dt'\<rparr>, [])"
    and val: "dec_value (unwrap_or dt' decimal_default) = dec_value (unwrap_or dt decimal_default) +
       signed neg (int ?H * 3600 * 10 ^ 18) + signed neg (int ?M * 60 * 10 ^ 18) + signed neg s"
    and none: "dt' = None \<longleftrightarrow> dt = None \<and> ?H = 0 \<and> ?M = 0 \<and> s = 0"
    by (rule time_loop [OF fit(2) [unfolded h_def] fit(3) [unfolded m_def] sum(5) s f])
  have dt': "dec_value (unwrap_or dt' decimal_default) = signed neg V" "dt' = None \<longleftrightarrow> V = 0"
    using val none unfolding dt h_def [symmetric] m_def [symmetric] signed_simps sum(1) [symmetric] V0 zero by simp_all
  note tt = time_text_parts [OF parts(3,4) sum(5) s, of neg, unfolded zero sec, folded s_def]
  show thesis
  proof (cases "?H = 0 \<and> ?M = 0 \<and> s = 0")
    case True
    then have "V = d" using sum zero by auto
    then show ?thesis
      using True tt dt V0 zero day [of "[]"] by (intro that [of "[]" dt]) (simp_all add: s_def loop_end)
  next
    case False
    then show ?thesis
      using tt loop dt' day st
      by (intro that [of "CHR ''T'' # opt_frag ?H (CHR ''H'') @ opt_frag ?M (CHR ''M'') @ sec" dt']) (simp_all add: s_def loop_T)
  qed
qed

lemma year_month_text_signed:
  assumes "0 \<le> T" "T \<noteq> 0 \<or> ss \<noteq> decimal_from 0"
  shows "year_month_text (signed neg T) ss = opt_frag (nat (T div 12)) (CHR ''Y'') @ opt_frag (nat (T mod 12)) (CHR ''M'')"
proof -
  have pos: "0 \<le> T div 12" "0 \<le> T mod 12" using assms(1) by (simp_all add: pos_imp_zdiv_nonneg_iff)
  have "ss \<noteq> decimal_from 0" if "T div 12 = 0" "T mod 12 = 0" using assms(2) that div_mult_mod_eq [of T 12] by auto
  moreover have "nat x = 0 \<longleftrightarrow> x = 0" if "0 \<le> x" for x using that by auto
  ultimately show ?thesis
    using pos assms(1) by (auto simp: year_month_text_def Let_def signed_sdiv signed_smod show_abs_signed opt_frag_def)
qed

text \<open>What the parser finds in the printed form of a duration.\<close>

lemma duration_text_parts:
  assumes wf: "duration_wf d"
  obtains s a b where "duration_fmt d = Some s"
    "duration_ensure_complete s duration_parts = Inr \<lparr>parts_year_month = a, parts_day_time = b\<rparr>"
    "unwrap_or a 0 = ym_months (year_month d)" "unwrap_or b decimal_default = dt_seconds (day_time d)"
    "a = None \<longleftrightarrow> ym_months (year_month d) = 0"
    "b = None \<longleftrightarrow> dec_value (dt_seconds (day_time d)) = 0 \<and> ym_months (year_month d) \<noteq> 0"
proof -
  define neg where "neg = (ym_months (year_month d) < 0 \<or> dec_value (dt_seconds (day_time d)) < 0)"
  define T V where "T = \<bar>ym_months (year_month d)\<bar>" and "V = \<bar>dec_value (dt_seconds (day_time d))\<bar>"
  have ym: "ym_months (year_month d) = signed neg T" and ss: "dec_value (dt_seconds (day_time d)) = signed neg V"
    using wf by (auto simp: duration_wf_def same_sign_def neg_def T_def V_def signed_def)
  have ss': "dt_seconds (day_time d) = \<lparr>dec_value = signed neg V\<rparr>" by (simp add: decimal_eq_iff ss)
  have bounds: "0 \<le> T" "in_int 64 (signed neg T)" "0 \<le> V" "in_int 128 (signed neg V)"
    using wf unfolding duration_wf_def ym_wf_def dt_wf_def dec_wf_def ym ss by (simp_all add: T_def V_def)
  have neg: "signed neg T < 0 \<or> signed neg V < 0 \<longleftrightarrow> neg" using neg_def unfolding ym ss by blast
  have sign: "\<not> (signed neg T < 0 \<and> 0 < signed neg V \<or> 0 < signed neg T \<and> signed neg V < 0)"
    using bounds by (auto simp: signed_def)
  have zero: "signed neg T = 0 \<and> \<lparr>dec_value = signed neg V\<rparr> = decimal_from 0 \<longleftrightarrow> T = 0 \<and> V = 0"
    by (simp add: decimal_from_def)
  have fmt: "duration_fmt d = map_option (\<lambda>t. (if neg then ''-'' else []) @ ''P'' @ t)
      (if T = 0 \<and> V = 0 then Some ''T0S''
       else Option.bind (duration_seconds_rest \<lparr>dec_value = signed neg V\<rparr>) (\<lambda>(d, h, m, s).
              map_option (\<lambda>t. year_month_text (signed neg T) \<lparr>dec_value = signed neg V\<rparr> @ (if d \<noteq> 0 then show_abs d @ ''D'' else []) @ t)
                (time_text h m s)))"
    unfolding duration_fmt_def Let_def ym ss' by (simp only: Decimal.simps sign if_False neg zero)
  have start: "duration_ensure_complete ((if neg then ''-'' else []) @ ''P'' @ t) duration_parts =
      duration_ensure_complete t (duration_loop neg (START, None, None))" for t
    by (simp add: duration_ensure_complete_def duration_parts_def duration_expect_char_def)
  show thesis
  proof (cases "T = 0 \<and> V = 0")
    case True
    then have "\<not> neg" using neg by (simp add: signed_simps)
    moreover have "duration_loop False (START, None, None) ''T0S'' = Inr (\<lparr>parts_year_month = None, parts_day_time = Some decimal_default\<rparr>, [])"
      by code_simp
    ultimately show ?thesis
      using True fmt start [of "''T0S''"] that [of "''PT0S''" None "Some decimal_default"]
      by (simp add: ym ss' signed_simps unwrap_or_def decimal_default_def duration_ensure_complete_def)
  next
    case False
    obtain st a where a: "st < AFTER_DAY" "unwrap_or a 0 = signed neg T" "a = None \<longleftrightarrow> T = 0"
      "\<And>rest. duration_loop neg (START, None, None) (opt_frag (nat (T div 12)) (CHR ''Y'') @ opt_frag (nat (T mod 12)) (CHR ''M'') @ rest) =
         duration_loop neg (st, a, None) rest"
      using year_month_loop [OF bounds(1,2)] by blast
    obtain t b where b: "time_text (signed neg (split_hours V)) (signed neg (split_minutes V)) \<lparr>dec_value = signed neg (split_seconds V)\<rparr> = Some t"
      "duration_loop neg (st, a, None) (opt_frag (nat (split_days V)) (CHR ''D'') @ t) = Inr (\<lparr>parts_year_month = a, parts_day_time = b\<rparr>, [])"
      "dec_value (unwrap_or b decimal_default) = signed neg V" "b = None \<longleftrightarrow> V = 0"
      using day_time_loop [OF bounds(3,4) a(1)] by blast
    let ?t = "opt_frag (nat (T div 12)) (CHR ''Y'') @ opt_frag (nat (T mod 12)) (CHR ''M'') @ opt_frag (nat (split_days V)) (CHR ''D'') @ t"
    have "T \<noteq> 0 \<or> \<lparr>dec_value = signed neg V\<rparr> \<noteq> decimal_from 0" using False by (simp add: decimal_from_def)
    note ymt = year_month_text_signed [OF bounds(1) this]
    have days: "(if signed neg (split_days V) \<noteq> 0 then show_abs (signed neg (split_days V)) @ ''D'' else []) = opt_frag (nat (split_days V)) (CHR ''D'')"
      using split_parts(2) [OF bounds(3)] by (auto simp: opt_frag_def show_abs_signed)
    have "duration_fmt d = Some ((if neg then ''-'' else []) @ ''P'' @ ?t)"
      unfolding fmt if_not_P [OF False] duration_seconds_rest_split [OF bounds(3,4)] using b(1) by (simp add: ymt days [simplified])
    moreover have "duration_loop neg (START, None, None) ?t = Inr (\<lparr>parts_year_month = a, parts_day_time = b\<rparr>, [])"
      unfolding a(4) by (rule b(2))
    then have "duration_ensure_complete ((if neg then ''-'' else []) @ ''P'' @ ?t) duration_parts = Inr \<lparr>parts_year_month = a, parts_day_time = b\<rparr>"
      unfolding start by (simp add: duration_ensure_complete_def)
    ultimately show ?thesis
      by (rule that) (use a b False in \<open>auto simp: ym ss' decimal_eq_iff\<close>)
  qed
qed

text \<open>C20: Printing a duration, a year-month duration or a day-time duration never fails on a
  representable value, and parsing the printed form gives the value back: signs, carries between
  the units and fractions of a second are kept.\<close>

theorem duration_display_parse:
  assumes "duration_wf d" "ym_wf y" "dt_wf t"
  shows "(\<exists>s. duration_fmt d = Some s \<and> duration_from_str s = Inr d) \<and>
    (\<exists>s. ym_fmt y = Some s \<and> ym_from_str s = Inr y) \<and> (\<exists>s. dt_fmt t = Some s \<and> dt_from_str s = Inr t)"
proof (intro conjI)
  obtain s a b where s: "duration_fmt d = Some s"
    "duration_ensure_complete s duration_parts = Inr \<lparr>parts_year_month = a, parts_day_time = b\<rparr>"
    "unwrap_or a 0 = ym_months (year_month d)" "unwrap_or b decimal_default = dt_seconds (day_time d)"
    "\<not> (a = None \<and> b = None)"
    using duration_text_parts [OF assms(1)] by metis
  have "duration_new (ym_months (year_month d)) (dt_seconds (day_time d)) = Inr d"
    using assms(1) by (auto simp: duration_new_def duration_construct_ok duration_wf_def ym_new_def dt_new_def same_sign_def
        duration_eq_iff ym_eq_iff dt_eq_iff)
  then show "\<exists>s. duration_fmt d = Some s \<and> duration_from_str s = Inr d"
    using s by (simp add: duration_from_str_def)
  have wf: "duration_wf (duration_from_ym y)" "duration_wf (duration_from_dt t)"
    using assms(2,3) by (auto simp: duration_wf_def duration_from_ym_def duration_from_dt_def ym_wf_def dt_wf_def same_sign_def
        ym_default_def dt_default_def decimal_default_def dec_wf_def)
  show "\<exists>s. ym_fmt y = Some s \<and> ym_from_str s = Inr y"
  proof (cases "ym_months y = 0")
    case True
    moreover have "ym_from_str ''P0M'' = Inr (ym_new 0)" by code_simp
    ultimately show ?thesis by (simp add: ym_fmt_def ym_new_def ym_eq_iff)
  next
    case False
    let ?d = "duration_from_ym y"
    obtain s a b where s: "duration_fmt ?d = Some s"
      "duration_ensure_complete s duration_parts = Inr \<lparr>parts_year_month = a, parts_day_time = b\<rparr>"
      "unwrap_or a 0 = ym_months (year_month ?d)" "a = None \<longleftrightarrow> ym_months (year_month ?d) = 0"
      "b = None \<longleftrightarrow> dec_value (dt_seconds (day_time ?d)) = 0 \<and> ym_months (year_month ?d) \<noteq> 0"
      by (rule duration_text_parts [OF wf(1)])
    then have "a = Some (ym_months y)" "b = None" using False
      by (auto simp: duration_from_ym_def dt_default_def decimal_default_def unwrap_or_def)
    with s show ?thesis using False by (simp add: ym_fmt_def ym_from_str_def ym_new_def ym_eq_iff)
  qed
  let ?d = "duration_from_dt t"
  obtain s' a' b' where s': "duration_fmt ?d = Some s'"
    "duration_ensure_complete s' duration_parts = Inr \<lparr>parts_year_month = a', parts_day_time = b'\<rparr>"
    "unwrap_or b' decimal_default = dt_seconds (day_time ?d)" "a' = None \<longleftrightarrow> ym_months (year_month ?d) = 0"
    "b' = None \<longleftrightarrow> dec_value (dt_seconds (day_time ?d)) = 0 \<and> ym_months (year_month ?d) \<noteq> 0"
    by (rule duration_text_parts [OF wf(2)])
  then have "a' = None" "b' = Some (dt_seconds t)" by (auto simp: duration_from_dt_def ym_default_def unwrap_or_def)
  with s' show "\<exists>s. dt_fmt t = Some s \<and> dt_from_str s = Inr t"
    by (simp add: dt_fmt_def dt_from_str_def dt_new_def dt_eq_iff)
qed

theorem duration_display_parse_witness:
  "(\<exists>s. duration_fmt \<lparr>year_month = \<lparr>ym_months = -14\<rparr>, day_time = \<lparr>dt_seconds = \<lparr>dec_value = -90061500000000000000000\<rparr>\<rparr>\<rparr> = Some s \<and>
     duration_from_str s = Inr \<lparr>year_month = \<lparr>ym_months = -14\<rparr>, day_time = \<lparr>dt_seconds = \<lparr>dec_value = -90061500000000000000000\<rparr>\<rparr>\<rparr>) \<and>
   (\<exists>s. ym_fmt \<lparr>ym_months = 25\<rparr> = Some s \<and> ym_from_str s = Inr \<lparr>ym_months = 25\<rparr>) \<and>
   (\<exists>s. dt_fmt \<lparr>dt_seconds = \<lparr>dec_value = 1\<rparr>\<rparr> = Some s \<and> dt_from_str s = Inr \<lparr>dt_seconds = \<lparr>dec_value = 1\<rparr>\<rparr>)"
  by (rule duration_display_parse) (simp_all add: duration_wf_def ym_wf_def dt_wf_def dec_wf_def same_sign_def in_int_def)

end
