(* ===== verification/Xsd_DateTime_Text.thy ===== *)
theory Xsd_DateTime_Text
  imports Xsd_DateTime Xsd_Duration_Text
begin

text \<open>
  The lexical form of the date and time types of \<open>lib/common/src/xsd/date_time.rs\<close>: the
  fragments of the XML Schema grammar, the parsers of \<open>dateTime\<close>, \<open>time\<close>, \<open>date\<close> and the five
  Gregorian types, and their printers. Shown: the printed form of a date and time is parsed back
  to the same value.
\<close>

section \<open>Fragments\<close>

text \<open>\<open>ParsePanic\<close> is the panic of \<open>expect("valid integer")\<close>.\<close>

datatype ParseDateTimeError =
    InvalidDayOfMonth int int
  | Overflow DateTimeOverflowError
  | InvalidTimezone InvalidTimezoneError
  | Message string
  | ParsePanic string

definition u_from_str :: "nat \<Rightarrow> string \<Rightarrow> int option" where
  "u_from_str w s =
     (let ds = (case s of c # cs \<Rightarrow> if c = CHR ''+'' then cs else s | [] \<Rightarrow> s)
      in if ds \<noteq> [] \<and> list_all is_ascii_digit ds
         then (let v = digits_val 1 0 (map (\<lambda>c. nat (digit_val c)) ds) in if in_uint w v then Some v else None)
         else None)"

definition expect_char :: "string \<Rightarrow> char \<Rightarrow> string \<Rightarrow> (ParseDateTimeError, string) result" where
  "expect_char input constant error_message = ok_or (strip_prefix constant input) (Message error_message)"

definition year_frag :: "string \<Rightarrow> (ParseDateTimeError, int \<times> string) result" where
  "year_frag input =
     (let (sign, input) = (case strip_prefix (CHR ''-'') input of Some left \<Rightarrow> (- 1, left) | None \<Rightarrow> (1, input));
          (number_str, input) = integer_prefix input
      in if length number_str < 4 then Inl (Message ''The year should be encoded on 4 digits'')
         else if length number_str > 4 \<and> hd number_str = CHR ''0''
         then Inl (Message ''The years value must not start with 0 if it can be encoded in at least 4 digits'')
         else (case i_from_str 64 number_str of
             None \<Rightarrow> Inl (ParsePanic ''valid integer'')
           | Some number \<Rightarrow> Inr (sign * number, input)))"

definition two_digit_frag :: "string \<Rightarrow> int \<Rightarrow> int \<Rightarrow> string \<Rightarrow> string \<Rightarrow> (ParseDateTimeError, int \<times> string) result" where
  "two_digit_frag length_message lo hi range_message input =
     (let (number_str, input) = integer_prefix input
      in if length number_str \<noteq> 2 then Inl (Message length_message)
         else (case u_from_str 8 number_str of
             None \<Rightarrow> Inl (ParsePanic ''valid integer'')
           | Some number \<Rightarrow> if lo \<le> number \<and> number \<le> hi then Inr (number, input) else Inl (Message range_message)))"

definition month_frag :: "string \<Rightarrow> (ParseDateTimeError, int \<times> string) result" where
  "month_frag = two_digit_frag ''Month must be encoded with two digits'' 1 12 ''Month must be between 01 and 12''"

definition day_frag :: "string \<Rightarrow> (ParseDateTimeError, int \<times> string) result" where
  "day_frag = two_digit_frag ''Day must be encoded with two digits'' 1 31 ''Day must be between 01 and 31''"

definition hour_frag :: "string \<Rightarrow> (ParseDateTimeError, int \<times> string) result" where
  "hour_frag = two_digit_frag ''Hours must be encoded with two digits'' 0 24 ''Hours must be between 00 and 24''"

definition minute_frag :: "string \<Rightarrow> (ParseDateTimeError, int \<times> string) result" where
  "minute_frag = two_digit_frag ''Minutes must be encoded with two digits'' 0 59 ''Minutes must be between 00 and 59''"

definition second_frag :: "string \<Rightarrow> (ParseDateTimeError, Decimal \<times> string) result" where
  "second_frag input =
     (let (number_str, input) = decimal_prefix input;
          before_dot_str = takeWhile (\<lambda>c. c \<noteq> CHR ''.'') number_str
      in if length before_dot_str \<noteq> 2 then Inl (Message ''Seconds must be encoded with two digits'')
         else and_then (map_err (\<lambda>_. Message ''The second precision is too large'') (decimal_from_str number_str)) (\<lambda>number.
           if dec_value number < dec_value (decimal_from 0) \<or> dec_value number \<ge> dec_value (decimal_from 60)
           then Inl (Message ''Seconds must be between 00 and 60'')
           else if number_str \<noteq> [] \<and> last number_str = CHR ''.''
           then Inl (Message ''Seconds are not allowed to end with a dot'')
           else Inr (number, input)))"

definition timezone_frag :: "string \<Rightarrow> (ParseDateTimeError, TimezoneOffset \<times> string) result" where
  "timezone_frag input =
     (case strip_prefix (CHR ''Z'') input of
        Some left \<Rightarrow> Inr (tz_UTC, left)
      | None \<Rightarrow>
          let (sign, input) =
            (case strip_prefix (CHR ''-'') input of
               Some left \<Rightarrow> (- 1, left)
             | None \<Rightarrow> (case strip_prefix (CHR ''+'') input of Some left \<Rightarrow> (1, left) | None \<Rightarrow> (1, input)));
              (hour_str, input) = integer_prefix input
          in if length hour_str \<noteq> 2 then Inl (Message ''The timezone hours must be encoded with two digits'')
             else (case i_from_str 16 hour_str of
                 None \<Rightarrow> Inl (ParsePanic ''valid integer'')
               | Some hours \<Rightarrow>
                   and_then (expect_char input (CHR '':'') (''The timezone hours and minutes must be separated by ':'' @ [CHR 0x27])) (\<lambda>input.
                   and_then (minute_frag input) (\<lambda>(minutes, input).
                     if hours > 13 \<and> \<not> (hours = 14 \<and> minutes = 0)
                     then Inl (Message ''The timezone hours must be between 00 and 13'')
                     else map_ok (\<lambda>z. (z, input)) (map_err InvalidTimezone (tz_new (sign * (hours * 60 + minutes))))))))"

definition optional_end ::
  "string \<Rightarrow> (string \<Rightarrow> (ParseDateTimeError, 'a \<times> string) result) \<Rightarrow> (ParseDateTimeError, 'a option \<times> string) result" where
  "optional_end input parse =
     (if input = [] then Inr (None, input) else map_ok (\<lambda>(r, input). (Some r, input)) (parse input))"

definition validate_day_of_month :: "int option \<Rightarrow> int \<Rightarrow> int \<Rightarrow> (ParseDateTimeError, unit) result" where
  "validate_day_of_month year month day =
     (if day > days_in_month year month then Inl (InvalidDayOfMonth day month) else Inr ())"

definition ensure_complete ::
  "string \<Rightarrow> (string \<Rightarrow> (ParseDateTimeError, 'a \<times> string) result) \<Rightarrow> (ParseDateTimeError, 'a) result" where
  "ensure_complete input parse =
     and_then (parse input) (\<lambda>(r, left). if left \<noteq> [] then Inl (Message ''Unrecognized value suffix'') else Inr r)"

section \<open>Parsing date and time\<close>

text \<open>The time of day, as \<open>date_time_lexical_rep\<close> and \<open>time_lexical_rep\<close> both read it.\<close>

definition time_of_day_rep :: "string \<Rightarrow> (ParseDateTimeError, (int \<times> int \<times> Decimal) \<times> string) result" where
  "time_of_day_rep input =
     and_then (hour_frag input) (\<lambda>(hour, input).
     and_then (expect_char input (CHR '':'') (''The hours and minutes must be separated by ':'' @ [CHR 0x27])) (\<lambda>input.
     and_then (minute_frag input) (\<lambda>(minute, input).
     and_then (expect_char input (CHR '':'') (''The minutes and seconds must be separated by ':'' @ [CHR 0x27])) (\<lambda>input.
     and_then (second_frag input) (\<lambda>(second, input).
       if hour = 24 \<and> minute \<noteq> 0 \<and> second \<noteq> decimal_from 0
       then Inl (Message ''Times are not allowed to be after 24:00:00'')
       else Inr ((hour, minute, second), input))))))"

definition date_time_lexical_rep :: "string \<Rightarrow> (ParseDateTimeError, DateTime \<times> string) result" where
  "date_time_lexical_rep input =
     and_then (year_frag input) (\<lambda>(year, input).
     and_then (expect_char input (CHR ''-'') (''The year and month must be separated by '-'' @ [CHR 0x27])) (\<lambda>input.
     and_then (month_frag input) (\<lambda>(month, input).
     and_then (expect_char input (CHR ''-'') (''The month and day must be separated by '-'' @ [CHR 0x27])) (\<lambda>input.
     and_then (day_frag input) (\<lambda>(day, input).
     and_then (expect_char input (CHR ''T'') (''The date and time must be separated by 'T'' @ [CHR 0x27])) (\<lambda>input.
     and_then (time_of_day_rep input) (\<lambda>((hour, minute, second), input).
     and_then (optional_end input timezone_frag) (\<lambda>(timezone_offset, input).
     and_then (validate_day_of_month (Some year) month day) (\<lambda>_.
     map_ok (\<lambda>dt. (dt, input))
       (map_err Overflow (date_time_from_seven_property_model year month day hour minute second timezone_offset)))))))))))"

definition date_time_from_str :: "string \<Rightarrow> (ParseDateTimeError, DateTime) result" where
  "date_time_from_str input = ensure_complete input date_time_lexical_rep"

section \<open>Printing\<close>

definition tz_fmt :: "TimezoneOffset \<Rightarrow> string" where
  "tz_fmt self =
     (let o16 = tz_offset self
      in if o16 = 0 then ''Z''
         else if o16 < 0 then ''-'' @ show_padded 2 (nat ((- o16) sdiv 60)) @ '':'' @ show_padded 2 (nat ((- o16) smod 60))
         else ''+'' @ show_padded 2 (nat (o16 sdiv 60)) @ '':'' @ show_padded 2 (nat (o16 smod 60)))"

definition opt_tz_fmt :: "TimezoneOffset option \<Rightarrow> string" where
  "opt_tz_fmt z = (case z of Some z \<Rightarrow> tz_fmt z | None \<Rightarrow> [])"

definition year_fmt :: "int \<Rightarrow> string" where
  "year_fmt year = (if year < 0 then ''-'' else []) @ show_padded 4 (nat \<bar>year\<bar>)"

definition second_fmt :: "Decimal \<Rightarrow> string option" where
  "second_fmt second =
     map_option (\<lambda>s. (if dec_value (decimal_from (- 10)) < dec_value second \<and> dec_value second < dec_value (decimal_from 10)
         then ''0'' else []) @ s) (decimal_to_string second)"

definition date_time_fmt :: "DateTime \<Rightarrow> string option" where
  "date_time_fmt self =
     (let t = date_time_timestamp self
      in map_option (\<lambda>sec. year_fmt (ts_year t) @ ''-'' @ show_padded 2 (nat (ts_month t)) @ ''-'' @ show_padded 2 (nat (ts_day t)) @
           ''T'' @ show_padded 2 (nat (ts_hour t)) @ '':'' @ show_padded 2 (nat (ts_minute t)) @ '':'' @ sec @
           opt_tz_fmt (ts_timezone_offset t))
         (second_fmt (ts_second t)))"

section \<open>Padded numbers\<close>

definition padded_digits :: "nat \<Rightarrow> nat \<Rightarrow> nat list" where
  "padded_digits w n = replicate (w - length (nat_digits n)) 0 @ nat_digits n"

lemma show_padded_digits: "show_padded w n = map digit_char (padded_digits w n)"
  using digit_char_eq_0 [of 0] by (simp add: show_padded_def padded_digits_def show_nat_def)

lemma padded_digits_props:
  "padded_digits w n \<noteq> []" "d \<in> set (padded_digits w n) \<Longrightarrow> d < 10" "digits_val 1 0 (padded_digits w n) = int n"
  "length (padded_digits w n) = max w (length (nat_digits n))"
  using nat_digits_nonempty [of n] nat_digits_bound
  by (auto simp: padded_digits_def digits_val_append digits_val_replicate_0 digits_val_nat_digits)

lemma nat_digits_head: "10 \<le> n \<Longrightarrow> hd (nat_digits n) \<noteq> 0"
proof (induction n rule: nat_digits.induct)
  case (1 n)
  then have n: "nat_digits n = nat_digits (n div 10) @ [n mod 10]" by (simp add: nat_digits.simps [of n])
  have "hd (nat_digits (n div 10)) \<noteq> 0"
  proof (cases "10 \<le> n div 10")
    case False
    then have "nat_digits (n div 10) = [n div 10]" by (simp add: nat_digits.simps [of "n div 10"])
    then show ?thesis using "1.prems" by simp
  qed (use 1 in simp)
  then show ?case using n nat_digits_nonempty [of "n div 10"] by simp
qed

lemma nat_digits_length: "n < 10 ^ k \<Longrightarrow> 0 < k \<Longrightarrow> length (nat_digits n) \<le> k"
proof (induction k arbitrary: n)
  case (Suc k)
  show ?case
  proof (cases "n < 10")
    case False
    then have "0 < k" using Suc.prems by (cases k) auto
    moreover have "n div 10 < 10 ^ k" using Suc.prems by (simp add: less_mult_imp_div_less mult.commute)
    ultimately show ?thesis using Suc.IH [of "n div 10"] False by (simp add: nat_digits.simps [of n])
  qed (simp add: nat_digits.simps [of n])
qed simp

lemma padded_2: "n < 100 \<Longrightarrow> length (padded_digits 2 n) = 2"
  using nat_digits_length [of n 2] by (simp add: padded_digits_props max_def)

lemma integer_prefix_map_digits:
  assumes "\<forall>d \<in> set ds. d < 10" "rest = [] \<or> \<not> is_ascii_digit (hd rest)"
  shows "integer_prefix (map digit_char ds @ rest) = (map digit_char ds, rest)"
  using integer_prefix_digits [OF all_digits_map_digit_char [OF assms(1)] assms(2)] .

lemma u_from_str_digits:
  assumes "ds \<noteq> []" "\<forall>d \<in> set ds. d < 10" "in_uint w (digits_val 1 0 ds)"
  shows "u_from_str w (map digit_char ds) = Some (digits_val 1 0 ds)"
proof -
  obtain d es where ds: "ds = d # es" using assms(1) by (cases ds) auto
  have "digit_char d \<noteq> CHR ''+''" using assms(2) ds by simp
  then have "u_from_str w (map digit_char ds) =
      (let v = digits_val 1 0 (map (\<lambda>c. nat (digit_val c)) (map digit_char ds)) in if in_uint w v then Some v else None)"
    using all_digits_map_digit_char [OF assms(2)] by (simp add: u_from_str_def ds)
  then show ?thesis using assms(3) by (simp only: map_digit_val_char [OF assms(2)]) simp
qed

lemma two_digit_frag_ok:
  assumes "lo \<le> n" "n \<le> hi" "0 \<le> n" "n < 100" "rest = [] \<or> \<not> is_ascii_digit (hd rest)"
  shows "two_digit_frag a lo hi b (show_padded 2 (nat n) @ rest) = Inr (n, rest)"
proof -
  let ?ds = "padded_digits 2 (nat n)"
  have ds: "\<forall>d \<in> set ?ds. d < 10" "digits_val 1 0 ?ds = n" "length ?ds = 2" "?ds \<noteq> []"
    using assms(3,4) padded_2 [of "nat n"] padded_digits_props [where w = 2 and n = "nat n"] by auto
  have "u_from_str 8 (map digit_char ?ds) = Some n"
    using u_from_str_digits [OF ds(4,1), of 8] ds(2) assms(3,4) by (simp add: in_uint_def)
  then show ?thesis
    using assms(1,2) ds by (simp add: two_digit_frag_def show_padded_digits integer_prefix_map_digits [OF ds(1) assms(5)])
qed

lemma year_frag_ok:
  assumes "\<bar>y\<bar> < 2 ^ 63" "rest = [] \<or> \<not> is_ascii_digit (hd rest)"
  shows "year_frag (year_fmt y @ rest) = Inr (y, rest)"
proof -
  let ?n = "nat \<bar>y\<bar>"
  let ?ds = "padded_digits 4 ?n"
  have ds: "\<forall>d \<in> set ?ds. d < 10" "digits_val 1 0 ?ds = \<bar>y\<bar>" "4 \<le> length ?ds" "?ds \<noteq> []"
    using padded_digits_props [where w = 4 and n = ?n] by auto
  obtain d es where head: "?ds = d # es" using ds(4) by (cases ?ds) auto
  then have d: "d < 10" using ds(1) by simp
  have lead: "d \<noteq> 0" if "4 < length ?ds"
  proof -
    have "4 < length (nat_digits ?n)" using that by (simp add: padded_digits_props)
    moreover from this have "10 \<le> ?n" using nat_digits.simps [of ?n] by (cases "?n < 10") auto
    moreover have "?ds = nat_digits ?n" using calculation(1) by (simp add: padded_digits_def)
    ultimately show ?thesis using nat_digits_head [of ?n] head by (metis list.sel(1))
  qed
  have parse: "i_from_str 64 (map digit_char ?ds) = Some \<bar>y\<bar>"
    using i_from_str_digits [OF ds(4,1), of 64] ds(2) assms(1) by (simp add: in_int_def)
  have pre: "integer_prefix (map digit_char ?ds @ rest) = (map digit_char ?ds, rest)"
    using integer_prefix_map_digits [OF ds(1) assms(2)] .
  have zero: "\<not> (4 < length (map digit_char ?ds) \<and> hd (map digit_char ?ds) = CHR ''0'')"
    using lead d head by (auto simp: digit_char_eq_0)
  have sign: "strip_prefix (CHR ''-'') (map digit_char ?ds @ rest) = None" using d by (simp add: head)
  show ?thesis
    using ds(3) parse pre zero sign
    by (cases "y < 0") (simp_all add: year_frag_def year_fmt_def show_padded_digits)
qed

lemma padded_2_digits:
  assumes "0 \<le> n" "n < 100"
  shows "\<forall>d \<in> set (padded_digits 2 (nat n)). d < 10" "digits_val 1 0 (padded_digits 2 (nat n)) = n"
    "length (padded_digits 2 (nat n)) = 2"
  using assms padded_2 [of "nat n"] padded_digits_props(2,3) [where w = 2 and n = "nat n"] by auto

lemma timezone_frag_signed:
  assumes "0 \<le> h" "h \<le> 14" "0 \<le> m" "m < 60" "h = 14 \<longrightarrow> m = 0" "c = CHR ''-'' \<or> c = CHR ''+''"
  shows "timezone_frag (c # show_padded 2 (nat h) @ CHR '':'' # show_padded 2 (nat m)) =
    map_ok (\<lambda>z. (z, [])) (map_err InvalidTimezone (tz_new ((if c = CHR ''-'' then - 1 else 1) * (h * 60 + m))))"
proof -
  let ?ds = "padded_digits 2 (nat h)" and ?rest = "CHR '':'' # show_padded 2 (nat m)"
  have ds: "\<forall>d \<in> set ?ds. d < 10" "digits_val 1 0 ?ds = h" "length ?ds = 2" "?ds \<noteq> []"
    using padded_2_digits [of h] assms padded_digits_props(1) by simp_all
  have parse: "i_from_str 16 (map digit_char ?ds) = Some h"
    using i_from_str_digits [OF ds(4,1), of 16] assms(1,2) by (simp add: ds(2) in_int_def)
  have pre: "integer_prefix (map digit_char ?ds @ ?rest) = (map digit_char ?ds, ?rest)"
    by (rule integer_prefix_map_digits [OF ds(1)]) (simp add: is_ascii_digit_def)
  have minute: "minute_frag (show_padded 2 (nat m)) = Inr (m, [])"
    using two_digit_frag_ok [of 0 m 59 "[]"] assms(3,4) by (simp add: minute_frag_def)
  have fine: "13 < h \<Longrightarrow> h = 14 \<and> m = 0" using assms(2,5) by auto
  show ?thesis
    unfolding show_padded_digits [of 2 "nat h"] timezone_frag_def
    using assms(6) by (elim disjE) (simp_all only: if_True if_False, auto simp: pre parse minute expect_char_def ds(3) dest: fine)
qed

lemma timezone_frag_ok:
  assumes "tz_wf z"
  shows "timezone_frag (tz_fmt z) = Inr (z, [])"
proof (cases "tz_offset z = 0")
  case True
  then show ?thesis by (cases z) (simp add: timezone_frag_def tz_fmt_def tz_UTC_def)
next
  case False
  define c a where "c = (if tz_offset z < 0 then CHR ''-'' else CHR ''+'')" and "a = \<bar>tz_offset z\<bar>"
  have a: "0 < a" "a \<le> 840" using assms False by (auto simp: tz_wf_def a_def)
  have hm: "0 \<le> a div 60" "a div 60 \<le> 14" "0 \<le> a mod 60" "a mod 60 < 60" "a div 60 = 14 \<longrightarrow> a mod 60 = 0"
    using a by presburger+
  have fmt: "tz_fmt z = c # show_padded 2 (nat (a div 60)) @ CHR '':'' # show_padded 2 (nat (a mod 60))"
    using False sdiv_nonneg [of "- tz_offset z" 60] smod_nonneg [of "- tz_offset z" 60]
    by (simp add: tz_fmt_def Let_def c_def a_def sdiv_nonneg smod_nonneg)
  have "(if c = CHR ''-'' then - 1 else 1) * (a div 60 * 60 + a mod 60) = tz_offset z" by (simp add: c_def a_def)
  moreover have "tz_new (tz_offset z) = Inr z"
    using assms by (cases z) (simp add: tz_new_def tz_wf_def tz_MIN_def tz_MAX_def)
  ultimately show ?thesis
    unfolding fmt by (subst timezone_frag_signed [OF hm]) (simp_all only: map_ok_simps map_err_simps, simp add: c_def)
qed

section \<open>Seconds\<close>

lemma digits_val_bound:
  assumes "\<forall>d \<in> set ds. d < 10"
  shows "digits_val 1 0 ds < 10 ^ length ds"
  using assms
proof (induction ds rule: rev_induct)
  case (snoc d ds)
  then have "digits_val 1 0 ds * 10 + int d < (10 ^ length ds - 1) * 10 + 10" by auto
  then show ?case by (simp add: digits_val_append)
qed simp

lemma digits_val_leading:
  assumes "hd ds \<noteq> 0" "ds \<noteq> []"
  shows "10 ^ (length ds - 1) \<le> digits_val 1 0 ds"
proof -
  obtain d es where ds: "ds = d # es" using assms(2) by (cases ds) auto
  have "(10 :: int) ^ length es \<le> int d * 10 ^ length es" using assms(1) ds by simp
  moreover have "digits_val 1 0 ds = int d * 10 ^ length es + digits_val 1 0 es" by (simp add: ds digits_val_acc [of 1 "int d" es])
  ultimately have "10 ^ length es \<le> digits_val 1 0 ds" using digits_val_nonneg [of 0 es] by linarith
  then show ?thesis by (simp add: ds)
qed

lemma integer_part_length:
  assumes "ds \<noteq> []" "\<forall>d \<in> set ds. d < 10" "length ds = 1 \<or> hd ds \<noteq> 0" "digits_val 1 0 ds < 100"
  shows "length ds = (if digits_val 1 0 ds < 10 then 1 else 2)"
proof (cases "length ds = 1")
  case True
  then show ?thesis using digits_val_bound [OF assms(2)] by simp
next
  case False
  then have le: "10 ^ (length ds - 1) \<le> digits_val 1 0 ds" using assms(1,3) digits_val_leading by blast
  have "2 \<le> length ds" using assms(1) False by (cases ds) (auto simp: Suc_le_eq)
  moreover have "length ds < 3"
  proof (rule ccontr)
    assume "\<not> length ds < 3"
    then have "(10 :: int) ^ 2 \<le> 10 ^ (length ds - 1)" by (intro power_increasing) auto
    then show False using le assms(4) by simp
  qed
  ultimately have "length ds = 2" by simp
  then show ?thesis using le by simp
qed

lemma digits_split:
  fixes I F :: "nat list"
  assumes "\<forall>d \<in> set F. d < 10" "length F \<le> 18" "digits_val 1 0 (I @ F) * 10 ^ (18 - length F) = v"
  obtains r where "v = digits_val 1 0 I * 10 ^ 18 + r" "0 \<le> r" "r < 10 ^ 18"
proof -
  let ?k = "18 - length F"
  have F: "0 \<le> digits_val 1 0 F" "digits_val 1 0 F < 10 ^ length F" using assms(1) digits_val_nonneg digits_val_bound by auto
  have p: "(10 :: int) ^ 18 = 10 ^ length F * 10 ^ ?k" using assms(2) by (simp only: power_add [symmetric]) simp
  have "v = digits_val 1 0 I * (10 ^ length F * 10 ^ ?k) + digits_val 1 0 F * 10 ^ ?k"
    using assms(3) digits_val_acc [of 1 "digits_val 1 0 I" F] by (simp only: digits_val_append distrib_right mult.assoc)
  moreover have "digits_val 1 0 F * 10 ^ ?k < 10 ^ length F * 10 ^ ?k" using F by (intro mult_strict_right_mono) simp_all
  ultimately show ?thesis using that [of "digits_val 1 0 F * 10 ^ ?k"] F(1) unfolding p by simp
qed

lemma second_frag_number:
  fixes I F :: "nat list"
  assumes d: "\<forall>d \<in> set (I @ F). d < 10" "length I = 2"
    and rest: "rest = [] \<or> \<not> is_ascii_digit (hd rest) \<and> hd rest \<noteq> CHR ''.''"
    and parse: "decimal_from_str (map digit_char I @ (if F = [] then [] else ''.'' @ map digit_char F)) = Inr n"
    and n: "0 \<le> dec_value n" "dec_value n < 60 * DECIMAL_PART_POW"
  shows "second_frag ((map digit_char I @ (if F = [] then [] else ''.'' @ map digit_char F)) @ rest) = Inr (n, rest)"
proof -
  let ?num = "map digit_char I @ (if F = [] then [] else ''.'' @ map digit_char F)"
  have prefix: "decimal_prefix (?num @ rest) = (?num, rest)"
  proof (cases rest)
    case Nil
    then show ?thesis using d(1) decimal_prefix_digits [of F True "[]"] decimal_prefix_digits [of I False "[]"]
      by (auto simp: decimal_prefix_def decimal_prefix_digits)
  next
    case (Cons c cs)
    then show ?thesis using rest decimal_prefix_number [OF d(1), of c cs] by simp
  qed
  have dot: "digit_char d \<noteq> CHR ''.''" if "d \<in> set (I @ F)" for d using that d(1) digit_char_props by fastforce
  then have before: "takeWhile (\<lambda>c. c \<noteq> CHR ''.'') ?num = map digit_char I"
    by (subst takeWhile_append2) auto
  have "last ?num \<in> digit_char ` set (I @ F)" using d(2) by (cases "F = []"; cases "I = []") (auto simp: last_map)
  then have last: "last ?num \<noteq> CHR ''.''" using dot by (metis imageE)
  have bounds: "\<not> (dec_value n < dec_value (decimal_from 0) \<or> dec_value n \<ge> dec_value (decimal_from 60))"
    using n by (simp add: decimal_from_def)
  show ?thesis
    unfolding second_frag_def prefix prod.case Let_def before parse using d(2) last bounds by simp
qed

lemma second_frag_ok:
  assumes wf: "dec_wf d" and d: "0 \<le> dec_value d" "dec_value d < 60 * DECIMAL_PART_POW"
    and rest: "rest = [] \<or> \<not> is_ascii_digit (hd rest) \<and> hd rest \<noteq> CHR ''.''"
  obtains s where "second_fmt d = Some s" "second_frag (s @ rest) = Inr (d, rest)"
proof -
  obtain I F where IF: "decimal_to_string d = Some (map digit_char I @ (if F = [] then [] else ''.'' @ map digit_char F))"
    "I \<noteq> []" "\<forall>d \<in> set (I @ F). d < 10" "digits_val 1 0 (I @ F) * 10 ^ (18 - length F) = dec_value d"
    "length F \<le> 18" "F = [] \<or> last F \<noteq> 0" "length I = 1 \<or> hd I \<noteq> 0"
    using d(1) by (rule_tac decimal_text [OF wf]) simp
  define J where "J = (if dec_value d < 10 * DECIMAL_PART_POW then 0 # I else I)"
  obtain r where r: "dec_value d = digits_val 1 0 I * 10 ^ 18 + r" "0 \<le> r" "r < 10 ^ 18"
    using digits_split [OF _ IF(5,4)] IF(3) by auto
  have small: "digits_val 1 0 I < 10 \<longleftrightarrow> dec_value d < 10 * DECIMAL_PART_POW" "digits_val 1 0 I < 100"
    using r [simplified] d(2) unfolding decimal_consts by - ((rule iffI; linarith), linarith)
  have len: "length J = 2" using integer_part_length [OF IF(2) _ IF(7) small(2)] IF(3) small(1) by (auto simp: J_def)
  have J: "J \<noteq> []" "\<forall>d \<in> set (J @ F). d < 10" "dec_value d = digits_val 1 0 (J @ F) * 10 ^ (18 - length F)"
    using len IF(3,4) by (auto simp: J_def)
  have "decimal_from_str (map digit_char J @ (if F = [] then [] else ''.'' @ map digit_char F)) = Inr d"
    using decimal_from_str_canonical [OF J(1,2) IF(6,5), of 1 "dec_value d"] J(3) wf by (simp add: dec_wf_def)
  from second_frag_number [OF J(2) len rest this d]
  have "second_frag ((map digit_char J @ (if F = [] then [] else ''.'' @ map digit_char F)) @ rest) = Inr (d, rest)" .
  moreover have "second_fmt d = Some (map digit_char J @ (if F = [] then [] else ''.'' @ map digit_char F))"
    using d IF(1) digit_char_eq_0 [of 0] by (simp add: second_fmt_def decimal_from_def J_def)
  ultimately show ?thesis using that by blast
qed

section \<open>Round trip\<close>

lemma time_of_day_ok:
  assumes hm: "0 \<le> hr" "hr < 24" "0 \<le> mi" "mi < 60" and se: "second_frag (sec @ rest) = Inr (se, rest)"
  shows "time_of_day_rep (show_padded 2 (nat hr) @ '':'' @ show_padded 2 (nat mi) @ '':'' @ sec @ rest) = Inr ((hr, mi, se), rest)"
proof -
  have "hour_frag (show_padded 2 (nat hr) @ CHR '':'' # show_padded 2 (nat mi) @ CHR '':'' # sec @ rest) =
      Inr (hr, CHR '':'' # show_padded 2 (nat mi) @ CHR '':'' # sec @ rest)"
    unfolding hour_frag_def using hm by (intro two_digit_frag_ok) simp_all
  moreover have "minute_frag (show_padded 2 (nat mi) @ CHR '':'' # sec @ rest) = Inr (mi, CHR '':'' # sec @ rest)"
    unfolding minute_frag_def using hm by (intro two_digit_frag_ok) simp_all
  ultimately show ?thesis using hm(2) se by (simp add: time_of_day_rep_def expect_char_def)
qed

lemma tz_fmt_start: "tz_fmt z \<noteq> []" "\<not> is_ascii_digit (hd (tz_fmt z))" "hd (tz_fmt z) \<noteq> CHR ''.''"
  by (simp_all add: tz_fmt_def Let_def)

lemma opt_tz_frag_ok:
  assumes "\<And>x. z = Some x \<Longrightarrow> tz_wf x"
  shows "optional_end (opt_tz_fmt z) timezone_frag = Inr (z, [])"
  using assms timezone_frag_ok tz_fmt_start(1) by (cases z) (auto simp: optional_end_def opt_tz_fmt_def)

lemma date_time_lexical_ok:
  assumes y: "\<bar>y\<bar> < 2 ^ 63" and date: "valid_date y m d" and hm: "0 \<le> hr" "hr < 24" "0 \<le> mi" "mi < 60"
    and se: "second_frag (sec @ opt_tz_fmt z) = Inr (se, opt_tz_fmt z)" and z: "\<And>x. z = Some x \<Longrightarrow> tz_wf x"
  shows "date_time_from_str (year_fmt y @ ''-'' @ show_padded 2 (nat m) @ ''-'' @ show_padded 2 (nat d) @ ''T'' @
      show_padded 2 (nat hr) @ '':'' @ show_padded 2 (nat mi) @ '':'' @ sec @ opt_tz_fmt z) =
    map_err Overflow (date_time_from_seven_property_model y m d hr mi se z)"
proof -
  define rest where "rest = show_padded 2 (nat hr) @ '':'' @ show_padded 2 (nat mi) @ '':'' @ sec @ opt_tz_fmt z"
  have md: "1 \<le> m" "m \<le> 12" "1 \<le> d" "d \<le> days_in_month (Some y) m" "d \<le> 31"
    using date days_in_month_bounds(2) [of "Some y" m] by (auto simp: valid_date_def)
  have "year_frag (year_fmt y @ CHR ''-'' # show_padded 2 (nat m) @ CHR ''-'' # show_padded 2 (nat d) @ CHR ''T'' # rest) =
      Inr (y, CHR ''-'' # show_padded 2 (nat m) @ CHR ''-'' # show_padded 2 (nat d) @ CHR ''T'' # rest)"
    by (rule year_frag_ok [OF y]) simp
  moreover have "month_frag (show_padded 2 (nat m) @ CHR ''-'' # show_padded 2 (nat d) @ CHR ''T'' # rest) =
      Inr (m, CHR ''-'' # show_padded 2 (nat d) @ CHR ''T'' # rest)"
    unfolding month_frag_def using md by (intro two_digit_frag_ok) simp_all
  moreover have "day_frag (show_padded 2 (nat d) @ CHR ''T'' # rest) = Inr (d, CHR ''T'' # rest)"
    unfolding day_frag_def using md by (intro two_digit_frag_ok) simp_all
  moreover have "validate_day_of_month (Some y) m d = Inr ()" using md(4) by (simp add: validate_day_of_month_def)
  moreover have "time_of_day_rep rest = Inr ((hr, mi, se), opt_tz_fmt z)" unfolding rest_def by (rule time_of_day_ok [OF hm se])
  ultimately have "date_time_lexical_rep (year_fmt y @ ''-'' @ show_padded 2 (nat m) @ ''-'' @ show_padded 2 (nat d) @ ''T'' @ rest) =
      map_ok (\<lambda>dt. (dt, [])) (map_err Overflow (date_time_from_seven_property_model y m d hr mi se z))"
    using opt_tz_frag_ok [OF z] by (simp add: date_time_lexical_rep_def expect_char_def)
  then show ?thesis
    unfolding rest_def [symmetric] date_time_from_str_def ensure_complete_def
    by (cases "date_time_from_seven_property_model y m d hr mi se z") simp_all
qed

text \<open>C26: The printed form of a date and time is read back as the same value, time zone included, for every well-formed timestamp
  whose value is within \<open>2^120\<close> units of \<open>10^-18\<close> seconds of the origin, about forty thousand million years to either side. (Not
  for the extremes of the type: the printed least value is not read back.) The exception is the one of the components: before
  year one, in the last second of a minute, the printed form names the minute after.\<close>

theorem date_time_display_parse:
  assumes "ts_wf t" "- (2 ^ 120) \<le> dec_value (ts_value t)" "dec_value (ts_value t) \<le> 2 ^ 120"
  shows "\<exists>s. date_time_fmt \<lparr>date_time_timestamp = t\<rparr> = Some s \<and> date_time_from_str s = Inr \<lparr>date_time_timestamp =
    (if dec_value (ts_value t) < 0 \<and> dec_value (ts_second t) > 59 * DECIMAL_PART_POW
     then t\<lparr>ts_value := \<lparr>dec_value = dec_value (ts_value t) + 60 * DECIMAL_PART_POW\<rparr>\<rparr>
     else t)\<rparr>"
proof -
  let ?z = "ts_timezone_offset t"
  note c = ts_components [OF assms(1)]
  have hm: "0 \<le> ts_hour t" "ts_hour t < 24" "0 \<le> ts_minute t" "ts_minute t < 60"
    unfolding c(3,4) by (simp_all add: pos_imp_zdiv_nonneg_iff)
  have y: "\<bar>ts_year t\<bar> < 2 ^ 63" using ts_year_bound [OF assms(1)] by simp
  have z: "tz_wf x" if "?z = Some x" for x using assms(1) that by (simp add: ts_wf_def)
  have rest: "opt_tz_fmt ?z = [] \<or> \<not> is_ascii_digit (hd (opt_tz_fmt ?z)) \<and> hd (opt_tz_fmt ?z) \<noteq> CHR ''.''"
    using tz_fmt_start by (cases ?z) (simp_all add: opt_tz_fmt_def)
  have s: "dec_value (ts_second t) = dec_value (ts_value t) mod MINUTE" using assms(1) by (simp add: ts_second_eq ts_wf_def)
  have sb: "0 \<le> dec_value (ts_second t)" "dec_value (ts_second t) < MINUTE" unfolding s by simp_all
  have "dec_wf (ts_second t)" using sb unfolding dec_wf_def in_int_def by simp
  from second_frag_ok [OF this sb rest] obtain sec where sec: "second_fmt (ts_second t) = Some sec"
    "second_frag (sec @ opt_tz_fmt ?z) = Inr (ts_second t, opt_tz_fmt ?z)" by blast
  note parse = date_time_lexical_ok [OF y c(1) hm sec(2) z]
  have "date_time_from_seven_property_model (ts_year t) (ts_month t) (ts_day t) (ts_hour t) (ts_minute t) (ts_second t) ?z =
      map_ok (\<lambda>t. \<lparr>date_time_timestamp = t\<rparr>) (ts_from_seven_property_model (date_time_properties \<lparr>date_time_timestamp = t\<rparr>))"
    by (simp add: date_time_from_seven_property_model_def date_time_properties_def Let_def)
  then show ?thesis
    using parse sec(1) by (simp add: date_time_fmt_def Let_def ts_rebuild_cases [OF assms] del: decimal_consts)
qed

theorem date_time_display_parse_witness:
  "\<exists>s. date_time_fmt \<lparr>date_time_timestamp = \<lparr>ts_value = \<lparr>dec_value = 63087469199500000000000000000\<rparr>, ts_timezone_offset = Some \<lparr>tz_offset = -60\<rparr>\<rparr>\<rparr> = Some s \<and>
     date_time_from_str s = Inr \<lparr>date_time_timestamp = \<lparr>ts_value = \<lparr>dec_value = 63087469199500000000000000000\<rparr>, ts_timezone_offset = Some \<lparr>tz_offset = -60\<rparr>\<rparr>\<rparr>"
proof -
  let ?t = "\<lparr>ts_value = \<lparr>dec_value = 63087469199500000000000000000\<rparr>, ts_timezone_offset = Some \<lparr>tz_offset = -60\<rparr>\<rparr>"
  have "ts_wf ?t" by (simp add: ts_wf_def dec_wf_def in_int_def tz_wf_def)
  from date_time_display_parse [OF this] show ?thesis by simp
qed

end
