(* ===== verification/Xsd_Date_Types.thy ===== *)
theory Xsd_Date_Types
  imports Xsd_DateTime_Text
begin

text \<open>
  The date types that hold part of a date and time (\<open>lib/common/src/xsd/date_time.rs\<close>): \<open>Time\<close>,
  \<open>Date\<close>, \<open>GYearMonth\<close>, \<open>GYear\<close>, \<open>GMonthDay\<close>, \<open>GMonth\<close> and \<open>GDay\<close>. Each wraps the timestamp
  of a representative instant. Shown: the printed form of every value is read back as that value,
  the clock arithmetic of times wraps around at midnight without a panic, and adding time to a
  date moves it by whole days.
\<close>

section \<open>Constants\<close>

text \<open>\<open>Decimal::new_from_i128_unchecked\<close>; the product is computed at compile time, where an
  overflow does not compile.\<close>

definition decimal_new_from_i128_unchecked :: "int \<Rightarrow> Decimal" where
  "decimal_new_from_i128_unchecked v = \<lparr>dec_value = v * DECIMAL_PART_POW\<rparr>"

section \<open>Time\<close>

record Time =
  time_timestamp :: Timestamp

definition time_new :: "Timestamp \<Rightarrow> Time" where
  "time_new timestamp = \<lparr>time_timestamp = timestamp\<rparr>"

definition time_from_parts ::
  "int \<Rightarrow> int \<Rightarrow> Decimal \<Rightarrow> TimezoneOffset option \<Rightarrow> (DateTimeOverflowError, Time) result" where
  "time_from_parts hour minute second timezone_offset =
     (let hour = (if hour = 24 \<and> minute = 0 \<and> second = decimal_default then 0 else hour)
      in map_ok (\<lambda>t. \<lparr>time_timestamp = t\<rparr>)
           (ts_from_seven_property_model \<lparr>p_year = None, p_month = None, p_day = None, p_hour = Some hour,
              p_minute = Some minute, p_second = Some second, p_timezone_offset = timezone_offset\<rparr>))"

definition time_from_be_bytes :: "nat list \<Rightarrow> Time" where
  "time_from_be_bytes bytes = \<lparr>time_timestamp = ts_from_be_bytes bytes\<rparr>"

definition time_hour :: "Time \<Rightarrow> int" where
  "time_hour self = ts_hour (time_timestamp self)"

definition time_minute :: "Time \<Rightarrow> int" where
  "time_minute self = ts_minute (time_timestamp self)"

definition time_second :: "Time \<Rightarrow> Decimal" where
  "time_second self = ts_second (time_timestamp self)"

definition time_timezone_offset :: "Time \<Rightarrow> TimezoneOffset option" where
  "time_timezone_offset self = ts_timezone_offset (time_timestamp self)"

definition time_timezone :: "Time \<Rightarrow> DayTimeDuration option" where
  "time_timezone self = map_option dt_from_tz (time_timezone_offset self)"

definition time_to_be_bytes :: "Time \<Rightarrow> nat list" where
  "time_to_be_bytes self = ts_to_be_bytes (time_timestamp self)"

definition time_checked_sub :: "Time \<Rightarrow> Time \<Rightarrow> DayTimeDuration thin_result" where
  "time_checked_sub self rhs = ts_checked_sub (time_timestamp self) (time_timestamp rhs)"

text \<open>\<open>From<DateTime>\<close> panics when the time is out of range: \<^term>\<open>None\<close>.\<close>

definition time_from_date_time :: "DateTime \<Rightarrow> Time option" where
  "time_from_date_time date_time =
     (let t = date_time_timestamp date_time
      in ok (time_from_parts (ts_hour t) (ts_minute t) (ts_second t) (ts_timezone_offset t)))"

text \<open>A time as a date and time on 31 December 1972, and an operation of date and time on it; the
  outer option is the panic of the conversion back.\<close>

definition time_on_day :: "Time \<Rightarrow> DateTime thin_result" where
  "time_on_day self =
     map_err (\<lambda>_. ExpectedError) (date_time_from_seven_property_model 1972 12 31 (time_hour self) (time_minute self)
       (time_second self) (time_timezone_offset self))"

definition into_time :: "DateTime thin_result \<Rightarrow> Time thin_result option" where
  "into_time r = (case r of Inl e \<Rightarrow> Some (Inl e) | Inr dt \<Rightarrow> map_option Inr (time_from_date_time dt))"

definition time_checked_add_duration :: "Time \<Rightarrow> Duration \<Rightarrow> Time thin_result option" where
  "time_checked_add_duration self rhs =
     into_time (and_then (time_on_day self) (\<lambda>dt. date_time_checked_add_duration dt rhs))"

definition time_checked_add_day_time_duration :: "Time \<Rightarrow> DayTimeDuration \<Rightarrow> Time thin_result option" where
  "time_checked_add_day_time_duration self rhs = time_checked_add_duration self (duration_from_dt rhs)"

definition time_checked_sub_duration :: "Time \<Rightarrow> Duration \<Rightarrow> Time thin_result option" where
  "time_checked_sub_duration self rhs =
     into_time (and_then (time_on_day self) (\<lambda>dt. date_time_checked_sub_duration dt rhs))"

definition time_checked_sub_day_time_duration :: "Time \<Rightarrow> DayTimeDuration \<Rightarrow> Time thin_result option" where
  "time_checked_sub_day_time_duration self rhs = time_checked_sub_duration self (duration_from_dt rhs)"

definition time_adjust :: "Time \<Rightarrow> TimezoneOffset option \<Rightarrow> Time thin_result option" where
  "time_adjust self timezone_offset =
     into_time (and_then (time_on_day self) (\<lambda>dt. date_time_adjust dt timezone_offset))"

definition time_is_identical_with :: "Time \<Rightarrow> Time \<Rightarrow> bool" where
  "time_is_identical_with self other = ts_is_identical_with (time_timestamp self) (time_timestamp other)"

definition time_lexical_rep :: "string \<Rightarrow> (ParseDateTimeError, Time \<times> string) result" where
  "time_lexical_rep input =
     and_then (time_of_day_rep input) (\<lambda>((hour, minute, second), input).
     and_then (optional_end input timezone_frag) (\<lambda>(timezone_offset, input).
     map_ok (\<lambda>t. (t, input)) (map_err Overflow (time_from_parts hour minute second timezone_offset))))"

definition time_from_str :: "string \<Rightarrow> (ParseDateTimeError, Time) result" where
  "time_from_str input = ensure_complete input time_lexical_rep"

definition time_fmt :: "Time \<Rightarrow> string option" where
  "time_fmt self =
     map_option (\<lambda>sec. show_padded 2 (nat (time_hour self)) @ '':'' @ show_padded 2 (nat (time_minute self)) @ '':'' @ sec @
         opt_tz_fmt (time_timezone_offset self))
       (second_fmt (time_second self))"

section \<open>Date\<close>

record Date =
  date_timestamp :: Timestamp

definition date_MAX :: Date where
  "date_MAX = \<lparr>date_timestamp = \<lparr>ts_value = decimal_new_from_i128_unchecked 170141183460469216800, ts_timezone_offset = Some tz_MAX\<rparr>\<rparr>"

definition date_MIN :: Date where
  "date_MIN = \<lparr>date_timestamp = \<lparr>ts_value = decimal_new_from_i128_unchecked (- 170141183460469216800), ts_timezone_offset = Some tz_MIN\<rparr>\<rparr>"

definition date_new :: "Timestamp \<Rightarrow> Date" where
  "date_new timestamp = \<lparr>date_timestamp = timestamp\<rparr>"

definition date_from_parts ::
  "int \<Rightarrow> int \<Rightarrow> int \<Rightarrow> TimezoneOffset option \<Rightarrow> (DateTimeOverflowError, Date) result" where
  "date_from_parts year month day timezone_offset =
     map_ok (\<lambda>t. \<lparr>date_timestamp = t\<rparr>)
       (ts_from_seven_property_model \<lparr>p_year = Some year, p_month = Some month, p_day = Some day, p_hour = None,
          p_minute = None, p_second = None, p_timezone_offset = timezone_offset\<rparr>)"

definition date_from_be_bytes :: "nat list \<Rightarrow> Date" where
  "date_from_be_bytes bytes = \<lparr>date_timestamp = ts_from_be_bytes bytes\<rparr>"

definition date_year :: "Date \<Rightarrow> int" where
  "date_year self = ts_year (date_timestamp self)"

definition date_month :: "Date \<Rightarrow> int" where
  "date_month self = ts_month (date_timestamp self)"

definition date_day :: "Date \<Rightarrow> int" where
  "date_day self = ts_day (date_timestamp self)"

definition date_timezone_offset :: "Date \<Rightarrow> TimezoneOffset option" where
  "date_timezone_offset self = ts_timezone_offset (date_timestamp self)"

definition date_timezone :: "Date \<Rightarrow> DayTimeDuration option" where
  "date_timezone self = map_option dt_from_tz (date_timezone_offset self)"

definition date_to_be_bytes :: "Date \<Rightarrow> nat list" where
  "date_to_be_bytes self = ts_to_be_bytes (date_timestamp self)"

definition date_checked_sub :: "Date \<Rightarrow> Date \<Rightarrow> DayTimeDuration thin_result" where
  "date_checked_sub self rhs = ts_checked_sub (date_timestamp self) (date_timestamp rhs)"

definition date_time_try_from_date :: "Date \<Rightarrow> (DateTimeOverflowError, DateTime) result" where
  "date_time_try_from_date date =
     date_time_from_seven_property_model (date_year date) (date_month date) (date_day date) 0 0 decimal_default
       (date_timezone_offset date)"

definition date_try_from_date_time :: "DateTime \<Rightarrow> (DateTimeOverflowError, Date) result" where
  "date_try_from_date_time date_time =
     (let t = date_time_timestamp date_time
      in date_from_parts (ts_year t) (ts_month t) (ts_day t) (ts_timezone_offset t))"

definition date_via :: "(DateTime \<Rightarrow> DateTime thin_result) \<Rightarrow> Date \<Rightarrow> Date thin_result" where
  "date_via f self =
     and_then (map_err (\<lambda>_. ExpectedError) (date_time_try_from_date self)) (\<lambda>dt.
     and_then (f dt) (\<lambda>dt. map_err (\<lambda>_. ExpectedError) (date_try_from_date_time dt)))"

definition date_checked_add_duration :: "Date \<Rightarrow> Duration \<Rightarrow> Date thin_result" where
  "date_checked_add_duration self rhs = date_via (\<lambda>dt. date_time_checked_add_duration dt rhs) self"

definition date_checked_add_year_month_duration :: "Date \<Rightarrow> YearMonthDuration \<Rightarrow> Date thin_result" where
  "date_checked_add_year_month_duration self rhs = date_checked_add_duration self (duration_from_ym rhs)"

definition date_checked_add_day_time_duration :: "Date \<Rightarrow> DayTimeDuration \<Rightarrow> Date thin_result" where
  "date_checked_add_day_time_duration self rhs = date_checked_add_duration self (duration_from_dt rhs)"

definition date_checked_sub_duration :: "Date \<Rightarrow> Duration \<Rightarrow> Date thin_result" where
  "date_checked_sub_duration self rhs = date_via (\<lambda>dt. date_time_checked_sub_duration dt rhs) self"

definition date_checked_sub_year_month_duration :: "Date \<Rightarrow> YearMonthDuration \<Rightarrow> Date thin_result" where
  "date_checked_sub_year_month_duration self rhs = date_checked_sub_duration self (duration_from_ym rhs)"

definition date_checked_sub_day_time_duration :: "Date \<Rightarrow> DayTimeDuration \<Rightarrow> Date thin_result" where
  "date_checked_sub_day_time_duration self rhs = date_checked_sub_duration self (duration_from_dt rhs)"

definition date_adjust :: "Date \<Rightarrow> TimezoneOffset option \<Rightarrow> Date thin_result" where
  "date_adjust self timezone_offset =
     and_then (map_err (\<lambda>_. ExpectedError) (date_time_from_seven_property_model (date_year self) (date_month self)
       (date_day self) 0 0 decimal_default (date_timezone_offset self))) (\<lambda>dt.
     and_then (date_time_adjust dt timezone_offset) (\<lambda>dt. map_err (\<lambda>_. ExpectedError) (date_try_from_date_time dt)))"

definition date_is_identical_with :: "Date \<Rightarrow> Date \<Rightarrow> bool" where
  "date_is_identical_with self other = ts_is_identical_with (date_timestamp self) (date_timestamp other)"

definition date_lexical_rep :: "string \<Rightarrow> (ParseDateTimeError, Date \<times> string) result" where
  "date_lexical_rep input =
     and_then (year_frag input) (\<lambda>(year, input).
     and_then (expect_char input (CHR ''-'') (''The year and month must be separated by '-'' @ [CHR 0x27])) (\<lambda>input.
     and_then (month_frag input) (\<lambda>(month, input).
     and_then (expect_char input (CHR ''-'') (''The month and day must be separated by '-'' @ [CHR 0x27])) (\<lambda>input.
     and_then (day_frag input) (\<lambda>(day, input).
     and_then (optional_end input timezone_frag) (\<lambda>(timezone_offset, input).
     and_then (validate_day_of_month (Some year) month day) (\<lambda>_.
     map_ok (\<lambda>d. (d, input)) (map_err Overflow (date_from_parts year month day timezone_offset)))))))))"

definition date_from_str :: "string \<Rightarrow> (ParseDateTimeError, Date) result" where
  "date_from_str input = ensure_complete input date_lexical_rep"

definition date_fmt :: "Date \<Rightarrow> string" where
  "date_fmt self =
     year_fmt (date_year self) @ ''-'' @ show_padded 2 (nat (date_month self)) @ ''-'' @ show_padded 2 (nat (date_day self)) @
     opt_tz_fmt (date_timezone_offset self)"

section \<open>GYearMonth\<close>

record GYearMonth =
  g_year_month_timestamp :: Timestamp

definition g_year_month_MAX :: GYearMonth where
  "g_year_month_MAX = \<lparr>g_year_month_timestamp = \<lparr>ts_value = decimal_new_from_i128_unchecked 170141183460469216800, ts_timezone_offset = Some tz_MAX\<rparr>\<rparr>"

definition g_year_month_MIN :: GYearMonth where
  "g_year_month_MIN = \<lparr>g_year_month_timestamp = \<lparr>ts_value = decimal_new_from_i128_unchecked (- 170141183460466970400), ts_timezone_offset = Some tz_MIN\<rparr>\<rparr>"

definition g_year_month_new :: "int \<Rightarrow> int \<Rightarrow> TimezoneOffset option \<Rightarrow> (DateTimeOverflowError, GYearMonth) result" where
  "g_year_month_new year month timezone_offset =
     map_ok (\<lambda>t. \<lparr>g_year_month_timestamp = t\<rparr>)
       (ts_from_seven_property_model \<lparr>p_year = Some year, p_month = Some month, p_day = None, p_hour = None, p_minute = None, p_second = None, p_timezone_offset = timezone_offset\<rparr>)"

definition g_year_month_from_be_bytes :: "nat list \<Rightarrow> GYearMonth" where
  "g_year_month_from_be_bytes bytes = \<lparr>g_year_month_timestamp = ts_from_be_bytes bytes\<rparr>"

definition g_year_month_year_of :: "GYearMonth \<Rightarrow> int" where
  "g_year_month_year_of self = ts_year (g_year_month_timestamp self)"

definition g_year_month_month_of :: "GYearMonth \<Rightarrow> int" where
  "g_year_month_month_of self = ts_month (g_year_month_timestamp self)"

definition g_year_month_timezone_offset :: "GYearMonth \<Rightarrow> TimezoneOffset option" where
  "g_year_month_timezone_offset self = ts_timezone_offset (g_year_month_timestamp self)"

definition g_year_month_timezone :: "GYearMonth \<Rightarrow> DayTimeDuration option" where
  "g_year_month_timezone self = map_option dt_from_tz (g_year_month_timezone_offset self)"

definition g_year_month_adjust :: "GYearMonth \<Rightarrow> TimezoneOffset option \<Rightarrow> GYearMonth thin_result" where
  "g_year_month_adjust self timezone_offset = map_ok (\<lambda>t. \<lparr>g_year_month_timestamp = t\<rparr>) (ts_adjust (g_year_month_timestamp self) timezone_offset)"

definition g_year_month_to_be_bytes :: "GYearMonth \<Rightarrow> nat list" where
  "g_year_month_to_be_bytes self = ts_to_be_bytes (g_year_month_timestamp self)"

definition g_year_month_is_identical_with :: "GYearMonth \<Rightarrow> GYearMonth \<Rightarrow> bool" where
  "g_year_month_is_identical_with self other = ts_is_identical_with (g_year_month_timestamp self) (g_year_month_timestamp other)"

definition g_year_month_try_from_date_time :: "DateTime \<Rightarrow> (DateTimeOverflowError, GYearMonth) result" where
  "g_year_month_try_from_date_time x = g_year_month_new (ts_year (date_time_timestamp x)) (ts_month (date_time_timestamp x)) (ts_timezone_offset (date_time_timestamp x))"

definition g_year_month_from_date :: "Date \<Rightarrow> GYearMonth option" where
  "g_year_month_from_date x = ok (g_year_month_new (date_year x) (date_month x) (date_timezone_offset x))"

definition g_year_month_lexical_rep :: "string \<Rightarrow> (ParseDateTimeError, GYearMonth \<times> string) result" where
  "g_year_month_lexical_rep input =
     and_then (year_frag input) (\<lambda>(year, input).
     and_then (expect_char input (CHR ''-'') (''The year and month must be separated by '-'' @ [CHR 0x27])) (\<lambda>input.
     and_then (month_frag input) (\<lambda>(month, input).
     and_then (optional_end input timezone_frag) (\<lambda>(timezone_offset, input).
     map_ok (\<lambda>d. (d, input)) (map_err Overflow (g_year_month_new year month timezone_offset))))))"

definition g_year_month_from_str :: "string \<Rightarrow> (ParseDateTimeError, GYearMonth) result" where
  "g_year_month_from_str input = ensure_complete input g_year_month_lexical_rep"

definition g_year_month_fmt :: "GYearMonth \<Rightarrow> string" where
  "g_year_month_fmt self = year_fmt (g_year_month_year_of self) @ ''-'' @ show_padded 2 (nat (g_year_month_month_of self)) @ opt_tz_fmt (g_year_month_timezone_offset self)"

section \<open>GYear\<close>

record GYear =
  g_year_timestamp :: Timestamp

definition g_year_MAX :: GYear where
  "g_year_MAX = \<lparr>g_year_timestamp = \<lparr>ts_value = decimal_new_from_i128_unchecked 170141183460461440800, ts_timezone_offset = Some tz_MAX\<rparr>\<rparr>"

definition g_year_MIN :: GYear where
  "g_year_MIN = \<lparr>g_year_timestamp = \<lparr>ts_value = decimal_new_from_i128_unchecked (- 170141183460461700000), ts_timezone_offset = Some tz_MIN\<rparr>\<rparr>"

definition g_year_new :: "int \<Rightarrow> TimezoneOffset option \<Rightarrow> (DateTimeOverflowError, GYear) result" where
  "g_year_new year timezone_offset =
     map_ok (\<lambda>t. \<lparr>g_year_timestamp = t\<rparr>)
       (ts_from_seven_property_model \<lparr>p_year = Some year, p_month = None, p_day = None, p_hour = None, p_minute = None, p_second = None, p_timezone_offset = timezone_offset\<rparr>)"

definition g_year_from_be_bytes :: "nat list \<Rightarrow> GYear" where
  "g_year_from_be_bytes bytes = \<lparr>g_year_timestamp = ts_from_be_bytes bytes\<rparr>"

definition g_year_year_of :: "GYear \<Rightarrow> int" where
  "g_year_year_of self = ts_year (g_year_timestamp self)"

definition g_year_timezone_offset :: "GYear \<Rightarrow> TimezoneOffset option" where
  "g_year_timezone_offset self = ts_timezone_offset (g_year_timestamp self)"

definition g_year_timezone :: "GYear \<Rightarrow> DayTimeDuration option" where
  "g_year_timezone self = map_option dt_from_tz (g_year_timezone_offset self)"

definition g_year_adjust :: "GYear \<Rightarrow> TimezoneOffset option \<Rightarrow> GYear thin_result" where
  "g_year_adjust self timezone_offset = map_ok (\<lambda>t. \<lparr>g_year_timestamp = t\<rparr>) (ts_adjust (g_year_timestamp self) timezone_offset)"

definition g_year_to_be_bytes :: "GYear \<Rightarrow> nat list" where
  "g_year_to_be_bytes self = ts_to_be_bytes (g_year_timestamp self)"

definition g_year_is_identical_with :: "GYear \<Rightarrow> GYear \<Rightarrow> bool" where
  "g_year_is_identical_with self other = ts_is_identical_with (g_year_timestamp self) (g_year_timestamp other)"

definition g_year_try_from_date_time :: "DateTime \<Rightarrow> (DateTimeOverflowError, GYear) result" where
  "g_year_try_from_date_time x = g_year_new (ts_year (date_time_timestamp x)) (ts_timezone_offset (date_time_timestamp x))"

definition g_year_try_from_date :: "Date \<Rightarrow> (DateTimeOverflowError, GYear) result" where
  "g_year_try_from_date x = g_year_new (date_year x) (date_timezone_offset x)"

definition g_year_try_from_g_year_month :: "GYearMonth \<Rightarrow> (DateTimeOverflowError, GYear) result" where
  "g_year_try_from_g_year_month x = g_year_new (g_year_month_year_of x) (g_year_month_timezone_offset x)"

definition g_year_lexical_rep :: "string \<Rightarrow> (ParseDateTimeError, GYear \<times> string) result" where
  "g_year_lexical_rep input =
     and_then (year_frag input) (\<lambda>(year, input).
     and_then (optional_end input timezone_frag) (\<lambda>(timezone_offset, input).
     map_ok (\<lambda>d. (d, input)) (map_err Overflow (g_year_new year timezone_offset))))"

definition g_year_from_str :: "string \<Rightarrow> (ParseDateTimeError, GYear) result" where
  "g_year_from_str input = ensure_complete input g_year_lexical_rep"

definition g_year_fmt :: "GYear \<Rightarrow> string" where
  "g_year_fmt self = year_fmt (g_year_year_of self) @ opt_tz_fmt (g_year_timezone_offset self)"

section \<open>GMonthDay\<close>

record GMonthDay =
  g_month_day_timestamp :: Timestamp

definition g_month_day_new :: "int \<Rightarrow> int \<Rightarrow> TimezoneOffset option \<Rightarrow> (DateTimeOverflowError, GMonthDay) result" where
  "g_month_day_new month day timezone_offset =
     map_ok (\<lambda>t. \<lparr>g_month_day_timestamp = t\<rparr>)
       (ts_from_seven_property_model \<lparr>p_year = None, p_month = Some month, p_day = Some day, p_hour = None, p_minute = None, p_second = None, p_timezone_offset = timezone_offset\<rparr>)"

definition g_month_day_from_be_bytes :: "nat list \<Rightarrow> GMonthDay" where
  "g_month_day_from_be_bytes bytes = \<lparr>g_month_day_timestamp = ts_from_be_bytes bytes\<rparr>"

definition g_month_day_month_of :: "GMonthDay \<Rightarrow> int" where
  "g_month_day_month_of self = ts_month (g_month_day_timestamp self)"

definition g_month_day_day_of :: "GMonthDay \<Rightarrow> int" where
  "g_month_day_day_of self = ts_day (g_month_day_timestamp self)"

definition g_month_day_timezone_offset :: "GMonthDay \<Rightarrow> TimezoneOffset option" where
  "g_month_day_timezone_offset self = ts_timezone_offset (g_month_day_timestamp self)"

definition g_month_day_timezone :: "GMonthDay \<Rightarrow> DayTimeDuration option" where
  "g_month_day_timezone self = map_option dt_from_tz (g_month_day_timezone_offset self)"

definition g_month_day_adjust :: "GMonthDay \<Rightarrow> TimezoneOffset option \<Rightarrow> GMonthDay thin_result" where
  "g_month_day_adjust self timezone_offset = map_ok (\<lambda>t. \<lparr>g_month_day_timestamp = t\<rparr>) (ts_adjust (g_month_day_timestamp self) timezone_offset)"

definition g_month_day_to_be_bytes :: "GMonthDay \<Rightarrow> nat list" where
  "g_month_day_to_be_bytes self = ts_to_be_bytes (g_month_day_timestamp self)"

definition g_month_day_is_identical_with :: "GMonthDay \<Rightarrow> GMonthDay \<Rightarrow> bool" where
  "g_month_day_is_identical_with self other = ts_is_identical_with (g_month_day_timestamp self) (g_month_day_timestamp other)"

definition g_month_day_from_date_time :: "DateTime \<Rightarrow> GMonthDay option" where
  "g_month_day_from_date_time x = ok (g_month_day_new (ts_month (date_time_timestamp x)) (ts_day (date_time_timestamp x)) (ts_timezone_offset (date_time_timestamp x)))"

definition g_month_day_from_date :: "Date \<Rightarrow> GMonthDay option" where
  "g_month_day_from_date x = ok (g_month_day_new (date_month x) (date_day x) (date_timezone_offset x))"

definition g_month_day_lexical_rep :: "string \<Rightarrow> (ParseDateTimeError, GMonthDay \<times> string) result" where
  "g_month_day_lexical_rep input =
     and_then (expect_char input (CHR ''-'') (''gMonthDay values must start with '--'' @ [CHR 0x27])) (\<lambda>input.
     and_then (expect_char input (CHR ''-'') (''gMonthDay values must start with '--'' @ [CHR 0x27])) (\<lambda>input.
     and_then (month_frag input) (\<lambda>(month, input).
     and_then (expect_char input (CHR ''-'') (''The month and day must be separated by '-'' @ [CHR 0x27])) (\<lambda>input.
     and_then (day_frag input) (\<lambda>(day, input).
     and_then (optional_end input timezone_frag) (\<lambda>(timezone_offset, input).
     and_then (validate_day_of_month None month day) (\<lambda>_.
     map_ok (\<lambda>d. (d, input)) (map_err Overflow (g_month_day_new month day timezone_offset)))))))))"

definition g_month_day_from_str :: "string \<Rightarrow> (ParseDateTimeError, GMonthDay) result" where
  "g_month_day_from_str input = ensure_complete input g_month_day_lexical_rep"

definition g_month_day_fmt :: "GMonthDay \<Rightarrow> string" where
  "g_month_day_fmt self = ''--'' @ show_padded 2 (nat (g_month_day_month_of self)) @ ''-'' @ show_padded 2 (nat (g_month_day_day_of self)) @ opt_tz_fmt (g_month_day_timezone_offset self)"

section \<open>GMonth\<close>

record GMonth =
  g_month_timestamp :: Timestamp

definition g_month_new :: "int \<Rightarrow> TimezoneOffset option \<Rightarrow> (DateTimeOverflowError, GMonth) result" where
  "g_month_new month timezone_offset =
     map_ok (\<lambda>t. \<lparr>g_month_timestamp = t\<rparr>)
       (ts_from_seven_property_model \<lparr>p_year = None, p_month = Some month, p_day = None, p_hour = None, p_minute = None, p_second = None, p_timezone_offset = timezone_offset\<rparr>)"

definition g_month_from_be_bytes :: "nat list \<Rightarrow> GMonth" where
  "g_month_from_be_bytes bytes = \<lparr>g_month_timestamp = ts_from_be_bytes bytes\<rparr>"

definition g_month_month_of :: "GMonth \<Rightarrow> int" where
  "g_month_month_of self = ts_month (g_month_timestamp self)"

definition g_month_timezone_offset :: "GMonth \<Rightarrow> TimezoneOffset option" where
  "g_month_timezone_offset self = ts_timezone_offset (g_month_timestamp self)"

definition g_month_timezone :: "GMonth \<Rightarrow> DayTimeDuration option" where
  "g_month_timezone self = map_option dt_from_tz (g_month_timezone_offset self)"

definition g_month_adjust :: "GMonth \<Rightarrow> TimezoneOffset option \<Rightarrow> GMonth thin_result" where
  "g_month_adjust self timezone_offset = map_ok (\<lambda>t. \<lparr>g_month_timestamp = t\<rparr>) (ts_adjust (g_month_timestamp self) timezone_offset)"

definition g_month_to_be_bytes :: "GMonth \<Rightarrow> nat list" where
  "g_month_to_be_bytes self = ts_to_be_bytes (g_month_timestamp self)"

definition g_month_is_identical_with :: "GMonth \<Rightarrow> GMonth \<Rightarrow> bool" where
  "g_month_is_identical_with self other = ts_is_identical_with (g_month_timestamp self) (g_month_timestamp other)"

definition g_month_from_date_time :: "DateTime \<Rightarrow> GMonth option" where
  "g_month_from_date_time x = ok (g_month_new (ts_month (date_time_timestamp x)) (ts_timezone_offset (date_time_timestamp x)))"

definition g_month_from_date :: "Date \<Rightarrow> GMonth option" where
  "g_month_from_date x = ok (g_month_new (date_month x) (date_timezone_offset x))"

definition g_month_from_g_year_month :: "GYearMonth \<Rightarrow> GMonth option" where
  "g_month_from_g_year_month x = ok (g_month_new (g_year_month_month_of x) (g_year_month_timezone_offset x))"

definition g_month_from_g_month_day :: "GMonthDay \<Rightarrow> GMonth option" where
  "g_month_from_g_month_day x = ok (g_month_new (g_month_day_month_of x) (g_month_day_timezone_offset x))"

definition g_month_lexical_rep :: "string \<Rightarrow> (ParseDateTimeError, GMonth \<times> string) result" where
  "g_month_lexical_rep input =
     and_then (expect_char input (CHR ''-'') (''gMonth values must start with '--'' @ [CHR 0x27])) (\<lambda>input.
     and_then (expect_char input (CHR ''-'') (''gMonth values must start with '--'' @ [CHR 0x27])) (\<lambda>input.
     and_then (month_frag input) (\<lambda>(month, input).
     and_then (optional_end input timezone_frag) (\<lambda>(timezone_offset, input).
     map_ok (\<lambda>d. (d, input)) (map_err Overflow (g_month_new month timezone_offset))))))"

definition g_month_from_str :: "string \<Rightarrow> (ParseDateTimeError, GMonth) result" where
  "g_month_from_str input = ensure_complete input g_month_lexical_rep"

definition g_month_fmt :: "GMonth \<Rightarrow> string" where
  "g_month_fmt self = ''--'' @ show_padded 2 (nat (g_month_month_of self)) @ opt_tz_fmt (g_month_timezone_offset self)"

section \<open>GDay\<close>

record GDay =
  g_day_timestamp :: Timestamp

definition g_day_new :: "int \<Rightarrow> TimezoneOffset option \<Rightarrow> (DateTimeOverflowError, GDay) result" where
  "g_day_new day timezone_offset =
     map_ok (\<lambda>t. \<lparr>g_day_timestamp = t\<rparr>)
       (ts_from_seven_property_model \<lparr>p_year = None, p_month = None, p_day = Some day, p_hour = None, p_minute = None, p_second = None, p_timezone_offset = timezone_offset\<rparr>)"

definition g_day_from_be_bytes :: "nat list \<Rightarrow> GDay" where
  "g_day_from_be_bytes bytes = \<lparr>g_day_timestamp = ts_from_be_bytes bytes\<rparr>"

definition g_day_day_of :: "GDay \<Rightarrow> int" where
  "g_day_day_of self = ts_day (g_day_timestamp self)"

definition g_day_timezone_offset :: "GDay \<Rightarrow> TimezoneOffset option" where
  "g_day_timezone_offset self = ts_timezone_offset (g_day_timestamp self)"

definition g_day_timezone :: "GDay \<Rightarrow> DayTimeDuration option" where
  "g_day_timezone self = map_option dt_from_tz (g_day_timezone_offset self)"

definition g_day_adjust :: "GDay \<Rightarrow> TimezoneOffset option \<Rightarrow> GDay thin_result" where
  "g_day_adjust self timezone_offset = map_ok (\<lambda>t. \<lparr>g_day_timestamp = t\<rparr>) (ts_adjust (g_day_timestamp self) timezone_offset)"

definition g_day_to_be_bytes :: "GDay \<Rightarrow> nat list" where
  "g_day_to_be_bytes self = ts_to_be_bytes (g_day_timestamp self)"

definition g_day_is_identical_with :: "GDay \<Rightarrow> GDay \<Rightarrow> bool" where
  "g_day_is_identical_with self other = ts_is_identical_with (g_day_timestamp self) (g_day_timestamp other)"

definition g_day_from_date_time :: "DateTime \<Rightarrow> GDay option" where
  "g_day_from_date_time x = ok (g_day_new (ts_day (date_time_timestamp x)) (ts_timezone_offset (date_time_timestamp x)))"

definition g_day_from_date :: "Date \<Rightarrow> GDay option" where
  "g_day_from_date x = ok (g_day_new (date_day x) (date_timezone_offset x))"

definition g_day_from_g_month_day :: "GMonthDay \<Rightarrow> GDay option" where
  "g_day_from_g_month_day x = ok (g_day_new (g_month_day_day_of x) (g_month_day_timezone_offset x))"

definition g_day_lexical_rep :: "string \<Rightarrow> (ParseDateTimeError, GDay \<times> string) result" where
  "g_day_lexical_rep input =
     and_then (expect_char input (CHR ''-'') (''gDay values must start with '---'' @ [CHR 0x27])) (\<lambda>input.
     and_then (expect_char input (CHR ''-'') (''gDay values must start with '---'' @ [CHR 0x27])) (\<lambda>input.
     and_then (expect_char input (CHR ''-'') (''gDay values must start with '---'' @ [CHR 0x27])) (\<lambda>input.
     and_then (day_frag input) (\<lambda>(day, input).
     and_then (optional_end input timezone_frag) (\<lambda>(timezone_offset, input).
     map_ok (\<lambda>d. (d, input)) (map_err Overflow (g_day_new day timezone_offset)))))))"

definition g_day_from_str :: "string \<Rightarrow> (ParseDateTimeError, GDay) result" where
  "g_day_from_str input = ensure_complete input g_day_lexical_rep"

definition g_day_fmt :: "GDay \<Rightarrow> string" where
  "g_day_fmt self = ''---'' @ show_padded 2 (nat (g_day_day_of self)) @ opt_tz_fmt (g_day_timezone_offset self)"

section \<open>Representative timestamps\<close>

text \<open>A missing year is the leap year 1972, a missing month December, a missing day the last of the
  month, a missing time of day midnight.\<close>

lemma time_on_timeline_defaults:
  "time_on_timeline \<lparr>p_year = y, p_month = m, p_day = d, p_hour = h, p_minute = i, p_second = s, p_timezone_offset = z\<rparr> =
   time_on_timeline \<lparr>p_year = Some (unwrap_or y 1972), p_month = Some (unwrap_or m 12),
     p_day = Some (unwrap_or d (days_in_month (Some (unwrap_or y 1972)) (unwrap_or m 12))), p_hour = Some (unwrap_or h 0),
     p_minute = Some (unwrap_or i 0), p_second = Some (unwrap_or s decimal_default), p_timezone_offset = z\<rparr>"
  by (cases y; cases d) (simp_all add: time_on_timeline_def Let_def)

text \<open>The timestamp of midnight, in its own time zone, at the start of a day.\<close>

definition civil :: "int \<Rightarrow> int \<Rightarrow> int \<Rightarrow> TimezoneOffset option \<Rightarrow> Timestamp" where
  "civil y m d z = \<lparr>ts_value = \<lparr>dec_value = (86400 * day_number y m d - 60 * tz_offset (unwrap_or z tz_UTC)) * DECIMAL_PART_POW\<rparr>,
     ts_timezone_offset = z\<rparr>"

definition civil_fits :: "int \<Rightarrow> int \<Rightarrow> int \<Rightarrow> TimezoneOffset option \<Rightarrow> bool" where
  "civil_fits y m d z \<longleftrightarrow> in_int 128 (dec_value (ts_value (civil y m d z)))"

definition zone_wf :: "TimezoneOffset option \<Rightarrow> bool" where
  "zone_wf z \<longleftrightarrow> (\<forall>x. z = Some x \<longrightarrow> tz_wf x)"

lemma civil_timezone [simp]: "ts_timezone_offset (civil y m d z) = z"
  by (simp add: civil_def)

lemma ts_from_civil:
  assumes "Y = unwrap_or y 1972" "M = unwrap_or m 12" "D = unwrap_or d (days_in_month (Some Y) M)"
  shows "ts_from_seven_property_model \<lparr>p_year = y, p_month = m, p_day = d, p_hour = None, p_minute = None, p_second = None,
      p_timezone_offset = z\<rparr> = (if civil_fits Y M D z then Inr (civil Y M D z) else Inl DateTimeOverflowError)"
proof -
  let ?W = "(86400 * day_number Y M D + 3600 * 0 + 60 * (0 - tz_offset (unwrap_or z tz_UTC))) * DECIMAL_PART_POW"
  have W: "dec_value (ts_value (civil Y M D z)) = ?W" by (simp add: civil_def)
  have "time_on_timeline \<lparr>p_year = y, p_month = m, p_day = d, p_hour = None, p_minute = None, p_second = None, p_timezone_offset = z\<rparr> =
      (if in_int 128 ?W then Inr \<lparr>dec_value = ?W\<rparr> else Inl ExpectedError)"
    unfolding time_on_timeline_defaults [of y m d] assms(1) [symmetric] assms(2) [symmetric] assms(3) [symmetric] unwrap_or_simps
    using time_on_timeline_whole [OF refl, where y = Y and m = M and d = D and hr = 0 and mi = 0 and z = z and se = decimal_default] by (simp add: decimal_default_def del: decimal_consts)
  then show ?thesis by (simp add: ts_from_seven_property_model_def civil_fits_def W civil_def del: decimal_consts)
qed

lemma civil_components:
  assumes "valid_date y m d" "civil_fits y m d z" "zone_wf z"
  shows "ts_wf (civil y m d z)" "ts_year (civil y m d z) = y" "ts_month (civil y m d z) = m" "ts_day (civil y m d z) = d"
    "ts_hour (civil y m d z) = 0" "ts_minute (civil y m d z) = 0" "ts_second (civil y m d z) = decimal_default"
proof -
  have z: "\<forall>x. z = Some x \<longrightarrow> tz_wf x" using assms(3) by (simp add: zone_wf_def)
  have t: "civil y m d z = \<lparr>ts_value = ts_value (civil y m d z), ts_timezone_offset = z\<rparr>" by (simp add: civil_def)
  have v: "dec_value (ts_value (civil y m d z)) = (86400 * day_number y m d + 3600 * 0 + 60 * (0 - tz_offset (unwrap_or z tz_UTC))) *
      DECIMAL_PART_POW + dec_value decimal_default" by (simp add: civil_def decimal_default_def)
  note c = ts_of_parts [OF assms(1) _ _ _ _ _ _ z t v assms(2) [unfolded civil_fits_def]]
  show "ts_wf (civil y m d z)" "ts_year (civil y m d z) = y" "ts_month (civil y m d z) = m" "ts_day (civil y m d z) = d"
    "ts_hour (civil y m d z) = 0" "ts_minute (civil y m d z) = 0" "ts_second (civil y m d z) = decimal_default"
    by (rule c; simp add: decimal_default_def)+
qed

lemma civil_year_bound:
  assumes "valid_date y m d" "civil_fits y m d z" "zone_wf z"
  shows "\<bar>y\<bar> < 2 ^ 63"
  using ts_year_bound [OF civil_components(1) [OF assms]] by (simp add: civil_components(2) [OF assms])

text \<open>The days of 1972 always fit.\<close>

lemma civil_fits_1972:
  assumes "valid_date 1972 m d" "zone_wf z"
  shows "civil_fits 1972 m d z"
proof -
  have "year_start 1972 = 719892" "year_start 1973 = 720258" by (simp_all add: year_start_def)
  then have n: "719892 \<le> day_number 1972 m d" "day_number 1972 m d \<le> 720258"
    using day_number_in_year [OF assms(1)] by simp_all
  have "- 840 \<le> tz_offset (unwrap_or z tz_UTC)" "tz_offset (unwrap_or z tz_UTC) \<le> 840"
    using assms(2) by (cases z; simp add: zone_wf_def tz_wf_def tz_UTC_def)+
  with n show ?thesis unfolding civil_fits_def civil_def in_int_def by simp
qed

section \<open>Construction\<close>

lemmas civil_simps = ts_from_civil [OF refl refl refl] unwrap_or_simps

lemma days_1972: "days_in_month (Some 1972) m = (if m = 2 then 29 else days_in_month None m)"
proof -
  have "leap 1972" by (simp add: leap_def)
  then show ?thesis unfolding days_in_month_leap by (auto simp: days_in_month_def)
qed

lemma date_from_parts_civil:
  "date_from_parts y m d z = (if civil_fits y m d z then Inr \<lparr>date_timestamp = civil y m d z\<rparr> else Inl DateTimeOverflowError)"
  by (simp add: date_from_parts_def civil_simps)

lemma g_year_month_new_civil:
  "g_year_month_new y m z = (let d = days_in_month (Some y) m
     in if civil_fits y m d z then Inr \<lparr>g_year_month_timestamp = civil y m d z\<rparr> else Inl DateTimeOverflowError)"
  by (simp add: g_year_month_new_def civil_simps Let_def)

lemma g_year_new_civil:
  "g_year_new y z = (if civil_fits y 12 31 z then Inr \<lparr>g_year_timestamp = civil y 12 31 z\<rparr> else Inl DateTimeOverflowError)"
  by (simp add: g_year_new_def civil_simps days_in_month_leap)

lemma g_month_day_new_civil:
  assumes v: "valid_date 1972 m d" and "zone_wf z"
  shows "g_month_day_new m d z = Inr \<lparr>g_month_day_timestamp = civil 1972 m d z\<rparr>" "civil_fits 1972 m d z"
proof -
  show f: "civil_fits 1972 m d z" by (rule civil_fits_1972 [OF assms])
  then show "g_month_day_new m d z = Inr \<lparr>g_month_day_timestamp = civil 1972 m d z\<rparr>"
    by (simp add: g_month_day_new_def civil_simps)
qed

lemma g_month_new_civil:
  assumes "1 \<le> m" "m \<le> 12" "zone_wf z" and D: "D = days_in_month (Some 1972) m"
  shows "g_month_new m z = Inr \<lparr>g_month_timestamp = civil 1972 m D z\<rparr>" "valid_date 1972 m D" "civil_fits 1972 m D z"
proof -
  show v: "valid_date 1972 m D" using assms days_in_month_bounds(1) [of "Some 1972" m] by (simp add: valid_date_def)
  show f: "civil_fits 1972 m D z" by (rule civil_fits_1972 [OF v assms(3)])
  then show "g_month_new m z = Inr \<lparr>g_month_timestamp = civil 1972 m D z\<rparr>" by (simp add: g_month_new_def civil_simps D)
qed

lemma g_day_new_civil:
  assumes "1 \<le> d" "d \<le> 31" "zone_wf z"
  shows "g_day_new d z = Inr \<lparr>g_day_timestamp = civil 1972 12 d z\<rparr>" "valid_date 1972 12 d" "civil_fits 1972 12 d z"
proof -
  show v: "valid_date 1972 12 d" using assms by (simp add: valid_date_def days_in_month_leap)
  show f: "civil_fits 1972 12 d z" by (rule civil_fits_1972 [OF v assms(3)])
  then show "g_day_new d z = Inr \<lparr>g_day_timestamp = civil 1972 12 d z\<rparr>" by (simp add: g_day_new_def civil_simps)
qed

section \<open>Printed forms\<close>

lemma opt_tz_start: "opt_tz_fmt z = [] \<or> \<not> is_ascii_digit (hd (opt_tz_fmt z)) \<and> hd (opt_tz_fmt z) \<noteq> CHR ''.''"
  using tz_fmt_start by (cases z) (simp_all add: opt_tz_fmt_def)

lemma opt_tz_frag: "zone_wf z \<Longrightarrow> optional_end (opt_tz_fmt z) timezone_frag = Inr (z, [])"
  by (rule opt_tz_frag_ok) (simp add: zone_wf_def)

lemma month_frag_ok: "1 \<le> m \<Longrightarrow> m \<le> 12 \<Longrightarrow> rest = [] \<or> \<not> is_ascii_digit (hd rest) \<Longrightarrow>
    month_frag (show_padded 2 (nat m) @ rest) = Inr (m, rest)"
  unfolding month_frag_def by (rule two_digit_frag_ok) simp_all

lemma day_frag_ok: "1 \<le> d \<Longrightarrow> d \<le> 31 \<Longrightarrow> rest = [] \<or> \<not> is_ascii_digit (hd rest) \<Longrightarrow>
    day_frag (show_padded 2 (nat d) @ rest) = Inr (d, rest)"
  unfolding day_frag_def by (rule two_digit_frag_ok) simp_all

lemma opt_tz_no_digit: "opt_tz_fmt z = [] \<or> \<not> is_ascii_digit (hd (opt_tz_fmt z))"
  using opt_tz_start [of z] by blast

lemma no_digit_dash: "CHR ''-'' # s = [] \<or> \<not> is_ascii_digit (hd (CHR ''-'' # s))"
  by simp

lemmas text_frags = opt_tz_frag expect_char_def ensure_complete_def year_frag_ok month_frag_ok day_frag_ok no_digit_dash opt_tz_no_digit

lemma date_display:
  assumes "valid_date y m d" "civil_fits y m d z" "zone_wf z"
  shows "date_from_str (date_fmt \<lparr>date_timestamp = civil y m d z\<rparr>) = Inr \<lparr>date_timestamp = civil y m d z\<rparr>"
proof -
  note c = civil_components [OF assms]
  have b: "1 \<le> m" "m \<le> 12" "1 \<le> d" "d \<le> days_in_month (Some y) m" "d \<le> 31"
    using assms(1) days_in_month_bounds(2) [of "Some y" m] by (auto simp: valid_date_def)
  show ?thesis using b civil_year_bound [OF assms] assms(3) assms(2)
    by (simp add: date_fmt_def date_from_str_def date_lexical_rep_def date_year_def date_month_def date_day_def
        date_timezone_offset_def c text_frags validate_day_of_month_def date_from_parts_civil)
qed

lemma g_year_month_display:
  assumes m: "1 \<le> m" "m \<le> 12" "zone_wf z" and D: "D = days_in_month (Some y) m" and fits: "civil_fits y m D z"
  shows "g_year_month_from_str (g_year_month_fmt \<lparr>g_year_month_timestamp = civil y m D z\<rparr>) = Inr \<lparr>g_year_month_timestamp = civil y m D z\<rparr>"
proof -
  have v: "valid_date y m D" using m D days_in_month_bounds(1) [of "Some y" m] by (simp add: valid_date_def)
  note c = civil_components [OF v fits m(3)]
  show ?thesis using m civil_year_bound [OF v fits m(3)] fits
    by (simp add: g_year_month_fmt_def g_year_month_from_str_def g_year_month_lexical_rep_def g_year_month_year_of_def
        g_year_month_month_of_def g_year_month_timezone_offset_def c text_frags g_year_month_new_civil D [symmetric])
qed

lemma g_year_display:
  assumes "civil_fits y 12 31 z" "zone_wf z"
  shows "g_year_from_str (g_year_fmt \<lparr>g_year_timestamp = civil y 12 31 z\<rparr>) = Inr \<lparr>g_year_timestamp = civil y 12 31 z\<rparr>"
proof -
  have v: "valid_date y 12 31" by (simp add: valid_date_def days_in_month_leap)
  note c = civil_components [OF v assms]
  show ?thesis using civil_year_bound [OF v assms] assms
    by (simp add: g_year_fmt_def g_year_from_str_def g_year_lexical_rep_def g_year_year_of_def g_year_timezone_offset_def c
        text_frags g_year_new_civil)
qed

text \<open>The parser does not know that \<open>--02-29\<close> is a day of some years.\<close>

lemma g_month_day_display:
  assumes v: "valid_date 1972 m d" and z: "zone_wf z"
  shows "g_month_day_from_str (g_month_day_fmt \<lparr>g_month_day_timestamp = civil 1972 m d z\<rparr>) =
    (if m = 2 \<and> d = 29 then Inl (InvalidDayOfMonth 29 2) else Inr \<lparr>g_month_day_timestamp = civil 1972 m d z\<rparr>)"
proof -
  note n = g_month_day_new_civil [OF assms]
  note c = civil_components [OF v n(2) z]
  have b: "1 \<le> m" "m \<le> 12" "1 \<le> d" "d \<le> 31" "days_in_month None m < d \<longleftrightarrow> m = 2 \<and> d = 29"
    using v days_in_month_bounds(2) [of "Some 1972" m] days_in_month_bounds(1) [of None m]
    by (auto simp: valid_date_def days_1972 split: if_splits) (auto simp: days_in_month_def)
  show ?thesis using b(1-4) z
    by (simp add: b(5) g_month_day_fmt_def g_month_day_from_str_def g_month_day_lexical_rep_def g_month_day_month_of_def
        g_month_day_day_of_def g_month_day_timezone_offset_def c text_frags validate_day_of_month_def n)
qed

lemma g_month_display:
  assumes "1 \<le> m" "m \<le> 12" "zone_wf z" "D = days_in_month (Some 1972) m"
  shows "g_month_from_str (g_month_fmt \<lparr>g_month_timestamp = civil 1972 m D z\<rparr>) = Inr \<lparr>g_month_timestamp = civil 1972 m D z\<rparr>"
proof -
  note n = g_month_new_civil [OF assms]
  note c = civil_components [OF n(2,3) assms(3)]
  show ?thesis using assms(1-3)
    by (simp add: g_month_fmt_def g_month_from_str_def g_month_lexical_rep_def g_month_month_of_def g_month_timezone_offset_def c
        text_frags n)
qed

lemma g_day_display:
  assumes "1 \<le> d" "d \<le> 31" "zone_wf z"
  shows "g_day_from_str (g_day_fmt \<lparr>g_day_timestamp = civil 1972 12 d z\<rparr>) = Inr \<lparr>g_day_timestamp = civil 1972 12 d z\<rparr>"
proof -
  note n = g_day_new_civil [OF assms]
  note c = civil_components [OF n(2,3) assms(3)]
  show ?thesis using assms
    by (simp add: g_day_fmt_def g_day_from_str_def g_day_lexical_rep_def g_day_day_of_def g_day_timezone_offset_def c text_frags n)
qed

section \<open>Time of day\<close>

text \<open>A time on 31 December 1972, the day number of which is 720257.\<close>

definition clock_ts :: "int \<Rightarrow> int \<Rightarrow> Decimal \<Rightarrow> TimezoneOffset option \<Rightarrow> Timestamp" where
  "clock_ts h i s z = \<lparr>ts_value = \<lparr>dec_value = (86400 * 720257 + 3600 * h + 60 * (i - tz_offset (unwrap_or z tz_UTC))) * DECIMAL_PART_POW +
     dec_value s\<rparr>, ts_timezone_offset = z\<rparr>"

definition clock_wf :: "int \<Rightarrow> int \<Rightarrow> Decimal \<Rightarrow> bool" where
  "clock_wf h i s \<longleftrightarrow> 0 \<le> h \<and> h < 24 \<and> 0 \<le> i \<and> i < 60 \<and> 0 \<le> dec_value s \<and> dec_value s < MINUTE"

lemma clock_day: "day_number 1972 12 31 = 720257" "valid_date 1972 12 31" "days_in_month (Some 1972) 12 = 31"
  by code_simp+

lemma clock_bounds:
  assumes "clock_wf h i s" "zone_wf z"
  shows "in_int 128 (dec_value (ts_value (clock_ts h i s z)))" "in_int 128 (dec_value (ts_value (clock_ts h i s z)) - dec_value s)"
    "0 \<le> dec_value (ts_value (clock_ts h i s z))"
proof -
  have o: "- 840 \<le> tz_offset (unwrap_or z tz_UTC)" "tz_offset (unwrap_or z tz_UTC) \<le> 840"
    using assms(2) by (cases z; simp add: zone_wf_def tz_wf_def tz_UTC_def)+
  define k where "k = 86400 * 720257 + 3600 * h + 60 * (i - tz_offset (unwrap_or z tz_UTC))"
  have k: "0 \<le> k" "k \<le> 70000000000" using o assms(1) by (simp_all add: k_def clock_wf_def)
  have v: "dec_value (ts_value (clock_ts h i s z)) = k * DECIMAL_PART_POW + dec_value s" by (simp add: clock_ts_def k_def)
  have s: "0 \<le> dec_value s" "dec_value s < MINUTE" using assms(1) by (simp_all add: clock_wf_def)
  show "in_int 128 (dec_value (ts_value (clock_ts h i s z)))" "in_int 128 (dec_value (ts_value (clock_ts h i s z)) - dec_value s)"
    "0 \<le> dec_value (ts_value (clock_ts h i s z))"
    unfolding v using k s by (simp_all add: in_int_def)
qed

lemma clock_components:
  assumes "clock_wf h i s" "zone_wf z"
  shows "ts_wf (clock_ts h i s z)" "ts_hour (clock_ts h i s z) = h" "ts_minute (clock_ts h i s z) = i" "ts_second (clock_ts h i s z) = s"
proof -
  have z: "\<forall>x. z = Some x \<longrightarrow> tz_wf x" using assms(2) by (simp add: zone_wf_def)
  have t: "clock_ts h i s z = \<lparr>ts_value = ts_value (clock_ts h i s z), ts_timezone_offset = z\<rparr>" by (simp add: clock_ts_def)
  have v: "dec_value (ts_value (clock_ts h i s z)) = (86400 * day_number 1972 12 31 + 3600 * h +
      60 * (i - tz_offset (unwrap_or z tz_UTC))) * DECIMAL_PART_POW + dec_value s" by (simp add: clock_ts_def clock_day)
  note b = clock_bounds [OF assms]
  note c = ts_of_parts [OF clock_day(2) _ _ _ _ _ _ z t v b(1) disjI1 [OF b(3)]]
  show "ts_wf (clock_ts h i s z)" "ts_hour (clock_ts h i s z) = h" "ts_minute (clock_ts h i s z) = i" "ts_second (clock_ts h i s z) = s"
    by (rule c; use assms(1) in \<open>simp add: clock_wf_def\<close>)+
qed

lemma time_from_parts_clock:
  assumes "clock_wf h i s" "zone_wf z"
  shows "time_from_parts h i s z = Inr \<lparr>time_timestamp = clock_ts h i s z\<rparr>"
proof -
  let ?W = "(86400 * day_number 1972 12 31 + 3600 * h + 60 * (i - tz_offset (unwrap_or z tz_UTC))) * DECIMAL_PART_POW"
  have v: "dec_value (ts_value (clock_ts h i s z)) = ?W + dec_value s" by (simp add: clock_ts_def clock_day)
  note b = clock_bounds [OF assms, unfolded v]
  have "time_on_timeline \<lparr>p_year = None, p_month = None, p_day = None, p_hour = Some h, p_minute = Some i, p_second = Some s,
      p_timezone_offset = z\<rparr> = Inr \<lparr>dec_value = ?W + dec_value s\<rparr>"
    unfolding time_on_timeline_defaults [of None None None] unwrap_or_simps clock_day(3)
    using time_on_timeline_whole [OF refl, where y = 1972 and m = 12 and d = 31 and hr = h and mi = i and z = z and se = s] b
    by (simp del: decimal_consts)
  moreover have "h \<noteq> 24" using assms(1) by (simp add: clock_wf_def)
  ultimately show ?thesis
    by (simp add: time_from_parts_def ts_from_seven_property_model_def clock_ts_def clock_day(1) del: decimal_consts)
qed

lemma time_display:
  assumes "clock_wf h i s" "zone_wf z"
  shows "\<exists>t. time_fmt \<lparr>time_timestamp = clock_ts h i s z\<rparr> = Some t \<and> time_from_str t = Inr \<lparr>time_timestamp = clock_ts h i s z\<rparr>"
proof -
  note c = clock_components [OF assms]
  have hm: "0 \<le> h" "h < 24" "0 \<le> i" "i < 60" and s: "0 \<le> dec_value s" "dec_value s < MINUTE" using assms(1) by (simp_all add: clock_wf_def)
  have "dec_wf s" using s unfolding dec_wf_def in_int_def by simp
  from second_frag_ok [OF this s opt_tz_start [of z]] obtain sec where sec: "second_fmt s = Some sec"
    "second_frag (sec @ opt_tz_fmt z) = Inr (s, opt_tz_fmt z)" by blast
  have z: "ts_timezone_offset (clock_ts h i s z) = z" by (simp add: clock_ts_def)
  have "time_fmt \<lparr>time_timestamp = clock_ts h i s z\<rparr> = Some (show_padded 2 (nat h) @ '':'' @ show_padded 2 (nat i) @ '':'' @ sec @ opt_tz_fmt z)"
    by (simp add: time_fmt_def time_hour_def time_minute_def time_second_def time_timezone_offset_def c sec(1) z)
  moreover have "time_from_str (show_padded 2 (nat h) @ '':'' @ show_padded 2 (nat i) @ '':'' @ sec @ opt_tz_fmt z) =
      Inr \<lparr>time_timestamp = clock_ts h i s z\<rparr>"
    unfolding time_from_str_def ensure_complete_def time_lexical_rep_def time_of_day_ok [OF hm sec(2)]
    by (simp add: opt_tz_frag [OF assms(2)] time_from_parts_clock [OF assms])
  ultimately show ?thesis by blast
qed

text \<open>C27: A date, a time of day, or a value of one of the five Gregorian types that is built from valid parts (a day of the
  calendar, a month from 1 to 12, a day from 1 to 31, a time of day, and no time zone or one from -14:00 to +14:00) is read back
  from its printed form as the same value. The one exception is the \<open>gMonthDay\<close> of 29 February: it can be built, for instance from
  a date, but the parser rejects \<open>--02-29\<close>. Building the types that have no year from such parts never fails. Values that
  come from moving another value to a new time zone, or from the lexical form 24:30:00, are not covered; some of them are printed
  in a form that is not read back.\<close>

theorem date_types_display_parse:
  assumes "zone_wf z"
  shows "(valid_date y m d \<and> date_from_parts y m d z = Inr a \<longrightarrow> date_from_str (date_fmt a) = Inr a) \<and>
    (1 \<le> m \<and> m \<le> 12 \<and> g_year_month_new y m z = Inr b \<longrightarrow> g_year_month_from_str (g_year_month_fmt b) = Inr b) \<and>
    (g_year_new y z = Inr c \<longrightarrow> g_year_from_str (g_year_fmt c) = Inr c) \<and>
    (valid_date 1972 m d \<longrightarrow> (\<exists>e. g_month_day_new m d z = Inr e \<and>
       g_month_day_from_str (g_month_day_fmt e) = (if m = 2 \<and> d = 29 then Inl (InvalidDayOfMonth 29 2) else Inr e))) \<and>
    (1 \<le> m \<and> m \<le> 12 \<longrightarrow> (\<exists>e. g_month_new m z = Inr e \<and> g_month_from_str (g_month_fmt e) = Inr e)) \<and>
    (1 \<le> d \<and> d \<le> 31 \<longrightarrow> (\<exists>e. g_day_new d z = Inr e \<and> g_day_from_str (g_day_fmt e) = Inr e)) \<and>
    (clock_wf h i s \<longrightarrow> (\<exists>t u. time_from_parts h i s z = Inr t \<and> time_fmt t = Some u \<and> time_from_str u = Inr t))"
proof (intro conjI impI)
  show "date_from_str (date_fmt a) = Inr a" if "valid_date y m d \<and> date_from_parts y m d z = Inr a"
    using that date_display assms by (auto simp: date_from_parts_civil split: if_splits)
  show "g_year_month_from_str (g_year_month_fmt b) = Inr b" if "1 \<le> m \<and> m \<le> 12 \<and> g_year_month_new y m z = Inr b"
    using that g_year_month_display assms by (auto simp: g_year_month_new_civil Let_def split: if_splits)
  show "g_year_from_str (g_year_fmt c) = Inr c" if "g_year_new y z = Inr c"
    using that g_year_display assms by (auto simp: g_year_new_civil split: if_splits)
  show "\<exists>e. g_month_day_new m d z = Inr e \<and>
      g_month_day_from_str (g_month_day_fmt e) = (if m = 2 \<and> d = 29 then Inl (InvalidDayOfMonth 29 2) else Inr e)"
    if "valid_date 1972 m d"
    using g_month_day_new_civil(1) [OF that assms] g_month_day_display [OF that assms] by blast
  show "\<exists>e. g_month_new m z = Inr e \<and> g_month_from_str (g_month_fmt e) = Inr e" if "1 \<le> m \<and> m \<le> 12"
    using g_month_new_civil(1) [OF _ _ assms refl, of m] g_month_display [OF _ _ assms refl, of m] that by blast
  show "\<exists>e. g_day_new d z = Inr e \<and> g_day_from_str (g_day_fmt e) = Inr e" if "1 \<le> d \<and> d \<le> 31"
    using g_day_new_civil(1) [OF _ _ assms, of d] g_day_display [OF _ _ assms, of d] that by blast
  show "\<exists>t u. time_from_parts h i s z = Inr t \<and> time_fmt t = Some u \<and> time_from_str u = Inr t" if "clock_wf h i s"
    using time_from_parts_clock [OF that assms] time_display [OF that assms] by blast
qed

theorem date_types_display_parse_witness:
  "date_from_str (date_fmt \<lparr>date_timestamp = civil 2024 2 29 None\<rparr>) = Inr \<lparr>date_timestamp = civil 2024 2 29 None\<rparr> \<and>
   (\<exists>e. g_month_day_new 2 29 None = Inr e \<and> g_month_day_from_str (g_month_day_fmt e) = Inl (InvalidDayOfMonth 29 2)) \<and>
   (\<exists>e. g_day_new 29 None = Inr e \<and> g_day_from_str (g_day_fmt e) = Inr e)"
proof -
  have z: "zone_wf None" by (simp add: zone_wf_def)
  have "valid_date 2024 2 29" "valid_date 1972 2 29" "date_from_parts 2024 2 29 None = Inr \<lparr>date_timestamp = civil 2024 2 29 None\<rparr>"
    by code_simp+
  then show ?thesis
    using date_types_display_parse [OF z, where y = 2024 and m = 2 and d = 29 and a = "\<lparr>date_timestamp = civil 2024 2 29 None\<rparr>"]
    by simp
qed

section \<open>Arithmetic\<close>

text \<open>The time of day of a timestamp, in its own time zone.\<close>

definition clock_of :: "Timestamp \<Rightarrow> int" where
  "clock_of t = (3600 * ts_hour t + 60 * ts_minute t) * DECIMAL_PART_POW + dec_value (ts_second t)"

lemma mod_day_split:
  fixes v L r M :: int
  assumes "v = M * L + r" "0 \<le> r" "r < M"
  shows "v mod (M * 1440) = M * (L mod 1440) + r" "v div (M * 1440) = L div 1440"
proof -
  have "v div M = L" "v mod M = r" using assms by (auto intro: int_div_pos_eq int_mod_pos_eq)
  then show "v mod (M * 1440) = M * (L mod 1440) + r" "v div (M * 1440) = L div 1440"
    by (simp_all add: zmod_zmult2_eq zdiv_zmult2_eq)
qed

lemma div_floor: "0 < (D :: int) \<Longrightarrow> x div D * D \<le> x \<and> x < x div D * D + D"
  using div_mult_mod_eq [of x D] pos_mod_sign [of D x] pos_mod_bound [of D x] by linarith

lemma clock_of_eq:
  assumes "ts_wf t" "minute_exact t"
  shows "clock_of t = (dec_value (ts_value t) + ts_offset t * MINUTE) mod (MINUTE * 1440)"
    "local_minute t div 1440 = (dec_value (ts_value t) + ts_offset t * MINUTE) div (MINUTE * 1440)"
proof -
  let ?v = "dec_value (ts_value t)" and ?L = "local_minute t"
  have v: "?v + ts_offset t * MINUTE = MINUTE * ?L + ?v mod MINUTE" "0 \<le> ?v mod MINUTE" "?v mod MINUTE < MINUTE"
    using assms(2) by (simp_all add: local_minute_def algebra_simps)
  have "?L mod 1440 div 60 * 60 + ?L mod 60 = ?L mod 1440"
    using div_mult_mod_eq [of "?L mod 1440" 60] by (simp add: mod_mod_cancel)
  then have "(3600 * (?L mod 1440 div 60) + 60 * (?L mod 60)) * DECIMAL_PART_POW = MINUTE * (?L mod 1440)" by simp
  moreover have "dec_value (ts_second t) = ?v mod MINUTE" using assms(1) by (simp add: ts_second_eq ts_wf_def)
  ultimately show "clock_of t = (?v + ts_offset t * MINUTE) mod (MINUTE * 1440)"
    "?L div 1440 = (?v + ts_offset t * MINUTE) div (MINUTE * 1440)"
    unfolding clock_of_def ts_components(3,4) [OF assms(1)] mod_day_split [OF v] by simp_all
qed

lemma add_seconds_only:
  assumes "duration_all_months du = 0" "v = dec_value (ts_value t) + dec_value (duration_all_seconds du)" "in_int 128 v"
  shows "date_time_checked_add_duration \<lparr>date_time_timestamp = t\<rparr> du = Inr \<lparr>date_time_timestamp = t\<lparr>ts_value := \<lparr>dec_value = v\<rparr>\<rparr>\<rparr>"
proof -
  have "dt_try_from_duration du = Inr (day_time du)"
    using assms(1) by (simp add: dt_try_from_duration_def ym_default_def duration_all_months_def ym_eq_iff)
  moreover have "duration_all_seconds (duration_from_dt (day_time du)) = duration_all_seconds du"
    by (simp add: duration_all_seconds_def duration_from_dt_def)
  moreover have "decimal_checked_add (ts_value t) (duration_all_seconds du) = Inr \<lparr>dec_value = v\<rparr>"
    using assms(2,3) by (simp add: decimal_add.add_spec)
  ultimately show ?thesis
    by (cases t) (simp add: date_time_checked_add_duration_def date_time_checked_add_day_time_duration_def ts_checked_add_seconds_def)
qed

lemma date_time_from_parts:
  assumes "W = (86400 * day_number y m d + 3600 * hr + 60 * (mi - tz_offset (unwrap_or z tz_UTC))) * DECIMAL_PART_POW"
    "in_int 128 W" "in_int 128 (W + dec_value se)"
  shows "date_time_from_seven_property_model y m d hr mi se z =
    Inr \<lparr>date_time_timestamp = \<lparr>ts_value = \<lparr>dec_value = W + dec_value se\<rparr>, ts_timezone_offset = z\<rparr>\<rparr>"
  using assms(2,3) by (simp add: date_time_from_seven_property_model_def ts_from_seven_property_model_def time_on_timeline_whole [OF assms(1)]
      del: decimal_consts)

lemma time_on_day_clock:
  assumes "clock_wf h i s" "zone_wf z"
  shows "time_on_day \<lparr>time_timestamp = clock_ts h i s z\<rparr> = Inr \<lparr>date_time_timestamp = clock_ts h i s z\<rparr>"
proof -
  let ?W = "dec_value (ts_value (clock_ts h i s z)) - dec_value s"
  have W: "?W = (86400 * day_number 1972 12 31 + 3600 * h + 60 * (i - tz_offset (unwrap_or z tz_UTC))) * DECIMAL_PART_POW"
    by (simp add: clock_ts_def clock_day)
  have sum: "?W + dec_value s = dec_value (ts_value (clock_ts h i s z))" by simp
  note d = date_time_from_parts [OF W, of s, unfolded sum, OF clock_bounds(2,1) [OF assms]]
  have z: "ts_timezone_offset (clock_ts h i s z) = z" by (simp add: clock_ts_def)
  show ?thesis by (simp add: time_on_day_def time_hour_def time_minute_def time_second_def time_timezone_offset_def
        clock_components [OF assms] z d)
qed

text \<open>The clock of a timestamp is a valid time, so the conversion to a time does not panic.\<close>

lemma time_from_date_time_clock:
  assumes "ts_wf t"
  shows "clock_wf (ts_hour t) (ts_minute t) (ts_second t)"
    "time_from_date_time \<lparr>date_time_timestamp = t\<rparr> =
      Some \<lparr>time_timestamp = clock_ts (ts_hour t) (ts_minute t) (ts_second t) (ts_timezone_offset t)\<rparr>"
proof -
  show c: "clock_wf (ts_hour t) (ts_minute t) (ts_second t)"
    using assms by (simp add: clock_wf_def ts_components ts_second_eq ts_wf_def pos_imp_zdiv_nonneg_iff)
  have "zone_wf (ts_timezone_offset t)" using assms by (simp add: zone_wf_def ts_wf_def)
  then show "time_from_date_time \<lparr>date_time_timestamp = t\<rparr> =
      Some \<lparr>time_timestamp = clock_ts (ts_hour t) (ts_minute t) (ts_second t) (ts_timezone_offset t)\<rparr>"
    by (simp add: time_from_date_time_def Let_def time_from_parts_clock [OF c])
qed

lemma clock_of_clock_ts:
  assumes "clock_wf h i s" "zone_wf z"
  shows "clock_of (clock_ts h i s z) = (3600 * h + 60 * i) * DECIMAL_PART_POW + dec_value s"
  by (simp add: clock_of_def clock_components [OF assms])

text \<open>Adding a duration without months to a time of day moves the clock and wraps around at
  midnight, in either direction; it neither fails nor panics, and keeps the time zone. The duration
  may reach back over the years since year one.\<close>

theorem time_add_wraps:
  assumes "clock_wf h i s" "zone_wf z" "duration_all_months du = 0"
    "- 60000000000 * DECIMAL_PART_POW \<le> dec_value (duration_all_seconds du)" "dec_value (duration_all_seconds du) \<le> 2 ^ 126"
    and t: "time_from_parts h i s z = Inr t"
  shows "\<exists>t'. time_checked_add_duration t du = Some (Inr t') \<and> time_timezone_offset t' = z \<and>
    clock_of (time_timestamp t') = (clock_of (time_timestamp t) + dec_value (duration_all_seconds du)) mod (86400 * DECIMAL_PART_POW)"
proof -
  let ?S = "dec_value (duration_all_seconds du)" and ?o = "tz_offset (unwrap_or z tz_UTC)"
  define c where "c = (3600 * h + 60 * i) * DECIMAL_PART_POW + dec_value s"
  have t: "t = \<lparr>time_timestamp = clock_ts h i s z\<rparr>" using t time_from_parts_clock [OF assms(1,2)] by simp
  have o: "- 840 \<le> ?o" "?o \<le> 840" using assms(2) by (cases z; simp add: zone_wf_def tz_wf_def tz_UTC_def)+
  have c: "0 \<le> c" "c < 86400 * DECIMAL_PART_POW" using assms(1) by (auto simp: clock_wf_def c_def)
  have v: "dec_value (ts_value (clock_ts h i s z)) = (720257 * 86400 - 60 * ?o) * DECIMAL_PART_POW + c"
    by (simp add: clock_ts_def c_def algebra_simps)
  define v1 where "v1 = dec_value (ts_value (clock_ts h i s z)) + ?S"
  have v1: "0 \<le> v1" "in_int 128 v1" using v c o assms(4,5) unfolding v1_def in_int_def by simp_all
  define t1 where "t1 = (clock_ts h i s z)\<lparr>ts_value := \<lparr>dec_value = v1\<rparr>\<rparr>"
  have tz: "ts_timezone_offset t1 = z" "ts_offset t1 = ?o" by (simp_all add: t1_def clock_ts_def ts_offset_def)
  have t1: "ts_wf t1" "minute_exact t1" "dec_value (ts_value t1) = v1"
    using v1 assms(2) tz(1) by (simp_all add: t1_def ts_wf_def dec_wf_def minute_exact_def zone_wf_def)
  have add: "date_time_checked_add_duration \<lparr>date_time_timestamp = clock_ts h i s z\<rparr> du = Inr \<lparr>date_time_timestamp = t1\<rparr>"
    unfolding t1_def by (rule add_seconds_only [OF assms(3) v1_def v1(2)])
  have r: "time_checked_add_duration t du = Some (Inr \<lparr>time_timestamp = clock_ts (ts_hour t1) (ts_minute t1) (ts_second t1) z\<rparr>)"
    by (simp add: t time_checked_add_duration_def time_on_day_clock [OF assms(1,2)] add into_time_def
        time_from_date_time_clock(2) [OF t1(1)] tz)
  have "v1 + ?o * MINUTE = c + ?S + 720257 * (MINUTE * 1440)" using v by (simp add: v1_def algebra_simps)
  then have "clock_of t1 = (c + ?S) mod (MINUTE * 1440)"
    unfolding clock_of_eq(1) [OF t1(1,2)] t1(3) tz by (simp only: mod_mult_self1)
  moreover have "clock_of (clock_ts (ts_hour t1) (ts_minute t1) (ts_second t1) z) = clock_of t1"
    using clock_of_clock_ts [OF time_from_date_time_clock(1) [OF t1(1)] assms(2)] by (simp add: clock_of_def)
  moreover have "clock_of (clock_ts h i s z) = c" using clock_of_clock_ts [OF assms(1,2)] by (simp add: c_def)
  ultimately show ?thesis using r by (simp add: t time_timezone_offset_def clock_ts_def mult.commute)
qed

theorem time_add_wraps_witness:
  "\<exists>t'. time_checked_add_duration \<lparr>time_timestamp = clock_ts 23 30 decimal_default None\<rparr>
       \<lparr>year_month = \<lparr>ym_months = 0\<rparr>, day_time = \<lparr>dt_seconds = \<lparr>dec_value = 3600000000000000000000\<rparr>\<rparr>\<rparr> = Some (Inr t') \<and>
     time_timezone_offset t' = None \<and> clock_of (time_timestamp t') = 1800 * DECIMAL_PART_POW"
proof -
  let ?du = "\<lparr>year_month = \<lparr>ym_months = 0\<rparr>, day_time = \<lparr>dt_seconds = \<lparr>dec_value = 3600000000000000000000\<rparr>\<rparr>\<rparr>"
  have wf: "clock_wf 23 30 decimal_default" "zone_wf None" by (simp_all add: clock_wf_def zone_wf_def decimal_default_def)
  have "duration_all_months ?du = 0" "dec_value (duration_all_seconds ?du) = 3600000000000000000000"
    by (simp_all add: duration_all_months_def duration_all_seconds_def)
  with time_add_wraps [OF wf, of ?du "\<lparr>time_timestamp = clock_ts 23 30 decimal_default None\<rparr>"] show ?thesis
    using time_from_parts_clock [OF wf] clock_of_clock_ts [OF wf] by (simp add: decimal_default_def)
qed

text \<open>Adding a duration without months to a date moves it by the whole days in the duration,
  rounded down, and keeps its time zone. Before year one the duration must not end in the last
  second of a minute.\<close>

theorem date_add_days:
  assumes "valid_date y m d" "zone_wf z" "duration_all_months du = 0" and a: "date_from_parts y m d z = Inr a"
    and w: "w = dec_value (ts_value (date_timestamp a)) + dec_value (duration_all_seconds du)" "- (2 ^ 126) \<le> w" "w \<le> 2 ^ 126"
      "0 \<le> w \<or> dec_value (duration_all_seconds du) mod (60 * DECIMAL_PART_POW) \<le> 59 * DECIMAL_PART_POW"
  shows "\<exists>b. date_checked_add_duration a du = Inr b \<and> date_timezone_offset b = z \<and>
    valid_date (date_year b) (date_month b) (date_day b) \<and>
    day_number (date_year b) (date_month b) (date_day b) = day_number y m d + dec_value (duration_all_seconds du) div (86400 * DECIMAL_PART_POW)"
proof -
  let ?S = "dec_value (duration_all_seconds du)" and ?o = "tz_offset (unwrap_or z tz_UTC)" and ?n = "day_number y m d"
  have fits: "civil_fits y m d z" and a: "a = \<lparr>date_timestamp = civil y m d z\<rparr>"
    using a by (auto simp: date_from_parts_civil split: if_splits)
  note c = civil_components [OF assms(1) fits assms(2)]
  have v: "dec_value (ts_value (civil y m d z)) = ?n * (MINUTE * 1440) - ?o * MINUTE" by (simp add: civil_def algebra_simps)
  have o: "- 840 \<le> ?o" "?o \<le> 840" using assms(2) by (cases z; simp add: zone_wf_def tz_wf_def tz_UTC_def)+
  have start: "date_time_try_from_date a = Inr \<lparr>date_time_timestamp = civil y m d z\<rparr>"
    unfolding date_time_try_from_date_def a date_year_def date_month_def date_day_def date_timezone_offset_def Date.simps c civil_timezone
    by (subst date_time_from_parts [OF refl]) (use fits in \<open>simp_all add: civil_fits_def civil_def decimal_default_def\<close>)
  define t1 where "t1 = (civil y m d z)\<lparr>ts_value := \<lparr>dec_value = w\<rparr>\<rparr>"
  have tz: "ts_timezone_offset t1 = z" "ts_offset t1 = ?o" "dec_value (ts_value t1) = w" by (simp_all add: t1_def civil_def ts_offset_def)
  have in128: "in_int 128 w" using w(2,3) by (simp add: in_int_def)
  have "w mod MINUTE = ?S mod MINUTE"
  proof -
    have "w = ?S + (?n * 1440 - ?o) * MINUTE" using v w(1) by (simp add: a algebra_simps)
    then show ?thesis by (simp only: mod_mult_self1)
  qed
  then have t1: "ts_wf t1" "minute_exact t1"
    using in128 assms(2) tz w(4) by (auto simp: ts_wf_def dec_wf_def minute_exact_def zone_wf_def)
  have add: "date_time_checked_add_duration \<lparr>date_time_timestamp = civil y m d z\<rparr> du = Inr \<lparr>date_time_timestamp = t1\<rparr>"
    unfolding t1_def by (rule add_seconds_only [OF assms(3) _ in128]) (simp add: w(1) a)
  note c1 = ts_components(1,2) [OF t1(1)]
  have "w + ?o * MINUTE = ?S + ?n * (MINUTE * 1440)" using v w(1) by (simp add: a)
  then have "local_minute t1 div 1440 = (?S + ?n * (MINUTE * 1440)) div (MINUTE * 1440)"
    unfolding clock_of_eq(2) [OF t1] tz by simp
  also have "\<dots> = ?n + ?S div (MINUTE * 1440)" by (rule div_mult_self1) simp
  finally have n1: "local_minute t1 div 1440 = ?n + ?S div (MINUTE * 1440)" .
  have f1: "civil_fits (ts_year t1) (ts_month t1) (ts_day t1) z"
  proof -
    let ?x = "w + ?o * MINUTE" and ?D = "MINUTE * 1440"
    have "?x div ?D * ?D \<le> ?x" "?x < ?x div ?D * ?D + ?D"
      using div_floor [of ?D ?x] by simp_all
    moreover have "dec_value (ts_value (civil (ts_year t1) (ts_month t1) (ts_day t1) z)) = ?x div ?D * ?D - ?o * MINUTE"
      unfolding civil_def c1(2) clock_of_eq(2) [OF t1] tz by (simp add: algebra_simps)
    ultimately show ?thesis using o w(2,3) unfolding civil_fits_def in_int_def by simp
  qed
  note c2 = civil_components [OF c1(1) f1 assms(2)]
  have "date_checked_add_duration a du = Inr \<lparr>date_timestamp = civil (ts_year t1) (ts_month t1) (ts_day t1) z\<rparr>"
    by (simp add: date_checked_add_duration_def date_via_def start add date_try_from_date_time_def Let_def tz date_from_parts_civil f1)
  moreover have "day_number (ts_year t1) (ts_month t1) (ts_day t1) = ?n + ?S div (86400 * DECIMAL_PART_POW)"
    using n1 c1(2) by (simp add: mult.commute)
  ultimately show ?thesis using c1(1) by (simp add: date_timezone_offset_def date_year_def date_month_def date_day_def c2)
qed

theorem date_add_days_witness:
  "\<exists>b. date_checked_add_duration \<lparr>date_timestamp = civil 2024 2 28 None\<rparr>
       \<lparr>year_month = \<lparr>ym_months = 0\<rparr>, day_time = \<lparr>dt_seconds = \<lparr>dec_value = 90000000000000000000000\<rparr>\<rparr>\<rparr> = Inr b \<and>
     day_number (date_year b) (date_month b) (date_day b) = day_number 2024 2 29"
proof -
  let ?du = "\<lparr>year_month = \<lparr>ym_months = 0\<rparr>, day_time = \<lparr>dt_seconds = \<lparr>dec_value = 90000000000000000000000\<rparr>\<rparr>\<rparr>"
  have d: "duration_all_months ?du = 0" "dec_value (duration_all_seconds ?du) = 90000000000000000000000"
    by (simp_all add: duration_all_months_def duration_all_seconds_def)
  have v: "valid_date 2024 2 28" "zone_wf None" by (code_simp, simp add: zone_wf_def)
  have f: "date_from_parts 2024 2 28 None = Inr \<lparr>date_timestamp = civil 2024 2 28 None\<rparr>"
    "dec_value (ts_value (civil 2024 2 28 None)) = 63844675200000000000000000000" "day_number 2024 2 28 = 738943" "day_number 2024 2 29 = 738944"
    by code_simp+
  from date_add_days [OF v d(1) f(1) refl] show ?thesis by (auto simp: f d)
qed

end
