(* ===== verification/Delta_Log.thy ===== *)
theory Delta_Log
  imports Rust_Prelude "HOL-Library.List_Lexorder" "HOL-Library.Sublist"
begin

text \<open>
  The operations log of the Delta storage (\<open>lib/storage-deltalake/src/log\<close>): the operation
  codes and the version range of \<open>mod.rs\<close>, and the stream of \<open>compute_log_changes.rs\<close> that
  folds the rows of the log into one net operation per quad and graph. The stream keys a
  \<open>BTreeMap\<close> by the bytes of Arrow's row format, a third-party encoding: it is the record
  \<open>RowConverter\<close> of this theory, and \<open>row_format\<close> states what Arrow documents of it. The
  theory shows that the stream computes the abstract compaction \<open>compact\<close>, a set of
  operations, and that a compaction has the effect of replaying the operations in order.
\<close>

section \<open>Operations and version ranges\<close>

datatype DeltaStorageLogOperation = DropGraph | ClearGraph | CreateGraph | RemoveQuad | InsertQuad

fun as_stored :: "DeltaStorageLogOperation \<Rightarrow> int" where
  "as_stored DropGraph = 10"
| "as_stored ClearGraph = 11"
| "as_stored CreateGraph = 12"
| "as_stored RemoveQuad = 20"
| "as_stored InsertQuad = 21"

definition from_stored :: "int \<Rightarrow> DeltaStorageLogOperation option" where
  "from_stored value =
     (if value = 10 then Some DropGraph
      else if value = 11 then Some ClearGraph
      else if value = 12 then Some CreateGraph
      else if value = 20 then Some RemoveQuad
      else if value = 21 then Some InsertQuad
      else None)"

fun is_graph_operation :: "DeltaStorageLogOperation \<Rightarrow> bool" where
  "is_graph_operation DropGraph = True"
| "is_graph_operation ClearGraph = True"
| "is_graph_operation CreateGraph = True"
| "is_graph_operation RemoveQuad = False"
| "is_graph_operation InsertQuad = False"

record DeltaStorageLogVersionRange =
  starting_version :: nat
  ending_version :: nat

definition version_range_try_new :: "nat \<Rightarrow> nat \<Rightarrow> DeltaStorageLogVersionRange option" where
  "version_range_try_new start ending =
     (if ending \<le> start then None
      else Some \<lparr>starting_version = start, ending_version = ending\<rparr>)"

definition version_range_new_unchecked :: "nat \<Rightarrow> nat \<Rightarrow> DeltaStorageLogVersionRange" where
  "version_range_new_unchecked start ending = \<lparr>starting_version = start, ending_version = ending\<rparr>"

datatype storage_error =
    Panic string
  | Corruption string
  | OtherError string
  | VersionError string

section \<open>Rows of the log\<close>

text \<open>A null column is \<open>None\<close>; the type of a stored term is a parameter, as the storage
  supports several encodings of terms.\<close>

record 't quad_row =
  graph_col :: "'t option"
  subject_col :: "'t option"
  predicate_col :: "'t option"
  object_col :: "'t option"

record 't log_row =
  commit_version :: nat
  operation_seq_id :: nat
  operation :: int
  quad :: "'t quad_row"

type_synonym bytes = "nat list"

record 't RowConverter =
  convert_graph :: "'t option \<Rightarrow> bytes"
  convert_quad :: "'t quad_row \<Rightarrow> bytes"
  parse_quad :: "bytes \<Rightarrow> 't quad_row"

text \<open>The documented properties of Arrow's row format: a row is the concatenation of its
  encoded columns, an encoded column delimits itself, and rows can be decoded.\<close>

definition row_format :: "'t RowConverter \<Rightarrow> bool" where
  "row_format conv \<longleftrightarrow>
     (\<forall>q. convert_quad conv q = convert_graph conv (graph_col q) @ convert_graph conv (subject_col q) @
        convert_graph conv (predicate_col q) @ convert_graph conv (object_col q)) \<and>
     (\<forall>a b. prefix (convert_graph conv a) (convert_graph conv b) \<longrightarrow> a = b) \<and>
     (\<forall>q. parse_quad conv (convert_quad conv q) = q)"

section \<open>The ordered map of the stream\<close>

type_synonym log_state = "(bytes \<times> int) list"

fun btree_insert :: "'k :: linorder \<Rightarrow> 'v \<Rightarrow> ('k \<times> 'v) list \<Rightarrow> ('k \<times> 'v) list" where
  "btree_insert k v [] = [(k, v)]"
| "btree_insert k v ((k', v') # m) =
     (if k < k' then (k, v) # (k', v') # m
      else if k = k' then (k, v) # m
      else (k', v') # btree_insert k v m)"

definition btree_remove :: "'k \<Rightarrow> ('k \<times> 'v) list \<Rightarrow> ('k \<times> 'v) list" where
  "btree_remove k m = filter (\<lambda>e. fst e \<noteq> k) m"

definition btree_range_from :: "'k :: linorder \<Rightarrow> ('k \<times> 'v) list \<Rightarrow> ('k \<times> 'v) list" where
  "btree_range_from k m = dropWhile (\<lambda>e. fst e < k) m"

section \<open>The changeset stream\<close>

definition remove_entries_for_graph ::
  "bytes \<Rightarrow> bool \<Rightarrow> log_state \<Rightarrow> (storage_error, log_state) result" where
  "remove_entries_for_graph graph_bytes remove_all state =
     (let scanned = takeWhile (\<lambda>e. prefix graph_bytes (fst e)) (btree_range_from graph_bytes state)
      in if \<exists>e \<in> set scanned. from_stored (snd e) = None
         then Inl (Panic ''called Option::unwrap() on a None value'')
         else let to_remove = filter (\<lambda>e. remove_all \<or>
                     \<not> is_graph_operation (the (from_stored (snd e)))) scanned
              in Inr (fold (\<lambda>e. btree_remove (fst e)) to_remove state))"

definition process_row ::
  "'t RowConverter \<Rightarrow> 't log_row \<Rightarrow> log_state \<Rightarrow> (storage_error, log_state) result" where
  "process_row conv r state =
     and_then (ok_or (from_stored (operation r)) (Panic ''stored op valid'')) (\<lambda>op.
       let op_val = operation r;
           quad_row = convert_quad conv (quad r);
           graph_row = convert_graph conv (graph_col (quad r));
           key = quad_row @ [nat op_val]
       in case op of
            DropGraph \<Rightarrow> map_ok (btree_insert key op_val) (remove_entries_for_graph graph_row True state)
          | ClearGraph \<Rightarrow> map_ok (btree_insert key op_val) (remove_entries_for_graph graph_row False state)
          | CreateGraph \<Rightarrow> Inr (btree_insert key op_val state)
          | RemoveQuad \<Rightarrow> Inr (btree_insert quad_row op_val state)
          | InsertQuad \<Rightarrow> Inr (btree_insert quad_row op_val state))"

fun process_batch ::
  "'t RowConverter \<Rightarrow> 't log_row list \<Rightarrow> log_state \<Rightarrow> (storage_error, log_state) result" where
  "process_batch conv [] state = Inr state"
| "process_batch conv (r # rs) state = and_then (process_row conv r state) (process_batch conv rs)"

definition output_row :: "'t RowConverter \<Rightarrow> bytes \<times> int \<Rightarrow> (storage_error, int \<times> 't quad_row) result" where
  "output_row conv e =
     and_then (ok_or (from_stored (snd e)) (Panic ''valid op'')) (\<lambda>op.
       let row_bytes = (if is_graph_operation op then butlast (fst e) else fst e)
       in Inr (snd e, parse_quad conv row_bytes))"

fun push_to_batch_coalescer ::
  "'t RowConverter \<Rightarrow> log_state \<Rightarrow> (storage_error, (int \<times> 't quad_row) list) result" where
  "push_to_batch_coalescer conv [] = Inr []"
| "push_to_batch_coalescer conv (e # state) =
     and_then (output_row conv e) (\<lambda>r. map_ok ((#) r) (push_to_batch_coalescer conv state))"

text \<open>The stream polls its input to the end, batch by batch, then emits the state.\<close>

fun process_batches ::
  "'t RowConverter \<Rightarrow> 't log_row list list \<Rightarrow> log_state \<Rightarrow> (storage_error, log_state) result" where
  "process_batches conv [] state = Inr state"
| "process_batches conv (b # bs) state = and_then (process_batch conv b state) (process_batches conv bs)"

definition compute_log_changeset ::
  "'t RowConverter \<Rightarrow> 't log_row list list \<Rightarrow> (storage_error, (int \<times> 't quad_row) list) result" where
  "compute_log_changeset conv batches =
     and_then (process_batches conv batches []) (push_to_batch_coalescer conv)"

section \<open>Abstract compaction and replay\<close>

type_synonym 't log_op = "DeltaStorageLogOperation \<times> 't quad_row"

fun compact_step :: "'t log_op \<Rightarrow> 't log_op set \<Rightarrow> 't log_op set" where
  "compact_step (DropGraph, r) A = insert (DropGraph, r) {x \<in> A. graph_col (snd x) \<noteq> graph_col r}"
| "compact_step (ClearGraph, r) A =
     insert (ClearGraph, r) {x \<in> A. is_graph_operation (fst x) \<or> graph_col (snd x) \<noteq> graph_col r}"
| "compact_step (CreateGraph, r) A = insert (CreateGraph, r) A"
| "compact_step (RemoveQuad, r) A = insert (RemoveQuad, r) (A - {(InsertQuad, r)})"
| "compact_step (InsertQuad, r) A = insert (InsertQuad, r) (A - {(RemoveQuad, r)})"

definition compact :: "'t log_op list \<Rightarrow> 't log_op set" where
  "compact ops = fold compact_step ops {}"

fun replay_op :: "'t log_op \<Rightarrow> 't quad_row set \<Rightarrow> 't quad_row set" where
  "replay_op (DropGraph, r) D = {q \<in> D. graph_col q \<noteq> graph_col r}"
| "replay_op (ClearGraph, r) D = {q \<in> D. graph_col q \<noteq> graph_col r}"
| "replay_op (CreateGraph, r) D = D"
| "replay_op (RemoveQuad, r) D = D - {r}"
| "replay_op (InsertQuad, r) D = insert r D"

definition replay :: "'t log_op list \<Rightarrow> 't quad_row set \<Rightarrow> 't quad_row set" where
  "replay ops D = fold replay_op ops D"

definition cleared :: "'t log_op set \<Rightarrow> 't option set" where
  "cleared A = {graph_col r | op r. (op, r) \<in> A \<and> (op = DropGraph \<or> op = ClearGraph)}"

definition apply_net :: "'t log_op set \<Rightarrow> 't quad_row set \<Rightarrow> 't quad_row set" where
  "apply_net A D = {q \<in> D. graph_col q \<notin> cleared A \<and> (RemoveQuad, q) \<notin> A} \<union> {q. (InsertQuad, q) \<in> A}"

definition row_ops :: "'t log_row list \<Rightarrow> 't log_op list" where
  "row_ops rows = map (\<lambda>r. (the (from_stored (operation r)), quad r)) rows"

lemma from_as_stored [simp]: "from_stored (as_stored op) = Some op"
  by (cases op) (simp_all add: from_stored_def)

lemma from_stored_eq_Some: "from_stored v = Some op \<longleftrightarrow> v = as_stored op"
  by (cases op) (auto simp: from_stored_def)

lemma as_stored_inject [simp]: "as_stored a = as_stored b \<longleftrightarrow> a = b"
  by (cases a; cases b) auto

lemma cleared_step:
  "cleared (compact_step (op, r) A) =
     (if op = DropGraph \<or> op = ClearGraph then insert (graph_col r) (cleared A) else cleared A)"
proof -
  have "x \<in> cleared A \<Longrightarrow> x = graph_col r \<or> x \<in> cleared {y \<in> A. graph_col (snd y) \<noteq> graph_col r}" for x
    unfolding cleared_def by force
  then show ?thesis by (cases op) (fastforce simp: cleared_def)+
qed

lemma apply_net_step: "apply_net (compact_step x A) D = replay_op x (apply_net A D)"
proof (cases x)
  case (Pair op r)
  show ?thesis by (cases op) (auto simp: Pair apply_net_def cleared_step simp del: compact_step.simps,
      auto)
qed

lemma apply_net_fold: "apply_net (fold compact_step ops A) D = fold replay_op ops (apply_net A D)"
  by (induction ops arbitrary: A) (simp_all add: apply_net_step)

lemma apply_net_compact: "apply_net (compact ops) D = replay ops D"
  by (simp add: compact_def replay_def apply_net_fold) (simp add: apply_net_def cleared_def)

section \<open>The stream computes the compaction\<close>

lemma btree_insert_set:
  "sorted_wrt (\<lambda>x y. fst x < fst y) m \<Longrightarrow>
   set (btree_insert k v m) = insert (k, v) {e \<in> set m. fst e \<noteq> k}"
  by (induction k v m rule: btree_insert.induct) auto

lemma btree_insert_sorted:
  "sorted_wrt (\<lambda>x y. fst x < fst y) m \<Longrightarrow> sorted_wrt (\<lambda>x y. fst x < fst y) (btree_insert k v m)"
  by (induction k v m rule: btree_insert.induct) (auto simp: btree_insert_set)

lemma fold_btree_remove: "fold (\<lambda>e. btree_remove (fst e)) es m = filter (\<lambda>e. fst e \<notin> fst ` set es) m"
  by (induction es arbitrary: m) (auto simp: btree_remove_def intro: filter_cong)

lemma prefix_between: "g \<le> k \<Longrightarrow> k \<le> l \<Longrightarrow> prefix g l \<Longrightarrow> prefix g k" for g k l :: bytes
proof (induction g arbitrary: k l)
  case (Cons x g)
  then obtain l' where l: "l = x # l'" "prefix g l'" by (cases l) auto
  from Cons.prems(1) obtain y k' where k: "k = y # k'" by (cases k) auto
  with Cons.prems l have "x = y" "g \<le> k'" "k' \<le> l'" by (auto split: if_splits)
  with Cons.IH l k show ?case by auto
qed simp

lemma takeWhile_closed:
  "sorted_wrt R xs \<Longrightarrow> (\<And>x y. x \<in> set xs \<Longrightarrow> y \<in> set xs \<Longrightarrow> R x y \<Longrightarrow> P y \<Longrightarrow> P x) \<Longrightarrow>
   takeWhile P xs = filter P xs"
proof (induction xs)
  case (Cons x xs)
  have "takeWhile P xs = filter P xs" by (rule Cons.IH) (use Cons.prems in auto)
  moreover have "filter P xs = []" if "\<not> P x" using Cons.prems that by (auto simp: filter_empty_conv)
  ultimately show ?case by auto
qed simp

lemma dropWhile_less_sorted:
  "sorted_wrt (\<lambda>x y. fst x < fst y) m \<Longrightarrow> dropWhile (\<lambda>e. fst e < k) m = filter (\<lambda>e. k \<le> fst e) m"
  for k :: "'k :: linorder"
proof (induction m)
  case (Cons e m)
  show ?case
  proof (cases "fst e < k")
    case True with Cons show ?thesis by auto
  next
    case False
    then have "filter (\<lambda>e. k \<le> fst e) m = m" using Cons.prems by (intro filter_True) auto
    with False show ?thesis by auto
  qed
qed simp

text \<open>In an ordered map, walking from a prefix while the keys start with it visits exactly the
  entries with that prefix.\<close>

lemma scan_prefix:
  fixes g :: bytes
  assumes "sorted_wrt (\<lambda>x y. fst x < fst y) m"
  shows "set (takeWhile (\<lambda>e. prefix g (fst e)) (btree_range_from g m)) = {e \<in> set m. prefix g (fst e)}"
    (is "set (takeWhile ?P ?r) = _")
proof -
  have r: "?r = filter (\<lambda>e. g \<le> fst e) m"
    unfolding btree_range_from_def by (rule dropWhile_less_sorted [OF assms])
  have "takeWhile ?P ?r = filter ?P ?r"
  proof (rule takeWhile_closed)
    show "sorted_wrt (\<lambda>x y. fst x < fst y) ?r" unfolding r by (rule sorted_wrt_filter [OF assms])
    fix x y assume "x \<in> set ?r" "y \<in> set ?r" "fst x < fst y" "?P y"
    then show "?P x" by (intro prefix_between [of g "fst x" "fst y"]) (auto simp: r)
  qed
  moreover have "g \<le> k" if "prefix g k" for k :: bytes
  proof -
    have "g \<le> g @ zs" for zs by (induction g) auto
    with that show ?thesis by (auto simp: prefix_def)
  qed
  ultimately show ?thesis by (auto simp: r)
qed

definition op_key :: "'t RowConverter \<Rightarrow> DeltaStorageLogOperation \<Rightarrow> 't quad_row \<Rightarrow> bytes" where
  "op_key conv op r =
     (if is_graph_operation op then convert_quad conv r @ [nat (as_stored op)] else convert_quad conv r)"

definition represents :: "'t RowConverter \<Rightarrow> log_state \<Rightarrow> 't log_op set \<Rightarrow> bool" where
  "represents conv state A \<longleftrightarrow> sorted_wrt (\<lambda>x y. fst x < fst y) state \<and>
     set state = (\<lambda>(op, r). (op_key conv op r, as_stored op)) ` A"

lemma row_format_prefix:
  assumes "row_format conv" "prefix (convert_graph conv a @ x) (convert_graph conv b @ y)"
  shows "a = b" and "prefix x y"
proof -
  let ?p = "convert_graph conv a @ x" and ?q = "convert_graph conv b @ y"
  have "prefix (convert_graph conv a) ?q" using assms(2) by (auto dest: append_prefixD)
  moreover have "prefix (convert_graph conv b) ?q" by simp
  ultimately have "prefix (convert_graph conv a) (convert_graph conv b) \<or>
      prefix (convert_graph conv b) (convert_graph conv a)" by (rule prefix_same_cases)
  then show "a = b" using assms(1) unfolding row_format_def by blast
  then show "prefix x y" using assms(2) by simp
qed

lemma convert_quad_prefix:
  assumes f: "row_format conv" and "prefix (convert_quad conv q) (convert_quad conv r @ z)"
  shows "q = r"
proof -
  have eq: "convert_quad conv q = convert_graph conv (graph_col q) @ convert_graph conv (subject_col q) @
      convert_graph conv (predicate_col q) @ convert_graph conv (object_col q)" for q
    using f by (simp add: row_format_def)
  note p = row_format_prefix [OF f]
  have 1: "prefix (convert_graph conv (graph_col q) @ convert_graph conv (subject_col q) @
        convert_graph conv (predicate_col q) @ convert_graph conv (object_col q) @ [])
      (convert_graph conv (graph_col r) @ convert_graph conv (subject_col r) @
        convert_graph conv (predicate_col r) @ convert_graph conv (object_col r) @ z)"
    using assms(2) by (simp add: eq)
  note 2 = p(2) [OF 1] note 3 = p(2) [OF 2] note 4 = p(2) [OF 3]
  show ?thesis using p(1) [OF 1] p(1) [OF 2] p(1) [OF 3] p(1) [OF 4] by simp
qed

lemma op_key_inject:
  assumes "row_format conv" "op_key conv op r = op_key conv op' r'"
  shows "r = r' \<and> (op = op' \<or> \<not> is_graph_operation op \<and> \<not> is_graph_operation op')"
proof -
  have "r = r'"
  proof -
    have "prefix (convert_quad conv r) (op_key conv op r)" by (simp add: op_key_def)
    then have "\<exists>z. prefix (convert_quad conv r) (convert_quad conv r' @ z)"
      using assms(2) by (auto simp: op_key_def split: if_splits intro: exI [of _ "[]"])
    then show ?thesis using convert_quad_prefix [OF assms(1)] by blast
  qed
  with assms(2) show ?thesis by (cases op; cases op') (auto simp: op_key_def)
qed

lemma graph_prefix_op_key:
  assumes "row_format conv"
  shows "prefix (convert_graph conv g) (op_key conv op r) \<longleftrightarrow> graph_col r = g"
proof
  assume "prefix (convert_graph conv g) (op_key conv op r)"
  then have "\<exists>y. prefix (convert_graph conv g @ []) (convert_graph conv (graph_col r) @ y)"
    using assms by (auto simp: op_key_def row_format_def split: if_splits)
  then show "graph_col r = g" using row_format_prefix(1) [OF assms] by blast
next
  assume "graph_col r = g"
  then show "prefix (convert_graph conv g) (op_key conv op r)"
    using assms by (auto simp: op_key_def row_format_def)
qed

lemma representsD:
  assumes "represents conv state A"
  shows "sorted_wrt (\<lambda>x y. fst x < fst y) state"
    and "set state = (\<lambda>(op, r). (op_key conv op r, as_stored op)) ` A"
  using assms by (simp_all add: represents_def)

text \<open>Inserting an operation replaces only the quad operations on the same row.\<close>

lemma represents_insert:
  assumes f: "row_format conv" and rep: "represents conv state A"
  shows "represents conv (btree_insert (op_key conv op r) (as_stored op) state)
    (insert (op, r) {x \<in> A. is_graph_operation op \<or> is_graph_operation (fst x) \<or> snd x \<noteq> r})"
proof -
  let ?e = "\<lambda>(op, r). (op_key conv op r, as_stored op)"
  have same: "op_key conv op' r' = op_key conv op r \<longleftrightarrow>
      r' = r \<and> (op' = op \<or> \<not> is_graph_operation op \<and> \<not> is_graph_operation op')" for op' r'
    using op_key_inject [OF f, of op' r' op r] by (auto simp: op_key_def)
  have "set (btree_insert (op_key conv op r) (as_stored op) state) =
      insert (?e (op, r)) {e \<in> ?e ` A. fst e \<noteq> op_key conv op r}"
    by (simp add: btree_insert_set representsD [OF rep])
  also have "\<dots> = ?e ` insert (op, r)
      {x \<in> A. is_graph_operation op \<or> is_graph_operation (fst x) \<or> snd x \<noteq> r}"
    by (auto simp: same image_iff split: prod.splits)
  finally show ?thesis by (simp add: represents_def btree_insert_sorted representsD [OF rep])
qed

lemma represents_remove_graph:
  assumes f: "row_format conv" and rep: "represents conv state A"
  shows "\<exists>state'. remove_entries_for_graph (convert_graph conv g) remove_all state = Inr state' \<and>
    represents conv state' {x \<in> A. graph_col (snd x) \<noteq> g \<or> \<not> remove_all \<and> is_graph_operation (fst x)}"
proof -
  let ?e = "\<lambda>(op, r). (op_key conv op r, as_stored op)"
  let ?gone = "\<lambda>x. graph_col (snd x) = g \<and> (remove_all \<or> \<not> is_graph_operation (fst x))"
  define scanned where "scanned = takeWhile (\<lambda>e. prefix (convert_graph conv g) (fst e))
      (btree_range_from (convert_graph conv g) state)"
  define es where "es = filter (\<lambda>e. remove_all \<or> \<not> is_graph_operation (the (from_stored (snd e)))) scanned"
  define state' where "state' = fold (\<lambda>e. btree_remove (fst e)) es state"
  have sc: "set scanned = ?e ` {x \<in> A. graph_col (snd x) = g}"
    using scan_prefix [OF representsD(1) [OF rep], of "convert_graph conv g"] graph_prefix_op_key [OF f]
    by (auto simp: scanned_def representsD(2) [OF rep])
  then have ok: "\<not> (\<exists>e \<in> set scanned. from_stored (snd e) = None)" by auto
  have es: "set es = ?e ` {x \<in> A. ?gone x}" by (auto simp: es_def sc)
  have key: "fst (?e x) \<in> fst ` set es \<longleftrightarrow> ?gone x" if "x \<in> A" for x
  proof
    assume "fst (?e x) \<in> fst ` set es"
    then obtain y where "y \<in> A" "?gone y" "fst (?e x) = fst (?e y)" unfolding es by auto
    then show "?gone x" using op_key_inject [OF f, of "fst x" "snd x" "fst y" "snd y"]
      by (auto simp: case_prod_beta)
  next
    assume "?gone x"
    then show "fst (?e x) \<in> fst ` set es" unfolding es using that by blast
  qed
  have "set state' = {e \<in> ?e ` A. fst e \<notin> fst ` set es}"
    by (auto simp: state'_def fold_btree_remove representsD [OF rep])
  also have "\<dots> = ?e ` {x \<in> A. \<not> ?gone x}" using key by blast
  finally have "represents conv state' {x \<in> A. \<not> ?gone x}"
    by (simp add: represents_def state'_def fold_btree_remove representsD [OF rep] sorted_wrt_filter)
  moreover have "remove_entries_for_graph (convert_graph conv g) remove_all state = Inr state'"
    using ok by (simp add: remove_entries_for_graph_def scanned_def [symmetric] es_def [symmetric]
        state'_def Let_def)
  ultimately show ?thesis by (auto simp: conj_disj_distribL elim!: back_subst [of "represents conv state'"])
qed

lemma process_row_compact:
  assumes f: "row_format conv" and rep: "represents conv state A"
    and op: "from_stored (operation r) = Some op"
  shows "\<exists>state'. process_row conv r state = Inr state' \<and>
    represents conv state' (compact_step (op, quad r) A)"
proof -
  have v: "operation r = as_stored op" using op by (simp add: from_stored_eq_Some)
  note ins = represents_insert [OF f, of _ _ op "quad r"]
  note rem = represents_remove_graph [OF f rep, of "graph_col (quad r)"]
  have key: "convert_quad conv (quad r) @ (if is_graph_operation op then [nat (as_stored op)] else []) =
      op_key conv op (quad r)" by (simp add: op_key_def)
  show ?thesis
  proof (cases op)
    case DropGraph
    from rem [of True] obtain s where
      "remove_entries_for_graph (convert_graph conv (graph_col (quad r))) True state = Inr s"
      and s: "represents conv s {x \<in> A. graph_col (snd x) \<noteq> graph_col (quad r)}" by auto
    with ins [OF s] key DropGraph show ?thesis
      by (simp add: process_row_def v Let_def from_stored_def)
  next
    case ClearGraph
    from rem [of False] obtain s where
      "remove_entries_for_graph (convert_graph conv (graph_col (quad r))) False state = Inr s"
      and s: "represents conv s {x \<in> A. graph_col (snd x) \<noteq> graph_col (quad r) \<or> is_graph_operation (fst x)}"
      by auto
    with ins [OF s] key ClearGraph show ?thesis
      by (simp add: process_row_def v Let_def from_stored_def disj_commute)
  next
    case CreateGraph
    with ins [OF rep] key show ?thesis by (simp add: process_row_def v Let_def from_stored_def)
  next
    case RemoveQuad
    have "insert (op, quad r) {x \<in> A. is_graph_operation op \<or> is_graph_operation (fst x) \<or> snd x \<noteq> quad r} =
        compact_step (op, quad r) A"
      using RemoveQuad by (auto elim: is_graph_operation.elims)
    with ins [OF rep] key RemoveQuad show ?thesis by (simp add: process_row_def v Let_def from_stored_def)
  next
    case InsertQuad
    have "insert (op, quad r) {x \<in> A. is_graph_operation op \<or> is_graph_operation (fst x) \<or> snd x \<noteq> quad r} =
        compact_step (op, quad r) A"
      using InsertQuad by (auto elim: is_graph_operation.elims)
    with ins [OF rep] key InsertQuad show ?thesis by (simp add: process_row_def v Let_def from_stored_def)
  qed
qed

lemma process_batch_compact:
  assumes f: "row_format conv"
  shows "represents conv state A \<Longrightarrow> \<forall>r \<in> set rows. from_stored (operation r) \<noteq> None \<Longrightarrow>
    \<exists>state'. process_batch conv rows state = Inr state' \<and>
      represents conv state' (fold compact_step (row_ops rows) A)"
proof (induction rows arbitrary: state A)
  case (Cons r rows)
  then obtain op where op: "from_stored (operation r) = Some op" by auto
  from process_row_compact [OF f Cons.prems(1) op] obtain s where
    s: "process_row conv r state = Inr s" "represents conv s (compact_step (op, quad r) A)" by blast
  from Cons.IH [OF s(2)] Cons.prems(2) show ?case by (auto simp: s(1) op row_ops_def)
qed (simp add: row_ops_def)

lemma process_batch_append:
  "process_batch conv (xs @ ys) st = and_then (process_batch conv xs st) (process_batch conv ys)"
proof (induction xs arbitrary: st)
  case (Cons x xs)
  then show ?case by (cases "process_row conv x st") simp_all
qed simp

lemma process_batches_concat: "process_batches conv bs state = process_batch conv (concat bs) state"
proof (induction bs arbitrary: state)
  case (Cons b bs)
  then show ?case by (cases "process_batch conv b state") (simp_all add: process_batch_append)
qed simp

lemma push_output:
  assumes f: "row_format conv"
  shows "set state \<subseteq> (\<lambda>(op, r). (op_key conv op r, as_stored op)) ` A \<Longrightarrow>
    \<exists>out. push_to_batch_coalescer conv state = Inr out \<and>
      map (\<lambda>(v, r). (op_key conv (the (from_stored v)) r, v)) out = state \<and>
      (\<forall>x \<in> set out. from_stored (fst x) \<noteq> None)"
proof (induction state)
  case (Cons e state)
  then obtain op r where e: "e = (op_key conv op r, as_stored op)" by auto
  have "parse_quad conv (convert_quad conv r) = r" using f unfolding row_format_def by blast
  then have "parse_quad conv (if is_graph_operation op then butlast (op_key conv op r) else op_key conv op r) = r"
    by (simp add: op_key_def)
  then have "output_row conv e = Inr (as_stored op, r)" by (auto simp: output_row_def e)
  with Cons e show ?case by auto
qed simp

theorem compute_log_changeset_compact:
  assumes f: "row_format conv" and valid: "\<forall>r \<in> set (concat batches). from_stored (operation r) \<noteq> None"
  shows "\<exists>out. compute_log_changeset conv batches = Inr out \<and> distinct out \<and>
    set out = (\<lambda>(op, r). (as_stored op, r)) ` compact (row_ops (concat batches))"
proof -
  have "represents conv [] {}" by (simp add: represents_def)
  from process_batch_compact [OF f this valid] obtain state where
    s: "process_batches conv batches [] = Inr state" and
    rep: "represents conv state (compact (row_ops (concat batches)))"
    by (auto simp: process_batches_concat compact_def)
  from push_output [OF f equalityD1 [OF representsD(2) [OF rep]]] obtain out where
    out: "push_to_batch_coalescer conv state = Inr out"
    and st: "map (\<lambda>(v, r). (op_key conv (the (from_stored v)) r, v)) out = state" (is "map ?k out = _")
    and ok: "\<forall>x \<in> set out. from_stored (fst x) \<noteq> None" by blast
  have "distinct state" using representsD(1) [OF rep] by (induction state) auto
  then have "distinct out" unfolding st [symmetric] by (simp add: distinct_map)
  moreover have "set out = (\<lambda>(op, r). (as_stored op, r)) ` compact (row_ops (concat batches))" (is "_ = ?o ` ?A")
  proof -
    have k: "?k ` set out = ?k ` (?o ` ?A)"
      using representsD(2) [OF rep] arg_cong [OF st, of set] by (auto simp: image_image case_prod_beta)
    have inj: "inj_on ?k {x. from_stored (fst x) \<noteq> None}"
      by (rule inj_onI) (auto dest!: op_key_inject [OF f] simp: from_stored_eq_Some)
    show ?thesis by (rule inj_on_image_eq_iff [OF inj, THEN iffD1, OF _ _ k]) (use ok in auto)
  qed
  ultimately show ?thesis using s out by (auto simp: compute_log_changeset_def)
qed

text \<open>A stored code that names no operation makes the stream panic, whatever surrounds it.\<close>

lemma compute_log_changeset_invalid:
  assumes f: "row_format conv" and bad: "\<exists>r \<in> set (concat batches). from_stored (operation r) = None"
  shows "compute_log_changeset conv batches = Inl (Panic ''stored op valid'')"
proof -
  from split_list_first_prop [OF bad] obtain xs r ys where
    rows: "concat batches = xs @ r # ys" and r: "from_stored (operation r) = None"
    and xs: "\<forall>x \<in> set xs. from_stored (operation x) \<noteq> None" by auto
  have "represents conv [] {}" by (simp add: represents_def)
  from process_batch_compact [OF f this xs] obtain state where
    "process_batch conv xs [] = Inr state" by blast
  moreover have "process_row conv r state = Inl (Panic ''stored op valid'')"
    by (simp add: process_row_def r)
  ultimately show ?thesis
    by (simp add: compute_log_changeset_def process_batches_concat rows process_batch_append)
qed

end
