(* ===== verification/Sorted_Distinct.thy ===== *)
theory Sorted_Distinct
  imports Rust_Prelude
begin

text \<open>
  The duplicate elimination over sorted input of \<open>lib/physical/src/distinct/exec.rs\<close>. The
  stream compares adjacent rows through the bytes of Arrow's row format, a parameter here, and
  carries the last row from one batch to the next. The theory shows that its fast and slow
  paths agree and that the batches together are the input without adjacent duplicates.
\<close>

text \<open>One poll on a batch: the emitted batch and the new \<open>last_row\<close>.\<close>

definition sorted_distinct_poll ::
  "('r \<Rightarrow> 'b) \<Rightarrow> 'b option \<Rightarrow> 'r list \<Rightarrow> 'r list \<times> 'b option" where
  "sorted_distinct_poll convert last_row batch =
     (if batch = [] then (batch, last_row)
      else
        let rows = map convert batch;
            n = length batch;
            dup_first = (last_row = Some (rows ! 0));
            start_idx = (if dup_first then 1 else 0);
            has_duplicates = (dup_first \<or> (\<exists>i \<in> set [1..<n]. rows ! i = rows ! (i - 1)));
            new_last = Some (rows ! (n - 1))
        in if \<not> has_duplicates then (batch, new_last)
           else
             let unique_indices = (if start_idx = (0::nat) then [0] else []) @
                   filter (\<lambda>i. rows ! i \<noteq> rows ! (i - 1)) [1..<n]
             in if unique_indices = [] then ([], new_last)
                else if start_idx = 1 \<and> length unique_indices = n - 1 then (drop 1 batch, new_last)
                else (map (\<lambda>i. batch ! i) unique_indices, new_last))"

fun sorted_distinct_stream :: "('r \<Rightarrow> 'b) \<Rightarrow> 'b option \<Rightarrow> 'r list list \<Rightarrow> 'r list list" where
  "sorted_distinct_stream convert last_row [] = []"
| "sorted_distinct_stream convert last_row (batch # batches) =
     (let (out, new_last) = sorted_distinct_poll convert last_row batch
      in out # sorted_distinct_stream convert new_last batches)"

definition sorted_distinct :: "('r \<Rightarrow> 'b) \<Rightarrow> 'r list list \<Rightarrow> 'r list" where
  "sorted_distinct convert batches = concat (sorted_distinct_stream convert None batches)"

section \<open>A row-at-a-time reference\<close>

fun drop_repeats :: "('r \<Rightarrow> 'b) \<Rightarrow> 'b option \<Rightarrow> 'r list \<Rightarrow> 'r list" where
  "drop_repeats convert last_row [] = []"
| "drop_repeats convert last_row (x # xs) =
     (if last_row = Some (convert x) then [] else [x]) @ drop_repeats convert (Some (convert x)) xs"

lemma upt_1_Suc: "[1..<Suc n] = map Suc [0..<n]"
  by (simp add: map_Suc_upt)

lemma changed_positions:
  "map (\<lambda>i. xs ! i) (filter (\<lambda>i. convert (xs ! i) \<noteq> (convert x # map convert xs) ! i) [0..<length xs]) =
     drop_repeats convert (Some (convert x)) xs"
proof (induction xs arbitrary: x)
  case (Cons y ys)
  have "[0..<length (y # ys)] = 0 # map Suc [0..<length ys]"
    by (simp add: map_Suc_upt upt_conv_Cons del: upt_Suc)
  then show ?case using Cons [of y] by (simp add: filter_map comp_def del: upt_Suc)
qed simp

lemma unique_indices_drop_repeats:
  "map (\<lambda>i. (x # xs) ! i) (filter (\<lambda>i. map convert (x # xs) ! i \<noteq> map convert (x # xs) ! (i - 1))
     [1..<Suc (length xs)]) = drop_repeats convert (Some (convert x)) xs"
proof -
  have "filter (\<lambda>i. map convert (x # xs) ! i \<noteq> map convert (x # xs) ! (i - 1)) [1..<Suc (length xs)] =
      map Suc (filter (\<lambda>i. convert (xs ! i) \<noteq> (convert x # map convert xs) ! i) [0..<length xs])"
    unfolding upt_1_Suc filter_map comp_def
    by (rule arg_cong [where f = "map Suc"], rule filter_cong) auto
  then show ?thesis using changed_positions [of xs convert x] by (simp add: comp_def del: upt_Suc)
qed

lemma drop_repeats_fast:
  assumes "length (drop_repeats convert l xs) = length xs"
  shows "drop_repeats convert l xs = xs"
proof -
  have len: "length (drop_repeats convert l ys) \<le> length ys" for l ys
    by (induction ys arbitrary: l) (auto simp: le_SucI)
  show ?thesis using assms
  proof (induction xs arbitrary: l)
    case (Cons x xs)
    then show ?case using len [of "Some (convert x)" xs] by (auto split: if_splits)
  qed simp
qed

lemma sorted_distinct_poll_eq:
  "sorted_distinct_poll convert l batch =
     (drop_repeats convert l batch, if batch = [] then l else Some (convert (last batch)))"
proof (cases batch)
  case Nil
  then show ?thesis by (simp add: sorted_distinct_poll_def)
next
  case (Cons x xs)
  let ?rows = "map convert (x # xs)" and ?n = "Suc (length xs)"
  let ?u = "filter (\<lambda>i. ?rows ! i \<noteq> ?rows ! (i - 1)) [1..<?n]"
  have u: "map (\<lambda>i. (x # xs) ! i) ?u = drop_repeats convert (Some (convert x)) xs"
    by (rule unique_indices_drop_repeats)
  have lastr: "?rows ! (?n - 1) = convert (last (x # xs))"
    by (simp add: last_conv_nth nth_Cons')
  have lu: "length ?u = length (drop_repeats convert (Some (convert x)) xs)"
    unfolding u [symmetric] by simp
  have all: "drop_repeats convert (Some (convert x)) xs = xs" if "length ?u = length xs"
    using that lu by (intro drop_repeats_fast) simp
  have none: "?u = [1..<?n]" if "\<not> (\<exists>i \<in> set [1..<?n]. ?rows ! i = ?rows ! (i - 1))"
    using that by (intro filter_True) blast
  have fast: "drop_repeats convert (Some (convert x)) xs = xs"
    if "\<not> (\<exists>i \<in> set [1..<?n]. ?rows ! i = ?rows ! (i - 1))"
    using all none [OF that] by (simp del: upt_Suc)
  define dup u where "dup = (\<exists>i \<in> set [1..<?n]. ?rows ! i = ?rows ! (i - 1))" and "u = ?u"
  note facts = u [folded u_def] lu [folded u_def] all [folded u_def] fast [folded dup_def] lastr
  have poll: "sorted_distinct_poll convert l batch =
     (if l \<noteq> Some (convert x) \<and> \<not> dup then (x # xs, Some (convert (last (x # xs))))
      else let us = (if l = Some (convert x) then [] else [0]) @ u
           in if us = [] then ([], Some (convert (last (x # xs))))
              else if l = Some (convert x) \<and> length us = length xs then (xs, Some (convert (last (x # xs))))
              else (map (\<lambda>i. (x # xs) ! i) us, Some (convert (last (x # xs)))))"
    unfolding Cons sorted_distinct_poll_def Let_def u_def dup_def using lastr
    by (simp del: upt_Suc last.simps)
  show ?thesis
    unfolding poll unfolding Let_def Cons using facts by (auto simp del: last.simps)
qed

lemma drop_repeats_append:
  "drop_repeats convert l (xs @ ys) =
     drop_repeats convert l xs @ drop_repeats convert (if xs = [] then l else Some (convert (last xs))) ys"
  by (induction xs arbitrary: l) auto

lemma sorted_distinct_stream_eq:
  "concat (sorted_distinct_stream convert l batches) = drop_repeats convert l (concat batches)"
  by (induction batches arbitrary: l) (simp_all add: sorted_distinct_poll_eq drop_repeats_append)

lemma drop_repeats_remdups_adj:
  assumes "inj convert"
  shows "x # drop_repeats convert (Some (convert x)) xs = remdups_adj (x # xs)"
  using assms by (induction xs arbitrary: x) (auto simp: inj_eq)

lemma sorted_distinct_eq: "inj convert \<Longrightarrow> sorted_distinct convert batches = remdups_adj (concat batches)"
  by (cases "concat batches") (simp_all add: sorted_distinct_def sorted_distinct_stream_eq
      drop_repeats_remdups_adj del: concat_eq_Nil_conv)

lemma remdups_adj_strict:
  "sorted_wrt (\<lambda>x y. key x \<le> key y) xs \<Longrightarrow> inj_on key (set xs) \<Longrightarrow>
   sorted_wrt (\<lambda>x y. key x < key y) (remdups_adj xs)" for key :: "'a \<Rightarrow> 'k :: linorder"
proof (induction xs rule: remdups_adj.induct)
  case (3 x y xs)
  show ?case
  proof (cases "x = y")
    case False
    then have "key x < key y" using "3.prems" by (auto simp: inj_on_def order.strict_iff_order)
    then show ?thesis using 3 False by (auto simp: intro: less_le_trans)
  qed (use 3 in auto)
qed auto

lemma strict_sorted_distinct: "sorted_wrt (\<lambda>x y. key x < (key y :: 'k :: linorder)) xs \<Longrightarrow> distinct xs"
  by (induction xs) auto

text \<open>C14: Over batches that together are sorted, the distinct stream emits every row of the input
  exactly once and in strictly increasing order, however the input is cut into batches, and
  including empty batches and the three fast paths.\<close>

theorem sorted_distinct_correct:
  fixes key :: "'r \<Rightarrow> 'k :: linorder"
  assumes "inj convert" "inj key" "sorted_wrt (\<lambda>x y. key x \<le> key y) (concat batches)"
  shows "sorted_wrt (\<lambda>x y. key x < key y) (sorted_distinct convert batches) \<and>
    set (sorted_distinct convert batches) = set (concat batches)"
  using assms remdups_adj_strict [of key "concat batches"]
  by (simp add: sorted_distinct_eq inj_on_subset [OF assms(2)])

theorem sorted_distinct_correct_witness:
  "set (sorted_distinct id [[1, 1, 2], [], [2, 3], [3, 3, 3], [4 :: nat]]) = {1, 2, 3, 4}"
proof -
  have "concat [[1, 1, 2], [], [2, 3], [3, 3, 3], [4 :: nat]] = [1, 1, 2, 2, 3, 3, 3, 3, 4]" by simp
  then show ?thesis
    using sorted_distinct_correct [of id id "[[1, 1, 2], [], [2, 3], [3, 3, 3], [4 :: nat]]"] by auto
qed

end
