(* ===== verification/Delta_Changeset.thy ===== *)
theory Delta_Changeset
  imports Delta_Log Sorted_Distinct "HOL-Library.Option_ord" "HOL-Library.Multiset"
begin

text \<open>
  The changesets of the Delta storage (\<open>lib/storage-deltalake/src/log\<close>): the eager changeset
  of \<open>changeset_eager.rs\<close>, the insertion-only changeset of \<open>add_only_changeset.rs\<close>, the
  choice between the two in \<open>mod.rs\<close> and the trait of \<open>changeset.rs\<close>, whose contract is the
  locale \<open>changeset_contract\<close>. Record batches are lists of rows. The relational operators of
  DataFusion that the code composes are the fields of the record \<open>Engine\<close>; \<open>engine_ok\<close>
  states their documented behaviour.
\<close>

section \<open>The relational operators of the query engine\<close>

datatype QuadComponent = GraphName | Subject | Predicate | Object

fun component_col :: "QuadComponent \<Rightarrow> 't quad_row \<Rightarrow> 't option" where
  "component_col GraphName r = graph_col r"
| "component_col Subject r = subject_col r"
| "component_col Predicate r = predicate_col r"
| "component_col Object r = object_col r"

definition components_key :: "QuadComponent list \<Rightarrow> 't quad_row \<Rightarrow> 't option list" where
  "components_key comps r = map (\<lambda>c. component_col c r) comps"

record 't Engine =
  row_converter :: "'t RowConverter"
  sort_log :: "'t log_row list \<Rightarrow> 't log_row list"
  sort_rows :: "QuadComponent list \<Rightarrow> 't quad_row list \<Rightarrow> 't quad_row list"
  merge_sorted :: "QuadComponent list \<Rightarrow> 't quad_row list list \<Rightarrow> 't quad_row list"
  distinct_graphs :: "'t option list \<Rightarrow> 't option list"
  right_anti_join :: "'t option list list \<Rightarrow> QuadComponent list \<Rightarrow> 't quad_row list \<Rightarrow> 't quad_row list"
  exact_num_rows :: "'t quad_row list \<Rightarrow> nat option"

text \<open>Sorting is a permutation in the order of the key, nulls first, with no promise on equal
  keys; merging sorted partitions gives a sorted permutation of their rows; \<open>distinct\<close> keeps
  one copy of each row; the right anti join, nulls equal to nulls, keeps the right rows whose
  key no left row has; a row count that the statistics call exact is the number of rows.\<close>

definition sorted_by :: "('a \<Rightarrow> 'k :: linorder) \<Rightarrow> 'a list \<Rightarrow> bool" where
  "sorted_by key xs \<longleftrightarrow> sorted_wrt (\<lambda>x y. key x \<le> key y) xs"

definition log_key :: "'t log_row \<Rightarrow> nat list" where
  "log_key r = [commit_version r, operation_seq_id r]"

definition engine_ok :: "('t :: linorder) Engine \<Rightarrow> bool" where
  "engine_ok E \<longleftrightarrow>
     row_format (row_converter E) \<and>
     (\<forall>xs. mset (sort_log E xs) = mset xs \<and> sorted_by log_key (sort_log E xs)) \<and>
     (\<forall>cs xs. mset (sort_rows E cs xs) = mset xs \<and> sorted_by (components_key cs) (sort_rows E cs xs)) \<and>
     (\<forall>cs xss. (\<forall>xs \<in> set xss. sorted_by (components_key cs) xs) \<longrightarrow>
        mset (merge_sorted E cs xss) = mset (concat xss) \<and>
        sorted_by (components_key cs) (merge_sorted E cs xss)) \<and>
     (\<forall>gs. distinct (distinct_graphs E gs) \<and> set (distinct_graphs E gs) = set gs) \<and>
     (\<forall>ks cs xs. mset (right_anti_join E ks cs xs) = mset (filter (\<lambda>x. components_key cs x \<notin> set ks) xs)) \<and>
     (\<forall>xs k. exact_num_rows E xs = Some k \<longrightarrow> k = length xs)"

section \<open>The eager changeset\<close>

record 't EagerChangeset =
  version_range :: DeltaStorageLogVersionRange
  cleared_graphs :: "'t option list"
  removed_quads :: "'t quad_row list"
  added_quads :: "'t quad_row list"
  added_named_graphs :: "'t option list"
  dropped_named_graphs :: "'t option list"

record 't coalescers =
  cleared_coal :: "'t option list"
  dropped_coal :: "'t option list"
  graphs_coal :: "'t option list"
  removed_coal :: "'t quad_row list"
  added_coal :: "'t quad_row list"

definition missing_component :: storage_error where
  "missing_component = Corruption
     ''Invalid remove quad operation: missing subject, predicate, or object''"

definition partition_row :: "int \<times> 't quad_row \<Rightarrow> 't coalescers \<Rightarrow> (storage_error, 't coalescers) result" where
  "partition_row row co =
     and_then (ok_or (from_stored (fst row)) (OtherError ''Invalid operation'')) (\<lambda>op.
       let q = snd row; g = graph_col q;
           graph_valid = (g \<noteq> None);
           quad_valid = (subject_col q \<noteq> None \<and> predicate_col q \<noteq> None \<and> object_col q \<noteq> None)
       in case op of
            DropGraph \<Rightarrow> Inr (co\<lparr>cleared_coal := cleared_coal co @ [g],
                dropped_coal := dropped_coal co @ (if graph_valid then [g] else [])\<rparr>)
          | ClearGraph \<Rightarrow> Inr (co\<lparr>cleared_coal := cleared_coal co @ [g],
                graphs_coal := graphs_coal co @ (if graph_valid then [g] else [])\<rparr>)
          | CreateGraph \<Rightarrow> Inr (co\<lparr>graphs_coal := graphs_coal co @ (if graph_valid then [g] else [])\<rparr>)
          | RemoveQuad \<Rightarrow>
              (if \<not> quad_valid then Inl missing_component
               else Inr (co\<lparr>removed_coal := removed_coal co @ [q]\<rparr>))
          | InsertQuad \<Rightarrow>
              (if \<not> quad_valid then Inl missing_component
               else Inr (co\<lparr>added_coal := added_coal co @ [q],
                   graphs_coal := graphs_coal co @ (if graph_valid then [g] else [])\<rparr>)))"

fun partition_rows :: "(int \<times> 't quad_row) list \<Rightarrow> 't coalescers \<Rightarrow> (storage_error, 't coalescers) result" where
  "partition_rows [] co = Inr co"
| "partition_rows (row # rows) co = and_then (partition_row row co) (partition_rows rows)"

definition partition_changeset_operations ::
  "'t Engine \<Rightarrow> DeltaStorageLogVersionRange \<Rightarrow> (int \<times> 't quad_row) list \<Rightarrow>
   (storage_error, 't EagerChangeset) result" where
  "partition_changeset_operations E vr rows =
     map_ok (\<lambda>co. \<lparr>version_range = vr,
         cleared_graphs = cleared_coal co,
         removed_quads = removed_coal co,
         added_quads = added_coal co,
         added_named_graphs = (if graphs_coal co = [] then [] else distinct_graphs E (graphs_coal co)),
         dropped_named_graphs = dropped_coal co\<rparr>)
       (partition_rows rows \<lparr>cleared_coal = [], dropped_coal = [], graphs_coal = [],
          removed_coal = [], added_coal = []\<rparr>)"

text \<open>A batch of graph names has no subject, predicate and object column: the missing columns
  are filled with nulls.\<close>

definition graph_only_row :: "'t option \<Rightarrow> 't quad_row" where
  "graph_only_row g = \<lparr>graph_col = g, subject_col = None, predicate_col = None, object_col = None\<rparr>"

definition append_category_to_ops ::
  "'t EagerChangeset \<Rightarrow> 't log_row list \<Rightarrow> 't quad_row list \<Rightarrow> DeltaStorageLogOperation \<Rightarrow> 't log_row list" where
  "append_category_to_ops c ops rows op =
     ops @ map (\<lambda>q. \<lparr>commit_version = ending_version (version_range c), operation_seq_id = 0,
                     operation = as_stored op, quad = q\<rparr>) rows"

definition to_operations :: "'t EagerChangeset \<Rightarrow> 't log_row list" where
  "to_operations c =
     (let ops = append_category_to_ops c [] (map graph_only_row (cleared_graphs c)) ClearGraph;
          ops = append_category_to_ops c ops (map graph_only_row (dropped_named_graphs c)) DropGraph;
          ops = append_category_to_ops c ops (map graph_only_row (added_named_graphs c)) CreateGraph;
          ops = append_category_to_ops c ops (removed_quads c) RemoveQuad
      in append_category_to_ops c ops (added_quads c) InsertQuad)"

definition eager_extend ::
  "'t Engine \<Rightarrow> 't EagerChangeset \<Rightarrow> DeltaStorageLogVersionRange \<Rightarrow> 't log_row list \<Rightarrow>
   (storage_error, 't EagerChangeset) result" where
  "eager_extend E c new_range new_ops =
     (let all_ops = to_operations c @ new_ops;
          vr = version_range_new_unchecked (starting_version (version_range c)) (ending_version new_range)
      in if all_ops = [] then
           Inr \<lparr>version_range = vr, cleared_graphs = [], removed_quads = [], added_quads = [],
                added_named_graphs = [], dropped_named_graphs = []\<rparr>
         else and_then (compute_log_changeset (row_converter E) [all_ops])
                (partition_changeset_operations E vr))"

section \<open>The insertion-only changeset\<close>

record op_stats =
  num_records :: nat
  min_operation :: "nat option"
  max_operation :: "nat option"

record 't OperationLogFile =
  file_version :: nat
  file_rows :: "'t log_row list"
  file_size :: int
  file_stats :: "(storage_error, op_stats option) result"

definition only_contains_quad_insertions :: "'t OperationLogFile \<Rightarrow> (storage_error, bool option) result" where
  "only_contains_quad_insertions f =
     map_ok (\<lambda>parsed. case parsed of
         None \<Rightarrow> None
       | Some stats \<Rightarrow>
           if num_records stats = 0 then None
           else case (min_operation stats, max_operation stats) of
                  (Some mi, Some ma) \<Rightarrow>
                    Some (int mi = as_stored InsertQuad \<and> int ma = as_stored InsertQuad)
                | _ \<Rightarrow> None)
       (file_stats f)"

record 't LazyInsertionOnlyChangeset =
  lazy_version_range :: DeltaStorageLogVersionRange
  lazy_files :: "'t OperationLogFile list"

definition file_groups :: "nat \<Rightarrow> 'f list \<Rightarrow> 'f list list" where
  "file_groups target_partitions files =
     filter (\<lambda>g. g \<noteq> [])
       (map (\<lambda>k. map ((!) files) (filter (\<lambda>i. i mod target_partitions = k) [0..<length files]))
            [0..<target_partitions])"

definition scan_all_files :: "nat \<Rightarrow> 't LazyInsertionOnlyChangeset \<Rightarrow> 't log_row list list" where
  "scan_all_files target_partitions c =
     map (\<lambda>g. concat (map file_rows g)) (file_groups target_partitions (lazy_files c))"

definition verify_not_null :: "'t quad_row list \<Rightarrow> (storage_error, 't quad_row list) result" where
  "verify_not_null rows =
     (if \<exists>q \<in> set rows. subject_col q = None \<or> predicate_col q = None \<or> object_col q = None
      then Inl (OtherError ''Null value found in non-nullable column'')
      else Inr rows)"

definition lazy_added_quads ::
  "'t Engine \<Rightarrow> nat \<Rightarrow> QuadComponent list option \<Rightarrow> 't LazyInsertionOnlyChangeset \<Rightarrow>
   (storage_error, 't quad_row list) result" where
  "lazy_added_quads E target_partitions intended_sort_order c =
     (let components = (case intended_sort_order of Some order \<Rightarrow> order
                        | None \<Rightarrow> [GraphName, Subject, Predicate, Object]);
          sorted_partitions = map (\<lambda>p. sort_rows E components (map quad p)) (scan_all_files target_partitions c);
          merged = merge_sorted E components sorted_partitions
      in verify_not_null (sorted_distinct (convert_quad (row_converter E)) [merged]))"

definition lazy_added_named_graphs ::
  "'t Engine \<Rightarrow> nat \<Rightarrow> 't LazyInsertionOnlyChangeset \<Rightarrow> 't option list" where
  "lazy_added_named_graphs E target_partitions c =
     (let named = map (filter (\<lambda>g. g \<noteq> None)) (map (map (graph_col \<circ> quad)) (scan_all_files target_partitions c));
          sorted_partitions = map (\<lambda>p. sort_rows E [GraphName] (map graph_only_row p)) named;
          merged = merge_sorted E [GraphName] sorted_partitions
      in sorted_distinct (convert_graph (row_converter E)) [map graph_col merged])"

definition lazy_as_eager_changeset ::
  "'t Engine \<Rightarrow> nat \<Rightarrow> 't LazyInsertionOnlyChangeset \<Rightarrow> (storage_error, 't EagerChangeset) result" where
  "lazy_as_eager_changeset E target_partitions c =
     and_then (lazy_added_quads E target_partitions None c) (\<lambda>quads.
       partition_changeset_operations E (lazy_version_range c)
         (map (\<lambda>q. (as_stored InsertQuad, q)) quads))"

section \<open>Partitioning a compaction\<close>

definition complete_row :: "'t quad_row \<Rightarrow> bool" where
  "complete_row q \<longleftrightarrow> subject_col q \<noteq> None \<and> predicate_col q \<noteq> None \<and> object_col q \<noteq> None"

definition row_valid :: "int \<times> 't quad_row \<Rightarrow> bool" where
  "row_valid x \<longleftrightarrow> (case from_stored (fst x) of None \<Rightarrow> False
     | Some op \<Rightarrow> is_graph_operation op \<or> complete_row (snd x))"

definition rows_with :: "DeltaStorageLogOperation set \<Rightarrow> (int \<times> 't quad_row) list \<Rightarrow> 't quad_row list" where
  "rows_with ops rows = map snd (filter (\<lambda>x. fst x \<in> as_stored ` ops) rows)"

definition named :: "'t quad_row list \<Rightarrow> 't option list" where
  "named rows = filter (\<lambda>g. g \<noteq> None) (map graph_col rows)"

lemma rows_with_simps [simp]:
  "rows_with ops [] = []"
  "rows_with ops (x # rows) = (if fst x \<in> as_stored ` ops then [snd x] else []) @ rows_with ops rows"
  by (simp_all add: rows_with_def)

lemma named_simps [simp]:
  "named [] = []"
  "named (q # rows) = (if graph_col q = None then [] else [graph_col q]) @ named rows"
  "named (rows @ rows') = named rows @ named rows'"
  by (simp_all add: named_def)

lemma partition_rows_valid:
  "\<forall>x \<in> set rows. row_valid x \<Longrightarrow> partition_rows rows co = Inr \<lparr>
     cleared_coal = cleared_coal co @ map graph_col (rows_with {DropGraph, ClearGraph} rows),
     dropped_coal = dropped_coal co @ named (rows_with {DropGraph} rows),
     graphs_coal = graphs_coal co @ named (rows_with {ClearGraph, CreateGraph, InsertQuad} rows),
     removed_coal = removed_coal co @ rows_with {RemoveQuad} rows,
     added_coal = added_coal co @ rows_with {InsertQuad} rows\<rparr>"
proof (induction rows arbitrary: co)
  case (Cons x rows)
  then obtain op where op: "from_stored (fst x) = Some op" "fst x = as_stored op"
    and c: "is_graph_operation op \<or> complete_row (snd x)"
    by (auto simp: row_valid_def from_stored_eq_Some split: option.splits)
  have IH: "partition_rows rows co' = Inr \<lparr>
     cleared_coal = cleared_coal co' @ map graph_col (rows_with {DropGraph, ClearGraph} rows),
     dropped_coal = dropped_coal co' @ named (rows_with {DropGraph} rows),
     graphs_coal = graphs_coal co' @ named (rows_with {ClearGraph, CreateGraph, InsertQuad} rows),
     removed_coal = removed_coal co' @ rows_with {RemoveQuad} rows,
     added_coal = added_coal co' @ rows_with {InsertQuad} rows\<rparr>" for co'
    using Cons by simp
  show ?case
    by (cases op) (use c op in \<open>simp_all add: partition_row_def IH complete_row_def Let_def\<close>)
qed simp

lemma partition_rows_invalid:
  "\<not> (\<forall>x \<in> set rows. row_valid x) \<Longrightarrow> \<exists>e. partition_rows rows co = Inl e"
proof (induction rows arbitrary: co)
  case (Cons x rows)
  show ?case
  proof (cases "row_valid x")
    case False
    then have "\<exists>e. partition_row x co = Inl e"
    proof (cases "from_stored (fst x)")
      case (Some op)
      with False show ?thesis
        by (cases op) (auto simp: row_valid_def partition_row_def complete_row_def Let_def)
    qed (simp add: partition_row_def)
    then show ?thesis by auto
  next
    case True
    with Cons have "\<exists>e. partition_rows rows co' = Inl e" for co' by auto
    then show ?thesis by (cases "partition_row x co") auto
  qed
qed simp

text \<open>The quads a changeset leaves of a dataset, read off its lists.\<close>

definition eager_apply :: "'t EagerChangeset \<Rightarrow> 't quad_row set \<Rightarrow> 't quad_row set" where
  "eager_apply c D = {q \<in> D. graph_col q \<notin> set (cleared_graphs c) \<and> q \<notin> set (removed_quads c)} \<union>
     set (added_quads c)"

definition eager_wf :: "'t EagerChangeset \<Rightarrow> bool" where
  "eager_wf c \<longleftrightarrow>
     set (dropped_named_graphs c) \<subseteq> set (cleared_graphs c) \<and>
     set (removed_quads c) \<inter> set (added_quads c) = {} \<and>
     (\<forall>q \<in> set (removed_quads c) \<union> set (added_quads c). complete_row q) \<and>
     (\<forall>q \<in> set (added_quads c). graph_col q \<noteq> None \<longrightarrow> graph_col q \<in> set (added_named_graphs c)) \<and>
     set (cleared_graphs c) - {None} \<subseteq> set (dropped_named_graphs c) \<union> set (added_named_graphs c) \<and>
     None \<notin> set (added_named_graphs c) \<union> set (dropped_named_graphs c) \<and>
     distinct (added_named_graphs c) \<and> distinct (added_quads c) \<and> distinct (removed_quads c)"

definition named_of :: "'t log_op set \<Rightarrow> 't option set" where
  "named_of A = {graph_col r | op r. (op, r) \<in> A \<and> graph_col r \<noteq> None \<and>
     (op = ClearGraph \<or> op = CreateGraph \<or> op = InsertQuad)}"

definition ops_complete :: "'t log_op set \<Rightarrow> bool" where
  "ops_complete A \<longleftrightarrow> (\<forall>x \<in> A. is_graph_operation (fst x) \<or> complete_row (snd x))"

lemma compact_disjoint: "(RemoveQuad, r) \<in> compact ops \<Longrightarrow> (InsertQuad, r) \<notin> compact ops"
proof -
  have "(\<forall>r. (RemoveQuad, r) \<in> A \<longrightarrow> (InsertQuad, r) \<notin> A) \<Longrightarrow>
      (RemoveQuad, r) \<in> fold compact_step ops A \<Longrightarrow> (InsertQuad, r) \<notin> fold compact_step ops A" for A
  proof (induction ops arbitrary: A)
    case (Cons x ops)
    obtain op q where x: "x = (op, q)" by fastforce
    have "\<forall>r. (RemoveQuad, r) \<in> compact_step x A \<longrightarrow> (InsertQuad, r) \<notin> compact_step x A"
      using Cons.prems(1) by (cases op) (auto simp: x)
    with Cons show ?case by simp
  qed simp
  then show "(RemoveQuad, r) \<in> compact ops \<Longrightarrow> (InsertQuad, r) \<notin> compact ops"
    by (simp add: compact_def)
qed

lemma partition_compact:
  assumes E: "engine_ok E" and d: "distinct rows"
    and rows: "set rows = (\<lambda>(op, r). (as_stored op, r)) ` compact ops"
    and ok: "ops_complete (compact ops)"
  shows "\<exists>c. partition_changeset_operations E vr rows = Inr c \<and> version_range c = vr \<and> eager_wf c \<and>
    eager_apply c = apply_net (compact ops) \<and> set (added_named_graphs c) = named_of (compact ops)"
proof -
  have valid: "\<forall>x \<in> set rows. row_valid x"
    using ok by (auto simp: rows row_valid_def ops_complete_def)
  have sel: "set (rows_with X rows) = {r. \<exists>op \<in> X. (op, r) \<in> compact ops}" for X
    unfolding rows_with_def using rows by (auto simp: image_iff) force+
  have dg: "distinct (distinct_graphs E gs)" "set (distinct_graphs E gs) = set gs" for gs
    using E by (simp_all add: engine_ok_def)
  have gr: "set (named xs) = {graph_col q | q. q \<in> set xs \<and> graph_col q \<noteq> None}" for xs :: "'a quad_row list"
    by (auto simp: named_def)
  have dist: "distinct (rows_with {op} rows)" for op
    using d unfolding rows_with_def by (auto simp: distinct_map inj_on_def)
  define c where "c = \<lparr>version_range = vr,
    cleared_graphs = map graph_col (rows_with {DropGraph, ClearGraph} rows),
    removed_quads = rows_with {RemoveQuad} rows, added_quads = rows_with {InsertQuad} rows,
    added_named_graphs = (if named (rows_with {ClearGraph, CreateGraph, InsertQuad} rows) = [] then []
      else distinct_graphs E (named (rows_with {ClearGraph, CreateGraph, InsertQuad} rows))),
    dropped_named_graphs = named (rows_with {DropGraph} rows)\<rparr>"
  have "partition_changeset_operations E vr rows = Inr c"
    unfolding partition_changeset_operations_def c_def by (subst partition_rows_valid [OF valid]) simp
  moreover have g: "set (added_named_graphs c) = set (named (rows_with {ClearGraph, CreateGraph, InsertQuad} rows))"
    by (simp add: c_def dg)
  moreover have "set (added_named_graphs c) = named_of (compact ops)"
    unfolding g gr sel named_of_def by blast
  moreover have "eager_apply c D = apply_net (compact ops) D" for D
    unfolding eager_apply_def apply_net_def cleared_def c_def by (auto simp: sel)
  moreover have "eager_wf c"
    unfolding eager_wf_def g unfolding c_def
    using ok dist dg(1) by (auto simp: sel gr ops_complete_def dest: compact_disjoint)
  ultimately show ?thesis by (auto simp: c_def)
qed

section \<open>Extending an eager changeset\<close>

lemma row_ops_append [simp]: "row_ops (xs @ ys) = row_ops xs @ row_ops ys"
  by (simp add: row_ops_def)

lemma row_ops_category [simp]:
  "row_ops (append_category_to_ops c ops rows op) = row_ops ops @ map (Pair op) rows"
  by (simp add: append_category_to_ops_def row_ops_def)

lemma row_ops_Nil [simp]: "row_ops [] = []"
  by (simp add: row_ops_def)

lemma graph_only_row_simps [simp]:
  "graph_col (graph_only_row g) = g" "graph_only_row g = graph_only_row h \<longleftrightarrow> g = h"
  by (simp_all add: graph_only_row_def)

lemma row_ops_to_operations:
  "row_ops (to_operations c) =
     map (Pair ClearGraph) (map graph_only_row (cleared_graphs c)) @
     map (Pair DropGraph) (map graph_only_row (dropped_named_graphs c)) @
     map (Pair CreateGraph) (map graph_only_row (added_named_graphs c)) @
     map (Pair RemoveQuad) (removed_quads c) @ map (Pair InsertQuad) (added_quads c)"
  by (simp add: to_operations_def)

lemma fold_compact_clear:
  "\<forall>x \<in> A. is_graph_operation (fst x) \<Longrightarrow>
   fold compact_step (map (Pair ClearGraph) rs) A = A \<union> Pair ClearGraph ` set rs"
proof (induction rs arbitrary: A)
  case (Cons r rs)
  have "compact_step (ClearGraph, r) A = insert (ClearGraph, r) A" using Cons.prems by auto
  with Cons show ?case by (simp del: compact_step.simps)
qed simp

lemma fold_compact_drop:
  "fold compact_step (map (Pair DropGraph) (map graph_only_row gs)) A =
     {x \<in> A. graph_col (snd x) \<notin> set gs} \<union> (\<lambda>g. (DropGraph, graph_only_row g)) ` set gs"
  by (induction gs arbitrary: A) auto

lemma fold_compact_create:
  "fold compact_step (map (Pair CreateGraph) rs) A = A \<union> Pair CreateGraph ` set rs"
  by (induction rs arbitrary: A) auto

lemma fold_compact_remove:
  "fold compact_step (map (Pair RemoveQuad) rs) A = (A - Pair InsertQuad ` set rs) \<union> Pair RemoveQuad ` set rs"
  by (induction rs arbitrary: A) auto

lemma fold_compact_insert:
  "fold compact_step (map (Pair InsertQuad) rs) A = (A - Pair RemoveQuad ` set rs) \<union> Pair InsertQuad ` set rs"
  by (induction rs arbitrary: A) auto

lemmas fold_compact_simps = fold_compact_clear fold_compact_drop fold_compact_create
  fold_compact_remove fold_compact_insert

lemma compact_to_operations:
  assumes "eager_wf c"
  shows "compact (row_ops (to_operations c)) =
    {(ClearGraph, graph_only_row g) | g. g \<in> set (cleared_graphs c) \<and> g \<notin> set (dropped_named_graphs c)} \<union>
    (\<lambda>g. (DropGraph, graph_only_row g)) ` set (dropped_named_graphs c) \<union>
    (\<lambda>g. (CreateGraph, graph_only_row g)) ` set (added_named_graphs c) \<union>
    Pair RemoveQuad ` set (removed_quads c) \<union> Pair InsertQuad ` set (added_quads c)"
  using assms unfolding compact_def row_ops_to_operations fold_append comp_def
  by (simp add: fold_compact_simps del: map_map) (auto simp: eager_wf_def)

lemma ex_graph_only: "(\<exists>r. g = graph_col r \<and> r \<in> graph_only_row ` X) \<longleftrightarrow> g \<in> X"
  by (auto intro!: exI [of _ "graph_only_row g"])

lemma mem_compact_to_operations:
  assumes "eager_wf c"
  shows "(op, r) \<in> compact (row_ops (to_operations c)) \<longleftrightarrow>
      (op = ClearGraph \<and> r \<in> graph_only_row ` (set (cleared_graphs c) - set (dropped_named_graphs c))) \<or>
      (op = DropGraph \<and> r \<in> graph_only_row ` set (dropped_named_graphs c)) \<or>
      (op = CreateGraph \<and> r \<in> graph_only_row ` set (added_named_graphs c)) \<or>
      (op = RemoveQuad \<and> r \<in> set (removed_quads c)) \<or> (op = InsertQuad \<and> r \<in> set (added_quads c))"
  unfolding compact_to_operations [OF assms] by auto

lemma eager_effect:
  assumes "eager_wf c"
  shows "apply_net (compact (row_ops (to_operations c))) D = eager_apply c D"
proof -
  let ?A = "compact (row_ops (to_operations c))"
  note mem = mem_compact_to_operations [OF assms]
  have "g \<in> cleared ?A \<longleftrightarrow> g \<in> set (cleared_graphs c)" for g
  proof -
    have "g \<in> cleared ?A \<longleftrightarrow> (\<exists>r. g = graph_col r \<and> ((DropGraph, r) \<in> ?A \<or> (ClearGraph, r) \<in> ?A))"
      by (auto simp: cleared_def)
    also have "\<dots> \<longleftrightarrow> g \<in> set (dropped_named_graphs c) \<or>
        g \<in> set (cleared_graphs c) - set (dropped_named_graphs c)"
      by (simp add: mem conj_disj_distribL ex_disj_distrib ex_graph_only)
    also have "\<dots> \<longleftrightarrow> g \<in> set (cleared_graphs c)" using assms by (auto simp: eager_wf_def)
    finally show ?thesis .
  qed
  then show ?thesis by (auto simp: apply_net_def eager_apply_def mem)
qed

lemma eager_named:
  assumes "eager_wf c"
  shows "named_of (compact (row_ops (to_operations c))) = set (added_named_graphs c)"
proof (rule set_eqI)
  fix g
  let ?A = "compact (row_ops (to_operations c))"
  have "g \<in> named_of ?A \<longleftrightarrow> g \<noteq> None \<and> (\<exists>r. g = graph_col r \<and>
      ((ClearGraph, r) \<in> ?A \<or> (CreateGraph, r) \<in> ?A \<or> (InsertQuad, r) \<in> ?A))"
    unfolding named_of_def mem_Collect_eq by metis
  also have "\<dots> \<longleftrightarrow> g \<noteq> None \<and> (g \<in> set (cleared_graphs c) - set (dropped_named_graphs c) \<or>
      g \<in> set (added_named_graphs c) \<or> (\<exists>r \<in> set (added_quads c). g = graph_col r))"
    by (auto simp add: mem_compact_to_operations [OF assms] conj_disj_distribL ex_disj_distrib ex_graph_only)
  also have "\<dots> \<longleftrightarrow> g \<in> set (added_named_graphs c)"
    using assms unfolding eager_wf_def by auto
  finally show "g \<in> named_of ?A \<longleftrightarrow> g \<in> set (added_named_graphs c)" .
qed

lemma compact_subset: "compact ops \<subseteq> set ops"
proof -
  have "fold compact_step ops A \<subseteq> set ops \<union> A" for A
  proof (induction ops arbitrary: A)
    case (Cons x ops)
    obtain op r where x: "x = (op, r)" by fastforce
    have "compact_step x A \<subseteq> insert x A" by (cases op) (auto simp: x)
    with Cons [of "compact_step x A"] show ?case by auto
  qed simp
  from this [of "{}"] show ?thesis by (simp add: compact_def)
qed

definition log_row_valid :: "'t log_row \<Rightarrow> bool" where
  "log_row_valid r \<longleftrightarrow> row_valid (operation r, quad r)"

lemma log_row_valid_ops:
  assumes "\<forall>r \<in> set rows. log_row_valid r"
  shows "\<forall>r \<in> set rows. from_stored (operation r) \<noteq> None" "ops_complete (compact (row_ops rows))"
proof -
  show "\<forall>r \<in> set rows. from_stored (operation r) \<noteq> None"
    using assms by (auto simp: log_row_valid_def row_valid_def split: option.splits)
  have "ops_complete (set (row_ops rows))"
    using assms by (fastforce simp: ops_complete_def row_ops_def log_row_valid_def row_valid_def split: option.splits)
  then show "ops_complete (compact (row_ops rows))"
    using compact_subset [of "row_ops rows"] by (auto simp: ops_complete_def)
qed

text \<open>The eager changeset of a list of log rows.\<close>

definition eager_changeset_of ::
  "'t Engine \<Rightarrow> DeltaStorageLogVersionRange \<Rightarrow> 't log_row list \<Rightarrow> (storage_error, 't EagerChangeset) result" where
  "eager_changeset_of E vr rows =
     and_then (compute_log_changeset (row_converter E) [rows]) (partition_changeset_operations E vr)"

lemma eager_changeset_of_correct:
  assumes E: "engine_ok E" and valid: "\<forall>r \<in> set rows. log_row_valid r"
  shows "\<exists>c. eager_changeset_of E vr rows = Inr c \<and> version_range c = vr \<and> eager_wf c \<and>
    eager_apply c = replay (row_ops rows) \<and> set (added_named_graphs c) = named_of (compact (row_ops rows))"
proof -
  have f: "row_format (row_converter E)" using E by (simp add: engine_ok_def)
  from compute_log_changeset_compact [OF f, of "[rows]"] log_row_valid_ops(1) [OF valid] obtain out where
    out: "compute_log_changeset (row_converter E) [rows] = Inr out" "distinct out"
      "set out = (\<lambda>(op, r). (as_stored op, r)) ` compact (row_ops rows)" by auto
  from partition_compact [OF E out(2,3) log_row_valid_ops(2) [OF valid], of vr]
  show ?thesis by (simp add: eager_changeset_of_def out(1) apply_net_compact fun_eq_iff)
qed

lemma to_operations_valid:
  assumes "eager_wf c"
  shows "\<forall>r \<in> set (to_operations c). log_row_valid r"
  using assms unfolding to_operations_def append_category_to_ops_def eager_wf_def
  by (auto simp: log_row_valid_def row_valid_def Let_def simp del: as_stored.simps)

lemma extend_correct_aux:
  assumes E: "engine_ok E" and wf: "eager_wf c" and valid: "\<forall>r \<in> set new_ops. log_row_valid r"
  shows "\<exists>c'. eager_extend E c new_range new_ops = Inr c' \<and> eager_wf c' \<and>
    starting_version (version_range c') = starting_version (version_range c) \<and>
    ending_version (version_range c') = ending_version new_range \<and>
    (\<forall>D. eager_apply c' D = replay (row_ops new_ops) (eager_apply c D))"
proof (cases "to_operations c @ new_ops = []")
  case True
  then have "new_ops = []" and "cleared_graphs c = []" "removed_quads c = []" "added_quads c = []"
    by (auto simp: to_operations_def append_category_to_ops_def Let_def)
  then show ?thesis using True
    by (simp add: eager_extend_def eager_apply_def replay_def eager_wf_def version_range_new_unchecked_def)
next
  case False
  let ?vr = "version_range_new_unchecked (starting_version (version_range c)) (ending_version new_range)"
  have "\<forall>r \<in> set (to_operations c @ new_ops). log_row_valid r"
    using to_operations_valid [OF wf] valid by auto
  from eager_changeset_of_correct [OF E this, of ?vr] obtain c' where
    c': "eager_changeset_of E ?vr (to_operations c @ new_ops) = Inr c'" "version_range c' = ?vr" "eager_wf c'"
      "eager_apply c' = replay (row_ops (to_operations c @ new_ops))" by blast
  have "eager_apply c' D = replay (row_ops new_ops) (eager_apply c D)" for D
    using eager_effect [OF wf, of D] by (simp add: c'(4) replay_def apply_net_compact)
  with c' False show ?thesis
    by (auto simp: eager_extend_def eager_changeset_of_def version_range_new_unchecked_def Let_def)
qed

end
