(* ===== verification/Delta_Changeset_Trait.thy ===== *)
theory Delta_Changeset_Trait
  imports Delta_Changeset
begin

text \<open>
  The trait \<open>DeltaQuadsStorageLogChangeset\<close> of \<open>changeset.rs\<close> as the locale
  \<open>changeset_contract\<close>, its two implementations, and \<open>compute_changeset\<close> of \<open>log/mod.rs\<close>,
  which loads the files of a version range, chooses an implementation and keeps the result in
  the cache of \<open>changeset_manager.rs\<close>.
\<close>

section \<open>Trait methods and their implementations\<close>

definition create_result :: "'a list \<Rightarrow> 'a list option" where
  "create_result batches = (if batches = [] then None else Some batches)"

fun opt_rows :: "'a list option \<Rightarrow> 'a list" where
  "opt_rows None = []"
| "opt_rows (Some xs) = xs"

lemma opt_rows_create_result [simp]: "opt_rows (create_result xs) = xs"
  by (simp add: create_result_def)

datatype 't Changeset = EagerCs "'t EagerChangeset" | LazyCs "'t LazyInsertionOnlyChangeset"

fun cs_version_range :: "'t Changeset \<Rightarrow> DeltaStorageLogVersionRange" where
  "cs_version_range (EagerCs c) = version_range c"
| "cs_version_range (LazyCs c) = lazy_version_range c"

fun cs_cleared_graphs :: "'t Changeset \<Rightarrow> 't option list option" where
  "cs_cleared_graphs (EagerCs c) = create_result (cleared_graphs c)"
| "cs_cleared_graphs (LazyCs c) = None"

fun cs_removed_quads :: "'t Changeset \<Rightarrow> 't quad_row list option" where
  "cs_removed_quads (EagerCs c) = create_result (removed_quads c)"
| "cs_removed_quads (LazyCs c) = None"

fun cs_added_quads ::
  "'t Engine \<Rightarrow> nat \<Rightarrow> QuadComponent list option \<Rightarrow> 't Changeset \<Rightarrow>
   (storage_error, 't quad_row list option) result" where
  "cs_added_quads E n order (EagerCs c) = Inr (create_result (added_quads c))"
| "cs_added_quads E n order (LazyCs c) = map_ok Some (lazy_added_quads E n order c)"

fun cs_added_named_graphs :: "'t Engine \<Rightarrow> nat \<Rightarrow> 't Changeset \<Rightarrow> 't option list option" where
  "cs_added_named_graphs E n (EagerCs c) = create_result (added_named_graphs c)"
| "cs_added_named_graphs E n (LazyCs c) = Some (lazy_added_named_graphs E n c)"

fun cs_dropped_named_graphs :: "'t Changeset \<Rightarrow> 't option list option" where
  "cs_dropped_named_graphs (EagerCs c) = create_result (dropped_named_graphs c)"
| "cs_dropped_named_graphs (LazyCs c) = None"

fun cs_as_eager_changeset :: "'t Engine \<Rightarrow> nat \<Rightarrow> 't Changeset \<Rightarrow> (storage_error, 't EagerChangeset) result" where
  "cs_as_eager_changeset E n (EagerCs c) = Inr c"
| "cs_as_eager_changeset E n (LazyCs c) = lazy_as_eager_changeset E n c"

section \<open>Computing the changeset of a version range\<close>

text \<open>The log table: the files of each commit, if the commit exists.\<close>

type_synonym 't log_table = "nat \<Rightarrow> 't OperationLogFile list option"

type_synonym 't changeset_cache = "DeltaStorageLogVersionRange \<Rightarrow> 't Changeset option"

definition load_added_files_between :: "'t log_table \<Rightarrow> DeltaStorageLogVersionRange \<Rightarrow> 't OperationLogFile list" where
  "load_added_files_between log vr =
     concat (map (\<lambda>v. case log v of None \<Rightarrow> [] | Some files \<Rightarrow> files)
       [starting_version vr..<Suc (ending_version vr)])"

fun files_only_contain_appends :: "'t OperationLogFile list \<Rightarrow> (storage_error, bool) result" where
  "files_only_contain_appends [] = Inr True"
| "files_only_contain_appends (f # files) =
     and_then (only_contains_quad_insertions f) (\<lambda>b.
       if b \<noteq> Some True then Inr False else files_only_contain_appends files)"

definition files_are_large :: "'t OperationLogFile list \<Rightarrow> bool" where
  "files_are_large files \<longleftrightarrow> sum_list (map file_size files) > 1024 * 1024 * 100"

definition versioned_rows :: "'t OperationLogFile list \<Rightarrow> 't log_row list" where
  "versioned_rows files = concat (map (\<lambda>f. map (commit_version_update (\<lambda>_. file_version f)) (file_rows f)) files)"

definition query_cdf :: "'t Engine \<Rightarrow> 't OperationLogFile list \<Rightarrow> 't log_row list" where
  "query_cdf E files = sort_log E (versioned_rows files)"

definition compute_changeset ::
  "'t Engine \<Rightarrow> 't log_table \<Rightarrow> 't changeset_cache \<Rightarrow> DeltaStorageLogVersionRange \<Rightarrow>
   (storage_error, 't Changeset \<times> 't changeset_cache) result" where
  "compute_changeset E log cache vr =
     (case cache vr of
        Some c \<Rightarrow> Inr (c, cache)
      | None \<Rightarrow>
          let added_files = load_added_files_between log vr
          in and_then (files_only_contain_appends added_files) (\<lambda>only_appends.
               if only_appends \<and> files_are_large added_files then
                 let c = LazyCs \<lparr>lazy_version_range = vr, lazy_files = added_files\<rparr>
                 in Inr (c, cache(vr \<mapsto> c))
               else
                 map_ok (\<lambda>e. let c = EagerCs e in (c, cache(vr \<mapsto> c)))
                   (and_then (compute_log_changeset (row_converter E) [query_cdf E added_files])
                      (partition_changeset_operations E vr))))"

section \<open>The contract of a changeset\<close>

definition order_ok :: "QuadComponent list option \<Rightarrow> bool" where
  "order_ok order \<longleftrightarrow> (case order of None \<Rightarrow> True | Some cs \<Rightarrow> set cs = {GraphName, Subject, Predicate, Object})"

text \<open>A changeset stands for a list of log operations: its quad lists have the effect of
  replaying them, and its named graphs are those the compaction adds.\<close>

locale changeset_contract =
  fixes inv :: "'c \<Rightarrow> bool"
    and ops :: "'c \<Rightarrow> 't log_op list"
    and cleared_graphs_of :: "'c \<Rightarrow> 't option list option"
    and removed_quads_of :: "'c \<Rightarrow> 't quad_row list option"
    and added_quads_of :: "QuadComponent list option \<Rightarrow> 'c \<Rightarrow> (storage_error, 't quad_row list option) result"
    and named_graphs_of :: "'c \<Rightarrow> 't option list option"
  assumes added_ok: "inv c \<Longrightarrow> \<exists>a. added_quads_of order c = Inr a"
    and effect: "inv c \<Longrightarrow> added_quads_of order c = Inr a \<Longrightarrow>
      {q \<in> D. graph_col q \<notin> set (opt_rows (cleared_graphs_of c)) \<and>
              q \<notin> set (opt_rows (removed_quads_of c))} \<union> set (opt_rows a) = replay (ops c) D"
    and named: "inv c \<Longrightarrow> set (opt_rows (named_graphs_of c)) = named_of (compact (ops c))"
begin

text \<open>Without a base, the added quads alone are the dataset.\<close>

lemma added_is_replay:
  "inv c \<Longrightarrow> added_quads_of order c = Inr a \<Longrightarrow> set (opt_rows a) = replay (ops c) {}"
  using effect [of c order a "{}"] by simp

text \<open>Applying a changeset twice is applying it once.\<close>

lemma effect_idem:
  assumes "inv c"
  shows "replay (ops c) (replay (ops c) D) = replay (ops c) D"
proof -
  obtain a where a: "added_quads_of None c = Inr a" using added_ok [OF assms] by blast
  show ?thesis unfolding effect [OF assms a, symmetric] by blast
qed

text \<open>Every visible quad of a named graph lies in a listed graph.\<close>

lemma graph_of_added_quad_listed:
  assumes "inv c" "added_quads_of order c = Inr a" "q \<in> set (opt_rows a)" "graph_col q \<noteq> None"
  shows "graph_col q \<in> set (opt_rows (named_graphs_of c))"
proof -
  have "q \<in> apply_net (compact (ops c)) {}"
    using added_is_replay [OF assms(1,2)] assms(3) by (simp add: apply_net_compact)
  then have "(InsertQuad, q) \<in> compact (ops c)" by (simp add: apply_net_def)
  then show ?thesis using assms(4) named [OF assms(1)] by (auto simp: named_of_def)
qed

end

section \<open>The eager implementation\<close>

interpretation eager: changeset_contract "\<lambda>c. eager_wf c" "\<lambda>c. row_ops (to_operations c)"
  "\<lambda>c. create_result (cleared_graphs c)" "\<lambda>c. create_result (removed_quads c)"
  "\<lambda>order c. Inr (create_result (added_quads c))" "\<lambda>c. create_result (added_named_graphs c)"
proof unfold_locales
  fix c order a D
  assume wf: "eager_wf c"
  show "\<exists>a. (\<lambda>order c. Inr (create_result (added_quads c))) order c = Inr a" by simp
  show "set (opt_rows (create_result (added_named_graphs c))) = named_of (compact (row_ops (to_operations c)))"
    by (simp add: eager_named [OF wf])
  assume "Inr (create_result (added_quads c)) = (Inr a :: (storage_error, _) result)"
  then have "a = create_result (added_quads c)" by simp
  then show "{q \<in> D. graph_col q \<notin> set (opt_rows (create_result (cleared_graphs c))) \<and>
      q \<notin> set (opt_rows (create_result (removed_quads c)))} \<union> set (opt_rows a) =
    replay (row_ops (to_operations c)) D"
    using eager_effect [OF wf, of D] by (simp add: apply_net_compact eager_apply_def)
qed

section \<open>The insertion-only implementation\<close>

lemma file_groups_set:
  assumes "0 < n"
  shows "set (concat (file_groups n files)) = set files"
proof -
  have "x \<in> set (concat (file_groups n files))" if x: "x \<in> set files" for x
  proof -
    from x obtain i where i: "i < length files" "x = files ! i" by (auto simp: in_set_conv_nth)
    let ?g = "map ((!) files) (filter (\<lambda>j. j mod n = i mod n) [0..<length files])"
    have g: "x \<in> set ?g" using i by auto
    then have "?g \<noteq> []" by (metis empty_iff empty_set)
    then have "?g \<in> set (file_groups n files)"
      using assms unfolding file_groups_def set_filter set_map
      by (intro CollectI conjI imageI) (auto simp del: filter_empty_conv)
    with g show ?thesis by (auto simp del: set_map)
  qed
  moreover have "set (concat (file_groups n files)) \<subseteq> set files" by (auto simp: file_groups_def)
  ultimately show ?thesis by blast
qed

definition lazy_rows :: "'t LazyInsertionOnlyChangeset \<Rightarrow> 't log_row list" where
  "lazy_rows c = concat (map file_rows (lazy_files c))"

lemma scan_all_files_set:
  "0 < n \<Longrightarrow> set (concat (scan_all_files n c)) = set (lazy_rows c)"
  using file_groups_set [of n "lazy_files c"]
  by (auto simp: scan_all_files_def lazy_rows_def)

definition lazy_inv :: "('t :: linorder) Engine \<Rightarrow> nat \<Rightarrow> 't LazyInsertionOnlyChangeset \<Rightarrow> bool" where
  "lazy_inv E n c \<longleftrightarrow> engine_ok E \<and> 0 < n \<and>
     (\<forall>r \<in> set (lazy_rows c). operation r = as_stored InsertQuad \<and> complete_row (quad r))"

lemma merged_set:
  assumes "engine_ok E"
  shows "set (merge_sorted E cs (map (\<lambda>p. sort_rows E cs (f p)) ps)) = (\<Union>p \<in> set ps. set (f p))"
proof -
  have s: "mset (sort_rows E cs xs) = mset xs" "sorted_by (components_key cs) (sort_rows E cs xs)" for xs
    using assms by (simp_all add: engine_ok_def)
  have "mset (merge_sorted E cs (map (\<lambda>p. sort_rows E cs (f p)) ps)) =
      mset (concat (map (\<lambda>p. sort_rows E cs (f p)) ps))"
    using assms s(2) unfolding engine_ok_def by simp
  then have "set (merge_sorted E cs (map (\<lambda>p. sort_rows E cs (f p)) ps)) =
      set (concat (map (\<lambda>p. sort_rows E cs (f p)) ps))" by (rule mset_eq_setD)
  moreover have "set (sort_rows E cs xs) = set xs" for xs by (rule mset_eq_setD [OF s(1)])
  ultimately show ?thesis by simp
qed

lemma engine_converter:
  assumes "engine_ok E"
  shows "inj (convert_quad (row_converter E))" "inj (convert_graph (row_converter E))"
proof -
  have f: "row_format (row_converter E)" using assms by (simp add: engine_ok_def)
  show "inj (convert_quad (row_converter E))"
    by (rule injI) (metis convert_quad_prefix [OF f] append_Nil2 prefix_order.order_refl)
  show "inj (convert_graph (row_converter E))"
    by (rule injI) (use f in \<open>auto simp: row_format_def\<close>)
qed

lemma sorted_distinct_set: "inj convert \<Longrightarrow> set (sorted_distinct convert bs) = set (concat bs)"
  by (simp add: sorted_distinct_eq)

lemma lazy_added_quads_set:
  assumes "lazy_inv E n c"
  shows "\<exists>qs. lazy_added_quads E n order c = Inr qs \<and> set qs = quad ` set (lazy_rows c)"
proof -
  have E: "engine_ok E" and n: "0 < n" using assms by (simp_all add: lazy_inv_def)
  define cs where "cs = (case order of Some order \<Rightarrow> order | None \<Rightarrow> [GraphName, Subject, Predicate, Object])"
  define qs where "qs = sorted_distinct (convert_quad (row_converter E))
      [merge_sorted E cs (map (\<lambda>p. sort_rows E cs (map quad p)) (scan_all_files n c))]"
  have "set qs = quad ` set (lazy_rows c)"
    using scan_all_files_set [OF n, of c]
    by (auto simp: qs_def sorted_distinct_set [OF engine_converter(1) [OF E]] merged_set [OF E])
  moreover from this have "verify_not_null qs = Inr qs"
    using assms by (auto simp: verify_not_null_def lazy_inv_def complete_row_def)
  ultimately show ?thesis by (simp add: lazy_added_quads_def cs_def [symmetric] qs_def [symmetric] Let_def)
qed

lemma lazy_named_set:
  assumes "lazy_inv E n c"
  shows "set (lazy_added_named_graphs E n c) = (graph_col \<circ> quad) ` set (lazy_rows c) - {None}"
proof -
  have E: "engine_ok E" and n: "0 < n" using assms by (simp_all add: lazy_inv_def)
  show ?thesis
    unfolding lazy_added_named_graphs_def Let_def sorted_distinct_set [OF engine_converter(2) [OF E]]
    using scan_all_files_set [OF n, of c]
    by (simp add: merged_set [OF E] del: map_map) (force simp: image_iff)
qed

definition lazy_ops :: "'t LazyInsertionOnlyChangeset \<Rightarrow> 't log_op list" where
  "lazy_ops c = map (Pair InsertQuad) (map quad (lazy_rows c))"

lemma replay_inserts: "replay (map (Pair InsertQuad) qs) D = D \<union> set qs"
  unfolding replay_def by (induction qs arbitrary: D) auto

lemma compact_inserts: "compact (map (Pair InsertQuad) qs) = Pair InsertQuad ` set qs"
  unfolding compact_def by (subst fold_compact_insert) simp

lemma named_of_inserts: "named_of (Pair InsertQuad ` Q) = graph_col ` Q - {None}"
  unfolding named_of_def by auto

interpretation lazy: changeset_contract "lazy_inv E n" lazy_ops "\<lambda>c. None" "\<lambda>c. None"
  "\<lambda>order c. map_ok Some (lazy_added_quads E n order c)" "\<lambda>c. Some (lazy_added_named_graphs E n c)"
  for E :: "'t :: linorder Engine" and n :: nat
proof unfold_locales
  fix c :: "'t LazyInsertionOnlyChangeset" and order a D
  assume inv: "lazy_inv E n c"
  from lazy_added_quads_set [OF inv, of order] obtain qs where
    qs: "lazy_added_quads E n order c = Inr qs" "set qs = quad ` set (lazy_rows c)" by blast
  show "\<exists>a. map_ok Some (lazy_added_quads E n order c) = Inr a" by (simp add: qs)
  show "set (opt_rows (Some (lazy_added_named_graphs E n c))) = named_of (compact (lazy_ops c))"
    unfolding lazy_ops_def compact_inserts named_of_inserts
    by (simp add: lazy_named_set [OF inv] image_image comp_def)
  assume "map_ok Some (lazy_added_quads E n order c) = Inr a"
  then show "{q \<in> D. graph_col q \<notin> set (opt_rows None) \<and> q \<notin> set (opt_rows None)} \<union> set (opt_rows a) =
      replay (lazy_ops c) D"
    by (auto simp: qs lazy_ops_def replay_inserts simp del: map_map)
qed

fun cs_inv :: "('t :: linorder) Engine \<Rightarrow> nat \<Rightarrow> 't Changeset \<Rightarrow> bool" where
  "cs_inv E n (EagerCs c) = eager_wf c"
| "cs_inv E n (LazyCs c) = lazy_inv E n c"

fun cs_ops :: "'t Changeset \<Rightarrow> 't log_op list" where
  "cs_ops (EagerCs c) = row_ops (to_operations c)"
| "cs_ops (LazyCs c) = lazy_ops c"

interpretation cs: changeset_contract "cs_inv E n" cs_ops cs_cleared_graphs cs_removed_quads
  "cs_added_quads E n" "cs_added_named_graphs E n"
  for E :: "'t :: linorder Engine" and n :: nat
proof unfold_locales
  fix c :: "'t Changeset" and order a D
  assume inv: "cs_inv E n c"
  show "\<exists>a. cs_added_quads E n order c = Inr a"
    using inv lazy.added_ok [of E n _ order] by (cases c) auto
  show "set (opt_rows (cs_added_named_graphs E n c)) = named_of (compact (cs_ops c))"
    using inv eager.named lazy.named [of E n] by (cases c) auto
  assume a: "cs_added_quads E n order c = Inr a"
  show "{q \<in> D. graph_col q \<notin> set (opt_rows (cs_cleared_graphs c)) \<and>
      q \<notin> set (opt_rows (cs_removed_quads c))} \<union> set (opt_rows a) = replay (cs_ops c) D"
  proof (cases c)
    case (EagerCs e)
    then show ?thesis using inv a eager.effect [where c = e and D = D] by simp
  next
    case (LazyCs l)
    then show ?thesis using inv a lazy.effect [where c = l and D = D and E = E and n = n] by simp
  qed
qed

section \<open>The changeset of a version range\<close>

definition stats_cover :: "op_stats \<Rightarrow> 't log_row list \<Rightarrow> bool" where
  "stats_cover s rows \<longleftrightarrow> (case (min_operation s, max_operation s) of
     (Some mi, Some ma) \<Rightarrow> num_records s \<noteq> 0 \<longrightarrow> (\<forall>r \<in> set rows. int mi \<le> operation r \<and> operation r \<le> int ma)
   | _ \<Rightarrow> True)"

definition file_ok :: "'t OperationLogFile \<Rightarrow> bool" where
  "file_ok f \<longleftrightarrow> (\<forall>r \<in> set (file_rows f). log_row_valid r) \<and>
     (\<exists>st. file_stats f = Inr st \<and> (case st of None \<Rightarrow> True | Some s \<Rightarrow> stats_cover s (file_rows f)))"

lemma only_contains_quad_insertions_sound:
  assumes "file_ok f" "only_contains_quad_insertions f = Inr (Some True)"
  shows "\<forall>r \<in> set (file_rows f). operation r = as_stored InsertQuad"
proof -
  obtain st where st: "file_stats f = Inr st"
    "case st of None \<Rightarrow> True | Some s \<Rightarrow> stats_cover s (file_rows f)"
    using assms(1) by (auto simp: file_ok_def)
  then obtain s where "st = Some s" "num_records s \<noteq> 0" "min_operation s = Some 21" "max_operation s = Some 21"
    using assms(2) by (auto simp: only_contains_quad_insertions_def split: option.splits if_splits)
  then show ?thesis using st(2) by (fastforce simp: stats_cover_def)
qed

lemma files_only_contain_appends_ok:
  "\<forall>f \<in> set files. file_ok f \<Longrightarrow> \<exists>b. files_only_contain_appends files = Inr b \<and>
     (b \<longrightarrow> (\<forall>f \<in> set files. \<forall>r \<in> set (file_rows f). operation r = as_stored InsertQuad))"
proof (induction files)
  case (Cons f files)
  then obtain b where "only_contains_quad_insertions f = Inr b"
    by (auto simp: file_ok_def only_contains_quad_insertions_def)
  moreover from Cons obtain b' where "files_only_contain_appends files = Inr b'"
    "b' \<longrightarrow> (\<forall>f \<in> set files. \<forall>r \<in> set (file_rows f). operation r = as_stored InsertQuad)" by auto
  ultimately show ?case
    using Cons.prems only_contains_quad_insertions_sound [of f]
    by (intro exI [of _ "b = Some True \<and> b'"]) auto
qed (auto intro: exI [of _ True])

lemma versioned_rows_set:
  "set (versioned_rows files) = (\<Union>f \<in> set files. commit_version_update (\<lambda>_. file_version f) ` set (file_rows f))"
  by (simp add: versioned_rows_def)

lemma query_cdf_set: "engine_ok E \<Longrightarrow> set (query_cdf E files) = set (versioned_rows files)"
  unfolding query_cdf_def by (rule mset_eq_setD) (simp add: engine_ok_def)

lemma compute_changeset_fresh:
  assumes E: "engine_ok E" and n: "0 < n" and none: "cache vr = None"
    and ok: "\<forall>f \<in> set (load_added_files_between log vr). file_ok f"
  shows "\<exists>c. compute_changeset E log cache vr = Inr (c, cache(vr \<mapsto> c)) \<and> cs_inv E n c \<and> cs_version_range c = vr \<and>
    (\<forall>D. replay (cs_ops c) D = replay (row_ops (query_cdf E (load_added_files_between log vr))) D)"
proof -
  define files where "files = load_added_files_between log vr"
  from files_only_contain_appends_ok [of files] ok obtain b where
    b: "files_only_contain_appends files = Inr b"
    and ins: "b \<Longrightarrow> \<forall>f \<in> set files. \<forall>r \<in> set (file_rows f). operation r = as_stored InsertQuad"
    by (auto simp: files_def)
  show ?thesis
  proof (cases "b \<and> files_are_large files")
    case True
    define c where "c = \<lparr>lazy_version_range = vr, lazy_files = files\<rparr>"
    have "operation r = as_stored InsertQuad \<and> complete_row (quad r)" if "f \<in> set files" "r \<in> set (file_rows f)" for f r
    proof -
      have i: "operation r = as_stored InsertQuad" using ins True that by blast
      have "log_row_valid r" using ok that by (auto simp: files_def file_ok_def)
      then show ?thesis using i by (simp add: log_row_valid_def row_valid_def from_stored_def)
    qed
    then have "lazy_inv E n c" using E n by (auto simp: lazy_inv_def lazy_rows_def c_def)
    moreover have "replay (lazy_ops c) D = replay (row_ops (query_cdf E files)) D" for D
    proof -
      have ops: "row_ops (query_cdf E files) = map (Pair InsertQuad) (map quad (query_cdf E files))"
        using ins True by (auto simp: row_ops_def query_cdf_set [OF E] versioned_rows_set simp del: as_stored.simps)
      have "quad ` set (query_cdf E files) = quad ` set (lazy_rows c)"
        by (force simp: query_cdf_set [OF E] versioned_rows_set lazy_rows_def c_def image_iff)
      then show ?thesis unfolding ops lazy_ops_def by (simp add: replay_inserts del: map_map)
    qed
    ultimately show ?thesis using True none b
      by (simp add: compute_changeset_def files_def [symmetric] c_def [symmetric] Let_def)
        (simp add: c_def)
  next
    case False
    have "\<forall>r \<in> set (query_cdf E files). log_row_valid r"
      using ok by (auto simp: query_cdf_set [OF E] versioned_rows_set files_def file_ok_def log_row_valid_def)
    from eager_changeset_of_correct [OF E this, of vr] obtain c where
      c: "eager_changeset_of E vr (query_cdf E files) = Inr c" "version_range c = vr" "eager_wf c"
        "eager_apply c = replay (row_ops (query_cdf E files))" by blast
    have "replay (row_ops (to_operations c)) D = replay (row_ops (query_cdf E files)) D" for D
      using eager_effect [OF c(3), of D] by (simp add: apply_net_compact c(4))
    then show ?thesis using False none b c
      by (auto simp: compute_changeset_def eager_changeset_of_def files_def [symmetric] Let_def)
  qed
qed

end
