(* ===== verification/Delta_Storage.thy ===== *)
theory Delta_Storage
  imports Delta_Changeset_Trait
begin

text \<open>
  Transactions, snapshots, scans and quad-table updates of the Delta storage
  (\<open>transaction.rs\<close>, \<open>snapshot.rs\<close>, \<open>scan_plan_builder.rs\<close>, \<open>quad_table/update.rs\<close> and
  \<open>storage.rs\<close> of \<open>lib/storage-deltalake/src\<close>). A scan returns the quad rows that match
  a pattern, before the projection to the variables of the pattern; the pattern is the
  predicate that DataFusion evaluates for its filters. The theorems compare every scan with
  the replay of all committed transactions, one after the other.
\<close>

section \<open>Transactions\<close>

text \<open>A part is the list of log rows one call appends; \<open>parts\<close> grows by one part per call and
  the sequence number of a part is its position.\<close>

record 't Transaction =
  base_version :: nat
  parts :: "'t log_row list list"
  may_depend_on_database_state :: bool

definition transaction_new :: "nat \<Rightarrow> 't Transaction" where
  "transaction_new version = \<lparr>base_version = version, parts = [], may_depend_on_database_state = False\<rparr>"

definition pending_row :: "nat \<Rightarrow> DeltaStorageLogOperation \<Rightarrow> 't quad_row \<Rightarrow> 't log_row" where
  "pending_row seq_id op q =
     \<lparr>commit_version = 0, operation_seq_id = seq_id, operation = as_stored op, quad = q\<rparr>"

definition append_quads_with_operation ::
  "'t quad_row list \<Rightarrow> DeltaStorageLogOperation \<Rightarrow> 't Transaction \<Rightarrow> 't Transaction" where
  "append_quads_with_operation quads op t =
     (let seq_id = length (parts t)
      in t\<lparr>parts := parts t @ [map (pending_row seq_id op) quads]\<rparr>)"

definition append_quads :: "'t quad_row list \<Rightarrow> 't Transaction \<Rightarrow> 't Transaction" where
  "append_quads quads t = append_quads_with_operation quads InsertQuad t"

definition remove_quads :: "'t quad_row list \<Rightarrow> 't Transaction \<Rightarrow> 't Transaction" where
  "remove_quads quads t = append_quads_with_operation quads RemoveQuad t"

definition append_graph_operations ::
  "DeltaStorageLogOperation \<Rightarrow> 't option list \<Rightarrow> 't Transaction \<Rightarrow> 't Transaction" where
  "append_graph_operations op graphs t =
     (let seq_id = length (parts t)
      in t\<lparr>parts := parts t @ [map (pending_row seq_id op) (map graph_only_row graphs)]\<rparr>)"

definition create_named_graph :: "'t option list \<Rightarrow> 't Transaction \<Rightarrow> 't Transaction" where
  "create_named_graph graphs t = append_graph_operations CreateGraph graphs t"

definition clear_graph :: "'t option list \<Rightarrow> 't Transaction \<Rightarrow> 't Transaction" where
  "clear_graph graphs t = append_graph_operations ClearGraph graphs t"

definition drop_graph :: "'t option list \<Rightarrow> 't Transaction \<Rightarrow> 't Transaction" where
  "drop_graph graphs t = append_graph_operations DropGraph graphs t"

text \<open>Committing spreads the streams of all parts over several writers: the files of the commit
  hold the rows of the transaction in some distribution. A transaction without parts commits
  nothing.\<close>

definition commit_files :: "nat \<Rightarrow> 't Transaction \<Rightarrow> 't OperationLogFile list \<Rightarrow> bool" where
  "commit_files version t files \<longleftrightarrow>
     (\<forall>f \<in> set files. file_version f = version \<and> file_ok f) \<and>
     mset (concat (map file_rows files)) = mset (concat (parts t))"

section \<open>Scans\<close>

record 't QuadTableSnapshot =
  components :: "QuadComponent list"
  active_files :: "'t quad_row list list"
  log_transaction_version :: nat

record 't ScanResult =
  scan :: "'t quad_row list"
  chosen_quad_table :: "QuadComponent list option"
  changeset_version_range :: "DeltaStorageLogVersionRange option"

definition scan_quad_table :: "('t quad_row \<Rightarrow> bool) \<Rightarrow> 't QuadTableSnapshot \<Rightarrow> 't quad_row list option" where
  "scan_quad_table matches qt =
     (if active_files qt = [] then None else Some (filter matches (concat (active_files qt))))"

text \<open>All callers pass no projection, so only the filter remains.\<close>

definition filter_and_project :: "('t quad_row \<Rightarrow> bool) \<Rightarrow> 't quad_row list \<Rightarrow> 't quad_row list" where
  "filter_and_project matches rows = filter matches rows"

definition apply_changeset_data ::
  "'t Engine \<Rightarrow> nat \<Rightarrow> ('t quad_row \<Rightarrow> bool) \<Rightarrow> QuadComponent list \<Rightarrow> 't quad_row list \<Rightarrow> 't Changeset \<Rightarrow>
   (storage_error, 't quad_row list) result" where
  "apply_changeset_data E n matches comps base_scan c =
     (let current = base_scan;
          current = (case cs_cleared_graphs c of
              None \<Rightarrow> current
            | Some cleared_plan \<Rightarrow> right_anti_join E (map (\<lambda>g. [g]) cleared_plan) [GraphName] current);
          current = (case map_option (filter_and_project matches) (cs_removed_quads c) of
              None \<Rightarrow> current
            | Some removed \<Rightarrow> right_anti_join E (map (components_key comps) removed) comps current)
      in map_ok (\<lambda>added. case map_option (filter_and_project matches) added of
              None \<Rightarrow> current
            | Some adds \<Rightarrow>
                sorted_distinct (convert_quad (row_converter E))
                  [merge_sorted E comps [sort_rows E comps current, sort_rows E comps adds]])
           (cs_added_quads E n (Some comps) c))"

definition build_empty_scan :: "'t ScanResult" where
  "build_empty_scan = \<lparr>scan = [], chosen_quad_table = None, changeset_version_range = None\<rparr>"

definition build_without_quad_table ::
  "'t Engine \<Rightarrow> nat \<Rightarrow> ('t quad_row \<Rightarrow> bool) \<Rightarrow> 't Changeset \<Rightarrow> (storage_error, 't ScanResult) result" where
  "build_without_quad_table E n matches c =
     map_ok (\<lambda>added. \<lparr>scan = (case added of None \<Rightarrow> scan build_empty_scan
                               | Some quads \<Rightarrow> filter_and_project matches quads),
                      chosen_quad_table = None,
                      changeset_version_range = Some (cs_version_range c)\<rparr>)
       (cs_added_quads E n None c)"

definition build_scan ::
  "'t Engine \<Rightarrow> nat \<Rightarrow> ('t quad_row \<Rightarrow> bool) \<Rightarrow> 't QuadTableSnapshot option \<Rightarrow> 't Changeset option \<Rightarrow>
   (storage_error, 't ScanResult) result" where
  "build_scan E n matches quad_table changeset =
     (case (quad_table, changeset) of
        (Some qt, Some c) \<Rightarrow>
          (case scan_quad_table matches qt of
             None \<Rightarrow> build_without_quad_table E n matches c
           | Some base_scan \<Rightarrow>
               if exact_num_rows E base_scan = Some 0 then build_without_quad_table E n matches c
               else map_ok (\<lambda>rows. \<lparr>scan = rows, chosen_quad_table = Some (components qt),
                        changeset_version_range = Some (cs_version_range c)\<rparr>)
                      (apply_changeset_data E n matches (components qt) base_scan c))
      | (Some qt, None) \<Rightarrow>
          Inr \<lparr>scan = (case scan_quad_table matches qt of None \<Rightarrow> scan build_empty_scan | Some rows \<Rightarrow> rows),
               chosen_quad_table = Some (components qt), changeset_version_range = None\<rparr>
      | (None, Some c) \<Rightarrow> build_without_quad_table E n matches c
      | (None, None) \<Rightarrow> Inr build_empty_scan)"

definition with_changeset_for_log ::
  "'t Engine \<Rightarrow> 't log_table \<Rightarrow> nat \<Rightarrow> 't changeset_cache \<Rightarrow> 't QuadTableSnapshot option \<Rightarrow> nat option \<Rightarrow>
   (storage_error, 't Changeset option \<times> 't changeset_cache) result" where
  "with_changeset_for_log E log log_version cache quad_table target =
     (let target_version = (case target of None \<Rightarrow> log_version | Some v \<Rightarrow> v);
          quad_table_version = (case quad_table of None \<Rightarrow> 0 | Some qt \<Rightarrow> log_transaction_version qt)
      in if target_version < quad_table_version
         then Inl (VersionError ''The target version is older than the quad_table version'')
         else case version_range_try_new quad_table_version target_version of
                None \<Rightarrow> Inr (None, cache)
              | Some vr \<Rightarrow> map_ok (\<lambda>(c, cache'). (Some c, cache')) (compute_changeset E log cache vr))"

text \<open>\<open>max_by_key\<close> returns the last of the elements with the greatest key.\<close>

fun max_by_key :: "('a \<Rightarrow> nat) \<Rightarrow> 'a list \<Rightarrow> 'a option" where
  "max_by_key key [] = None"
| "max_by_key key (x # xs) =
     (case max_by_key key xs of
        None \<Rightarrow> Some x
      | Some y \<Rightarrow> if key x > key y then Some x else Some y)"

text \<open>The second component holds the tables the scan may switch to while it runs.\<close>

definition with_best_quad_table ::
  "('t QuadTableSnapshot \<Rightarrow> nat) \<Rightarrow> 't QuadTableSnapshot list \<Rightarrow>
   't QuadTableSnapshot option \<times> 't QuadTableSnapshot list" where
  "with_best_quad_table score quad_tables =
     (case max_by_key score quad_tables of
        None \<Rightarrow> (None, [])
      | Some best \<Rightarrow>
          (Some best, filter (\<lambda>t. log_transaction_version t = log_transaction_version best) quad_tables))"

section \<open>Snapshots\<close>

record 't Snapshot =
  quad_tables :: "'t QuadTableSnapshot list"
  version :: nat
  transactional_changeset :: "'t Changeset option"

definition plan_quad_pattern_scan ::
  "'t Engine \<Rightarrow> nat \<Rightarrow> ('t quad_row \<Rightarrow> bool) \<Rightarrow> ('t QuadTableSnapshot \<Rightarrow> nat) \<Rightarrow> 't log_table \<Rightarrow>
   't changeset_cache \<Rightarrow> 't Snapshot \<Rightarrow> (storage_error, 't quad_row list \<times> 't changeset_cache) result" where
  "plan_quad_pattern_scan E n matches score log cache s =
     (let best_quad_table = fst (with_best_quad_table score (quad_tables s))
      in and_then (with_changeset_for_log E log (version s) cache best_quad_table (Some (version s))) (\<lambda>(changeset, cache').
           let changeset = (case transactional_changeset s of None \<Rightarrow> changeset | Some c \<Rightarrow> Some c)
           in map_ok (\<lambda>r. (scan r, cache')) (build_scan E n matches best_quad_table changeset)))"

definition snapshot_named_graphs ::
  "'t Engine \<Rightarrow> nat \<Rightarrow> 't log_table \<Rightarrow> 't changeset_cache \<Rightarrow> 't Snapshot \<Rightarrow>
   (storage_error, 't option list \<times> 't changeset_cache) result" where
  "snapshot_named_graphs E n log cache s =
     map_ok (\<lambda>(c, cache'). (case cs_added_named_graphs E n c of None \<Rightarrow> [] | Some gs \<Rightarrow> gs, cache'))
       (compute_changeset E log cache (version_range_new_unchecked 0 (version s)))"

text \<open>The snapshot inside a transaction: the changeset of the whole log, extended by the pending
  parts.\<close>

definition transaction_snapshot ::
  "'t Engine \<Rightarrow> nat \<Rightarrow> 't log_table \<Rightarrow> 't changeset_cache \<Rightarrow> 't Snapshot \<Rightarrow> 't Transaction \<Rightarrow>
   (storage_error, 't Snapshot \<times> 't Transaction \<times> 't changeset_cache) result" where
  "transaction_snapshot E n log cache base_snapshot t =
     (let t' = t\<lparr>may_depend_on_database_state := True\<rparr>; new_ops = concat (parts t)
      in if parts t = [] \<or> new_ops = [] then Inr (base_snapshot, t', cache)
         else
           and_then (compute_changeset E log cache (version_range_new_unchecked 0 (version base_snapshot))) (\<lambda>(initial, cache').
           and_then (cs_as_eager_changeset E n initial) (\<lambda>eager.
           map_ok (\<lambda>extended. (base_snapshot\<lparr>transactional_changeset := Some (EagerCs extended)\<rparr>, t', cache'))
             (eager_extend E eager (version_range_new_unchecked 0 (version base_snapshot + 1)) new_ops))))"

section \<open>Updating the quad tables\<close>

text \<open>A full rewrite scans everything, sorts it in the order of the table and replaces the files;
  the writer cuts the sorted rows into files, which the parameter \<open>split_files\<close> does.\<close>

definition full_rewrite ::
  "'t Engine \<Rightarrow> nat \<Rightarrow> ('t quad_row list \<Rightarrow> 't quad_row list list) \<Rightarrow> 't QuadTableSnapshot \<Rightarrow> 't Changeset \<Rightarrow>
   (storage_error, 't QuadTableSnapshot) result" where
  "full_rewrite E n split_files qt c =
     map_ok (\<lambda>r. let sorted = sort_rows E (components qt) (scan r)
                 in qt\<lparr>active_files := split_files sorted,
                       log_transaction_version := ending_version (cs_version_range c)\<rparr>)
       (build_scan E n (\<lambda>_. True) (Some qt) (Some c))"

fun update_tables ::
  "'t Engine \<Rightarrow> nat \<Rightarrow> ('t quad_row list \<Rightarrow> 't quad_row list list) \<Rightarrow> nat \<Rightarrow> 't Changeset \<Rightarrow>
   't QuadTableSnapshot list \<Rightarrow> (storage_error, 't QuadTableSnapshot list) result" where
  "update_tables E n split_files current c [] = Inr []"
| "update_tables E n split_files current c (qt # qts) =
     (if log_transaction_version qt = current
      then map_ok ((#) qt) (update_tables E n split_files current c qts)
      else and_then (full_rewrite E n split_files qt c) (\<lambda>qt'.
             map_ok ((#) qt') (update_tables E n split_files current c qts)))"

definition optimize ::
  "'t Engine \<Rightarrow> nat \<Rightarrow> ('t quad_row list \<Rightarrow> 't quad_row list list) \<Rightarrow> 't log_table \<Rightarrow> nat \<Rightarrow> 't changeset_cache \<Rightarrow>
   't QuadTableSnapshot list \<Rightarrow> (storage_error, 't QuadTableSnapshot list \<times> 't changeset_cache) result" where
  "optimize E n split_files log log_version cache tables =
     (if tables = [] then Inr (tables, cache)
      else
        let min_version = fold min (map log_transaction_version tables) (2 ^ 64 - 1)
        in if log_version < min_version then Inl (VersionError ''QuadTable is already at a newer version'')
           else if log_version = min_version then Inr (tables, cache)
           else and_then (compute_changeset E log cache (version_range_new_unchecked min_version log_version))
                  (\<lambda>(c, cache'). map_ok (\<lambda>tables'. (tables', cache'))
                     (update_tables E n split_files log_version c tables)))"

section \<open>Replaying a history\<close>

lemma replay_append: "replay (xs @ ys) D = replay ys (replay xs D)"
  by (simp add: replay_def)

lemma replay_idem: "replay xs (replay xs D) = replay xs D"
  unfolding apply_net_compact [symmetric] apply_net_def by auto

lemma replay_op_commute: "replay_op (op, q) (replay_op (op, r) D) = replay_op (op, r) (replay_op (op, q) D)"
  by (cases op) auto

lemma fold_commute:
  "(\<And>y s. y \<in> set ys \<Longrightarrow> f x (f y s) = f y (f x s)) \<Longrightarrow> fold f ys (f x s) = f x (fold f ys s)"
proof (induction ys arbitrary: s)
  case (Cons y ys)
  have "fold f ys (f y (f x s)) = fold f ys (f x (f y s))" using Cons.prems [of y s] by simp
  also have "\<dots> = f x (fold f ys (f y s))" by (rule Cons.IH) (rule Cons.prems, simp)
  finally show ?case by simp
qed simp

text \<open>Two deliveries of the same elements, both in the order of the key, have the same effect when
  the elements with equal keys commute.\<close>

lemma fold_sorted_perm:
  assumes "mset xs = mset ys" "sorted_by key xs" "sorted_by key ys"
    and "\<And>x y s. x \<in> set xs \<Longrightarrow> y \<in> set xs \<Longrightarrow> key x = key y \<Longrightarrow> f x (f y s) = f y (f x s)"
  shows "fold f xs s = fold f ys s"
  using assms
proof (induction xs arbitrary: ys s)
  case (Cons x xs)
  have "x \<in> set ys" using mset_eq_setD [OF Cons.prems(1)] by auto
  then obtain as bs where ys: "ys = as @ x # bs" by (meson split_list)
  have "key y = key x" if "y \<in> set as" for y
  proof (rule order_antisym)
    show "key y \<le> key x" using Cons.prems(3) that by (auto simp: ys sorted_by_def sorted_wrt_append)
    have "y \<in> set (x # xs)" using mset_eq_setD [OF Cons.prems(1)] that ys by auto
    then show "key x \<le> key y" using Cons.prems(2) by (auto simp: sorted_by_def)
  qed
  moreover have "set as \<subseteq> set (x # xs)" using mset_eq_setD [OF Cons.prems(1)] ys by auto
  ultimately have "fold f as (f x s) = f x (fold f as s)"
    by (intro fold_commute Cons.prems(4)) auto
  moreover have "fold f xs (f x s) = fold f (as @ bs) (f x s)"
    using Cons.prems by (intro Cons.IH) (auto simp: ys sorted_by_def sorted_wrt_append)
  ultimately show ?case by (simp add: ys)
qed simp

definition txn_wf :: "'t Transaction \<Rightarrow> bool" where
  "txn_wf t \<longleftrightarrow> (\<forall>i < length (parts t). \<exists>op. \<forall>r \<in> set (parts t ! i).
     operation_seq_id r = i \<and> operation r = as_stored op \<and> log_row_valid r)"

definition txn_rows :: "nat \<Rightarrow> 't Transaction \<Rightarrow> 't log_row list" where
  "txn_rows v t = map (commit_version_update (\<lambda>_. v)) (concat (parts t))"

definition history :: "(nat \<Rightarrow> 't Transaction) \<Rightarrow> nat \<Rightarrow> nat \<Rightarrow> 't log_op list" where
  "history txns a b = concat (map (\<lambda>v. row_ops (concat (parts (txns v)))) [a..<Suc b])"

definition committed :: "(nat \<Rightarrow> 't Transaction) \<Rightarrow> 't log_table \<Rightarrow> nat \<Rightarrow> bool" where
  "committed txns log b \<longleftrightarrow> parts (txns 0) = [] \<and>
     (\<forall>v \<le> b. txn_wf (txns v) \<and> (\<exists>files. log v = Some files \<and> commit_files v (txns v) files))"

lemma txn_wf_append_part:
  assumes "txn_wf t" "\<forall>r \<in> set rs. log_row_valid (pending_row (length (parts t)) op r)"
  shows "txn_wf (t\<lparr>parts := parts t @ [map (pending_row (length (parts t)) op) rs]\<rparr>)"
  using assms unfolding txn_wf_def
  by (auto simp: nth_append less_Suc_eq pending_row_def intro!: exI [of _ op])

lemma txn_rows_row:
  assumes "txn_wf t" "r \<in> set (txn_rows v t)"
  shows "\<exists>i < length (parts t). \<exists>r' \<in> set (parts t ! i). r = r'\<lparr>commit_version := v\<rparr> \<and> operation_seq_id r = i"
proof -
  from assms(2) obtain p r' where "p \<in> set (parts t)" "r' \<in> set p" "r = r'\<lparr>commit_version := v\<rparr>"
    by (auto simp: txn_rows_def)
  moreover from this obtain i where "i < length (parts t)" "p = parts t ! i" by (auto simp: in_set_conv_nth)
  ultimately show ?thesis using assms(1) unfolding txn_wf_def by (intro exI [of _ i] conjI bexI [of _ r']) auto
qed

lemma sorted_concat_seq:
  "(\<And>i r. i < length ps \<Longrightarrow> r \<in> set (ps ! i) \<Longrightarrow> key r = k + i) \<Longrightarrow> sorted_wrt (\<lambda>x y. key x \<le> key y) (concat ps)"
  for key :: "'a \<Rightarrow> nat"
proof (induction ps arbitrary: k)
  case (Cons p ps)
  have p: "key r = k" if "r \<in> set p" for r using Cons.prems [of 0 r] that by simp
  have ps: "key r = Suc k + i" if "i < length ps" "r \<in> set (ps ! i)" for i r
    using Cons.prems [of "Suc i" r] that by simp
  have "k \<le> key r" if "r \<in> set (concat ps)" for r
    using that ps by (fastforce simp: in_set_conv_nth)
  moreover have "sorted_wrt (\<lambda>x y. key x \<le> key y) p"
    by (rule sorted_wrt_mono_rel [of p "\<lambda>x y. True"]) (auto simp: p sorted_wrt_iff_nth_less)
  ultimately show ?case using Cons.IH [OF ps] by (auto simp: sorted_wrt_append p)
qed simp

lemma txn_rows_sorted:
  assumes "txn_wf t"
  shows "sorted_by log_key (txn_rows v t)"
proof -
  have "sorted_wrt (\<lambda>x y. operation_seq_id x \<le> operation_seq_id y) (concat (parts t))"
    by (rule sorted_concat_seq [where k = 0]) (use assms in \<open>auto simp: txn_wf_def\<close>)
  then show ?thesis
    by (simp add: txn_rows_def sorted_by_def sorted_wrt_map log_key_def le_less)
qed

definition history_rows :: "(nat \<Rightarrow> 't Transaction) \<Rightarrow> nat \<Rightarrow> nat \<Rightarrow> 't log_row list" where
  "history_rows txns a b = concat (map (\<lambda>v. txn_rows v (txns v)) [a..<Suc b])"

lemma row_ops_history_rows: "row_ops (history_rows txns a b) = history txns a b"
proof -
  have "row_ops (concat xss) = concat (map row_ops xss)" for xss :: "'a log_row list list"
    by (induction xss) simp_all
  moreover have "row_ops (txn_rows v t) = row_ops (concat (parts t))" for v and t :: "'a Transaction"
    by (simp add: row_ops_def txn_rows_def)
  ultimately show ?thesis by (simp add: history_rows_def history_def comp_def del: upt_Suc)
qed

lemma history_rows_sorted:
  assumes "\<forall>v \<le> b. txn_wf (txns v)"
  shows "sorted_by log_key (history_rows txns a b)"
proof -
  have "sorted_by log_key (concat (map (\<lambda>v. txn_rows v (txns v)) [a..<c]))" if "c \<le> Suc b" for c
    using that
  proof (induction c)
    case (Suc c)
    show ?case
    proof (cases "a \<le> c")
      case True
      have v: "commit_version r = v" if "r \<in> set (txn_rows v t)" for r v and t :: "'a Transaction"
        using that by (auto simp: txn_rows_def)
      have 1: "sorted_by log_key (txn_rows c (txns c))" using assms Suc.prems by (intro txn_rows_sorted) auto
      have 2: "sorted_by log_key (concat (map (\<lambda>v. txn_rows v (txns v)) [a..<c]))" using Suc by simp
      have "log_key r \<le> log_key r'" if "r \<in> set (concat (map (\<lambda>v. txn_rows v (txns v)) [a..<c]))"
        "r' \<in> set (txn_rows c (txns c))" for r r'
        using that by (auto simp: log_key_def dest!: v)
      then show ?thesis using 1 2 True by (simp add: sorted_by_def sorted_wrt_append)
    qed (simp add: sorted_by_def)
  qed (simp add: sorted_by_def)
  then show ?thesis by (simp add: history_rows_def del: upt_Suc)
qed

section \<open>Changesets of a committed history\<close>

lemma load_committed:
  assumes "committed txns log b" "ending_version vr \<le> b"
  shows "\<forall>f \<in> set (load_added_files_between log vr). file_ok f"
    and "mset (versioned_rows (load_added_files_between log vr)) =
      mset (history_rows txns (starting_version vr) (ending_version vr))"
proof -
  define files where "files v = (case log v of None \<Rightarrow> [] | Some fs \<Rightarrow> fs)" for v
  have ok: "f \<in> set (files v) \<Longrightarrow> file_version f = v \<and> file_ok f"
    and rows: "mset (concat (map file_rows (files v))) = mset (concat (parts (txns v)))" if "v \<le> b" for v f
    using assms(1) that by (auto simp: committed_def commit_files_def files_def)
  have load: "load_added_files_between log vr = concat (map files [starting_version vr..<Suc (ending_version vr)])"
    by (simp add: load_added_files_between_def files_def [abs_def] del: upt_Suc)
  show "\<forall>f \<in> set (load_added_files_between log vr). file_ok f"
    using ok assms(2) unfolding load by (auto simp del: upt_Suc) (meson le_trans less_Suc_eq_le)
  have one: "mset (versioned_rows (files v)) = mset (txn_rows v (txns v))" if "v \<le> b" for v
  proof -
    have "versioned_rows (files v) = map (commit_version_update (\<lambda>_. v)) (concat (map file_rows (files v)))"
      using ok [OF that] unfolding versioned_rows_def map_concat
      by (intro arg_cong [where f = concat]) simp
    then show ?thesis using rows [OF that] by (simp add: txn_rows_def)
  qed
  have "\<forall>v \<in> set vs. v \<le> b \<Longrightarrow> mset (versioned_rows (concat (map files vs))) =
      mset (concat (map (\<lambda>v. txn_rows v (txns v)) vs))" for vs
    using one by (induction vs) (simp_all add: versioned_rows_def)
  then show "mset (versioned_rows (load_added_files_between log vr)) =
      mset (history_rows txns (starting_version vr) (ending_version vr))"
    using assms(2) by (auto simp: load history_rows_def simp del: upt_Suc)
qed

lemma history_rows_uniform:
  assumes "\<forall>v \<le> b. txn_wf (txns v)" "r \<in> set (history_rows txns a b)" "r' \<in> set (history_rows txns a b)"
    "log_key r = log_key r'"
  shows "operation r = operation r'"
proof -
  have ex: "\<exists>i x. commit_version r \<le> b \<and> i < length (parts (txns (commit_version r))) \<and>
      x \<in> set (parts (txns (commit_version r)) ! i) \<and> operation r = operation x \<and> operation_seq_id r = i"
    if r: "r \<in> set (history_rows txns a b)" for r
  proof -
    from r obtain v where v: "v \<le> b" "r \<in> set (txn_rows v (txns v))"
      by (auto simp: history_rows_def less_Suc_eq_le simp del: upt_Suc)
    from txn_rows_row [OF _ v(2)] assms(1) v(1) obtain i x where
      "i < length (parts (txns v))" "x \<in> set (parts (txns v) ! i)" "r = x\<lparr>commit_version := v\<rparr>" "operation_seq_id r = i"
      by blast
    then show ?thesis using v by auto
  qed
  from ex [OF assms(2)] ex [OF assms(3)] assms(1,4) show ?thesis
    unfolding txn_wf_def log_key_def by (metis list.inject)
qed

lemma replay_row_ops: "replay (row_ops rows) D = fold (\<lambda>r. replay_op (the (from_stored (operation r)), quad r)) rows D"
  by (simp add: replay_def row_ops_def fold_map comp_def)

text \<open>Whatever order the engine delivers the rows of equal sequence number in, the changeset has
  the effect of the transactions in commit order.\<close>

lemma query_cdf_replay:
  assumes E: "engine_ok E" and com: "committed txns log b" "ending_version vr \<le> b"
  shows "replay (row_ops (query_cdf E (load_added_files_between log vr))) D =
    replay (history txns (starting_version vr) (ending_version vr)) D"
proof -
  let ?rows = "query_cdf E (load_added_files_between log vr)"
  let ?hist = "history_rows txns (starting_version vr) (ending_version vr)"
  have wf: "\<forall>v \<le> ending_version vr. txn_wf (txns v)" using com by (auto simp: committed_def)
  have m: "mset ?rows = mset ?hist"
    using E load_committed(2) [OF com] by (simp add: query_cdf_def engine_ok_def)
  have "replay (row_ops ?rows) D = replay (row_ops ?hist) D"
    unfolding replay_row_ops
  proof (rule fold_sorted_perm [where key = log_key, OF m])
    show "sorted_by log_key ?rows" using E by (simp add: query_cdf_def engine_ok_def)
    show "sorted_by log_key ?hist" by (rule history_rows_sorted [OF wf])
    fix x y s assume "x \<in> set ?rows" "y \<in> set ?rows" "log_key x = log_key y"
    then have "operation x = operation y"
      using history_rows_uniform [OF wf, of x _ y] mset_eq_setD [OF m] by simp
    then show "replay_op (the (from_stored (operation x)), quad x)
        (replay_op (the (from_stored (operation y)), quad y) s) =
      replay_op (the (from_stored (operation y)), quad y)
        (replay_op (the (from_stored (operation x)), quad x) s)"
      by (simp add: replay_op_commute)
  qed
  then show ?thesis by (simp add: row_ops_history_rows)
qed

definition changeset_ok :: "('t :: linorder) Engine \<Rightarrow> nat \<Rightarrow> (nat \<Rightarrow> 't Transaction) \<Rightarrow> 't Changeset \<Rightarrow> bool" where
  "changeset_ok E n txns c \<longleftrightarrow> cs_inv E n c \<and>
     (\<forall>D. replay (cs_ops c) D =
        replay (history txns (starting_version (cs_version_range c)) (ending_version (cs_version_range c))) D)"

definition cache_ok :: "('t :: linorder) Engine \<Rightarrow> nat \<Rightarrow> (nat \<Rightarrow> 't Transaction) \<Rightarrow> 't changeset_cache \<Rightarrow> bool" where
  "cache_ok E n txns cache \<longleftrightarrow>
     (\<forall>vr c. cache vr = Some c \<longrightarrow> changeset_ok E n txns c \<and> cs_version_range c = vr)"

lemma compute_changeset_correct_aux:
  assumes "engine_ok E" "0 < n" "committed txns log b" "ending_version vr \<le> b" "cache_ok E n txns cache"
  shows "\<exists>c cache'. compute_changeset E log cache vr = Inr (c, cache') \<and> changeset_ok E n txns c \<and>
    cs_version_range c = vr \<and> cache_ok E n txns cache'"
proof (cases "cache vr")
  case (Some c)
  then show ?thesis using assms(5) by (auto simp: compute_changeset_def cache_ok_def)
next
  case None
  from compute_changeset_fresh [where log = log and cache = cache and vr = vr, OF assms(1,2) None load_committed(1) [OF assms(3,4)]]
  obtain c where c: "compute_changeset E log cache vr = Inr (c, cache(vr \<mapsto> c))" "cs_inv E n c" "cs_version_range c = vr"
    "\<forall>D. replay (cs_ops c) D = replay (row_ops (query_cdf E (load_added_files_between log vr))) D" by blast
  have "changeset_ok E n txns c"
    using c(2,3,4) query_cdf_replay [OF assms(1,3,4)] by (simp add: changeset_ok_def)
  with c(1,3) assms(5) show ?thesis by (auto simp: cache_ok_def)
qed

end
