(* ===== verification/Delta_Storage_Scan.thy ===== *)
theory Delta_Storage_Scan
  imports Delta_Storage
begin

text \<open>
  Correctness of the scans, the snapshots and the quad-table updates modelled in
  \<open>Delta_Storage\<close>, against the replay of the committed transactions.
\<close>

section \<open>Scans of a table under a changeset\<close>

definition all_components :: "QuadComponent list \<Rightarrow> bool" where
  "all_components comps \<longleftrightarrow> set comps = {GraphName, Subject, Predicate, Object}"

lemma components_key_inj:
  assumes "all_components comps" "components_key comps x = components_key comps y"
  shows "x = (y :: 't quad_row)"
proof -
  have "component_col c x = component_col c y" if "c \<in> {GraphName, Subject, Predicate, Object}" for c
    using assms that unfolding components_key_def all_components_def by (metis map_eq_conv)
  from this [of GraphName] this [of Subject] this [of Predicate] this [of Object]
  show ?thesis by simp
qed

lemma right_anti_join_set:
  assumes "engine_ok E"
  shows "set (right_anti_join E ks cs xs) = {x \<in> set xs. components_key cs x \<notin> set ks}"
proof -
  have "mset (right_anti_join E ks cs xs) = mset (filter (\<lambda>x. components_key cs x \<notin> set ks) xs)"
    using assms by (simp add: engine_ok_def)
  from mset_eq_setD [OF this] show ?thesis by simp
qed

lemma anti_join_quads_set:
  assumes "engine_ok E" "all_components comps"
  shows "set (right_anti_join E (map (components_key comps) rs) comps xs) = set xs - set rs"
  using components_key_inj [OF assms(2)] by (auto simp: right_anti_join_set [OF assms(1)])

lemma merge_two_set:
  assumes "engine_ok E"
  shows "set (sorted_distinct (convert_quad (row_converter E))
    [merge_sorted E comps [sort_rows E comps xs, sort_rows E comps ys]]) = set xs \<union> set ys"
  using merged_set [OF assms, of comps id "[xs, ys]"]
  by (simp add: sorted_distinct_set [OF engine_converter(1) [OF assms]])

lemma apply_changeset_data_set:
  assumes E: "engine_ok E" and inv: "cs_inv E n c" and comps: "all_components comps"
    and base: "set base = {q \<in> D. matches q}"
  shows "\<exists>rows. apply_changeset_data E n matches comps base c = Inr rows \<and>
    set rows = {q \<in> replay (cs_ops c) D. matches q}"
proof -
  obtain a where a: "cs_added_quads E n (Some comps) c = Inr a" using cs.added_ok [OF inv] by blast
  define c1 where "c1 = (case cs_cleared_graphs c of None \<Rightarrow> base
    | Some cleared_plan \<Rightarrow> right_anti_join E (map (\<lambda>g. [g]) cleared_plan) [GraphName] base)"
  define c2 where "c2 = (case map_option (filter_and_project matches) (cs_removed_quads c) of None \<Rightarrow> c1
    | Some removed \<Rightarrow> right_anti_join E (map (components_key comps) removed) comps c1)"
  define c3 where "c3 = (case map_option (filter_and_project matches) a of None \<Rightarrow> c2
    | Some adds \<Rightarrow> sorted_distinct (convert_quad (row_converter E))
        [merge_sorted E comps [sort_rows E comps c2, sort_rows E comps adds]])"
  have "set c1 = {q \<in> D. matches q \<and> graph_col q \<notin> set (opt_rows (cs_cleared_graphs c))}"
    by (cases "cs_cleared_graphs c") (auto simp: c1_def base right_anti_join_set [OF E] components_key_def)
  then have "set c2 = {q \<in> D. matches q \<and> graph_col q \<notin> set (opt_rows (cs_cleared_graphs c)) \<and>
      q \<notin> set (opt_rows (cs_removed_quads c))}"
    by (cases "cs_removed_quads c")
      (auto simp: c2_def anti_join_quads_set [OF E comps] filter_and_project_def)
  then have "set c3 = {q. matches q \<and> q \<in> {q \<in> D. graph_col q \<notin> set (opt_rows (cs_cleared_graphs c)) \<and>
      q \<notin> set (opt_rows (cs_removed_quads c))} \<union> set (opt_rows a)}"
    by (cases a) (auto simp: c3_def merge_two_set [OF E] filter_and_project_def)
  then have "set c3 = {q \<in> replay (cs_ops c) D. matches q}"
    unfolding cs.effect [OF inv a] by auto
  moreover have "apply_changeset_data E n matches comps base c = Inr c3"
    unfolding apply_changeset_data_def Let_def a c1_def c2_def c3_def by simp
  ultimately show ?thesis by blast
qed

definition table_rows :: "'t QuadTableSnapshot option \<Rightarrow> 't quad_row set" where
  "table_rows quad_table = (case quad_table of None \<Rightarrow> {} | Some qt \<Rightarrow> set (concat (active_files qt)))"

definition changeset_effect :: "'t Changeset option \<Rightarrow> 't quad_row set \<Rightarrow> 't quad_row set" where
  "changeset_effect changeset D = (case changeset of None \<Rightarrow> D | Some c \<Rightarrow> replay (cs_ops c) D)"

lemma build_without_quad_table_set:
  assumes "cs_inv E n c"
  shows "\<exists>r. build_without_quad_table E n matches c = Inr r \<and>
    set (scan r) = {q \<in> replay (cs_ops c) {}. matches q}"
proof -
  obtain a where a: "cs_added_quads E n None c = Inr a" using cs.added_ok [OF assms] by blast
  then show ?thesis
    by (cases a) (auto simp: build_without_quad_table_def build_empty_scan_def filter_and_project_def
        cs.added_is_replay [OF assms a, symmetric])
qed

text \<open>Every branch of the builder returns the matching quads of the table under the changeset.\<close>

lemma build_scan_set:
  assumes E: "engine_ok E" and inv: "\<forall>c. changeset = Some c \<longrightarrow> cs_inv E n c"
    and comps: "\<forall>qt. quad_table = Some qt \<longrightarrow> all_components (components qt)"
  shows "\<exists>r. build_scan E n matches quad_table changeset = Inr r \<and>
    set (scan r) = {q \<in> changeset_effect changeset (table_rows quad_table). matches q}"
proof (cases changeset)
  case None
  then show ?thesis
    by (cases quad_table)
      (auto simp: build_scan_def build_empty_scan_def scan_quad_table_def changeset_effect_def table_rows_def)
next
  case (Some c)
  then have c: "cs_inv E n c" using inv by simp
  show ?thesis
  proof (cases quad_table)
    case None
    then show ?thesis using build_without_quad_table_set [OF c, of matches] Some
      by (simp add: build_scan_def changeset_effect_def table_rows_def)
  next
    case (Some qt)
    define base where "base = filter matches (concat (active_files qt))"
    have base: "set base = {q \<in> table_rows quad_table. matches q}"
      using Some by (auto simp: base_def table_rows_def)
    from apply_changeset_data_set [OF E c _ base] comps Some obtain rows where
      rows: "apply_changeset_data E n matches (components qt) base c = Inr rows"
        "set rows = {q \<in> replay (cs_ops c) (table_rows quad_table). matches q}" by blast
    have empty: "{q \<in> replay (cs_ops c) (table_rows quad_table). matches q} =
        {q \<in> replay (cs_ops c) {}. matches q}" if "base = []"
    proof -
      obtain a where a: "cs_added_quads E n None c = Inr a" using cs.added_ok [OF c] by blast
      show ?thesis
        unfolding cs.effect [OF c a, symmetric] using base that by auto
    qed
    have zero: "base = []" if "exact_num_rows E base = Some 0"
    proof -
      have "0 = length base" using E that unfolding engine_ok_def by blast
      then show ?thesis by simp
    qed
    show ?thesis
    proof (cases "active_files qt = [] \<or> exact_num_rows E base = Some 0")
      case True
      then have "base = []" using zero by (auto simp: base_def)
      with True empty build_without_quad_table_set [OF c, of matches] show ?thesis
        by (auto simp: build_scan_def Some \<open>changeset = Some c\<close> changeset_effect_def scan_quad_table_def base_def)
    next
      case False
      then show ?thesis using rows
        by (auto simp: build_scan_def Some \<open>changeset = Some c\<close> changeset_effect_def scan_quad_table_def
            base_def [symmetric])
    qed
  qed
qed

section \<open>Snapshots\<close>

definition table_ok :: "(nat \<Rightarrow> 't Transaction) \<Rightarrow> nat \<Rightarrow> 't QuadTableSnapshot \<Rightarrow> bool" where
  "table_ok txns b qt \<longleftrightarrow> all_components (components qt) \<and> log_transaction_version qt \<le> b \<and>
     set (concat (active_files qt)) = replay (history txns 0 (log_transaction_version qt)) {}"

text \<open>The ranges of a changeset and of its base may overlap: replaying a part of the history again
  changes nothing.\<close>

lemma replay_overlap:
  assumes "a \<le> Suc k" "k \<le> b"
  shows "replay (history txns a b) (replay (history txns 0 k) D) = replay (history txns 0 b) D"
proof -
  define h where "h i j = concat (map (\<lambda>v. row_ops (concat (parts (txns v)))) [i..<j])" for i j
  have split: "h i j @ h j k = h i k" if "i \<le> j" "j \<le> k" for i j k
    using upt_add_eq_append [OF that(1), of "k - j"] that(2) by (simp add: h_def)
  have hist: "history txns i j = h i (Suc j)" for i j by (simp add: history_def h_def del: upt_Suc)
  have "h 0 (Suc k) = h 0 a @ h a (Suc k)" "h a (Suc b) = h a (Suc k) @ h (Suc k) (Suc b)"
    "h 0 (Suc b) = h 0 a @ h a (Suc k) @ h (Suc k) (Suc b)"
    using assms by (simp_all add: split)
  then show ?thesis by (simp only: hist replay_append replay_idem)
qed

lemma max_by_key_in: "max_by_key key xs = Some x \<Longrightarrow> x \<in> set xs"
  by (induction xs arbitrary: x) (auto split: option.splits if_splits)

lemma max_by_key_max: "max_by_key key xs = Some x \<Longrightarrow> y \<in> set xs \<Longrightarrow> key y \<le> key x"
proof (induction xs arbitrary: x y)
  case (Cons z zs)
  show ?case
  proof (cases "max_by_key key zs")
    case None
    then have "zs = []" by (cases zs) (auto split: option.splits if_splits)
    with Cons.prems show ?thesis by auto
  next
    case (Some w)
    with Cons.prems Cons.IH [OF Some] show ?thesis by (fastforce split: if_splits)
  qed
qed simp

text \<open>Switching to another table while the scan runs reads the same quads.\<close>

lemma switchable_tables_agree:
  assumes "with_best_quad_table score tables = (Some best, switchable)" "\<forall>qt \<in> set tables. table_ok txns b qt"
    "qt \<in> set switchable"
  shows "table_rows (Some qt) = table_rows (Some best)"
proof -
  have "best \<in> set tables" "qt \<in> set tables" "log_transaction_version qt = log_transaction_version best"
    using assms(1,3) max_by_key_in [of score tables best]
    by (auto simp: with_best_quad_table_def split: option.splits)
  then show ?thesis using assms(2) by (auto simp: table_rows_def table_ok_def)
qed

lemma with_changeset_for_log_correct:
  assumes E: "engine_ok E" "0 < n" and com: "committed txns log b" and v: "target \<le> b"
    and cache: "cache_ok E n txns cache"
    and qt: "\<forall>qt. quad_table = Some qt \<longrightarrow> table_ok txns target qt"
  shows "\<exists>cs cache'. with_changeset_for_log E log lv cache quad_table (Some target) = Inr (cs, cache') \<and>
    cache_ok E n txns cache' \<and> (\<forall>c. cs = Some c \<longrightarrow> cs_inv E n c) \<and>
    changeset_effect cs (table_rows quad_table) = replay (history txns 0 target) {}"
proof -
  define k where "k = (case quad_table of None \<Rightarrow> 0 | Some qt \<Rightarrow> log_transaction_version qt)"
  have k: "k \<le> target" using qt by (auto simp: k_def table_ok_def split: option.splits)
  have h0: "replay (history txns 0 0) {} = {}"
    using com by (simp add: history_def committed_def replay_def)
  have base: "table_rows quad_table = replay (history txns 0 k) {}"
    using qt h0 by (auto simp: table_rows_def k_def table_ok_def split: option.splits)
  show ?thesis
  proof (cases "target = k")
    case True
    then show ?thesis using cache base
      by (auto simp: with_changeset_for_log_def k_def [symmetric] version_range_try_new_def changeset_effect_def)
  next
    case False
    let ?vr = "\<lparr>starting_version = k, ending_version = target\<rparr>"
    from compute_changeset_correct_aux [OF E com _ cache, of ?vr] v obtain c cache' where
      c: "compute_changeset E log cache ?vr = Inr (c, cache')" "changeset_ok E n txns c"
        "cs_version_range c = ?vr" "cache_ok E n txns cache'" by auto
    have "with_changeset_for_log E log lv cache quad_table (Some target) = Inr (Some c, cache')"
      using k False c(1)
      by (simp add: with_changeset_for_log_def k_def [symmetric] version_range_try_new_def Let_def)
    moreover have "changeset_effect (Some c) (table_rows quad_table) = replay (history txns 0 target) {}"
      using c(2,3) replay_overlap [of k k target txns "{}"] k
      by (simp add: changeset_effect_def changeset_ok_def base)
    ultimately show ?thesis using c(2,4) by (auto simp: changeset_ok_def)
  qed
qed

lemma plan_scan_correct_aux:
  assumes E: "engine_ok E" "0 < n" and com: "committed txns log b" and v: "version s \<le> b"
    and cache: "cache_ok E n txns cache" and tables: "\<forall>qt \<in> set (quad_tables s). table_ok txns (version s) qt"
    and tx: "case transactional_changeset s of
      None \<Rightarrow> pend = []
    | Some c \<Rightarrow> cs_inv E n c \<and> (\<forall>D. replay (cs_ops c) D = replay pend (replay (history txns 0 (version s)) D))"
  shows "\<exists>rows cache'. plan_quad_pattern_scan E n matches score log cache s = Inr (rows, cache') \<and>
    cache_ok E n txns cache' \<and> set rows = {q \<in> replay pend (replay (history txns 0 (version s)) {}). matches q}"
proof -
  define best where "best = fst (with_best_quad_table score (quad_tables s))"
  have best: "table_ok txns (version s) qt" if "best = Some qt" for qt
    using tables max_by_key_in [of score "quad_tables s" qt] that
    by (auto simp: best_def with_best_quad_table_def split: option.splits)
  then have best': "\<forall>qt. best = Some qt \<longrightarrow> table_ok txns (version s) qt"
    and comps: "\<forall>qt. best = Some qt \<longrightarrow> all_components (components qt)"
    by (auto simp: table_ok_def)
  from with_changeset_for_log_correct [OF E com v cache best', of "version s"] obtain cs cache' where
    cs: "with_changeset_for_log E log (version s) cache best (Some (version s)) = Inr (cs, cache')" "cache_ok E n txns cache'"
      "\<forall>c. cs = Some c \<longrightarrow> cs_inv E n c"
      "changeset_effect cs (table_rows best) = replay (history txns 0 (version s)) {}" by blast
  define cs' where "cs' = (case transactional_changeset s of None \<Rightarrow> cs | Some c \<Rightarrow> Some c)"
  have inv: "\<forall>c. cs' = Some c \<longrightarrow> cs_inv E n c" using cs(3) tx
    by (cases "transactional_changeset s") (simp_all add: cs'_def)
  have eff: "changeset_effect cs' (table_rows best) = replay pend (replay (history txns 0 (version s)) {})"
  proof (cases "transactional_changeset s")
    case None
    then show ?thesis using cs(4) tx by (simp add: cs'_def replay_def)
  next
    case (Some c)
    have "replay (history txns 0 (version s)) (table_rows best) = replay (history txns 0 (version s)) {}"
    proof (cases best)
      case None
      then show ?thesis by (simp add: table_rows_def)
    next
      case (Some qt)
      then show ?thesis using best [OF Some] replay_overlap [of 0 "log_transaction_version qt" "version s" txns "{}"]
        by (simp add: table_rows_def table_ok_def)
    qed
    then show ?thesis using Some tx by (simp add: cs'_def changeset_effect_def)
  qed
  from build_scan_set [OF E(1) inv comps, of matches] obtain r where
    r: "build_scan E n matches best cs' = Inr r"
    "set (scan r) = {q \<in> replay pend (replay (history txns 0 (version s)) {}). matches q}"
    unfolding eff by blast
  then show ?thesis using cs(1,2)
    by (simp add: plan_quad_pattern_scan_def best_def [symmetric] cs'_def [symmetric] Let_def)
qed

section \<open>Snapshots inside a transaction\<close>

lemma lazy_added_quads_distinct:
  assumes inv: "lazy_inv E n c" and qs: "lazy_added_quads E n None c = Inr qs"
  shows "distinct qs"
proof -
  have E: "engine_ok E" using inv by (simp add: lazy_inv_def)
  let ?cs = "[GraphName, Subject, Predicate, Object]"
  define merged where "merged = merge_sorted E ?cs (map (\<lambda>p. sort_rows E ?cs (map quad p)) (scan_all_files n c))"
  have m: "sorted_by (components_key ?cs) merged"
    using E unfolding merged_def engine_ok_def by simp
  have "inj_on (components_key ?cs) (set merged)"
    by (rule inj_onI) (rule components_key_inj [of ?cs], auto simp: all_components_def)
  then have "sorted_wrt (\<lambda>x y. components_key ?cs x < components_key ?cs y) (remdups_adj merged)"
    using m unfolding sorted_by_def by (intro remdups_adj_strict)
  then have "distinct (remdups_adj merged)"
    by (rule strict_sorted_distinct)
  moreover have "qs = remdups_adj merged"
    using qs by (auto simp: lazy_added_quads_def merged_def [symmetric] verify_not_null_def
        sorted_distinct_eq [OF engine_converter(1) [OF E]] Let_def split: if_splits)
  ultimately show ?thesis by simp
qed

lemma cs_as_eager_correct:
  assumes E: "engine_ok E" and inv: "cs_inv E n c"
  shows "\<exists>e. cs_as_eager_changeset E n c = Inr e \<and> eager_wf e \<and> version_range e = cs_version_range c \<and>
    (\<forall>D. eager_apply e D = replay (cs_ops c) D)"
proof (cases c)
  case (EagerCs e)
  then show ?thesis using inv eager_effect [of e] by (simp add: apply_net_compact)
next
  case (LazyCs l)
  then have li: "lazy_inv E n l" using inv by simp
  from lazy_added_quads_set [OF li, of None] obtain qs where
    qs: "lazy_added_quads E n None l = Inr qs" "set qs = quad ` set (lazy_rows l)" by blast
  let ?rows = "map (\<lambda>q. (as_stored InsertQuad, q)) qs" and ?ops = "map (Pair InsertQuad) qs"
  have rows: "set ?rows = (\<lambda>(op, r). (as_stored op, r)) ` compact ?ops"
    unfolding compact_inserts by (simp add: image_image)
  have "distinct ?rows" using lazy_added_quads_distinct [OF li qs(1)] by (simp add: distinct_map inj_on_def)
  moreover have "ops_complete (compact ?ops)"
    unfolding compact_inserts using li qs(2) by (auto simp: ops_complete_def lazy_inv_def)
  ultimately obtain e where
    e: "partition_changeset_operations E (lazy_version_range l) ?rows = Inr e" "eager_wf e"
      "version_range e = lazy_version_range l" "eager_apply e = apply_net (compact ?ops)"
    using partition_compact [OF E _ rows] by blast
  have "eager_apply e D = replay (lazy_ops l) D" for D
    by (simp add: e(4) apply_net_compact replay_inserts qs(2) lazy_ops_def del: map_map)
  with e(1-3) show ?thesis by (simp add: LazyCs lazy_as_eager_changeset_def qs(1))
qed

lemma transaction_snapshot_correct_aux:
  assumes E: "engine_ok E" "0 < n" and com: "committed txns log b" and v: "version s \<le> b"
    and cache: "cache_ok E n txns cache" and t: "txn_wf t" and s: "transactional_changeset s = None"
  shows "\<exists>s' cache'. transaction_snapshot E n log cache s t =
      Inr (s', t\<lparr>may_depend_on_database_state := True\<rparr>, cache') \<and> cache_ok E n txns cache' \<and>
    quad_tables s' = quad_tables s \<and> version s' = version s \<and>
    (case transactional_changeset s' of
       None \<Rightarrow> row_ops (concat (parts t)) = []
     | Some c \<Rightarrow> cs_inv E n c \<and>
         (\<forall>D. replay (cs_ops c) D = replay (row_ops (concat (parts t))) (replay (history txns 0 (version s)) D)))"
proof (cases "concat (parts t) = []")
  case True
  then have "row_ops (concat (parts t)) = []" by (simp only: row_ops_Nil)
  then show ?thesis using cache s True unfolding transaction_snapshot_def Let_def
    by (simp del: concat_eq_Nil_conv)
next
  case False
  let ?vr = "version_range_new_unchecked 0 (version s)" and ?new = "concat (parts t)"
  from compute_changeset_correct_aux [OF E com _ cache, of ?vr] v obtain c cache' where
    c: "compute_changeset E log cache ?vr = Inr (c, cache')" "changeset_ok E n txns c"
      "cs_version_range c = ?vr" "cache_ok E n txns cache'"
    by (auto simp: version_range_new_unchecked_def)
  from cs_as_eager_correct [OF E(1), of n c] c(2) obtain e where
    e: "cs_as_eager_changeset E n c = Inr e" "eager_wf e" "\<forall>D. eager_apply e D = replay (cs_ops c) D"
    by (auto simp: changeset_ok_def)
  have new: "\<forall>r \<in> set ?new. log_row_valid r"
    using t by (fastforce simp: txn_wf_def in_set_conv_nth)
  from extend_correct_aux [OF E(1) e(2) new, of "version_range_new_unchecked 0 (version s + 1)"] obtain x where
    x: "eager_extend E e (version_range_new_unchecked 0 (version s + 1)) ?new = Inr x" "eager_wf x"
      "\<forall>D. eager_apply x D = replay (row_ops ?new) (eager_apply e D)" by blast
  have "replay (row_ops (to_operations x)) D = replay (row_ops ?new) (replay (history txns 0 (version s)) D)" for D
    using eager_effect [OF x(2), of D] x(3) e(3) c(2,3)
    by (simp add: apply_net_compact changeset_ok_def version_range_new_unchecked_def)
  moreover have "parts t \<noteq> []" using False by auto
  ultimately show ?thesis using False c(1,4) e(1) x(1,2)
    by (simp add: transaction_snapshot_def Let_def del: concat_eq_Nil_conv)
qed

section \<open>Updating the quad tables\<close>

definition splits_files :: "('r list \<Rightarrow> 'r list list) \<Rightarrow> bool" where
  "splits_files split_files \<longleftrightarrow> (\<forall>rows. concat (split_files rows) = rows)"

lemma sort_rows_set: "engine_ok E \<Longrightarrow> set (sort_rows E cs xs) = set xs"
  by (rule mset_eq_setD) (simp add: engine_ok_def)

text \<open>A table that is at version \<open>b\<close> stays as it is; another one is rewritten with its rows in the order of the table.\<close>

definition updated_table :: "nat \<Rightarrow> ('t :: linorder) QuadTableSnapshot \<Rightarrow> 't QuadTableSnapshot \<Rightarrow> bool" where
  "updated_table b qt qt' \<longleftrightarrow> components qt' = components qt \<and>
     (if log_transaction_version qt = b then qt' = qt else sorted_by (components_key (components qt)) (concat (active_files qt')))"

lemma full_rewrite_correct:
  assumes E: "engine_ok E" and split: "splits_files split_files" and c: "changeset_ok E n txns c"
    and range: "cs_version_range c = \<lparr>starting_version = a, ending_version = b\<rparr>"
    and qt: "table_ok txns b qt" "a \<le> log_transaction_version qt"
  shows "\<exists>qt'. full_rewrite E n split_files qt c = Inr qt' \<and> table_ok txns b qt' \<and>
    log_transaction_version qt' = b \<and> components qt' = components qt \<and> sorted_by (components_key (components qt)) (concat (active_files qt'))"
proof -
  have inv: "cs_inv E n c" using c by (simp add: changeset_ok_def)
  from build_scan_set [OF E, of "Some c" n "Some qt" "\<lambda>_. True"] inv qt(1) obtain r where
    r: "build_scan E n (\<lambda>_. True) (Some qt) (Some c) = Inr r"
      "set (scan r) = changeset_effect (Some c) (table_rows (Some qt))" by (auto simp: table_ok_def)
  have "set (scan r) = replay (history txns 0 b) {}"
    using r(2) c qt replay_overlap [of a "log_transaction_version qt" b txns "{}"]
    by (simp add: changeset_effect_def table_rows_def changeset_ok_def range table_ok_def)
  moreover have "concat (split_files (sort_rows E (components qt) (scan r))) = sort_rows E (components qt) (scan r)"
    using split by (simp add: splits_files_def)
  moreover have "sorted_by (components_key (components qt)) (sort_rows E (components qt) (scan r))" using E by (simp add: engine_ok_def)
  ultimately show ?thesis
    using qt(1) r(1) by (simp add: full_rewrite_def table_ok_def range sort_rows_set [OF E] Let_def del: set_concat)
qed

lemma update_tables_correct:
  assumes E: "engine_ok E" and split: "splits_files split_files" and c: "changeset_ok E n txns c"
    and range: "cs_version_range c = \<lparr>starting_version = a, ending_version = b\<rparr>"
  shows "\<forall>qt \<in> set tables. table_ok txns b qt \<and> a \<le> log_transaction_version qt \<Longrightarrow>
    \<exists>tables'. update_tables E n split_files b c tables = Inr tables' \<and>
      list_all2 (updated_table b) tables tables' \<and>
      (\<forall>qt \<in> set tables'. table_ok txns b qt \<and> log_transaction_version qt = b)"
proof (induction tables)
  case (Cons qt tables)
  from Cons obtain tables' where IH: "update_tables E n split_files b c tables = Inr tables'"
    "list_all2 (updated_table b) tables tables'"
    "\<forall>qt \<in> set tables'. table_ok txns b qt \<and> log_transaction_version qt = b" by auto
  from full_rewrite_correct [OF E split c range, of qt] Cons.prems obtain qt' where
    "full_rewrite E n split_files qt c = Inr qt'" "table_ok txns b qt'" "log_transaction_version qt' = b"
    "components qt' = components qt" "sorted_by (components_key (components qt)) (concat (active_files qt'))" by auto
  moreover from this have "updated_table b qt (if log_transaction_version qt = b then qt else qt')" by (simp add: updated_table_def)
  ultimately show ?case using IH Cons.prems by auto
qed simp

lemma fold_min_le: "fold min xs m \<le> m \<and> (\<forall>x \<in> set xs. fold min xs m \<le> x)" for m :: nat
proof (induction xs arbitrary: m)
  case (Cons x xs)
  from Cons [of "min x m"] show ?case by auto
qed simp

lemma fold_min_in: "xs \<noteq> [] \<Longrightarrow> \<forall>x \<in> set xs. x \<le> m \<Longrightarrow> fold min xs m \<in> set xs" for m :: nat
proof (induction xs arbitrary: m)
  case (Cons x xs)
  have "fold min xs y = y \<or> fold min xs y \<in> set xs" for y
    by (induction xs arbitrary: y) (auto simp: min_def)
  from this [of x] Cons.prems show ?case by (auto simp: min_absorb1)
qed simp

lemma optimize_correct_aux:
  assumes E: "engine_ok E" "0 < n" and split: "splits_files split_files" and com: "committed txns log b"
    and v: "b < 2 ^ 64" and cache: "cache_ok E n txns cache" and tables: "\<forall>qt \<in> set tables. table_ok txns b qt"
  shows "\<exists>tables' cache'. optimize E n split_files log b cache tables = Inr (tables', cache') \<and>
    cache_ok E n txns cache' \<and> list_all2 (updated_table b) tables tables' \<and>
    (\<forall>qt \<in> set tables'. table_ok txns b qt \<and> log_transaction_version qt = b)"
proof (cases "tables = []")
  case True
  then show ?thesis using cache by (simp add: optimize_def)
next
  case False
  define m where "m = fold min (map log_transaction_version tables) (2 ^ 64 - 1)"
  have vers: "\<forall>qt \<in> set tables. log_transaction_version qt \<le> b" using tables by (auto simp: table_ok_def)
  have "m \<in> set (map log_transaction_version tables)"
    unfolding m_def using False vers v by (intro fold_min_in) auto
  then have mb: "m \<le> b" using vers by auto
  have m: "\<forall>qt \<in> set tables. m \<le> log_transaction_version qt"
    using fold_min_le [of "map log_transaction_version tables"] by (simp add: m_def)
  show ?thesis
  proof (cases "b = m")
    case True
    then have at: "log_transaction_version qt = b" if "qt \<in> set tables" for qt using that vers m by (auto intro: order_antisym)
    have "list_all2 (updated_table b) tables tables" using at by (simp add: list.rel_refl_strong updated_table_def)
    then show ?thesis using True False cache tables at unfolding optimize_def m_def [symmetric] Let_def by simp
  next
    case neq: False
    let ?vr = "version_range_new_unchecked m b"
    from compute_changeset_correct_aux [OF E com _ cache, of ?vr] obtain c cache' where
      c: "compute_changeset E log cache ?vr = Inr (c, cache')" "changeset_ok E n txns c"
        "cs_version_range c = ?vr" "cache_ok E n txns cache'"
      by (auto simp: version_range_new_unchecked_def)
    from update_tables_correct [OF E(1) split c(2), of m b tables] c(3) tables m obtain tables' where
      "update_tables E n split_files b c tables = Inr tables'" "list_all2 (updated_table b) tables tables'"
      "\<forall>qt \<in> set tables'. table_ok txns b qt \<and> log_transaction_version qt = b"
      by (auto simp: version_range_new_unchecked_def)
    then show ?thesis using False neq mb c(1,4)
      unfolding optimize_def m_def [symmetric] Let_def by simp
  qed
qed

end
