(* ===== verification/Delta_Properties.thy ===== *)
theory Delta_Properties
  imports Delta_Storage_Scan
begin

text \<open>
  The properties of the Delta storage, with a reference engine (list sorting, nested-loop anti
  join, a unary row format) that shows the assumptions on the query engine can hold, and a
  small concrete history for the witnesses.
\<close>

section \<open>A reference engine\<close>

fun ref_column :: "nat option \<Rightarrow> bytes" where
  "ref_column None = [0]"
| "ref_column (Some k) = 1 # replicate k 2 @ [0]"

fun ref_decode :: "bytes \<Rightarrow> nat option \<times> bytes" where
  "ref_decode bs = (if hd bs = 0 then (None, tl bs)
     else (Some (length (takeWhile ((=) 2) (tl bs))), tl (dropWhile ((=) 2) (tl bs))))"

definition ref_converter :: "nat RowConverter" where
  "ref_converter = \<lparr>convert_graph = ref_column,
     convert_quad = (\<lambda>q. ref_column (graph_col q) @ ref_column (subject_col q) @
        ref_column (predicate_col q) @ ref_column (object_col q)),
     parse_quad = (\<lambda>bs. let (g, bs) = ref_decode bs; (s, bs) = ref_decode bs;
        (p, bs) = ref_decode bs; (ob, bs) = ref_decode bs
        in \<lparr>graph_col = g, subject_col = s, predicate_col = p, object_col = ob\<rparr>)\<rparr>"

definition ref_engine :: "nat Engine" where
  "ref_engine = \<lparr>row_converter = ref_converter,
     sort_log = sort_key log_key,
     sort_rows = (\<lambda>cs. sort_key (components_key cs)),
     merge_sorted = (\<lambda>cs xss. sort_key (components_key cs) (concat xss)),
     distinct_graphs = remdups,
     right_anti_join = (\<lambda>ks cs. filter (\<lambda>x. components_key cs x \<notin> set ks)),
     exact_num_rows = (\<lambda>xs. Some (length xs))\<rparr>"

lemma ref_decode_column: "ref_decode (ref_column c @ bs) = (c, bs)"
proof -
  have "takeWhile ((=) 2) (replicate k 2 @ 0 # bs) = replicate k 2"
    "dropWhile ((=) 2) (replicate k 2 @ 0 # bs) = 0 # bs" for k
    by (induction k) simp_all
  then show ?thesis by (cases c) simp_all
qed

lemma ref_decode_last: "ref_decode (ref_column c) = (c, [])"
  using ref_decode_column [of c "[]"] by simp

lemma ref_column_prefix: "prefix (ref_column a) (ref_column b) \<Longrightarrow> a = b"
proof -
  assume "prefix (ref_column a) (ref_column b)"
  then obtain zs where "ref_column b = ref_column a @ zs" by (auto simp: prefix_def)
  from arg_cong [OF this, of ref_decode] show "a = b"
    using ref_decode_column [of b "[]"] ref_decode_column [of a zs] by simp
qed

lemma ref_row_format: "row_format ref_converter"
  unfolding row_format_def
  by (simp add: ref_converter_def ref_column_prefix ref_decode_column ref_decode_last Let_def
      del: ref_decode.simps)

lemma sort_key_sorted_by: "sorted_by key (sort_key key xs)"
  using sorted_sort_key [of key xs] by (simp add: sorted_by_def sorted_wrt_map)

lemma ref_engine_ok: "engine_ok ref_engine"
  by (simp add: engine_ok_def ref_engine_def ref_row_format sort_key_sorted_by)

section \<open>A concrete history\<close>

definition demo_quad :: "nat option \<Rightarrow> nat \<Rightarrow> nat quad_row" where
  "demo_quad g s = \<lparr>graph_col = g, subject_col = Some s, predicate_col = Some 2, object_col = Some 3\<rparr>"

definition demo_txns :: "nat \<Rightarrow> nat Transaction" where
  "demo_txns v =
     (if v = 1 then append_quads [demo_quad None 1, demo_quad (Some 9) 1] (transaction_new 0)
      else if v = 2 then drop_graph [Some 9] (remove_quads [demo_quad None 1]
        (append_quads [demo_quad None 4] (transaction_new 1)))
      else transaction_new 0)"

definition demo_log :: "nat log_table" where
  "demo_log v = Some [\<lparr>file_version = v, file_rows = concat (parts (demo_txns v)), file_size = 100,
     file_stats = Inr None\<rparr>]"

definition demo_table :: "nat QuadTableSnapshot" where
  "demo_table = \<lparr>components = [GraphName, Subject, Predicate, Object],
     active_files = [[demo_quad None 1], [demo_quad (Some 9) 1]], log_transaction_version = 1\<rparr>"

definition demo_snapshot :: "nat Snapshot" where
  "demo_snapshot = \<lparr>quad_tables = [demo_table], version = 2, transactional_changeset = None\<rparr>"

lemmas txn_op_defs = append_quads_def remove_quads_def create_named_graph_def clear_graph_def drop_graph_def
  append_quads_with_operation_def append_graph_operations_def transaction_new_def pending_row_def

lemma demo_txn_wf: "txn_wf (demo_txns v)"
  by (auto simp: demo_txns_def txn_op_defs txn_wf_def demo_quad_def graph_only_row_def log_row_valid_def
      row_valid_def from_stored_def complete_row_def less_Suc_eq
      intro: exI [of _ InsertQuad] exI [of _ RemoveQuad] exI [of _ DropGraph])

lemma demo_committed: "committed demo_txns demo_log b"
proof -
  have "\<forall>r \<in> set (concat (parts (demo_txns v))). log_row_valid r" for v
    using demo_txn_wf [of v] by (fastforce simp: txn_wf_def in_set_conv_nth)
  moreover have "parts (demo_txns 0) = []" by (simp add: demo_txns_def transaction_new_def)
  ultimately show ?thesis
    by (auto simp: committed_def demo_txn_wf demo_log_def commit_files_def file_ok_def)
qed

lemma demo_table_ok: "table_ok demo_txns 2 demo_table"
  by (auto simp: table_ok_def all_components_def demo_table_def history_def upt_rec demo_txns_def txn_op_defs
      row_ops_def from_stored_def replay_def)

lemma empty_cache_ok: "cache_ok E n txns (\<lambda>_. None)"
  by (simp add: cache_ok_def)

section \<open>Scans and snapshots\<close>

text \<open>C1: A scan of a snapshot returns exactly the matching quads of the dataset that results from
  executing all committed transactions one after the other, whichever quad table the score
  selects, whatever version that table has, whether the changeset is computed or cached, eager
  or insertion-only, and in whatever order the engine delivers log rows of the same part. The
  changeset cache stays correct.\<close>

theorem snapshot_scan_correct:
  assumes "engine_ok E" "0 < n" "committed txns log b" "version s \<le> b" "cache_ok E n txns cache"
    and "\<forall>qt \<in> set (quad_tables s). table_ok txns (version s) qt" "transactional_changeset s = None"
  shows "\<exists>rows cache'. plan_quad_pattern_scan E n matches score log cache s = Inr (rows, cache') \<and>
    cache_ok E n txns cache' \<and> set rows = {q \<in> replay (history txns 0 (version s)) {}. matches q}"
  using plan_scan_correct_aux [OF assms(1-6), of "[]" matches score] assms(7) by (simp add: replay_def)

theorem snapshot_scan_correct_witness:
  "\<exists>rows cache'. plan_quad_pattern_scan ref_engine 1 (\<lambda>q. graph_col q = None) (\<lambda>_. 0) demo_log (\<lambda>_. None)
       demo_snapshot = Inr (rows, cache') \<and> set rows = {demo_quad None 4}"
proof -
  have "{q \<in> replay (history demo_txns 0 2) {}. graph_col q = None} = {demo_quad None 4}"
    by (auto simp: history_def upt_rec demo_txns_def txn_op_defs row_ops_def from_stored_def replay_def
        demo_quad_def graph_only_row_def)
  moreover have "version demo_snapshot = 2" "transactional_changeset demo_snapshot = None"
    "quad_tables demo_snapshot = [demo_table]" by (simp_all add: demo_snapshot_def)
  ultimately show ?thesis
    using snapshot_scan_correct [OF ref_engine_ok, of 1 demo_txns demo_log 2 demo_snapshot "\<lambda>_. None"
        "\<lambda>q. graph_col q = None" "\<lambda>_. 0"] demo_committed [of 2] demo_table_ok by (auto simp: empty_cache_ok)
qed

text \<open>C9: A transaction reads its own writes: a scan of the snapshot taken inside a transaction
  returns the matching quads of the committed dataset with the pending operations of the
  transaction replayed on top, although the changeset covers log versions the quad table already
  contains.\<close>

theorem transaction_reads_its_writes:
  assumes "engine_ok E" "0 < n" "committed txns log b" "version s \<le> b" "cache_ok E n txns cache"
    and "\<forall>qt \<in> set (quad_tables s). table_ok txns (version s) qt" "transactional_changeset s = None" "txn_wf t"
  shows "\<exists>s' t' cache' rows cache''. transaction_snapshot E n log cache s t = Inr (s', t', cache') \<and>
    may_depend_on_database_state t' \<and>
    plan_quad_pattern_scan E n matches score log cache' s' = Inr (rows, cache'') \<and>
    set rows = {q \<in> replay (row_ops (concat (parts t))) (replay (history txns 0 (version s)) {}). matches q}"
proof -
  let ?pend = "row_ops (concat (parts t))"
  from transaction_snapshot_correct_aux [OF assms(1-5,8,7)] obtain s' cache' where
    s': "transaction_snapshot E n log cache s t = Inr (s', t\<lparr>may_depend_on_database_state := True\<rparr>, cache')"
      "cache_ok E n txns cache'" "quad_tables s' = quad_tables s" "version s' = version s"
    and tx: "case transactional_changeset s' of None \<Rightarrow> ?pend = []
      | Some c \<Rightarrow> cs_inv E n c \<and> (\<forall>D. replay (cs_ops c) D = replay ?pend (replay (history txns 0 (version s)) D))"
    by blast
  have "version s' \<le> b" "\<forall>qt \<in> set (quad_tables s'). table_ok txns (version s') qt"
    using assms(4,6) s'(3,4) by simp_all
  from plan_scan_correct_aux [OF assms(1-3) this(1) s'(2) this(2) tx [folded s'(4)], of matches score] obtain rows cache'' where
    "plan_quad_pattern_scan E n matches score log cache' s' = Inr (rows, cache'')"
    "set rows = {q \<in> replay ?pend (replay (history txns 0 (version s)) {}). matches q}"
    using s'(4) by auto
  then show ?thesis using s'(1) by auto
qed

theorem transaction_reads_its_writes_witness:
  "\<exists>s' t' cache' rows cache''.
     transaction_snapshot ref_engine 1 demo_log (\<lambda>_. None) demo_snapshot
       (append_quads [demo_quad (Some 9) 7] (transaction_new 2)) = Inr (s', t', cache') \<and>
     may_depend_on_database_state t' \<and>
     plan_quad_pattern_scan ref_engine 1 (\<lambda>_. True) (\<lambda>_. 0) demo_log cache' s' = Inr (rows, cache'') \<and>
     set rows = {demo_quad None 4, demo_quad (Some 9) 7}"
proof -
  let ?t = "append_quads [demo_quad (Some 9) 7] (transaction_new 2)"
  have "{q \<in> replay (row_ops (concat (parts ?t))) (replay (history demo_txns 0 2) {}). True} =
      {demo_quad None 4, demo_quad (Some 9) 7}"
    by (auto simp: history_def upt_rec demo_txns_def txn_op_defs row_ops_def from_stored_def replay_def
        demo_quad_def graph_only_row_def)
  moreover have "txn_wf ?t"
    by (auto simp: txn_op_defs txn_wf_def demo_quad_def log_row_valid_def row_valid_def from_stored_def
        complete_row_def intro: exI [of _ InsertQuad])
  moreover have "version demo_snapshot = 2" "transactional_changeset demo_snapshot = None"
    "quad_tables demo_snapshot = [demo_table]" by (simp_all add: demo_snapshot_def)
  ultimately show ?thesis
    using transaction_reads_its_writes [OF ref_engine_ok, of 1 demo_txns demo_log 2 demo_snapshot "\<lambda>_. None" ?t
        "\<lambda>_. True" "\<lambda>_. 0"] demo_committed [of 2] demo_table_ok by (auto simp: empty_cache_ok)
qed

text \<open>C12: Updating the quad tables never fails and brings every table to the version of the log with exactly the
  quads of the committed history, even when the tables start from different versions and share one changeset. A table that
  is at that version is left as it is; any other is rewritten, and the rows of its files, one file after the other, are
  sorted by the components of the table. Assumed: the query engine and the file writer work as documented, the log has fewer
  than \<open>2^64\<close> versions, and the tables and the cache are valid.\<close>

theorem optimize_correct:
  assumes "engine_ok E" "0 < n" "splits_files split_files" "committed txns log b" "b < 2 ^ 64"
    "cache_ok E n txns cache" "\<forall>qt \<in> set tables. table_ok txns b qt"
  shows "\<exists>tables' cache'. optimize E n split_files log b cache tables = Inr (tables', cache') \<and>
    list_all2 (\<lambda>qt qt'. components qt' = components qt \<and> (if log_transaction_version qt = b then qt' = qt
       else sorted_by (components_key (components qt)) (concat (active_files qt')))) tables tables' \<and>
    (\<forall>qt \<in> set tables'. log_transaction_version qt = b \<and>
       set (concat (active_files qt)) = replay (history txns 0 b) {})"
proof -
  obtain tables' cache' where "optimize E n split_files log b cache tables = Inr (tables', cache')" "list_all2 (updated_table b) tables tables'"
    "\<forall>qt \<in> set tables'. table_ok txns b qt \<and> log_transaction_version qt = b"
    using optimize_correct_aux [OF assms] by blast
  then show ?thesis unfolding updated_table_def [abs_def] table_ok_def by (intro exI [of _ tables'] exI [of _ cache']) simp
qed

theorem optimize_correct_witness:
  "\<exists>tables' cache'. optimize ref_engine 1 (\<lambda>rows. [rows]) demo_log 2 (\<lambda>_. None) [demo_table] = Inr (tables', cache') \<and>
    (\<forall>qt \<in> set tables'. log_transaction_version qt = 2 \<and>
       set (concat (active_files qt)) = {demo_quad None 4})"
proof -
  have "replay (history demo_txns 0 2) {} = {demo_quad None 4}"
    by (auto simp: history_def upt_rec demo_txns_def txn_op_defs row_ops_def from_stored_def replay_def
        demo_quad_def graph_only_row_def)
  then show ?thesis
    using optimize_correct [OF ref_engine_ok, of 1 "\<lambda>rows. [rows]" demo_txns demo_log 2 "\<lambda>_. None" "[demo_table]"]
      demo_committed [of 2] demo_table_ok by (auto simp: splits_files_def empty_cache_ok)
qed

section \<open>Compaction of the log\<close>

text \<open>C8: The changeset stream, which keeps only the last operation per key of a byte-ordered map,
  is a faithful summary of the log: it emits each operation at most once, and applying what it
  emits to any dataset (clear, then remove, then add) gives the same dataset as replaying every
  row of the log in order.\<close>

theorem compaction_preserves_replay:
  assumes "row_format conv" "\<forall>r \<in> set (concat batches). from_stored (operation r) \<noteq> None"
  shows "\<exists>out. compute_log_changeset conv batches = Inr out \<and> distinct out \<and>
    (\<forall>D. apply_net {(op, q). (as_stored op, q) \<in> set out} D = replay (row_ops (concat batches)) D)"
proof -
  from compute_log_changeset_compact [OF assms] obtain out where
    out: "compute_log_changeset conv batches = Inr out" "distinct out"
      "set out = (\<lambda>(op, r). (as_stored op, r)) ` compact (row_ops (concat batches))" by blast
  have "{(op, q). (as_stored op, q) \<in> set out} = compact (row_ops (concat batches))"
    unfolding out(3) by (auto simp: image_iff intro!: bexI)
  then show ?thesis using out(1,2) by (simp add: apply_net_compact)
qed

theorem compaction_preserves_replay_witness:
  "\<exists>out. compute_log_changeset ref_converter
       [[pending_row 0 InsertQuad (demo_quad (Some 9) 1), pending_row 1 ClearGraph (graph_only_row (Some 9))],
        [], [pending_row 2 InsertQuad (demo_quad (Some 9) 5)]] = Inr out \<and>
     apply_net {(op, q). (as_stored op, q) \<in> set out} {demo_quad (Some 9) 8, demo_quad None 8} =
       {demo_quad (Some 9) 5, demo_quad None 8}"
  (is "\<exists>out. compute_log_changeset _ ?bs = _ \<and> _")
proof -
  have "\<forall>r \<in> set (concat ?bs). from_stored (operation r) \<noteq> None"
    by (simp add: pending_row_def from_stored_def)
  moreover have "replay (row_ops (concat ?bs)) {demo_quad (Some 9) 8, demo_quad None 8} =
      {demo_quad (Some 9) 5, demo_quad None 8}"
    by (auto simp: pending_row_def row_ops_def from_stored_def replay_def demo_quad_def graph_only_row_def)
  ultimately show ?thesis using compaction_preserves_replay [OF ref_row_format, of ?bs] by auto
qed

text \<open>C28: Extending an eager changeset by new operations has the effect of the old changeset
  followed by the new operations, covers the joined version range, and keeps the changeset well
  formed: no quad both added and removed, no incomplete quad, every graph of an added quad listed,
  every dropped graph also cleared.\<close>

theorem extend_correct:
  assumes "engine_ok E" "eager_wf c" "\<forall>r \<in> set new_ops. log_row_valid r"
  shows "\<exists>c'. eager_extend E c new_range new_ops = Inr c' \<and> eager_wf c' \<and>
    starting_version (version_range c') = starting_version (version_range c) \<and>
    ending_version (version_range c') = ending_version new_range \<and>
    (\<forall>D. eager_apply c' D = replay (row_ops new_ops) (eager_apply c D))"
  using extend_correct_aux [OF assms] .

definition demo_changeset :: "nat EagerChangeset" where
  "demo_changeset = \<lparr>version_range = \<lparr>starting_version = 0, ending_version = 1\<rparr>, cleared_graphs = [Some 9],
     removed_quads = [demo_quad None 1], added_quads = [demo_quad (Some 9) 5],
     added_named_graphs = [Some 9], dropped_named_graphs = []\<rparr>"

theorem extend_correct_witness:
  "\<exists>c'. eager_extend ref_engine demo_changeset \<lparr>starting_version = 1, ending_version = 2\<rparr>
       [pending_row 0 RemoveQuad (demo_quad (Some 9) 5), pending_row 1 InsertQuad (demo_quad None 1)] = Inr c' \<and>
     eager_apply c' {demo_quad (Some 9) 8} = {demo_quad None 1}"
  (is "\<exists>c'. eager_extend _ _ ?vr ?new = _ \<and> _")
proof -
  have "eager_wf demo_changeset" by (simp add: eager_wf_def demo_changeset_def complete_row_def demo_quad_def)
  moreover have "\<forall>r \<in> set ?new. log_row_valid r"
    by (simp add: pending_row_def log_row_valid_def row_valid_def from_stored_def complete_row_def demo_quad_def)
  moreover have "replay (row_ops ?new) (eager_apply demo_changeset {demo_quad (Some 9) 8}) = {demo_quad None 1}"
    by (auto simp: pending_row_def row_ops_def from_stored_def replay_def eager_apply_def demo_changeset_def demo_quad_def)
  ultimately show ?thesis using extend_correct [OF ref_engine_ok, of demo_changeset ?new ?vr] by auto
qed

text \<open>Partitioning a changeset reports an error exactly when a row carries an unknown operation
  code or a quad operation with a missing subject, predicate or object; graph operations may leave
  these columns empty.\<close>

theorem partition_error_iff:
  "(\<exists>e. partition_changeset_operations E vr rows = Inl e) \<longleftrightarrow>
     (\<exists>x \<in> set rows. case from_stored (fst x) of
        None \<Rightarrow> True
      | Some op \<Rightarrow> \<not> is_graph_operation op \<and>
          (subject_col (snd x) = None \<or> predicate_col (snd x) = None \<or> object_col (snd x) = None))"
proof -
  have "row_valid x \<longleftrightarrow> \<not> (case from_stored (fst x) of
        None \<Rightarrow> True
      | Some op \<Rightarrow> \<not> is_graph_operation op \<and>
          (subject_col (snd x) = None \<or> predicate_col (snd x) = None \<or> object_col (snd x) = None))"
    for x :: "int \<times> 'a quad_row"
    by (auto simp: row_valid_def complete_row_def split: option.splits)
  moreover have "(\<exists>e. partition_changeset_operations E vr rows = Inl e) \<longleftrightarrow> \<not> (\<forall>x \<in> set rows. row_valid x)"
  proof (cases "\<forall>x \<in> set rows. row_valid x")
    case True
    then show ?thesis by (simp add: partition_changeset_operations_def partition_rows_valid)
  next
    case False
    let ?co = "\<lparr>cleared_coal = [], dropped_coal = [], graphs_coal = [], removed_coal = [], added_coal = []\<rparr>"
    from partition_rows_invalid [OF False, of ?co] obtain err where "partition_rows rows ?co = Inl err" by blast
    with False show ?thesis by (simp add: partition_changeset_operations_def)
  qed
  ultimately show ?thesis by blast
qed

text \<open>C29: The insertion-only changeset, which reads the log files directly, is interchangeable with
  the eager one: for a log of complete insertions both add the same quads, list the same named
  graphs and clear or remove nothing, for every number of partitions and every sort order.\<close>

theorem lazy_eager_equivalent:
  assumes "lazy_inv E n c" "eager_changeset_of E vr (lazy_rows c) = Inr e"
  shows "\<exists>qs. lazy_added_quads E n order c = Inr qs \<and> set qs = set (added_quads e) \<and>
    set (lazy_added_named_graphs E n c) = set (added_named_graphs e) \<and>
    cleared_graphs e = [] \<and> removed_quads e = [] \<and> dropped_named_graphs e = []"
proof -
  have E: "engine_ok E" using assms(1) by (simp add: lazy_inv_def)
  have f: "row_format (row_converter E)" using E by (simp add: engine_ok_def)
  have valid: "\<forall>r \<in> set (lazy_rows c). log_row_valid r"
    using assms(1) by (auto simp: lazy_inv_def log_row_valid_def row_valid_def from_stored_def)
  have ops: "row_ops (lazy_rows c) = map (Pair InsertQuad) (map quad (lazy_rows c))"
    using assms(1) by (auto simp: row_ops_def lazy_inv_def from_stored_def)
  from compute_log_changeset_compact [OF f, of "[lazy_rows c]"] log_row_valid_ops(1) [OF valid] obtain out where
    out: "compute_log_changeset (row_converter E) [lazy_rows c] = Inr out"
      "set out = (\<lambda>(op, r). (as_stored op, r)) ` compact (row_ops (lazy_rows c))" by auto
  have o: "set out = Pair 21 ` quad ` set (lazy_rows c)"
    unfolding out(2) ops compact_inserts by (simp add: image_image)
  then have rv: "\<forall>x \<in> set out. row_valid x" using valid assms(1)
    by (auto simp: log_row_valid_def lazy_inv_def)
  have sel: "rows_with X out = (if InsertQuad \<in> X then map snd out else [])" for X
  proof -
    have "fst x \<in> as_stored ` X \<longleftrightarrow> InsertQuad \<in> X" if "x \<in> set out" for x
    proof -
      have "fst x = as_stored InsertQuad" using that o by auto
      then show ?thesis by (simp add: image_iff del: as_stored.simps)
    qed
    then show ?thesis by (auto simp: rows_with_def intro: filter_True filter_False)
  qed
  have e: "e = \<lparr>version_range = vr, cleared_graphs = [], removed_quads = [], added_quads = map snd out,
      added_named_graphs = (if named (map snd out) = [] then [] else distinct_graphs E (named (map snd out))),
      dropped_named_graphs = []\<rparr>"
    using assms(2) by (auto simp: eager_changeset_of_def out(1) partition_changeset_operations_def
        partition_rows_valid [OF rv] sel)
  have "set (distinct_graphs E gs) = set gs" for gs using E by (simp add: engine_ok_def)
  then have "set (added_named_graphs e) = set (named (map snd out))" by (simp add: e)
  then have "set (added_named_graphs e) = graph_col ` quad ` set (lazy_rows c) - {None}"
    by (auto simp: named_def o image_image)
  moreover have "set (added_quads e) = quad ` set (lazy_rows c)" by (simp add: e o image_image)
  ultimately show ?thesis
    using lazy_added_quads_set [OF assms(1), of order] lazy_named_set [OF assms(1)]
    by (auto simp: e image_image)
qed

definition demo_lazy :: "nat LazyInsertionOnlyChangeset" where
  "demo_lazy = \<lparr>lazy_version_range = \<lparr>starting_version = 0, ending_version = 1\<rparr>,
     lazy_files = [\<lparr>file_version = 1, file_rows = [pending_row 0 InsertQuad (demo_quad (Some 9) 5)],
        file_size = 10, file_stats = Inr None\<rparr>]\<rparr>"

theorem lazy_eager_equivalent_witness:
  "\<exists>qs. lazy_added_quads ref_engine 3 None demo_lazy = Inr qs \<and> set qs = {demo_quad (Some 9) 5}"
proof -
  let ?vr = "\<lparr>starting_version = 0, ending_version = 1\<rparr>"
  have inv: "lazy_inv ref_engine 3 demo_lazy"
    by (simp add: lazy_inv_def ref_engine_ok lazy_rows_def demo_lazy_def pending_row_def complete_row_def demo_quad_def)
  have "\<forall>r \<in> set (lazy_rows demo_lazy). log_row_valid r"
    by (simp add: lazy_rows_def demo_lazy_def pending_row_def log_row_valid_def row_valid_def from_stored_def
        complete_row_def demo_quad_def)
  from eager_changeset_of_correct [OF ref_engine_ok this, of ?vr] obtain e where
    e: "eager_changeset_of ref_engine ?vr (lazy_rows demo_lazy) = Inr e"
      "eager_apply e = replay (row_ops (lazy_rows demo_lazy))" by blast
  have "set (added_quads e) = {demo_quad (Some 9) 5}"
    using arg_cong [OF e(2), of "\<lambda>f. f {}"]
    by (simp add: eager_apply_def lazy_rows_def demo_lazy_def pending_row_def row_ops_def from_stored_def replay_def)
  then show ?thesis using lazy_eager_equivalent [OF inv e(1), of None] by auto
qed

section \<open>Named graphs\<close>

text \<open>The named graphs after a sequence of operations: they come into being with \<open>CREATE\<close> or with the insertion of a quad and
  stay until they are dropped. Clearing a graph, or removing its last quad, changes nothing.\<close>

fun graphs_op :: "'t log_op \<Rightarrow> 't option set \<Rightarrow> 't option set" where
  "graphs_op (DropGraph, r) G = G - {graph_col r}"
| "graphs_op (ClearGraph, r) G = G"
| "graphs_op (CreateGraph, r) G = (if graph_col r = None then G else insert (graph_col r) G)"
| "graphs_op (RemoveQuad, r) G = G"
| "graphs_op (InsertQuad, r) G = (if graph_col r = None then G else insert (graph_col r) G)"

definition replay_graphs :: "'t log_op list \<Rightarrow> 't option set" where
  "replay_graphs ops = fold graphs_op ops {}"

text \<open>Every named graph that is cleared exists at that moment.\<close>

fun clears_existing :: "'t log_op list \<Rightarrow> 't option set \<Rightarrow> bool" where
  "clears_existing [] G = True"
| "clears_existing (x # xs) G =
     ((fst x = ClearGraph \<longrightarrow> graph_col (snd x) = None \<or> graph_col (snd x) \<in> G) \<and> clears_existing xs (graphs_op x G))"

lemma named_of_iff:
  "g \<in> named_of A \<longleftrightarrow> g \<noteq> None \<and> (\<exists>r. graph_col r = g \<and>
     ((ClearGraph, r) \<in> A \<or> (CreateGraph, r) \<in> A \<or> (InsertQuad, r) \<in> A))"
  unfolding named_of_def mem_Collect_eq by metis

lemma named_of_step_clear:
  "named_of (compact_step (ClearGraph, r) A) = (if graph_col r = None then named_of A else insert (graph_col r) (named_of A))"
proof (rule set_eqI)
  fix g
  show "g \<in> named_of (compact_step (ClearGraph, r) A) \<longleftrightarrow> g \<in> (if graph_col r = None then named_of A else insert (graph_col r) (named_of A))"
  proof (cases "g = graph_col r")
    case True
    then show ?thesis by (cases g) (auto simp: named_of_iff)
  next
    case False
    have "(ClearGraph, q) \<in> compact_step (ClearGraph, r) A \<longleftrightarrow> (ClearGraph, q) \<in> A"
      "(CreateGraph, q) \<in> compact_step (ClearGraph, r) A \<longleftrightarrow> (CreateGraph, q) \<in> A"
      "(InsertQuad, q) \<in> compact_step (ClearGraph, r) A \<longleftrightarrow> (InsertQuad, q) \<in> A" if "graph_col q = g" for q
      using that False by auto
    then have "g \<in> named_of (compact_step (ClearGraph, r) A) \<longleftrightarrow> g \<in> named_of A"
      unfolding named_of_iff by blast
    then show ?thesis using False by simp
  qed
qed

lemma named_of_step:
  "x = (op, r) \<Longrightarrow> op \<noteq> RemoveQuad \<Longrightarrow> op \<noteq> ClearGraph \<Longrightarrow> named_of (compact_step x A) = graphs_op x (named_of A)"
  by (cases op) (auto simp: named_of_iff)

lemma named_of_step_remove: "named_of (compact_step (RemoveQuad, r) A) \<subseteq> named_of A"
  by (auto simp: named_of_iff)

lemma graphs_op_mono: "G \<subseteq> H \<Longrightarrow> graphs_op x G \<subseteq> graphs_op x H"
proof -
  assume "G \<subseteq> H"
  obtain op r where x: "x = (op, r)" by fastforce
  show ?thesis using \<open>G \<subseteq> H\<close> by (cases op) (auto simp: x)
qed

lemma graphs_op_plus: "graphs_op x (G \<union> C) \<subseteq> graphs_op x G \<union> C"
proof -
  obtain op r where x: "x = (op, r)" by fastforce
  show ?thesis by (cases op) (auto simp: x)
qed

definition cleared_graphs :: "'t log_op list \<Rightarrow> 't option set" where
  "cleared_graphs ops = {graph_col r | r. (ClearGraph, r) \<in> set ops}"

lemma cleared_graphs_simps [simp]: "cleared_graphs [] = {}"
  "cleared_graphs ((op, r) # ops) = (if op = ClearGraph then {graph_col r} else {}) \<union> cleared_graphs ops"
  by (auto simp: cleared_graphs_def)

text \<open>What is listed exists or was cleared; nothing else when only existing graphs are cleared.\<close>

lemma named_of_compact_subset: "named_of (compact ops) \<subseteq> replay_graphs ops \<union> cleared_graphs ops"
proof -
  have "named_of A \<subseteq> G \<union> C \<Longrightarrow> named_of (fold compact_step ops A) \<subseteq> fold graphs_op ops G \<union> (C \<union> cleared_graphs ops)" for A G C
  proof (induction ops arbitrary: A G C)
    case (Cons x ops)
    obtain op r where x: "x = (op, r)" by fastforce
    let ?C = "C \<union> (if op = ClearGraph then {graph_col r} else {})"
    consider "op = RemoveQuad" | "op = ClearGraph" | "op \<noteq> RemoveQuad" "op \<noteq> ClearGraph" by blast
    then have "named_of (compact_step x A) \<subseteq> graphs_op x G \<union> ?C"
    proof cases
      case 1
      then show ?thesis using named_of_step_remove [of r A] Cons.prems by (auto simp: x)
    next
      case 2
      then show ?thesis using Cons.prems unfolding x 2 named_of_step_clear by (auto split: if_splits)
    next
      case 3
      then show ?thesis
        using named_of_step [OF x 3, of A] graphs_op_mono [OF Cons.prems, of x] graphs_op_plus [of x G C] by auto
    qed
    from Cons.IH [OF this] show ?case by (simp add: x Un_assoc)
  qed simp
  from this [of "{}" "{}" "{}"] show ?thesis by (simp add: compact_def replay_graphs_def named_of_def)
qed

lemma named_of_compact_existing:
  assumes "clears_existing ops {}"
  shows "named_of (compact ops) \<subseteq> replay_graphs ops"
proof -
  have "clears_existing ops G \<Longrightarrow> named_of A \<subseteq> G \<Longrightarrow> named_of (fold compact_step ops A) \<subseteq> fold graphs_op ops G" for A G
  proof (induction ops arbitrary: A G)
    case (Cons x ops)
    obtain op r where x: "x = (op, r)" by fastforce
    consider "op = RemoveQuad" | "op = ClearGraph" | "op \<noteq> RemoveQuad" "op \<noteq> ClearGraph" by blast
    then have "named_of (compact_step x A) \<subseteq> graphs_op x G"
    proof cases
      case 1
      then show ?thesis using named_of_step_remove [of r A] Cons.prems(2) by (auto simp: x)
    next
      case 2
      then show ?thesis using Cons.prems unfolding x 2 named_of_step_clear by (auto split: if_splits)
    next
      case 3
      then show ?thesis using named_of_step [OF x 3, of A] graphs_op_mono [OF Cons.prems(2), of x] by simp
    qed
    from Cons.IH [OF _ this] show ?case using Cons.prems(1) by simp
  qed simp
  from this [OF assms, of "{}"] show ?thesis by (simp add: compact_def replay_graphs_def named_of_def)
qed

lemma replay_graphs_listed:
  assumes "\<forall>x \<in> set ops. fst x \<noteq> RemoveQuad"
  shows "replay_graphs ops \<subseteq> named_of (compact ops)"
proof -
  have "\<forall>x \<in> set ops. fst x \<noteq> RemoveQuad \<Longrightarrow> G \<subseteq> named_of A \<Longrightarrow> fold graphs_op ops G \<subseteq> named_of (fold compact_step ops A)" for A G
  proof (induction ops arbitrary: A G)
    case (Cons x ops)
    obtain op r where x: "x = (op, r)" by fastforce
    have "op \<noteq> RemoveQuad" using Cons.prems(1) by (simp add: x)
    then have "graphs_op x G \<subseteq> named_of (compact_step x A)"
      using named_of_step [OF x, of A] graphs_op_mono [OF Cons.prems(2), of x] Cons.prems(2)
      by (cases "op = ClearGraph") (auto simp: x named_of_step_clear simp del: compact_step.simps)
    from Cons.IH [OF _ this] show ?case using Cons.prems(1) by simp
  qed simp
  from this [OF assms, of "{}" "{}"] show ?thesis by (simp add: compact_def replay_graphs_def)
qed

text \<open>C30: The named graphs that a changeset lists, compared with the graphs that exist after replaying the log (created or given a
  quad, and not dropped since). Every listed graph exists or is the graph of some CLEAR in the log; it exists for certain when
  every CLEAR hits an existing graph. The graph of every visible quad is listed. When the log removes no single quads, every
  existing graph is listed, so with both conditions the listed graphs are exactly the existing ones. (Without the first the code
  also lists a cleared graph that never existed, see clear_lists_missing_graph; without the second it may miss an empty one.)\<close>

theorem named_graphs_correct:
  assumes "engine_ok E" "\<forall>r \<in> set rows. log_row_valid r"
  shows "\<exists>c. eager_changeset_of E vr rows = Inr c \<and>
    set (added_named_graphs c) \<subseteq> replay_graphs (row_ops rows) \<union> cleared_graphs (row_ops rows) \<and>
    (clears_existing (row_ops rows) {} \<longrightarrow> set (added_named_graphs c) \<subseteq> replay_graphs (row_ops rows)) \<and>
    graph_col ` replay (row_ops rows) {} - {None} \<subseteq> set (added_named_graphs c) \<and>
    ((\<forall>r \<in> set rows. operation r \<noteq> as_stored RemoveQuad) \<longrightarrow> replay_graphs (row_ops rows) \<subseteq> set (added_named_graphs c))"
proof -
  from eager_changeset_of_correct [OF assms, of vr] obtain c where
    c: "eager_changeset_of E vr rows = Inr c" "eager_wf c" "eager_apply c = replay (row_ops rows)"
      "set (added_named_graphs c) = named_of (compact (row_ops rows))" by blast
  have "set (added_quads c) = replay (row_ops rows) {}"
    using arg_cong [OF c(3), of "\<lambda>f. f {}"] by (simp add: eager_apply_def)
  then have "graph_col ` replay (row_ops rows) {} - {None} \<subseteq> set (added_named_graphs c)"
    using c(2) by (auto simp: eager_wf_def)
  moreover have "replay_graphs (row_ops rows) \<subseteq> set (added_named_graphs c)"
    if "\<forall>r \<in> set rows. operation r \<noteq> as_stored RemoveQuad"
  proof -
    have "\<forall>x \<in> set (row_ops rows). fst x \<noteq> RemoveQuad"
    proof
      fix x assume "x \<in> set (row_ops rows)"
      then obtain r where r: "r \<in> set rows" "x = (the (from_stored (operation r)), quad r)"
        by (auto simp: row_ops_def)
      from log_row_valid_ops(1) [OF assms(2)] r(1) obtain op where "from_stored (operation r) = Some op" by auto
      with that r show "fst x \<noteq> RemoveQuad" by (auto simp: from_stored_eq_Some)
    qed
    then show ?thesis using replay_graphs_listed c(4) by blast
  qed
  ultimately show ?thesis
    using c(1,4) named_of_compact_subset [of "row_ops rows"] named_of_compact_existing [of "row_ops rows"] by auto
qed

theorem named_graphs_correct_witness:
  "\<exists>c. eager_changeset_of ref_engine \<lparr>starting_version = 0, ending_version = 1\<rparr>
      [pending_row 0 InsertQuad (demo_quad (Some 9) 5), pending_row 1 CreateGraph (graph_only_row (Some 7)),
       pending_row 2 DropGraph (graph_only_row (Some 9))] = Inr c \<and> set (added_named_graphs c) = {Some 7}"
  (is "\<exists>c. eager_changeset_of _ ?vr ?rows = _ \<and> _")
proof -
  have "\<forall>r \<in> set ?rows. log_row_valid r"
    by (simp add: pending_row_def log_row_valid_def row_valid_def from_stored_def complete_row_def demo_quad_def)
  moreover have "replay_graphs (row_ops ?rows) = {Some 7}" "clears_existing (row_ops ?rows) {}"
    by (auto simp: pending_row_def row_ops_def from_stored_def replay_graphs_def demo_quad_def)
  ultimately show ?thesis
    using named_graphs_correct [OF ref_engine_ok, of ?rows ?vr] by (auto simp: pending_row_def)
qed

text \<open>Clearing a graph that does not exist lists it.\<close>

theorem clear_lists_missing_graph:
  "map_ok added_named_graphs (eager_changeset_of ref_engine \<lparr>starting_version = 0, ending_version = 1\<rparr>
     [pending_row 0 ClearGraph (graph_only_row (Some 9))]) = Inr [Some 9]"
  by code_simp

text \<open>Whether an empty graph is listed depends on where the log is cut: inserting a quad into a
  new graph and removing it lists no graph when the two operations are compacted together, and
  lists the graph when the removal extends a changeset that holds the insertion.\<close>

theorem implicit_graph_depends_on_cut:
  "\<exists>c1 c2 c3.
     eager_changeset_of ref_engine \<lparr>starting_version = 0, ending_version = 2\<rparr>
       [pending_row 0 InsertQuad (demo_quad (Some 9) 5), pending_row 1 RemoveQuad (demo_quad (Some 9) 5)] = Inr c1 \<and>
     eager_changeset_of ref_engine \<lparr>starting_version = 0, ending_version = 1\<rparr>
       [pending_row 0 InsertQuad (demo_quad (Some 9) 5)] = Inr c2 \<and>
     eager_extend ref_engine c2 \<lparr>starting_version = 1, ending_version = 2\<rparr>
       [pending_row 0 RemoveQuad (demo_quad (Some 9) 5)] = Inr c3 \<and>
     added_named_graphs c1 = [] \<and> added_named_graphs c3 = [Some 9]"
proof -
  have "case eager_changeset_of ref_engine \<lparr>starting_version = 0, ending_version = 2\<rparr>
       [pending_row 0 InsertQuad (demo_quad (Some 9) 5), pending_row 1 RemoveQuad (demo_quad (Some 9) 5)] of
       Inl _ \<Rightarrow> False | Inr c1 \<Rightarrow> added_named_graphs c1 = []"
    by code_simp
  moreover have "case eager_changeset_of ref_engine \<lparr>starting_version = 0, ending_version = 1\<rparr>
       [pending_row 0 InsertQuad (demo_quad (Some 9) 5)] of
       Inl _ \<Rightarrow> False | Inr c2 \<Rightarrow> (case eager_extend ref_engine c2 \<lparr>starting_version = 1, ending_version = 2\<rparr>
         [pending_row 0 RemoveQuad (demo_quad (Some 9) 5)] of
         Inl _ \<Rightarrow> False | Inr c3 \<Rightarrow> added_named_graphs c3 = [Some 9])"
    by code_simp
  ultimately show ?thesis by (auto split: sum.splits)
qed

end
