(* ===== verification/Relational.thy ===== *)
theory Relational
  imports Rust_Prelude "HOL-Library.Multiset" "HOL-Library.List_Lexorder" "HOL-Library.Char_ord"
begin

text \<open>
  The relational layer that the lowerings of \<open>lib/logical\<close> target. A row maps qualified
  columns to terms, a null being \<^term>\<open>None\<close>; an expression is evaluated on a row to a null, a
  boolean or a term. The operators of DataFusion are the fields of the record \<open>DataFusion\<close>,
  and \<open>datafusion_ok\<close> states the documented bag semantics and three-valued logic on which the
  lowerings rely. \<open>is_compatible\<close> is the function of
  \<open>lib/functions/src/scalar/comparison/is_compatible.rs\<close>.
\<close>

section \<open>Rows and values\<close>

datatype 't val = VNull | VBool bool | VTerm 't

type_synonym column = "string option \<times> string"
type_synonym 't row = "column \<Rightarrow> 't option"

fun val_of_cell :: "'t option \<Rightarrow> 't val" where
  "val_of_cell None = VNull"
| "val_of_cell (Some t) = VTerm t"

fun cell_of_val :: "'t val \<Rightarrow> 't option" where
  "cell_of_val (VTerm t) = Some t"
| "cell_of_val VNull = None"
| "cell_of_val (VBool b) = None"

fun is_compatible_val :: "'t val \<Rightarrow> 't val \<Rightarrow> 't val" where
  "is_compatible_val a b =
     (let any_null = (a = VNull \<or> b = VNull);
          is_equal = (a = b)
      in VBool (is_equal \<or> any_null))"

section \<open>The operators of DataFusion\<close>

datatype 't Expr =
    Column column
  | Term_Lit 't
  | EAnd "'t Expr" "'t Expr"
  | EOr "'t Expr" "'t Expr"
  | ENot "'t Expr"
  | IsNotNull "'t Expr"
  | EEq "'t Expr" "'t Expr"
  | IsCompatible "'t Expr" "'t Expr"
  | Coalesce "'t Expr" "'t Expr"
  | Function "'t val list \<Rightarrow> 't val" "'t Expr list"

type_synonym 't predicate = "'t row \<Rightarrow> 't val"

record 't DataFusion =
  df_and :: "'t val \<Rightarrow> 't val \<Rightarrow> 't val"
  df_or :: "'t val \<Rightarrow> 't val \<Rightarrow> 't val"
  df_not :: "'t val \<Rightarrow> 't val"
  df_is_not_null :: "'t val \<Rightarrow> 't val"
  df_eq :: "'t val \<Rightarrow> 't val \<Rightarrow> 't val"
  df_coalesce :: "'t val \<Rightarrow> 't val \<Rightarrow> 't val"
  df_is_boolean :: "'t Expr \<Rightarrow> bool"
  df_filter :: "'t predicate \<Rightarrow> 't row list \<Rightarrow> 't row list"
  df_project :: "('t row \<Rightarrow> 't row) \<Rightarrow> 't row list \<Rightarrow> 't row list"
  df_union :: "'t row list \<Rightarrow> 't row list \<Rightarrow> 't row list"
  df_distinct :: "'t row list \<Rightarrow> 't row list"
  df_inner_join :: "(column \<times> column) list \<Rightarrow> 't predicate option \<Rightarrow> 't row list \<Rightarrow> 't row list \<Rightarrow> 't row list"
  df_left_join :: "(column \<times> column) list \<Rightarrow> 't predicate option \<Rightarrow> 't row list \<Rightarrow> 't row list \<Rightarrow> 't row list"
  df_left_anti_join :: "(column \<times> column) list \<Rightarrow> 't predicate option \<Rightarrow> 't row list \<Rightarrow> 't row list \<Rightarrow> 't row list"

fun eval_expr :: "'t DataFusion \<Rightarrow> 't row \<Rightarrow> 't Expr \<Rightarrow> 't val" where
  "eval_expr D r (Column c) = val_of_cell (r c)"
| "eval_expr D r (Term_Lit t) = VTerm t"
| "eval_expr D r (EAnd a b) = df_and D (eval_expr D r a) (eval_expr D r b)"
| "eval_expr D r (EOr a b) = df_or D (eval_expr D r a) (eval_expr D r b)"
| "eval_expr D r (ENot a) = df_not D (eval_expr D r a)"
| "eval_expr D r (IsNotNull a) = df_is_not_null D (eval_expr D r a)"
| "eval_expr D r (EEq a b) = df_eq D (eval_expr D r a) (eval_expr D r b)"
| "eval_expr D r (IsCompatible a b) = is_compatible_val (eval_expr D r a) (eval_expr D r b)"
| "eval_expr D r (Coalesce a b) = df_coalesce D (eval_expr D r a) (eval_expr D r b)"
| "eval_expr D r (Function f es) = f (map (eval_expr D r) es)"

text \<open>The documented behaviour: SQL's three-valued connectives on booleans and nulls, equality
  that is null on a null, \<open>COALESCE\<close> as the first non-null; bags for filters, projections, unions
  and joins; a join row pairs rows that agree on the equality keys, a null equal to nothing, and
  on which the filter is true; a left join pads the rows without a partner with nulls.\<close>

definition is_truth :: "'t val \<Rightarrow> bool" where
  "is_truth v \<longleftrightarrow> (case v of VTerm _ \<Rightarrow> False | _ \<Rightarrow> True)"

fun sql_and :: "'t val \<Rightarrow> 't val \<Rightarrow> 't val" where
  "sql_and (VBool False) _ = VBool False"
| "sql_and _ (VBool False) = VBool False"
| "sql_and (VBool True) (VBool True) = VBool True"
| "sql_and _ _ = VNull"

fun sql_not :: "'t val \<Rightarrow> 't val" where
  "sql_not (VBool b) = VBool (\<not> b)"
| "sql_not _ = VNull"

definition sql_or :: "'t val \<Rightarrow> 't val \<Rightarrow> 't val" where
  "sql_or a b = sql_not (sql_and (sql_not a) (sql_not b))"

definition join_match :: "(column \<times> column) list \<Rightarrow> 't predicate option \<Rightarrow> 't row \<Rightarrow> 't row \<Rightarrow> bool" where
  "join_match on f l r \<longleftrightarrow>
     (\<forall>(a, b) \<in> set on. l a \<noteq> None \<and> l a = r b) \<and>
     (case f of None \<Rightarrow> True | Some p \<Rightarrow> p (l ++ r) = VBool True)"

definition join_partners ::
  "(column \<times> column) list \<Rightarrow> 't predicate option \<Rightarrow> 't row list \<Rightarrow> 't row \<Rightarrow> 't row list" where
  "join_partners on f R l = filter (join_match on f l) R"

definition expr_ok :: "'t DataFusion \<Rightarrow> bool" where
  "expr_ok D \<longleftrightarrow>
     (\<forall>a b. is_truth a \<and> is_truth b \<longrightarrow> df_and D a b = sql_and a b \<and> df_or D a b = sql_or a b) \<and>
     (\<forall>a. is_truth a \<longrightarrow> df_not D a = sql_not a) \<and>
     (\<forall>a. df_is_not_null D a = VBool (a \<noteq> VNull)) \<and>
     (\<forall>a b. df_eq D a b = (if a = VNull \<or> b = VNull then VNull else VBool (a = b))) \<and>
     (\<forall>a b. df_coalesce D a b = (if a = VNull then b else a)) \<and>
     (\<forall>e r. df_is_boolean D e \<longrightarrow> is_truth (eval_expr D r e))"

definition datafusion_ok :: "'t DataFusion \<Rightarrow> bool" where
  "datafusion_ok D \<longleftrightarrow> expr_ok D \<and>
     (\<forall>p xs. mset (df_filter D p xs) = mset (filter (\<lambda>r. p r = VBool True) xs)) \<and>
     (\<forall>f xs. mset (df_project D f xs) = mset (map f xs)) \<and>
     (\<forall>xs ys. mset (df_union D xs ys) = mset xs + mset ys) \<and>
     (\<forall>xs. distinct (df_distinct D xs) \<and> set (df_distinct D xs) = set xs) \<and>
     (\<forall>on f L R. mset (df_inner_join D on f L R) =
        mset (concat (map (\<lambda>l. map (\<lambda>r. l ++ r) (join_partners on f R l)) L))) \<and>
     (\<forall>on f L R. mset (df_left_join D on f L R) =
        mset (concat (map (\<lambda>l. if join_partners on f R l = [] then [l]
                               else map (\<lambda>r. l ++ r) (join_partners on f R l)) L))) \<and>
     (\<forall>on f L R. mset (df_left_anti_join D on f L R) = mset (filter (\<lambda>l. join_partners on f R l = []) L))"

lemma expr_okD:
  assumes "expr_ok D"
  shows "is_truth a \<Longrightarrow> is_truth b \<Longrightarrow> df_and D a b = sql_and a b"
    and "is_truth a \<Longrightarrow> is_truth b \<Longrightarrow> df_or D a b = sql_or a b"
    and "is_truth a \<Longrightarrow> df_not D a = sql_not a"
    and "df_is_not_null D a = VBool (a \<noteq> VNull)"
    and "df_eq D a b = (if a = VNull \<or> b = VNull then VNull else VBool (a = b))"
    and "df_coalesce D a b = (if a = VNull then b else a)"
    and "df_is_boolean D e \<Longrightarrow> is_truth (eval_expr D r e)"
  using assms unfolding expr_ok_def by auto

lemma datafusion_okD:
  assumes "datafusion_ok D"
  shows "expr_ok D"
    and "mset (df_filter D p xs) = mset (filter (\<lambda>r. p r = VBool True) xs)"
    and "mset (df_project D f xs) = mset (map f xs)"
    and "mset (df_union D xs ys) = mset xs + mset ys"
    and "distinct (df_distinct D xs)" "set (df_distinct D xs) = set xs"
    and "mset (df_inner_join D on g L R) =
        mset (concat (map (\<lambda>l. map (\<lambda>r. l ++ r) (join_partners on g R l)) L))"
    and "mset (df_left_join D on g L R) =
        mset (concat (map (\<lambda>l. if join_partners on g R l = [] then [l]
                               else map (\<lambda>r. l ++ r) (join_partners on g R l)) L))"
    and "mset (df_left_anti_join D on g L R) = mset (filter (\<lambda>l. join_partners on g R l = []) L)"
  using assms unfolding datafusion_ok_def by auto

lemma is_truth_simps [simp]: "is_truth VNull" "is_truth (VBool b)" "\<not> is_truth (VTerm t)"
  by (simp_all add: is_truth_def)

lemma is_truth_sql [simp]: "is_truth (sql_and a b)" "is_truth (sql_not a)" "is_truth (sql_or a b)"
proof -
  show "is_truth (sql_and a b)" by (cases "(a, b)" rule: sql_and.cases) simp_all
  show n: "is_truth (sql_not a)" for a :: "'a val" by (cases a) simp_all
  show "is_truth (sql_or a b)" unfolding sql_or_def by (rule n)
qed

lemma sql_and_True [simp]: "sql_and a b = VBool True \<longleftrightarrow> a = VBool True \<and> b = VBool True"
  by (cases "(a, b)" rule: sql_and.cases) auto

lemma sql_not_True [simp]: "sql_not a = VBool True \<longleftrightarrow> a = VBool False"
  by (cases a) auto

lemma sql_or_True: "sql_or a b = VBool True \<longleftrightarrow> a = VBool True \<or> b = VBool True"
  unfolding sql_or_def by (cases "(sql_not a, sql_not b)" rule: sql_and.cases; cases a; cases b) auto

lemma val_of_cell_eq [simp]:
  "val_of_cell x = VNull \<longleftrightarrow> x = None" "val_of_cell x = val_of_cell y \<longleftrightarrow> x = y" "cell_of_val (val_of_cell x) = x"
  by (cases x; cases y; simp)+

end
