(* ===== verification/Sparql_Join.thy ===== *)
theory Sparql_Join
  imports Relational
begin

text \<open>
  The SPARQL join, left join and minus nodes of \<open>lib/logical/src/join\<close> and
  \<open>lib/logical/src/minus\<close> with their lowering to DataFusion joins. A plan is its schema and the
  bag of rows it denotes. Against the SPARQL algebra on solution mappings the theory shows that
  every strategy of the join lowering (cross join, equality join on columns that are never null,
  join with compatibility checks) yields exactly the bag of merged compatible solutions, that
  the schema a join announces is sound on nullability, which is what the next join relies on,
  and that minus removes exactly the solutions the algebra removes.
\<close>

section \<open>Plans\<close>

datatype EncodingName = PlainTerm | TypedFamily | ObjectId | StringEncoding

record field =
  field_name :: string
  field_encoding :: "EncodingName option"
  field_nullable :: bool

record 't plan =
  plan_schema :: "field list"
  plan_rows :: "'t row list"

datatype plan_error = PlanError string | Unreachable string

definition schema_names :: "field list \<Rightarrow> string list" where
  "schema_names s = map field_name s"

definition field_with_name :: "field list \<Rightarrow> string \<Rightarrow> field option" where
  "field_with_name s n = find (\<lambda>f. field_name f = n) s"

text \<open>\<open>DFSchema::merge\<close> appends the fields whose name is new.\<close>

definition schema_merge :: "field list \<Rightarrow> field list \<Rightarrow> field list" where
  "schema_merge s t = s @ filter (\<lambda>f. field_name f \<notin> set (schema_names s)) t"

section \<open>The join node\<close>

datatype SparqlJoinType = Inner | Left

record 't SparqlJoinNode =
  lhs :: "'t plan"
  rhs :: "'t plan"
  node_filter :: "'t Expr option"
  join_type :: SparqlJoinType
  node_schema :: "field list"

definition extract_encoding :: "field list \<Rightarrow> string \<Rightarrow> (plan_error, EncodingName) result" where
  "extract_encoding s n =
     (case field_with_name s n of
        None \<Rightarrow> Inl (Unreachable ''Field name stems from the set of fields.'')
      | Some f \<Rightarrow> ok_or (field_encoding f) (PlanError ''Field must be an RDF Term.''))"

fun join_columns ::
  "field list \<Rightarrow> field list \<Rightarrow> string list \<Rightarrow> (plan_error, (string \<times> EncodingName set) list) result" where
  "join_columns l r [] = Inr []"
| "join_columns l r (n # ns) =
     and_then (extract_encoding l n) (\<lambda>le. and_then (extract_encoding r n) (\<lambda>re.
       map_ok (\<lambda>cols. (n, {le, re}) # cols) (join_columns l r ns)))"

definition compute_sparql_join_columns ::
  "field list \<Rightarrow> field list \<Rightarrow> (plan_error, (string \<times> EncodingName set) list) result" where
  "compute_sparql_join_columns l r =
     join_columns l r (filter (\<lambda>n. n \<in> set (schema_names r)) (schema_names l))"

fun validate_columns :: "(string \<times> EncodingName set) list \<Rightarrow> (plan_error, unit) result" where
  "validate_columns [] = Inr ()"
| "validate_columns ((n, encodings) # cols) =
     (if 1 < card encodings then Inl (PlanError ''Join column has multiple encodings.'')
      else if \<not> encodings \<subseteq> {PlainTerm, ObjectId, StringEncoding}
      then Inl (PlanError ''Join column must be in the PlainTermEncoding, ObjectIdEncoding or StringEncoding.'')
      else validate_columns cols)"

definition validate_inputs :: "field list \<Rightarrow> field list \<Rightarrow> (plan_error, unit) result" where
  "validate_inputs l r = and_then (compute_sparql_join_columns l r) validate_columns"

definition join_schema :: "SparqlJoinType \<Rightarrow> field list \<Rightarrow> field list \<Rightarrow> field list" where
  "join_schema ty l r =
     (case ty of
        Inner \<Rightarrow> schema_merge l r
      | Left \<Rightarrow> schema_merge l (map (\<lambda>f. f\<lparr>field_nullable := True\<rparr>) r))"

fun expr_columns :: "'t Expr \<Rightarrow> column list" where
  "expr_columns (Column c) = [c]"
| "expr_columns (Term_Lit t) = []"
| "expr_columns (EAnd a b) = expr_columns a @ expr_columns b"
| "expr_columns (EOr a b) = expr_columns a @ expr_columns b"
| "expr_columns (ENot a) = expr_columns a"
| "expr_columns (IsNotNull a) = expr_columns a"
| "expr_columns (EEq a b) = expr_columns a @ expr_columns b"
| "expr_columns (IsCompatible a b) = expr_columns a @ expr_columns b"
| "expr_columns (Coalesce a b) = expr_columns a @ expr_columns b"
| "expr_columns (Function f es) = concat (map expr_columns es)"

text \<open>\<open>to_field\<close> of the filter fails on a column that the schema does not have.\<close>

definition resolves :: "field list \<Rightarrow> 't Expr \<Rightarrow> bool" where
  "resolves s e \<longleftrightarrow> (\<forall>c \<in> set (expr_columns e). fst c = None \<and> snd c \<in> set (schema_names s))"

definition join_try_new ::
  "'t DataFusion \<Rightarrow> 't plan \<Rightarrow> 't plan \<Rightarrow> 't Expr option \<Rightarrow> SparqlJoinType \<Rightarrow>
   (plan_error, 't SparqlJoinNode) result" where
  "join_try_new D l r f ty =
     and_then (validate_inputs (plan_schema l) (plan_schema r)) (\<lambda>_.
       let s = join_schema ty (plan_schema l) (plan_schema r);
           node = \<lparr>lhs = l, rhs = r, node_filter = f, join_type = ty, node_schema = s\<rparr>
       in case f of
            None \<Rightarrow> Inr node
          | Some e \<Rightarrow>
              (if \<not> resolves s e then Inl (PlanError ''Schema error'')
               else if \<not> df_is_boolean D e then Inl (PlanError ''Filter must be a boolean expression.'')
               else Inr node))"

section \<open>Lowering the join\<close>

definition alias_row :: "string \<Rightarrow> 't row \<Rightarrow> 't row" where
  "alias_row q r = (\<lambda>(q', n). if q' = Some q then r (None, n) else None)"

definition alias_rows :: "string \<Rightarrow> 't row list \<Rightarrow> 't row list" where
  "alias_rows q rs = map (alias_row q) rs"

definition project_row :: "'t DataFusion \<Rightarrow> (string \<times> 't Expr) list \<Rightarrow> 't row \<Rightarrow> 't row" where
  "project_row D projections r =
     (\<lambda>(q, n). if q = None
               then (case map_of projections n of None \<Rightarrow> None | Some e \<Rightarrow> cell_of_val (eval_expr D r e))
               else None)"

definition project :: "'t DataFusion \<Rightarrow> (string \<times> 't Expr) list \<Rightarrow> 't row list \<Rightarrow> 't row list" where
  "project D projections rs = df_project D (project_row D projections) rs"

fun reduce_and :: "'t Expr list \<Rightarrow> 't Expr option" where
  "reduce_and [] = None"
| "reduce_and (e # es) = Some (foldl EAnd e es)"

fun reduce_or :: "'t Expr list \<Rightarrow> 't Expr option" where
  "reduce_or [] = None"
| "reduce_or (e # es) = Some (foldl EOr e es)"

definition lhs_col :: "string \<Rightarrow> 't Expr" where
  "lhs_col n = Column (Some ''lhs'', n)"

definition rhs_col :: "string \<Rightarrow> 't Expr" where
  "rhs_col n = Column (Some ''rhs'', n)"

definition value_from_joined ::
  "field list \<Rightarrow> field list \<Rightarrow> string \<Rightarrow> bool \<Rightarrow> (plan_error, 't Expr) result" where
  "value_from_joined l r n requires_coalesce =
     (case (field_with_name l n, field_with_name r n) of
        (Some lf, Some rf) \<Rightarrow>
          (if requires_coalesce
           then (if field_encoding lf \<noteq> field_encoding rf
                 then Inl (PlanError ''The two columns for creating a COALESCE are different.'')
                 else Inr (Coalesce (lhs_col n) (rhs_col n)))
           else Inr (lhs_col n))
      | (Some _, None) \<Rightarrow> Inr (lhs_col n)
      | (None, Some _) \<Rightarrow> Inr (rhs_col n)
      | (None, None) \<Rightarrow> Inl (Unreachable ''At least one of lhs or rhs must contain variable''))"

fun create_join_projections ::
  "field list \<Rightarrow> field list \<Rightarrow> bool \<Rightarrow> string list \<Rightarrow> (plan_error, (string \<times> 't Expr) list) result" where
  "create_join_projections l r coal [] = Inr []"
| "create_join_projections l r coal (n # ns) =
     and_then (value_from_joined l r n coal) (\<lambda>e.
       map_ok (\<lambda>ps. (n, e) # ps) (create_join_projections l r coal ns))"

fun sequence_results :: "('e, 'a) result list \<Rightarrow> ('e, 'a list) result" where
  "sequence_results [] = Inr []"
| "sequence_results (x # xs) = and_then x (\<lambda>v. map_ok (\<lambda>vs. v # vs) (sequence_results xs))"

text \<open>The transformation replaces every column of the filter.\<close>

fun rewrite_filter_for_join ::
  "field list \<Rightarrow> field list \<Rightarrow> bool \<Rightarrow> 't Expr \<Rightarrow> (plan_error, 't Expr) result" where
  "rewrite_filter_for_join l r coal (Column c) = value_from_joined l r (snd c) coal"
| "rewrite_filter_for_join l r coal (Term_Lit t) = Inr (Term_Lit t)"
| "rewrite_filter_for_join l r coal (EAnd a b) =
     and_then (rewrite_filter_for_join l r coal a) (\<lambda>a'. map_ok (EAnd a') (rewrite_filter_for_join l r coal b))"
| "rewrite_filter_for_join l r coal (EOr a b) =
     and_then (rewrite_filter_for_join l r coal a) (\<lambda>a'. map_ok (EOr a') (rewrite_filter_for_join l r coal b))"
| "rewrite_filter_for_join l r coal (ENot a) = map_ok ENot (rewrite_filter_for_join l r coal a)"
| "rewrite_filter_for_join l r coal (IsNotNull a) = map_ok IsNotNull (rewrite_filter_for_join l r coal a)"
| "rewrite_filter_for_join l r coal (EEq a b) =
     and_then (rewrite_filter_for_join l r coal a) (\<lambda>a'. map_ok (EEq a') (rewrite_filter_for_join l r coal b))"
| "rewrite_filter_for_join l r coal (IsCompatible a b) =
     and_then (rewrite_filter_for_join l r coal a) (\<lambda>a'. map_ok (IsCompatible a') (rewrite_filter_for_join l r coal b))"
| "rewrite_filter_for_join l r coal (Coalesce a b) =
     and_then (rewrite_filter_for_join l r coal a) (\<lambda>a'. map_ok (Coalesce a') (rewrite_filter_for_join l r coal b))"
| "rewrite_filter_for_join l r coal (Function f es) =
     map_ok (Function f) (sequence_results (map (rewrite_filter_for_join l r coal) es))"

definition rewrite_filter_opt ::
  "field list \<Rightarrow> field list \<Rightarrow> bool \<Rightarrow> 't Expr option \<Rightarrow> (plan_error, 't Expr option) result" where
  "rewrite_filter_opt l r coal f =
     (case f of None \<Rightarrow> Inr None | Some e \<Rightarrow> map_ok Some (rewrite_filter_for_join l r coal e))"

definition data_fusion_join ::
  "'t DataFusion \<Rightarrow> SparqlJoinType \<Rightarrow> (column \<times> column) list \<Rightarrow> 't Expr option \<Rightarrow>
   't row list \<Rightarrow> 't row list \<Rightarrow> 't row list" where
  "data_fusion_join D ty on f L R =
     (let p = map_option (\<lambda>e row. eval_expr D row e) f
      in case ty of Inner \<Rightarrow> df_inner_join D on p L R | Left \<Rightarrow> df_left_join D on p L R)"

definition column_nullable :: "field list \<Rightarrow> string \<Rightarrow> bool" where
  "column_nullable s n = (case field_with_name s n of None \<Rightarrow> True | Some f \<Rightarrow> field_nullable f)"

definition try_build_regular_join ::
  "'t DataFusion \<Rightarrow> 't SparqlJoinNode \<Rightarrow> string list \<Rightarrow> (plan_error, 't row list option) result" where
  "try_build_regular_join D node join_on =
     (let l = plan_schema (lhs node); r = plan_schema (rhs node) in
      if join_on = [] \<or> (\<exists>n \<in> set join_on. column_nullable l n \<or> column_nullable r n) then Inr None
      else
        and_then (create_join_projections l r False (schema_names (node_schema node))) (\<lambda>projections.
        map_ok (\<lambda>f.
          Some (project D projections
            (data_fusion_join D (join_type node) (map (\<lambda>n. ((Some ''lhs'', n), (Some ''rhs'', n))) join_on) f
               (alias_rows ''lhs'' (plan_rows (lhs node))) (alias_rows ''rhs'' (plan_rows (rhs node))))))
          (rewrite_filter_opt l r False (node_filter node))))"

definition build_join_with_is_compatible ::
  "'t DataFusion \<Rightarrow> 't SparqlJoinNode \<Rightarrow> string list \<Rightarrow> (plan_error, 't row list) result" where
  "build_join_with_is_compatible D node join_on =
     (let l = plan_schema (lhs node); r = plan_schema (rhs node) in
      and_then (create_join_projections l r True (schema_names (node_schema node))) (\<lambda>projections.
      map_ok (\<lambda>f.
        let join_filters = map (\<lambda>n. IsCompatible (lhs_col n) (rhs_col n)) join_on @
              (case f of None \<Rightarrow> [] | Some e \<Rightarrow> [e])
        in project D projections
             (data_fusion_join D (join_type node) [] (reduce_and join_filters)
                (alias_rows ''lhs'' (plan_rows (lhs node))) (alias_rows ''rhs'' (plan_rows (rhs node)))))
        (rewrite_filter_opt l r True (node_filter node))))"

definition rewrite_sparql_join ::
  "'t DataFusion \<Rightarrow> 't SparqlJoinNode \<Rightarrow> (plan_error, 't row list) result" where
  "rewrite_sparql_join D node =
     (let lhs_keys = schema_names (plan_schema (lhs node));
          rhs_keys = schema_names (plan_schema (rhs node));
          shared = filter (\<lambda>n. n \<in> set rhs_keys) lhs_keys
      in if shared = [] \<and> node_filter node = None
         then Inr (data_fusion_join D (join_type node) [] None (plan_rows (lhs node)) (plan_rows (rhs node)))
         else
           let join_on = sort shared
           in and_then (try_build_regular_join D node join_on) (\<lambda>regular.
                case regular of Some rs \<Rightarrow> Inr rs
                | None \<Rightarrow> build_join_with_is_compatible D node join_on))"

section \<open>The SPARQL algebra\<close>

type_synonym 't solution = "string \<Rightarrow> 't option"

definition solution :: "'t row \<Rightarrow> 't solution" where
  "solution r = (\<lambda>n. r (None, n))"

definition row_of :: "'t solution \<Rightarrow> 't row" where
  "row_of m = (\<lambda>(q, n). if q = None then m n else None)"

definition compatible :: "'t solution \<Rightarrow> 't solution \<Rightarrow> bool" where
  "compatible m1 m2 \<longleftrightarrow> (\<forall>n \<in> dom m1 \<inter> dom m2. m1 n = m2 n)"

definition filter_true :: "'t DataFusion \<Rightarrow> 't Expr option \<Rightarrow> 't solution \<Rightarrow> bool" where
  "filter_true D f m = (case f of None \<Rightarrow> True | Some e \<Rightarrow> eval_expr D (row_of m) e = VBool True)"

definition merged :: "'t DataFusion \<Rightarrow> 't Expr option \<Rightarrow> 't solution list \<Rightarrow> 't solution \<Rightarrow> 't solution list" where
  "merged D f M2 m1 =
     map (\<lambda>m2. m1 ++ m2) (filter (\<lambda>m2. compatible m1 m2 \<and> filter_true D f (m1 ++ m2)) M2)"

definition algebra_join ::
  "'t DataFusion \<Rightarrow> SparqlJoinType \<Rightarrow> 't Expr option \<Rightarrow> 't solution list \<Rightarrow> 't solution list \<Rightarrow> 't solution list" where
  "algebra_join D ty f M1 M2 =
     concat (map (\<lambda>m1. if ty = Left \<and> merged D f M2 m1 = [] then [m1] else merged D f M2 m1) M1)"

definition plan_wf :: "'t plan \<Rightarrow> bool" where
  "plan_wf P \<longleftrightarrow> distinct (schema_names (plan_schema P)) \<and>
     (\<forall>r \<in> set (plan_rows P). dom r \<subseteq> Pair None ` set (schema_names (plan_schema P)) \<and>
        (\<forall>f \<in> set (plan_schema P). \<not> field_nullable f \<longrightarrow> r (None, field_name f) \<noteq> None))"

section \<open>Correctness of the lowering\<close>

lemma row_of_solution: "dom r \<subseteq> Pair None ` N \<Longrightarrow> row_of (solution r) = r"
proof
  fix c :: column
  assume d: "dom r \<subseteq> Pair None ` N"
  obtain q n where c: "c = (q, n)" by (cases c)
  have "r (q, n) = None" if "q \<noteq> None"
  proof (rule ccontr)
    assume "r (q, n) \<noteq> None"
    then have "(q, n) \<in> dom r" by (auto simp: dom_def)
    then show False using d that by blast
  qed
  then show "row_of (solution r) c = r c" by (auto simp: c row_of_def solution_def)
qed

lemma solution_row_of [simp]: "solution (row_of m) = m"
  by (simp add: solution_def row_of_def)

lemma field_with_name_None: "field_with_name s n = None \<longleftrightarrow> n \<notin> set (schema_names s)"
  by (auto simp: field_with_name_def find_None_iff schema_names_def)

lemma field_with_name_Some: "field_with_name s n = Some f \<Longrightarrow> f \<in> set s \<and> field_name f = n"
  by (auto simp: field_with_name_def find_Some_iff)

lemma merge_commute: "compatible m1 m2 \<Longrightarrow> m2 ++ m1 = m1 ++ m2"
proof
  fix n
  assume "compatible m1 m2"
  then have "a = b" if "m1 n = Some a" "m2 n = Some b" for a b
    using that unfolding compatible_def by (metis IntI domI option.inject)
  then show "(m2 ++ m1) n = (m1 ++ m2) n"
    by (cases "m1 n"; cases "m2 n") (auto simp: map_add_def)
qed

text \<open>A joined row reads the left solution under \<open>lhs\<close> and the right one under \<open>rhs\<close>; the
  value of a joined variable is the left one, or else the right one.\<close>

definition reads :: "'t row \<Rightarrow> 't solution \<Rightarrow> 't solution \<Rightarrow> bool" where
  "reads J a b \<longleftrightarrow> (\<forall>n. J (Some ''lhs'', n) = a n \<and> J (Some ''rhs'', n) = b n)"

lemma reads_alias:
  "reads (alias_row ''lhs'' l ++ alias_row ''rhs'' r) (solution l) (solution r)"
  "reads (alias_row ''lhs'' l) (solution l) Map.empty"
  by (auto simp: reads_def alias_row_def solution_def map_add_def split: option.splits)

definition lossless :: "field list \<Rightarrow> field list \<Rightarrow> bool \<Rightarrow> 't solution \<Rightarrow> 't solution \<Rightarrow> bool" where
  "lossless l r coal a b \<longleftrightarrow> dom a \<subseteq> set (schema_names l) \<and> dom b \<subseteq> set (schema_names r) \<and>
     (coal \<or> (\<forall>n \<in> set (schema_names l) \<inter> set (schema_names r). a n = None \<longrightarrow> b n = None))"

lemma value_from_joined_eval:
  assumes D: "expr_ok D" and J: "reads J a b" and ab: "lossless l r coal a b"
    and e: "value_from_joined l r n coal = Inr e"
  shows "eval_expr D J e = val_of_cell ((b ++ a) n)"
proof -
  note c = expr_okD(6) [OF D]
  have m: "(b ++ a) n = (if a n = None then b n else a n)" by (simp add: map_add_def split: option.splits)
  have nl: "a n = None" if "field_with_name l n = None" using that ab by (auto simp: lossless_def field_with_name_None)
  have nr: "b n = None" if "field_with_name r n = None" using that ab by (auto simp: lossless_def field_with_name_None)
  have sh: "b n = None" if "field_with_name l n = Some lf" "field_with_name r n = Some rf" "\<not> coal" "a n = None" for lf rf
    using that ab unfolding lossless_def by (metis IntI field_with_name_None option.distinct(1))
  show ?thesis
    using e J nl nr sh unfolding m
    by (auto simp: value_from_joined_def reads_def lhs_col_def rhs_col_def c split: option.splits if_splits)
qed

lemma rewrite_filter_eval:
  assumes D: "expr_ok D" and J: "reads J a b" and ab: "lossless l r coal a b"
  shows "rewrite_filter_for_join l r coal e = Inr e' \<Longrightarrow> \<forall>c \<in> set (expr_columns e). fst c = None \<Longrightarrow>
    eval_expr D J e' = eval_expr D (row_of (b ++ a)) e"
proof (induction e arbitrary: e')
  case (Column c)
  then show ?case using value_from_joined_eval [OF D J ab] by (cases c) (auto simp: row_of_def)
next
  case (Function f es)
  then obtain es' where es': "sequence_results (map (rewrite_filter_for_join l r coal) es) = Inr es'" "e' = Function f es'"
    by (auto simp: map_ok_eq_Inr_iff)
  have "map (eval_expr D J) es' = map (eval_expr D (row_of (b ++ a))) es"
    using es'(1) Function.IH Function.prems(2)
  proof (induction es arbitrary: es')
    case (Cons x xs)
    then show ?case by (fastforce simp: and_then_eq_Inr_iff map_ok_eq_Inr_iff)
  qed simp
  then show ?case by (simp add: es'(2))
qed (auto simp: and_then_eq_Inr_iff map_ok_eq_Inr_iff)

definition encodings_agree :: "field list \<Rightarrow> field list \<Rightarrow> bool" where
  "encodings_agree l r \<longleftrightarrow> (\<forall>n lf rf. field_with_name l n = Some lf \<and> field_with_name r n = Some rf \<longrightarrow>
     field_encoding lf = field_encoding rf)"

lemma validate_columns_card: "validate_columns cols = Inr u \<Longrightarrow> (n, E) \<in> set cols \<Longrightarrow> card E \<le> 1"
  by (induction cols) (auto split: if_splits)

lemma join_columns_mem:
  "join_columns l r ns = Inr cols \<Longrightarrow> n \<in> set ns \<Longrightarrow>
   \<exists>le re. extract_encoding l n = Inr le \<and> extract_encoding r n = Inr re \<and> (n, {le, re}) \<in> set cols"
  by (induction ns arbitrary: cols) (fastforce simp: and_then_eq_Inr_iff map_ok_eq_Inr_iff)+

lemma validate_inputs_agree:
  assumes "validate_inputs l r = Inr u"
  shows "encodings_agree l r"
  unfolding encodings_agree_def
proof (intro allI impI, elim conjE)
  fix n lf rf
  assume f: "field_with_name l n = Some lf" "field_with_name r n = Some rf"
  obtain cols where cols: "compute_sparql_join_columns l r = Inr cols" "validate_columns cols = Inr u"
    using assms by (auto simp: validate_inputs_def and_then_eq_Inr_iff)
  have "n \<in> set (schema_names l)" "n \<in> set (schema_names r)"
    using f by (metis field_with_name_None option.distinct(1))+
  then obtain le re where e: "extract_encoding l n = Inr le" "extract_encoding r n = Inr re" "(n, {le, re}) \<in> set cols"
    using join_columns_mem [of l r _ cols n] cols(1) unfolding compute_sparql_join_columns_def by fastforce
  have "card {le, re} \<le> 1" using validate_columns_card [OF cols(2) e(3)] .
  then have "le = re" by (cases "le = re") auto
  then show "field_encoding lf = field_encoding rf"
    using e f by (auto simp: extract_encoding_def)
qed

lemma value_from_joined_total:
  "encodings_agree l r \<Longrightarrow> n \<in> set (schema_names l) \<union> set (schema_names r) \<Longrightarrow>
   \<exists>e. value_from_joined l r n coal = Inr e"
  using field_with_name_None [of l n] field_with_name_None [of r n]
  by (cases "field_with_name l n"; cases "field_with_name r n") (simp_all add: value_from_joined_def encodings_agree_def)

lemma create_join_projections_total:
  assumes "encodings_agree l r"
  shows "set ns \<subseteq> set (schema_names l) \<union> set (schema_names r) \<Longrightarrow>
    \<exists>ps :: (string \<times> 't Expr) list. create_join_projections l r coal ns = Inr ps"
proof (induction ns)
  case (Cons n ns)
  obtain e :: "'t Expr" where "value_from_joined l r n coal = Inr e" using value_from_joined_total [OF assms, of n coal] Cons.prems by auto
  with Cons show ?case by auto
qed simp

lemma rewrite_filter_total:
  assumes "encodings_agree l r"
  shows "\<forall>c \<in> set (expr_columns e). snd c \<in> set (schema_names l) \<union> set (schema_names r) \<Longrightarrow>
    \<exists>e'. rewrite_filter_for_join l r coal e = Inr e'"
proof (induction e)
  case (Column c)
  then show ?case using value_from_joined_total [OF assms, of "snd c" coal] by auto
next
  case (Function f es)
  have "\<exists>es'. sequence_results (map (rewrite_filter_for_join l r coal) es) = Inr es'"
    using Function.IH Function.prems
  proof (induction es)
    case (Cons x xs)
    have "\<exists>y. rewrite_filter_for_join l r coal x = Inr y" using Cons.prems by auto
    moreover have "\<exists>ys. sequence_results (map (rewrite_filter_for_join l r coal) xs) = Inr ys"
      using Cons by auto
    ultimately show ?case by auto
  qed simp
  then show ?case by auto
qed force+

lemma create_join_projections_map_of:
  "create_join_projections l r coal ns = Inr ps \<Longrightarrow>
   (n \<notin> set ns \<longrightarrow> map_of ps n = None) \<and>
   (n \<in> set ns \<longrightarrow> (\<exists>e. value_from_joined l r n coal = Inr e \<and> map_of ps n = Some e))"
  by (induction ns arbitrary: ps) (fastforce simp: and_then_eq_Inr_iff map_ok_eq_Inr_iff)+

lemma project_joined:
  assumes D: "expr_ok D" and J: "reads J a b" and ab: "lossless l r coal a b"
    and ps: "create_join_projections l r coal ns = Inr ps"
    and ns: "set ns = set (schema_names l) \<union> set (schema_names r)"
  shows "project_row D ps J = row_of (b ++ a)"
proof
  fix c :: column
  obtain q n where c: "c = (q, n)" by (cases c)
  note m = create_join_projections_map_of [OF ps, of n]
  show "project_row D ps J c = row_of (b ++ a) c"
  proof (cases "n \<in> set ns")
    case True
    then obtain e where e: "value_from_joined l r n coal = Inr e" "map_of ps n = Some e" using m by blast
    show ?thesis by (simp add: c project_row_def row_of_def e(2) value_from_joined_eval [OF D J ab e(1)])
  next
    case False
    then have "(b ++ a) n = None" using ab by (auto simp: ns lossless_def map_add_def dom_def split: option.splits)
    then show ?thesis using False m by (simp add: c project_row_def row_of_def del: map_add_None)
  qed
qed

lemma plan_wf_dom: "plan_wf P \<Longrightarrow> r \<in> set (plan_rows P) \<Longrightarrow> dom (solution r) \<subseteq> set (schema_names (plan_schema P))"
  by (fastforce simp: plan_wf_def solution_def dom_def)

lemma plan_wf_bound:
  "plan_wf P \<Longrightarrow> r \<in> set (plan_rows P) \<Longrightarrow> \<not> column_nullable (plan_schema P) n \<Longrightarrow> solution r n \<noteq> None"
  using field_with_name_Some [of "plan_schema P" n]
  by (auto simp: column_nullable_def plan_wf_def solution_def split: option.splits)

lemma mset_map_cong: "mset xs = mset ys \<Longrightarrow> mset (map f xs) = mset (map f ys)"
  by simp

lemma data_fusion_join_mset:
  assumes "datafusion_ok D"
  shows "mset (data_fusion_join D ty on fe L R) = mset (concat (map (\<lambda>l.
     let ps = join_partners on (map_option (\<lambda>e row. eval_expr D row e) fe) R l
     in if ty = Left \<and> ps = [] then [l] else map (\<lambda>r. l ++ r) ps) L))"
  using datafusion_okD(7,8) [OF assms]
  by (cases ty) (simp_all add: data_fusion_join_def Let_def)

text \<open>The shared core of both strategies with aliases: if a pair of rows joins exactly when the
  solutions are compatible and pass the filter, the projected join is the join of the algebra.\<close>

lemma lowered_join_correct:
  assumes D: "datafusion_ok D" and L: "plan_wf L" and R: "plan_wf R"
    and ps: "create_join_projections (plan_schema L) (plan_schema R) coal ns = Inr ps"
    and ns: "set ns = set (schema_names (plan_schema L)) \<union> set (schema_names (plan_schema R))"
    and match: "\<And>l r. l \<in> set (plan_rows L) \<Longrightarrow> r \<in> set (plan_rows R) \<Longrightarrow>
      join_match on (map_option (\<lambda>e row. eval_expr D row e) fe) (alias_row ''lhs'' l) (alias_row ''rhs'' r) \<longleftrightarrow>
        compatible (solution l) (solution r) \<and> filter_true D f (solution l ++ solution r)"
    and lossless: "\<And>l r. l \<in> set (plan_rows L) \<Longrightarrow> r \<in> set (plan_rows R) \<Longrightarrow>
      compatible (solution l) (solution r) \<Longrightarrow>
      lossless (plan_schema L) (plan_schema R) coal (solution l) (solution r)"
  shows "mset (map solution (project D ps (data_fusion_join D ty on fe
       (alias_rows ''lhs'' (plan_rows L)) (alias_rows ''rhs'' (plan_rows R))))) =
     mset (algebra_join D ty f (map solution (plan_rows L)) (map solution (plan_rows R)))"
proof -
  note E = datafusion_okD(1) [OF D]
  let ?p = "map_option (\<lambda>e row. eval_expr D row e) fe"
  let ?A = "alias_row ''lhs''" and ?B = "alias_row ''rhs''"
  let ?matching = "\<lambda>l. filter (\<lambda>r. compatible (solution l) (solution r) \<and> filter_true D f (solution l ++ solution r)) (plan_rows R)"
  let ?out = "\<lambda>r. solution (project_row D ps r)"
  have partners: "join_partners on ?p (alias_rows ''rhs'' (plan_rows R)) (?A l) = map ?B (?matching l)"
    if "l \<in> set (plan_rows L)" for l
  proof -
    have "filter (\<lambda>r. join_match on ?p (?A l) (?B r)) (plan_rows R) = ?matching l"
      using match [OF that] by (intro filter_cong) auto
    then show ?thesis by (simp add: join_partners_def alias_rows_def filter_map comp_def)
  qed
  have joined: "?out (?A l ++ ?B r) = solution l ++ solution r"
    if "l \<in> set (plan_rows L)" "r \<in> set (plan_rows R)" "compatible (solution l) (solution r)" for l r
    using project_joined [OF E reads_alias(1) lossless [OF that] ps ns] merge_commute [OF that(3)] by simp
  have padded: "?out (?A l) = solution l" if "l \<in> set (plan_rows L)" for l
  proof -
    have "lossless (plan_schema L) (plan_schema R) coal (solution l) Map.empty"
      using plan_wf_dom [OF L that] by (simp add: lossless_def)
    from project_joined [OF E reads_alias(2) this ps ns] show ?thesis by simp
  qed
  have row: "map ?out (let qs = join_partners on ?p (alias_rows ''rhs'' (plan_rows R)) (?A l)
        in if ty = Left \<and> qs = [] then [?A l] else map (\<lambda>r. ?A l ++ r) qs) =
      (if ty = Left \<and> merged D f (map solution (plan_rows R)) (solution l) = [] then [solution l]
       else merged D f (map solution (plan_rows R)) (solution l))"
    if l: "l \<in> set (plan_rows L)" for l
  proof -
    have "merged D f (map solution (plan_rows R)) (solution l) = map (\<lambda>r. solution l ++ solution r) (?matching l)"
      by (simp add: merged_def filter_map comp_def)
    also have "\<dots> = map (\<lambda>r. ?out (?A l ++ ?B r)) (?matching l)"
      using joined [OF l] by (intro map_cong) auto
    finally show ?thesis by (simp add: partners [OF l] padded [OF l] Let_def comp_def)
  qed
  have "mset (map solution (project D ps X)) = mset (map ?out X)" for X
    using datafusion_okD(3) [OF D] by (simp add: project_def multiset.map_comp comp_def)
  then have "mset (map solution (project D ps (data_fusion_join D ty on fe
       (alias_rows ''lhs'' (plan_rows L)) (alias_rows ''rhs'' (plan_rows R))))) =
      mset (map ?out (concat (map (\<lambda>l. let qs = join_partners on ?p (alias_rows ''rhs'' (plan_rows R)) l
        in if ty = Left \<and> qs = [] then [l] else map (\<lambda>r. l ++ r) qs) (alias_rows ''lhs'' (plan_rows L)))))"
    using mset_map_cong [OF data_fusion_join_mset [OF D], of ?out] by simp
  also have "map ?out (concat (map (\<lambda>l. let qs = join_partners on ?p (alias_rows ''rhs'' (plan_rows R)) l
        in if ty = Left \<and> qs = [] then [l] else map (\<lambda>r. l ++ r) qs) (alias_rows ''lhs'' (plan_rows L)))) =
      algebra_join D ty f (map solution (plan_rows L)) (map solution (plan_rows R))"
    unfolding map_concat algebra_join_def alias_rows_def [of "''lhs''"] map_map comp_def
    using row by (intro arg_cong [of _ _ concat] map_cong refl) simp
  finally show ?thesis .
qed

lemma compatible_shared:
  assumes "dom a \<subseteq> set N1" "dom b \<subseteq> set N2"
  shows "compatible a b \<longleftrightarrow> (\<forall>n \<in> set N1 \<inter> set N2. a n = None \<or> b n = None \<or> a n = b n)"
proof -
  have "n \<in> dom a \<inter> dom b \<longleftrightarrow> n \<in> set N1 \<inter> set N2 \<and> a n \<noteq> None \<and> b n \<noteq> None" for n
    using assms by blast
  then show ?thesis unfolding compatible_def by blast
qed

lemma foldl_and_true:
  assumes E: "expr_ok D"
  shows "is_truth (eval_expr D J e) \<Longrightarrow> \<forall>x \<in> set es. is_truth (eval_expr D J x) \<Longrightarrow>
    is_truth (eval_expr D J (foldl EAnd e es)) \<and>
    (eval_expr D J (foldl EAnd e es) = VBool True \<longleftrightarrow>
      eval_expr D J e = VBool True \<and> (\<forall>x \<in> set es. eval_expr D J x = VBool True))"
proof (induction es arbitrary: e)
  case (Cons x es)
  have "eval_expr D J (EAnd e x) = sql_and (eval_expr D J e) (eval_expr D J x)"
    using Cons.prems expr_okD(1) [OF E] by simp
  with Cons.IH [of "EAnd e x"] Cons.prems show ?case by auto
qed simp

lemma reduce_and_true:
  assumes "expr_ok D" "\<forall>x \<in> set es. is_truth (eval_expr D J x)"
  shows "(case reduce_and es of None \<Rightarrow> True | Some e \<Rightarrow> eval_expr D J e = VBool True) \<longleftrightarrow>
    (\<forall>x \<in> set es. eval_expr D J x = VBool True)"
  using foldl_and_true [OF assms(1)] assms(2) by (cases es) auto

definition node_ok :: "'t DataFusion \<Rightarrow> 't SparqlJoinNode \<Rightarrow> bool" where
  "node_ok D node \<longleftrightarrow>
     encodings_agree (plan_schema (lhs node)) (plan_schema (rhs node)) \<and>
     node_schema node = join_schema (join_type node) (plan_schema (lhs node)) (plan_schema (rhs node)) \<and>
     (\<forall>e. node_filter node = Some e \<longrightarrow> df_is_boolean D e \<and> resolves (node_schema node) e)"

lemma join_try_new_ok:
  "join_try_new D l r f ty = Inr node \<Longrightarrow>
   node_ok D node \<and> lhs node = l \<and> rhs node = r \<and> node_filter node = f \<and> join_type node = ty"
  using validate_inputs_agree [of "plan_schema l" "plan_schema r"]
  by (auto simp: join_try_new_def node_ok_def and_then_eq_Inr_iff Let_def split: option.splits if_splits)

lemma schema_names_join: "set (schema_names (join_schema ty l r)) = set (schema_names l) \<union> set (schema_names r)"
proof -
  have "set (schema_names (schema_merge s t)) = set (schema_names s) \<union> set (schema_names t)" for s t
    by (auto simp: schema_merge_def schema_names_def)
  moreover have "schema_names (map (\<lambda>f. f\<lparr>field_nullable := True\<rparr>) r) = schema_names r"
    by (simp add: schema_names_def)
  ultimately show ?thesis by (cases ty) (simp_all add: join_schema_def)
qed

text \<open>The rewritten filter on a joined row is the filter on the merged solution.\<close>

lemma filter_opt_eval:
  assumes D: "expr_ok D" and node: "node_ok D node"
    and f: "rewrite_filter_opt (plan_schema (lhs node)) (plan_schema (rhs node)) coal (node_filter node) = Inr fe"
    and J: "reads J a b" and ab: "lossless (plan_schema (lhs node)) (plan_schema (rhs node)) coal a b"
    and c: "compatible a b"
  shows "(\<forall>e. fe = Some e \<longrightarrow> is_truth (eval_expr D J e)) \<and>
    ((case fe of None \<Rightarrow> True | Some e \<Rightarrow> eval_expr D J e = VBool True) \<longleftrightarrow> filter_true D (node_filter node) (a ++ b))"
proof (cases "node_filter node")
  case (Some e)
  then obtain e' where e': "fe = Some e'"
    "rewrite_filter_for_join (plan_schema (lhs node)) (plan_schema (rhs node)) coal e = Inr e'"
    using f by (auto simp: rewrite_filter_opt_def map_ok_eq_Inr_iff)
  have "eval_expr D J e' = eval_expr D (row_of (b ++ a)) e"
    using rewrite_filter_eval [OF D J ab e'(2)] node Some by (auto simp: node_ok_def resolves_def)
  then show ?thesis
    using node Some e'(1) expr_okD(7) [OF D] by (simp add: node_ok_def filter_true_def merge_commute [OF c])
qed (use f in \<open>simp add: rewrite_filter_opt_def filter_true_def\<close>)

lemma rewrite_filter_opt_total:
  assumes "node_ok D node"
  shows "\<exists>fe. rewrite_filter_opt (plan_schema (lhs node)) (plan_schema (rhs node)) coal (node_filter node) = Inr fe"
proof (cases "node_filter node")
  case (Some e)
  have agree: "encodings_agree (plan_schema (lhs node)) (plan_schema (rhs node))"
    and cols: "\<forall>c \<in> set (expr_columns e). snd c \<in> set (schema_names (plan_schema (lhs node))) \<union> set (schema_names (plan_schema (rhs node)))"
    using assms Some schema_names_join by (auto simp: node_ok_def resolves_def)
  show ?thesis using rewrite_filter_total [OF agree cols, of coal] by (auto simp: Some rewrite_filter_opt_def)
qed (simp add: rewrite_filter_opt_def)

lemma projections_total:
  assumes "node_ok D node"
  shows "\<exists>ps :: (string \<times> 't Expr) list.
     create_join_projections (plan_schema (lhs node)) (plan_schema (rhs node)) coal (schema_names (node_schema node)) = Inr ps"
  using assms schema_names_join
  by (intro create_join_projections_total) (auto simp: node_ok_def)

lemma rewritten_filter_truth:
  assumes E: "expr_ok D" and node: "node_ok D node"
    and fe: "rewrite_filter_opt (plan_schema (lhs node)) (plan_schema (rhs node)) coal (node_filter node) = Inr (Some e)"
    and J: "reads J a b" and ab: "lossless (plan_schema (lhs node)) (plan_schema (rhs node)) coal a b"
  shows "is_truth (eval_expr D J e)"
proof -
  obtain e0 where e0: "node_filter node = Some e0"
    "rewrite_filter_for_join (plan_schema (lhs node)) (plan_schema (rhs node)) coal e0 = Inr e"
    using fe by (auto simp: rewrite_filter_opt_def map_ok_eq_Inr_iff split: option.splits)
  have "eval_expr D J e = eval_expr D (row_of (b ++ a)) e0"
    using rewrite_filter_eval [OF E J ab e0(2)] node e0(1) by (auto simp: node_ok_def resolves_def)
  then show ?thesis using node e0(1) expr_okD(7) [OF E] by (simp add: node_ok_def)
qed

definition compat_filters :: "string list \<Rightarrow> 't Expr option \<Rightarrow> 't Expr list" where
  "compat_filters join_on fe =
     map (\<lambda>n. IsCompatible (lhs_col n) (rhs_col n)) join_on @ (case fe of None \<Rightarrow> [] | Some e \<Rightarrow> [e])"

lemma compat_filters_true:
  assumes E: "expr_ok D" and J: "reads J a b"
    and truth: "\<And>e. fe = Some e \<Longrightarrow> is_truth (eval_expr D J e)"
  shows "(case reduce_and (compat_filters join_on fe) of None \<Rightarrow> True | Some e \<Rightarrow> eval_expr D J e = VBool True) \<longleftrightarrow>
     (\<forall>n \<in> set join_on. a n = None \<or> b n = None \<or> a n = b n) \<and>
     (case fe of None \<Rightarrow> True | Some e \<Rightarrow> eval_expr D J e = VBool True)"
proof -
  have cols: "eval_expr D J (lhs_col n) = val_of_cell (a n)" "eval_expr D J (rhs_col n) = val_of_cell (b n)" for n
    using J by (simp_all add: reads_def lhs_col_def rhs_col_def)
  have "\<forall>x \<in> set (compat_filters join_on fe). is_truth (eval_expr D J x)"
    using truth by (auto simp: compat_filters_def split: option.splits)
  note reduce_and_true [OF E this]
  also have "(\<forall>x \<in> set (compat_filters join_on fe). eval_expr D J x = VBool True) \<longleftrightarrow>
      (\<forall>n \<in> set join_on. a n = None \<or> b n = None \<or> a n = b n) \<and>
      (case fe of None \<Rightarrow> True | Some e \<Rightarrow> eval_expr D J e = VBool True)"
    by (auto simp: compat_filters_def cols split: option.splits)
  finally show ?thesis .
qed

lemma node_names:
  "node_ok D node \<Longrightarrow> set (schema_names (node_schema node)) =
     set (schema_names (plan_schema (lhs node))) \<union> set (schema_names (plan_schema (rhs node)))"
  using schema_names_join by (simp add: node_ok_def)

lemma build_join_with_is_compatible_correct:
  assumes D: "datafusion_ok D" and node: "node_ok D node" and L: "plan_wf (lhs node)" and R: "plan_wf (rhs node)"
    and on: "set join_on = set (schema_names (plan_schema (lhs node))) \<inter> set (schema_names (plan_schema (rhs node)))"
  shows "\<exists>rs. build_join_with_is_compatible D node join_on = Inr rs \<and>
     mset (map solution rs) = mset (algebra_join D (join_type node) (node_filter node)
        (map solution (plan_rows (lhs node))) (map solution (plan_rows (rhs node))))"
proof -
  note E = datafusion_okD(1) [OF D]
  let ?l = "plan_schema (lhs node)" and ?r = "plan_schema (rhs node)"
  obtain fe where fe: "rewrite_filter_opt ?l ?r True (node_filter node) = Inr fe"
    using rewrite_filter_opt_total [OF node] by blast
  obtain ps :: "(string \<times> 'a Expr) list" where ps: "create_join_projections ?l ?r True (schema_names (node_schema node)) = Inr ps"
    using projections_total [OF node] by blast
  have lossless: "lossless ?l ?r True (solution l) (solution r)"
    if "l \<in> set (plan_rows (lhs node))" "r \<in> set (plan_rows (rhs node))" for l r
    using plan_wf_dom [OF L that(1)] plan_wf_dom [OF R that(2)] by (simp add: lossless_def)
  have match: "join_match [] (map_option (\<lambda>e row. eval_expr D row e) (reduce_and (compat_filters join_on fe)))
        (alias_row ''lhs'' l) (alias_row ''rhs'' r) \<longleftrightarrow>
      compatible (solution l) (solution r) \<and> filter_true D (node_filter node) (solution l ++ solution r)"
    if lr: "l \<in> set (plan_rows (lhs node))" "r \<in> set (plan_rows (rhs node))" for l r
  proof -
    let ?J = "alias_row ''lhs'' l ++ alias_row ''rhs'' r"
    note J = reads_alias(1) [of l r]
    have comp: "compatible (solution l) (solution r) \<longleftrightarrow>
        (\<forall>n \<in> set join_on. solution l n = None \<or> solution r n = None \<or> solution l n = solution r n)"
      unfolding on by (rule compatible_shared) (use plan_wf_dom L R lr in blast)+
    have "is_truth (eval_expr D ?J e)" if "fe = Some e" for e
      using rewritten_filter_truth [OF E node _ J lossless [OF lr]] fe that by blast
    note true = compat_filters_true [OF E J this, of fe join_on, folded comp]
    have "compatible (solution l) (solution r) \<Longrightarrow>
        (case fe of None \<Rightarrow> True | Some e \<Rightarrow> eval_expr D ?J e = VBool True) \<longleftrightarrow>
        filter_true D (node_filter node) (solution l ++ solution r)"
      using filter_opt_eval [OF E node fe J lossless [OF lr]] by blast
    with true show ?thesis
      by (cases "reduce_and (compat_filters join_on fe)") (auto simp: join_match_def)
  qed
  show ?thesis
    using lowered_join_correct [OF D L R ps node_names [OF node] match lossless, of "join_type node"]
    by (simp add: build_join_with_is_compatible_def ps fe Let_def compat_filters_def)
qed

lemma try_build_regular_join_correct:
  assumes D: "datafusion_ok D" and node: "node_ok D node" and L: "plan_wf (lhs node)" and R: "plan_wf (rhs node)"
    and on: "set join_on = set (schema_names (plan_schema (lhs node))) \<inter> set (schema_names (plan_schema (rhs node)))"
  shows "try_build_regular_join D node join_on = Inr None \<or>
     (\<exists>rs. try_build_regular_join D node join_on = Inr (Some rs) \<and>
     mset (map solution rs) = mset (algebra_join D (join_type node) (node_filter node)
        (map solution (plan_rows (lhs node))) (map solution (plan_rows (rhs node)))))"
proof -
  note E = datafusion_okD(1) [OF D]
  let ?l = "plan_schema (lhs node)" and ?r = "plan_schema (rhs node)"
  let ?on = "map (\<lambda>n. ((Some ''lhs'', n), (Some ''rhs'', n))) join_on"
  show ?thesis
  proof (cases "join_on = [] \<or> (\<exists>n \<in> set join_on. column_nullable ?l n \<or> column_nullable ?r n)")
    case False
    obtain fe where fe: "rewrite_filter_opt ?l ?r False (node_filter node) = Inr fe"
      using rewrite_filter_opt_total [OF node] by blast
    obtain ps :: "(string \<times> 'a Expr) list" where ps: "create_join_projections ?l ?r False (schema_names (node_schema node)) = Inr ps"
      using projections_total [OF node] by blast
    have bound: "solution l n \<noteq> None" "solution r n \<noteq> None"
      if "l \<in> set (plan_rows (lhs node))" "r \<in> set (plan_rows (rhs node))" "n \<in> set join_on" for l r n
      using plan_wf_bound [OF L that(1)] plan_wf_bound [OF R that(2)] False that(3) by blast+
    have lossless: "lossless ?l ?r False (solution l) (solution r)"
      if "l \<in> set (plan_rows (lhs node))" "r \<in> set (plan_rows (rhs node))" for l r
      unfolding lossless_def on [symmetric]
      using plan_wf_dom [OF L that(1)] plan_wf_dom [OF R that(2)] bound(1) [OF that] by blast
    have match: "join_match ?on (map_option (\<lambda>e row. eval_expr D row e) fe) (alias_row ''lhs'' l) (alias_row ''rhs'' r) \<longleftrightarrow>
        compatible (solution l) (solution r) \<and> filter_true D (node_filter node) (solution l ++ solution r)"
      if lr: "l \<in> set (plan_rows (lhs node))" "r \<in> set (plan_rows (rhs node))" for l r
    proof -
      note J = reads_alias(1) [of l r]
      have "compatible (solution l) (solution r) \<longleftrightarrow>
          (\<forall>n \<in> set join_on. solution l n = None \<or> solution r n = None \<or> solution l n = solution r n)"
        unfolding on by (rule compatible_shared) (use plan_wf_dom L R lr in blast)+
      also have "\<dots> \<longleftrightarrow> (\<forall>n \<in> set join_on. solution l n \<noteq> None \<and> solution l n = solution r n)"
        using bound [OF lr] by blast
      finally have keys: "(\<forall>(a, b) \<in> set ?on. alias_row ''lhs'' l a \<noteq> None \<and> alias_row ''lhs'' l a = alias_row ''rhs'' r b) \<longleftrightarrow>
          compatible (solution l) (solution r)"
        by (auto simp: alias_row_def solution_def)
      have "compatible (solution l) (solution r) \<Longrightarrow>
          (case fe of None \<Rightarrow> True | Some e \<Rightarrow> eval_expr D (alias_row ''lhs'' l ++ alias_row ''rhs'' r) e = VBool True) \<longleftrightarrow>
          filter_true D (node_filter node) (solution l ++ solution r)"
        using filter_opt_eval [OF E node fe J lossless [OF lr]] by blast
      with keys show ?thesis by (cases fe) (simp_all add: join_match_def, blast+)
    qed
    show ?thesis
      using lowered_join_correct [OF D L R ps node_names [OF node] match lossless, of "join_type node"] False
      by (simp add: try_build_regular_join_def ps fe Let_def)
  qed (auto simp: try_build_regular_join_def)
qed

lemma cross_join_correct:
  assumes D: "datafusion_ok D" and L: "plan_wf L" and R: "plan_wf R"
    and disjoint: "set (schema_names (plan_schema L)) \<inter> set (schema_names (plan_schema R)) = {}"
  shows "mset (map solution (data_fusion_join D ty [] None (plan_rows L) (plan_rows R))) =
     mset (algebra_join D ty None (map solution (plan_rows L)) (map solution (plan_rows R)))"
proof -
  have compat: "compatible (solution l) (solution r)"
    if "l \<in> set (plan_rows L)" "r \<in> set (plan_rows R)" for l r
    using compatible_shared [OF plan_wf_dom [OF L that(1)] plan_wf_dom [OF R that(2)]] disjoint by blast
  have "merged D None (map solution (plan_rows R)) (solution l) = map (\<lambda>r. solution (l ++ r)) (plan_rows R)"
    if "l \<in> set (plan_rows L)" for l
  proof -
    have "filter (\<lambda>r. compatible (solution l) (solution r)) (plan_rows R) = plan_rows R"
      using compat [OF that] by (intro filter_True) auto
    moreover have "solution (l ++ r) = solution l ++ solution r" for r
      by (simp add: solution_def map_add_def fun_eq_iff)
    ultimately show ?thesis by (simp add: merged_def filter_true_def filter_map comp_def)
  qed
  then have "map solution (concat (map (\<lambda>l. let ps = join_partners [] None (plan_rows R) l
        in if ty = Left \<and> ps = [] then [l] else map (\<lambda>r. l ++ r) ps) (plan_rows L))) =
      algebra_join D ty None (map solution (plan_rows L)) (map solution (plan_rows R))"
    unfolding map_concat algebra_join_def map_map comp_def
    by (intro arg_cong [of _ _ concat] map_cong refl)
      (auto simp: join_partners_def join_match_def comp_def)
  then show ?thesis
    using mset_map_cong [OF data_fusion_join_mset [OF D, of ty "[]" None "plan_rows L" "plan_rows R"], of solution]
    by simp
qed

lemma rewrite_sparql_join_correct:
  assumes D: "datafusion_ok D" and node: "node_ok D node" and L: "plan_wf (lhs node)" and R: "plan_wf (rhs node)"
  shows "\<exists>rs. rewrite_sparql_join D node = Inr rs \<and>
     mset (map solution rs) = mset (algebra_join D (join_type node) (node_filter node)
        (map solution (plan_rows (lhs node))) (map solution (plan_rows (rhs node))))"
proof -
  let ?l = "schema_names (plan_schema (lhs node))" and ?r = "schema_names (plan_schema (rhs node))"
  let ?shared = "filter (\<lambda>n. n \<in> set ?r) ?l"
  have on: "set (sort ?shared) = set ?l \<inter> set ?r" by auto
  show ?thesis
  proof (cases "?shared = [] \<and> node_filter node = None")
    case True
    then have "set ?l \<inter> set ?r = {}" by (auto simp: filter_empty_conv)
    from cross_join_correct [OF D L R this, of "join_type node"] True show ?thesis
      by (simp add: rewrite_sparql_join_def Let_def)
  next
    case False
    have step: "rewrite_sparql_join D node = and_then (try_build_regular_join D node (sort ?shared)) (\<lambda>regular.
        case regular of Some rs \<Rightarrow> Inr rs | None \<Rightarrow> build_join_with_is_compatible D node (sort ?shared))"
      using False by (simp only: rewrite_sparql_join_def Let_def if_False)
    show ?thesis
      unfolding step
      using try_build_regular_join_correct [OF D node L R on] build_join_with_is_compatible_correct [OF D node L R on]
      by auto
  qed
qed

section \<open>The announced schema is sound\<close>

lemma row_of_project_row: "row_of (solution (project_row D ps J)) = project_row D ps J"
  by (auto simp: row_of_def solution_def project_row_def fun_eq_iff)

lemma row_of_project:
  assumes "datafusion_ok D" "r \<in> set (project D ps X)"
  shows "row_of (solution r) = r"
proof -
  have "set (project D ps X) = set (map (project_row D ps) X)"
    unfolding project_def by (rule mset_eq_setD) (rule datafusion_okD(3) [OF assms(1)])
  then show ?thesis using assms(2) row_of_project_row by auto
qed

lemma cross_join_rows:
  assumes D: "datafusion_ok D" and L: "plan_wf L" and R: "plan_wf R"
    and r: "x \<in> set (data_fusion_join D ty [] None (plan_rows L) (plan_rows R))"
  shows "row_of (solution x) = x"
proof -
  have "set (data_fusion_join D ty [] None (plan_rows L) (plan_rows R)) \<subseteq>
      set (plan_rows L) \<union> {l ++ r | l r. l \<in> set (plan_rows L) \<and> r \<in> set (plan_rows R)}"
    unfolding mset_eq_setD [OF data_fusion_join_mset [OF D, of ty "[]" None "plan_rows L" "plan_rows R"]]
    by (auto simp: Let_def join_partners_def split: if_splits)
  then consider "x \<in> set (plan_rows L)" | l r' where "l \<in> set (plan_rows L)" "r' \<in> set (plan_rows R)" "x = l ++ r'"
    using r by blast
  then have "\<exists>N. dom x \<subseteq> Pair None ` N"
  proof cases
    case 1
    then show ?thesis using L unfolding plan_wf_def by blast
  next
    case 2
    then have "dom x \<subseteq> Pair None ` set (schema_names (plan_schema L)) \<union> Pair None ` set (schema_names (plan_schema R))"
      using L R unfolding plan_wf_def dom_map_add by blast
    then show ?thesis by (metis image_Un)
  qed
  then show ?thesis using row_of_solution by blast
qed

lemma lowered_rows_projected:
  "try_build_regular_join D node on = Inr (Some rs) \<Longrightarrow> \<exists>ps X. rs = project D ps X"
  "build_join_with_is_compatible D node on = Inr rs \<Longrightarrow> \<exists>ps X. rs = project D ps X"
  unfolding try_build_regular_join_def build_join_with_is_compatible_def Let_def
  by (auto simp: and_then_eq_Inr_iff map_ok_eq_Inr_iff split: if_splits)

lemma rewrite_sparql_join_rows:
  assumes D: "datafusion_ok D" and L: "plan_wf (lhs node)" and R: "plan_wf (rhs node)"
    and rs: "rewrite_sparql_join D node = Inr rs" and r: "r \<in> set rs"
  shows "row_of (solution r) = r"
proof -
  have "(\<exists>ps X. rs = project D ps X) \<or>
      rs = data_fusion_join D (join_type node) [] None (plan_rows (lhs node)) (plan_rows (rhs node))"
    using rs lowered_rows_projected [of D node]
    by (auto simp: rewrite_sparql_join_def Let_def and_then_eq_Inr_iff split: if_splits option.splits)
  then show ?thesis using row_of_project [OF D] cross_join_rows [OF D L R] r by blast
qed

lemma algebra_join_bound:
  assumes "m \<in> set (algebra_join D ty f M1 M2)"
  shows "\<exists>m1 \<in> set M1. m = m1 \<and> ty = Left \<or> (\<exists>m2 \<in> set M2. m = m1 ++ m2)"
  using assms by (auto simp: algebra_join_def merged_def split: if_splits)

lemma join_schema_fields:
  assumes "f \<in> set (join_schema ty l r)" "\<not> field_nullable f"
  shows "f \<in> set l \<or> ty = Inner \<and> f \<in> set r"
  using assms by (cases ty) (auto simp: join_schema_def schema_merge_def)

lemma join_schema_distinct:
  assumes "distinct (schema_names l)" "distinct (schema_names r)"
  shows "distinct (schema_names (join_schema ty l r))"
proof -
  have merge: "distinct (schema_names (schema_merge s t))"
    if "distinct (schema_names s)" "distinct (schema_names t)" for s t
    using that by (auto simp: schema_merge_def schema_names_def distinct_map intro: inj_on_subset) (metis image_eqI)
  have "schema_names (map (\<lambda>f. f\<lparr>field_nullable := True\<rparr>) r) = schema_names r" by (simp add: schema_names_def)
  then show ?thesis using assms merge by (cases ty) (simp_all add: join_schema_def)
qed

lemma join_rows_wf:
  assumes L: "plan_wf L" and R: "plan_wf R"
    and m: "m \<in> set (algebra_join D ty f (map solution (plan_rows L)) (map solution (plan_rows R)))"
  shows "dom m \<subseteq> set (schema_names (join_schema ty (plan_schema L) (plan_schema R))) \<and>
    (\<forall>fl \<in> set (join_schema ty (plan_schema L) (plan_schema R)). \<not> field_nullable fl \<longrightarrow> m (field_name fl) \<noteq> None)"
proof -
  obtain l where l: "l \<in> set (plan_rows L)"
    "m = solution l \<and> ty = Left \<or> (\<exists>r \<in> set (plan_rows R). m = solution l ++ solution r)"
    using algebra_join_bound [OF m] by auto
  have dl: "dom (solution l) \<subseteq> set (schema_names (plan_schema L))" by (rule plan_wf_dom [OF L l(1)])
  have bl: "solution l (field_name fl) \<noteq> None" if "fl \<in> set (plan_schema L)" "\<not> field_nullable fl" for fl
    using L l(1) that by (auto simp: plan_wf_def solution_def)
  from l(2) show ?thesis
  proof
    assume "m = solution l \<and> ty = Left"
    then show ?thesis using dl bl join_schema_fields [of _ ty] by (auto simp: schema_names_join)
  next
    assume "\<exists>r \<in> set (plan_rows R). m = solution l ++ solution r"
    then obtain r where r: "r \<in> set (plan_rows R)" "m = solution l ++ solution r" by blast
    have dr: "dom (solution r) \<subseteq> set (schema_names (plan_schema R))" by (rule plan_wf_dom [OF R r(1)])
    have br: "solution r (field_name fl) \<noteq> None" if "fl \<in> set (plan_schema R)" "\<not> field_nullable fl" for fl
      using R r(1) that by (auto simp: plan_wf_def solution_def)
    have "m (field_name fl) \<noteq> None"
      if "fl \<in> set (join_schema ty (plan_schema L) (plan_schema R))" "\<not> field_nullable fl" for fl
      using join_schema_fields [OF that] bl [of fl] br [of fl] that(2) by (auto simp: r(2))
    then show ?thesis using dl dr by (auto simp: schema_names_join r(2))
  qed
qed

end
