(* ===== verification/Bgp_Plan.thy ===== *)
theory Bgp_Plan
  imports Sparql_Join "HOL-Library.Option_ord" "HOL-Library.Product_Lexorder"
begin

text \<open>
  Basic graph patterns: the logical node (\<open>lib/logical/src/bgp/logical.rs\<close>), the operator that
  decodes object ids (\<open>lib/physical/src/object_id/exec.rs\<close>) and the planner that orders the joins,
  places the filters and decodings and prunes the columns (\<open>lib/physical/src/bgp/planner.rs\<close>). A
  physical plan is the tree that the planner builds, with rows that are lists of cells by
  position; the operators of DataFusion in it are the fields of the record \<open>PhysicalLib\<close>.
\<close>

section \<open>The logical node\<close>

datatype BgpNodeCreationError =
    InvalidColumnsToDecode
  | InvalidDecodingColumn string
  | InvalidFilterExpr column

definition is_object_id_data_type :: "EncodingName option \<Rightarrow> bool" where
  "is_object_id_data_type dt \<longleftrightarrow> dt = Some ObjectId"

text \<open>The columns of a schema have no qualifier, so a qualified column is not found.\<close>

definition field_from_column :: "field list \<Rightarrow> column \<Rightarrow> field option" where
  "field_from_column s c = (if fst c = None then field_with_name s (snd c) else None)"

definition validate_columns_to_decode :: "field list \<Rightarrow> column list \<Rightarrow> (BgpNodeCreationError, unit) result" where
  "validate_columns_to_decode s cols =
     (case find (\<lambda>c. case field_from_column s c of None \<Rightarrow> True | Some f \<Rightarrow> \<not> is_object_id_data_type (field_encoding f)) cols of
        None \<Rightarrow> Inr ()
      | Some c \<Rightarrow>
          (case field_from_column s c of
             None \<Rightarrow> Inl (InvalidDecodingColumn ''The decoding column does not exist in the schema.'')
           | Some f \<Rightarrow> Inl (InvalidDecodingColumn ''Invalid data type for decoding column'')))"

definition ends_with :: "string \<Rightarrow> string \<Rightarrow> bool" where
  "ends_with s t \<longleftrightarrow> drop (length s - length t) s = t"

fun object_id_columns :: "field list \<Rightarrow> column list \<Rightarrow> (BgpNodeCreationError, column list) result" where
  "object_id_columns s [] = Inr []"
| "object_id_columns s (c # cs) =
     (case field_from_column s c of
        Some f \<Rightarrow> map_ok (\<lambda>r. if is_object_id_data_type (field_encoding f) then c # r else r) (object_id_columns s cs)
      | None \<Rightarrow> if ends_with (snd c) ''__oid'' then object_id_columns s cs else Inl (InvalidFilterExpr c))"

definition btree_set :: "column list \<Rightarrow> column list" where
  "btree_set cs = remdups (sort cs)"

definition extract_referenced_columns_if_object_id :: "field list \<Rightarrow> 't Expr list \<Rightarrow> (BgpNodeCreationError, column list) result" where
  "extract_referenced_columns_if_object_id s exprs = object_id_columns s (btree_set (concat (map expr_columns exprs)))"

fun merge_schemas :: "field list list \<Rightarrow> field list" where
  "merge_schemas [] = []"
| "merge_schemas (s # ss) = foldl schema_merge s ss"

fun project_fields :: "field list \<Rightarrow> column list \<Rightarrow> (BgpNodeCreationError, field list) result" where
  "project_fields s [] = Inr []"
| "project_fields s (c # cs) =
     (case field_from_column s c of
        None \<Rightarrow> Inl InvalidColumnsToDecode
      | Some f \<Rightarrow> map_ok (Cons f) (project_fields s cs))"

definition compute_schema :: "field list \<Rightarrow> column list option \<Rightarrow> column list \<Rightarrow> (BgpNodeCreationError, field list) result" where
  "compute_schema merged_schema projection columns_to_decode =
     map_ok (map (\<lambda>f. if (None, field_name f) \<in> set columns_to_decode then f\<lparr>field_encoding := Some PlainTerm\<rparr> else f))
       (case projection of None \<Rightarrow> Inr merged_schema | Some columns \<Rightarrow> project_fields merged_schema columns)"

record ('p, 't) BgpNode =
  patterns :: "'p list"
  bgp_schema :: "field list"
  filters :: "'t Expr list"
  projection :: "column list option"
  columns_to_decode :: "column list"

definition bgp_try_new ::
    "('p \<Rightarrow> field list) \<Rightarrow> 'p list \<Rightarrow> 't Expr list \<Rightarrow> column list option \<Rightarrow> column list \<Rightarrow> (BgpNodeCreationError, ('p, 't) BgpNode) result" where
  "bgp_try_new schema_of ps fs proj cols =
     (let merged_schema = merge_schemas (map schema_of ps) in
      and_then (extract_referenced_columns_if_object_id merged_schema fs) (\<lambda>referenced.
        let cols = btree_set (cols @ referenced) in
        and_then (validate_columns_to_decode merged_schema cols) (\<lambda>_.
          map_ok (\<lambda>s. \<lparr>patterns = ps, bgp_schema = s, filters = fs, projection = proj, columns_to_decode = cols\<rparr>)
            (compute_schema merged_schema proj cols))))"

section \<open>Physical plans\<close>

type_synonym 't prow = "'t option list"

datatype ObjectIdDecodingExecProjection = RetainColumn string string | DecodeColumn string string

datatype PartitionMode = CollectLeft | Partitioned

datatype 't Exec =
    Input "field list" "'t prow list"
  | PlaceholderRowExec "field list"
  | EmptyExec "field list"
  | FilterExec "'t prow \<Rightarrow> 't val" "'t Exec"
  | ProjectionExec "(nat \<times> string) list" "'t Exec"
  | HashJoinExec "'t Exec" "'t Exec" "(nat \<times> nat) list" "nat list" PartitionMode
  | CrossJoinExec "'t Exec" "'t Exec"
  | NestedLoopJoinExec "'t Exec" "'t Exec" "'t prow \<Rightarrow> 't val"
  | DecodeObjectIdsExec "'t Exec" "ObjectIdDecodingExecProjection list"

datatype Precision = Exact nat | Inexact nat | Absent

record Statistics =
  num_rows :: Precision
  total_byte_size :: Precision

record 't PhysicalLib =
  df :: "'t DataFusion"
  create_physical_expr :: "'t Expr \<Rightarrow> field list \<Rightarrow> (plan_error, 't prow \<Rightarrow> 't val) result"
  run_filter :: "('t prow \<Rightarrow> 't val) \<Rightarrow> 't prow list \<Rightarrow> 't prow list"
  run_projection :: "nat list \<Rightarrow> 't prow list \<Rightarrow> 't prow list"
  run_hash_join :: "(nat \<times> nat) list \<Rightarrow> nat list \<Rightarrow> (field list \<times> 't prow list) \<Rightarrow> (field list \<times> 't prow list) \<Rightarrow> 't prow list"
  run_cross_join :: "'t prow list \<Rightarrow> 't prow list \<Rightarrow> 't prow list"
  run_nested_loop_join :: "('t prow \<Rightarrow> 't val) \<Rightarrow> 't prow list \<Rightarrow> 't prow list \<Rightarrow> 't prow list"
  compute_statistics :: "'t Exec \<Rightarrow> (plan_error, Statistics) result"
  partition_count :: "'t Exec \<Rightarrow> nat"
  decode_id :: "'t \<Rightarrow> 't"

definition index_of :: "field list \<Rightarrow> string \<Rightarrow> nat option" where
  "index_of s n = find (\<lambda>i. field_name (s ! i) = n) [0..<length s]"

definition has_column :: "field list \<Rightarrow> string \<Rightarrow> bool" where
  "has_column s n \<longleftrightarrow> index_of s n \<noteq> None"

section \<open>Decoding object ids\<close>

fun source_column :: "ObjectIdDecodingExecProjection \<Rightarrow> string" where
  "source_column (RetainColumn src tgt) = src"
| "source_column (DecodeColumn src tgt) = src"

definition decode_output_field :: "field list \<Rightarrow> ObjectIdDecodingExecProjection \<Rightarrow> field" where
  "decode_output_field s p =
     (let f = s ! the (index_of s (source_column p)) in
      case p of
        RetainColumn src tgt \<Rightarrow> f\<lparr>field_name := tgt\<rparr>
      | DecodeColumn src tgt \<Rightarrow> \<lparr>field_name = tgt, field_encoding = Some PlainTerm, field_nullable = field_nullable f\<rparr>)"

fun exec_schema :: "'t Exec \<Rightarrow> field list" where
  "exec_schema (Input s rows) = s"
| "exec_schema (PlaceholderRowExec s) = s"
| "exec_schema (EmptyExec s) = s"
| "exec_schema (FilterExec p e) = exec_schema e"
| "exec_schema (ProjectionExec ps e) = map (\<lambda>(i, n). (exec_schema e ! i)\<lparr>field_name := n\<rparr>) ps"
| "exec_schema (HashJoinExec l r on proj mode) = map ((!) (exec_schema l @ exec_schema r)) proj"
| "exec_schema (CrossJoinExec l r) = exec_schema l @ exec_schema r"
| "exec_schema (NestedLoopJoinExec l r f) = exec_schema l @ exec_schema r"
| "exec_schema (DecodeObjectIdsExec e ps) = map (decode_output_field (exec_schema e)) ps"

definition decode_projection_ok :: "field list \<Rightarrow> ObjectIdDecodingExecProjection \<Rightarrow> bool" where
  "decode_projection_ok s p \<longleftrightarrow> has_column s (source_column p) \<and>
     (case p of RetainColumn _ _ \<Rightarrow> True
      | DecodeColumn src _ \<Rightarrow> is_object_id_data_type (field_encoding (s ! the (index_of s src))))"

definition decode_try_new :: "'t Exec \<Rightarrow> ObjectIdDecodingExecProjection list \<Rightarrow> (plan_error, 't Exec) result" where
  "decode_try_new e ps =
     (if list_all (decode_projection_ok (exec_schema e)) ps then Inr (DecodeObjectIdsExec e ps)
      else Inl (PlanError ''DecodeTermUDF requires an ObjectId encoded argument''))"

definition decode_task :: "('t \<Rightarrow> 't) \<Rightarrow> field list \<Rightarrow> 't prow \<Rightarrow> ObjectIdDecodingExecProjection \<Rightarrow> 't option" where
  "decode_task dec s row p =
     (let cell = row ! the (index_of s (source_column p)) in
      case p of RetainColumn _ _ \<Rightarrow> cell | DecodeColumn _ _ \<Rightarrow> map_option dec cell)"

definition decode_batch :: "('t \<Rightarrow> 't) \<Rightarrow> field list \<Rightarrow> ObjectIdDecodingExecProjection list \<Rightarrow> 't prow list \<Rightarrow> 't prow list" where
  "decode_batch dec s ps rows = map (\<lambda>row. map (decode_task dec s row) ps) rows"

fun run :: "'t PhysicalLib \<Rightarrow> 't Exec \<Rightarrow> 't prow list" where
  "run L (Input s rows) = rows"
| "run L (PlaceholderRowExec s) = [replicate (length s) None]"
| "run L (EmptyExec s) = []"
| "run L (FilterExec p e) = run_filter L p (run L e)"
| "run L (ProjectionExec ps e) = run_projection L (map fst ps) (run L e)"
| "run L (HashJoinExec l r on proj mode) = run_hash_join L on proj (exec_schema l, run L l) (exec_schema r, run L r)"
| "run L (CrossJoinExec l r) = run_cross_join L (run L l) (run L r)"
| "run L (NestedLoopJoinExec l r f) = run_nested_loop_join L f (run L l) (run L r)"
| "run L (DecodeObjectIdsExec e ps) = decode_batch (decode_id L) (exec_schema e) ps (run L e)"

section \<open>Placing filters\<close>

text \<open>\<open>FilterExec::try_new\<close> wants a boolean predicate.\<close>

definition filter_try_new :: "'t PhysicalLib \<Rightarrow> 't Expr \<Rightarrow> ('t prow \<Rightarrow> 't val) \<Rightarrow> 't Exec \<Rightarrow> (plan_error, 't Exec) result" where
  "filter_try_new L f p e =
     (if df_is_boolean (df L) f then Inr (FilterExec p e) else Inl (PlanError ''Filter predicate must return BOOLEAN values''))"

fun apply_filters :: "'t PhysicalLib \<Rightarrow> 't Expr list \<Rightarrow> 't Exec \<Rightarrow> (plan_error, 't Exec) result" where
  "apply_filters L [] e = Inr e"
| "apply_filters L (f # fs) e =
     and_then (create_physical_expr L f (exec_schema e)) (\<lambda>p. and_then (filter_try_new L f p e) (apply_filters L fs))"

definition column_names :: "'t Expr \<Rightarrow> string list" where
  "column_names f = map snd (expr_columns f)"

definition filter_ready :: "bool \<Rightarrow> field list \<Rightarrow> column list \<Rightarrow> 't Expr \<Rightarrow> bool" where
  "filter_ready use_oids s cols f =
     (let all_present = list_all (has_column s) (column_names f);
          needs_decode = use_oids \<and> cols \<noteq> [] \<and> list_ex (\<lambda>n. n \<in> set (map snd cols)) (column_names f)
      in all_present \<and> \<not> needs_decode)"

definition apply_ready_filters ::
    "'t PhysicalLib \<Rightarrow> bool \<Rightarrow> 't Exec \<Rightarrow> 't Expr list \<Rightarrow> column list \<Rightarrow> (plan_error, 't Exec \<times> 't Expr list) result" where
  "apply_ready_filters L use_oids e pending cols =
     (let ready = filter_ready use_oids (exec_schema e) cols in
      map_ok (\<lambda>e'. (e', filter (\<lambda>f. \<not> ready f) pending)) (apply_filters L (filter ready pending) e))"

section \<open>Leaf patterns\<close>

definition needed_projection :: "string list \<Rightarrow> field list \<Rightarrow> (nat \<times> string) list" where
  "needed_projection needed s = map (\<lambda>i. (i, field_name (s ! i))) (filter (\<lambda>i. field_name (s ! i) \<in> set needed) [0..<length s])"

fun get_value :: "Precision \<Rightarrow> nat option" where
  "get_value (Exact n) = Some n"
| "get_value (Inexact n) = Some n"
| "get_value Absent = None"

definition pattern_scan_bytes :: "Statistics \<Rightarrow> nat" where
  "pattern_scan_bytes st = (case get_value (total_byte_size st) of Some bytes \<Rightarrow> bytes | None \<Rightarrow> 2 ^ 64 - 1)"

fun any_input_empty :: "'t PhysicalLib \<Rightarrow> 't Exec list \<Rightarrow> (plan_error, bool) result" where
  "any_input_empty L [] = Inr False"
| "any_input_empty L (e # es) =
     and_then (compute_statistics L e) (\<lambda>st. if num_rows st = Exact 0 then Inr True else any_input_empty L es)"

fun prepare_patterns ::
    "'t PhysicalLib \<Rightarrow> bool \<Rightarrow> column list \<Rightarrow> string list \<Rightarrow> 't Exec list \<Rightarrow> 't Expr list \<Rightarrow> (plan_error, ('t Exec \<times> nat) list \<times> 't Expr list) result" where
  "prepare_patterns L use_oids cols needed [] pending = Inr ([], pending)"
| "prepare_patterns L use_oids cols needed (e # es) pending =
     and_then (apply_ready_filters L use_oids e pending cols) (\<lambda>(e1, pending1).
     and_then (apply_ready_filters L use_oids (ProjectionExec (needed_projection needed (exec_schema e1)) e1) pending1 cols) (\<lambda>(e2, pending2).
     and_then (compute_statistics L e) (\<lambda>st.
       map_ok (\<lambda>(ps, pending3). ((e2, pattern_scan_bytes st) # ps, pending3))
         (prepare_patterns L use_oids cols needed es pending2))))"

definition prepare_and_sort_patterns ::
    "'t PhysicalLib \<Rightarrow> bool \<Rightarrow> column list \<Rightarrow> string list \<Rightarrow> 't Exec list \<Rightarrow> 't Expr list \<Rightarrow> (plan_error, ('t Exec list \<times> 't Expr list) option) result" where
  "prepare_and_sort_patterns L use_oids cols needed inputs fs =
     and_then (any_input_empty L inputs) (\<lambda>empty.
       if empty then Inr None
       else map_ok (\<lambda>(ps, pending). Some (map fst (sort_key snd ps), pending)) (prepare_patterns L use_oids cols needed inputs fs))"

section \<open>Joins\<close>

definition find_next_join_pattern :: "'t Exec \<Rightarrow> 't Exec list \<Rightarrow> nat" where
  "find_next_join_pattern cur ps =
     unwrap_or (find (\<lambda>i. list_ex (\<lambda>f. has_column (exec_schema cur) (field_name f)) (exec_schema (ps ! i))) [0..<length ps]) 0"

definition join_on :: "field list \<Rightarrow> field list \<Rightarrow> (nat \<times> nat) list" where
  "join_on l r = map (\<lambda>f. (the (index_of l (field_name f)), the (index_of r (field_name f)))) (filter (\<lambda>f. has_column r (field_name f)) l)"

definition join_projection :: "string list \<Rightarrow> field list \<Rightarrow> field list \<Rightarrow> nat list" where
  "join_projection needed l r =
     filter (\<lambda>i. field_name (l ! i) \<in> set needed) [0..<length l] @
     map (\<lambda>i. length l + i) (filter (\<lambda>i. \<not> has_column l (field_name (r ! i)) \<and> field_name (r ! i) \<in> set needed) [0..<length r])"

text \<open>The sides of a cross join in which the columns of a filter are, with the columns to decode on either side; \<^term>\<open>None\<close>
  if one is missing.\<close>

fun filter_sides :: "bool \<Rightarrow> column list \<Rightarrow> field list \<Rightarrow> field list \<Rightarrow> string list \<Rightarrow> (string list \<times> string list) option" where
  "filter_sides use_oids cols l r [] = Some ([], [])"
| "filter_sides use_oids cols l r (n # ns) =
     (if use_oids \<and> n \<in> set (map snd cols) then
        if has_column l n then map_option (\<lambda>(dl, dr). (n # dl, dr)) (filter_sides use_oids cols l r ns)
        else if has_column r n then map_option (\<lambda>(dl, dr). (dl, n # dr)) (filter_sides use_oids cols l r ns)
        else None
      else if has_column l n \<or> has_column r n then filter_sides use_oids cols l r ns
      else None)"

definition decode_side :: "string list \<Rightarrow> 't Exec \<Rightarrow> (plan_error, 't Exec) result" where
  "decode_side dec e =
     (if dec = [] then Inr e
      else decode_try_new e (map (\<lambda>f. if field_name f \<in> set dec then DecodeColumn (field_name f) (field_name f)
                                      else RetainColumn (field_name f) (field_name f)) (exec_schema e)))"

fun reduce_conjunction :: "'t Expr list \<Rightarrow> 't Expr option" where
  "reduce_conjunction [] = None"
| "reduce_conjunction (f # fs) = Some (foldl EAnd f fs)"

definition optimize_cross_join ::
    "'t PhysicalLib \<Rightarrow> bool \<Rightarrow> 't Exec \<Rightarrow> 't Exec \<Rightarrow> string list \<Rightarrow> column list \<Rightarrow> 't Expr list \<Rightarrow> (plan_error, 't Exec \<times> 't Expr list) result" where
  "optimize_cross_join L use_oids l r needed cols pending =
     (let sides = (\<lambda>f. filter_sides use_oids cols (exec_schema l) (exec_schema r) (column_names f));
          eligible = filter (\<lambda>f. sides f \<noteq> None) pending;
          remaining = filter (\<lambda>f. sides f = None) pending;
          decode_left = remdups_adj (sort (concat (map (\<lambda>f. fst (the (sides f))) eligible)));
          decode_right = remdups_adj (sort (concat (map (\<lambda>f. snd (the (sides f))) eligible)))
      in and_then (if use_oids then decode_side decode_left l else Inr l) (\<lambda>l'.
         and_then (if use_oids then decode_side decode_right r else Inr r) (\<lambda>r'.
         and_then (case reduce_conjunction eligible of
                     None \<Rightarrow> Inr (CrossJoinExec l' r')
                   | Some combined \<Rightarrow> map_ok (NestedLoopJoinExec l' r') (create_physical_expr L combined (exec_schema l' @ exec_schema r')))
           (\<lambda>e. let proj = needed_projection needed (exec_schema e)
                in Inr (if length proj < length (exec_schema e) then ProjectionExec proj e else e, remaining)))))"

definition join_execs ::
    "'t PhysicalLib \<Rightarrow> bool \<Rightarrow> 't Exec \<Rightarrow> 't Exec \<Rightarrow> string list \<Rightarrow> column list \<Rightarrow> 't Expr list \<Rightarrow> (plan_error, 't Exec \<times> 't Expr list) result" where
  "join_execs L use_oids l r needed cols pending =
     (let on = join_on (exec_schema l) (exec_schema r) in
      if on \<noteq> [] then
        Inr (HashJoinExec l r on (join_projection needed (exec_schema l) (exec_schema r))
               (if partition_count L l \<le> 1 \<and> partition_count L r \<le> 1 then CollectLeft else Partitioned), pending)
      else optimize_cross_join L use_oids l r needed cols pending)"

definition remove_at :: "nat \<Rightarrow> 'a list \<Rightarrow> 'a list" where
  "remove_at i xs = take i xs @ drop (Suc i) xs"

lemma find_next_less: "ps \<noteq> [] \<Longrightarrow> find_next_join_pattern cur ps < length ps"
  by (auto simp: find_next_join_pattern_def unwrap_or_def find_Some_iff split: option.split)

lemma length_remove_at: "i < length xs \<Longrightarrow> length (remove_at i xs) < length xs"
  by (simp add: remove_at_def)

function join_patterns ::
    "'t PhysicalLib \<Rightarrow> bool \<Rightarrow> string list \<Rightarrow> column list \<Rightarrow> 't Exec \<Rightarrow> 't Exec list \<Rightarrow> 't Expr list \<Rightarrow> (plan_error, 't Exec \<times> 't Expr list) result" where
  "join_patterns L use_oids top_needs cols e ps pending =
     (if ps = [] then Inr (e, pending)
      else
        (let next_idx = find_next_join_pattern e ps;
             rest = remove_at next_idx ps;
             needed_after_join = top_needs @ concat (map (\<lambda>p. schema_names (exec_schema p)) rest)
         in and_then (join_execs L use_oids e (ps ! next_idx) needed_after_join cols pending) (\<lambda>(e1, pending1).
            and_then (apply_ready_filters L use_oids e1 pending1 cols) (\<lambda>(e2, pending2).
              join_patterns L use_oids top_needs cols e2 rest pending2))))"
  by pat_completeness auto
termination
  by (relation "measure (\<lambda>(L, o1, top_needs, cols, e, ps, pending). length ps)") (simp_all add: find_next_less length_remove_at)

declare join_patterns.simps [simp del]

section \<open>The planner\<close>

definition decode_columns_for_filters ::
    "bool \<Rightarrow> 't Exec \<Rightarrow> column list \<Rightarrow> string list \<Rightarrow> string list \<Rightarrow> (plan_error, 't Exec) result" where
  "decode_columns_for_filters use_oids e cols top_needs filter_needs =
     (if \<not> use_oids then Inr e
      else
        (let decodes = (\<lambda>f. field_name f \<in> set (map snd cols) \<and> field_name f \<in> set filter_needs \<and> is_object_id_data_type (field_encoding f));
             fields = filter (\<lambda>f. field_name f \<in> set top_needs) (exec_schema e);
             projections = map (\<lambda>f. if decodes f then DecodeColumn (field_name f) (field_name f) else RetainColumn (field_name f) (field_name f)) fields;
             missed = filter (\<lambda>n. n \<notin> set (schema_names fields) \<and> has_column (exec_schema e) n) top_needs
         in if \<not> list_ex decodes fields then Inr e
            else decode_try_new e (projections @ map (\<lambda>n. RetainColumn n n) missed)))"

definition decode_final_columns :: "bool \<Rightarrow> 't Exec \<Rightarrow> column list \<Rightarrow> (plan_error, 't Exec) result" where
  "decode_final_columns use_oids e cols =
     (if \<not> use_oids then Inr e
      else
        (let decodes = (\<lambda>f. field_name f \<in> set (map snd cols) \<and> is_object_id_data_type (field_encoding f));
             projections = map (\<lambda>f. if decodes f then DecodeColumn (field_name f) (field_name f) else RetainColumn (field_name f) (field_name f)) (exec_schema e)
         in if \<not> list_ex decodes (exec_schema e) then Inr e else decode_try_new e projections))"

fun final_projection :: "field list \<Rightarrow> field list \<Rightarrow> (plan_error, (nat \<times> string) list) result" where
  "final_projection s [] = Inr []"
| "final_projection s (f # fs) =
     (case index_of s (field_name f) of
        None \<Rightarrow> Inl (PlanError ''Unable to get field named'')
      | Some i \<Rightarrow> map_ok (Cons (i, field_name f)) (final_projection s fs))"

fun split_conjunction :: "'t Expr \<Rightarrow> 't Expr list" where
  "split_conjunction (EAnd a b) = split_conjunction a @ split_conjunction b"
| "split_conjunction f = [f]"

definition top_level_needs :: "('p, 't) BgpNode \<Rightarrow> 't Expr list \<Rightarrow> string list" where
  "top_level_needs bgp flat_filters =
     remdups (schema_names (bgp_schema bgp) @ concat (map column_names flat_filters) @ map snd (columns_to_decode bgp))"

definition shared_columns :: "field list list \<Rightarrow> string list" where
  "shared_columns ss = (let names = concat (map schema_names ss) in filter (\<lambda>n. 1 < count_list names n) (remdups names))"

definition finish_plan ::
    "'t PhysicalLib \<Rightarrow> bool \<Rightarrow> ('p, 't) BgpNode \<Rightarrow> string list \<Rightarrow> 't Exec \<Rightarrow> 't Expr list \<Rightarrow> (plan_error, 't Exec) result" where
  "finish_plan L use_oids bgp top_needs e pending =
     and_then (decode_columns_for_filters use_oids e (columns_to_decode bgp) top_needs (concat (map column_names pending))) (\<lambda>e1.
     and_then (apply_ready_filters L use_oids e1 pending []) (\<lambda>(e2, pending2).
     and_then (apply_filters L pending2 e2) (\<lambda>e3.
     and_then (decode_final_columns use_oids e3 (columns_to_decode bgp)) (\<lambda>e4.
       map_ok (\<lambda>proj. ProjectionExec proj e4) (final_projection (exec_schema e4) (bgp_schema bgp))))))"

definition plan_extension :: "'t PhysicalLib \<Rightarrow> bool \<Rightarrow> ('p, 't) BgpNode \<Rightarrow> 't Exec list \<Rightarrow> (plan_error, 't Exec) result" where
  "plan_extension L use_oids bgp inputs =
     (if patterns bgp = [] then Inr (PlaceholderRowExec (bgp_schema bgp))
      else
        (let flat_filters = concat (map split_conjunction (filters bgp));
             top_needs = top_level_needs bgp flat_filters;
             needed = top_needs @ shared_columns (map exec_schema inputs)
         in and_then (prepare_and_sort_patterns L use_oids (columns_to_decode bgp) needed inputs flat_filters) (\<lambda>prepared.
              case prepared of
                None \<Rightarrow> Inr (EmptyExec (bgp_schema bgp))
              | Some (ps, pending) \<Rightarrow>
                  and_then (join_patterns L use_oids top_needs (columns_to_decode bgp) (hd ps) (tl ps) pending) (\<lambda>(e, pending2).
                    finish_plan L use_oids bgp top_needs e pending2))))"

end
