(* ===== verification/Bgp_Join.thy ===== *)
theory Bgp_Join
  imports Bgp_Plan
begin

text \<open>
  The meaning of a basic graph pattern: the natural join of the bags of its patterns, on
  assignments of the column names, in which a null is equal to nothing. The join does not depend
  on the order of the patterns, and it commutes with filters and with dropping columns that no
  other pattern has.
\<close>

type_synonym 't sol = "string \<rightharpoonup> 't"

definition mbind :: "'a multiset \<Rightarrow> ('a \<Rightarrow> 'b multiset) \<Rightarrow> 'b multiset" where
  "mbind A f = (\<Sum>x\<in>#A. f x)"

lemma mbind_simps [simp]: "mbind {#} f = {#}" "mbind (add_mset x A) f = f x + mbind A f" "mbind (A + B) f = mbind A f + mbind B f"
  by (simp_all add: mbind_def)

lemma mbind_single [simp]: "mbind A (\<lambda>x. {#f x#}) = image_mset f A" "mbind A (\<lambda>x. {#}) = {#}"
  by (induction A) simp_all

lemma mbind_mbind: "mbind (mbind A f) g = mbind A (\<lambda>x. mbind (f x) g)"
  by (induction A) simp_all

lemma mbind_cong [cong]: "A = B \<Longrightarrow> (\<And>x. x \<in># B \<Longrightarrow> f x = g x) \<Longrightarrow> mbind A f = mbind B g"
  by (auto simp: mbind_def intro!: arg_cong [where f = sum_mset] image_mset_cong)

lemma mbind_swap: "mbind A (\<lambda>a. mbind B (f a)) = mbind B (\<lambda>b. mbind A (\<lambda>a. f a b))"
  unfolding mbind_def by (rule sum_mset.swap)

lemma image_mbind: "image_mset g (mbind A f) = mbind A (\<lambda>x. image_mset g (f x))"
  by (induction A) simp_all

lemma filter_mbind: "filter_mset P (mbind A f) = mbind A (\<lambda>x. filter_mset P (f x))"
  by (induction A) simp_all

lemma mbind_image: "mbind (image_mset g A) f = mbind A (\<lambda>x. f (g x))"
  by (induction A) simp_all

lemma mbind_filter: "mbind (filter_mset P A) f = mbind A (\<lambda>x. if P x then f x else {#})"
  by (induction A) simp_all

lemma in_mbind: "y \<in># mbind A f \<longleftrightarrow> (\<exists>x. x \<in># A \<and> y \<in># f x)"
  by (induction A) auto

lemma mset_concat_map: "mset (concat (map f xs)) = mbind (mset xs) (\<lambda>x. mset (f x))"
  by (induction xs) simp_all

section \<open>Natural join\<close>

definition agree :: "string set \<Rightarrow> 't sol \<Rightarrow> 't sol \<Rightarrow> bool" where
  "agree N a b \<longleftrightarrow> (\<forall>n \<in> N. a n \<noteq> None \<and> a n = b n)"

definition njoin :: "string set \<Rightarrow> 't sol multiset \<Rightarrow> string set \<Rightarrow> 't sol multiset \<Rightarrow> 't sol multiset" where
  "njoin N A M B = mbind A (\<lambda>a. mbind B (\<lambda>b. if agree (N \<inter> M) a b then {#a ++ b#} else {#}))"

definition sols_on :: "string set \<Rightarrow> 't sol multiset \<Rightarrow> bool" where
  "sols_on N A \<longleftrightarrow> (\<forall>a. a \<in># A \<longrightarrow> dom a \<subseteq> N)"

type_synonym 't rel = "string set \<times> 't sol multiset"

fun bgp_join :: "'t rel list \<Rightarrow> 't rel" where
  "bgp_join [] = ({}, {#Map.empty#})"
| "bgp_join (r # rs) = (fst r \<union> fst (bgp_join rs), njoin (fst r) (snd r) (fst (bgp_join rs)) (snd (bgp_join rs)))"

abbreviation rel_ok :: "'t rel \<Rightarrow> bool" where
  "rel_ok r \<equiv> sols_on (fst r) (snd r)"

lemma agree_sym: "agree N a b \<longleftrightarrow> agree N b a"
  unfolding agree_def by metis

lemma add_agree: "agree (N \<inter> M) a b \<Longrightarrow> dom a \<subseteq> N \<Longrightarrow> dom b \<subseteq> M \<Longrightarrow> n \<in> N \<Longrightarrow> (a ++ b) n = a n"
  by (cases "n \<in> M") (auto simp: agree_def map_add_def split: option.split)

lemma add_agree_right: "dom a \<subseteq> N \<Longrightarrow> dom b \<subseteq> M \<Longrightarrow> agree (N \<inter> M) a b \<Longrightarrow> n \<in> M \<Longrightarrow> (a ++ b) n = b n"
  by (auto simp: agree_def map_add_def domIff split: option.split)

lemma add_comm_agree:
  assumes "agree (N \<inter> M) a b" "dom a \<subseteq> N" "dom b \<subseteq> M"
  shows "a ++ b = b ++ a"
proof
  fix n
  show "(a ++ b) n = (b ++ a) n"
  proof (cases "n \<in> N")
    case True
    then show ?thesis using add_agree [OF assms] add_agree_right [OF assms(3,2)] assms(1) by (simp add: agree_sym Int_commute)
  next
    case False
    then have "a n = None" using assms(2) by (auto simp: domIff)
    then show ?thesis by (simp add: map_add_def split: option.split)
  qed
qed

lemma njoin_comm:
  assumes "sols_on N A" "sols_on M B"
  shows "njoin N A M B = njoin M B N A"
proof -
  have "njoin N A M B = mbind B (\<lambda>b. mbind A (\<lambda>a. if agree (N \<inter> M) a b then {#a ++ b#} else {#}))"
    unfolding njoin_def by (rule mbind_swap)
  also have "\<dots> = njoin M B N A"
    unfolding njoin_def
  proof (intro mbind_cong HOL.refl)
    fix a b assume "a \<in># A" "b \<in># B"
    then have "dom a \<subseteq> N" "dom b \<subseteq> M" using assms by (auto simp: sols_on_def)
    then have "agree (N \<inter> M) a b \<Longrightarrow> a ++ b = b ++ a" by (rule add_comm_agree [rotated])
    then show "(if agree (N \<inter> M) a b then {#a ++ b#} else {#}) = (if agree (M \<inter> N) b a then {#b ++ a#} else {#})"
      by (simp add: agree_sym [of _ b] Int_commute)
  qed
  finally show ?thesis .
qed

lemma njoin_on:
  assumes "sols_on N A" "sols_on M B" shows "sols_on (N \<union> M) (njoin N A M B)"
proof -
  have "dom (a ++ b) \<subseteq> N \<union> M" if "a \<in># A" "b \<in># B" for a b
    using assms that by (auto simp: sols_on_def)
  then show ?thesis by (auto simp: sols_on_def njoin_def in_mbind split: if_splits) blast
qed

lemma agree_add:
  assumes "dom a \<subseteq> N" "dom b \<subseteq> M" "dom c \<subseteq> K"
  shows "agree (M \<inter> K) b c \<and> agree (N \<inter> (M \<union> K)) a (b ++ c) \<longleftrightarrow>
    agree (M \<inter> K) b c \<and> agree (N \<inter> M) a b \<and> agree (N \<inter> K) a c"
proof -
  have "agree (N \<inter> (M \<union> K)) a (b ++ c) \<longleftrightarrow> agree (N \<inter> M) a b \<and> agree (N \<inter> K) a c" if bc: "agree (M \<inter> K) b c"
  proof -
    have "(b ++ c) n = b n" if "n \<in> M" for n using add_agree [OF bc assms(2,3) that] .
    moreover have "(b ++ c) n = c n" if "n \<in> K" for n using add_agree_right [OF assms(2,3) bc that] .
    ultimately show ?thesis by (auto simp: agree_def)
  qed
  then show ?thesis by blast
qed

lemma njoin_left_comm:
  assumes "sols_on N A" "sols_on M B" "sols_on K C"
  shows "njoin N A (M \<union> K) (njoin M B K C) = njoin M B (N \<union> K) (njoin N A K C)"
proof -
  have flat: "njoin N A (M \<union> K) (njoin M B K C) =
      mbind A (\<lambda>a. mbind B (\<lambda>b. mbind C (\<lambda>c. if agree (M \<inter> K) b c \<and> agree (N \<inter> M) a b \<and> agree (N \<inter> K) a c then {#a ++ (b ++ c)#} else {#})))"
    if "sols_on N A" "sols_on M B" "sols_on K C" for N A M B K and C :: "'a sol multiset"
  proof -
    have "mbind (if agree (M \<inter> K) b c then {#b ++ c#} else {#}) (\<lambda>e. if agree (N \<inter> (M \<union> K)) a e then {#a ++ e#} else {#}) =
        (if agree (M \<inter> K) b c \<and> agree (N \<inter> M) a b \<and> agree (N \<inter> K) a c then {#a ++ (b ++ c)#} else {#})"
      if "a \<in># A" "b \<in># B" "c \<in># C" for a b c
    proof -
      have "dom a \<subseteq> N" "dom b \<subseteq> M" "dom c \<subseteq> K" using that \<open>sols_on N A\<close> \<open>sols_on M B\<close> \<open>sols_on K C\<close> by (auto simp: sols_on_def)
      from agree_add [OF this] show ?thesis by (cases "agree (M \<inter> K) b c") simp_all
    qed
    then show ?thesis unfolding njoin_def mbind_mbind by (intro mbind_cong HOL.refl) blast
  qed
  have "mbind A (\<lambda>a. mbind B (\<lambda>b. mbind C (\<lambda>c. if agree (M \<inter> K) b c \<and> agree (N \<inter> M) a b \<and> agree (N \<inter> K) a c then {#a ++ (b ++ c)#} else {#}))) =
      mbind B (\<lambda>b. mbind A (\<lambda>a. mbind C (\<lambda>c. if agree (M \<inter> K) b c \<and> agree (N \<inter> M) a b \<and> agree (N \<inter> K) a c then {#a ++ (b ++ c)#} else {#})))"
    by (rule mbind_swap)
  also have "\<dots> = mbind B (\<lambda>b. mbind A (\<lambda>a. mbind C (\<lambda>c. if agree (N \<inter> K) a c \<and> agree (M \<inter> N) b a \<and> agree (M \<inter> K) b c then {#b ++ (a ++ c)#} else {#})))"
  proof (intro mbind_cong HOL.refl)
    fix a b c assume "a \<in># A" "b \<in># B" "c \<in># C"
    then have "dom a \<subseteq> N" "dom b \<subseteq> M" using assms by (auto simp: sols_on_def)
    then have "agree (N \<inter> M) a b \<Longrightarrow> a ++ (b ++ c) = b ++ (a ++ c)" using add_comm_agree [of N M a b] by (simp add: map_add_assoc)
    then show "(if agree (M \<inter> K) b c \<and> agree (N \<inter> M) a b \<and> agree (N \<inter> K) a c then {#a ++ (b ++ c)#} else {#}) =
      (if agree (N \<inter> K) a c \<and> agree (M \<inter> N) b a \<and> agree (M \<inter> K) b c then {#b ++ (a ++ c)#} else {#})"
      by (auto simp: agree_sym [of _ b a] Int_commute [of M N])
  qed
  finally show ?thesis using flat [OF assms] flat [OF assms(2,1,3)] by simp
qed

lemma bgp_join_ok: "\<forall>r \<in> set rs. rel_ok r \<Longrightarrow> rel_ok (bgp_join rs)"
  by (induction rs) (simp add: sols_on_def, simp add: njoin_on)

lemma fst_bgp_join: "fst (bgp_join rs) = \<Union> (fst ` set rs)"
  by (induction rs) simp_all

lemma bgp_join_remove1:
  "\<forall>r \<in> set rs. rel_ok r \<Longrightarrow> r \<in> set rs \<Longrightarrow> bgp_join rs = bgp_join (r # remove1 r rs)"
proof (induction rs)
  case (Cons q rs)
  show ?case
  proof (cases "q = r")
    case False
    then have IH: "bgp_join rs = bgp_join (r # remove1 r rs)" using Cons by simp
    have "rel_ok (bgp_join (remove1 r rs))" using Cons.prems(1) by (intro bgp_join_ok) (auto dest: in_set_remove1 set_remove1_subset [THEN subsetD])
    moreover have "rel_ok q" "rel_ok r" using Cons.prems by auto
    ultimately have "bgp_join (q # r # remove1 r rs) = bgp_join (r # q # remove1 r rs)"
      using njoin_left_comm [of "fst q" "snd q" "fst r" "snd r"] by auto
    then show ?thesis using False IH by simp
  qed simp
qed simp

lemma bgp_join_perm: "mset rs = mset qs \<Longrightarrow> \<forall>r \<in> set rs. rel_ok r \<Longrightarrow> bgp_join rs = bgp_join qs"
proof (induction rs arbitrary: qs)
  case (Cons r rs)
  have "r \<in> set qs" "\<forall>q \<in> set qs. rel_ok q" using Cons.prems mset_eq_setD [OF Cons.prems(1)] by auto
  then have "bgp_join qs = bgp_join (r # remove1 r qs)" by (rule bgp_join_remove1 [rotated])
  moreover have "bgp_join rs = bgp_join (remove1 r qs)" using Cons.prems by (intro Cons.IH) (auto simp flip: Cons.prems(1))
  ultimately show ?case by simp
qed simp

section \<open>Filters and dropped columns\<close>

definition view :: "string set \<Rightarrow> ('t sol \<Rightarrow> bool) \<Rightarrow> 't sol multiset \<Rightarrow> 't sol multiset" where
  "view K P A = image_mset (\<lambda>e. e |` K) (filter_mset P A)"

text \<open>A test that looks at the columns in \<open>N\<close> only.\<close>

definition local_to :: "string set \<Rightarrow> ('t sol \<Rightarrow> bool) \<Rightarrow> bool" where
  "local_to N P \<longleftrightarrow> (\<forall>a b. (\<forall>n \<in> N. a n = b n) \<longrightarrow> P a = P b)"

lemma view_view: "local_to K' Q \<Longrightarrow> K' \<subseteq> K \<Longrightarrow> J \<subseteq> K \<Longrightarrow> view J Q (view K P A) = view J (\<lambda>e. P e \<and> Q e) A"
proof -
  assume a: "local_to K' Q" "K' \<subseteq> K" "J \<subseteq> K"
  have "Q (e |` K) = Q e" for e using a(1,2) unfolding local_to_def by (auto simp: subset_iff)
  moreover have "(e |` K) |` J = e |` J" for e :: "'a sol" using a(3) by (simp add: inf.absorb2)
  ultimately show ?thesis
    by (simp add: view_def filter_mset_image_mset filter_filter_mset image_mset.compositionality comp_def conj_commute)
qed

lemma njoin_view:
  assumes A: "sols_on N A" and B: "sols_on M B" and K: "K \<subseteq> N" "J \<subseteq> M" and shared: "N \<inter> M \<subseteq> K \<inter> J"
    and P: "local_to N P" and Q: "local_to M Q"
  shows "njoin K (view K P A) J (view J Q B) = view (K \<union> J) (\<lambda>e. P e \<and> Q e) (njoin N A M B)"
proof -
  have KJ: "K \<inter> J = N \<inter> M" using K shared by blast
  have "(if P a then if Q b then if agree (K \<inter> J) (a |` K) (b |` J) then {#(a |` K) ++ (b |` J)#} else {#} else {#} else {#}) =
      image_mset (\<lambda>e. e |` (K \<union> J)) (filter_mset (\<lambda>e. P e \<and> Q e) (if agree (N \<inter> M) a b then {#a ++ b#} else {#}))"
    if "a \<in># A" "b \<in># B" for a b
  proof -
    have dom: "dom a \<subseteq> N" "dom b \<subseteq> M" using A B that by (auto simp: sols_on_def)
    have "(a |` K) n = a n \<and> (b |` J) n = b n" if "n \<in> N \<inter> M" for n using shared that by (auto simp: restrict_map_def)
    then have ag: "agree (K \<inter> J) (a |` K) (b |` J) \<longleftrightarrow> agree (N \<inter> M) a b" unfolding agree_def KJ by simp
    moreover have "P (a ++ b) = P a \<and> Q (a ++ b) = Q b \<and> (a |` K) ++ (b |` J) = (a ++ b) |` (K \<union> J)" if ag: "agree (N \<inter> M) a b"
    proof (intro conjI)
      show "P (a ++ b) = P a" using P add_agree [OF ag dom] unfolding local_to_def by blast
      show "Q (a ++ b) = Q b" using Q add_agree_right [OF dom ag] unfolding local_to_def by blast
      show "(a |` K) ++ (b |` J) = (a ++ b) |` (K \<union> J)"
      proof
        fix n
        have "n \<in> J \<Longrightarrow> n \<notin> K \<Longrightarrow> n \<notin> N" "n \<in> K \<Longrightarrow> n \<notin> J \<Longrightarrow> n \<notin> M" using K shared by auto
        then have "n \<in> J \<Longrightarrow> n \<notin> K \<Longrightarrow> a n = None" "n \<in> K \<Longrightarrow> n \<notin> J \<Longrightarrow> b n = None" using dom by (metis domI in_mono not_None_eq)+
        then show "((a |` K) ++ (b |` J)) n = ((a ++ b) |` (K \<union> J)) n"
          by (auto simp: restrict_map_def map_add_def split: option.split)
      qed
    qed
    ultimately show ?thesis by auto
  qed
  then have each: "mbind B (\<lambda>b. if P a then if Q b then if agree (K \<inter> J) (a |` K) (b |` J) then {#(a |` K) ++ (b |` J)#} else {#} else {#} else {#}) =
      mbind B (\<lambda>b. image_mset (\<lambda>e. e |` (K \<union> J)) (filter_mset (\<lambda>e. P e \<and> Q e) (if agree (N \<inter> M) a b then {#a ++ b#} else {#})))" if "a \<in># A" for a
    using that by (intro mbind_cong HOL.refl) blast
  have pull: "(if c then mbind B f else {#}) = mbind B (\<lambda>b. if c then f b else {#})" for c and f :: "'a sol \<Rightarrow> 'a sol multiset" by simp
  show ?thesis
    unfolding njoin_def view_def mbind_image mbind_filter filter_mbind image_mbind pull by (intro mbind_cong HOL.refl each)
qed

end
