(* ===== verification/Bgp_Operators.thy ===== *)
theory Bgp_Operators
  imports Bgp_Join
begin

text \<open>
  The operators of a physical plan on solutions: the documented behaviour of DataFusion's operators
  on which the planner relies (\<open>physical_ok\<close>), what it means that a plan yields the solutions of a
  join, with some columns dropped, some decoded and some filters applied (\<open>yields\<close>), and that
  filters, projections, joins and decodings keep this.
\<close>

section \<open>Rows and solutions\<close>

definition env :: "field list \<Rightarrow> 't prow \<Rightarrow> 't sol" where
  "env s row n = (case index_of s n of Some i \<Rightarrow> row ! i | None \<Rightarrow> None)"

definition unqualified :: "'t sol \<Rightarrow> 't row" where
  "unqualified e c = (if fst c = None then e (snd c) else None)"

lemma index_of_None: "index_of s n = None \<longleftrightarrow> n \<notin> set (schema_names s)"
  unfolding index_of_def find_None_iff schema_names_def in_set_conv_nth set_map set_upt image_iff by (metis atLeastLessThan_iff nth_mem zero_le in_set_conv_nth)

lemma has_column_iff: "has_column s n \<longleftrightarrow> n \<in> set (schema_names s)"
  unfolding has_column_def by (metis index_of_None)

lemma index_of_SomeD: "index_of s n = Some i \<Longrightarrow> i < length s \<and> field_name (s ! i) = n"
  by (auto simp: index_of_def find_Some_iff)

lemma nth_schema_names: "i < length s \<Longrightarrow> schema_names s ! i = field_name (s ! i)"
  by (simp add: schema_names_def)

lemma index_of_nth:
  assumes "distinct (schema_names s)" "i < length s"
  shows "index_of s (field_name (s ! i)) = Some i"
proof -
  have "field_name (s ! i) \<in> set (schema_names s)" using assms(2) by (simp add: schema_names_def)
  then obtain j where j: "index_of s (field_name (s ! i)) = Some j" using index_of_None by blast
  from index_of_SomeD [OF this] have "i = j"
    using assms nth_eq_iff_index_eq [OF assms(1), of i j] by (simp add: nth_schema_names schema_names_def)
  then show ?thesis using j by simp
qed

lemma length_schema_names [simp]: "length (schema_names s) = length s"
  by (simp add: schema_names_def)

lemma env_nth: "distinct (schema_names s) \<Longrightarrow> i < length s \<Longrightarrow> env s row (field_name (s ! i)) = row ! i"
  by (simp add: env_def index_of_nth)

lemma env_outside: "n \<notin> set (schema_names s) \<Longrightarrow> env s row n = None"
  by (simp add: env_def index_of_None [THEN iffD2])

lemma env_dom: "dom (env s row) \<subseteq> set (schema_names s)"
proof
  fix n assume "n \<in> dom (env s row)"
  then have "env s row n \<noteq> None" by (simp add: domIff)
  then show "n \<in> set (schema_names s)" by (metis env_outside)
qed

lemma in_schema_names: "n \<in> set (schema_names s) \<longleftrightarrow> (\<exists>i < length s. n = field_name (s ! i))"
  unfolding schema_names_def set_map image_iff by (metis in_set_conv_nth)

text \<open>Selecting cells and fields by the same positions.\<close>

lemma env_select:
  assumes d: "distinct (map (\<lambda>i. field_name (s ! i)) idx)" and lt: "\<forall>i \<in> set idx. i < length s"
  shows "i \<in> set idx \<Longrightarrow> env (map ((!) s) idx) (map ((!) row) idx) (field_name (s ! i)) = row ! i"
proof -
  assume "i \<in> set idx"
  then obtain k where k: "k < length idx" "idx ! k = i" by (auto simp: in_set_conv_nth)
  have "distinct (schema_names (map ((!) s) idx))" using d by (simp add: schema_names_def comp_def)
  from env_nth [OF this, of k "map ((!) row) idx"] show ?thesis using k by simp
qed

lemma schema_names_select: "set (schema_names (map ((!) s) idx)) = (\<lambda>i. field_name (s ! i)) ` set idx"
  by (simp add: schema_names_def image_image)

section \<open>The documented behaviour of the operators\<close>

definition key_match :: "(nat \<times> nat) list \<Rightarrow> 't prow \<Rightarrow> 't prow \<Rightarrow> bool" where
  "key_match on a b \<longleftrightarrow> (\<forall>(i, j) \<in> set on. a ! i \<noteq> None \<and> a ! i = b ! j)"

definition physical_ok :: "'t PhysicalLib \<Rightarrow> bool" where
  "physical_ok L \<longleftrightarrow> expr_ok (df L) \<and>
     (\<forall>f s. distinct (schema_names s) \<and> resolves s f \<longrightarrow>
        (\<exists>p. create_physical_expr L f s = Inr p \<and> (\<forall>row. length row = length s \<longrightarrow> p row = eval_expr (df L) (unqualified (env s row)) f))) \<and>
     (\<forall>p rows. mset (run_filter L p rows) = mset (filter (\<lambda>r. p r = VBool True) rows)) \<and>
     (\<forall>idx rows. mset (run_projection L idx rows) = mset (map (\<lambda>r. map ((!) r) idx) rows)) \<and>
     (\<forall>on proj ls lr rs rr. (\<forall>(i, j) \<in> set on. field_encoding (ls ! i) = field_encoding (rs ! j)) \<longrightarrow>
        mset (run_hash_join L on proj (ls, lr) (rs, rr)) =
        mset (concat (map (\<lambda>a. map (\<lambda>b. map ((!) (a @ b)) proj) (filter (key_match on a) rr)) lr))) \<and>
     (\<forall>lr rr. mset (run_cross_join L lr rr) = mset (concat (map (\<lambda>a. map (\<lambda>b. a @ b) rr) lr))) \<and>
     (\<forall>p lr rr. mset (run_nested_loop_join L p lr rr) =
        mset (concat (map (\<lambda>a. map (\<lambda>b. a @ b) (filter (\<lambda>b. p (a @ b) = VBool True) rr)) lr)))"

lemma physical_okD:
  assumes "physical_ok L"
  shows "expr_ok (df L)"
    and "distinct (schema_names s) \<Longrightarrow> resolves s f \<Longrightarrow> \<exists>p. create_physical_expr L f s = Inr p \<and>
        (\<forall>row. length row = length s \<longrightarrow> p row = eval_expr (df L) (unqualified (env s row)) f)"
    and "mset (run_filter L p rows) = mset (filter (\<lambda>r. p r = VBool True) rows)"
    and "mset (run_projection L idx rows) = mset (map (\<lambda>r. map ((!) r) idx) rows)"
    and "(\<forall>(i, j) \<in> set on. field_encoding (ls ! i) = field_encoding (rs ! j)) \<Longrightarrow>
        mset (run_hash_join L on proj (ls, lr) (rs, rr)) =
        mset (concat (map (\<lambda>a. map (\<lambda>b. map ((!) (a @ b)) proj) (filter (key_match on a) rr)) lr))"
    and "mset (run_cross_join L lr rr) = mset (concat (map (\<lambda>a. map (\<lambda>b. a @ b) rr) lr))"
    and "mset (run_nested_loop_join L p lr rr) =
        mset (concat (map (\<lambda>a. map (\<lambda>b. a @ b) (filter (\<lambda>b. p (a @ b) = VBool True) rr)) lr))"
  using assms unfolding physical_ok_def by auto

section \<open>What a plan yields\<close>

definition holds :: "'t PhysicalLib \<Rightarrow> 't Expr \<Rightarrow> 't sol \<Rightarrow> bool" where
  "holds L f e \<longleftrightarrow> eval_expr (df L) (unqualified e) f = VBool True"

definition decoded :: "'t PhysicalLib \<Rightarrow> string set \<Rightarrow> 't sol \<Rightarrow> 't sol" where
  "decoded L D e n = (if n \<in> D then map_option (decode_id L) (e n) else e n)"

lemma decoded_empty [simp]: "decoded L {} e = e"
  by (simp add: decoded_def fun_eq_iff)

lemma decoded_dom [simp]: "dom (decoded L D e) = dom e"
  by (auto simp: decoded_def dom_def split: if_splits)

definition filter_wf :: "'t PhysicalLib \<Rightarrow> string set \<Rightarrow> 't Expr \<Rightarrow> bool" where
  "filter_wf L N f \<longleftrightarrow> df_is_boolean (df L) f \<and> (\<forall>c \<in> set (expr_columns f). fst c = None \<and> snd c \<in> N)"

abbreviation all_hold :: "'t PhysicalLib \<Rightarrow> string set \<Rightarrow> 't Expr set \<Rightarrow> 't sol \<Rightarrow> bool" where
  "all_hold L D F \<equiv> \<lambda>x. \<forall>f \<in> F. holds L f (decoded L D x)"

text \<open>The plan yields the solutions \<open>A\<close> on which the filters \<open>F\<close> hold, with the columns \<open>K\<close>, of which those in \<open>D\<close> are
  decoded. Filters speak about solutions in which the columns \<open>Z\<close> are decoded. \<open>enc\<close> are the encodings before decoding.\<close>

definition yields ::
    "'t PhysicalLib \<Rightarrow> (string \<Rightarrow> EncodingName option) \<Rightarrow> string set \<Rightarrow> 't Exec \<Rightarrow> string set \<Rightarrow> string set \<Rightarrow> 't Expr set \<Rightarrow> 't sol multiset \<Rightarrow> bool" where
  "yields L enc Z e D K F A \<longleftrightarrow>
     distinct (schema_names (exec_schema e)) \<and> set (schema_names (exec_schema e)) = K \<and>
     (\<forall>row \<in> set (run L e). length row = length (exec_schema e)) \<and>
     (\<forall>f \<in> set (exec_schema e). field_encoding f = (if field_name f \<in> D then Some PlainTerm else enc (field_name f))) \<and>
     image_mset (env (exec_schema e)) (mset (run L e)) = image_mset (\<lambda>x. decoded L D x |` K) (filter_mset (all_hold L Z F) A)"

lemma yieldsD:
  assumes "yields L enc Z e D K F A"
  shows "distinct (schema_names (exec_schema e))" "set (schema_names (exec_schema e)) = K"
    "row \<in> set (run L e) \<Longrightarrow> length row = length (exec_schema e)"
    "f \<in> set (exec_schema e) \<Longrightarrow> field_encoding f = (if field_name f \<in> D then Some PlainTerm else enc (field_name f))"
    "image_mset (env (exec_schema e)) (mset (run L e)) = image_mset (\<lambda>x. decoded L D x |` K) (filter_mset (all_hold L Z F) A)"
  using assms unfolding yields_def by blast+

lemma eval_expr_local:
  "(\<And>c. c \<in> set (expr_columns f) \<Longrightarrow> a c = b c) \<Longrightarrow> eval_expr D a f = eval_expr D b f"
proof (induction f)
  case (Function g es)
  then have "map (eval_expr D a) es = map (eval_expr D b) es" by (intro map_cong HOL.refl) auto
  then show ?case by (simp del: map_eq_conv)
qed auto

lemma holds_cong: "(\<And>n. n \<in> set (column_names f) \<Longrightarrow> a n = b n) \<Longrightarrow> holds L f a = holds L f b"
  unfolding holds_def
  by (intro arg_cong [where f = "\<lambda>v. v = VBool True"] eval_expr_local) (auto simp: unqualified_def column_names_def)

lemma filter_wf_names: "filter_wf L N f \<Longrightarrow> set (column_names f) \<subseteq> N"
  by (auto simp: filter_wf_def column_names_def)

lemma filter_wf_mono: "filter_wf L N f \<Longrightarrow> set (column_names f) \<subseteq> M \<Longrightarrow> filter_wf L M f"
  by (auto simp: filter_wf_def column_names_def)

lemma filter_wf_resolves: "filter_wf L (set (schema_names s)) f \<Longrightarrow> resolves s f"
  by (auto simp: filter_wf_def resolves_def)

lemma all_hold_local: "\<forall>f \<in> F. set (column_names f) \<subseteq> N \<Longrightarrow> local_to N (all_hold L Z F)"
  unfolding local_to_def
proof (intro allI impI)
  fix a b :: "'a sol" assume F: "\<forall>f \<in> F. set (column_names f) \<subseteq> N" and ab: "\<forall>n \<in> N. a n = b n"
  have "holds L f (decoded L Z a) = holds L f (decoded L Z b)" if "f \<in> F" for f
  proof (rule holds_cong)
    fix n assume "n \<in> set (column_names f)"
    then have "a n = b n" using F ab that by blast
    then show "decoded L Z a n = decoded L Z b n" by (simp add: decoded_def)
  qed
  then show "all_hold L Z F a = all_hold L Z F b" by blast
qed

section \<open>Filters\<close>

lemma filter_step:
  assumes L: "physical_ok L" and y: "yields L enc Z e D K F A" and wf: "filter_wf L K f"
    and dec: "set (column_names f) \<inter> Z \<subseteq> D" "D \<subseteq> Z"
  shows "\<exists>p. create_physical_expr L f (exec_schema e) = Inr p \<and> filter_try_new L f p e = Inr (FilterExec p e) \<and>
    yields L enc Z (FilterExec p e) D K (insert f F) A"
proof -
  let ?s = "exec_schema e"
  note y' = yieldsD [OF y]
  have res: "resolves ?s f" using wf by (intro filter_wf_resolves [of L]) (simp add: y'(2))
  obtain p where p: "create_physical_expr L f ?s = Inr p" "\<And>row. length row = length ?s \<Longrightarrow> p row = eval_expr (df L) (unqualified (env ?s row)) f"
    using physical_okD(2) [OF L y'(1) res] by blast
  have rows: "mset (run L (FilterExec p e)) = filter_mset (\<lambda>r. p r = VBool True) (mset (run L e))" using physical_okD(3) [OF L] by simp
  have set_rows: "set_mset (mset (run L (FilterExec p e))) \<subseteq> set (run L e)" unfolding rows by auto
  have pr: "p row = VBool True \<longleftrightarrow> holds L f (env ?s row)" if "row \<in># mset (run L e)" for row
    using p(2) y'(3) that by (simp add: holds_def)
  have h: "holds L f (decoded L D x |` K) \<longleftrightarrow> holds L f (decoded L Z x)" for x
    using filter_wf_names [OF wf] dec by (intro holds_cong) (auto simp: decoded_def restrict_map_def)
  have eq: "filter_mset (\<lambda>r. p r = VBool True) (mset (run L e)) = filter_mset (\<lambda>r. holds L f (env ?s r)) (mset (run L e))"
    using pr by (intro filter_mset_cong HOL.refl)
  have "image_mset (env ?s) (mset (run L (FilterExec p e))) = filter_mset (holds L f) (image_mset (env ?s) (mset (run L e)))"
    unfolding rows eq by (simp add: filter_mset_image_mset)
  also have "\<dots> = image_mset (\<lambda>x. decoded L D x |` K) (filter_mset (\<lambda>x. all_hold L Z F x \<and> holds L f (decoded L Z x)) A)"
    unfolding y'(5) filter_mset_image_mset filter_filter_mset h by (simp add: conj_commute)
  also have "(\<lambda>x. all_hold L Z F x \<and> holds L f (decoded L Z x)) = all_hold L Z (insert f F)" by auto
  finally have "yields L enc Z (FilterExec p e) D K (insert f F) A"
    using y'(1-4) set_rows by (auto simp: yields_def)
  moreover have "filter_try_new L f p e = Inr (FilterExec p e)" using wf by (simp add: filter_try_new_def filter_wf_def)
  ultimately show ?thesis using p(1) by blast
qed

lemma apply_filters_ok:
  assumes L: "physical_ok L" and D: "D \<subseteq> Z"
  shows "yields L enc Z e D K F A \<Longrightarrow> \<forall>f \<in> set fs. filter_wf L K f \<and> set (column_names f) \<inter> Z \<subseteq> D \<Longrightarrow>
    \<exists>e'. apply_filters L fs e = Inr e' \<and> exec_schema e' = exec_schema e \<and> yields L enc Z e' D K (set fs \<union> F) A"
proof (induction fs arbitrary: e F)
  case (Cons f fs)
  have f: "filter_wf L K f" "set (column_names f) \<inter> Z \<subseteq> D" using Cons.prems(2) by auto
  obtain p where p: "create_physical_expr L f (exec_schema e) = Inr p" "filter_try_new L f p e = Inr (FilterExec p e)"
    "yields L enc Z (FilterExec p e) D K (insert f F) A"
    using filter_step [OF L Cons.prems(1) f D] by blast
  obtain e' where "apply_filters L fs (FilterExec p e) = Inr e'" "exec_schema e' = exec_schema (FilterExec p e)"
    "yields L enc Z e' D K (set fs \<union> insert f F) A"
    using Cons.IH [OF p(3)] Cons.prems(2) by auto
  then show ?case using p by simp
qed simp

lemma filter_ready_iff:
  "filter_ready o1 s cols f \<longleftrightarrow> set (column_names f) \<subseteq> set (schema_names s) \<and> \<not> (o1 \<and> set (column_names f) \<inter> set (map snd cols) \<noteq> {})"
  by (auto simp: filter_ready_def list_all_iff list_ex_iff has_column_iff)

lemma apply_ready_ok:
  assumes L: "physical_ok L" and D: "D \<subseteq> Z" and y: "yields L enc Z e D K F A" and wf: "\<forall>f \<in> set pending. filter_wf L N f"
    and Z: "\<And>f. f \<in> set pending \<Longrightarrow> filter_ready o1 (exec_schema e) cols f \<Longrightarrow> set (column_names f) \<inter> Z \<subseteq> D"
  shows "\<exists>e' G rest. apply_ready_filters L o1 e pending cols = Inr (e', rest) \<and> exec_schema e' = exec_schema e \<and>
    yields L enc Z e' D K (G \<union> F) A \<and> G \<union> set rest = set pending \<and> (\<forall>f \<in> G. set (column_names f) \<subseteq> K) \<and>
    rest = filter (\<lambda>f. \<not> filter_ready o1 (exec_schema e) cols f) pending"
proof -
  let ?r = "filter_ready o1 (exec_schema e) cols"
  have K: "set (schema_names (exec_schema e)) = K" using yieldsD(2) [OF y] .
  have "\<forall>f \<in> set (filter ?r pending). filter_wf L K f \<and> set (column_names f) \<inter> Z \<subseteq> D"
    using wf Z K filter_wf_mono [of L N _ K] by (simp add: filter_ready_iff)
  from apply_filters_ok [OF L D y this] obtain e' where e': "apply_filters L (filter ?r pending) e = Inr e'" "exec_schema e' = exec_schema e"
    "yields L enc Z e' D K (set (filter ?r pending) \<union> F) A" by blast
  show ?thesis
    by (rule exI [of _ e'], rule exI [of _ "set (filter ?r pending)"], rule exI [of _ "filter (\<lambda>f. \<not> ?r f) pending"])
      (use e' K in \<open>auto simp: apply_ready_filters_def filter_ready_iff\<close>)
qed

section \<open>Projections\<close>

lemma select_step:
  assumes y: "yields L enc Z e D K F A" and d: "distinct (map (\<lambda>i. field_name (exec_schema e ! i)) idx)" and lt: "\<forall>i \<in> set idx. i < length (exec_schema e)"
    and s': "exec_schema e' = map ((!) (exec_schema e)) idx" and rows: "mset (run L e') = mset (map (\<lambda>r. map ((!) r) idx) (run L e))"
  shows "yields L enc Z e' D ((\<lambda>i. field_name (exec_schema e ! i)) ` set idx) F A"
proof -
  let ?s = "exec_schema e" and ?J = "(\<lambda>i. field_name (exec_schema e ! i)) ` set idx"
  note y' = yieldsD [OF y]
  have env: "env (exec_schema e') (map ((!) r) idx) = env ?s r |` ?J" for r
  proof
    fix n show "env (exec_schema e') (map ((!) r) idx) n = (env ?s r |` ?J) n"
    proof (cases "n \<in> ?J")
      case True
      then obtain i where i: "i \<in> set idx" "n = field_name (?s ! i)" by blast
      then show ?thesis using env_select [OF d lt i(1)] env_nth [OF y'(1), of i r] lt True by (simp add: s')
    next
      case False
      then show ?thesis using env_outside [of n "exec_schema e'"] schema_names_select [of ?s idx] by (simp add: s')
    qed
  qed
  have J: "?J \<subseteq> K" using lt unfolding y'(2) [symmetric] by (auto simp: schema_names_def)
  have "image_mset (env (exec_schema e')) (mset (run L e')) = image_mset (\<lambda>x. x |` ?J) (image_mset (env ?s) (mset (run L e)))"
    unfolding rows by (simp add: env image_mset.compositionality comp_def)
  also have "\<dots> = image_mset (\<lambda>x. decoded L D x |` ?J) (filter_mset (all_hold L Z F) A)"
    unfolding y'(5) using J by (simp add: image_mset.compositionality comp_def inf.absorb2)
  finally show ?thesis
    using y'(4) lt d mset_eq_setD [OF rows]
    unfolding yields_def by (auto simp: s' schema_names_def comp_def)
qed

lemma upt_distinct_names: "distinct (schema_names s) \<Longrightarrow> distinct (map (\<lambda>i. field_name (s ! i)) (filter P [0..<length s]))"
proof -
  assume "distinct (schema_names s)"
  then have "inj_on (\<lambda>i. field_name (s ! i)) {0..<length s}"
    by (auto simp: inj_on_def nth_schema_names [symmetric] nth_eq_iff_index_eq)
  then show ?thesis by (auto simp: distinct_map intro: inj_on_subset)
qed

lemma needed_projection_step:
  assumes L: "physical_ok L" and y: "yields L enc Z e D K F A"
  shows "yields L enc Z (ProjectionExec (needed_projection needed (exec_schema e)) e) D (K \<inter> set needed) F A"
proof -
  let ?s = "exec_schema e" and ?idx = "filter (\<lambda>i. field_name (exec_schema e ! i) \<in> set needed) [0..<length (exec_schema e)]"
  have "(\<lambda>i. field_name (?s ! i)) ` set ?idx = K \<inter> set needed" using yieldsD(2) [OF y] by (auto simp: in_schema_names)
  moreover have "yields L enc Z (ProjectionExec (needed_projection needed ?s) e) D ((\<lambda>i. field_name (?s ! i)) ` set ?idx) F A"
    using physical_okD(4) [OF L] upt_distinct_names [OF yieldsD(1) [OF y]]
    by (intro select_step [OF y]) (simp_all add: needed_projection_def comp_def)
  ultimately show ?thesis by simp
qed

section \<open>Joins\<close>

lemma yields_plain:
  "yields L enc Z e {} K F A \<Longrightarrow> image_mset (env (exec_schema e)) (mset (run L e)) = view K (all_hold L Z F) A"
  by (simp add: yields_def view_def)

lemma key_match_agree:
  assumes "distinct (schema_names l)" "distinct (schema_names r)"
  shows "key_match (join_on l r) a b \<longleftrightarrow> agree (set (schema_names l) \<inter> set (schema_names r)) (env l a) (env r b)"
proof -
  have e: "env s x n = x ! the (index_of s n)" if "n \<in> set (schema_names s)" for s x and n :: string
  proof -
    obtain i where "index_of s n = Some i" using \<open>n \<in> set (schema_names s)\<close> index_of_None [of s n] by (cases "index_of s n") auto
    then show ?thesis by (simp add: env_def)
  qed
  have "key_match (join_on l r) a b \<longleftrightarrow> (\<forall>f \<in> set l. field_name f \<in> set (schema_names r) \<longrightarrow>
      a ! the (index_of l (field_name f)) \<noteq> None \<and> a ! the (index_of l (field_name f)) = b ! the (index_of r (field_name f)))"
    unfolding key_match_def join_on_def has_column_iff set_map set_filter by auto
  also have "\<dots> \<longleftrightarrow> (\<forall>f \<in> set l. field_name f \<in> set (schema_names r) \<longrightarrow>
      env l a (field_name f) \<noteq> None \<and> env l a (field_name f) = env r b (field_name f))"
  proof -
    have "field_name f \<in> set (schema_names l)" if "f \<in> set l" for f using that by (simp add: schema_names_def)
    then show ?thesis using e by metis
  qed
  also have "\<dots> \<longleftrightarrow> agree (set (schema_names l) \<inter> set (schema_names r)) (env l a) (env r b)"
    unfolding agree_def schema_names_def [of l] by auto
  finally show ?thesis .
qed

lemma names_where: "(\<lambda>i. field_name (s ! i)) ` {i. i < length s \<and> P (field_name (s ! i))} = {n \<in> set (schema_names s). P n}"
  by (auto simp: in_schema_names)

lemma join_projection_names:
  "(\<lambda>i. field_name ((l @ r) ! i)) ` set (join_projection needed l r) = (set (schema_names l) \<union> set (schema_names r)) \<inter> set needed"
  "\<forall>i \<in> set (join_projection needed l r). i < length (l @ r)"
proof -
  show "\<forall>i \<in> set (join_projection needed l r). i < length (l @ r)" by (auto simp: join_projection_def)
  have "(\<lambda>i. field_name ((l @ r) ! i)) ` set (join_projection needed l r) =
      (\<lambda>i. field_name (l ! i)) ` {i. i < length l \<and> field_name (l ! i) \<in> set needed} \<union>
      (\<lambda>i. field_name (r ! i)) ` {i. i < length r \<and> field_name (r ! i) \<notin> set (schema_names l) \<and> field_name (r ! i) \<in> set needed}"
    unfolding join_projection_def set_append image_Un set_map image_image
    by (intro arg_cong2 [where f = "(\<union>)"] image_cong) (auto simp: nth_append has_column_iff)
  also have "\<dots> = (set (schema_names l) \<union> set (schema_names r)) \<inter> set needed"
    using names_where [of l "\<lambda>n. n \<in> set needed"] names_where [of r "\<lambda>n. n \<notin> set (schema_names l) \<and> n \<in> set needed"] by auto
  finally show "(\<lambda>i. field_name ((l @ r) ! i)) ` set (join_projection needed l r) = (set (schema_names l) \<union> set (schema_names r)) \<inter> set needed" .
qed

lemma join_projection_distinct:
  assumes "distinct (schema_names l)" "distinct (schema_names r)"
  shows "distinct (map (\<lambda>i. field_name ((l @ r) ! i)) (join_projection needed l r))"
proof -
  have "map (\<lambda>i. field_name ((l @ r) ! i)) (join_projection needed l r) =
      map (\<lambda>i. field_name (l ! i)) (filter (\<lambda>i. field_name (l ! i) \<in> set needed) [0..<length l]) @
      map (\<lambda>i. field_name (r ! i)) (filter (\<lambda>i. \<not> has_column l (field_name (r ! i)) \<and> field_name (r ! i) \<in> set needed) [0..<length r])"
    by (simp add: join_projection_def nth_append)
  moreover have "field_name (l ! i) \<in> set (schema_names l)" if "i < length l" for i using that by (simp add: schema_names_def)
  ultimately show ?thesis using upt_distinct_names [OF assms(1)] upt_distinct_names [OF assms(2)] by (auto simp: has_column_iff) metis
qed

lemma env_joined:
  assumes "distinct (schema_names l)" "distinct (schema_names r)" "length a = length l"
    and ag: "agree (set (schema_names l) \<inter> set (schema_names r)) (env l a) (env r b)"
  shows "env (map ((!) (l @ r)) (join_projection needed l r)) (map ((!) (a @ b)) (join_projection needed l r)) =
    (env l a ++ env r b) |` ((set (schema_names l) \<union> set (schema_names r)) \<inter> set needed)"
proof
  fix n
  let ?idx = "join_projection needed l r" and ?J = "(set (schema_names l) \<union> set (schema_names r)) \<inter> set needed"
  note names = join_projection_names [where l = l and r = r and needed = needed]
  show "env (map ((!) (l @ r)) ?idx) (map ((!) (a @ b)) ?idx) n = ((env l a ++ env r b) |` ?J) n"
  proof (cases "n \<in> ?J")
    case True
    then obtain i where i: "i \<in> set ?idx" "n = field_name ((l @ r) ! i)" using names(1) by (auto simp: image_iff)
    note sel = env_select [OF join_projection_distinct [OF assms(1,2)] names(2) i(1), of "a @ b"]
    have "(env l a ++ env r b) n = (a @ b) ! i"
    proof (cases "i < length l")
      case l: True
      then have "n = field_name (l ! i)" using i(2) by (simp add: nth_append)
      then show ?thesis
        using add_agree [OF ag env_dom env_dom, of n] env_nth [OF assms(1) l, of a] l assms(3) by (simp add: nth_append schema_names_def)
    next
      case False
      then have n: "n = field_name (r ! (i - length l))" "i - length l < length r" using i(2) names(2) i(1) by (auto simp: nth_append)
      then have "n \<in> set (schema_names r)" by (simp add: schema_names_def)
      then show ?thesis
        using add_agree_right [OF env_dom env_dom ag, of n] env_nth [OF assms(2) n(2), of b] n(1) False assms(3) by (simp add: nth_append)
    qed
    then show ?thesis using sel i(2) True by simp
  next
    case False
    then have "n \<notin> set (schema_names (map ((!) (l @ r)) ?idx))" unfolding schema_names_select names(1) .
    then show ?thesis using False by (simp add: env_outside)
  qed
qed

lemma mset_join_rows:
  "mset (concat (map (\<lambda>a. map (f a) (filter (P a) rr)) lr)) = mbind (mset lr) (\<lambda>a. mbind (mset rr) (\<lambda>b. if P a b then {#f a b#} else {#}))"
proof -
  have "mset (map (f a) (filter (P a) rr)) = mbind (mset rr) (\<lambda>b. if P a b then {#f a b#} else {#})" for a
    by (induction rr) auto
  then show ?thesis by (simp add: mset_concat_map)
qed

text \<open>A join that pairs the rows that agree and keeps the columns \<open>H\<close>.\<close>

lemma join_yields:
  assumes yl: "yields L enc Z l {} K F A" and yr: "yields L enc Z r {} J G B"
    and on: "sols_on N A" "sols_on M B" "K \<subseteq> N" "J \<subseteq> M" "N \<inter> M \<subseteq> K \<inter> J"
    and cols: "\<forall>f \<in> F. set (column_names f) \<subseteq> N" "\<forall>f \<in> G. set (column_names f) \<subseteq> M"
    and s': "distinct (schema_names (exec_schema e))" "set (schema_names (exec_schema e)) = H" "H \<subseteq> K \<union> J"
      "set (exec_schema e) \<subseteq> set (exec_schema l) \<union> set (exec_schema r)"
    and rows: "mset (run L e) = mbind (mset (run L l)) (\<lambda>a. mbind (mset (run L r)) (\<lambda>b. if P a b then {#f a b#} else {#}))"
    and f: "\<And>a b. a \<in> set (run L l) \<Longrightarrow> b \<in> set (run L r) \<Longrightarrow> P a b \<longleftrightarrow> agree (K \<inter> J) (env (exec_schema l) a) (env (exec_schema r) b)"
      "\<And>a b. a \<in> set (run L l) \<Longrightarrow> b \<in> set (run L r) \<Longrightarrow> P a b \<Longrightarrow> length (f a b) = length (exec_schema e) \<and>
        env (exec_schema e) (f a b) = (env (exec_schema l) a ++ env (exec_schema r) b) |` H"
  shows "yields L enc Z e {} H (F \<union> G) (njoin N A M B)"
proof -
  let ?env = "env (exec_schema e)" and ?l = "env (exec_schema l)" and ?r = "env (exec_schema r)"
  have cell: "image_mset ?env (if P a b then {#f a b#} else {#}) =
      image_mset (\<lambda>x. x |` H) (if agree (K \<inter> J) (?l a) (?r b) then {#?l a ++ ?r b#} else {#})"
    if "a \<in># mset (run L l)" "b \<in># mset (run L r)" for a b
    using f [of a b] that by simp
  have "image_mset ?env (mset (run L e)) = mbind (mset (run L l)) (\<lambda>a. mbind (mset (run L r)) (\<lambda>b.
      image_mset (\<lambda>x. x |` H) (if agree (K \<inter> J) (?l a) (?r b) then {#?l a ++ ?r b#} else {#})))"
    unfolding rows image_mbind by (intro mbind_cong HOL.refl cell)
  also have "\<dots> = image_mset (\<lambda>x. x |` H) (njoin K (image_mset ?l (mset (run L l))) J (image_mset ?r (mset (run L r))))"
    unfolding njoin_def image_mbind mbind_image ..
  also have "\<dots> = image_mset (\<lambda>x. x |` H) (view (K \<union> J) (\<lambda>e. all_hold L Z F e \<and> all_hold L Z G e) (njoin N A M B))"
    unfolding yields_plain [OF yl] yields_plain [OF yr] using njoin_view [OF on all_hold_local [OF cols(1)] all_hold_local [OF cols(2)]] by simp
  also have "\<dots> = view H (\<lambda>e. all_hold L Z F e \<and> all_hold L Z G e) (njoin N A M B)"
    using s'(3) by (simp add: view_def image_mset.compositionality comp_def inf.absorb2)
  also have "(\<lambda>e. all_hold L Z F e \<and> all_hold L Z G e) = all_hold L Z (F \<union> G)" by auto
  finally have sols: "image_mset ?env (mset (run L e)) = image_mset (\<lambda>x. decoded L {} x |` H) (filter_mset (all_hold L Z (F \<union> G)) (njoin N A M B))"
    by (simp add: view_def)
  have "length row = length (exec_schema e)" if "row \<in> set (run L e)" for row
  proof -
    have "row \<in># mset (run L e)" using that by simp
    then show ?thesis unfolding rows using f(2) by (auto simp: in_mbind split: if_splits)
  qed
  then show ?thesis using s'(1,2,4) sols yieldsD(4) [OF yl] yieldsD(4) [OF yr] unfolding yields_def by blast
qed

lemma hash_join_step:
  assumes L: "physical_ok L" and yl: "yields L enc Z l {} K F A" and yr: "yields L enc Z r {} J G B"
    and on: "sols_on N A" "sols_on M B" "K \<subseteq> N" "J \<subseteq> M" "N \<inter> M \<subseteq> K \<inter> J"
    and cols: "\<forall>f \<in> F. set (column_names f) \<subseteq> N" "\<forall>f \<in> G. set (column_names f) \<subseteq> M"
  shows "yields L enc Z (HashJoinExec l r (join_on (exec_schema l) (exec_schema r)) (join_projection needed (exec_schema l) (exec_schema r)) mode) {}
    ((K \<union> J) \<inter> set needed) (F \<union> G) (njoin N A M B)"
    (is "yields L enc Z ?e {} ?H (F \<union> G) _")
proof (rule join_yields [OF yl yr on cols])
  let ?ls = "exec_schema l" and ?rs = "exec_schema r"
  let ?proj = "join_projection needed ?ls ?rs"
  note l = yieldsD [OF yl] and r = yieldsD [OF yr]
  note names = join_projection_names [where l = ?ls and r = ?rs and needed = needed]
  have enc: "\<forall>(i, j) \<in> set (join_on ?ls ?rs). field_encoding (?ls ! i) = field_encoding (?rs ! j)"
  proof -
    have "field_encoding (?ls ! the (index_of ?ls n)) = field_encoding (?rs ! the (index_of ?rs n))"
      if n: "n \<in> set (schema_names ?ls)" "n \<in> set (schema_names ?rs)" for n
    proof -
      obtain i j where "index_of ?ls n = Some i" "index_of ?rs n = Some j" using n index_of_None by (metis not_None_eq)
      then show ?thesis using index_of_SomeD [of ?ls n i] index_of_SomeD [of ?rs n j] l(4) [of "?ls ! i"] r(4) [of "?rs ! j"] by simp
    qed
    then show ?thesis by (auto simp: join_on_def has_column_iff schema_names_def)
  qed
  show "mset (run L ?e) = mbind (mset (run L l)) (\<lambda>a. mbind (mset (run L r)) (\<lambda>b.
      if key_match (join_on ?ls ?rs) a b then {#map ((!) (a @ b)) ?proj#} else {#}))"
    using physical_okD(5) [OF L enc] by (simp add: mset_join_rows)
  show "key_match (join_on ?ls ?rs) a b \<longleftrightarrow> agree (K \<inter> J) (env ?ls a) (env ?rs b)" for a b
    using key_match_agree [OF l(1) r(1)] l(2) r(2) by simp
  show "length (map ((!) (a @ b)) ?proj) = length (exec_schema ?e) \<and> env (exec_schema ?e) (map ((!) (a @ b)) ?proj) = (env ?ls a ++ env ?rs b) |` ?H"
    if "a \<in> set (run L l)" "key_match (join_on ?ls ?rs) a b" for a b
  proof -
    have "agree (set (schema_names ?ls) \<inter> set (schema_names ?rs)) (env ?ls a) (env ?rs b)" using that(2) key_match_agree [OF l(1) r(1)] by blast
    from env_joined [OF l(1) r(1) l(3) [OF that(1)] this, of needed] show ?thesis using l(2) r(2) by simp
  qed
  show "distinct (schema_names (exec_schema ?e))"
    using join_projection_distinct [OF l(1) r(1), of needed] by (simp add: schema_names_def comp_def)
  show "set (schema_names (exec_schema ?e)) = ?H" using names(1) l(2) r(2) by (simp add: schema_names_def image_image)
  show "set (exec_schema ?e) \<subseteq> set ?ls \<union> set ?rs" using names(2) by (auto simp: nth_append)
qed blast

lemma restrict_dom: "dom e \<subseteq> K \<Longrightarrow> e |` K = e"
  unfolding restrict_map_def by (rule ext) (metis domIff subsetD)

lemma env_append:
  assumes "set (schema_names l) \<inter> set (schema_names r) = {}" "length a = length l" "distinct (schema_names l)" "distinct (schema_names r)"
  shows "env (l @ r) (a @ b) = env l a ++ env r b"
proof
  fix n
  have d: "distinct (schema_names (l @ r))" using assms by (simp add: schema_names_def)
  have ag: "agree (set (schema_names l) \<inter> set (schema_names r)) (env l a) (env r b)" using assms(1) by (simp add: agree_def)
  consider i where "i < length l" "n = field_name (l ! i)" | i where "i < length r" "n = field_name (r ! i)" | "n \<notin> set (schema_names (l @ r))"
    using in_schema_names [of n l] in_schema_names [of n r] by (auto simp: schema_names_def)
  then show "env (l @ r) (a @ b) n = (env l a ++ env r b) n"
  proof cases
    case (1 i)
    then show ?thesis using env_nth [OF d, of i "a @ b"] env_nth [OF assms(3), of i a] add_agree [OF ag env_dom env_dom, of n] assms(2)
      by (simp add: nth_append schema_names_def)
  next
    case (2 i)
    then show ?thesis using env_nth [OF d, of "length l + i" "a @ b"] env_nth [OF assms(4), of i b] add_agree_right [OF env_dom env_dom ag, of n] assms(2)
      by (simp add: nth_append schema_names_def)
  next
    case 3
    then have "n \<notin> set (schema_names l)" "n \<notin> set (schema_names r)" by (simp_all add: schema_names_def)
    then show ?thesis using 3 by (simp add: env_outside map_add_def)
  qed
qed

lemma cross_rows_step:
  assumes L: "physical_ok L" and yl: "yields L enc Z l {} K F A" and yr: "yields L enc Z r {} J G B"
    and on: "sols_on N A" "sols_on M B" "K \<subseteq> N" "J \<subseteq> M" "N \<inter> M \<subseteq> K \<inter> J" and disj: "K \<inter> J = {}"
    and cols: "\<forall>f \<in> F. set (column_names f) \<subseteq> N" "\<forall>f \<in> G. set (column_names f) \<subseteq> M"
  shows "yields L enc Z (CrossJoinExec l r) {} (K \<union> J) (F \<union> G) (njoin N A M B)"
proof (rule join_yields [OF yl yr on cols])
  note l = yieldsD [OF yl] and r = yieldsD [OF yr]
  show "mset (run L (CrossJoinExec l r)) = mbind (mset (run L l)) (\<lambda>a. mbind (mset (run L r)) (\<lambda>b. if True then {#a @ b#} else {#}))"
    using physical_okD(6) [OF L, of "run L l" "run L r"] mset_join_rows [of "\<lambda>a b. a @ b" "\<lambda>_ _. True"] by simp
  show "True \<longleftrightarrow> agree (K \<inter> J) (env (exec_schema l) a) (env (exec_schema r) b)" for a b using disj by (simp add: agree_def)
  show "length (a @ b) = length (exec_schema (CrossJoinExec l r)) \<and>
      env (exec_schema (CrossJoinExec l r)) (a @ b) = (env (exec_schema l) a ++ env (exec_schema r) b) |` (K \<union> J)"
    if "a \<in> set (run L l)" "b \<in> set (run L r)" for a b
  proof -
    have "dom (env (exec_schema l) a ++ env (exec_schema r) b) \<subseteq> K \<union> J" using env_dom [of "exec_schema l" a] env_dom [of "exec_schema r" b] l(2) r(2) by auto
    then have "(env (exec_schema l) a ++ env (exec_schema r) b) |` (K \<union> J) = env (exec_schema l) a ++ env (exec_schema r) b"
      by (rule restrict_dom)
    then show ?thesis using env_append [OF _ l(3) l(1) r(1), of a b] l r that disj by simp
  qed
  show "distinct (schema_names (exec_schema (CrossJoinExec l r)))" "set (schema_names (exec_schema (CrossJoinExec l r))) = K \<union> J"
    using l(1,2) r(1,2) disj by (auto simp: schema_names_def)
qed simp_all

lemma reduce_conjunction_holds:
  assumes L: "physical_ok L" and red: "reduce_conjunction fs = Some c" and wf: "\<forall>f \<in> set fs. filter_wf L N f"
  shows "holds L c x \<longleftrightarrow> (\<forall>f \<in> set fs. holds L f x)" "\<forall>k \<in> set (expr_columns c). fst k = None \<and> snd k \<in> N"
    "set (column_names c) = \<Union> (set ` column_names ` set fs)"
proof -
  obtain f gs where fs: "fs = f # gs" "c = foldl EAnd f gs" using red by (cases fs) auto
  have "is_truth (eval_expr (df L) r g)" if "g \<in> set fs" for g r
    using wf that expr_okD(7) [OF physical_okD(1) [OF L]] by (auto simp: filter_wf_def)
  then show "holds L c x \<longleftrightarrow> (\<forall>f \<in> set fs. holds L f x)"
    using foldl_and_true [OF physical_okD(1) [OF L], of "unqualified x" f gs] by (simp add: fs holds_def)
  have "set (expr_columns (foldl EAnd f gs)) = \<Union> (set ` expr_columns ` set (f # gs))" for f :: "'a Expr"
    by (induction gs arbitrary: f) auto
  then show "\<forall>k \<in> set (expr_columns c). fst k = None \<and> snd k \<in> N" "set (column_names c) = \<Union> (set ` column_names ` set fs)"
    using wf by (auto simp: fs filter_wf_def column_names_def)
qed

lemma nested_loop_step:
  assumes L: "physical_ok L" and y: "yields L enc Z (CrossJoinExec l r) {} K F A"
    and red: "reduce_conjunction fs = Some c" and wf: "\<forall>f \<in> set fs. filter_wf L K f" and Z: "\<forall>f \<in> set fs. set (column_names f) \<inter> Z = {}"
  shows "\<exists>p. create_physical_expr L c (exec_schema l @ exec_schema r) = Inr p \<and> yields L enc Z (NestedLoopJoinExec l r p) {} K (set fs \<union> F) A"
proof -
  let ?e = "CrossJoinExec l r" and ?s = "exec_schema l @ exec_schema r"
  note y' = yieldsD [OF y] and c = reduce_conjunction_holds [OF L red wf]
  have "resolves ?s c" using c(2) y'(2) by (simp add: resolves_def)
  then obtain p where p: "create_physical_expr L c ?s = Inr p" "\<And>row. length row = length ?s \<Longrightarrow> p row = eval_expr (df L) (unqualified (env ?s row)) c"
    using physical_okD(2) [OF L, of ?s c] y'(1) by auto
  have rows: "mset (run L (NestedLoopJoinExec l r p)) = filter_mset (\<lambda>r. p r = VBool True) (mset (run L ?e))"
  proof -
    have "concat (map (\<lambda>a. map (\<lambda>b. a @ b) (filter (\<lambda>b. p (a @ b) = VBool True) (run L r))) (run L l)) =
        filter (\<lambda>r. p r = VBool True) (concat (map (\<lambda>a. map (\<lambda>b. a @ b) (run L r)) (run L l)))"
      by (simp add: filter_concat filter_map comp_def)
    then show ?thesis unfolding run.simps physical_okD(6,7) [OF L] by simp
  qed
  have "p row = VBool True \<longleftrightarrow> (\<forall>f \<in> set fs. holds L f (env ?s row))" if "row \<in># mset (run L ?e)" for row
    using p(2) y'(3) [of row] that c(1) by (simp add: holds_def)
  then have eq: "filter_mset (\<lambda>r. p r = VBool True) (mset (run L ?e)) = filter_mset (\<lambda>r. \<forall>f \<in> set fs. holds L f (env ?s r)) (mset (run L ?e))"
    by (intro filter_mset_cong HOL.refl)
  have h: "(\<forall>f \<in> set fs. holds L f (x |` K)) \<longleftrightarrow> all_hold L Z (set fs) x" for x
  proof -
    have "holds L f (x |` K) = holds L f (decoded L Z x)" if "f \<in> set fs" for f
      using filter_wf_names [of L K f] wf Z that by (intro holds_cong) (auto simp: decoded_def restrict_map_def)
    then show ?thesis by blast
  qed
  have "image_mset (env ?s) (mset (run L (NestedLoopJoinExec l r p))) = filter_mset (\<lambda>x. \<forall>f \<in> set fs. holds L f x) (image_mset (env ?s) (mset (run L ?e)))"
    unfolding rows eq by (simp add: filter_mset_image_mset)
  also have "\<dots> = image_mset (\<lambda>x. x |` K) (filter_mset (\<lambda>x. all_hold L Z F x \<and> all_hold L Z (set fs) x) A)"
    using yields_plain [OF y] by (simp add: view_def filter_mset_image_mset filter_filter_mset h conj_commute)
  also have "(\<lambda>x. all_hold L Z F x \<and> all_hold L Z (set fs) x) = all_hold L Z (set fs \<union> F)" by auto
  finally have sols: "image_mset (env ?s) (mset (run L (NestedLoopJoinExec l r p))) = image_mset (\<lambda>x. decoded L {} x |` K) (filter_mset (all_hold L Z (set fs \<union> F)) A)"
    by simp
  have "set_mset (mset (run L (NestedLoopJoinExec l r p))) \<subseteq> set (run L ?e)" unfolding rows by auto
  then have "yields L enc Z (NestedLoopJoinExec l r p) {} K (set fs \<union> F) A"
    using y'(1-4) sols unfolding yields_def by (auto simp del: decoded_empty run.simps)
  then show ?thesis using p(1) by blast
qed

section \<open>Decoding\<close>

lemma decode_step:
  assumes y: "yields L enc Z e D K F A" and fs: "fs = filter P (exec_schema e)" and dec: "\<forall>f \<in> set fs. Q f \<longrightarrow> field_encoding f = Some ObjectId"
    and ps: "ps = map (\<lambda>f. if Q f then DecodeColumn (field_name f) (field_name f) else RetainColumn (field_name f) (field_name f)) fs"
  shows "decode_try_new e ps = Inr (DecodeObjectIdsExec e ps)"
    "yields L enc Z (DecodeObjectIdsExec e ps) (D \<union> {n. \<exists>f \<in> set fs. Q f \<and> field_name f = n}) (set (schema_names fs)) F A"
proof -
  let ?s = "exec_schema e" and ?e = "DecodeObjectIdsExec e ps" and ?D' = "{n. \<exists>f \<in> set fs. Q f \<and> field_name f = n}"
  note y' = yieldsD [OF y]
  have lookup: "?s ! the (index_of ?s (field_name f)) = f" "the (index_of ?s (field_name f)) < length ?s" if "f \<in> set fs" for f
  proof -
    have "f \<in> set ?s" using that by (simp add: fs)
    then obtain i where "i < length ?s" "f = ?s ! i" by (metis in_set_conv_nth)
    then show "?s ! the (index_of ?s (field_name f)) = f" "the (index_of ?s (field_name f)) < length ?s" using index_of_nth [OF y'(1)] by simp_all
  qed
  have has: "has_column ?s (field_name f)" if "f \<in> set fs" for f using that by (auto simp: fs has_column_iff schema_names_def)
  show "decode_try_new e ps = Inr ?e"
    using dec lookup(1) has by (auto simp: decode_try_new_def list_all_iff decode_projection_ok_def is_object_id_data_type_def ps)
  have inj: "f = g" if "f \<in> set fs" "g \<in> set fs" "field_name f = field_name g" for f g using lookup(1) that by metis
  have out: "exec_schema ?e = map (\<lambda>f. if Q f then f\<lparr>field_encoding := Some PlainTerm\<rparr> else f) fs"
    using lookup(1) by (auto simp: ps decode_output_field_def Let_def)
  have names: "schema_names (exec_schema ?e) = schema_names fs" unfolding out by (auto simp: schema_names_def)
  have dfs: "distinct (schema_names fs)" using y'(1) by (simp add: fs schema_names_def distinct_map_filter)
  have inD: "field_name f \<in> ?D' \<longleftrightarrow> Q f" if "f \<in> set fs" for f using inj that by blast
  have enc: "field_encoding g = (if field_name g \<in> D \<union> ?D' then Some PlainTerm else enc (field_name g))" if g: "g \<in> set (exec_schema ?e)" for g
  proof -
    obtain f where f: "f \<in> set fs" "g = (if Q f then f\<lparr>field_encoding := Some PlainTerm\<rparr> else f)" using g unfolding out by auto
    then have "field_encoding f = (if field_name f \<in> D then Some PlainTerm else enc (field_name f))" using y'(4) by (simp add: fs)
    then show ?thesis using f inD [OF f(1)] by auto
  qed
  have QD: "field_name f \<notin> D" if "f \<in> set fs" "Q f" for f
    using dec that y'(4) [of f] by (auto simp: fs split: if_splits)
  let ?row = "\<lambda>row. map (decode_task (decode_id L) ?s row) ps"
  have cell: "env (exec_schema ?e) (?row row) = decoded L ?D' (env ?s row) |` set (schema_names fs)" for row
  proof
    fix n show "env (exec_schema ?e) (?row row) n = (decoded L ?D' (env ?s row) |` set (schema_names fs)) n"
    proof (cases "n \<in> set (schema_names fs)")
      case True
      then obtain k where k: "k < length fs" "n = field_name (fs ! k)" by (auto simp: in_schema_names)
      then have fk: "fs ! k \<in> set fs" by simp
      have "env (exec_schema ?e) (?row row) n = ?row row ! k"
      proof -
        have "k < length (exec_schema ?e)" "field_name (exec_schema ?e ! k) = n" unfolding out using k by simp_all
        then show ?thesis using env_nth [of "exec_schema ?e" k "?row row"] names dfs by (simp del: exec_schema.simps)
      qed
      moreover have "env ?s row n = row ! the (index_of ?s n)" using has [OF fk] k(2) by (auto simp: env_def has_column_def)
      ultimately show ?thesis using True k inD [OF fk] by (simp add: ps decode_task_def decoded_def)
    qed (simp add: env_outside names del: exec_schema.simps)
  qed
  have K: "set (schema_names fs) \<subseteq> K" unfolding y'(2) [symmetric] by (auto simp: fs schema_names_def)
  have dd: "decoded L ?D' (decoded L D x |` K) |` set (schema_names fs) = decoded L (D \<union> ?D') x |` set (schema_names fs)" for x
  proof
    fix n show "(decoded L ?D' (decoded L D x |` K) |` set (schema_names fs)) n = (decoded L (D \<union> ?D') x |` set (schema_names fs)) n"
      using K QD by (cases "n \<in> set (schema_names fs)") (auto simp: decoded_def restrict_map_def)
  qed
  have "image_mset (env (exec_schema ?e)) (mset (run L ?e)) =
      image_mset (\<lambda>x. decoded L ?D' x |` set (schema_names fs)) (image_mset (env ?s) (mset (run L e)))"
    by (simp add: decode_batch_def cell [simplified] image_mset.compositionality comp_def)
  also have "\<dots> = image_mset (\<lambda>x. decoded L (D \<union> ?D') x |` set (schema_names fs)) (filter_mset (all_hold L Z F) A)"
    unfolding y'(5) by (simp add: image_mset.compositionality comp_def dd)
  finally show "yields L enc Z ?e (D \<union> ?D') (set (schema_names fs)) F A"
    using names dfs enc unfolding yields_def by (auto simp: decode_batch_def)
qed

end
