(* ===== verification/Bgp_Properties.thy ===== *)
theory Bgp_Properties
  imports Bgp_Operators
begin

text \<open>
  The planner of basic graph patterns is correct: whatever the statistics of the patterns are, the
  plan that it builds (join order, join operators, places of the filters and of the decodings,
  pruned columns) yields the natural join of the patterns, filtered, decoded and projected.
\<close>

section \<open>One join\<close>

lemma join_on_Nil: "join_on l r = [] \<longleftrightarrow> set (schema_names l) \<inter> set (schema_names r) = {}"
  by (auto simp: join_on_def filter_empty_conv has_column_iff schema_names_def)

lemma filter_sides_plain:
  "\<not> (o1 \<and> set ns \<inter> set (map snd cols) \<noteq> {}) \<Longrightarrow>
    filter_sides o1 cols l r ns = (if set ns \<subseteq> set (schema_names l) \<union> set (schema_names r) then Some ([], []) else None)"
  by (induction ns) (auto simp: has_column_iff)

lemma cross_join_step:
  assumes L: "physical_ok L" and Z: "Z = (if o1 then set (map snd cols) else {})"
    and yl: "yields L enc Z l {} K F A" and yr: "yields L enc Z r {} J G B"
    and on: "sols_on N A" "sols_on M B" "K \<subseteq> N" "J \<subseteq> M" "N \<inter> M \<subseteq> K \<inter> J" and disj: "K \<inter> J = {}"
    and FG: "\<forall>f \<in> F. set (column_names f) \<subseteq> N" "\<forall>f \<in> G. set (column_names f) \<subseteq> M"
    and pending: "\<forall>f \<in> set pending. filter_wf L U f \<and> set (column_names f) \<inter> Z = {}"
  shows "\<exists>e' E rest. optimize_cross_join L o1 l r needed cols pending = Inr (e', rest) \<and>
    yields L enc Z e' {} ((K \<union> J) \<inter> set needed) (E \<union> (F \<union> G)) (njoin N A M B) \<and>
    E \<union> set rest = set pending \<and> (\<forall>f \<in> E. set (column_names f) \<subseteq> K \<union> J)"
proof -
  let ?sides = "\<lambda>f. filter_sides o1 cols (exec_schema l) (exec_schema r) (column_names f)"
  let ?el = "filter (\<lambda>f. ?sides f \<noteq> None) pending" and ?rest = "filter (\<lambda>f. ?sides f = None) pending"
  have names: "set (schema_names (exec_schema l)) = K" "set (schema_names (exec_schema r)) = J" using yieldsD(2) yl yr by blast+
  have sides: "?sides f = (if set (column_names f) \<subseteq> K \<union> J then Some ([], []) else None)" if "f \<in> set pending" for f
    using pending that Z by (subst filter_sides_plain) (auto simp: names split: if_splits)
  have nodec: "concat (map (\<lambda>f. fst (the (?sides f))) ?el) = []" "concat (map (\<lambda>f. snd (the (?sides f))) ?el) = []"
    using sides by (auto split: if_splits)
  have cross: "yields L enc Z (CrossJoinExec l r) {} (K \<union> J) (F \<union> G) (njoin N A M B)" by (rule cross_rows_step [OF L yl yr on disj FG])
  have wf: "\<forall>f \<in> set ?el. filter_wf L (K \<union> J) f"
  proof
    fix f assume "f \<in> set ?el"
    then have "f \<in> set pending" "set (column_names f) \<subseteq> K \<union> J" using sides by (auto split: if_splits)
    then show "filter_wf L (K \<union> J) f" using pending filter_wf_mono [of L U f] by blast
  qed
  obtain e where e: "(case reduce_conjunction ?el of None \<Rightarrow> Inr (CrossJoinExec l r)
      | Some combined \<Rightarrow> map_ok (NestedLoopJoinExec l r) (create_physical_expr L combined (exec_schema l @ exec_schema r))) = Inr e"
    "yields L enc Z e {} (K \<union> J) (set ?el \<union> (F \<union> G)) (njoin N A M B)"
  proof (cases "reduce_conjunction ?el")
    case None
    then have "?el = []" by (cases ?el) auto
    then show ?thesis using that [of "CrossJoinExec l r"] cross None by (simp del: filter_empty_conv)
  next
    case (Some c)
    have "\<forall>f \<in> set ?el. set (column_names f) \<inter> Z = {}" using pending by simp
    from nested_loop_step [OF L cross Some wf this] obtain p where "create_physical_expr L c (exec_schema l @ exec_schema r) = Inr p"
      "yields L enc Z (NestedLoopJoinExec l r p) {} (K \<union> J) (set ?el \<union> (F \<union> G)) (njoin N A M B)" by blast
    then show ?thesis using that [of "NestedLoopJoinExec l r p"] Some by simp
  qed
  let ?proj = "needed_projection needed (exec_schema e)"
  let ?e' = "if length ?proj < length (exec_schema e) then ProjectionExec ?proj e else e"
  have "yields L enc Z ?e' {} ((K \<union> J) \<inter> set needed) (set ?el \<union> (F \<union> G)) (njoin N A M B)"
  proof (cases "length ?proj < length (exec_schema e)")
    case True
    then show ?thesis using needed_projection_step [OF L e(2), of needed] by simp
  next
    case False
    then have "filter (\<lambda>i. field_name (exec_schema e ! i) \<in> set needed) [0..<length (exec_schema e)] = [0..<length (exec_schema e)]"
      by (simp add: needed_projection_def) (metis filter_True length_filter_less linorder_not_less length_upt diff_zero)
    then have "\<forall>i < length (exec_schema e). field_name (exec_schema e ! i) \<in> set needed" by (simp add: filter_id_conv)
    then have "K \<union> J \<subseteq> set needed" unfolding yieldsD(2) [OF e(2), symmetric] by (auto simp: in_schema_names)
    then show ?thesis using e(2) False by (simp add: inf.absorb1)
  qed
  moreover have "optimize_cross_join L o1 l r needed cols pending = Inr (?e', ?rest)"
  proof -
    have d: "(if o1 then decode_side (remdups_adj (sort [])) x else Inr x) = Inr x" for x :: "'a Exec" by (simp add: decode_side_def)
    show ?thesis unfolding optimize_cross_join_def Let_def nodec d and_then_simps e(1) ..
  qed
  moreover have "set ?el \<union> set ?rest = set pending" "\<forall>f \<in> set ?el. set (column_names f) \<subseteq> K \<union> J"
    using wf filter_wf_names by auto blast+
  ultimately show ?thesis by blast
qed

lemma join_execs_ok:
  assumes L: "physical_ok L" and Z: "Z = (if o1 then set (map snd cols) else {})"
    and yl: "yields L enc Z l {} K F A" and yr: "yields L enc Z r {} J G B"
    and on: "sols_on N A" "sols_on M B" "K \<subseteq> N" "J \<subseteq> M" "N \<inter> M \<subseteq> K \<inter> J"
    and FG: "\<forall>f \<in> F. set (column_names f) \<subseteq> N" "\<forall>f \<in> G. set (column_names f) \<subseteq> M"
    and pending: "\<forall>f \<in> set pending. filter_wf L U f"
    and cross: "K \<inter> J \<noteq> {} \<or> (\<forall>f \<in> set pending. set (column_names f) \<inter> Z = {})"
  shows "\<exists>e' E rest. join_execs L o1 l r needed cols pending = Inr (e', rest) \<and>
    yields L enc Z e' {} ((K \<union> J) \<inter> set needed) (E \<union> (F \<union> G)) (njoin N A M B) \<and>
    E \<union> set rest = set pending \<and> (\<forall>f \<in> E. set (column_names f) \<subseteq> K \<union> J)"
proof (cases "K \<inter> J = {}")
  case True
  then have "join_on (exec_schema l) (exec_schema r) = []" using yieldsD(2) [OF yl] yieldsD(2) [OF yr] by (simp add: join_on_Nil)
  then show ?thesis using cross_join_step [OF L Z yl yr on True FG] pending cross True by (simp add: join_execs_def)
next
  case False
  then have "join_on (exec_schema l) (exec_schema r) \<noteq> []" using yieldsD(2) [OF yl] yieldsD(2) [OF yr] by (simp add: join_on_Nil)
  moreover define mode where "mode = (if partition_count L l \<le> 1 \<and> partition_count L r \<le> 1 then CollectLeft else Partitioned)"
  ultimately have "join_execs L o1 l r needed cols pending =
      Inr (HashJoinExec l r (join_on (exec_schema l) (exec_schema r)) (join_projection needed (exec_schema l) (exec_schema r)) mode, pending)"
    by (simp add: join_execs_def)
  then show ?thesis using hash_join_step [OF L yl yr on FG, of needed mode] by (metis Un_empty_left empty_iff)
qed

section \<open>The order of the joins\<close>

text \<open>A prepared pattern: a relation and the filters that were applied to it.\<close>

definition leaf ::
    "'t PhysicalLib \<Rightarrow> (string \<Rightarrow> EncodingName option) \<Rightarrow> string set \<Rightarrow> string list \<Rightarrow> 't Exec \<Rightarrow> 't rel \<times> 't Expr set \<Rightarrow> bool" where
  "leaf L enc Z needed e p \<longleftrightarrow> yields L enc Z e {} (fst (fst p) \<inter> set needed) (snd p) (snd (fst p)) \<and> rel_ok (fst p) \<and>
     (\<forall>f \<in> snd p. set (column_names f) \<subseteq> fst (fst p))"

definition connected :: "'t rel list \<Rightarrow> bool" where
  "connected rs \<longleftrightarrow> (\<forall>xs ys. mset xs + mset ys = mset rs \<and> xs \<noteq> [] \<and> ys \<noteq> [] \<longrightarrow> \<Union> (fst ` set xs) \<inter> \<Union> (fst ` set ys) \<noteq> {})"

text \<open>The plan joins the relations \<open>joined\<close>, keeps the columns that are still needed and has applied the filters \<open>F\<close>.\<close>

definition joined_plan ::
    "'t PhysicalLib \<Rightarrow> (string \<Rightarrow> EncodingName option) \<Rightarrow> string set \<Rightarrow> string list \<Rightarrow> 't Exec \<Rightarrow> 't rel list \<Rightarrow> string set \<Rightarrow> 't Expr set \<Rightarrow> bool" where
  "joined_plan L enc Z top_needs e joined K F \<longleftrightarrow> (\<forall>r \<in> set joined. rel_ok r) \<and>
     yields L enc Z e {} K F (snd (bgp_join joined)) \<and> K \<subseteq> fst (bgp_join joined) \<and> fst (bgp_join joined) \<inter> set top_needs \<subseteq> K \<and>
     (\<forall>f \<in> F. set (column_names f) \<subseteq> fst (bgp_join joined))"

lemma remove_at_split: "i < length xs \<Longrightarrow> xs = take i xs @ xs ! i # drop (Suc i) xs"
  by (rule id_take_nth_drop)

lemma remove_at_mset: "i < length xs \<Longrightarrow> mset xs = add_mset (xs ! i) (mset (remove_at i xs))"
  by (subst remove_at_split, assumption) (simp add: remove_at_def)

lemma remove_at_list_all2: "list_all2 P xs ys \<Longrightarrow> list_all2 P (remove_at i xs) (remove_at i ys)"
  by (simp add: remove_at_def list_all2_appendI list_all2_takeI list_all2_dropI)

lemma set_remove_at: "set (remove_at i xs) \<subseteq> set xs"
  by (auto simp: remove_at_def dest: in_set_takeD in_set_dropD)

lemma sorted_wrt_remove_at:
  assumes "sorted_wrt R xs" "i < length xs"
  shows "sorted_wrt R (remove_at i xs)" "\<forall>y \<in> set (remove_at i xs). R (xs ! i) y \<or> R y (xs ! i)"
proof -
  have "sorted_wrt R (take i xs @ xs ! i # drop (Suc i) xs)" using assms remove_at_split by metis
  then show "sorted_wrt R (remove_at i xs)" "\<forall>y \<in> set (remove_at i xs). R (xs ! i) y \<or> R y (xs ! i)"
    by (auto simp: sorted_wrt_append remove_at_def)
qed

lemma find_next_shared:
  assumes "j < length ps" "set (schema_names (exec_schema e)) \<inter> set (schema_names (exec_schema (ps ! j))) \<noteq> {}"
  shows "set (schema_names (exec_schema e)) \<inter> set (schema_names (exec_schema (ps ! find_next_join_pattern e ps))) \<noteq> {}"
proof -
  let ?q = "\<lambda>i. list_ex (\<lambda>f. has_column (exec_schema e) (field_name f)) (exec_schema (ps ! i))"
  have q: "?q i \<longleftrightarrow> set (schema_names (exec_schema e)) \<inter> set (schema_names (exec_schema (ps ! i))) \<noteq> {}" for i
    unfolding list_ex_iff has_column_iff schema_names_def [of "exec_schema (ps ! i)"] by auto
  have "find ?q [0..<length ps] \<noteq> None" using assms q by (auto simp: find_None_iff)
  then obtain i where i: "find ?q [0..<length ps] = Some i" by auto
  then have "find_next_join_pattern e ps = i" by (simp add: find_next_join_pattern_def)
  moreover have "?q i" using i by (auto simp: find_Some_iff)
  ultimately show ?thesis using q by simp
qed

lemma join_patterns_step:
  assumes L: "physical_ok L" and Z: "Z = (if o1 then set (map snd cols) else {})" and top: "set top_needs \<subseteq> set needed"
    and jp: "joined_plan L enc Z top_needs e joined K F" and leafs: "list_all2 (leaf L enc Z needed) ps leafs" and i: "i < length ps"
    and shared: "\<forall>p \<in> set leafs. fst (bgp_join joined) \<inter> fst (fst p) \<subseteq> K \<inter> set needed"
    and pairs: "sorted_wrt (\<lambda>p q. fst (fst p) \<inter> fst (fst q) \<subseteq> set needed) leafs"
    and pending: "\<forall>f \<in> set pending. filter_wf L U f"
    and cross: "K \<inter> (fst (fst (leafs ! i)) \<inter> set needed) \<noteq> {} \<or> (\<forall>f \<in> set pending. set (column_names f) \<inter> Z = {})"
    and after: "set needed_after = set top_needs \<union> (\<Union>p \<in> set (remove_at i ps). set (schema_names (exec_schema p)))"
  shows "\<exists>e' K' F' rest. and_then (join_execs L o1 e (ps ! i) needed_after cols pending) (\<lambda>(e1, pending1). apply_ready_filters L o1 e1 pending1 cols) = Inr (e', rest) \<and>
    joined_plan L enc Z top_needs e' (fst (leafs ! i) # joined) K' F' \<and>
    (\<forall>p \<in> set (remove_at i leafs). fst (bgp_join (fst (leafs ! i) # joined)) \<inter> fst (fst p) \<subseteq> K' \<inter> set needed) \<and>
    F' \<union> set rest = F \<union> snd (leafs ! i) \<union> set pending \<and> set rest \<subseteq> set pending"
proof -
  let ?r = "fst (leafs ! i)" and ?G = "snd (leafs ! i)" and ?N = "fst (bgp_join joined)" and ?A = "snd (bgp_join joined)"
  let ?M = "fst ?r" and ?B = "snd ?r"
  let ?J = "?M \<inter> set needed"
  have len: "length leafs = length ps" using leafs by (simp add: list_all2_lengthD)
  have li: "leaf L enc Z needed (ps ! i) (leafs ! i)" using leafs i by (simp add: list_all2_nthD)
  have yl: "yields L enc Z e {} K F ?A" and K: "K \<subseteq> ?N" "?N \<inter> set top_needs \<subseteq> K" and F: "\<forall>f \<in> F. set (column_names f) \<subseteq> ?N"
    and ok: "\<forall>r \<in> set joined. rel_ok r" using jp by (simp_all add: joined_plan_def)
  have yr: "yields L enc Z (ps ! i) {} ?J ?G ?B" and okr: "rel_ok ?r" and G: "\<forall>f \<in> ?G. set (column_names f) \<subseteq> ?M"
    using li by (simp_all add: leaf_def)
  have sols: "sols_on ?N ?A" using bgp_join_ok [OF ok] by simp
  have "leafs ! i \<in> set leafs" using i len by simp
  then have "?N \<inter> ?M \<subseteq> K \<inter> set needed" using shared by blast
  then have NM: "?N \<inter> ?M \<subseteq> K \<inter> ?J" by blast
  have sub: "?J \<subseteq> ?M" by blast
  obtain e1 E rest1 where j: "join_execs L o1 e (ps ! i) needed_after cols pending = Inr (e1, rest1)"
    "yields L enc Z e1 {} ((K \<union> ?J) \<inter> set needed_after) (E \<union> (F \<union> ?G)) (njoin ?N ?A ?M ?B)"
    "E \<union> set rest1 = set pending" "\<forall>f \<in> E. set (column_names f) \<subseteq> K \<union> ?J"
    using join_execs_ok [OF L Z yl yr sols okr K(1) sub NM F G pending cross, of needed_after] by blast
  let ?K' = "(K \<union> ?J) \<inter> set needed_after"
  have nj: "njoin ?N ?A ?M ?B = snd (bgp_join (?r # joined))" using njoin_comm [OF sols okr] by simp
  have "\<forall>f \<in> set rest1. filter_wf L U f" using j(3) pending by blast
  moreover have "set (column_names f) \<inter> Z \<subseteq> {}" if "filter_ready o1 (exec_schema e1) cols f" for f
    using that Z by (auto simp: filter_ready_iff split: if_splits)
  ultimately obtain e2 H rest2 where a: "apply_ready_filters L o1 e1 rest1 cols = Inr (e2, rest2)"
    "yields L enc Z e2 {} ?K' (H \<union> (E \<union> (F \<union> ?G))) (njoin ?N ?A ?M ?B)" "H \<union> set rest2 = set rest1" "\<forall>f \<in> H. set (column_names f) \<subseteq> ?K'"
    using apply_ready_ok [OF L _ j(2), of rest1 U o1 cols] by (metis empty_subsetI)
  have top': "(?M \<union> ?N) \<inter> set top_needs \<subseteq> ?K'" using K(2) top after by auto
  have "joined_plan L enc Z top_needs e2 (?r # joined) ?K' (H \<union> (E \<union> (F \<union> ?G)))"
  proof -
    have "\<forall>f \<in> H \<union> (E \<union> (F \<union> ?G)). set (column_names f) \<subseteq> ?M \<union> ?N" using a(4) j(4) F G K(1) by blast
    moreover have "?K' \<subseteq> ?M \<union> ?N" using K(1) by blast
    ultimately show ?thesis using ok okr a(2) top' unfolding joined_plan_def nj by simp
  qed
  moreover have "fst (bgp_join (?r # joined)) \<inter> fst (fst p) \<subseteq> ?K' \<inter> set needed" if p: "p \<in> set (remove_at i leafs)" for p
  proof -
    obtain k where k: "k < length (remove_at i leafs)" "p = remove_at i leafs ! k" using p by (metis in_set_conv_nth)
    have "list_all2 (leaf L enc Z needed) (remove_at i ps) (remove_at i leafs)" using leafs by (rule remove_at_list_all2)
    then have "leaf L enc Z needed (remove_at i ps ! k) p" "k < length (remove_at i ps)" using k by (simp_all add: list_all2_conv_all_nth)
    then have "yields L enc Z (remove_at i ps ! k) {} (fst (fst p) \<inter> set needed) (snd p) (snd (fst p))" "remove_at i ps ! k \<in> set (remove_at i ps)"
      by (simp_all add: leaf_def)
    from yieldsD(2) [OF this(1)] this(2) have "fst (fst p) \<inter> set needed \<subseteq> set needed_after" unfolding after by blast
    moreover have "p \<in> set leafs" by (rule subsetD [OF set_remove_at p])
    then have "?N \<inter> fst (fst p) \<subseteq> K \<inter> set needed" by (rule bspec [OF shared])
    moreover have "?M \<inter> fst (fst p) \<subseteq> set needed" using sorted_wrt_remove_at(2) [OF pairs, of i] i len p by auto
    ultimately show ?thesis by auto
  qed
  moreover have "(H \<union> (E \<union> (F \<union> ?G))) \<union> set rest2 = F \<union> ?G \<union> set pending" "set rest2 \<subseteq> set pending" using a(3) j(3) by blast+
  ultimately show ?thesis using j(1) a(1) by (intro exI [of _ e2] exI [of _ ?K'] exI [of _ "H \<union> (E \<union> (F \<union> ?G))"] exI [of _ rest2]) simp
qed

lemma join_patterns_ok:
  assumes L: "physical_ok L" and Z: "Z = (if o1 then set (map snd cols) else {})" and top: "set top_needs \<subseteq> set needed"
  shows "joined_plan L enc Z top_needs e joined K F \<Longrightarrow> list_all2 (leaf L enc Z needed) ps leafs \<Longrightarrow>
    \<forall>p \<in> set leafs. fst (bgp_join joined) \<inter> fst (fst p) \<subseteq> K \<inter> set needed \<Longrightarrow>
    sorted_wrt (\<lambda>p q. fst (fst p) \<inter> fst (fst q) \<subseteq> set needed) leafs \<Longrightarrow> \<forall>f \<in> set pending. filter_wf L U f \<Longrightarrow>
    connected (joined @ map fst leafs) \<and> joined \<noteq> [] \<or> (\<forall>f \<in> set pending. set (column_names f) \<inter> Z = {}) \<Longrightarrow>
    \<exists>e' K' F' rest all. join_patterns L o1 top_needs cols e ps pending = Inr (e', rest) \<and> mset all = mset (joined @ map fst leafs) \<and>
      joined_plan L enc Z top_needs e' all K' F' \<and> F' \<union> set rest = F \<union> \<Union> (snd ` set leafs) \<union> set pending \<and> set rest \<subseteq> set pending"
proof (induction "length ps" arbitrary: e ps pending leafs joined K F rule: less_induct)
  case less
  note jp = less.prems(1) and leafs = less.prems(2) and shared = less.prems(3) and pairs = less.prems(4) and pend = less.prems(5) and con = less.prems(6)
  have len: "length leafs = length ps" using leafs by (simp add: list_all2_lengthD)
  show ?case
  proof (cases "ps = []")
    case True
    then show ?thesis using jp len
      by (intro exI [of _ e] exI [of _ K] exI [of _ F] exI [of _ pending] exI [of _ joined]) (simp add: join_patterns.simps)
  next
    case False
    let ?i = "find_next_join_pattern e ps"
    let ?r = "fst (leafs ! ?i)"
    have i: "?i < length ps" using find_next_less [OF False] .
    let ?after = "top_needs @ concat (map (\<lambda>p. schema_names (exec_schema p)) (remove_at ?i ps))"
    have ms: "mset leafs = add_mset (leafs ! ?i) (mset (remove_at ?i leafs))" using i len by (intro remove_at_mset) simp
    have names: "set (schema_names (exec_schema (ps ! k))) = fst (fst (leafs ! k)) \<inter> set needed" if "k < length ps" for k
    proof -
      have "leaf L enc Z needed (ps ! k) (leafs ! k)" using leafs that by (simp add: list_all2_nthD)
      then have "yields L enc Z (ps ! k) {} (fst (fst (leafs ! k)) \<inter> set needed) (snd (leafs ! k)) (snd (fst (leafs ! k)))" by (simp add: leaf_def)
      from yieldsD(2) [OF this] show ?thesis .
    qed
    have "yields L enc Z e {} K F (snd (bgp_join joined))" using jp by (simp add: joined_plan_def)
    note Ke = yieldsD(2) [OF this]
    have cross: "K \<inter> (fst ?r \<inter> set needed) \<noteq> {} \<or> (\<forall>f \<in> set pending. set (column_names f) \<inter> Z = {})"
      using con
    proof
      assume c: "connected (joined @ map fst leafs) \<and> joined \<noteq> []"
      then have "\<Union> (fst ` set joined) \<inter> \<Union> (fst ` set (map fst leafs)) \<noteq> {}"
        using False len unfolding connected_def by (metis length_0_conv mset_append map_is_Nil_conv)
      then obtain x where x: "x \<in> fst (bgp_join joined)" "x \<in> \<Union> (fst ` set (map fst leafs))" unfolding fst_bgp_join by blast
      then obtain p where "p \<in> set leafs" "x \<in> fst (fst p)" by auto
      then have "p \<in> set leafs" "fst (bgp_join joined) \<inter> fst (fst p) \<noteq> {}" using x(1) by blast+
      then obtain k where k: "k < length leafs" "fst (bgp_join joined) \<inter> fst (fst (leafs ! k)) \<noteq> {}" by (metis in_set_conv_nth)
      then have "fst (bgp_join joined) \<inter> fst (fst (leafs ! k)) \<subseteq> K \<inter> set needed" using shared by simp
      then have "K \<inter> (fst (fst (leafs ! k)) \<inter> set needed) \<noteq> {}" using k(2) by blast
      then have "set (schema_names (exec_schema e)) \<inter> set (schema_names (exec_schema (ps ! k))) \<noteq> {}" using names [of k] Ke k(1) len by simp
      from find_next_shared [OF _ this] show ?thesis using names [OF i] Ke k(1) len by simp
    qed (rule disjI2)
    have after: "set ?after = set top_needs \<union> (\<Union>p \<in> set (remove_at ?i ps). set (schema_names (exec_schema p)))" by auto
    obtain e' K' F' rest where step: "and_then (join_execs L o1 e (ps ! ?i) ?after cols pending) (\<lambda>(e1, pending1). apply_ready_filters L o1 e1 pending1 cols) = Inr (e', rest)"
      "joined_plan L enc Z top_needs e' (?r # joined) K' F'"
      "\<forall>p \<in> set (remove_at ?i leafs). fst (bgp_join (?r # joined)) \<inter> fst (fst p) \<subseteq> K' \<inter> set needed"
      "F' \<union> set rest = F \<union> snd (leafs ! ?i) \<union> set pending" "set rest \<subseteq> set pending"
      using join_patterns_step [OF L Z top jp leafs i shared pairs pend cross after] by blast
    have "mset ((?r # joined) @ map fst (remove_at ?i leafs)) = mset (joined @ map fst leafs)" using ms by simp
    then have con': "connected ((?r # joined) @ map fst (remove_at ?i leafs)) \<and> ?r # joined \<noteq> [] \<or> (\<forall>f \<in> set rest. set (column_names f) \<inter> Z = {})"
      using con step(5) unfolding connected_def by auto
    have less': "length (remove_at ?i ps) < length ps" using i by (rule length_remove_at)
    have pairs': "sorted_wrt (\<lambda>p q. fst (fst p) \<inter> fst (fst q) \<subseteq> set needed) (remove_at ?i leafs)" using sorted_wrt_remove_at(1) [OF pairs] i len by simp
    have pend': "\<forall>f \<in> set rest. filter_wf L U f" using pend step(5) by blast
    obtain e2 K2 F2 rest2 all where IH: "join_patterns L o1 top_needs cols e' (remove_at ?i ps) rest = Inr (e2, rest2)"
      "mset all = mset ((?r # joined) @ map fst (remove_at ?i leafs))" "joined_plan L enc Z top_needs e2 all K2 F2"
      "F2 \<union> set rest2 = F' \<union> \<Union> (snd ` set (remove_at ?i leafs)) \<union> set rest" "set rest2 \<subseteq> set rest"
      using less.hyps [OF less' step(2) remove_at_list_all2 [OF leafs] step(3) pairs' pend' con'] by (elim exE conjE) (rule that)
    have "join_patterns L o1 top_needs cols e ps pending = Inr (e2, rest2)"
    proof -
      obtain e1 p1 where e1: "join_execs L o1 e (ps ! ?i) ?after cols pending = Inr (e1, p1)" "apply_ready_filters L o1 e1 p1 cols = Inr (e', rest)"
        using step(1) by (auto simp: and_then_eq_Inr_iff)
      then show ?thesis using IH(1) False by (subst join_patterns.simps) (simp add: Let_def)
    qed
    moreover have "set leafs = insert (leafs ! ?i) (set (remove_at ?i leafs))" using arg_cong [OF ms, of set_mset] by simp
    then have "F2 \<union> set rest2 = F \<union> \<Union> (snd ` set leafs) \<union> set pending" using IH(4) step(4) by auto
    moreover have "mset all = mset (joined @ map fst leafs)" using IH(2) ms by simp
    ultimately show ?thesis using IH(3,5) step(5) by blast
  qed
qed

end
