(* ===== verification/Sparql_Algebra.thy ===== *)
theory Sparql_Algebra
  imports Sparql_Join
begin

text \<open>
  The lowering of SPARQL's minus (\<open>lib/logical/src/minus/rewrite.rs\<close>) and extend
  (\<open>lib/logical/src/extend\<close>), a reference instance of the DataFusion operators with which the
  hypotheses of the lowerings hold, and the correctness properties of join, left join, minus
  and extend against the SPARQL algebra.
\<close>

section \<open>Minus\<close>

record 't MinusNode =
  minus_lhs :: "'t plan"
  minus_rhs :: "'t plan"

definition compute_join_keys :: "'t MinusNode \<Rightarrow> string list" where
  "compute_join_keys node =
     filter (\<lambda>n. n \<in> set (schema_names (plan_schema (minus_rhs node)))) (schema_names (plan_schema (minus_lhs node)))"

definition compute_filter_expression :: "string list \<Rightarrow> (plan_error, 't Expr option) result" where
  "compute_filter_expression overlapping_keys =
     map_ok (\<lambda>any_both_not_null.
         reduce_and (map (\<lambda>k. IsCompatible (lhs_col k) (rhs_col k)) overlapping_keys @ [any_both_not_null]))
       (ok_or (reduce_or (map (\<lambda>k. EAnd (IsNotNull (lhs_col k)) (IsNotNull (rhs_col k))) overlapping_keys))
          (PlanError ''There must be at least one overlapping key''))"

definition rewrite_minus :: "'t DataFusion \<Rightarrow> 't MinusNode \<Rightarrow> (plan_error, 't row list) result" where
  "rewrite_minus D node =
     (let overlapping_keys = compute_join_keys node in
      if overlapping_keys = [] then Inr (plan_rows (minus_lhs node))
      else map_ok (\<lambda>filter_expr.
        let join_result = df_left_anti_join D [] (map_option (\<lambda>e row. eval_expr D row e) filter_expr)
              (alias_rows ''lhs'' (plan_rows (minus_lhs node))) (alias_rows ''rhs'' (plan_rows (minus_rhs node)));
            projections = map (\<lambda>n. (n, lhs_col n)) (schema_names (plan_schema (minus_lhs node)))
        in project D projections join_result)
        (compute_filter_expression overlapping_keys))"

definition algebra_minus :: "'t solution list \<Rightarrow> 't solution list \<Rightarrow> 't solution list" where
  "algebra_minus M1 M2 = filter (\<lambda>m. \<forall>m' \<in> set M2. \<not> compatible m m' \<or> dom m \<inter> dom m' = {}) M1"

lemma foldl_or_true:
  assumes E: "expr_ok D"
  shows "is_truth (eval_expr D J e) \<Longrightarrow> \<forall>x \<in> set es. is_truth (eval_expr D J x) \<Longrightarrow>
    is_truth (eval_expr D J (foldl EOr e es)) \<and>
    (eval_expr D J (foldl EOr e es) = VBool True \<longleftrightarrow>
      eval_expr D J e = VBool True \<or> (\<exists>x \<in> set es. eval_expr D J x = VBool True))"
proof (induction es arbitrary: e)
  case (Cons x es)
  have "eval_expr D J (EOr e x) = sql_or (eval_expr D J e) (eval_expr D J x)"
    using Cons.prems expr_okD(2) [OF E] by simp
  with Cons.IH [of "EOr e x"] Cons.prems show ?case by (auto simp: sql_or_True)
qed simp

lemma minus_filter_true:
  fixes D :: "'t DataFusion"
  assumes E: "expr_ok D" and J: "reads J a b" and keys: "keys \<noteq> []"
  shows "\<exists>e. compute_filter_expression keys = Inr (Some e) \<and>
    (eval_expr D J e = VBool True \<longleftrightarrow>
      (\<forall>n \<in> set keys. a n = None \<or> b n = None \<or> a n = b n) \<and> (\<exists>n \<in> set keys. a n \<noteq> None \<and> b n \<noteq> None))"
proof -
  have cols: "eval_expr D J (lhs_col n) = val_of_cell (a n)" "eval_expr D J (rhs_col n) = val_of_cell (b n)" for n
    using J by (simp_all add: reads_def lhs_col_def rhs_col_def)
  let ?nn = "\<lambda>k. EAnd (IsNotNull (lhs_col k)) (IsNotNull (rhs_col k)) :: 't Expr"
  have nn: "eval_expr D J (?nn k) = sql_and (VBool (a k \<noteq> None)) (VBool (b k \<noteq> None))" for k
    using expr_okD(1,4) [OF E] by (simp add: cols)
  obtain k ks where k: "keys = k # ks" using keys by (cases keys) auto
  let ?any = "foldl EOr (?nn k) (map ?nn ks)"
  have any: "is_truth (eval_expr D J ?any)"
    "eval_expr D J ?any = VBool True \<longleftrightarrow> (\<exists>n \<in> set keys. a n \<noteq> None \<and> b n \<noteq> None)"
    using foldl_or_true [OF E, of J "?nn k" "map ?nn ks"] unfolding k by (simp_all add: nn del: eval_expr.simps)
  let ?fs = "map (\<lambda>k. IsCompatible (lhs_col k) (rhs_col k)) keys @ [?any] :: 't Expr list"
  have "(case reduce_and ?fs of None \<Rightarrow> True | Some e \<Rightarrow> eval_expr D J e = VBool True) \<longleftrightarrow>
      (\<forall>x \<in> set ?fs. eval_expr D J x = VBool True)"
    by (rule reduce_and_true [OF E]) (use any(1) in auto)
  moreover have "(\<forall>x \<in> set ?fs. eval_expr D J x = VBool True) \<longleftrightarrow>
      (\<forall>n \<in> set keys. a n = None \<or> b n = None \<or> a n = b n) \<and> eval_expr D J ?any = VBool True"
    by (auto simp: cols)
  ultimately have true: "(case reduce_and ?fs of None \<Rightarrow> True | Some e \<Rightarrow> eval_expr D J e = VBool True) \<longleftrightarrow>
      (\<forall>n \<in> set keys. a n = None \<or> b n = None \<or> a n = b n) \<and> (\<exists>n \<in> set keys. a n \<noteq> None \<and> b n \<noteq> None)"
    unfolding any(2) by (rule trans)
  obtain e where e: "reduce_and ?fs = Some e" unfolding k by simp
  have "compute_filter_expression keys = Inr (Some e)"
    using e by (simp add: compute_filter_expression_def k)
  with true show ?thesis unfolding e by auto
qed

lemma minus_filter_total: "keys \<noteq> [] \<Longrightarrow> \<exists>e. compute_filter_expression keys = Inr (Some e)"
  by (cases keys) (simp_all add: compute_filter_expression_def)

lemma project_lhs:
  fixes D :: "'t DataFusion"
  assumes "dom (solution l) \<subseteq> set ns"
  shows "solution (project_row D (map (\<lambda>n. (n, lhs_col n)) ns) (alias_row ''lhs'' l)) = solution l"
proof
  fix n
  have "map_of (map (\<lambda>n. (n, lhs_col n :: 't Expr)) ns) n = (if n \<in> set ns then Some (lhs_col n) else None)"
    by (induction ns) auto
  then show "solution (project_row D (map (\<lambda>n. (n, lhs_col n)) ns) (alias_row ''lhs'' l)) n = solution l n"
    using assms by (cases "solution l n"; cases "n \<in> set ns")
      (auto simp: project_row_def, auto simp: solution_def lhs_col_def alias_row_def)
qed

lemma rewrite_minus_correct:
  fixes D :: "'t DataFusion"
  assumes D: "datafusion_ok D" and L: "plan_wf (minus_lhs node)" and R: "plan_wf (minus_rhs node)"
  shows "\<exists>rs. rewrite_minus D node = Inr rs \<and>
     mset (map solution rs) = mset (algebra_minus (map solution (plan_rows (minus_lhs node))) (map solution (plan_rows (minus_rhs node))))"
proof -
  note E = datafusion_okD(1) [OF D]
  let ?L = "plan_rows (minus_lhs node)" and ?R = "plan_rows (minus_rhs node)"
  let ?ln = "schema_names (plan_schema (minus_lhs node))"
  let ?keys = "compute_join_keys node"
  have keys: "set ?keys = set ?ln \<inter> set (schema_names (plan_schema (minus_rhs node)))"
    by (auto simp: compute_join_keys_def)
  have overlap: "dom (solution l) \<inter> dom (solution r) \<subseteq> set ?keys" if "l \<in> set ?L" "r \<in> set ?R" for l r
    using plan_wf_dom [OF L that(1)] plan_wf_dom [OF R that(2)] keys by blast
  show ?thesis
  proof (cases "?keys = []")
    case True
    have "dom (solution l) \<inter> dom (solution r) = {}" if "l \<in> set ?L" "r \<in> set ?R" for l r
      using overlap [OF that] True by simp
    then have "algebra_minus (map solution ?L) (map solution ?R) = map solution ?L"
      by (auto simp: algebra_minus_def filter_map comp_def intro!: arg_cong [of _ _ "map solution"])
    then show ?thesis using True by (simp add: rewrite_minus_def)
  next
    case False
    obtain e :: "'t Expr" where e: "compute_filter_expression ?keys = Inr (Some e)"
      using minus_filter_total [OF False] by blast
    let ?p = "Some (\<lambda>row. eval_expr D row e)"
    let ?A = "alias_row ''lhs''" and ?B = "alias_row ''rhs''"
    have removed: "join_match [] ?p (?A l) (?B r) \<longleftrightarrow> compatible (solution l) (solution r) \<and> dom (solution l) \<inter> dom (solution r) \<noteq> {}"
      if lr: "l \<in> set ?L" "r \<in> set ?R" for l r
    proof -
      have "compatible (solution l) (solution r) \<longleftrightarrow>
          (\<forall>n \<in> set ?keys. solution l n = None \<or> solution r n = None \<or> solution l n = solution r n)"
        unfolding keys by (rule compatible_shared) (use plan_wf_dom L R lr in blast)+
      moreover have "dom (solution l) \<inter> dom (solution r) \<noteq> {} \<longleftrightarrow> (\<exists>n \<in> set ?keys. solution l n \<noteq> None \<and> solution r n \<noteq> None)"
        using overlap [OF lr] by blast
      ultimately show ?thesis
        using minus_filter_true [OF E reads_alias(1) False, of l r] by (auto simp: join_match_def e)
    qed
    have "join_partners [] ?p (alias_rows ''rhs'' ?R) (?A l) = [] \<longleftrightarrow>
        (\<forall>m' \<in> set (map solution ?R). \<not> compatible (solution l) m' \<or> dom (solution l) \<inter> dom m' = {})"
      if "l \<in> set ?L" for l
      using removed [OF that] by (auto simp: join_partners_def alias_rows_def filter_empty_conv)
    then have kept: "filter (\<lambda>l. join_partners [] ?p (alias_rows ''rhs'' ?R) (?A l) = []) ?L =
        filter (\<lambda>l. \<forall>m' \<in> set (map solution ?R). \<not> compatible (solution l) m' \<or> dom (solution l) \<inter> dom m' = {}) ?L"
      by (intro filter_cong) auto
    let ?ps = "map (\<lambda>n. (n, lhs_col n :: 't Expr)) ?ln"
    let ?out = "\<lambda>r. solution (project_row D ?ps r)"
    have "mset (map solution (project D ?ps (df_left_anti_join D [] ?p (alias_rows ''lhs'' ?L) (alias_rows ''rhs'' ?R)))) =
        mset (map ?out (filter (\<lambda>l. join_partners [] ?p (alias_rows ''rhs'' ?R) l = []) (alias_rows ''lhs'' ?L)))"
      using datafusion_okD(3,9) [OF D] by (simp add: project_def multiset.map_comp comp_def)
    also have "map ?out (filter (\<lambda>l. join_partners [] ?p (alias_rows ''rhs'' ?R) l = []) (alias_rows ''lhs'' ?L)) =
        algebra_minus (map solution ?L) (map solution ?R)"
      unfolding alias_rows_def [of "''lhs''"] filter_map comp_def map_map kept algebra_minus_def
      using plan_wf_dom [OF L] by (intro map_cong refl project_lhs) auto
    finally show ?thesis using False e by (simp add: rewrite_minus_def)
  qed
qed

section \<open>Extend\<close>

record 't ExtendNode =
  extend_inner :: "'t plan"
  extend_variable :: string
  extend_expression :: "'t Expr"

text \<open>The data type and nullability that DataFusion infers for the expression are arguments.\<close>

definition extend_try_new ::
  "'t plan \<Rightarrow> string \<Rightarrow> 't Expr \<Rightarrow> EncodingName option \<Rightarrow> bool \<Rightarrow> (plan_error, 't ExtendNode \<times> field list) result" where
  "extend_try_new inner variable expression ty nullable =
     (if variable \<in> set (schema_names (plan_schema inner))
      then Inl (PlanError ''Variable already exists in schema.'')
      else if \<not> resolves (plan_schema inner) expression then Inl (PlanError ''Schema error'')
      else Inr (\<lparr>extend_inner = inner, extend_variable = variable, extend_expression = expression\<rparr>,
        plan_schema inner @ [\<lparr>field_name = variable, field_encoding = ty, field_nullable = nullable\<rparr>]))"

definition rewrite_extend_node :: "'t DataFusion \<Rightarrow> 't ExtendNode \<Rightarrow> 't row list" where
  "rewrite_extend_node D node =
     (let new_exprs = map (\<lambda>n. (n, Column (None, n))) (schema_names (plan_schema (extend_inner node))) @
            [(extend_variable node, extend_expression node)]
      in project D new_exprs (plan_rows (extend_inner node)))"

definition algebra_extend :: "'t DataFusion \<Rightarrow> string \<Rightarrow> 't Expr \<Rightarrow> 't solution list \<Rightarrow> 't solution list" where
  "algebra_extend D v e M = map (\<lambda>m. m(v := cell_of_val (eval_expr D (row_of m) e))) M"

section \<open>A reference instance of the operators\<close>

fun bool_expr :: "'t Expr \<Rightarrow> bool" where
  "bool_expr (Column c) = False"
| "bool_expr (Term_Lit t) = False"
| "bool_expr (Coalesce a b) = False"
| "bool_expr (Function f es) = False"
| "bool_expr _ = True"

definition ref_df :: "'t DataFusion" where
  "ref_df = \<lparr>df_and = sql_and, df_or = sql_or, df_not = sql_not, df_is_not_null = (\<lambda>a. VBool (a \<noteq> VNull)),
     df_eq = (\<lambda>a b. if a = VNull \<or> b = VNull then VNull else VBool (a = b)),
     df_coalesce = (\<lambda>a b. if a = VNull then b else a), df_is_boolean = bool_expr,
     df_filter = (\<lambda>p. filter (\<lambda>r. p r = VBool True)), df_project = map, df_union = (@), df_distinct = remdups,
     df_inner_join = (\<lambda>on f L R. concat (map (\<lambda>l. map (\<lambda>r. l ++ r) (join_partners on f R l)) L)),
     df_left_join = (\<lambda>on f L R. concat (map (\<lambda>l. if join_partners on f R l = [] then [l]
        else map (\<lambda>r. l ++ r) (join_partners on f R l)) L)),
     df_left_anti_join = (\<lambda>on f L R. filter (\<lambda>l. join_partners on f R l = []) L)\<rparr>"

lemma ref_df_simps [simp]:
  "df_and ref_df = sql_and" "df_or ref_df = sql_or" "df_not ref_df = sql_not"
  "df_is_not_null ref_df a = VBool (a \<noteq> VNull)"
  "df_eq ref_df a b = (if a = VNull \<or> b = VNull then VNull else VBool (a = b))"
  "df_coalesce ref_df a b = (if a = VNull then b else a)" "df_is_boolean ref_df = bool_expr"
  by (simp_all add: ref_df_def)

lemma bool_expr_truth: "bool_expr e \<Longrightarrow> is_truth (eval_expr ref_df r e)"
  by (cases e) (simp_all add: Let_def)

lemma ref_df_ok: "datafusion_ok ref_df"
proof -
  have "expr_ok ref_df" by (simp add: expr_ok_def bool_expr_truth)
  then show ?thesis unfolding datafusion_ok_def by (simp add: ref_df_def)
qed

lemma row_of_None: "row_of m (None, n) = m n"
  by (simp add: row_of_def)

lemma dom_row_of: "dom m \<subseteq> N \<Longrightarrow> dom (row_of m) \<subseteq> Pair None ` N"
  by (auto simp: row_of_def split: if_splits) (blast intro: domI)

lemma project_extend:
  assumes "v \<notin> set ns" "dom m \<subseteq> set ns"
  shows "project_row D (map (\<lambda>n. (n, Column (None, n))) ns @ [(v, e)]) (row_of m) =
    row_of (m(v := cell_of_val (eval_expr D (row_of m) e)))"
proof
  fix c :: column
  obtain q n where c: "c = (q, n)" by (cases c)
  have ids: "map_of (map (\<lambda>n. (n, Column (None, n))) ns) n = (if n \<in> set ns then Some (Column (None, n)) else None)"
    by (induction ns) auto
  have out: "m n = None" if "n \<notin> set ns" using that assms(2) by blast
  show "project_row D (map (\<lambda>n. (n, Column (None, n))) ns @ [(v, e)]) (row_of m) c =
      row_of (m(v := cell_of_val (eval_expr D (row_of m) e))) c"
    using assms(1) out by (auto simp: c project_row_def row_of_None map_add_def ids split: option.splits)
      (simp_all add: row_of_def)
qed

section \<open>Properties\<close>

text \<open>C6: Whatever strategy the join lowering picks (cross join, equality join on never-null
  columns, or join with compatibility checks), it succeeds on every node that validates, and its rows
  are as a bag the SPARQL join, or left join, of the two inputs with the filter.\<close>

theorem sparql_join_correct:
  assumes "datafusion_ok D" "plan_wf l" "plan_wf r" "join_try_new D l r f ty = Inr node"
  shows "\<exists>rs. rewrite_sparql_join D node = Inr rs \<and>
    mset (map solution rs) = mset (algebra_join D ty f (map solution (plan_rows l)) (map solution (plan_rows r)))"
  using rewrite_sparql_join_correct [OF assms(1), of node] join_try_new_ok [OF assms(4)] assms(2,3) by auto

text \<open>C13: The rows of a lowered join fit the schema that the node announces: they bind only its
  columns, and a column announced as not nullable is bound in every row, also after a left join. The
  choice of an equality join by a later join is therefore justified.\<close>

theorem join_schema_sound:
  assumes "datafusion_ok D" "plan_wf l" "plan_wf r" "join_try_new D l r f ty = Inr node"
    "rewrite_sparql_join D node = Inr rs"
  shows "plan_wf \<lparr>plan_schema = node_schema node, plan_rows = rs\<rparr>"
proof -
  have node: "node_ok D node" "lhs node = l" "rhs node = r" "node_filter node = f" "join_type node = ty"
    "node_schema node = join_schema ty (plan_schema l) (plan_schema r)"
    using join_try_new_ok [OF assms(4)] by (auto simp: node_ok_def)
  have "mset (map solution rs) = mset (algebra_join D ty f (map solution (plan_rows l)) (map solution (plan_rows r)))"
    using rewrite_sparql_join_correct [OF assms(1) node(1)] assms(2,3,5) by (simp add: node(2-5))
  then have sols: "solution ` set rs = set (algebra_join D ty f (map solution (plan_rows l)) (map solution (plan_rows r)))"
    by (metis mset_eq_setD set_map)
  have "dom x \<subseteq> Pair None ` set (schema_names (node_schema node)) \<and>
      (\<forall>fl \<in> set (node_schema node). \<not> field_nullable fl \<longrightarrow> x (None, field_name fl) \<noteq> None)"
    if x: "x \<in> set rs" for x
  proof -
    have "row_of (solution x) = x"
      by (rule rewrite_sparql_join_rows [OF assms(1) _ _ assms(5) x]) (simp_all add: node assms(2,3))
    moreover have "solution x \<in> set (algebra_join D ty f (map solution (plan_rows l)) (map solution (plan_rows r)))"
      using x sols by blast
    note join_rows_wf [OF assms(2,3) this, folded node(6)]
    ultimately show ?thesis by (metis dom_row_of row_of_None)
  qed
  moreover have "distinct (schema_names (node_schema node))"
    unfolding node(6) using assms(2,3) by (intro join_schema_distinct) (simp_all add: plan_wf_def)
  ultimately show ?thesis by (simp add: plan_wf_def)
qed

text \<open>C11: The lowering of minus removes exactly the solutions that minus of the SPARQL algebra
  removes: those with a compatible solution on the right that shares a bound variable.\<close>

theorem sparql_minus_correct:
  assumes "datafusion_ok D" "plan_wf (minus_lhs node)" "plan_wf (minus_rhs node)"
  shows "\<exists>rs. rewrite_minus D node = Inr rs \<and>
    mset (map solution rs) =
      mset (algebra_minus (map solution (plan_rows (minus_lhs node))) (map solution (plan_rows (minus_rhs node))))"
  by (rule rewrite_minus_correct [OF assms])

text \<open>Extend binds, in every solution and without touching any other variable, the new
  variable to the value of the expression, or leaves it unbound when the expression gives no term; a
  variable that is already in scope is rejected.\<close>

theorem sparql_extend_correct:
  assumes "datafusion_ok D" "plan_wf p"
  shows "(case extend_try_new p v e ty nullable of
       Inl _ \<Rightarrow> v \<in> set (schema_names (plan_schema p)) \<or> \<not> resolves (plan_schema p) e
     | Inr (node, s) \<Rightarrow> v \<notin> set (schema_names (plan_schema p)) \<and>
         mset (map solution (rewrite_extend_node D node)) = mset (algebra_extend D v e (map solution (plan_rows p))))"
proof (cases "v \<in> set (schema_names (plan_schema p)) \<or> \<not> resolves (plan_schema p) e")
  case False
  let ?ps = "map (\<lambda>n. (n, Column (None, n))) (schema_names (plan_schema p)) @ [(v, e)]"
  have row: "solution (project_row D ?ps r) = (solution r)(v := cell_of_val (eval_expr D (row_of (solution r)) e))"
    if "r \<in> set (plan_rows p)" for r
  proof -
    have "row_of (solution r) = r"
      using assms(2) that row_of_solution [of r "set (schema_names (plan_schema p))"] by (simp add: plan_wf_def)
    with project_extend [of v "schema_names (plan_schema p)" "solution r" D e] False plan_wf_dom [OF assms(2) that]
    show ?thesis by simp
  qed
  have "mset (map solution (project D ?ps (plan_rows p))) = mset (map (\<lambda>r. solution (project_row D ?ps r)) (plan_rows p))"
    using datafusion_okD(3) [OF assms(1)] by (simp add: project_def multiset.map_comp comp_def)
  also have "map (\<lambda>r. solution (project_row D ?ps r)) (plan_rows p) = algebra_extend D v e (map solution (plan_rows p))"
    using row by (simp add: algebra_extend_def)
  finally show ?thesis using False by (simp add: extend_try_new_def rewrite_extend_node_def)
qed (auto simp: extend_try_new_def)

section \<open>Witnesses\<close>

definition demo_field :: "string \<Rightarrow> bool \<Rightarrow> field" where
  "demo_field n nullable = \<lparr>field_name = n, field_encoding = Some PlainTerm, field_nullable = nullable\<rparr>"

definition demo_left :: "nat plan" where
  "demo_left = \<lparr>plan_schema = [demo_field ''x'' False, demo_field ''y'' True],
     plan_rows = [row_of [''x'' \<mapsto> 1, ''y'' \<mapsto> 2], row_of [''x'' \<mapsto> 3]]\<rparr>"

definition demo_right :: "nat plan" where
  "demo_right = \<lparr>plan_schema = [demo_field ''y'' False, demo_field ''z'' False],
     plan_rows = [row_of [''y'' \<mapsto> 2, ''z'' \<mapsto> 7], row_of [''y'' \<mapsto> 5, ''z'' \<mapsto> 8]]\<rparr>"

definition demo_filter :: "nat Expr" where
  "demo_filter = IsNotNull (Column (None, ''z''))"

lemma demo_plans_wf: "plan_wf demo_left" "plan_wf demo_right"
  by (auto simp: plan_wf_def demo_left_def demo_right_def demo_field_def schema_names_def row_of_def split: if_splits)

lemma demo_node: "\<exists>node. join_try_new ref_df demo_left demo_right (Some demo_filter) Left = Inr node"
  by (simp add: join_try_new_def validate_inputs_def compute_sparql_join_columns_def schema_names_def demo_left_def
      demo_right_def demo_field_def extract_encoding_def field_with_name_def resolves_def demo_filter_def
      join_schema_def schema_merge_def Let_def)

theorem sparql_join_correct_witness:
  "\<exists>node rs. join_try_new ref_df demo_left demo_right (Some demo_filter) Left = Inr node \<and>
     rewrite_sparql_join ref_df node = Inr rs \<and>
     mset (map solution rs) = mset (algebra_join ref_df Left (Some demo_filter)
       (map solution (plan_rows demo_left)) (map solution (plan_rows demo_right)))"
  using demo_node sparql_join_correct [OF ref_df_ok demo_plans_wf] by blast

theorem join_schema_sound_witness:
  "\<exists>node rs. join_try_new ref_df demo_left demo_right (Some demo_filter) Left = Inr node \<and>
     rewrite_sparql_join ref_df node = Inr rs \<and> plan_wf \<lparr>plan_schema = node_schema node, plan_rows = rs\<rparr>"
proof -
  obtain node where node: "join_try_new ref_df demo_left demo_right (Some demo_filter) Left = Inr node"
    using demo_node by blast
  then obtain rs where "rewrite_sparql_join ref_df node = Inr rs"
    using rewrite_sparql_join_correct [OF ref_df_ok, of node] join_try_new_ok [OF node] demo_plans_wf by auto
  with node join_schema_sound [OF ref_df_ok demo_plans_wf node] show ?thesis by blast
qed

theorem sparql_minus_correct_witness:
  "\<exists>rs. rewrite_minus ref_df \<lparr>minus_lhs = demo_left, minus_rhs = demo_right\<rparr> = Inr rs \<and>
     mset (map solution rs) = mset (algebra_minus (map solution (plan_rows demo_left)) (map solution (plan_rows demo_right)))"
  using sparql_minus_correct [OF ref_df_ok, of "\<lparr>minus_lhs = demo_left, minus_rhs = demo_right\<rparr>"] demo_plans_wf by simp

theorem sparql_extend_correct_witness:
  "case extend_try_new demo_left ''w'' (Column (None, ''y'')) (Some PlainTerm) True of
     Inl _ \<Rightarrow> False
   | Inr (node, s) \<Rightarrow> mset (map solution (rewrite_extend_node ref_df node)) =
       mset (algebra_extend ref_df ''w'' (Column (None, ''y'')) (map solution (plan_rows demo_left)))"
  using sparql_extend_correct [OF ref_df_ok demo_plans_wf(1), of "''w''" "Column (None, ''y'')" "Some PlainTerm" True]
  by (simp add: extend_try_new_def demo_left_def demo_field_def schema_names_def resolves_def)

end
