(* ===== verification/Bgp_Planner.thy ===== *)
theory Bgp_Planner
  imports Bgp_Properties Sparql_Algebra
begin

text \<open>
  The planner as a whole: preparing the leaf patterns, decoding, the final projection, and the
  correctness of the plan of a basic graph pattern; and the two ways in which the decoding for the
  filters of a cross join goes wrong.
\<close>

section \<open>Leaf patterns\<close>

lemma prepare_patterns_ok:
  assumes L: "physical_ok L" and Z: "Z = (if o1 then set (map snd cols) else {})"
  shows "list_all2 (\<lambda>e r. yields L enc Z e {} (fst r) {} (snd r) \<and> rel_ok r) es rs \<Longrightarrow> \<forall>f \<in> set pending. filter_wf L U f \<Longrightarrow>
    \<forall>e \<in> set es. \<exists>st. compute_statistics L e = Inr st \<Longrightarrow>
    \<exists>ps leafs rest. prepare_patterns L o1 cols needed es pending = Inr (ps, rest) \<and> list_all2 (leaf L enc Z needed) (map fst ps) leafs \<and>
      map fst leafs = rs \<and> \<Union> (snd ` set leafs) \<union> set rest = set pending"
proof (induction es arbitrary: rs pending)
  case Nil
  then show ?case by (intro exI [of _ "[]"] exI [of _ "[]"] exI [of _ pending]) simp
next
  case (Cons e es)
  obtain r rs' where rs: "rs = r # rs'" and y: "yields L enc Z e {} (fst r) {} (snd r)" "rel_ok r"
    and es: "list_all2 (\<lambda>e r. yields L enc Z e {} (fst r) {} (snd r) \<and> rel_ok r) es rs'"
    using Cons.prems(1) by (auto simp: list_all2_Cons1)
  have nz: "set (column_names f) \<inter> Z \<subseteq> {}" if "filter_ready o1 s cols f" for s f
    using that Z by (auto simp: filter_ready_iff split: if_splits)
  obtain e1 G1 rest1 where a1: "apply_ready_filters L o1 e pending cols = Inr (e1, rest1)" "yields L enc Z e1 {} (fst r) (G1 \<union> {}) (snd r)"
    "G1 \<union> set rest1 = set pending" "\<forall>f \<in> G1. set (column_names f) \<subseteq> fst r"
    using apply_ready_ok [OF L _ y(1) Cons.prems(2), of o1 cols] nz by (metis empty_subsetI)
  let ?e2 = "ProjectionExec (needed_projection needed (exec_schema e1)) e1"
  have y2: "yields L enc Z ?e2 {} (fst r \<inter> set needed) (G1 \<union> {}) (snd r)" by (rule needed_projection_step [OF L a1(2)])
  have p1: "\<forall>f \<in> set rest1. filter_wf L U f" using a1(3) Cons.prems(2) by blast
  obtain e3 G2 rest2 where a2: "apply_ready_filters L o1 ?e2 rest1 cols = Inr (e3, rest2)"
    "yields L enc Z e3 {} (fst r \<inter> set needed) (G2 \<union> (G1 \<union> {})) (snd r)"
    "G2 \<union> set rest2 = set rest1" "\<forall>f \<in> G2. set (column_names f) \<subseteq> fst r \<inter> set needed"
    using apply_ready_ok [OF L _ y2 p1, of o1 cols] nz by (metis empty_subsetI)
  obtain st where st: "compute_statistics L e = Inr st" using Cons.prems(3) by auto
  have p2: "\<forall>f \<in> set rest2. filter_wf L U f" using a2(3) p1 by blast
  have st': "\<forall>e \<in> set es. \<exists>st. compute_statistics L e = Inr st" using Cons.prems(3) by simp
  obtain ps leafs rest where IH: "prepare_patterns L o1 cols needed es rest2 = Inr (ps, rest)" "list_all2 (leaf L enc Z needed) (map fst ps) leafs"
    "map fst leafs = rs'" "\<Union> (snd ` set leafs) \<union> set rest = set rest2"
    using Cons.IH [OF es p2 st'] by blast
  have "leaf L enc Z needed e3 (r, G2 \<union> G1)" using a2(2,4) a1(4) y(2) by (auto simp: leaf_def)
  then show ?case
    using a1(1,3) a2(1,3) st IH
    by (intro exI [of _ "(e3, pattern_scan_bytes st) # ps"] exI [of _ "(r, G2 \<union> G1) # leafs"] exI [of _ rest]) (auto simp: rs)
qed

lemma any_input_empty_ok:
  "\<forall>e \<in> set es. \<exists>st. compute_statistics L e = Inr st \<Longrightarrow>
    \<exists>b. any_input_empty L es = Inr b \<and> (b \<longrightarrow> (\<exists>e \<in> set es. \<exists>st. compute_statistics L e = Inr st \<and> num_rows st = Exact 0))"
proof (induction es)
  case (Cons e es)
  then obtain st b where "compute_statistics L e = Inr st" "any_input_empty L es = Inr b"
    "b \<longrightarrow> (\<exists>e \<in> set es. \<exists>st. compute_statistics L e = Inr st \<and> num_rows st = Exact 0)" by auto
  then show ?case by auto
qed (intro exI [of _ False], simp)

lemma bgp_join_empty: "r \<in> set rs \<Longrightarrow> snd r = {#} \<Longrightarrow> snd (bgp_join rs) = {#}"
  by (induction rs) (auto simp: njoin_def)

section \<open>Decoding and the final projection\<close>

lemma decode_columns_for_filters_ok:
  assumes y: "yields L enc Z e {} K F A" and Z: "Z = (if o1 then set (map snd cols) else {})" and oid: "\<forall>n \<in> Z. enc n = Some ObjectId"
  shows "\<exists>e' D K'. decode_columns_for_filters o1 e cols top_needs needs = Inr e' \<and> yields L enc Z e' D K' F A \<and> D \<subseteq> Z \<and>
    K' \<subseteq> K \<and> K \<inter> set top_needs \<subseteq> K' \<and> Z \<inter> set needs \<inter> (K \<inter> set top_needs) \<subseteq> D"
proof (cases o1)
  case False
  then show ?thesis using y Z by (intro exI [of _ e] exI [of _ "{}"] exI [of _ K]) (simp add: decode_columns_for_filters_def)
next
  case True
  let ?s = "exec_schema e"
  let ?Q = "\<lambda>f. field_name f \<in> set (map snd cols) \<and> field_name f \<in> set needs \<and> is_object_id_data_type (field_encoding f)"
  let ?fs = "filter (\<lambda>f. field_name f \<in> set top_needs) ?s"
  let ?ps = "map (\<lambda>f. if ?Q f then DecodeColumn (field_name f) (field_name f) else RetainColumn (field_name f) (field_name f)) ?fs"
  note y' = yieldsD [OF y]
  have oids: "field_encoding f = Some ObjectId" if "f \<in> set ?s" "field_name f \<in> Z" for f using y'(4) oid that by simp
  have missed: "filter (\<lambda>n. n \<notin> set (schema_names ?fs) \<and> has_column ?s n) top_needs = []"
    by (auto simp: filter_empty_conv has_column_iff schema_names_def)
  have names: "set (schema_names ?fs) = K \<inter> set top_needs" using y'(2) by (auto simp: schema_names_def)
  have Q: "?Q f" if "f \<in> set ?s" "field_name f \<in> Z" "field_name f \<in> set needs" for f
    using oids [OF that(1,2)] that(2,3) Z True by (simp add: is_object_id_data_type_def)
  show ?thesis
  proof (cases "list_ex ?Q ?fs")
    case False
    then have "Z \<inter> set needs \<inter> (K \<inter> set top_needs) = {}"
      unfolding names [symmetric] using Q by (auto simp: schema_names_def list_ex_iff)
    then show ?thesis using y True False
      by (intro exI [of _ e] exI [of _ "{}"] exI [of _ K]) (auto simp: decode_columns_for_filters_def Let_def)
  next
    case ex: True
    have dec: "\<forall>f \<in> set ?fs. ?Q f \<longrightarrow> field_encoding f = Some ObjectId" by (simp add: is_object_id_data_type_def)
    note d = decode_step [OF y HOL.refl dec HOL.refl]
    have D: "{} \<union> {n. \<exists>f \<in> set ?fs. ?Q f \<and> field_name f = n} \<subseteq> Z" using Z True by auto
    have "Z \<inter> set needs \<inter> (K \<inter> set top_needs) \<subseteq> {} \<union> {n. \<exists>f \<in> set ?fs. ?Q f \<and> field_name f = n}"
      unfolding names [symmetric] using Q by (auto simp: schema_names_def)
    moreover have "decode_columns_for_filters o1 e cols top_needs needs = Inr (DecodeObjectIdsExec e ?ps)"
      using True ex d(1) unfolding decode_columns_for_filters_def Let_def missed by simp
    ultimately show ?thesis using d(2) D names by blast
  qed
qed

lemma decode_final_columns_ok:
  assumes y: "yields L enc Z e D K F A" and Z: "Z = (if o1 then set (map snd cols) else {})" and oid: "\<forall>n \<in> Z. enc n = Some ObjectId" and D: "D \<subseteq> Z"
  shows "\<exists>e' D'. decode_final_columns o1 e cols = Inr e' \<and> yields L enc Z e' D' K F A \<and> D' \<subseteq> Z \<and> Z \<inter> K \<subseteq> D'"
proof (cases o1)
  case False
  then show ?thesis using y Z D by (intro exI [of _ e] exI [of _ D]) (simp add: decode_final_columns_def)
next
  case True
  let ?s = "exec_schema e" and ?Q = "\<lambda>f. field_name f \<in> set (map snd cols) \<and> is_object_id_data_type (field_encoding f)"
  let ?ps = "map (\<lambda>f. if ?Q f then DecodeColumn (field_name f) (field_name f) else RetainColumn (field_name f) (field_name f)) ?s"
  note y' = yieldsD [OF y]
  have Q: "field_name f \<in> D \<or> ?Q f" if "f \<in> set ?s" "field_name f \<in> Z" for f
    using y'(4) [OF that(1)] oid that(2) Z True by (auto simp: is_object_id_data_type_def)
  show ?thesis
  proof (cases "list_ex ?Q ?s")
    case False
    then have "field_name f \<in> D" if "f \<in> set ?s" "field_name f \<in> Z" for f using Q [OF that] that(1) unfolding list_ex_iff by blast
    then have "Z \<inter> K \<subseteq> D" unfolding y'(2) [symmetric] by (auto simp: schema_names_def)
    then show ?thesis using y True False D by (intro exI [of _ e] exI [of _ D]) (auto simp: decode_final_columns_def Let_def)
  next
    case ex: True
    have dec: "\<forall>f \<in> set ?s. ?Q f \<longrightarrow> field_encoding f = Some ObjectId" by (simp add: is_object_id_data_type_def)
    have fs: "?s = filter (\<lambda>_. True) ?s" by simp
    note d = decode_step [OF y fs dec HOL.refl]
    have "Z \<inter> K \<subseteq> D \<union> {n. \<exists>f \<in> set ?s. ?Q f \<and> field_name f = n}"
    proof
      fix n assume "n \<in> Z \<inter> K"
      then obtain f where "f \<in> set ?s" "field_name f = n" "n \<in> Z" unfolding y'(2) [symmetric] by (auto simp: schema_names_def)
      then show "n \<in> D \<union> {n. \<exists>f \<in> set ?s. ?Q f \<and> field_name f = n}" using Q [of f] by blast
    qed
    moreover have "D \<union> {n. \<exists>f \<in> set ?s. ?Q f \<and> field_name f = n} \<subseteq> Z" using Z True D by auto
    moreover have "decode_final_columns o1 e cols = Inr (DecodeObjectIdsExec e ?ps)"
      using True ex d(1) unfolding decode_final_columns_def Let_def by simp
    ultimately show ?thesis using d(2) unfolding y'(2)
      by (intro exI [of _ "DecodeObjectIdsExec e ?ps"] exI [of _ "D \<union> {n. \<exists>f \<in> set ?s. ?Q f \<and> field_name f = n}"] conjI)
  qed
qed

lemma final_projection_ok:
  "set (schema_names fs) \<subseteq> set (schema_names s) \<Longrightarrow>
    final_projection s fs = Inr (map (\<lambda>f. (the (index_of s (field_name f)), field_name f)) fs)"
proof (induction fs)
  case (Cons f fs)
  then have "index_of s (field_name f) \<noteq> None" using index_of_None [of s "field_name f"] by (simp add: schema_names_def)
  then show ?case using Cons by (auto simp: schema_names_def)
qed simp

abbreviation column_types :: "field list \<Rightarrow> (string \<times> EncodingName option) list" where
  "column_types s \<equiv> map (\<lambda>f. (field_name f, field_encoding f)) s"

lemma final_rows:
  assumes L: "physical_ok L" and y: "yields L enc Z e D K F A" and D: "D \<subseteq> Z" "Z \<inter> K \<subseteq> D" and fs: "set (schema_names fs) \<subseteq> K"
    and types: "\<forall>f \<in> set fs. field_encoding f = (if field_name f \<in> Z then Some PlainTerm else enc (field_name f))"
  shows "\<exists>proj. final_projection (exec_schema e) fs = Inr proj \<and> column_types (exec_schema (ProjectionExec proj e)) = column_types fs \<and>
    mset (run L (ProjectionExec proj e)) = image_mset (\<lambda>x. map (decoded L Z x) (schema_names fs)) (filter_mset (all_hold L Z F) A)"
proof -
  let ?s = "exec_schema e"
  let ?proj = "map (\<lambda>f. (the (index_of ?s (field_name f)), field_name f)) fs"
  note y' = yieldsD [OF y]
  have idx: "\<exists>i. index_of ?s n = Some i" if "n \<in> K" for n using that y'(2) index_of_None [of ?s n] by auto
  have nz: "n \<in> D \<longleftrightarrow> n \<in> Z" if "n \<in> K" for n using D that by blast
  have fsK: "field_name f \<in> K" if "f \<in> set fs" for f using fs that by (auto simp: schema_names_def)
  have "field_encoding (?s ! the (index_of ?s (field_name f))) = field_encoding f" if f: "f \<in> set fs" for f
  proof -
    obtain i where "index_of ?s (field_name f) = Some i" using idx [OF fsK [OF f]] by blast
    then show ?thesis using index_of_SomeD [of ?s "field_name f" i] y'(4) [of "?s ! i"] types f nz [OF fsK [OF f]] by simp
  qed
  then have types': "column_types (exec_schema (ProjectionExec ?proj e)) = column_types fs" by simp
  have row: "map ((!) r) (map fst ?proj) = map (env ?s r) (schema_names fs)" for r
  proof -
    have "r ! the (index_of ?s (field_name f)) = env ?s r (field_name f)" if "f \<in> set fs" for f
      using idx [OF fsK [OF that]] by (auto simp: env_def)
    then show ?thesis by (simp add: schema_names_def)
  qed
  have "mset (run L (ProjectionExec ?proj e)) = image_mset (\<lambda>r. map (env ?s r) (schema_names fs)) (mset (run L e))"
    unfolding run.simps physical_okD(4) [OF L] row by simp
  also have "\<dots> = image_mset (\<lambda>x. map x (schema_names fs)) (image_mset (env ?s) (mset (run L e)))" by (simp add: image_mset.compositionality comp_def)
  also have "\<dots> = image_mset (\<lambda>x. map (decoded L Z x) (schema_names fs)) (filter_mset (all_hold L Z F) A)"
  proof -
    have mp: "map (decoded L D x |` K) (schema_names fs) = map (decoded L Z x) (schema_names fs)" for x
      using fs nz by (intro map_cong HOL.refl) (auto simp: decoded_def restrict_map_def)
    show ?thesis unfolding y'(5) image_mset.compositionality comp_def mp ..
  qed
  finally have "mset (run L (ProjectionExec ?proj e)) = image_mset (\<lambda>x. map (decoded L Z x) (schema_names fs)) (filter_mset (all_hold L Z F) A)" .
  moreover have "final_projection ?s fs = Inr ?proj" using fs y'(2) by (simp add: final_projection_ok)
  ultimately show ?thesis using types' by blast
qed

lemma finish_plan_ok:
  assumes L: "physical_ok L" and Z: "Z = (if o1 then set (map snd (columns_to_decode bgp)) else {})" and oid: "\<forall>n \<in> Z. enc n = Some ObjectId"
    and y: "yields L enc Z e {} K F A" and top: "N \<inter> set top_needs \<subseteq> K"
    and pending: "\<forall>f \<in> set pending. filter_wf L N f \<and> set (column_names f) \<subseteq> set top_needs"
    and s: "set (schema_names (bgp_schema bgp)) \<subseteq> N \<inter> set top_needs"
      "\<forall>f \<in> set (bgp_schema bgp). field_encoding f = (if field_name f \<in> Z then Some PlainTerm else enc (field_name f))"
  shows "\<exists>e'. finish_plan L o1 bgp top_needs e pending = Inr e' \<and> column_types (exec_schema e') = column_types (bgp_schema bgp) \<and>
    mset (run L e') = image_mset (\<lambda>x. map (decoded L Z x) (schema_names (bgp_schema bgp))) (filter_mset (all_hold L Z (set pending \<union> F)) A)"
proof -
  let ?needs = "concat (map column_names pending)"
  obtain e1 D1 K1 where d1: "decode_columns_for_filters o1 e (columns_to_decode bgp) top_needs ?needs = Inr e1" "yields L enc Z e1 D1 K1 F A"
    "D1 \<subseteq> Z" "K1 \<subseteq> K" "K \<inter> set top_needs \<subseteq> K1" "Z \<inter> set ?needs \<inter> (K \<inter> set top_needs) \<subseteq> D1"
    using decode_columns_for_filters_ok [OF y Z oid, of top_needs ?needs] by blast
  have cols: "set (column_names f) \<subseteq> K \<inter> set top_needs" if "f \<in> set pending" for f using pending that filter_wf_names [of L N f] top by blast
  have cZ: "set (column_names f) \<inter> Z \<subseteq> D1" if "f \<in> set pending" for f using d1(6) cols [OF that] that by auto
  have wf: "\<forall>f \<in> set pending. filter_wf L N f" using pending by blast
  obtain e2 G rest where a: "apply_ready_filters L o1 e1 pending [] = Inr (e2, rest)" "yields L enc Z e2 D1 K1 (G \<union> F) A" "G \<union> set rest = set pending"
    "rest = filter (\<lambda>f. \<not> filter_ready o1 (exec_schema e1) [] f) pending"
    using apply_ready_ok [OF L d1(3,2) wf cZ, of o1 "[]"] by blast
  have "rest = []" using a(4) cols d1(5) yieldsD(2) [OF d1(2)] by (auto simp: filter_empty_conv filter_ready_iff)
  then have G: "G = set pending" using a(3) by simp
  obtain e4 D4 where d4: "decode_final_columns o1 e2 (columns_to_decode bgp) = Inr e4" "yields L enc Z e4 D4 K1 (G \<union> F) A" "D4 \<subseteq> Z" "Z \<inter> K1 \<subseteq> D4"
    using decode_final_columns_ok [OF a(2) Z oid d1(3)] by blast
  have "set (schema_names (bgp_schema bgp)) \<subseteq> K1" using s(1) top d1(5) by blast
  then obtain proj where "final_projection (exec_schema e4) (bgp_schema bgp) = Inr proj" "column_types (exec_schema (ProjectionExec proj e4)) = column_types (bgp_schema bgp)"
    "mset (run L (ProjectionExec proj e4)) = image_mset (\<lambda>x. map (decoded L Z x) (schema_names (bgp_schema bgp))) (filter_mset (all_hold L Z (G \<union> F)) A)"
    using final_rows [OF L d4(2-4) _ s(2)] by blast
  moreover have "finish_plan L o1 bgp top_needs e pending = Inr (ProjectionExec proj e4)" if "final_projection (exec_schema e4) (bgp_schema bgp) = Inr proj" for proj
    using d1(1) a(1) d4(1) \<open>rest = []\<close> that by (simp add: finish_plan_def)
  ultimately show ?thesis using G by blast
qed

section \<open>The node\<close>

definition rel_of :: "'t PhysicalLib \<Rightarrow> 't Exec \<Rightarrow> 't rel" where
  "rel_of L e = (set (schema_names (exec_schema e)), image_mset (env (exec_schema e)) (mset (run L e)))"

text \<open>The inputs of a plan: columns with different names and one encoding for all columns of a name, rows that fit the
  schema, and statistics that are exact where they say so.\<close>

definition input_wf :: "'t PhysicalLib \<Rightarrow> (string \<Rightarrow> EncodingName option) \<Rightarrow> 't Exec \<Rightarrow> bool" where
  "input_wf L enc e \<longleftrightarrow> distinct (schema_names (exec_schema e)) \<and> (\<forall>row \<in> set (run L e). length row = length (exec_schema e)) \<and>
     (\<forall>f \<in> set (exec_schema e). field_encoding f = enc (field_name f)) \<and>
     (\<exists>st. compute_statistics L e = Inr st \<and> (num_rows st = Exact 0 \<longrightarrow> run L e = []))"

lemma input_yields: "input_wf L enc e \<Longrightarrow> yields L enc Z e {} (fst (rel_of L e)) {} (snd (rel_of L e)) \<and> rel_ok (rel_of L e)"
proof -
  assume wf: "input_wf L enc e"
  have r: "env (exec_schema e) r |` set (schema_names (exec_schema e)) = env (exec_schema e) r" for r by (rule restrict_dom [OF env_dom])
  moreover have "sols_on (set (schema_names (exec_schema e))) (image_mset (env (exec_schema e)) (mset (run L e)))"
    using env_dom by (force simp: sols_on_def)
  ultimately show ?thesis using wf by (simp add: yields_def rel_of_def input_wf_def image_mset.compositionality comp_def r)
qed

lemma set_merge_schemas: "set (merge_schemas ss) \<subseteq> \<Union> (set ` set ss)" "set (schema_names (merge_schemas ss)) = \<Union> ((\<lambda>s. set (schema_names s)) ` set ss)"
proof -
  have "set (foldl schema_merge s ss) \<subseteq> set s \<union> \<Union> (set ` set ss)" for s and ss :: "field list list"
  proof (induction ss arbitrary: s)
    case (Cons t ss)
    have "set (schema_merge s t) \<subseteq> set s \<union> set t" by (auto simp: schema_merge_def)
    then show ?case using Cons [of "schema_merge s t"] by auto
  qed simp
  then show "set (merge_schemas ss) \<subseteq> \<Union> (set ` set ss)" by (cases ss) simp_all
  have m: "set (schema_names (schema_merge s t)) = set (schema_names s) \<union> set (schema_names t)" for s t
    by (auto simp: schema_merge_def schema_names_def)
  have "set (schema_names (foldl schema_merge s ss)) = set (schema_names s) \<union> \<Union> ((\<lambda>s. set (schema_names s)) ` set ss)" for s and ss :: "field list list"
    by (induction ss arbitrary: s) (auto simp: m)
  then show "set (schema_names (merge_schemas ss)) = \<Union> ((\<lambda>s. set (schema_names s)) ` set ss)" by (cases ss) (simp_all add: schema_names_def)
qed

lemma field_from_column_Some: "field_from_column s c = Some f \<Longrightarrow> fst c = None \<and> f \<in> set s \<and> field_name f = snd c"
  by (auto simp: field_from_column_def split: if_splits dest: field_with_name_Some)

lemma object_id_columns_set:
  "object_id_columns s cs = Inr r \<Longrightarrow> c \<in> set cs \<Longrightarrow> field_from_column s c = Some f \<Longrightarrow> field_encoding f = Some ObjectId \<Longrightarrow> c \<in> set r"
  by (induction cs arbitrary: r) (auto simp: map_ok_eq_Inr_iff is_object_id_data_type_def split: option.splits if_splits)

lemma project_fields_names: "project_fields s cs = Inr fs \<Longrightarrow> set fs \<subseteq> set s"
  by (induction cs arbitrary: fs) (auto simp: map_ok_eq_Inr_iff split: option.splits dest: field_from_column_Some)

lemma bgp_try_new_facts:
  assumes new: "bgp_try_new schema_of ps fs proj cols = Inr bgp"
    and enc: "\<forall>p \<in> set ps. \<forall>f \<in> set (schema_of p). field_encoding f = enc (field_name f)"
  shows "patterns bgp = ps" "filters bgp = fs"
    "\<forall>c \<in> set (columns_to_decode bgp). fst c = None \<and> enc (snd c) = Some ObjectId \<and> snd c \<in> set (schema_names (merge_schemas (map schema_of ps)))"
    "\<forall>f \<in> set fs. resolves (merge_schemas (map schema_of ps)) f \<longrightarrow>
      (\<forall>n \<in> set (column_names f). enc n = Some ObjectId \<longrightarrow> n \<in> set (map snd (columns_to_decode bgp)))"
    "set (schema_names (bgp_schema bgp)) \<subseteq> set (schema_names (merge_schemas (map schema_of ps)))"
    "\<forall>f \<in> set (bgp_schema bgp). field_encoding f = (if field_name f \<in> set (map snd (columns_to_decode bgp)) then Some PlainTerm else enc (field_name f))"
proof -
  let ?m = "merge_schemas (map schema_of ps)"
  obtain ref s where ref: "extract_referenced_columns_if_object_id ?m fs = Inr ref" and val: "validate_columns_to_decode ?m (btree_set (cols @ ref)) = Inr ()"
    and s: "compute_schema ?m proj (btree_set (cols @ ref)) = Inr s"
    and bgp: "bgp = \<lparr>patterns = ps, bgp_schema = s, filters = fs, projection = proj, columns_to_decode = btree_set (cols @ ref)\<rparr>"
    using new by (auto simp: bgp_try_new_def Let_def and_then_eq_Inr_iff map_ok_eq_Inr_iff)
  show "patterns bgp = ps" "filters bgp = fs" by (simp_all add: bgp)
  have encm: "field_encoding f = enc (field_name f)" if "f \<in> set ?m" for f using set_merge_schemas(1) [of "map schema_of ps"] enc that by auto
  have cols: "\<exists>f. field_from_column ?m c = Some f \<and> field_encoding f = Some ObjectId" if "c \<in> set (btree_set (cols @ ref))" for c
  proof -
    have "find (\<lambda>c. case field_from_column ?m c of None \<Rightarrow> True | Some f \<Rightarrow> \<not> is_object_id_data_type (field_encoding f)) (btree_set (cols @ ref)) = None"
      using val unfolding validate_columns_to_decode_def by (auto split: option.splits)
    then have "\<not> (case field_from_column ?m c of None \<Rightarrow> True | Some f \<Rightarrow> \<not> is_object_id_data_type (field_encoding f))"
      using that unfolding find_None_iff by blast
    then show ?thesis by (simp add: is_object_id_data_type_def split: option.splits)
  qed
  show c: "\<forall>c \<in> set (columns_to_decode bgp). fst c = None \<and> enc (snd c) = Some ObjectId \<and> snd c \<in> set (schema_names ?m)"
  proof
    fix c assume "c \<in> set (columns_to_decode bgp)"
    then have "c \<in> set (btree_set (cols @ ref))" by (simp add: bgp)
    then obtain f where "field_from_column ?m c = Some f" "field_encoding f = Some ObjectId" using cols by blast
    then show "fst c = None \<and> enc (snd c) = Some ObjectId \<and> snd c \<in> set (schema_names ?m)"
      using field_from_column_Some [of ?m c f] encm [of f] image_eqI [of "snd c" field_name f "set ?m"] by (simp add: schema_names_def)
  qed
  show "\<forall>f \<in> set fs. resolves ?m f \<longrightarrow> (\<forall>n \<in> set (column_names f). enc n = Some ObjectId \<longrightarrow> n \<in> set (map snd (columns_to_decode bgp)))"
  proof (intro ballI impI)
    fix f n assume f: "f \<in> set fs" "resolves ?m f" "n \<in> set (column_names f)" "enc n = Some ObjectId"
    then obtain k where k: "k \<in> set (expr_columns f)" "snd k = n" by (auto simp: column_names_def)
    then have "fst k = None" "n \<in> set (schema_names ?m)" using f(2) by (auto simp: resolves_def)
    then obtain g where g: "field_from_column ?m k = Some g" using field_with_name_None [of ?m n] k(2) by (auto simp: field_from_column_def)
    then have "field_encoding g = Some ObjectId" using field_from_column_Some [OF g] encm [of g] k(2) f(4) by auto
    moreover have "k \<in> set (btree_set (concat (map expr_columns fs)))" using f(1) k(1) by (auto simp: btree_set_def)
    ultimately have "k \<in> set ref" using object_id_columns_set [OF ref [unfolded extract_referenced_columns_if_object_id_def] _ g] by blast
    then show "n \<in> set (map snd (columns_to_decode bgp))" using k(2) by (force simp: bgp btree_set_def)
  qed
  obtain fs0 where fs0: "set fs0 \<subseteq> set ?m" "s = map (\<lambda>f. if (None, field_name f) \<in> set (btree_set (cols @ ref)) then f\<lparr>field_encoding := Some PlainTerm\<rparr> else f) fs0"
    using s by (cases proj) (auto simp: compute_schema_def map_ok_eq_Inr_iff dest: project_fields_names)
  show "set (schema_names (bgp_schema bgp)) \<subseteq> set (schema_names ?m)" using fs0 by (auto simp: bgp schema_names_def)
  have dec: "(None, n) \<in> set (columns_to_decode bgp) \<longleftrightarrow> n \<in> set (map snd (columns_to_decode bgp))" for n using c by force
  show "\<forall>f \<in> set (bgp_schema bgp). field_encoding f = (if field_name f \<in> set (map snd (columns_to_decode bgp)) then Some PlainTerm else enc (field_name f))"
  proof
    fix f assume "f \<in> set (bgp_schema bgp)"
    then obtain g where g: "g \<in> set fs0" "f = (if (None, field_name g) \<in> set (columns_to_decode bgp) then g\<lparr>field_encoding := Some PlainTerm\<rparr> else g)"
      by (auto simp: fs0 bgp)
    then have "field_encoding g = enc (field_name g)" using fs0(1) encm [of g] by blast
    then show "field_encoding f = (if field_name f \<in> set (map snd (columns_to_decode bgp)) then Some PlainTerm else enc (field_name f))"
      using g(2) unfolding dec by simp
  qed
qed

lemma split_conjunction_holds:
  assumes L: "physical_ok L"
  shows "\<forall>g \<in> set (split_conjunction f). df_is_boolean (df L) g \<Longrightarrow>
    is_truth (eval_expr (df L) (unqualified x) f) \<and> (holds L f x \<longleftrightarrow> (\<forall>g \<in> set (split_conjunction f). holds L g x))"
proof (induction f rule: split_conjunction.induct)
  case (1 a b)
  then have "df_and (df L) (eval_expr (df L) (unqualified x) a) (eval_expr (df L) (unqualified x) b) =
      sql_and (eval_expr (df L) (unqualified x) a) (eval_expr (df L) (unqualified x) b)"
    using expr_okD(1) [OF physical_okD(1) [OF L]] by simp
  then show ?case using 1 by (auto simp: holds_def)
qed (use expr_okD(7) [OF physical_okD(1) [OF L]] in \<open>auto simp del: eval_expr.simps\<close>)

lemma split_conjunction_columns: "set (expr_columns f) = \<Union> ((\<lambda>g. set (expr_columns g)) ` set (split_conjunction f))"
  by (induction f rule: split_conjunction.induct) auto

lemma count_list_shared: "i < j \<Longrightarrow> j < length ss \<Longrightarrow> n \<in> set (ss ! i) \<Longrightarrow> n \<in> set (ss ! j) \<Longrightarrow> 1 < count_list (concat ss) n"
proof (induction ss arbitrary: i j)
  case (Cons s ss)
  show ?case
  proof (cases i)
    case 0
    then have "n \<in> set s" "n \<in> set (concat ss)" using Cons.prems nth_mem [of "j - 1" ss] by (auto simp: nth_Cons')
    then have "count_list s n \<noteq> 0" "count_list (concat ss) n \<noteq> 0" by (simp_all add: count_list_0_iff)
    then show ?thesis by simp
  next
    case (Suc i')
    then obtain j' where "j = Suc j'" "i' < j'" using Cons.prems(1) by (cases j) auto
    then have "1 < count_list (concat ss) n" using Cons.IH [of i' j'] Cons.prems Suc by simp
    then show ?thesis by simp
  qed
qed simp

lemma sorted_wrt_pairs:
  assumes sym: "\<And>x y. R x y \<Longrightarrow> R y x"
  shows "sorted_wrt R xs \<longleftrightarrow> (\<forall>x y. {#x, y#} \<subseteq># mset xs \<longrightarrow> R x y)"
proof
  show "sorted_wrt R xs \<Longrightarrow> \<forall>x y. {#x, y#} \<subseteq># mset xs \<longrightarrow> R x y"
  proof (induction xs)
    case (Cons a xs)
    have "R x y" if s: "{#x, y#} \<subseteq># add_mset a (mset xs)" for x y
    proof -
      consider "x = a" | "y = a" | "x \<noteq> a" "y \<noteq> a" by blast
      then show ?thesis
      proof cases
        case 1
        then have "y \<in> set xs" using s by simp
        then show ?thesis using Cons.prems 1 by simp
      next
        case 2
        then have "x \<in> set xs" using s by (simp add: add_mset_commute)
        then show ?thesis using Cons.prems 2 sym by simp
      next
        case 3
        have "{#x, y#} \<subseteq># mset xs"
          unfolding subseteq_mset_def
        proof
          fix b show "count {#x, y#} b \<le> count (mset xs) b" using s [unfolded subseteq_mset_def, rule_format, of b] 3 by (auto split: if_splits)
        qed
        then show ?thesis using Cons by simp
      qed
    qed
    then show ?case by simp
  qed simp
  show "\<forall>x y. {#x, y#} \<subseteq># mset xs \<longrightarrow> R x y \<Longrightarrow> sorted_wrt R xs"
  proof (induction xs)
    case (Cons a xs)
    have "R a y" if "y \<in> set xs" for y using Cons.prems that by simp
    moreover have "{#x, y#} \<subseteq># mset xs \<Longrightarrow> {#x, y#} \<subseteq># mset (a # xs)" for x y
      by (metis mset.simps(2) mset_subset_eq_add_right add_mset_add_single subset_mset.order_trans mset_subset_eq_add_left)
    ultimately show ?case using Cons by simp
  qed simp
qed

lemma shared_columns_pairs:
  "sorted_wrt (\<lambda>s t. set (schema_names s) \<inter> set (schema_names t) \<subseteq> set (shared_columns ss)) ss"
proof -
  have "n \<in> set (shared_columns ss)" if "i < j" "j < length ss" "n \<in> set (schema_names (ss ! i))" "n \<in> set (schema_names (ss ! j))" for i j n
  proof -
    have "1 < count_list (concat (map schema_names ss)) n" using count_list_shared [of i j "map schema_names ss" n] that by simp
    moreover from this have "n \<in> set (concat (map schema_names ss))" by (metis count_notin not_less_zero)
    ultimately show ?thesis by (simp add: shared_columns_def Let_def)
  qed
  then show ?thesis unfolding sorted_wrt_iff_nth_less by blast
qed

section \<open>The joins of all patterns\<close>

lemma bgp_join_single: "bgp_join [r] = r"
  by (cases r) (simp add: njoin_def agree_def)

lemma connected_perm: "mset rs = mset qs \<Longrightarrow> connected rs = connected qs"
  by (simp add: connected_def)

text \<open>The order of the prepared patterns is that of their sizes; whatever it is, the columns that two of them share are kept.\<close>

lemma sorted_leafs:
  assumes leafs: "list_all2 (leaf L enc Z needed) (map fst ps) leafs" and rs: "map fst leafs = map (rel_of L) inputs"
    and needed: "set (shared_columns (map exec_schema inputs)) \<subseteq> set needed"
  shows "\<exists>leafs'. list_all2 (leaf L enc Z needed) (map fst (sort_key snd ps)) leafs' \<and> mset leafs' = mset leafs \<and>
    sorted_wrt (\<lambda>p q. fst (fst p) \<inter> fst (fst q) \<subseteq> set needed) leafs'"
proof -
  let ?R = "\<lambda>r q :: 'a rel. fst r \<inter> fst q \<subseteq> set needed"
  have ms: "mset (map fst (sort_key snd ps)) = mset (map fst ps)" by simp
  obtain leafs' where l: "list_all2 (leaf L enc Z needed) (map fst (sort_key snd ps)) leafs'" "mset leafs' = mset leafs"
    using list_all2_reorder_left_invariance [OF leafs ms] by blast
  have "sorted_wrt (\<lambda>e d. set (schema_names (exec_schema e)) \<inter> set (schema_names (exec_schema d)) \<subseteq> set (shared_columns (map exec_schema inputs))) inputs"
    using shared_columns_pairs [of "map exec_schema inputs"] by (simp add: sorted_wrt_map)
  then have "sorted_wrt (\<lambda>e d. ?R (rel_of L e) (rel_of L d)) inputs"
    using needed by (elim sorted_wrt_mono_rel [rotated]) (auto simp: rel_of_def)
  then have "sorted_wrt ?R (map fst leafs)" by (simp add: rs sorted_wrt_map)
  moreover have "mset (map fst leafs') = mset (map fst leafs)" using l(2) by simp
  ultimately have "sorted_wrt ?R (map fst leafs')"
    using sorted_wrt_pairs [of ?R "map fst leafs"] sorted_wrt_pairs [of ?R "map fst leafs'"] by (simp add: inf_commute)
  then show ?thesis using l by (auto simp: sorted_wrt_map)
qed

lemma plan_joins_ok:
  assumes L: "physical_ok L" and Z: "Z = (if o1 then set (map snd cols) else {})" and wf: "\<forall>e \<in> set inputs. input_wf L enc e" and ne: "inputs \<noteq> []"
    and needed: "set needed = set top_needs \<union> set (shared_columns (map exec_schema inputs))" and pending: "\<forall>f \<in> set pending. filter_wf L U f"
    and con: "connected (map (rel_of L) inputs) \<or> (\<forall>f \<in> set pending. set (column_names f) \<inter> Z = {})"
  shows "\<exists>ps rest e rest2 K F. prepare_patterns L o1 cols needed inputs pending = Inr (ps, rest) \<and>
    join_patterns L o1 top_needs cols (hd (map fst (sort_key snd ps))) (tl (map fst (sort_key snd ps))) rest = Inr (e, rest2) \<and>
    yields L enc Z e {} K F (snd (bgp_join (map (rel_of L) inputs))) \<and> fst (bgp_join (map (rel_of L) inputs)) \<inter> set top_needs \<subseteq> K \<and>
    F \<union> set rest2 = set pending \<and> set rest2 \<subseteq> set pending"
proof -
  let ?rs = "map (rel_of L) inputs"
  have "list_all2 (\<lambda>e r. yields L enc Z e {} (fst r) {} (snd r) \<and> rel_ok r) inputs ?rs"
    using wf input_yields [of L enc _ Z] by (simp add: list_all2_map2 list_all2_same)
  moreover have "\<forall>e \<in> set inputs. \<exists>st. compute_statistics L e = Inr st" using wf by (auto simp: input_wf_def)
  ultimately obtain ps leafs rest where pp: "prepare_patterns L o1 cols needed inputs pending = Inr (ps, rest)"
    "list_all2 (leaf L enc Z needed) (map fst ps) leafs" "map fst leafs = ?rs" "\<Union> (snd ` set leafs) \<union> set rest = set pending"
    using prepare_patterns_ok [OF L Z _ pending, of enc inputs ?rs needed] by blast
  have nd: "set (shared_columns (map exec_schema inputs)) \<subseteq> set needed" "set top_needs \<subseteq> set needed" using needed by simp_all
  obtain leafs' where l: "list_all2 (leaf L enc Z needed) (map fst (sort_key snd ps)) leafs'" "mset leafs' = mset leafs"
    "sorted_wrt (\<lambda>p q. fst (fst p) \<inter> fst (fst q) \<subseteq> set needed) leafs'"
    using sorted_leafs [OF pp(2,3) nd(1)] by blast
  have "leafs' \<noteq> []" using l(2) pp(3) ne by auto
  then obtain p qs where ls: "leafs' = p # qs" by (cases leafs') auto
  then obtain e es where es: "map fst (sort_key snd ps) = e # es" "leaf L enc Z needed e p" "list_all2 (leaf L enc Z needed) es qs"
    using l(1) by (auto simp: list_all2_Cons2)
  have jp: "joined_plan L enc Z top_needs e [fst p] (fst (fst p) \<inter> set needed) (snd p)"
    using es(2) nd(2) unfolding joined_plan_def bgp_join_single leaf_def by auto
  have shared: "\<forall>q \<in> set qs. fst (bgp_join [fst p]) \<inter> fst (fst q) \<subseteq> fst (fst p) \<inter> set needed \<inter> set needed"
    using l(3) unfolding bgp_join_single ls by auto
  have pairs: "sorted_wrt (\<lambda>p q. fst (fst p) \<inter> fst (fst q) \<subseteq> set needed) qs" using l(3) by (simp add: ls)
  have rest: "\<forall>f \<in> set rest. filter_wf L U f" using pp(4) pending by blast
  have perm: "mset ([fst p] @ map fst qs) = mset ?rs" using l(2) pp(3) by (metis ls append_Cons append_Nil list.simps(9) mset_map)
  have con': "connected ([fst p] @ map fst qs) \<and> [fst p] \<noteq> [] \<or> (\<forall>f \<in> set rest. set (column_names f) \<inter> Z = {})"
    using con pp(4) connected_perm [OF perm] by blast
  obtain e' K F rest2 all where j: "join_patterns L o1 top_needs cols e es rest = Inr (e', rest2)" "mset all = mset ([fst p] @ map fst qs)"
    "joined_plan L enc Z top_needs e' all K F" "F \<union> set rest2 = snd p \<union> \<Union> (snd ` set qs) \<union> set rest" "set rest2 \<subseteq> set rest"
    using join_patterns_ok [OF L Z nd(2) jp es(3) shared pairs rest con'] by (elim exE conjE) (rule that)
  have "bgp_join all = bgp_join ?rs" using j(2,3) perm by (intro bgp_join_perm) (simp_all add: joined_plan_def)
  moreover have "set leafs = insert p (set qs)" using mset_eq_setD [OF l(2)] by (simp add: ls)
  ultimately show ?thesis
    using pp(1,4) es(1) j(1,3,4,5) unfolding joined_plan_def
    by (intro exI [of _ ps] exI [of _ rest] exI [of _ e'] exI [of _ rest2] exI [of _ K] exI [of _ F]) auto
qed

section \<open>Planning a basic graph pattern\<close>

lemma flat_filters_wf:
  assumes "\<forall>f \<in> set fs. resolves s f \<and> (\<forall>g \<in> set (split_conjunction f). df_is_boolean (df L) g)"
  shows "\<forall>g \<in> set (concat (map split_conjunction fs)). filter_wf L (set (schema_names s)) g \<and> (\<exists>f \<in> set fs. set (column_names g) \<subseteq> set (column_names f))"
proof
  fix g assume "g \<in> set (concat (map split_conjunction fs))"
  then obtain f where f: "f \<in> set fs" "g \<in> set (split_conjunction f)" by auto
  then have "set (expr_columns g) \<subseteq> set (expr_columns f)" using split_conjunction_columns [of f] by blast
  moreover have "resolves s f" "df_is_boolean (df L) g" using assms f by blast+
  ultimately show "filter_wf L (set (schema_names s)) g \<and> (\<exists>f \<in> set fs. set (column_names g) \<subseteq> set (column_names f))"
    using f(1) by (auto simp: filter_wf_def resolves_def column_names_def)
qed

lemma flat_filters_hold:
  assumes "physical_ok L" "\<forall>f \<in> set fs. \<forall>g \<in> set (split_conjunction f). df_is_boolean (df L) g"
  shows "(\<forall>g \<in> set (concat (map split_conjunction fs)). holds L g x) \<longleftrightarrow> (\<forall>f \<in> set fs. holds L f x)"
  using split_conjunction_holds [OF assms(1), where x = x] assms(2) by auto

text \<open>The answers of a basic graph pattern: the joined solutions on which the filters hold, decoded, with the columns of the schema.\<close>

definition bgp_answers :: "'t PhysicalLib \<Rightarrow> ('p, 't) BgpNode \<Rightarrow> 't rel list \<Rightarrow> 't prow multiset" where
  "bgp_answers L bgp rs =
     (let dec = decoded L (set (map snd (columns_to_decode bgp))) in
      image_mset (\<lambda>x. map (dec x) (schema_names (bgp_schema bgp)))
        (filter_mset (\<lambda>x. \<forall>f \<in> set (filters bgp). holds L f (dec x)) (snd (bgp_join rs))))"

lemma plan_extension_prepared:
  assumes L: "physical_ok L" and wf: "\<forall>e \<in> set inputs. input_wf L enc e" and ne: "inputs \<noteq> []" "patterns bgp \<noteq> []"
    and empty: "any_input_empty L inputs = Inr False"
    and Z: "set (map snd (columns_to_decode bgp)) = (if o1 then set (map snd (columns_to_decode bgp)) else {})"
    and oid: "\<forall>n \<in> set (map snd (columns_to_decode bgp)). enc n = Some ObjectId"
    and fs: "\<forall>g \<in> set (concat (map split_conjunction (filters bgp))). filter_wf L (fst (bgp_join (map (rel_of L) inputs))) g"
    and con: "connected (map (rel_of L) inputs) \<or>
      (\<forall>g \<in> set (concat (map split_conjunction (filters bgp))). set (column_names g) \<inter> set (map snd (columns_to_decode bgp)) = {})"
    and s: "set (schema_names (bgp_schema bgp)) \<subseteq> fst (bgp_join (map (rel_of L) inputs))"
      "\<forall>f \<in> set (bgp_schema bgp). field_encoding f = (if field_name f \<in> set (map snd (columns_to_decode bgp)) then Some PlainTerm else enc (field_name f))"
  shows "\<exists>e. plan_extension L o1 bgp inputs = Inr e \<and> column_types (exec_schema e) = column_types (bgp_schema bgp) \<and>
    mset (run L e) = image_mset (\<lambda>x. map (decoded L (set (map snd (columns_to_decode bgp))) x) (schema_names (bgp_schema bgp)))
      (filter_mset (all_hold L (set (map snd (columns_to_decode bgp))) (set (concat (map split_conjunction (filters bgp))))) (snd (bgp_join (map (rel_of L) inputs))))"
proof -
  let ?flat = "concat (map split_conjunction (filters bgp))" and ?cols = "columns_to_decode bgp"
  let ?top = "top_level_needs bgp ?flat"
  let ?needed = "?top @ shared_columns (map exec_schema inputs)"
  have needed: "set ?needed = set ?top \<union> set (shared_columns (map exec_schema inputs))" by simp
  obtain ps rest e rest2 K F where j: "prepare_patterns L o1 ?cols ?needed inputs ?flat = Inr (ps, rest)"
    "join_patterns L o1 ?top ?cols (hd (map fst (sort_key snd ps))) (tl (map fst (sort_key snd ps))) rest = Inr (e, rest2)"
    "yields L enc (set (map snd ?cols)) e {} K F (snd (bgp_join (map (rel_of L) inputs)))"
    "fst (bgp_join (map (rel_of L) inputs)) \<inter> set ?top \<subseteq> K" "F \<union> set rest2 = set ?flat" "set rest2 \<subseteq> set ?flat"
    using plan_joins_ok [OF L Z wf ne(1) needed fs con] by (elim exE conjE) (rule that)
  have "set (column_names f) \<subseteq> set ?top" if "f \<in> set ?flat" for f using that by (force simp: top_level_needs_def)
  then have "\<forall>f \<in> set rest2. filter_wf L (fst (bgp_join (map (rel_of L) inputs))) f \<and> set (column_names f) \<subseteq> set ?top"
    using fs j(6) by blast
  moreover have "set (schema_names (bgp_schema bgp)) \<subseteq> fst (bgp_join (map (rel_of L) inputs)) \<inter> set ?top"
    using s(1) by (auto simp: top_level_needs_def)
  ultimately obtain e' where e': "finish_plan L o1 bgp ?top e rest2 = Inr e'" "column_types (exec_schema e') = column_types (bgp_schema bgp)"
    "mset (run L e') = image_mset (\<lambda>x. map (decoded L (set (map snd ?cols)) x) (schema_names (bgp_schema bgp)))
      (filter_mset (all_hold L (set (map snd ?cols)) (set rest2 \<union> F)) (snd (bgp_join (map (rel_of L) inputs))))"
    using finish_plan_ok [OF L Z oid j(3,4) _ _ s(2)] by blast
  have "set rest2 \<union> F = set ?flat" using j(5) by blast
  moreover have "plan_extension L o1 bgp inputs = Inr e'"
    unfolding plan_extension_def Let_def prepare_and_sort_patterns_def empty and_then_simps using ne(2) j(1,2) e'(1) by simp
  ultimately show ?thesis using e'(2,3) by (intro exI [of _ e']) (simp only: HOL.simp_thms)
qed

lemma plan_extension_correct:
  assumes "physical_ok L" "\<forall>e \<in> set inputs. input_wf L enc e" "inputs \<noteq> []"
    and "bgp_try_new schema_of ps fs proj cols = Inr bgp" "map schema_of ps = map exec_schema inputs"
    and "use_oids \<or> (\<forall>n. enc n \<noteq> Some ObjectId)"
    and "\<forall>f \<in> set fs. resolves (merge_schemas (map exec_schema inputs)) f \<and> (\<forall>g \<in> set (split_conjunction f). df_is_boolean (df L) g)"
    and "connected (map (rel_of L) inputs) \<or> (\<forall>f \<in> set fs. \<forall>n \<in> set (column_names f). enc n \<noteq> Some ObjectId)"
  shows "\<exists>e. plan_extension L use_oids bgp inputs = Inr e \<and> column_types (exec_schema e) = column_types (bgp_schema bgp) \<and>
    mset (run L e) = bgp_answers L bgp (map (rel_of L) inputs)"
proof -
  let ?m = "merge_schemas (map exec_schema inputs)" and ?rs = "map (rel_of L) inputs" and ?Z = "set (map snd (columns_to_decode bgp))"
  have "\<forall>s \<in> set (map exec_schema inputs). \<forall>f \<in> set s. field_encoding f = enc (field_name f)" using assms(2) by (simp add: input_wf_def)
  then have enc: "\<forall>p \<in> set ps. \<forall>f \<in> set (schema_of p). field_encoding f = enc (field_name f)" unfolding assms(5) [symmetric] by simp
  note new = bgp_try_new_facts [OF assms(4) enc, unfolded assms(5)]
  have ps: "ps \<noteq> []" using assms(3,5) by auto
  have N: "fst (bgp_join ?rs) = set (schema_names ?m)" by (simp add: fst_bgp_join set_merge_schemas(2) rel_of_def)
  have oid: "\<forall>n \<in> ?Z. enc n = Some ObjectId" using new(3) by auto
  then have Z: "?Z = (if use_oids then ?Z else {})" using assms(6) by (metis equals0I)
  note flat = flat_filters_wf [OF assms(7)]
  have con: "connected ?rs \<or> (\<forall>g \<in> set (concat (map split_conjunction fs)). set (column_names g) \<inter> ?Z = {})"
    using assms(8) flat oid by blast
  have answers: "bgp_answers L bgp ?rs = image_mset (\<lambda>x. map (decoded L ?Z x) (schema_names (bgp_schema bgp)))
      (filter_mset (all_hold L ?Z (set (concat (map split_conjunction fs)))) (snd (bgp_join ?rs)))"
    unfolding bgp_answers_def Let_def new(2) using flat_filters_hold [OF assms(1), of fs] assms(7) by simp
  obtain b where b: "any_input_empty L inputs = Inr b" "b \<longrightarrow> (\<exists>e \<in> set inputs. \<exists>st. compute_statistics L e = Inr st \<and> num_rows st = Exact 0)"
    using any_input_empty_ok [of inputs L] assms(2) unfolding input_wf_def by blast
  show ?thesis
  proof (cases b)
    case True
    then obtain e where e: "e \<in> set inputs" "run L e = []" using b(2) assms(2) by (fastforce simp: input_wf_def)
    then have "snd (bgp_join ?rs) = {#}" using bgp_join_empty [of "rel_of L e" ?rs] by (simp add: rel_of_def)
    moreover have "plan_extension L use_oids bgp inputs = Inr (EmptyExec (bgp_schema bgp))"
      using True b(1) ps new(1) by (simp add: plan_extension_def Let_def prepare_and_sort_patterns_def)
    ultimately show ?thesis by (simp add: answers)
  next
    case False
    have "\<forall>g \<in> set (concat (map split_conjunction (filters bgp))). filter_wf L (fst (bgp_join ?rs)) g" using flat unfolding new(2) N by blast
    then show ?thesis
      unfolding answers
      using plan_extension_prepared [OF assms(1,2,3) _ _ Z oid] con False b(1) ps new(1,2,5,6) unfolding N by simp
  qed
qed

text \<open>C3: The planner of basic graph patterns is correct on the nodes described here. Whatever the statistics that order the joins,
  the plan exists, has the columns of the node and yields, as a bag, the natural join of its patterns, filtered, decoded and
  projected. Assumed: the operators of the query engine behave as documented; there is at least one input, each input has
  distinct columns, rows of their number and a row count estimate whose exact zero is right, and a column name has one encoding in
  all inputs; object ids are in use or no column holds them; every filter refers to columns of the patterns and is boolean; and
  either the patterns are connected through shared columns or no filter mentions an object id column. The last condition is
  needed: with cross joins and such a filter the planner fails or joins columns of different encodings, see
  cross_joins_decode_twice and cross_join_breaks_hash_join.\<close>

theorem bgp_plan_correct:
  assumes "physical_ok L" "\<forall>e \<in> set inputs. input_wf L enc e" "inputs \<noteq> []"
    and "bgp_try_new schema_of ps fs proj cols = Inr bgp" "map schema_of ps = map exec_schema inputs"
    and "use_oids \<or> (\<forall>n. enc n \<noteq> Some ObjectId)"
    and "\<forall>f \<in> set fs. resolves (merge_schemas (map exec_schema inputs)) f \<and> (\<forall>g \<in> set (split_conjunction f). df_is_boolean (df L) g)"
    and "connected (map (rel_of L) inputs) \<or> (\<forall>f \<in> set fs. \<forall>n \<in> set (column_names f). enc n \<noteq> Some ObjectId)"
  shows "\<exists>e. plan_extension L use_oids bgp inputs = Inr e \<and> column_types (exec_schema e) = column_types (bgp_schema bgp) \<and>
    mset (run L e) = bgp_answers L bgp (map (rel_of L) inputs)"
  by (rule plan_extension_correct [OF assms])

section \<open>A reference instance of the physical operators\<close>

text \<open>Terms and object ids are numbers; the term with the id \<open>n\<close> is \<open>n + 100\<close>. The statistics of an input are those of its rows.\<close>

definition ref_statistics :: "'t Exec \<Rightarrow> (plan_error, Statistics) result" where
  "ref_statistics e =
     (case e of
        Input s rows \<Rightarrow> Inr \<lparr>num_rows = Exact (length rows), total_byte_size = Inexact (8 * length s * length rows)\<rparr>
      | _ \<Rightarrow> Inr \<lparr>num_rows = Absent, total_byte_size = Absent\<rparr>)"

text \<open>Of the operators on rows by name only the connectives play a part.\<close>

definition ref_exprs :: "nat DataFusion" where
  "ref_exprs = \<lparr>df_and = sql_and, df_or = sql_or, df_not = sql_not, df_is_not_null = (\<lambda>a. VBool (a \<noteq> VNull)),
     df_eq = (\<lambda>a b. if a = VNull \<or> b = VNull then VNull else VBool (a = b)),
     df_coalesce = (\<lambda>a b. if a = VNull then b else a), df_is_boolean = bool_expr,
     df_filter = (\<lambda>p xs. xs), df_project = map, df_union = (@), df_distinct = (\<lambda>xs. xs),
     df_inner_join = (\<lambda>on f l r. l), df_left_join = (\<lambda>on f l r. l), df_left_anti_join = (\<lambda>on f l r. l)\<rparr>"

lemma ref_exprs_ok: "expr_ok ref_exprs"
proof -
  have "is_truth (eval_expr ref_exprs r e)" if "bool_expr e" for e r using that by (cases e) (simp_all add: ref_exprs_def Let_def)
  then show ?thesis by (simp add: expr_ok_def ref_exprs_def)
qed

definition ref_physical :: "nat PhysicalLib" where
  "ref_physical = \<lparr>df = ref_exprs,
     create_physical_expr = (\<lambda>f s. if resolves s f then Inr (\<lambda>row. eval_expr ref_exprs (unqualified (env s row)) f) else Inl (PlanError ''No field named'')),
     run_filter = (\<lambda>p. filter (\<lambda>r. p r = VBool True)), run_projection = (\<lambda>idx. map (\<lambda>r. map ((!) r) idx)),
     run_hash_join = (\<lambda>on proj l r. concat (map (\<lambda>a. map (\<lambda>b. map ((!) (a @ b)) proj) (filter (key_match on a) (snd r))) (snd l))),
     run_cross_join = (\<lambda>l r. concat (map (\<lambda>a. map (\<lambda>b. a @ b) r) l)),
     run_nested_loop_join = (\<lambda>p l r. concat (map (\<lambda>a. map (\<lambda>b. a @ b) (filter (\<lambda>b. p (a @ b) = VBool True) r)) l)),
     compute_statistics = ref_statistics, partition_count = (\<lambda>e. 4), decode_id = (\<lambda>n. n + 100)\<rparr>"

lemma ref_physical_ok: "physical_ok ref_physical"
  using ref_exprs_ok unfolding physical_ok_def by (simp add: ref_physical_def)

definition oid_field :: "string \<Rightarrow> field" where
  "oid_field n = \<lparr>field_name = n, field_encoding = Some ObjectId, field_nullable = False\<rparr>"

lemma connected_two: "fst a \<inter> fst b \<noteq> {} \<Longrightarrow> connected [a, b]"
proof -
  assume ab: "fst a \<inter> fst b \<noteq> {}"
  have "\<Union> (fst ` set xs) \<inter> \<Union> (fst ` set ys) \<noteq> {}" if m: "mset xs + mset ys = mset [a, b]" and ne: "xs \<noteq> []" "ys \<noteq> []" for xs ys
  proof -
    have "length xs + length ys = 2" using arg_cong [OF m, of size] by simp
    then have "length xs = 1" "length ys = 1" using ne by (cases xs; cases ys; simp)+
    then obtain x y where "xs = [x]" "ys = [y]" by (metis One_nat_def length_0_conv length_Suc_conv)
    then show ?thesis using m ab by (auto simp: add_eq_conv_ex)
  qed
  then show ?thesis unfolding connected_def by blast
qed

text \<open>Two patterns that share \<open>y\<close>, with a filter on the decoded \<open>x\<close>.\<close>

definition knows :: "nat Exec" where
  "knows = Input [oid_field ''x'', oid_field ''y''] [[Some 1, Some 2], [Some 3, Some 2], [Some 1, Some 4]]"

definition named_by :: "nat Exec" where
  "named_by = Input [oid_field ''y'', oid_field ''z''] [[Some 2, Some 7], [Some 5, Some 8]]"

definition x_is_101 :: "nat Expr" where
  "x_is_101 = EEq (Column (None, ''x'')) (Term_Lit 101)"

definition example_bgp :: "(nat Exec, nat) BgpNode" where
  "example_bgp = \<lparr>patterns = [knows, named_by],
     bgp_schema = [(oid_field ''x'')\<lparr>field_encoding := Some PlainTerm\<rparr>, oid_field ''z''],
     filters = [x_is_101], projection = Some [(None, ''x''), (None, ''z'')], columns_to_decode = [(None, ''x'')]\<rparr>"

lemma example_bgp_new: "bgp_try_new exec_schema [knows, named_by] [x_is_101] (Some [(None, ''x''), (None, ''z'')]) [] = Inr example_bgp"
  by (simp add: bgp_try_new_def example_bgp_def knows_def named_by_def x_is_101_def oid_field_def extract_referenced_columns_if_object_id_def
      btree_set_def schema_merge_def field_from_column_def is_object_id_data_type_def validate_columns_to_decode_def compute_schema_def
      schema_names_def field_with_name_def Let_def)

lemma example_rows: "map_ok (run ref_physical) (plan_extension ref_physical True example_bgp [knows, named_by]) = Inr [[Some 101, Some 7]]"
  by code_simp

theorem bgp_plan_correct_witness:
  "bgp_answers ref_physical example_bgp (map (rel_of ref_physical) [knows, named_by]) = {#[Some 101, Some 7]#}"
proof -
  have wf: "\<forall>e \<in> set [knows, named_by]. input_wf ref_physical (\<lambda>n. Some ObjectId) e"
    by (simp add: input_wf_def knows_def named_by_def oid_field_def ref_physical_def ref_statistics_def schema_names_def)
  have con: "connected (map (rel_of ref_physical) [knows, named_by])"
    by (simp add: connected_two rel_of_def knows_def named_by_def oid_field_def schema_names_def)
  have fs: "\<forall>f \<in> set [x_is_101]. resolves (merge_schemas (map exec_schema [knows, named_by])) f \<and>
      (\<forall>g \<in> set (split_conjunction f). df_is_boolean (df ref_physical) g)" by code_simp
  have "\<exists>e. plan_extension ref_physical True example_bgp [knows, named_by] = Inr e \<and>
      column_types (exec_schema e) = column_types (bgp_schema example_bgp) \<and>
      mset (run ref_physical e) = bgp_answers ref_physical example_bgp (map (rel_of ref_physical) [knows, named_by])"
    using bgp_plan_correct [OF ref_physical_ok wf _ example_bgp_new HOL.refl _ fs disjI1 [OF con], of True] by simp
  then show ?thesis using example_rows by auto
qed

section \<open>Decoding twice, and joining encoded with decoded columns\<close>

text \<open>Without a shared column the planner decodes the columns of a filter below the cross join. A second filter on a column
  that was decoded then makes planning fail: three patterns without shared columns, and filters that compare the first with
  each of the others.\<close>

definition one_column :: "string \<Rightarrow> nat Exec" where
  "one_column n = Input [oid_field n] [[Some 1], [Some 2]]"

definition same_term :: "string \<Rightarrow> string \<Rightarrow> nat Expr" where
  "same_term a b = EEq (Column (None, a)) (Column (None, b))"

theorem cross_joins_decode_twice:
  "and_then (map_err (\<lambda>e. PlanError []) (bgp_try_new exec_schema (map one_column [''x'', ''y'', ''z'']) [same_term ''x'' ''y'', same_term ''x'' ''z''] None []))
     (\<lambda>bgp. map_ok (run ref_physical) (plan_extension ref_physical True bgp (patterns bgp))) =
   Inl (PlanError ''DecodeTermUDF requires an ObjectId encoded argument'')"
  by code_simp

text \<open>A later hash join on a column that was decoded below a cross join compares terms with object ids: the patterns \<open>x\<close>, \<open>y\<close>
  and \<open>y, z\<close> with a filter on \<open>x\<close> and \<open>y\<close>, the sizes of the patterns growing.\<close>

fun join_keys_agree :: "'t Exec \<Rightarrow> bool" where
  "join_keys_agree (FilterExec p e) = join_keys_agree e"
| "join_keys_agree (ProjectionExec ps e) = join_keys_agree e"
| "join_keys_agree (HashJoinExec l r on proj mode) \<longleftrightarrow> join_keys_agree l \<and> join_keys_agree r \<and>
     list_all (\<lambda>(i, j). field_encoding (exec_schema l ! i) = field_encoding (exec_schema r ! j)) on"
| "join_keys_agree (CrossJoinExec l r) \<longleftrightarrow> join_keys_agree l \<and> join_keys_agree r"
| "join_keys_agree (NestedLoopJoinExec l r f) \<longleftrightarrow> join_keys_agree l \<and> join_keys_agree r"
| "join_keys_agree (DecodeObjectIdsExec e ps) = join_keys_agree e"
| "join_keys_agree e = True"

theorem cross_join_breaks_hash_join:
  "and_then (map_err (\<lambda>e. PlanError []) (bgp_try_new exec_schema
        [Input [oid_field ''x''] [[Some 1]], Input [oid_field ''y''] [[Some 2], [Some 3]],
         Input [oid_field ''y'', oid_field ''z''] [[Some 2, Some 4], [Some 3, Some 5]]] [ENot (same_term ''x'' ''y'')] None []))
     (\<lambda>bgp. map_ok join_keys_agree (plan_extension ref_physical True bgp (patterns bgp))) = Inr False"
  by code_simp

end
