(* ===== verification/Decoding_Stream.thy ===== *)
theory Decoding_Stream
  imports Bgp_Planner
begin

text \<open>
  The stream of the decoding operator (\<open>lib/physical/src/object_id/exec.rs\<close>): it coalesces the
  batches of its input, decodes one coalesced batch at a time in a future, and may be polled
  whenever the executor wants. Shown: as long as the input gives batches and the futures end,
  polling it again and again reaches the end of the stream, and the batches given out by then hold
  the decoded rows of all input batches in their order.
\<close>

section \<open>The stream\<close>

datatype 'a Poll = Ready 'a | Pending

text \<open>What the input stream answers to the next polls; after the last one it has ended.\<close>

datatype 'r InputPoll = InputBatch "'r list" | InputError plan_error | InputPending

text \<open>Arrow's \<open>BatchCoalescer\<close> is a parameter: pushing a batch, finishing the buffered rows and taking the next completed batch.\<close>

record ('c, 'r) CoalescerLib =
  push_batch :: "'r list \<Rightarrow> 'c \<Rightarrow> (plan_error, 'c) result"
  finish_buffered_batch :: "'c \<Rightarrow> (plan_error, 'c) result"
  next_completed_batch :: "'c \<Rightarrow> 'r list option \<times> 'c"

text \<open>A running future: how often it is still pending, and its result.\<close>

type_synonym 'r decoding = "nat \<times> (plan_error, 'r list) result"

record ('c, 'r) DecodingStream =
  stream_input :: "'r InputPoll list"
  coalescer :: 'c
  decoding_future :: "'r decoding option"
  is_exhausted :: bool

text \<open>\<open>decode\<close> is the future of a batch: its result and how often it is pending.\<close>

definition spawn_decode_task :: "('r list \<Rightarrow> 'r decoding) \<Rightarrow> 'r list \<Rightarrow> ('c, 'r) DecodingStream \<Rightarrow> ('c, 'r) DecodingStream" where
  "spawn_decode_task decode batch s = s\<lparr>decoding_future := Some (decode batch)\<rparr>"

definition take_completed :: "('c, 'r) CoalescerLib \<Rightarrow> ('r list \<Rightarrow> 'r decoding) \<Rightarrow> 'c \<Rightarrow> ('c, 'r) DecodingStream \<Rightarrow> bool \<times> ('c, 'r) DecodingStream" where
  "take_completed C decode c s =
     (case next_completed_batch C c of
        (Some batch, c') \<Rightarrow> (True, spawn_decode_task decode batch (s\<lparr>coalescer := c'\<rparr>))
      | (None, c') \<Rightarrow> (False, s\<lparr>coalescer := c'\<rparr>))"

text \<open>How far a poll is from giving an answer.\<close>

definition poll_measure :: "('c, 'r) DecodingStream \<Rightarrow> nat" where
  "poll_measure s = (if is_exhausted s then 0 else 2 * Suc (length (stream_input s))) + (if decoding_future s = None then 1 else 0)"

lemma take_completed_simps:
  "is_exhausted (snd (take_completed C decode c s)) = is_exhausted s" "stream_input (snd (take_completed C decode c s)) = stream_input s"
  "fst (take_completed C decode c s) \<Longrightarrow> decoding_future (snd (take_completed C decode c s)) \<noteq> None"
  by (auto simp: take_completed_def spawn_decode_task_def split: prod.split option.split)

function poll_next ::
    "('c, 'r) CoalescerLib \<Rightarrow> ('r list \<Rightarrow> 'r decoding) \<Rightarrow> ('c, 'r) DecodingStream \<Rightarrow>
     (plan_error, 'r list) result option Poll \<times> ('c, 'r) DecodingStream" where
  "poll_next C decode s =
     (case decoding_future s of
        Some (0, result) \<Rightarrow> (Ready (Some result), s\<lparr>decoding_future := None\<rparr>)
      | Some (Suc k, result) \<Rightarrow> (Pending, s\<lparr>decoding_future := Some (k, result)\<rparr>)
      | None \<Rightarrow>
          if is_exhausted s then
            (case finish_buffered_batch C (coalescer s) of
               Inl e \<Rightarrow> (Ready (Some (Inl e)), s)
             | Inr c \<Rightarrow>
                 if fst (take_completed C decode c s) then poll_next C decode (snd (take_completed C decode c s))
                 else (Ready None, snd (take_completed C decode c s)))
          else
            (case stream_input s of
               [] \<Rightarrow> poll_next C decode (s\<lparr>is_exhausted := True\<rparr>)
             | InputPending # rest \<Rightarrow> (Pending, s\<lparr>stream_input := rest\<rparr>)
             | InputError e # rest \<Rightarrow> (Ready (Some (Inl e)), s\<lparr>stream_input := rest\<rparr>)
             | InputBatch batch # rest \<Rightarrow>
                 (case push_batch C batch (coalescer s) of
                    Inl e \<Rightarrow> (Ready (Some (Inl e)), s\<lparr>stream_input := rest\<rparr>)
                  | Inr c \<Rightarrow> poll_next C decode (snd (take_completed C decode c (s\<lparr>stream_input := rest\<rparr>))))))"
  by pat_completeness auto
termination
proof (relation "measure (\<lambda>(C, decode, s). poll_measure s)", goal_cases)
  case (2 C decode s c)
  then show ?case using take_completed_simps(3) [of C decode c s] by (simp add: poll_measure_def take_completed_simps(1,2))
qed (simp_all add: poll_measure_def take_completed_simps(1,2))

declare poll_next.simps [simp del]

text \<open>Polling \<open>n\<close> times: the answers, and the stream after that.\<close>

fun polls ::
    "('c, 'r) CoalescerLib \<Rightarrow> ('r list \<Rightarrow> 'r decoding) \<Rightarrow> nat \<Rightarrow> ('c, 'r) DecodingStream \<Rightarrow>
     (plan_error, 'r list) result option Poll list \<times> ('c, 'r) DecodingStream" where
  "polls C decode 0 s = ([], s)"
| "polls C decode (Suc n) s =
     (let (a, s') = poll_next C decode s; (as, s'') = polls C decode n s' in (a # as, s''))"

definition decoding_stream_new :: "'r InputPoll list \<Rightarrow> 'c \<Rightarrow> ('c, 'r) DecodingStream" where
  "decoding_stream_new input c = \<lparr>stream_input = input, coalescer = c, decoding_future = None, is_exhausted = False\<rparr>"

section \<open>The documented behaviour of the coalescer\<close>

text \<open>A coalescer holds completed batches, which are not empty, and buffered rows. Rows keep their order; finishing turns the
  buffered rows into a batch.\<close>

definition coalescer_ok :: "('c, 'r) CoalescerLib \<Rightarrow> ('c \<Rightarrow> 'r list list) \<Rightarrow> ('c \<Rightarrow> 'r list) \<Rightarrow> bool" where
  "coalescer_ok C completed buffered \<longleftrightarrow>
     (\<forall>b c. \<exists>c' bs. push_batch C b c = Inr c' \<and> completed c' = completed c @ bs \<and> [] \<notin> set bs \<and> concat bs @ buffered c' = buffered c @ b) \<and>
     (\<forall>c. \<exists>c'. finish_buffered_batch C c = Inr c' \<and> completed c' = completed c @ (if buffered c = [] then [] else [buffered c]) \<and> buffered c' = []) \<and>
     (\<forall>c. \<exists>c'. next_completed_batch C c = (case completed c of [] \<Rightarrow> None | b # _ \<Rightarrow> Some b, c') \<and> completed c' = tl (completed c) \<and> buffered c' = buffered c)"

lemma coalescer_okD:
  assumes "coalescer_ok C completed buffered"
  shows "\<exists>c' bs. push_batch C b c = Inr c' \<and> completed c' = completed c @ bs \<and> [] \<notin> set bs \<and> concat bs @ buffered c' = buffered c @ b"
    and "\<exists>c'. finish_buffered_batch C c = Inr c' \<and> completed c' = completed c @ (if buffered c = [] then [] else [buffered c]) \<and> buffered c' = []"
    and "\<exists>c'. next_completed_batch C c = (case completed c of [] \<Rightarrow> None | b # _ \<Rightarrow> Some b, c') \<and> completed c' = tl (completed c) \<and> buffered c' = buffered c"
  using assms unfolding coalescer_ok_def by blast+

section \<open>Progress\<close>

fun input_rows :: "'r InputPoll list \<Rightarrow> 'r list" where
  "input_rows [] = []"
| "input_rows (InputBatch b # input) = b @ input_rows input"
| "input_rows (_ # input) = input_rows input"

fun answer_rows :: "(plan_error, 'r list) result option Poll list \<Rightarrow> 'r list" where
  "answer_rows [] = []"
| "answer_rows (Ready (Some (Inr rows)) # as) = rows @ answer_rows as"
| "answer_rows (_ # as) = answer_rows as"

definition no_errors :: "'r InputPoll list \<Rightarrow> bool" where
  "no_errors input \<longleftrightarrow> list_all (\<lambda>i. case i of InputError _ \<Rightarrow> False | _ \<Rightarrow> True) input"

text \<open>The rows that were taken from the input or are still to come, and have not been given out.\<close>

definition waiting_rows :: "('c \<Rightarrow> 'r list list) \<Rightarrow> ('c \<Rightarrow> 'r list) \<Rightarrow> ('c, 'r) DecodingStream \<Rightarrow> 'r list" where
  "waiting_rows completed buffered s = concat (completed (coalescer s)) @ buffered (coalescer s) @ input_rows (stream_input s)"

definition future_rows :: "('c, 'r) DecodingStream \<Rightarrow> 'r list" where
  "future_rows s = (case decoding_future s of Some (k, Inr rows) \<Rightarrow> rows | _ \<Rightarrow> [])"

definition stream_inv :: "('c \<Rightarrow> 'r list list) \<Rightarrow> ('c, 'r) DecodingStream \<Rightarrow> bool" where
  "stream_inv completed s \<longleftrightarrow> no_errors (stream_input s) \<and> [] \<notin> set (completed (coalescer s)) \<and> (is_exhausted s \<longrightarrow> stream_input s = []) \<and>
     (\<forall>k r. decoding_future s = Some (k, r) \<longrightarrow> (\<exists>rows. r = Inr rows \<and> rows \<noteq> []))"

text \<open>What decreases: the rows to give out, the input, the rows that no future holds, the time that the future needs.\<close>

definition stream_rank :: "('c \<Rightarrow> 'r list list) \<Rightarrow> ('c \<Rightarrow> 'r list) \<Rightarrow> ('c, 'r) DecodingStream \<Rightarrow> nat \<times> nat \<times> nat \<times> nat" where
  "stream_rank completed buffered s =
     (length (future_rows s) + length (waiting_rows completed buffered s), (if is_exhausted s then 0 else 1) + length (stream_input s),
      length (waiting_rows completed buffered s), case decoding_future s of None \<Rightarrow> 0 | Some (k, _) \<Rightarrow> k)"

definition poll_step ::
    "('c \<Rightarrow> 'r list list) \<Rightarrow> ('c \<Rightarrow> 'r list) \<Rightarrow> ('r \<Rightarrow> 'r) \<Rightarrow> ('c, 'r) DecodingStream \<Rightarrow>
     (plan_error, 'r list) result option Poll \<Rightarrow> ('c, 'r) DecodingStream \<Rightarrow> bool" where
  "poll_step completed buffered f s a s' \<longleftrightarrow> stream_inv completed s' \<and>
     answer_rows [a] @ future_rows s' @ map f (waiting_rows completed buffered s') = future_rows s @ map f (waiting_rows completed buffered s) \<and>
     (case a of
        Ready None \<Rightarrow> future_rows s @ waiting_rows completed buffered s = []
      | Ready (Some (Inl e)) \<Rightarrow> False
      | _ \<Rightarrow> stream_rank completed buffered s' < stream_rank completed buffered s)"

text \<open>One turn of the loop that does not answer.\<close>

definition turn_step :: "('c \<Rightarrow> 'r list list) \<Rightarrow> ('c \<Rightarrow> 'r list) \<Rightarrow> ('r \<Rightarrow> 'r) \<Rightarrow> ('c, 'r) DecodingStream \<Rightarrow> ('c, 'r) DecodingStream \<Rightarrow> bool" where
  "turn_step completed buffered f s s' \<longleftrightarrow> stream_inv completed s' \<and>
     future_rows s' @ map f (waiting_rows completed buffered s') = future_rows s @ map f (waiting_rows completed buffered s) \<and>
     stream_rank completed buffered s' < stream_rank completed buffered s"

lemma turn_then_poll: "turn_step completed buffered f s s' \<Longrightarrow> poll_step completed buffered f s' a s'' \<Longrightarrow> poll_step completed buffered f s a s''"
  unfolding turn_step_def poll_step_def
  by (auto split: Poll.splits option.splits sum.splits dest: less_trans)

lemma take_completed_step:
  assumes C: "coalescer_ok C completed buffered" and decode: "\<And>b. snd (decode b) = Inr (map f b)"
    and s: "decoding_future s = None" "no_errors (stream_input s)" "is_exhausted s \<longrightarrow> stream_input s = []" and c: "[] \<notin> set (completed c)"
  shows "stream_inv completed (snd (take_completed C decode c s))"
    and "future_rows (snd (take_completed C decode c s)) @ map f (waiting_rows completed buffered (snd (take_completed C decode c s))) =
      map f (concat (completed c) @ buffered c @ input_rows (stream_input s))"
    and "fst (take_completed C decode c s) \<longleftrightarrow> completed c \<noteq> []"
    and "fst (take_completed C decode c s) \<Longrightarrow> length (waiting_rows completed buffered (snd (take_completed C decode c s))) <
      length (concat (completed c) @ buffered c @ input_rows (stream_input s))"
proof -
  obtain c' where c': "next_completed_batch C c = (case completed c of [] \<Rightarrow> None | b # _ \<Rightarrow> Some b, c')"
    "completed c' = tl (completed c)" "buffered c' = buffered c" using coalescer_okD(3) [OF C] by blast
  have dec: "decode b = (fst (decode b), Inr (map f b))" for b using decode [of b] by (cases "decode b") simp
  have "stream_inv completed (snd (take_completed C decode c s)) \<and>
      future_rows (snd (take_completed C decode c s)) @ map f (waiting_rows completed buffered (snd (take_completed C decode c s))) =
        map f (concat (completed c) @ buffered c @ input_rows (stream_input s)) \<and>
      (fst (take_completed C decode c s) \<longleftrightarrow> completed c \<noteq> []) \<and>
      (fst (take_completed C decode c s) \<longrightarrow> length (waiting_rows completed buffered (snd (take_completed C decode c s))) <
        length (concat (completed c) @ buffered c @ input_rows (stream_input s)))"
  proof (cases "completed c")
    case Nil
    then show ?thesis using c' s by (simp add: take_completed_def stream_inv_def future_rows_def waiting_rows_def)
  next
    case (Cons b bs)
    then have "b \<noteq> []" using c by auto
    moreover have "take_completed C decode c s = (True, s\<lparr>coalescer := c', decoding_future := Some (fst (decode b), Inr (map f b))\<rparr>)"
      using c'(1) Cons dec [of b] by (simp add: take_completed_def spawn_decode_task_def)
    ultimately show ?thesis using c' s c Cons by (simp add: stream_inv_def future_rows_def waiting_rows_def)
  qed
  then show "stream_inv completed (snd (take_completed C decode c s))"
    and "future_rows (snd (take_completed C decode c s)) @ map f (waiting_rows completed buffered (snd (take_completed C decode c s))) =
      map f (concat (completed c) @ buffered c @ input_rows (stream_input s))"
    and "fst (take_completed C decode c s) \<longleftrightarrow> completed c \<noteq> []"
    and "fst (take_completed C decode c s) \<Longrightarrow> length (waiting_rows completed buffered (snd (take_completed C decode c s))) <
      length (concat (completed c) @ buffered c @ input_rows (stream_input s))" by blast+
qed

lemma take_completed_turn:
  assumes C: "coalescer_ok C completed buffered" and decode: "\<And>b. snd (decode b) = Inr (map f b)"
    and s: "decoding_future s = None" "stream_inv completed s"
    and s0: "decoding_future s0 = None" "no_errors (stream_input s0)" "is_exhausted s0 \<longrightarrow> stream_input s0 = []" "is_exhausted s0 = is_exhausted s"
    and c: "[] \<notin> set (completed c)"
    and rows: "concat (completed c) @ buffered c @ input_rows (stream_input s0) = waiting_rows completed buffered s"
    and less: "length (stream_input s0) < length (stream_input s) \<or> stream_input s0 = stream_input s \<and> fst (take_completed C decode c s0)"
  shows "turn_step completed buffered f s (snd (take_completed C decode c s0))"
proof -
  let ?s' = "snd (take_completed C decode c s0)"
  note t = take_completed_step [OF C decode s0(1-3) c, unfolded rows]
  have fr: "future_rows s = []" using s(1) by (simp add: future_rows_def)
  have "length (future_rows ?s') + length (waiting_rows completed buffered ?s') = length (waiting_rows completed buffered s)"
    using arg_cong [OF t(2), of length] by simp
  then have "stream_rank completed buffered ?s' < stream_rank completed buffered s"
    using less t(4) fr s0(4) by (auto simp: stream_rank_def take_completed_simps(1,2))
  then show ?thesis using t(1,2) fr by (simp add: turn_step_def)
qed

lemma poll_next_step:
  assumes C: "coalescer_ok C completed buffered" and decode: "\<And>b. snd (decode b) = Inr (map f b)"
  shows "stream_inv completed s \<Longrightarrow> poll_step completed buffered f s (fst (poll_next C decode s)) (snd (poll_next C decode s))"
proof (induction s rule: measure_induct_rule [where f = "stream_rank completed buffered"])
  case (less s)
  have again: "poll_step completed buffered f s (fst (poll_next C decode s')) (snd (poll_next C decode s'))" if "turn_step completed buffered f s s'" for s'
    using less.IH [of s'] that turn_then_poll [OF that] unfolding turn_step_def by blast
  note inv = less.prems [unfolded stream_inv_def]
  show ?case
  proof (cases "decoding_future s")
    case (Some fut)
    obtain k rows where fut: "decoding_future s = Some (k, Inr rows)" "rows \<noteq> []" using inv Some by (cases fut) auto
    show ?thesis
    proof (cases k)
      case 0
      then show ?thesis using fut less.prems
        by (simp add: poll_next.simps [of C decode s] poll_step_def stream_inv_def future_rows_def waiting_rows_def stream_rank_def)
    next
      case (Suc k')
      then show ?thesis using fut less.prems
        by (simp add: poll_next.simps [of C decode s] poll_step_def stream_inv_def future_rows_def waiting_rows_def stream_rank_def)
    qed
  next
    case none: None
    show ?thesis
    proof (cases "is_exhausted s")
      case True
      obtain c where c: "finish_buffered_batch C (coalescer s) = Inr c" "buffered c = []"
        "completed c = completed (coalescer s) @ (if buffered (coalescer s) = [] then [] else [buffered (coalescer s)])"
        using coalescer_okD(2) [OF C] by blast
      have ne: "[] \<notin> set (completed c)" using c(3) inv by auto
      have rows: "concat (completed c) @ buffered c @ input_rows (stream_input s) = waiting_rows completed buffered s"
        using c(2,3) by (simp add: waiting_rows_def)
      have in0: "no_errors (stream_input s)" "is_exhausted s \<longrightarrow> stream_input s = []" using inv by blast+
      note t = take_completed_step [OF C decode none in0 ne]
      show ?thesis
      proof (cases "fst (take_completed C decode c s)")
        case more: True
        have "turn_step completed buffered f s (snd (take_completed C decode c s))"
          by (rule take_completed_turn [OF C decode none less.prems none in0 HOL.refl ne rows]) (simp add: more)
        then show ?thesis using again none True c(1) more by (simp add: poll_next.simps [of C decode s])
      next
        case False
        then have "waiting_rows completed buffered s = []" using t(3) in0 True rows c(2) by simp
        moreover have "future_rows s = []" using none by (simp add: future_rows_def)
        ultimately show ?thesis
          using t(1,2) rows none True c(1) False by (simp add: poll_next.simps [of C decode s] poll_step_def)
      qed
    next
      case False
      show ?thesis
      proof (cases "stream_input s")
        case Nil
        have "turn_step completed buffered f s (s\<lparr>is_exhausted := True\<rparr>)"
          using less.prems none False Nil by (simp add: turn_step_def stream_inv_def future_rows_def waiting_rows_def stream_rank_def)
        then show ?thesis using again none False Nil by (simp add: poll_next.simps [of C decode s])
      next
        case (Cons i rest)
        have rest: "no_errors rest" "no_errors [i]" using inv Cons by (simp_all add: no_errors_def)
        show ?thesis
        proof (cases i)
          case (InputBatch b)
          obtain c bs where c: "push_batch C b (coalescer s) = Inr c" "completed c = completed (coalescer s) @ bs" "[] \<notin> set bs"
            "concat bs @ buffered c = buffered (coalescer s) @ b" using coalescer_okD(1) [OF C] by blast
          have "turn_step completed buffered f s (snd (take_completed C decode c (s\<lparr>stream_input := rest\<rparr>)))"
          proof (rule take_completed_turn [OF C decode none less.prems])
            show "[] \<notin> set (completed c)" using c(2,3) inv by auto
            show "concat (completed c) @ buffered c @ input_rows (stream_input (s\<lparr>stream_input := rest\<rparr>)) = waiting_rows completed buffered s"
              using c(2) arg_cong [OF c(4), of "\<lambda>x. x @ input_rows rest"] by (simp add: waiting_rows_def Cons InputBatch)
          qed (simp_all add: none rest(1) False Cons)
          then show ?thesis using again none False Cons InputBatch c(1) by (simp add: poll_next.simps [of C decode s])
        next
          case (InputError e)
          then show ?thesis using rest(2) by (simp add: no_errors_def)
        next
          case InputPending
          then show ?thesis using less.prems none False Cons rest(1)
            by (simp add: poll_next.simps [of C decode s] poll_step_def stream_inv_def future_rows_def waiting_rows_def stream_rank_def)
        qed
      qed
    qed
  qed
qed

lemma answer_rows_Cons: "answer_rows (a # as) = answer_rows [a] @ answer_rows as"
  by (cases "a # as" rule: answer_rows.cases) simp_all

lemma polls_drain:
  assumes C: "coalescer_ok C completed buffered" and decode: "\<And>b. snd (decode b) = Inr (map f b)"
  shows "stream_inv completed s \<Longrightarrow> \<exists>n answers s'. polls C decode (Suc n) s = (answers @ [Ready None], s') \<and>
    (\<forall>a \<in> set answers. a \<noteq> Ready None \<and> (\<forall>e. a \<noteq> Ready (Some (Inl e)))) \<and>
    answer_rows answers = future_rows s @ map f (waiting_rows completed buffered s)"
proof (induction s rule: measure_induct_rule [where f = "stream_rank completed buffered"])
  case (less s)
  obtain a s1 where p: "poll_next C decode s = (a, s1)" by (cases "poll_next C decode s")
  have step: "poll_step completed buffered f s a s1" using poll_next_step [OF C decode less.prems] p by simp
  show ?case
  proof (cases "a = Ready None")
    case True
    then have "future_rows s = []" "waiting_rows completed buffered s = []" using step by (simp_all add: poll_step_def)
    then show ?thesis using p True by (intro exI [of _ 0] exI [of _ "[]"] exI [of _ s1]) simp
  next
    case False
    then have s1: "stream_inv completed s1" "stream_rank completed buffered s1 < stream_rank completed buffered s" and ne: "\<forall>e. a \<noteq> Ready (Some (Inl e))"
      using step by (auto simp: poll_step_def split: Poll.splits option.splits sum.splits)
    obtain n answers s' where IH: "polls C decode (Suc n) s1 = (answers @ [Ready None], s')"
      "\<forall>a \<in> set answers. a \<noteq> Ready None \<and> (\<forall>e. a \<noteq> Ready (Some (Inl e)))"
      "answer_rows answers = future_rows s1 @ map f (waiting_rows completed buffered s1)" using less.IH [OF s1(2,1)] by blast
    have "polls C decode (Suc (Suc n)) s = ((a # answers) @ [Ready None], s')" unfolding polls.simps(2) [of C decode "Suc n" s] p prod.case Let_def IH(1) by simp
    moreover have "answer_rows (a # answers) = future_rows s @ map f (waiting_rows completed buffered s)"
      using step IH(3) unfolding answer_rows_Cons [of a answers] poll_step_def by simp
    ultimately show ?thesis using IH(2) False ne by (intro exI [of _ "Suc n"] exI [of _ "a # answers"] exI [of _ s']) (simp del: polls.simps)
  qed
qed

section \<open>Properties\<close>

text \<open>C40: The decoding stream drains: when its input reports no error and its futures end, polling it again and again, however
  often input and futures are pending, reaches the end of the stream after finitely many polls without an error, and the
  batches given out by then hold, in order, the rows that the decoding operator yields for all batches of the input.\<close>

theorem decoding_stream_drains:
  assumes "coalescer_ok C completed buffered" "completed c = []" "buffered c = []" "no_errors input"
    and "\<forall>b. snd (decode b) = Inr (decode_batch (decode_id L) (exec_schema e) ps b)" "run L e = input_rows input"
  shows "\<exists>n answers s'. polls C decode (Suc n) (decoding_stream_new input c) = (answers @ [Ready None], s') \<and>
    (\<forall>a \<in> set answers. a \<noteq> Ready None \<and> (\<forall>err. a \<noteq> Ready (Some (Inl err)))) \<and>
    answer_rows answers = run L (DecodeObjectIdsExec e ps)"
proof -
  let ?f = "\<lambda>row. map (decode_task (decode_id L) (exec_schema e) row) ps"
  have "snd (decode b) = Inr (map ?f b)" for b using assms(5) by (simp add: decode_batch_def)
  from polls_drain [OF assms(1) this, of "decoding_stream_new input c"] show ?thesis
    using assms(2-4,6) by (simp add: stream_inv_def decoding_stream_new_def future_rows_def waiting_rows_def decode_batch_def)
qed

section \<open>Witness\<close>

text \<open>A coalescer that completes a batch as soon as it has two rows; futures that are pending once.\<close>

definition pair_coalescer :: "('r list list \<times> 'r list, 'r) CoalescerLib" where
  "pair_coalescer = \<lparr>
     push_batch = (\<lambda>b (cs, buf). Inr (if 2 \<le> length (buf @ b) then (cs @ [buf @ b], []) else (cs, buf @ b))),
     finish_buffered_batch = (\<lambda>(cs, buf). Inr (if buf = [] then (cs, []) else (cs @ [buf], []))),
     next_completed_batch = (\<lambda>(cs, buf). case cs of [] \<Rightarrow> (None, ([], buf)) | b # bs \<Rightarrow> (Some b, (bs, buf)))\<rparr>"

lemma pair_coalescer_ok: "coalescer_ok pair_coalescer fst snd"
proof -
  have "\<exists>c' bs. push_batch pair_coalescer b c = Inr c' \<and> fst c' = fst c @ bs \<and> [] \<notin> set bs \<and> concat bs @ snd c' = snd c @ b" for b and c :: "'a list list \<times> 'a list"
  proof (cases "2 \<le> length (snd c @ b)")
    case True
    then show ?thesis by (intro exI [of _ "(fst c @ [snd c @ b], [])"] exI [of _ "[snd c @ b]"]) (auto simp: pair_coalescer_def split_beta)
  next
    case False
    then show ?thesis by (intro exI [of _ "(fst c, snd c @ b)"] exI [of _ "[]"]) (auto simp: pair_coalescer_def split_beta)
  qed
  moreover have "\<exists>c'. finish_buffered_batch pair_coalescer c = Inr c' \<and> fst c' = fst c @ (if snd c = [] then [] else [snd c]) \<and> snd c' = []" for c :: "'a list list \<times> 'a list"
    by (auto simp: pair_coalescer_def split_beta)
  moreover have "\<exists>c'. next_completed_batch pair_coalescer c = (case fst c of [] \<Rightarrow> None | b # _ \<Rightarrow> Some b, c') \<and> fst c' = tl (fst c) \<and> snd c' = snd c" for c :: "'a list list \<times> 'a list"
    by (cases "fst c") (auto simp: pair_coalescer_def split_beta)
  ultimately show ?thesis unfolding coalescer_ok_def by blast
qed

definition id_exec :: "nat Exec" where
  "id_exec = Input [oid_field ''x''] [[Some 1], [Some 2], [Some 3]]"

definition slow_decode :: "nat prow list \<Rightarrow> nat prow decoding" where
  "slow_decode b = (1, Inr (decode_batch (\<lambda>n. n + 100) [oid_field ''x''] [DecodeColumn ''x'' ''x''] b))"

theorem decoding_stream_drains_witness:
  "\<exists>n answers s'. polls pair_coalescer slow_decode (Suc n)
       (decoding_stream_new [InputBatch [[Some 1]], InputPending, InputBatch [[Some 2], [Some 3]]] ([], [])) = (answers @ [Ready None], s') \<and>
     answer_rows answers = [[Some 101], [Some 102], [Some 103]]"
proof -
  have "run ref_physical (DecodeObjectIdsExec id_exec [DecodeColumn ''x'' ''x'']) = [[Some 101], [Some 102], [Some 103]]" by code_simp
  then show ?thesis
    using decoding_stream_drains [OF pair_coalescer_ok, of "([], [])" "[InputBatch [[Some 1]], InputPending, InputBatch [[Some 2], [Some 3]]]"
        slow_decode ref_physical id_exec "[DecodeColumn ''x'' ''x'']"]
    by (auto simp: no_errors_def slow_decode_def ref_physical_def id_exec_def simp del: polls.simps)
qed

end
