(* ===== verification/Sparql_Pattern.thy ===== *)
theory Sparql_Pattern
  imports Sparql_Algebra Plain_Term
begin

text \<open>
  The pattern node of \<open>lib/logical/src/patterns\<close>: it matches the columns of its input against
  term patterns and is lowered to a filter (constants and repeated variables) and a projection
  to the variables. Shown: for patterns in which no blank node occurs twice or shares its name
  with a variable, the lowering gives exactly the solutions of the pattern; and a pattern that
  repeats a blank node accepts rows that do not match it.
\<close>

section \<open>The pattern node\<close>

datatype 'l TermPattern =
    PNamedNode string
  | PBlankNode string
  | PLiteral 'l
  | PVariable string

record 'l PatternNode =
  pattern_input :: "'l Term plan"
  pattern_list :: "'l TermPattern option list"

definition pattern_try_new ::
  "'l Term plan \<Rightarrow> 'l TermPattern option list \<Rightarrow> (plan_error, 'l PatternNode) result" where
  "pattern_try_new input patterns =
     (if length (plan_schema input) \<noteq> length patterns
      then Inl (PlanError ''Patterns must match the number of column of inner.'')
      else Inr \<lparr>pattern_input = input, pattern_list = patterns\<rparr>)"

section \<open>The lowering\<close>

fun create_filter_expression :: "string \<Rightarrow> 'l TermPattern option \<Rightarrow> 'l Term Expr option" where
  "create_filter_expression c (Some (PNamedNode nn)) = Some (EEq (Column (None, c)) (Term_Lit (NamedNode nn)))"
| "create_filter_expression c (Some (PLiteral l)) = Some (EEq (Column (None, c)) (Term_Lit (Literal l)))"
| "create_filter_expression c _ = None"

definition filter_by_values :: "(string \<times> 'l TermPattern option) list \<Rightarrow> 'l Term Expr option" where
  "filter_by_values cps = reduce_and (List.map_filter (\<lambda>(c, p). create_filter_expression c p) cps)"

fun push_column :: "string \<Rightarrow> string \<Rightarrow> (string \<times> string list) list \<Rightarrow> (string \<times> string list) list" where
  "push_column v c [] = [(v, [c])]"
| "push_column v c ((v', cs) # m) = (if v = v' then (v', cs @ [c]) # m else (v', cs) # push_column v c m)"

fun collect_mappings ::
  "(string \<times> 'l TermPattern option) list \<Rightarrow> (string \<times> string list) list \<Rightarrow> (string \<times> string list) list" where
  "collect_mappings [] m = m"
| "collect_mappings ((c, Some (PVariable v)) # cps) m = collect_mappings cps (push_column v c m)"
| "collect_mappings (_ # cps) m = collect_mappings cps m"

definition column_constraints :: "string list \<Rightarrow> 'l Term Expr option" where
  "column_constraints cs =
     reduce_and (map (\<lambda>(a, b). EEq (Column (None, a)) (Column (None, b))) (zip cs (tl cs)))"

definition filter_same_variable :: "(string \<times> 'l TermPattern option) list \<Rightarrow> 'l Term Expr option" where
  "filter_same_variable cps =
     reduce_and (List.map_filter (\<lambda>(v, cs). column_constraints cs) (collect_mappings cps []))"

definition pattern_columns :: "'l PatternNode \<Rightarrow> (string \<times> 'l TermPattern option) list" where
  "pattern_columns node = zip (schema_names (plan_schema (pattern_input node))) (pattern_list node)"

definition compute_filters_for_pattern :: "'l PatternNode \<Rightarrow> 'l Term Expr option" where
  "compute_filters_for_pattern node =
     reduce_and (List.map_filter id [filter_by_values (pattern_columns node), filter_same_variable (pattern_columns node)])"

fun pattern_name :: "'l TermPattern option \<Rightarrow> string option" where
  "pattern_name (Some (PVariable v)) = Some v"
| "pattern_name (Some (PBlankNode b)) = Some b"
| "pattern_name _ = None"

fun projections_loop ::
  "(string \<times> 'l TermPattern option) list \<Rightarrow> string list \<Rightarrow> (string \<times> 'l Term Expr) list" where
  "projections_loop [] already_projected = []"
| "projections_loop ((c, p) # cps) already_projected =
     (case pattern_name p of
        None \<Rightarrow> projections_loop cps already_projected
      | Some n \<Rightarrow>
          if n \<in> set already_projected then projections_loop cps already_projected
          else (n, Column (None, c)) # projections_loop cps (n # already_projected))"

definition project_to_variables ::
  "'l Term DataFusion \<Rightarrow> (string \<times> 'l TermPattern option) list \<Rightarrow> 'l Term row list \<Rightarrow> 'l Term row list" where
  "project_to_variables D cps rs = project D (projections_loop cps []) rs"

definition rewrite_pattern_node :: "'l Term DataFusion \<Rightarrow> 'l PatternNode \<Rightarrow> 'l Term row list" where
  "rewrite_pattern_node D node =
     (let plan = plan_rows (pattern_input node);
          filtered = (case compute_filters_for_pattern node of
              None \<Rightarrow> plan
            | Some f \<Rightarrow> df_filter D (\<lambda>r. eval_expr D r f) plan)
      in project_to_variables D (pattern_columns node) filtered)"

section \<open>Matching a row against a pattern\<close>

text \<open>The specification: constants must be equal, and equal variables, or blank nodes, must meet
  the same term; the solution maps each name to the cell where it occurs first.\<close>

fun pattern_constant :: "'l TermPattern option \<Rightarrow> 'l Term option" where
  "pattern_constant (Some (PNamedNode nn)) = Some (NamedNode nn)"
| "pattern_constant (Some (PLiteral l)) = Some (Literal l)"
| "pattern_constant _ = None"

definition cells_agree :: "'t row \<Rightarrow> string list \<Rightarrow> bool" where
  "cells_agree r cs \<longleftrightarrow> length cs \<le> 1 \<or> (\<exists>t. \<forall>c \<in> set cs. r (None, c) = Some t)"

definition placeholder_columns :: "(string \<times> 'l TermPattern option) list \<Rightarrow> 'l TermPattern \<Rightarrow> string list" where
  "placeholder_columns cps p = map fst (filter (\<lambda>x. snd x = Some p) cps)"

definition pattern_matches :: "(string \<times> 'l TermPattern option) list \<Rightarrow> 'l Term row \<Rightarrow> bool" where
  "pattern_matches cps r \<longleftrightarrow>
     (\<forall>x \<in> set cps. \<forall>t. pattern_constant (snd x) = Some t \<longrightarrow> r (None, fst x) = Some t) \<and>
     (\<forall>v. cells_agree r (placeholder_columns cps (PVariable v))) \<and>
     (\<forall>b. cells_agree r (placeholder_columns cps (PBlankNode b)))"

definition names_unambiguous :: "(string \<times> 'l TermPattern option) list \<Rightarrow> bool" where
  "names_unambiguous cps \<longleftrightarrow>
     (\<forall>b. length (placeholder_columns cps (PBlankNode b)) \<le> 1 \<and>
        (placeholder_columns cps (PBlankNode b) = [] \<or> placeholder_columns cps (PVariable b) = []))"

definition pattern_solution :: "(string \<times> 'l TermPattern option) list \<Rightarrow> 'l Term row \<Rightarrow> 'l Term solution" where
  "pattern_solution cps r =
     (\<lambda>n. case find (\<lambda>(c, p). pattern_name p = Some n) cps of None \<Rightarrow> None | Some (c, p) \<Rightarrow> r (None, c))"

section \<open>Correctness of the lowering\<close>

definition opt_true :: "'t DataFusion \<Rightarrow> 't row \<Rightarrow> 't Expr option \<Rightarrow> bool" where
  "opt_true D r f = (case f of None \<Rightarrow> True | Some e \<Rightarrow> eval_expr D r e = VBool True)"

definition opt_truth :: "'t DataFusion \<Rightarrow> 't row \<Rightarrow> 't Expr option \<Rightarrow> bool" where
  "opt_truth D r f = (case f of None \<Rightarrow> True | Some e \<Rightarrow> is_truth (eval_expr D r e))"

lemma opt_simps [simp]:
  "opt_true D r None" "opt_true D r (Some e) = (eval_expr D r e = VBool True)"
  "opt_truth D r None" "opt_truth D r (Some e) = is_truth (eval_expr D r e)"
  by (simp_all add: opt_true_def opt_truth_def)

lemma reduce_and_opt:
  assumes "expr_ok D" "\<forall>e \<in> set es. is_truth (eval_expr D r e)"
  shows "opt_truth D r (reduce_and es)" "opt_true D r (reduce_and es) \<longleftrightarrow> (\<forall>e \<in> set es. eval_expr D r e = VBool True)"
  using assms(2) foldl_and_true [OF assms(1), of r] by (cases es; auto)+

lemma reduce_map_filter:
  assumes E: "expr_ok D" and t: "\<And>x. x \<in> set xs \<Longrightarrow> opt_truth D r (f x)"
  shows "opt_truth D r (reduce_and (List.map_filter f xs))"
    and "opt_true D r (reduce_and (List.map_filter f xs)) \<longleftrightarrow> (\<forall>x \<in> set xs. opt_true D r (f x))"
proof -
  have mem: "e \<in> set (List.map_filter f xs) \<longleftrightarrow> (\<exists>x \<in> set xs. f x = Some e)" for e
    by (force simp: List.map_filter_def)
  have truth: "\<forall>e \<in> set (List.map_filter f xs). is_truth (eval_expr D r e)"
  proof
    fix e
    assume "e \<in> set (List.map_filter f xs)"
    then obtain x where "x \<in> set xs" "f x = Some e" unfolding mem by blast
    then show "is_truth (eval_expr D r e)" using t [of x] by simp
  qed
  show "opt_truth D r (reduce_and (List.map_filter f xs))" by (rule reduce_and_opt [OF E truth])
  have "opt_true D r (reduce_and (List.map_filter f xs)) \<longleftrightarrow> (\<forall>e. \<forall>x \<in> set xs. f x = Some e \<longrightarrow> eval_expr D r e = VBool True)"
    unfolding reduce_and_opt(2) [OF E truth] Ball_def mem by blast
  also have "\<dots> \<longleftrightarrow> (\<forall>x \<in> set xs. opt_true D r (f x))" by (auto simp: opt_true_def split: option.splits)
  finally show "opt_true D r (reduce_and (List.map_filter f xs)) \<longleftrightarrow> (\<forall>x \<in> set xs. opt_true D r (f x))" .
qed

lemma eval_eq_cells:
  assumes "expr_ok D"
  shows "is_truth (eval_expr D r (EEq e1 e2))"
    and "eval_expr D r (EEq (Column a) (Column b')) = VBool True \<longleftrightarrow> r a \<noteq> None \<and> r a = r b'"
    and "eval_expr D r (EEq (Column a) (Term_Lit t)) = VBool True \<longleftrightarrow> r a = Some t"
  by (cases "r a"; auto simp: expr_okD(5) [OF assms])+

lemma filter_by_values_true:
  assumes E: "expr_ok D"
  shows "opt_truth D r (filter_by_values cps)"
    and "opt_true D r (filter_by_values cps) \<longleftrightarrow>
      (\<forall>x \<in> set cps. \<forall>t. pattern_constant (snd x) = Some t \<longrightarrow> r (None, fst x) = Some t)"
proof -
  have cases: "opt_truth D r (create_filter_expression c p) \<and>
      (opt_true D r (create_filter_expression c p) \<longleftrightarrow> (\<forall>t. pattern_constant p = Some t \<longrightarrow> r (None, c) = Some t))" for c p
    by (cases "(c, p)" rule: create_filter_expression.cases)
      (simp_all add: eval_eq_cells(1,3) [OF E] del: eval_expr.simps)
  show "opt_truth D r (filter_by_values cps)" unfolding filter_by_values_def
    by (rule reduce_map_filter [OF E]) (use cases in auto)
  have "opt_true D r (filter_by_values cps) \<longleftrightarrow> (\<forall>x \<in> set cps. opt_true D r (case x of (c, p) \<Rightarrow> create_filter_expression c p))"
    unfolding filter_by_values_def by (rule reduce_map_filter(2) [OF E]) (use cases in auto)
  then show "opt_true D r (filter_by_values cps) \<longleftrightarrow>
      (\<forall>x \<in> set cps. \<forall>t. pattern_constant (snd x) = Some t \<longrightarrow> r (None, fst x) = Some t)"
    using cases by (auto split: prod.splits)
qed

lemma consecutive_agree:
  "(\<forall>(a, b) \<in> set (zip cs (tl cs)). r (None, a) \<noteq> None \<and> r (None, a) = r (None, b)) \<longleftrightarrow> cells_agree r cs"
proof (induction cs)
  case (Cons c cs)
  show ?case
  proof (cases cs)
    case (Cons d ds)
    then show ?thesis using Cons.IH by (cases ds) (auto simp: cells_agree_def)
  qed (simp add: cells_agree_def)
qed (simp add: cells_agree_def)

lemma column_constraints_true:
  assumes E: "expr_ok D"
  shows "opt_truth D r (column_constraints cs)" "opt_true D r (column_constraints cs) \<longleftrightarrow> cells_agree r cs"
proof -
  have t: "\<forall>e \<in> set (map (\<lambda>(a, b). EEq (Column (None, a)) (Column (None, b))) (zip cs (tl cs))). is_truth (eval_expr D r e)"
    using eval_eq_cells(1) [OF E] by (auto simp del: eval_expr.simps)
  show "opt_truth D r (column_constraints cs)" unfolding column_constraints_def by (rule reduce_and_opt [OF E t])
  show "opt_true D r (column_constraints cs) \<longleftrightarrow> cells_agree r cs"
    unfolding column_constraints_def reduce_and_opt(2) [OF E t] consecutive_agree [symmetric]
    using eval_eq_cells(2) [OF E] by (fastforce simp del: eval_expr.simps)
qed

lemma push_column_map_of:
  "map_of (push_column v c m) = (map_of m)(v \<mapsto> (case map_of m v of None \<Rightarrow> [c] | Some cs \<Rightarrow> cs @ [c]))"
  by (induction m) (auto simp: fun_eq_iff)

lemma push_column_fst: "fst ` set (push_column v c m) = insert v (fst ` set m)"
  by (induction v c m rule: push_column.induct) (simp_all add: insert_commute)

lemma push_column_keys: "distinct (map fst m) \<Longrightarrow> distinct (map fst (push_column v c m))"
  by (induction m) (auto simp: push_column_fst)

lemma collect_mappings_map_of:
  "(case map_of (collect_mappings cps m) v of None \<Rightarrow> [] | Some cs \<Rightarrow> cs) =
     (case map_of m v of None \<Rightarrow> [] | Some cs \<Rightarrow> cs) @ placeholder_columns cps (PVariable v)"
  by (induction cps m rule: collect_mappings.induct)
    (auto simp: placeholder_columns_def push_column_map_of split: option.splits)

lemma collect_mappings_keys: "distinct (map fst m) \<Longrightarrow> distinct (map fst (collect_mappings cps m))"
  by (induction cps m rule: collect_mappings.induct) (auto simp: push_column_keys)

lemma filter_same_variable_true:
  assumes E: "expr_ok D"
  shows "opt_truth D r (filter_same_variable cps)"
    and "opt_true D r (filter_same_variable cps) \<longleftrightarrow> (\<forall>v. cells_agree r (placeholder_columns cps (PVariable v)))"
proof -
  note cc = column_constraints_true [OF E]
  let ?m = "collect_mappings cps []"
  show "opt_truth D r (filter_same_variable cps)" unfolding filter_same_variable_def
    by (rule reduce_map_filter [OF E]) (use cc in auto)
  have "opt_true D r (filter_same_variable cps) \<longleftrightarrow> (\<forall>x \<in> set ?m. cells_agree r (snd x))"
    unfolding filter_same_variable_def
    by (subst reduce_map_filter(2) [OF E]) (use cc in auto)
  also have "\<dots> \<longleftrightarrow> (\<forall>v cs. map_of ?m v = Some cs \<longrightarrow> cells_agree r cs)"
    using collect_mappings_keys [of "[]" cps] by (auto simp: map_of_eq_Some_iff)
  also have "\<dots> \<longleftrightarrow> (\<forall>v. cells_agree r (placeholder_columns cps (PVariable v)))"
  proof -
    have "(\<forall>cs. map_of ?m v = Some cs \<longrightarrow> cells_agree r cs) \<longleftrightarrow> cells_agree r (placeholder_columns cps (PVariable v))" for v
      using collect_mappings_map_of [of cps "[]" v]
      by (cases "map_of ?m v") (auto simp: cells_agree_def)
    then show ?thesis by blast
  qed
  finally show "opt_true D r (filter_same_variable cps) \<longleftrightarrow> (\<forall>v. cells_agree r (placeholder_columns cps (PVariable v)))" .
qed

lemma compute_filters_true:
  assumes E: "expr_ok D"
  shows "opt_true D r (compute_filters_for_pattern node) \<longleftrightarrow>
    (\<forall>x \<in> set (pattern_columns node). \<forall>t. pattern_constant (snd x) = Some t \<longrightarrow> r (None, fst x) = Some t) \<and>
    (\<forall>v. cells_agree r (placeholder_columns (pattern_columns node) (PVariable v)))"
proof -
  let ?fs = "[filter_by_values (pattern_columns node), filter_same_variable (pattern_columns node)]"
  have "opt_true D r (compute_filters_for_pattern node) \<longleftrightarrow> (\<forall>f \<in> set ?fs. opt_true D r (id f))"
    unfolding compute_filters_for_pattern_def
    by (rule reduce_map_filter(2) [OF E])
      (use filter_by_values_true(1) [OF E] filter_same_variable_true(1) [OF E] in auto)
  then show ?thesis by (simp add: filter_by_values_true(2) [OF E] filter_same_variable_true(2) [OF E])
qed

lemma projections_map_of:
  "map_of (projections_loop cps done) n =
     (if n \<in> set done then None
      else map_option (\<lambda>(c, p). Column (None, c)) (find (\<lambda>(c, p). pattern_name p = Some n) cps))"
  by (induction cps "done" rule: projections_loop.induct) (auto split: option.splits)

lemma project_pattern: "project_row D (projections_loop cps []) r = row_of (pattern_solution cps r)"
  by (auto simp: project_row_def row_of_def pattern_solution_def projections_map_of fun_eq_iff split: option.splits)

lemma rewrite_pattern_rows:
  assumes "datafusion_ok D"
  shows "mset (rewrite_pattern_node D node) = mset (map (\<lambda>r. row_of (pattern_solution (pattern_columns node) r))
     (filter (\<lambda>r. opt_true D r (compute_filters_for_pattern node)) (plan_rows (pattern_input node))))"
  using datafusion_okD(2,3) [OF assms]
  by (cases "compute_filters_for_pattern node")
    (simp_all add: rewrite_pattern_node_def project_to_variables_def project_def project_pattern [abs_def])

section \<open>Properties\<close>

text \<open>C35: The lowering of a pattern keeps exactly the rows that match the pattern and maps
  each of them to its solution, for every pattern in which no blank node occurs twice or has the name
  of a variable.\<close>

theorem pattern_lowering_correct:
  assumes "datafusion_ok D" "pattern_try_new p patterns = Inr node" "names_unambiguous (pattern_columns node)"
  shows "mset (map solution (rewrite_pattern_node D node)) =
    mset (map (pattern_solution (pattern_columns node)) (filter (pattern_matches (pattern_columns node)) (plan_rows p)))"
proof -
  have node: "pattern_input node = p" using assms(2) by (auto simp: pattern_try_new_def split: if_splits)
  have "cells_agree r (placeholder_columns (pattern_columns node) (PBlankNode b))" for r :: "'a Term row" and b
    using assms(3) by (simp add: names_unambiguous_def cells_agree_def)
  then have "opt_true D r (compute_filters_for_pattern node) \<longleftrightarrow> pattern_matches (pattern_columns node) r" for r
    by (simp add: compute_filters_true [OF datafusion_okD(1) [OF assms(1)]] pattern_matches_def)
  then show ?thesis
    using mset_map_cong [OF rewrite_pattern_rows [OF assms(1), of node], of solution]
    by (simp add: node multiset.map_comp comp_def)
qed

text \<open>A pattern with the same blank node as source and target accepts every row, also one
  whose source and target differ: the filter on repeated placeholders looks at variables only.\<close>

theorem repeated_blank_node_unfiltered:
  assumes "datafusion_ok D" "schema_names (plan_schema p) = [''_graph'', ''_source'', ''_target'']"
    "pattern_try_new p [None, Some (PBlankNode b), Some (PBlankNode b)] = Inr node"
  shows "size (mset (rewrite_pattern_node D node)) = length (plan_rows p)"
proof -
  have node: "pattern_input node = p" "pattern_columns node = [(''_graph'', None), (''_source'', Some (PBlankNode b)), (''_target'', Some (PBlankNode b))]"
    using assms(2,3) by (auto simp: pattern_try_new_def pattern_columns_def split: if_splits)
  have "opt_true D r (compute_filters_for_pattern node)" for r
    by (simp add: compute_filters_true [OF datafusion_okD(1) [OF assms(1)]] node(2) placeholder_columns_def cells_agree_def)
  then show ?thesis
    using arg_cong [OF rewrite_pattern_rows [OF assms(1), of node], of size] by (simp add: node(1))
qed

definition demo_paths :: "RefLiteral Term plan" where
  "demo_paths = \<lparr>plan_schema = [demo_field ''_graph'' True, demo_field ''_source'' False, demo_field ''_target'' False],
     plan_rows = [row_of [''_source'' \<mapsto> NamedNode ''a'', ''_target'' \<mapsto> NamedNode ''b''],
                  row_of [''_source'' \<mapsto> NamedNode ''c'', ''_target'' \<mapsto> NamedNode ''c'']]\<rparr>"

theorem pattern_lowering_correct_witness:
  "\<exists>node. pattern_try_new demo_paths [None, Some (PVariable ''x''), Some (PVariable ''x'')] = Inr node \<and>
     mset (map solution (rewrite_pattern_node ref_df node)) = {#[''x'' \<mapsto> NamedNode ''c'']#}"
proof -
  let ?pats = "[None, Some (PVariable ''x''), Some (PVariable ''x'')] :: RefLiteral TermPattern option list"
  obtain node where node: "pattern_try_new demo_paths ?pats = Inr node"
    by (simp add: pattern_try_new_def demo_paths_def)
  have cols: "pattern_columns node = zip [''_graph'', ''_source'', ''_target''] ?pats"
    using node by (auto simp: pattern_try_new_def pattern_columns_def demo_paths_def schema_names_def demo_field_def)
  have pc: "placeholder_columns (pattern_columns node) (PVariable v) = (if ''x'' = v then [''_source'', ''_target''] else [])"
    "placeholder_columns (pattern_columns node) (PBlankNode v) = []" for v
    by (simp_all add: cols placeholder_columns_def)
  have const: "\<forall>x \<in> set (pattern_columns node). pattern_constant (snd x) = None" by (simp add: cols)
  have sol: "pattern_solution (pattern_columns node) r = (\<lambda>n. if n = ''x'' then r (None, ''_source'') else None)" for r
    by (auto simp: cols pattern_solution_def fun_eq_iff)
  have "names_unambiguous (pattern_columns node)" by (simp add: names_unambiguous_def pc)
  note low = pattern_lowering_correct [OF ref_df_ok node this]
  have match: "pattern_matches (pattern_columns node) r \<longleftrightarrow>
      (\<exists>t. r (None, ''_source'') = Some t \<and> r (None, ''_target'') = Some t)" for r
    using const by (auto simp: pattern_matches_def pc cells_agree_def)
  have rows: "filter (pattern_matches (pattern_columns node)) (plan_rows demo_paths) =
      [row_of [''_source'' \<mapsto> NamedNode ''c'', ''_target'' \<mapsto> NamedNode ''c'']]"
    by (simp add: demo_paths_def match row_of_None)
  have "pattern_solution (pattern_columns node) (row_of [''_source'' \<mapsto> NamedNode ''c'', ''_target'' \<mapsto> NamedNode ''c'']) =
      [''x'' \<mapsto> NamedNode ''c'']"
    by (rule ext) (simp add: sol row_of_None)
  then show ?thesis using node low by (simp add: rows)
qed

theorem repeated_blank_node_unfiltered_witness:
  "\<exists>node. pattern_try_new demo_paths [None, Some (PBlankNode ''b''), Some (PBlankNode ''b'')] = Inr node \<and>
     size (mset (rewrite_pattern_node ref_df node)) = 2"
  using repeated_blank_node_unfiltered [OF ref_df_ok, of demo_paths "''b''"]
  by (simp add: pattern_try_new_def demo_paths_def schema_names_def demo_field_def)

end
