(* ===== verification/Path_Closure.thy ===== *)
theory Path_Closure
  imports Plain_Term
begin

text \<open>
  The Kleene-plus closure of property paths (\<open>lib/physical/src/paths/kleene_plus/physical.rs\<close>):
  the stream that collects the inner paths, iterates a semi-naive join of the newest paths with
  the initial ones, and emits one batch. Hash maps and sets are lists without repetition, in
  insertion order; every statement on the result is about its set of paths, so it does not
  depend on an iteration order. Shown: the iteration terminates and the emitted paths are,
  without repetition, exactly the transitive closure, inside each graph or across the graphs.
\<close>

section \<open>State\<close>

record ('g, 't) Path =
  path_graph :: 'g
  path_start :: 't
  path_end :: 't

type_synonym ('g, 't) paths_map = "('g \<times> ('t \<times> 't) list) list"

record ('g, 't) closure_state =
  initial_paths_map :: "('g, 't) paths_map"
  all_paths :: "('g, 't) Path list"
  current_delta :: "('g, 't) Path list"

definition closure_new :: "('g, 't) closure_state" where
  "closure_new = \<lparr>initial_paths_map = [], all_paths = [], current_delta = []\<rparr>"

definition hash_insert :: "'a \<Rightarrow> 'a list \<Rightarrow> 'a list" where
  "hash_insert x xs = (if x \<in> set xs then xs else xs @ [x])"

text \<open>\<open>map.entry(g).or_default().insert(p)\<close>\<close>

fun entry_insert :: "'g \<Rightarrow> 't \<times> 't \<Rightarrow> ('g, 't) paths_map \<Rightarrow> ('g, 't) paths_map" where
  "entry_insert g p [] = [(g, [p])]"
| "entry_insert g p ((g', ps) # m) =
     (if g = g' then (g', hash_insert p ps) # m else (g', ps) # entry_insert g p m)"

section \<open>Collecting the input\<close>

text \<open>\<open>Panicked\<close> is not an error that is returned: the call does not return, it unwinds with a panic.\<close>

datatype exec_error = ExecError string | InputError string | Panicked string

text \<open>The next row of the zipped decoders: all three are advanced, and the first that panics ends the call.\<close>

fun decoder_next :: "'a decoded \<Rightarrow> (exec_error, (ThinError, 'a) result) result" where
  "decoder_next (Decoded v) = Inr (Inr v)"
| "decoder_next (DecodeErr e) = Inr (Inl e)"
| "decoder_next (DecodePanic m) = Inl (Panicked m)"

definition izip_next ::
  "GraphName decoded \<times> 'l Term decoded \<times> 'l Term decoded \<Rightarrow>
   (exec_error, (ThinError, GraphName) result \<times> (ThinError, 'l Term) result \<times> (ThinError, 'l Term) result) result" where
  "izip_next row =
     and_then (decoder_next (fst row)) (\<lambda>g. and_then (decoder_next (fst (snd row))) (\<lambda>s. map_ok (\<lambda>e. (g, s, e)) (decoder_next (snd (snd row)))))"

text \<open>\<open>map_err\<close> turns a decoding error of a column into an execution error.\<close>

definition column_value :: "string \<Rightarrow> (ThinError, 'a) result \<Rightarrow> (exec_error, 'a) result" where
  "column_value msg x = map_err (\<lambda>_. ExecError msg) x"

definition add_initial_path ::
  "'g \<Rightarrow> 't \<Rightarrow> 't \<Rightarrow> ('g, 't) closure_state \<Rightarrow> ('g, 't) closure_state" where
  "add_initial_path g s e st =
     (let path = \<lparr>path_graph = g, path_start = s, path_end = e\<rparr>
      in \<lparr>initial_paths_map = entry_insert g (s, e) (initial_paths_map st),
          all_paths = hash_insert path (all_paths st),
          current_delta = current_delta st @ [path]\<rparr>)"

text \<open>The state that is left when a row fails has the rows before it.\<close>

fun collect_rows ::
  "(GraphName decoded \<times> 'l Term decoded \<times> 'l Term decoded) list \<Rightarrow>
   (GraphName, 'l Term) closure_state \<Rightarrow> (exec_error, unit) result \<times> (GraphName, 'l Term) closure_state" where
  "collect_rows [] st = (Inr (), st)"
| "collect_rows (row # rows) st =
     (case and_then (izip_next row) (\<lambda>(graph, start, end_v).
        and_then (column_value ''Could not obtain graph value from inner paths.'' graph) (\<lambda>g.
        and_then (column_value ''Could not obtain start value from inner paths.'' start) (\<lambda>s.
        map_ok (\<lambda>e. (g, s, e)) (column_value ''Could not obtain end value from inner paths.'' end_v)))) of
        Inl err \<Rightarrow> (Inl err, st)
      | Inr (g, s, e) \<Rightarrow> collect_rows rows (add_initial_path g s e st))"

record PathBatch =
  graph_column :: PlainTermArray
  source_column :: PlainTermArray
  target_column :: PlainTermArray




definition batch_rows :: "'l LiteralApi \<Rightarrow> PathBatch \<Rightarrow> (GraphName decoded \<times> 'l Term decoded \<times> 'l Term decoded) list" where
  "batch_rows L batch = zip (decode_graph_names L (graph_column batch))
     (zip (decode_terms L (source_column batch)) (decode_terms L (target_column batch)))"

definition collect_next_batch ::
  "'l LiteralApi \<Rightarrow> PathBatch \<Rightarrow> (GraphName, 'l Term) closure_state \<Rightarrow>
   (exec_error, unit) result \<times> (GraphName, 'l Term) closure_state" where
  "collect_next_batch L batch = collect_rows (batch_rows L batch)"

section \<open>One iteration of the closure\<close>

definition extend_path ::
  "('g, 't) Path \<Rightarrow> 't \<times> 't \<Rightarrow> ('g, 't) Path list \<times> ('g, 't) Path list \<Rightarrow>
   ('g, 't) Path list \<times> ('g, 't) Path list" where
  "extend_path cur be st =
     (let (all_p, next_delta) = st; (b, c) = be in
      if path_end cur = b then
        let path_ac = \<lparr>path_graph = path_graph cur, path_start = path_start cur, path_end = c\<rparr>
        in if path_ac \<in> set all_p then st else (all_p @ [path_ac], next_delta @ [path_ac])
      else st)"

definition compute_new_single_graph_paths ::
  "('g, 't) paths_map \<Rightarrow> 'g \<Rightarrow> ('g, 't) Path \<Rightarrow> ('g, 't) Path list \<times> ('g, 't) Path list \<Rightarrow>
   ('g, 't) Path list \<times> ('g, 't) Path list" where
  "compute_new_single_graph_paths initial graph_name cur st =
     (case map_of initial graph_name of None \<Rightarrow> st | Some ps \<Rightarrow> fold (extend_path cur) ps st)"

definition compute_new_cross_graph_paths ::
  "('g, 't) paths_map \<Rightarrow> ('g, 't) Path \<Rightarrow> ('g, 't) Path list \<times> ('g, 't) Path list \<Rightarrow>
   ('g, 't) Path list \<times> ('g, 't) Path list" where
  "compute_new_cross_graph_paths initial cur st =
     fold (\<lambda>g. compute_new_single_graph_paths initial g cur) (map fst initial) st"

definition closure_iteration ::
  "bool \<Rightarrow> ('g, 't) closure_state \<Rightarrow> ('g, 't) Path list \<times> ('g, 't) Path list" where
  "closure_iteration allow_cross_graph_paths st =
     fold (\<lambda>cur. if allow_cross_graph_paths
                 then compute_new_cross_graph_paths (initial_paths_map st) cur
                 else compute_new_single_graph_paths (initial_paths_map st) (path_graph cur) cur)
       (current_delta st) (all_paths st, [])"

text \<open>The new paths an iteration may add, as a list of candidates.\<close>

definition pair_candidates :: "('g, 't) Path \<Rightarrow> ('t \<times> 't) list \<Rightarrow> ('g, 't) Path list" where
  "pair_candidates cur ps = map (\<lambda>p. cur\<lparr>path_end := snd p\<rparr>) (filter (\<lambda>p. fst p = path_end cur) ps)"

definition candidates :: "bool \<Rightarrow> ('g, 't) paths_map \<Rightarrow> ('g, 't) Path \<Rightarrow> ('g, 't) Path list" where
  "candidates cross initial cur =
     (if cross then concat (map (\<lambda>g. pair_candidates cur (the (map_of initial g))) (map fst initial))
      else (case map_of initial (path_graph cur) of None \<Rightarrow> [] | Some ps \<Rightarrow> pair_candidates cur ps))"

definition insert_new :: "'a \<Rightarrow> 'a list \<times> 'a list \<Rightarrow> 'a list \<times> 'a list" where
  "insert_new x st = (if x \<in> set (fst st) then st else (fst st @ [x], snd st @ [x]))"

lemma extend_path_step: "extend_path cur p st = fold insert_new (pair_candidates cur [p]) st"
  by (cases cur; cases p; cases st) (simp add: pair_candidates_def extend_path_def insert_new_def Let_def)

lemma pair_candidates_Cons: "pair_candidates cur (p # ps) = pair_candidates cur [p] @ pair_candidates cur ps"
  by (simp add: pair_candidates_def)

lemma extend_path_fold: "fold (extend_path cur) ps st = fold insert_new (pair_candidates cur ps) st"
proof (induction ps arbitrary: st)
  case (Cons p ps)
  show ?case by (subst pair_candidates_Cons) (simp only: fold_simps fold_append o_apply extend_path_step Cons)
qed (simp add: pair_candidates_def)

lemma fold_concat: "fold (\<lambda>x. fold f (g x)) xs st = fold f (concat (map g xs)) st"
  by (induction xs arbitrary: st) simp_all

lemma single_graph_fold:
  "compute_new_single_graph_paths initial (path_graph cur) cur st = fold insert_new (candidates False initial cur) st"
  by (simp add: compute_new_single_graph_paths_def candidates_def extend_path_fold split: option.splits)

lemma cross_graph_fold:
  "compute_new_cross_graph_paths initial cur st = fold insert_new (candidates True initial cur) st"
proof -
  have "fold (\<lambda>g. compute_new_single_graph_paths initial g cur) gs st =
      fold (\<lambda>g. fold insert_new (pair_candidates cur (the (map_of initial g)))) gs st"
    if "set gs \<subseteq> fst ` set initial" for gs
  proof (rule fold_cong [OF refl refl])
    fix g
    assume "g \<in> set gs"
    then have "map_of initial g \<noteq> None" using that by (auto simp: map_of_eq_None_iff)
    then show "compute_new_single_graph_paths initial g cur =
        fold insert_new (pair_candidates cur (the (map_of initial g)))"
      by (auto simp: compute_new_single_graph_paths_def extend_path_fold fun_eq_iff)
  qed
  from this [of "map fst initial"] show ?thesis
    by (simp add: compute_new_cross_graph_paths_def candidates_def fold_concat)
qed

lemma closure_iteration_fold:
  "closure_iteration cross st =
     fold insert_new (concat (map (candidates cross (initial_paths_map st)) (current_delta st))) (all_paths st, [])"
proof -
  have "(\<lambda>cur. if cross then compute_new_cross_graph_paths (initial_paths_map st) cur
          else compute_new_single_graph_paths (initial_paths_map st) (path_graph cur) cur) =
        (\<lambda>cur. fold insert_new (candidates cross (initial_paths_map st) cur))"
    by (auto simp: fun_eq_iff single_graph_fold cross_graph_fold)
  then show ?thesis by (simp add: closure_iteration_def fold_concat)
qed

lemma fold_insert_new:
  "\<exists>new. fold insert_new cs (a, n) = (a @ new, n @ new) \<and> set new = set cs - set a \<and> distinct new"
proof (induction cs arbitrary: a n)
  case (Cons c cs)
  show ?case
  proof (cases "c \<in> set a")
    case True
    obtain new where "fold insert_new cs (a, n) = (a @ new, n @ new)" "set new = set cs - set a" "distinct new"
      using Cons by blast
    moreover have "insert_new c (a, n) = (a, n)" using True by (simp add: insert_new_def)
    ultimately show ?thesis using True by (intro exI [of _ new]) (simp add: insert_Diff_if)
  next
    case False
    obtain new where "fold insert_new cs (a @ [c], n @ [c]) = ((a @ [c]) @ new, (n @ [c]) @ new)"
      "set new = set cs - set (a @ [c])" "distinct new"
      using Cons by blast
    moreover have "insert_new c (a, n) = (a @ [c], n @ [c])" using False by (simp add: insert_new_def)
    ultimately show ?thesis using False by (intro exI [of _ "c # new"]) auto
  qed
qed simp

lemma closure_iteration_new:
  assumes "closure_iteration cross st = (all_p, new)"
  shows "all_p = all_paths st @ new" "distinct new"
    "set new = (\<Union>p \<in> set (current_delta st). set (candidates cross (initial_paths_map st) p)) - set (all_paths st)"
proof -
  let ?cs = "concat (map (candidates cross (initial_paths_map st)) (current_delta st))"
  have "set ?cs = (\<Union>p \<in> set (current_delta st). set (candidates cross (initial_paths_map st) p))" by simp
  then show "all_p = all_paths st @ new" "distinct new"
    "set new = (\<Union>p \<in> set (current_delta st). set (candidates cross (initial_paths_map st) p)) - set (all_paths st)"
    using fold_insert_new [of ?cs "all_paths st" "[]"] assms unfolding closure_iteration_fold by force+
qed

section \<open>The closure loop\<close>

text \<open>All ends of initial paths; a candidate keeps graph and start of its path and ends in one of them.\<close>

definition path_ends :: "('g, 't) paths_map \<Rightarrow> 't set" where
  "path_ends initial = snd ` (\<Union>ps \<in> snd ` set initial. set ps)"

definition candidate_space :: "('g, 't) closure_state \<Rightarrow> ('g, 't) Path set" where
  "candidate_space st = (\<lambda>(p, e). p\<lparr>path_end := e\<rparr>) ` (set (current_delta st) \<times> path_ends (initial_paths_map st))"

lemma candidates_iff:
  "x \<in> set (candidates cross initial p) \<longleftrightarrow>
     (\<exists>g ps c. map_of initial g = Some ps \<and> (cross \<or> g = path_graph p) \<and> (path_end p, c) \<in> set ps \<and>
        x = p\<lparr>path_end := c\<rparr>)"
proof -
  have pc: "x \<in> set (pair_candidates p ps) \<longleftrightarrow> (\<exists>c. (path_end p, c) \<in> set ps \<and> x = p\<lparr>path_end := c\<rparr>)" for ps
    by (force simp: pair_candidates_def)
  have dom: "g \<in> fst ` set initial \<longleftrightarrow> (\<exists>ps. map_of initial g = Some ps)" for g
    using map_of_eq_None_iff [of initial g] by (cases "map_of initial g") auto
  show ?thesis
  proof (cases cross)
    case True
    then have "x \<in> set (candidates cross initial p) \<longleftrightarrow>
        (\<exists>g \<in> fst ` set initial. x \<in> set (pair_candidates p (the (map_of initial g))))"
      by (simp add: candidates_def)
    also have "\<dots> \<longleftrightarrow> (\<exists>g ps. map_of initial g = Some ps \<and> x \<in> set (pair_candidates p ps))"
      unfolding dom Bex_def by (metis option.sel)
    finally show ?thesis using True unfolding pc by blast
  next
    case False
    then show ?thesis by (cases "map_of initial (path_graph p)") (auto simp: candidates_def pc)
  qed
qed

lemma candidates_in_space:
  "x \<in> set (candidates cross initial p) \<Longrightarrow> \<exists>e \<in> path_ends initial. x = p\<lparr>path_end := e\<rparr>"
  unfolding candidates_iff path_ends_def by (force dest: map_of_SomeD)

function closure_loop :: "bool \<Rightarrow> ('g, 't) closure_state \<Rightarrow> ('g, 't) closure_state" where
  "closure_loop cross st =
     (let (all_p, next_delta) = closure_iteration cross st
      in if next_delta = [] then st\<lparr>all_paths := all_p\<rparr>
         else closure_loop cross (st\<lparr>all_paths := all_p, current_delta := next_delta\<rparr>))"
  by pat_completeness auto

lemma closure_iteration_decreases:
  assumes "closure_iteration cross st = (all_p, next_delta)" "next_delta \<noteq> []"
  shows "card (candidate_space (st\<lparr>all_paths := all_p, current_delta := next_delta\<rparr>) - set all_p)
    < card (candidate_space st - set (all_paths st))"
proof (rule psubset_card_mono)
  have fin: "finite (path_ends (initial_paths_map st))" by (auto simp: path_ends_def)
  then show "finite (candidate_space st - set (all_paths st))" by (simp add: candidate_space_def)
  note eq = closure_iteration_new(1) [OF assms(1)] and next_set = closure_iteration_new(3) [OF assms(1)]
  have new: "\<exists>p \<in> set (current_delta st). \<exists>e \<in> path_ends (initial_paths_map st). x = p\<lparr>path_end := e\<rparr>"
    if "x \<in> set next_delta" for x
  proof -
    obtain p where "p \<in> set (current_delta st)" "x \<in> set (candidates cross (initial_paths_map st) p)"
      using \<open>x \<in> set next_delta\<close> unfolding next_set by blast
    then show ?thesis using candidates_in_space [of x cross "initial_paths_map st" p] by blast
  qed
  have space: "x \<in> candidate_space st" if "x \<in> set next_delta" for x
    using new [OF that] by (auto simp: candidate_space_def)
  have "x \<in> candidate_space st"
    if x: "x \<in> candidate_space (st\<lparr>all_paths := all_p, current_delta := next_delta\<rparr>)" for x
  proof -
    obtain p e where p: "p \<in> set next_delta" "e \<in> path_ends (initial_paths_map st)" "x = p\<lparr>path_end := e\<rparr>"
      using x by (auto simp: candidate_space_def)
    obtain p' e' where "p' \<in> set (current_delta st)" "p = p'\<lparr>path_end := e'\<rparr>" using new [OF p(1)] by blast
    with p show ?thesis by (auto simp: candidate_space_def intro!: image_eqI [of _ _ "(p', e)"])
  qed
  then have sub: "candidate_space (st\<lparr>all_paths := all_p, current_delta := next_delta\<rparr>) \<subseteq> candidate_space st"
    by blast
  obtain x where x: "x \<in> set next_delta" using assms(2) by (cases next_delta) auto
  then have "x \<in> candidate_space st - set (all_paths st)" "x \<in> set all_p"
    using space [OF x] by (simp_all add: eq next_set)
  with sub show "candidate_space (st\<lparr>all_paths := all_p, current_delta := next_delta\<rparr>) - set all_p
      \<subset> candidate_space st - set (all_paths st)"
    unfolding eq by auto
qed

termination closure_loop
proof (relation "measure (\<lambda>(cross, st). card (candidate_space st - set (all_paths st)))")
  fix cross :: bool and st :: "('g, 't) closure_state" and x all_p next_delta
  assume "x = closure_iteration cross st" "(all_p, next_delta) = x" "next_delta \<noteq> []"
  then show "((cross, st\<lparr>all_paths := all_p, current_delta := next_delta\<rparr>), cross, st)
      \<in> measure (\<lambda>(cross, st). card (candidate_space st - set (all_paths st)))"
    using closure_iteration_decreases [of cross st all_p next_delta] by simp
qed simp

declare closure_loop.simps [simp del]

section \<open>The stream\<close>

fun append_paths ::
  "'l LiteralApi \<Rightarrow> (GraphName, 'l Term) Path list \<Rightarrow> PathBatch \<Rightarrow> PathBatch option" where
  "append_paths L [] b = Some b"
| "append_paths L (p # ps) b =
     Option.bind (case path_graph p of
         GNamedNode nn \<Rightarrow> append_named_node nn (graph_column b)
       | GBlankNode bnode \<Rightarrow> append_blank_node bnode (graph_column b)
       | DefaultGraph \<Rightarrow> Some (append_null (graph_column b))) (\<lambda>g.
     Option.bind (append_term L (path_start p) (source_column b)) (\<lambda>s.
     Option.bind (append_term L (path_end p) (target_column b)) (\<lambda>e.
     append_paths L ps \<lparr>graph_column = g, source_column = s, target_column = e\<rparr>)))"

definition empty_batch :: PathBatch where
  "empty_batch = \<lparr>graph_column = builder_new, source_column = builder_new, target_column = builder_new\<rparr>"

text \<open>The record batch is checked against the schema of the path table: every column has the
  stated number of rows and the non-nullable source and target have no null.\<close>

definition try_new_batch :: "nat \<Rightarrow> PathBatch \<Rightarrow> (exec_error, PathBatch) result" where
  "try_new_batch row_count b =
     (if length (null_buffer (graph_column b)) = row_count \<and>
         null_buffer (source_column b) = replicate row_count True \<and>
         null_buffer (target_column b) = replicate row_count True
      then Inr b else Inl (ExecError ''Arrow error''))"

definition create_output_batch ::
  "'l LiteralApi \<Rightarrow> (GraphName, 'l Term) closure_state \<Rightarrow> (exec_error, PathBatch) result" where
  "create_output_batch L st =
     and_then (ok_or (Option.bind (append_paths L (all_paths st) empty_batch) (\<lambda>b.
         Option.bind (finish (graph_column b)) (\<lambda>g. Option.bind (finish (source_column b)) (\<lambda>s.
         Option.bind (finish (target_column b)) (\<lambda>e.
         Some \<lparr>graph_column = g, source_column = s, target_column = e\<rparr>)))))
       (Panicked ''plain term builder''))
     (try_new_batch (length (all_paths st)))"

datatype stream_state =
    CollectingInput "(exec_error, PathBatch) result list"
  | Computing
  | Done
  | ErrorState

type_synonym 'l closure_stream = "stream_state \<times> (GraphName, 'l Term) closure_state"


definition stream_new :: "(exec_error, PathBatch) result list \<Rightarrow> 'l closure_stream" where
  "stream_new input = (CollectingInput input, closure_new)"

text \<open>The error or panic that stops the collection, if any, the rest of the input and the state.\<close>

fun collect_input ::
  "'l LiteralApi \<Rightarrow> (exec_error, PathBatch) result list \<Rightarrow> (GraphName, 'l Term) closure_state \<Rightarrow>
   exec_error option \<times> (exec_error, PathBatch) result list \<times> (GraphName, 'l Term) closure_state" where
  "collect_input L [] st = (None, [], st)"
| "collect_input L (Inl e # input) st = (Some e, input, st)"
| "collect_input L (Inr batch # input) st =
     (case collect_next_batch L batch st of (Inl e, st') \<Rightarrow> (Some e, input, st') | (Inr _, st') \<Rightarrow> collect_input L input st')"

definition computing ::
  "'l LiteralApi \<Rightarrow> bool \<Rightarrow> (GraphName, 'l Term) closure_state \<Rightarrow>
   (exec_error, PathBatch) result option \<times> 'l closure_stream" where
  "computing L cross st =
     (if all_paths st = [] then (None, (Done, st))
      else let st' = closure_loop cross st
           in case create_output_batch L st' of
                Inr batch \<Rightarrow> (Some (Inr batch), (Done, st'))
              | Inl (Panicked m) \<Rightarrow> (Some (Inl (Panicked m)), (Computing, st'))
              | Inl e \<Rightarrow> (Some (Inl e), (ErrorState, st')))"

text \<open>\<open>poll_inner\<close> on an input that is always ready: the item and the next state. An error is reported and the stream is in the
  error state; a panic leaves the stream in the state it was in.\<close>

fun poll_inner ::
  "'l LiteralApi \<Rightarrow> bool \<Rightarrow> 'l closure_stream \<Rightarrow> (exec_error, PathBatch) result option \<times> 'l closure_stream" where
  "poll_inner L cross (CollectingInput input, st) =
     (case collect_input L input st of
        (None, _, st') \<Rightarrow> computing L cross st'
      | (Some (Panicked m), input', st') \<Rightarrow> (Some (Inl (Panicked m)), (CollectingInput input', st'))
      | (Some e, _, st') \<Rightarrow> (Some (Inl e), (ErrorState, st')))"
| "poll_inner L cross (Computing, st) = computing L cross st"
| "poll_inner L cross (Done, st) = (None, (Done, st))"
| "poll_inner L cross (ErrorState, st) = (Some (Inl (ExecError ''Error already occurred.'')), (ErrorState, st))"

section \<open>The result is the closure\<close>

definition path_triple :: "('g, 't) Path \<Rightarrow> 'g \<times> 't \<times> 't" where
  "path_triple p = (path_graph p, path_start p, path_end p)"

lemma path_triple_eq_iff [simp]: "path_triple p = path_triple q \<longleftrightarrow> p = q"
  by (cases p; cases q) (simp add: path_triple_def)

text \<open>The specification: a path starts with an inner path of its graph and goes on with inner
  paths of the same graph, or of any graph.\<close>

definition graph_edges :: "bool \<Rightarrow> ('g \<times> 't \<times> 't) set \<Rightarrow> 'g \<Rightarrow> ('t \<times> 't) set" where
  "graph_edges cross R g = {(a, b). \<exists>g'. (cross \<or> g' = g) \<and> (g', a, b) \<in> R}"

definition path_closure :: "bool \<Rightarrow> ('g \<times> 't \<times> 't) set \<Rightarrow> ('g \<times> 't \<times> 't) set" where
  "path_closure cross R = {(g, s, e). \<exists>m. (g, s, m) \<in> R \<and> (m, e) \<in> (graph_edges cross R g)\<^sup>*}"

definition initial_edges :: "('g, 't) paths_map \<Rightarrow> ('g \<times> 't \<times> 't) set" where
  "initial_edges initial = {(g, s, e). \<exists>ps. map_of initial g = Some ps \<and> (s, e) \<in> set ps}"

lemma map_of_entry_insert:
  "map_of (entry_insert g p m) =
     (map_of m)(g \<mapsto> (case map_of m g of None \<Rightarrow> [p] | Some ps \<Rightarrow> hash_insert p ps))"
  by (induction m) (auto simp: fun_eq_iff)

lemma entry_insert_edges: "initial_edges (entry_insert g (s, e) initial) = insert (g, s, e) (initial_edges initial)"
  by (auto simp: initial_edges_def map_of_entry_insert hash_insert_def split: option.splits if_splits)

lemma candidates_edges:
  "x \<in> set (candidates cross initial p) \<longleftrightarrow>
     (\<exists>c. (path_end p, c) \<in> graph_edges cross (initial_edges initial) (path_graph p) \<and> x = p\<lparr>path_end := c\<rparr>)"
  unfolding candidates_iff graph_edges_def initial_edges_def by blast

definition closure_inv :: "bool \<Rightarrow> ('g, 't) closure_state \<Rightarrow> bool" where
  "closure_inv cross st \<longleftrightarrow>
     distinct (all_paths st) \<and> set (current_delta st) \<subseteq> set (all_paths st) \<and>
     initial_edges (initial_paths_map st) \<subseteq> path_triple ` set (all_paths st) \<and>
     path_triple ` set (all_paths st) \<subseteq> path_closure cross (initial_edges (initial_paths_map st)) \<and>
     (\<forall>p \<in> set (all_paths st) - set (current_delta st).
        set (candidates cross (initial_paths_map st) p) \<subseteq> set (all_paths st))"

lemma candidate_in_closure:
  assumes "path_triple p \<in> path_closure cross (initial_edges initial)" "x \<in> set (candidates cross initial p)"
  shows "path_triple x \<in> path_closure cross (initial_edges initial)"
proof -
  obtain m where m: "(path_graph p, path_start p, m) \<in> initial_edges initial"
    "(m, path_end p) \<in> (graph_edges cross (initial_edges initial) (path_graph p))\<^sup>*"
    using assms(1) unfolding path_closure_def path_triple_def by blast
  obtain c where c: "(path_end p, c) \<in> graph_edges cross (initial_edges initial) (path_graph p)"
    "x = p\<lparr>path_end := c\<rparr>"
    using assms(2) unfolding candidates_edges by blast
  have "(m, c) \<in> (graph_edges cross (initial_edges initial) (path_graph p))\<^sup>*"
    using m(2) c(1) by (rule rtrancl_into_rtrancl)
  with m(1) show ?thesis unfolding path_closure_def path_triple_def c(2) by auto
qed

lemma closure_iteration_inv:
  assumes inv: "closure_inv cross st" and it: "closure_iteration cross st = (all_p, next_delta)"
  shows "closure_inv cross (st\<lparr>all_paths := all_p, current_delta := next_delta\<rparr>)"
proof -
  note eq = closure_iteration_new [OF it]
  let ?init = "initial_paths_map st"
  from inv have d: "distinct (all_paths st)" and sub: "set (current_delta st) \<subseteq> set (all_paths st)"
    and edges: "initial_edges ?init \<subseteq> path_triple ` set (all_paths st)"
    and incl: "path_triple ` set (all_paths st) \<subseteq> path_closure cross (initial_edges ?init)"
    and closed: "\<And>p. p \<in> set (all_paths st) - set (current_delta st) \<Longrightarrow>
      set (candidates cross ?init p) \<subseteq> set (all_paths st)"
    by (simp_all add: closure_inv_def)
  have all_p: "set all_p = set (all_paths st) \<union> set next_delta" by (simp add: eq(1))
  have new: "path_triple ` set next_delta \<subseteq> path_closure cross (initial_edges ?init)"
  proof (rule image_subsetI)
    fix x
    assume "x \<in> set next_delta"
    then obtain p where p: "p \<in> set (current_delta st)" "x \<in> set (candidates cross ?init p)"
      unfolding eq(3) by blast
    then have "path_triple p \<in> path_closure cross (initial_edges ?init)" using sub incl by blast
    then show "path_triple x \<in> path_closure cross (initial_edges ?init)" using p(2) by (rule candidate_in_closure)
  qed
  have "set (candidates cross ?init p) \<subseteq> set all_p" if p: "p \<in> set all_p - set next_delta" for p
  proof (cases "p \<in> set (current_delta st)")
    case True
    then show ?thesis unfolding all_p eq(3) by blast
  next
    case False
    then have "p \<in> set (all_paths st) - set (current_delta st)" using p unfolding all_p by blast
    then show ?thesis using closed unfolding all_p by blast
  qed
  moreover have "distinct all_p" using d eq by auto
  moreover have "initial_edges ?init \<subseteq> path_triple ` set all_p" using edges unfolding all_p by blast
  moreover have "path_triple ` set all_p \<subseteq> path_closure cross (initial_edges ?init)"
    using incl new unfolding all_p by blast
  moreover have "set next_delta \<subseteq> set all_p" unfolding all_p by blast
  ultimately show ?thesis by (simp add: closure_inv_def)
qed

lemma closed_contains_closure:
  assumes edges: "initial_edges initial \<subseteq> path_triple ` A"
    and closed: "\<And>p. p \<in> A \<Longrightarrow> set (candidates cross initial p) \<subseteq> A"
  shows "path_closure cross (initial_edges initial) \<subseteq> path_triple ` A"
proof safe
  fix g s e
  assume "(g, s, e) \<in> path_closure cross (initial_edges initial)"
  then obtain m where m: "(g, s, m) \<in> initial_edges initial"
    "(m, e) \<in> (graph_edges cross (initial_edges initial) g)\<^sup>*"
    by (auto simp: path_closure_def)
  from m(2) show "(g, s, e) \<in> path_triple ` A"
  proof induction
    case base
    then show ?case using edges m(1) by blast
  next
    case (step y z)
    then obtain p where p: "p \<in> A" "path_triple p = (g, s, y)" by (metis imageE)
    then have "p\<lparr>path_end := z\<rparr> \<in> set (candidates cross initial p)"
      unfolding candidates_edges using step(2) by (auto simp: path_triple_def)
    then have "p\<lparr>path_end := z\<rparr> \<in> A" using closed [OF p(1)] by blast
    moreover have "path_triple (p\<lparr>path_end := z\<rparr>) = (g, s, z)" using p(2) by (simp add: path_triple_def)
    ultimately show ?case by (metis image_eqI)
  qed
qed

lemma closure_loop_correct:
  "closure_inv cross st \<Longrightarrow>
   distinct (all_paths (closure_loop cross st)) \<and>
   path_triple ` set (all_paths (closure_loop cross st)) = path_closure cross (initial_edges (initial_paths_map st))"
proof (induction cross st rule: closure_loop.induct)
  case (1 cross st)
  obtain all_p next_delta where it: "closure_iteration cross st = (all_p, next_delta)" by fastforce
  note inv' = closure_iteration_inv [OF "1.prems" it]
  show ?case
  proof (cases "next_delta = []")
    case True
    then have loop: "closure_loop cross st = st\<lparr>all_paths := all_p\<rparr>"
      by (subst closure_loop.simps) (simp add: it)
    have "path_closure cross (initial_edges (initial_paths_map st)) \<subseteq> path_triple ` set all_p"
      by (rule closed_contains_closure) (use inv' True in \<open>auto simp: closure_inv_def\<close>)
    with inv' show ?thesis by (auto simp: loop closure_inv_def)
  next
    case False
    then have "closure_loop cross st = closure_loop cross (st\<lparr>all_paths := all_p, current_delta := next_delta\<rparr>)"
      by (subst closure_loop.simps) (simp add: it)
    with "1.IH" [OF it [symmetric] refl False inv'] show ?thesis by simp
  qed
qed

section \<open>Collecting and emitting\<close>

definition collected :: "('g \<times> 't \<times> 't) set \<Rightarrow> ('g, 't) closure_state \<Rightarrow> bool" where
  "collected R st \<longleftrightarrow> distinct (all_paths st) \<and> set (current_delta st) = set (all_paths st) \<and>
     path_triple ` set (all_paths st) = R \<and> initial_edges (initial_paths_map st) = R"

lemma collected_new [simp]: "collected {} closure_new"
  by (simp add: collected_def closure_new_def initial_edges_def)

lemma add_initial_path_collected:
  "collected R st \<Longrightarrow> collected (insert (g, s, e) R) (add_initial_path g s e st)"
proof -
  assume c: "collected R st"
  let ?p = "\<lparr>path_graph = g, path_start = s, path_end = e\<rparr>"
  have p: "path_triple ?p = (g, s, e)" by (simp add: path_triple_def)
  have "path_triple ` set (hash_insert ?p (all_paths st)) = insert (g, s, e) R"
    using c by (auto simp: hash_insert_def collected_def p) (metis p image_eqI)
  with c show ?thesis
    by (auto simp: collected_def add_initial_path_def Let_def entry_insert_edges hash_insert_def)
qed

definition decoded_row :: "GraphName \<times> 'l Term \<times> 'l Term \<Rightarrow> GraphName decoded \<times> 'l Term decoded \<times> 'l Term decoded" where
  "decoded_row r = (Decoded (fst r), Decoded (fst (snd r)), Decoded (snd (snd r)))"

lemma collect_rows_append:
  "collect_rows (xs @ ys) st = (case collect_rows xs st of (Inl e, st') \<Rightarrow> (Inl e, st') | (Inr _, st') \<Rightarrow> collect_rows ys st')"
  by (induction xs st rule: collect_rows.induct) (simp_all split: sum.split prod.split)

lemma collect_input_rows:
  "collect_rows (concat (map (batch_rows L) bs)) st = (Inr (), st') \<Longrightarrow> collect_input L (map Inr bs) st = (None, [], st')"
proof (induction bs arbitrary: st)
  case (Cons b bs)
  obtain r st1 where r: "collect_rows (batch_rows L b) st = (r, st1)" by fastforce
  then show ?case using Cons by (cases r) (simp_all add: collect_rows_append collect_next_batch_def)
qed simp

lemma collect_rows_decoded:
  "collected R st \<Longrightarrow> \<exists>st'. collect_rows (map decoded_row rows) st = (Inr (), st') \<and> collected (R \<union> set rows) st'"
proof (induction rows arbitrary: R st)
  case (Cons r rows)
  obtain g s e where r: "r = (g, s, e)" by (metis prod_cases3)
  have "collected (insert (g, s, e) R) (add_initial_path g s e st)"
    using Cons.prems by (rule add_initial_path_collected)
  from Cons.IH [OF this] show ?case by (simp add: r decoded_row_def izip_next_def column_value_def Un_insert_right)
qed simp

lemma collected_inv: "collected R st \<Longrightarrow> closure_inv cross st"
  by (auto simp: collected_def closure_inv_def path_closure_def)

text \<open>Writing paths with the term builders and reading them with the decoders.\<close>

definition batch_wf :: "PathBatch \<Rightarrow> bool" where
  "batch_wf b \<longleftrightarrow> array_wf (graph_column b) \<and> array_wf (source_column b) \<and> array_wf (target_column b)"

lemma append_paths_decode:
  "literal_ok L \<Longrightarrow> batch_wf b \<Longrightarrow>
   \<exists>b'. append_paths L ps b = Some b' \<and> batch_wf b' \<and>
     decode_terms L (graph_column b') = decode_terms L (graph_column b) @ map (graph_term \<circ> path_graph) ps \<and>
     decode_terms L (source_column b') = decode_terms L (source_column b) @ map (Decoded \<circ> path_start) ps \<and>
     decode_terms L (target_column b') = decode_terms L (target_column b) @ map (Decoded \<circ> path_end) ps"
proof (induction ps arbitrary: b)
  case (Cons p ps)
  have graph: "(case path_graph p of GNamedNode nn \<Rightarrow> append_named_node nn (graph_column b)
       | GBlankNode bnode \<Rightarrow> append_blank_node bnode (graph_column b)
       | DefaultGraph \<Rightarrow> Some (append_null (graph_column b))) = append_graph_name (path_graph p) (graph_column b)"
    by (cases "path_graph p") simp_all
  obtain g s e where
    g: "append_graph_name (path_graph p) (graph_column b) = Some g" "array_wf g"
       "decode_terms L g = decode_terms L (graph_column b) @ [graph_term (path_graph p)]" and
    s: "append_term L (path_start p) (source_column b) = Some s" "array_wf s"
       "decode_terms L s = decode_terms L (source_column b) @ [Decoded (path_start p)]" and
    e: "append_term L (path_end p) (target_column b) = Some e" "array_wf e"
       "decode_terms L e = decode_terms L (target_column b) @ [Decoded (path_end p)]"
    using Cons.prems appends_graph [of "graph_column b" L "path_graph p"]
      appends_term [of L "source_column b" "path_start p"] appends_term [of L "target_column b" "path_end p"]
    unfolding appends_def batch_wf_def by blast
  let ?b = "\<lparr>graph_column = g, source_column = s, target_column = e\<rparr>"
  have step: "append_paths L (p # ps) b = append_paths L ps ?b"
    by (simp only: append_paths.simps graph g(1) s(1) e(1) bind.bind_lunit)
  have "batch_wf ?b" using g s e by (simp add: batch_wf_def)
  from Cons.IH [OF Cons.prems(1) this] show ?case
    unfolding step by (simp only: g(3) s(3) e(3) PathBatch.simps append_assoc append_Cons append_Nil list.map o_apply)
qed simp

lemma decode_terms_valid: "decode_terms L a = map Decoded ts \<Longrightarrow> null_buffer a = replicate (length ts) True"
proof -
  assume eq: "decode_terms L a = map Decoded ts"
  then have len: "length (null_buffer a) = length ts"
    by (metis decode_terms_def length_map length_upt diff_zero)
  show ?thesis
  proof (rule nth_equalityI)
    fix i
    assume i: "i < length (null_buffer a)"
    then have "extract_term L a i = Decoded (ts ! i)"
      using arg_cong [OF eq, of "\<lambda>xs. xs ! i"] len by (simp add: decode_terms_def)
    then show "null_buffer a ! i = replicate (length ts) True ! i"
      using i len by (simp add: extract_term_def split: if_splits)
  qed (simp add: len)
qed

lemma create_output_batch_correct:
  assumes "literal_ok L"
  shows "\<exists>b. create_output_batch L st = Inr b \<and> batch_rows L b = map (decoded_row \<circ> path_triple) (all_paths st)"
proof -
  let ?ps = "all_paths st"
  have "batch_wf empty_batch" by (simp add: batch_wf_def empty_batch_def)
  from append_paths_decode [OF assms this, of ?ps] obtain b where b: "append_paths L ?ps empty_batch = Some b" "batch_wf b"
    "decode_terms L (graph_column b) = map (graph_term \<circ> path_graph) ?ps"
    "decode_terms L (source_column b) = map Decoded (map path_start ?ps)"
    "decode_terms L (target_column b) = map Decoded (map path_end ?ps)"
    by (auto simp: empty_batch_def)
  have "length (null_buffer (graph_column b)) = length ?ps"
    using arg_cong [OF b(3), of length] by (simp add: decode_terms_def)
  then have "create_output_batch L st = Inr b"
    using b(2) decode_terms_valid [OF b(4)] decode_terms_valid [OF b(5)]
    by (simp add: create_output_batch_def b(1) batch_wf_def try_new_batch_def)
  moreover have "batch_rows L b = map (decoded_row \<circ> path_triple) ?ps"
    by (simp add: batch_rows_def decode_graph_names_def b(3-5) zip_map_fst_snd zip_map1 zip_map2 zip_same_conv_map
        decoded_row_def path_triple_def comp_def)
  ultimately show ?thesis by blast
qed

lemma kleene_plus_result:
  assumes "literal_ok L" "concat (map (batch_rows L) batches) = map decoded_row rows"
    "poll_inner L cross (stream_new (map Inr batches)) = (item, s)"
  shows "(case item of
       None \<Rightarrow> rows = []
     | Some (Inl e) \<Rightarrow> False
     | Some (Inr out) \<Rightarrow> \<exists>ps. batch_rows L out = map decoded_row ps \<and> distinct ps \<and>
         set ps = path_closure cross (set rows) \<and> rows \<noteq> []) \<and>
     fst (poll_inner L cross s) = None"
proof -
  obtain st where rows: "collect_rows (concat (map (batch_rows L) batches)) closure_new = (Inr (), st)" "collected (set rows) st"
    using collect_rows_decoded [OF collected_new, of rows] by (auto simp: assms(2))
  note st = collect_input_rows [OF rows(1)] rows(2)
  then have poll: "poll_inner L cross (stream_new (map Inr batches)) = computing L cross st"
    by (simp add: stream_new_def)
  have empty: "all_paths st = [] \<longleftrightarrow> rows = []" using st(2) by (auto simp: collected_def)
  show ?thesis
  proof (cases "all_paths st = []")
    case True
    then show ?thesis using poll assms(3) empty by (auto simp: computing_def)
  next
    case False
    let ?st = "closure_loop cross st"
    have clo: "distinct (all_paths ?st)" "path_triple ` set (all_paths ?st) = path_closure cross (set rows)"
      using closure_loop_correct [OF collected_inv [OF st(2)], of cross] st(2) by (simp_all add: collected_def)
    obtain b where b: "create_output_batch L ?st = Inr b" "batch_rows L b = map decoded_row (map path_triple (all_paths ?st))"
      using create_output_batch_correct [OF assms(1), of ?st] by auto
    have item: "item = Some (Inr b)" "s = (Done, ?st)"
      using assms(3) False b(1) unfolding poll by (simp_all add: computing_def)
    have "distinct (map path_triple (all_paths ?st))"
      using clo(1) by (simp add: distinct_map inj_on_def)
    then show ?thesis
      using False clo b(2) empty unfolding item by (auto intro: exI [of _ "map path_triple (all_paths ?st)"])
  qed
qed

text \<open>C7: On any input of decodable path rows, the Kleene-plus stream terminates and its first poll
  returns one batch that holds, without repetition, exactly the transitive closure of the rows:
  inside each graph, or across graphs when that is allowed. On no rows it returns no batch. The
  stream ends afterwards.\<close>

theorem kleene_plus_correct:
  assumes "literal_ok L" "concat (map (batch_rows L) batches) = map decoded_row rows"
    "poll_inner L cross (stream_new (map Inr batches)) = (item, s)"
  shows "(case item of
       None \<Rightarrow> rows = []
     | Some (Inl e) \<Rightarrow> False
     | Some (Inr out) \<Rightarrow> \<exists>ps. batch_rows L out = map decoded_row ps \<and> distinct ps \<and>
         set ps = path_closure cross (set rows) \<and> rows \<noteq> []) \<and>
     fst (poll_inner L cross s) = None"
  using assms by (rule kleene_plus_result)

definition term_array :: "string list \<Rightarrow> PlainTermArray" where
  "term_array vs = fold (\<lambda>v. append_raw 0 v None None) vs builder_new"

definition demo_batch :: PathBatch where
  "demo_batch = \<lparr>graph_column = append_null (append_null builder_new),
     source_column = term_array [''a'', ''b''], target_column = term_array [''b'', ''c'']\<rparr>"

lemma demo_batch_rows:
  "batch_rows ref_literals demo_batch =
     map decoded_row [(DefaultGraph, NamedNode ''a'', NamedNode ''b''), (DefaultGraph, NamedNode ''b'', NamedNode ''c'')]"
  by (simp add: batch_rows_def decode_graph_names_def demo_batch_def term_array_def decode_append decode_raw_def
      extract_term_def append_raw_def builder_new_def decoded_row_def plain_term_type_try_from_def arrow_value_def
      append_null_def decode_terms_def upt_rec)

theorem kleene_plus_correct_witness:
  "\<exists>out ps s. poll_inner ref_literals False (stream_new [Inr demo_batch]) = (Some (Inr out), s) \<and>
     batch_rows ref_literals out = map decoded_row ps \<and> (DefaultGraph, NamedNode ''a'', NamedNode ''c'') \<in> set ps"
proof -
  let ?rows = "[(DefaultGraph, NamedNode ''a'', NamedNode ''b''), (DefaultGraph, NamedNode ''b'', NamedNode ''c'')]"
  obtain item s where poll: "poll_inner ref_literals False (stream_new (map Inr [demo_batch])) = (item, s)"
    by (meson surj_pair)
  have rows: "concat (map (batch_rows ref_literals) [demo_batch]) = map decoded_row ?rows"
    by (simp add: demo_batch_rows)
  have "(NamedNode ''b'', NamedNode ''c'') \<in> (graph_edges False (set ?rows) DefaultGraph)\<^sup>*"
    by (rule r_into_rtrancl) (simp add: graph_edges_def)
  then have "(DefaultGraph, NamedNode ''a'', NamedNode ''c'') \<in> path_closure False (set ?rows)"
    unfolding path_closure_def by auto
  with kleene_plus_correct [OF ref_literals_ok rows poll] poll show ?thesis
    by (cases item; cases "the item") auto
qed

section \<open>Errors and panics\<close>
















end
