(* ===== verification/Sparql_Path.thy ===== *)
theory Sparql_Path
  imports Sparql_Pattern Path_Closure
begin

text \<open>
  The lowering of property paths (\<open>lib/logical/src/paths/path_node\<close>) to scans, joins, unions and
  the Kleene-plus node, composed with the pattern node and the closure stream. A path table has
  the columns graph, source and target. Shown: on two variables the lowered plan denotes the
  relation of the path over the merged active graphs, or graph by graph inside \<open>GRAPH ?g\<close>, and
  it fails exactly on an empty negated property set.
\<close>

section \<open>Data\<close>

datatype ActiveGraph = ActiveDefaultGraph | AllGraphs | UnionGraphs "GraphName list" | AnyNamedGraph

fun active_graph_matches :: "ActiveGraph \<Rightarrow> GraphName \<Rightarrow> bool" where
  "active_graph_matches ActiveDefaultGraph g = (g = DefaultGraph)"
| "active_graph_matches AllGraphs g = True"
| "active_graph_matches (UnionGraphs gs) g = (g \<in> set gs)"
| "active_graph_matches AnyNamedGraph g = (g \<noteq> DefaultGraph)"

fun is_bound_to_single_graph :: "ActiveGraph \<Rightarrow> bool" where
  "is_bound_to_single_graph ActiveDefaultGraph = True"
| "is_bound_to_single_graph AllGraphs = False"
| "is_bound_to_single_graph (UnionGraphs gs) = (length gs = 1)"
| "is_bound_to_single_graph AnyNamedGraph = False"

datatype PropertyPathExpression =
    PathNamedNode string
  | Reverse PropertyPathExpression
  | Sequence PropertyPathExpression PropertyPathExpression
  | Alternative PropertyPathExpression PropertyPathExpression
  | ZeroOrMore PropertyPathExpression
  | OneOrMore PropertyPathExpression
  | ZeroOrOne PropertyPathExpression
  | NegatedPropertySet "string list"

record path_info =
  active_graph :: ActiveGraph
  disallow_cross_graph_paths :: bool

record 'l PropertyPathNode =
  node_active_graph :: ActiveGraph
  graph_name_var :: "string option"
  path_subject :: "'l TermPattern"
  node_path :: PropertyPathExpression
  path_object :: "'l TermPattern"

datatype path_error = PathPlanError plan_error | PathExecError exec_error

fun graph_cell :: "GraphName \<Rightarrow> 'l Term option" where
  "graph_cell (GNamedNode nn) = Some (NamedNode nn)"
| "graph_cell (GBlankNode bn) = Some (BlankNode bn)"
| "graph_cell DefaultGraph = None"

definition quad_row :: "'l Quad \<Rightarrow> 'l Term row" where
  "quad_row q = row_of (\<lambda>n.
     if n = ''graph'' then graph_cell (quad_graph_name q)
     else if n = ''subject'' then Some (node_term (quad_subject q))
     else if n = ''predicate'' then Some (NamedNode (quad_predicate q))
     else if n = ''object'' then Some (quad_object q) else None)"

section \<open>The lowering\<close>

definition scan_quads ::
  "'l Term DataFusion \<Rightarrow> 'l Quad list \<Rightarrow> ActiveGraph \<Rightarrow> 'l Term Expr option \<Rightarrow> 'l Term row list" where
  "scan_quads D quads ag filt =
     (let rows = map quad_row (filter (\<lambda>q. active_graph_matches ag (quad_graph_name q)) quads);
          rows = (case filt of None \<Rightarrow> rows | Some f \<Rightarrow> df_filter D (\<lambda>r. eval_expr D r f) rows)
      in project D [(''_graph'', Column (None, ''graph'')), (''_source'', Column (None, ''subject'')),
           (''_target'', Column (None, ''object''))] rows)"

definition same_predicate :: "string \<Rightarrow> 'l Term Expr" where
  "same_predicate nn = EEq (Column (None, ''predicate'')) (Term_Lit (NamedNode nn))"

definition rewrite_named_node ::
  "'l Term DataFusion \<Rightarrow> 'l Quad list \<Rightarrow> path_info \<Rightarrow> string \<Rightarrow> 'l Term row list" where
  "rewrite_named_node D quads info node = scan_quads D quads (active_graph info) (Some (same_predicate node))"

definition rewrite_negated_property_set ::
  "'l Term DataFusion \<Rightarrow> 'l Quad list \<Rightarrow> path_info \<Rightarrow> string list \<Rightarrow> (path_error, 'l Term row list) result" where
  "rewrite_negated_property_set D quads info nodes =
     map_ok (\<lambda>test_expression. df_distinct D (scan_quads D quads (active_graph info) (Some (ENot test_expression))))
       (ok_or (reduce_or (map same_predicate nodes))
          (PathPlanError (PlanError ''The negated property set must not be empty'')))"

definition reverse_rows :: "'l Term DataFusion \<Rightarrow> 'l Term row list \<Rightarrow> 'l Term row list" where
  "reverse_rows D rs = project D [(''_graph'', Column (None, ''_graph'')), (''_source'', Column (None, ''_target'')),
     (''_target'', Column (None, ''_source''))] rs"

definition create_path_sequence_join_filter :: "path_info \<Rightarrow> 'l Term Expr option" where
  "create_path_sequence_join_filter info =
     reduce_and ([IsCompatible (lhs_col ''_target'') (rhs_col ''_source'')] @
       (if disallow_cross_graph_paths info then [EEq (lhs_col ''_graph'') (rhs_col ''_graph'')] else []))"

definition join_path_sequence ::
  "'l Term DataFusion \<Rightarrow> path_info \<Rightarrow> 'l Term row list \<Rightarrow> 'l Term row list \<Rightarrow> 'l Term row list" where
  "join_path_sequence D info lrows rrows =
     project D [(''_graph'', lhs_col ''_graph''), (''_source'', lhs_col ''_source''), (''_target'', rhs_col ''_target'')]
       (df_inner_join D [] (map_option (\<lambda>e row. eval_expr D row e) (create_path_sequence_join_filter info))
          (alias_rows ''lhs'' lrows) (alias_rows ''rhs'' rrows))"

definition join_path_alternatives ::
  "'l Term DataFusion \<Rightarrow> 'l Term row list \<Rightarrow> 'l Term row list \<Rightarrow> 'l Term row list" where
  "join_path_alternatives D lrows rrows = df_union D lrows rrows"

definition zero_length_paths :: "'l Term DataFusion \<Rightarrow> 'l Quad list \<Rightarrow> path_info \<Rightarrow> 'l Term row list" where
  "zero_length_paths D quads info =
     (let scan = scan_quads D quads (active_graph info) None;
          subs = project D [(''_graph'', Column (None, ''_graph'')), (''_source'', Column (None, ''_source'')),
            (''_target'', Column (None, ''_source''))] scan;
          objs = project D [(''_graph'', Column (None, ''_graph'')), (''_source'', Column (None, ''_target'')),
            (''_target'', Column (None, ''_target''))] scan
      in df_distinct D (df_union D subs objs))"

text \<open>The Kleene-plus node runs its stream on the plain term encoding of the inner rows.\<close>

definition cell_results :: "string \<Rightarrow> 'l Term row list \<Rightarrow> (ThinError, 'l Term) result list" where
  "cell_results c rs = map (\<lambda>r. ok_or (r (None, c)) ExpectedError) rs"

definition rows_to_batch :: "'l LiteralApi \<Rightarrow> 'l Term row list \<Rightarrow> PathBatch option" where
  "rows_to_batch L rs =
     Option.bind (encode_terms L (cell_results ''_graph'' rs)) (\<lambda>g.
     Option.bind (encode_terms L (cell_results ''_source'' rs)) (\<lambda>s.
     Option.bind (encode_terms L (cell_results ''_target'' rs)) (\<lambda>e.
     Some \<lparr>graph_column = g, source_column = s, target_column = e\<rparr>)))"

definition path_row :: "GraphName \<times> 'l Term \<times> 'l Term \<Rightarrow> 'l Term row" where
  "path_row x = row_of (\<lambda>n.
     if n = ''_graph'' then graph_cell (fst x)
     else if n = ''_source'' then Some (fst (snd x))
     else if n = ''_target'' then Some (snd (snd x)) else None)"

fun decoded_value :: "'a decoded \<Rightarrow> 'a option" where
  "decoded_value (Decoded v) = Some v"
| "decoded_value _ = None"

definition row_of_decoded :: "GraphName decoded \<times> 'l Term decoded \<times> 'l Term decoded \<Rightarrow> 'l Term row" where
  "row_of_decoded x = row_of (\<lambda>n.
     if n = ''_graph'' then Option.bind (decoded_value (fst x)) graph_cell
     else if n = ''_source'' then decoded_value (fst (snd x))
     else if n = ''_target'' then decoded_value (snd (snd x)) else None)"

definition kleene_plus_node ::
  "'l LiteralApi \<Rightarrow> bool \<Rightarrow> 'l Term row list \<Rightarrow> (path_error, 'l Term row list) result" where
  "kleene_plus_node L disallow_cross rs =
     (case rows_to_batch L rs of
        None \<Rightarrow> Inl (PathExecError (Panicked ''plain term builder''))
      | Some b \<Rightarrow>
          (case fst (poll_inner L (\<not> disallow_cross) (stream_new [Inr b])) of
             None \<Rightarrow> Inr []
           | Some (Inl e) \<Rightarrow> Inl (PathExecError e)
           | Some (Inr out) \<Rightarrow> Inr (map row_of_decoded (batch_rows L out))))"

fun rewrite_property_path_expression ::
  "'l Term DataFusion \<Rightarrow> 'l LiteralApi \<Rightarrow> 'l Quad list \<Rightarrow> path_info \<Rightarrow> PropertyPathExpression \<Rightarrow>
   (path_error, 'l Term row list) result" where
  "rewrite_property_path_expression D L quads info (PathNamedNode node) = Inr (rewrite_named_node D quads info node)"
| "rewrite_property_path_expression D L quads info (Reverse inner) =
     map_ok (reverse_rows D) (rewrite_property_path_expression D L quads info inner)"
| "rewrite_property_path_expression D L quads info (Sequence a b) =
     and_then (rewrite_property_path_expression D L quads info a) (\<lambda>l.
       map_ok (join_path_sequence D info l) (rewrite_property_path_expression D L quads info b))"
| "rewrite_property_path_expression D L quads info (Alternative a b) =
     and_then (rewrite_property_path_expression D L quads info a) (\<lambda>l.
       map_ok (join_path_alternatives D l) (rewrite_property_path_expression D L quads info b))"
| "rewrite_property_path_expression D L quads info (ZeroOrMore inner) =
     map_ok (\<lambda>rep. df_distinct D (join_path_alternatives D (zero_length_paths D quads info) rep))
       (and_then (rewrite_property_path_expression D L quads info inner)
          (kleene_plus_node L (disallow_cross_graph_paths info)))"
| "rewrite_property_path_expression D L quads info (OneOrMore inner) =
     and_then (rewrite_property_path_expression D L quads info inner)
       (kleene_plus_node L (disallow_cross_graph_paths info))"
| "rewrite_property_path_expression D L quads info (ZeroOrOne inner) =
     map_ok (\<lambda>one. df_distinct D (join_path_alternatives D (zero_length_paths D quads info) one))
       (rewrite_property_path_expression D L quads info inner)"
| "rewrite_property_path_expression D L quads info (NegatedPropertySet nodes) =
     rewrite_negated_property_set D quads info nodes"

definition path_field :: "string \<Rightarrow> bool \<Rightarrow> field" where
  "path_field n nullable = \<lparr>field_name = n, field_encoding = Some PlainTerm, field_nullable = nullable\<rparr>"

definition path_table_schema :: "field list" where
  "path_table_schema = [path_field ''_graph'' True, path_field ''_source'' False, path_field ''_target'' False]"

definition rewrite_property_path_node ::
  "'l Term DataFusion \<Rightarrow> 'l LiteralApi \<Rightarrow> 'l Quad list \<Rightarrow> 'l PropertyPathNode \<Rightarrow> (path_error, 'l Term row list) result" where
  "rewrite_property_path_node D L quads node =
     (let info = \<lparr>active_graph = node_active_graph node, disallow_cross_graph_paths = (graph_name_var node \<noteq> None)\<rparr>
      in and_then (rewrite_property_path_expression D L quads info (node_path node)) (\<lambda>query.
         map_ok (rewrite_pattern_node D)
           (map_err PathPlanError (pattern_try_new \<lparr>plan_schema = path_table_schema, plan_rows = query\<rparr>
              [map_option PVariable (graph_name_var node), Some (path_subject node), Some (path_object node)]))))"

section \<open>Sets of rows\<close>

lemma set_of_mset_eq: "mset xs = mset ys \<Longrightarrow> set xs = set ys"
  by (rule mset_eq_setD)

lemma df_sets:
  assumes "datafusion_ok D"
  shows "set (project D ps rs) = project_row D ps ` set rs"
    and "set (df_union D xs ys) = set xs \<union> set ys"
    and "set (df_filter D p xs) = {x \<in> set xs. p x = VBool True}"
    and "set (df_inner_join D on f xs ys) = {l ++ r | l r. l \<in> set xs \<and> r \<in> set ys \<and> join_match on f l r}"
  unfolding project_def
  using set_of_mset_eq [OF datafusion_okD(3) [OF assms], of "project_row D ps" rs]
    arg_cong [OF datafusion_okD(4) [OF assms], of set_mset xs ys]
    set_of_mset_eq [OF datafusion_okD(2) [OF assms], of p xs]
    set_of_mset_eq [OF datafusion_okD(7) [OF assms], of on f xs ys]
  by (auto simp: join_partners_def)

lemma graph_cell_inj [simp]: "graph_cell g = (graph_cell h :: 'l Term option) \<longleftrightarrow> g = h"
  by (cases g; cases h) auto

lemma graph_cell_None [simp]: "graph_cell g = None \<longleftrightarrow> g = DefaultGraph"
  by (cases g) auto

lemma path_row_simps [simp]:
  "path_row x (None, ''_graph'') = graph_cell (fst x)"
  "path_row x (None, ''_source'') = Some (fst (snd x))"
  "path_row x (None, ''_target'') = Some (snd (snd x))"
  by (simp_all add: path_row_def row_of_None)

lemma path_row_inj: "inj path_row"
proof (rule injI)
  fix x y :: "GraphName \<times> 'a Term \<times> 'a Term"
  assume "path_row x = path_row y"
  from fun_cong [OF this, of "(None, ''_graph'')"] fun_cong [OF this, of "(None, ''_source'')"]
    fun_cong [OF this, of "(None, ''_target'')"]
  show "x = y" by (simp add: prod_eq_iff)
qed

text \<open>A projection to the three columns of a path table.\<close>

lemma project_path_row:
  assumes "eval_expr D r eg = val_of_cell (graph_cell g)" "eval_expr D r es = VTerm s" "eval_expr D r et = VTerm t"
  shows "project_row D [(''_graph'', eg), (''_source'', es), (''_target'', et)] r = path_row (g, s, t)"
proof
  fix c :: column
  obtain q n where c: "c = (q, n)" by (cases c)
  show "project_row D [(''_graph'', eg), (''_source'', es), (''_target'', et)] r c = path_row (g, s, t) c"
    using assms by (simp add: c project_row_def path_row_def row_of_def)
qed

definition quad_path :: "'l Quad \<Rightarrow> GraphName \<times> 'l Term \<times> 'l Term" where
  "quad_path q = (quad_graph_name q, node_term (quad_subject q), quad_object q)"

definition active_quads :: "'l Quad list \<Rightarrow> ActiveGraph \<Rightarrow> 'l Quad set" where
  "active_quads quads ag = {q \<in> set quads. active_graph_matches ag (quad_graph_name q)}"

lemma quad_row_simps [simp]:
  "quad_row q (None, ''graph'') = graph_cell (quad_graph_name q)"
  "quad_row q (None, ''subject'') = Some (node_term (quad_subject q))"
  "quad_row q (None, ''predicate'') = Some (NamedNode (quad_predicate q))"
  "quad_row q (None, ''object'') = Some (quad_object q)"
  by (simp_all add: quad_row_def row_of_None)

lemma scan_quads_set:
  assumes D: "datafusion_ok D"
  shows "set (scan_quads D quads ag filt) =
    path_row ` quad_path ` {q \<in> active_quads quads ag. opt_true D (quad_row q) filt}"
proof -
  have row: "project_row D [(''_graph'', Column (None, ''graph'')), (''_source'', Column (None, ''subject'')),
      (''_target'', Column (None, ''object''))] (quad_row q) = path_row (quad_path q)" for q :: "'a Quad"
    unfolding quad_path_def by (rule project_path_row) simp_all
  let ?rows = "map quad_row (filter (\<lambda>q. active_graph_matches ag (quad_graph_name q)) quads)"
  have "set (case filt of None \<Rightarrow> ?rows | Some f \<Rightarrow> df_filter D (\<lambda>r. eval_expr D r f) ?rows) =
      quad_row ` {q \<in> active_quads quads ag. opt_true D (quad_row q) filt}"
    by (cases filt) (auto simp: df_sets(3) [OF D] active_quads_def)
  then show ?thesis by (simp add: scan_quads_def df_sets(1) [OF D] image_image row Let_def)
qed

lemma same_predicate_eval:
  assumes "expr_ok D"
  shows "eval_expr D (quad_row q) (same_predicate n) = VBool (quad_predicate q = n)"
  by (simp add: same_predicate_def expr_okD(5) [OF assms])

lemma foldl_or_bool:
  assumes E: "expr_ok D"
  shows "eval_expr D r e = VBool b \<Longrightarrow> \<forall>x \<in> set xs. eval_expr D r (f x) = VBool (P x) \<Longrightarrow>
    eval_expr D r (foldl EOr e (map f xs)) = VBool (b \<or> (\<exists>x \<in> set xs. P x))"
proof (induction xs arbitrary: e b)
  case (Cons x xs)
  have "eval_expr D r (EOr e (f x)) = VBool (b \<or> P x)"
    using Cons.prems expr_okD(2) [OF E] by (cases b; cases "P x") (simp_all add: sql_or_def)
  from Cons.IH [OF this] Cons.prems(2) show ?case by auto
qed simp

lemma negated_filter_true:
  assumes E: "expr_ok D" and e: "reduce_or (map same_predicate nodes) = Some e"
  shows "opt_true D (quad_row q) (Some (ENot e)) \<longleftrightarrow> quad_predicate q \<notin> set nodes"
proof -
  obtain n ns where n: "nodes = n # ns" using e by (cases nodes) auto
  have "eval_expr D (quad_row q) e = VBool (quad_predicate q = n \<or> (\<exists>x \<in> set ns. quad_predicate q = x))"
    using foldl_or_bool [OF E, of "quad_row q" "same_predicate n" "quad_predicate q = n" ns same_predicate "\<lambda>x. quad_predicate q = x"]
      e same_predicate_eval [OF E, of q] by (auto simp: n)
  then show ?thesis by (simp add: expr_okD(3) [OF E] n)
qed

section \<open>The paths a plan denotes\<close>

lemma reverse_rows_set:
  assumes "datafusion_ok D" "set rs = path_row ` S"
  shows "set (reverse_rows D rs) = path_row ` (\<lambda>(g, s, e). (g, e, s)) ` S"
proof -
  have "project_row D [(''_graph'', Column (None, ''_graph'')), (''_source'', Column (None, ''_target'')),
      (''_target'', Column (None, ''_source''))] (path_row x) = path_row (case x of (g, s, e) \<Rightarrow> (g, e, s))" for x
    by (cases x) (simp, rule project_path_row, simp_all)
  then show ?thesis by (simp add: reverse_rows_def df_sets(1) [OF assms(1)] assms(2) image_image)
qed

lemma zero_length_paths_set:
  assumes D: "datafusion_ok D"
  shows "set (zero_length_paths D quads info) = path_row `
    (\<Union>(g, s, e) \<in> quad_path ` active_quads quads (active_graph info). {(g, s, s), (g, e, e)})"
proof -
  let ?scan = "scan_quads D quads (active_graph info) None"
  have scan: "set ?scan = path_row ` quad_path ` active_quads quads (active_graph info)"
    using scan_quads_set [OF D, of quads "active_graph info" None] by simp
  have s: "project_row D [(''_graph'', Column (None, ''_graph'')), (''_source'', Column (None, ''_source'')),
      (''_target'', Column (None, ''_source''))] (path_row x) = path_row (fst x, fst (snd x), fst (snd x))" for x :: "GraphName \<times> 'a Term \<times> 'a Term"
    by (rule project_path_row) simp_all
  have t: "project_row D [(''_graph'', Column (None, ''_graph'')), (''_source'', Column (None, ''_target'')),
      (''_target'', Column (None, ''_target''))] (path_row x) = path_row (fst x, snd (snd x), snd (snd x))" for x :: "GraphName \<times> 'a Term \<times> 'a Term"
    by (rule project_path_row) simp_all
  have union: "(\<Union>(g, s, e) \<in> X. {(g, s, s), (g, e, e)}) =
      (\<lambda>x. (fst x, fst (snd x), fst (snd x))) ` X \<union> (\<lambda>x. (fst x, snd (snd x), snd (snd x))) ` X"
    for X :: "(GraphName \<times> 'a Term \<times> 'a Term) set"
    by force
  show ?thesis
    unfolding union zero_length_paths_def Let_def datafusion_okD(6) [OF D] df_sets(1,2) [OF D] scan
    unfolding image_Un image_image s t ..
qed

definition sequence_paths ::
  "bool \<Rightarrow> (GraphName \<times> 't \<times> 't) set \<Rightarrow> (GraphName \<times> 't \<times> 't) set \<Rightarrow> (GraphName \<times> 't \<times> 't) set" where
  "sequence_paths disallow A B =
     {(g, s, e). \<exists>m g'. (g, s, m) \<in> A \<and> (g', m, e) \<in> B \<and> (disallow \<longrightarrow> g \<noteq> DefaultGraph \<and> g = g')}"

lemma sequence_match:
  assumes E: "expr_ok D"
  shows "join_match [] (map_option (\<lambda>e row. eval_expr D row e) (create_path_sequence_join_filter info))
      (alias_row ''lhs'' (path_row (g, s, m))) (alias_row ''rhs'' (path_row (g', m', e))) \<longleftrightarrow>
    m = m' \<and> (disallow_cross_graph_paths info \<longrightarrow> g \<noteq> DefaultGraph \<and> g = g')"
proof -
  let ?J = "alias_row ''lhs'' (path_row (g, s, m)) ++ alias_row ''rhs'' (path_row (g', m', e))"
  have J: "eval_expr D ?J (lhs_col n) = val_of_cell (path_row (g, s, m) (None, n))"
    "eval_expr D ?J (rhs_col n) = val_of_cell (path_row (g', m', e) (None, n))" for n
    using reads_alias(1) [of "path_row (g, s, m)" "path_row (g', m', e)"]
    by (simp_all add: reads_def solution_def lhs_col_def rhs_col_def)
  let ?c = "IsCompatible (lhs_col ''_target'') (rhs_col ''_source'') :: 'a Term Expr"
  let ?g = "EEq (lhs_col ''_graph'') (rhs_col ''_graph'') :: 'a Term Expr"
  have c: "eval_expr D ?J ?c = VBool (m = m')" by (simp add: J)
  have gr: "is_truth (eval_expr D ?J ?g)" "eval_expr D ?J ?g = VBool True \<longleftrightarrow> g \<noteq> DefaultGraph \<and> g = g'"
    by (auto simp: J expr_okD(5) [OF E])
  have "df_and D (eval_expr D ?J ?c) (eval_expr D ?J ?g) = sql_and (eval_expr D ?J ?c) (eval_expr D ?J ?g)"
    using gr(1) unfolding c by (intro expr_okD(1) [OF E]) simp_all
  then have "eval_expr D ?J (EAnd ?c ?g) = VBool True \<longleftrightarrow> m = m' \<and> g \<noteq> DefaultGraph \<and> g = g'"
    using c gr(2) by (simp del: eval_expr.simps add: eval_expr.simps(3))
  then show ?thesis
    using c by (simp add: join_match_def create_path_sequence_join_filter_def del: eval_expr.simps)
qed

lemma join_path_sequence_set:
  assumes D: "datafusion_ok D" and A: "set l = path_row ` A" and B: "set r = path_row ` B"
  shows "set (join_path_sequence D info l r) = path_row ` sequence_paths (disallow_cross_graph_paths info) A B"
proof -
  let ?f = "map_option (\<lambda>e row. eval_expr D row e) (create_path_sequence_join_filter info)"
  have row: "project_row D [(''_graph'', lhs_col ''_graph''), (''_source'', lhs_col ''_source''), (''_target'', rhs_col ''_target'')]
      (alias_row ''lhs'' (path_row (g, s, m)) ++ alias_row ''rhs'' (path_row (g', m', e))) = path_row (g, s, e)"
    for g g' s m m' and e :: "'a Term"
    using reads_alias(1) [of "path_row (g, s, m)" "path_row (g', m', e)"]
    by (intro project_path_row) (simp_all add: reads_def solution_def lhs_col_def rhs_col_def)
  have "set (join_path_sequence D info l r) = {project_row D
      [(''_graph'', lhs_col ''_graph''), (''_source'', lhs_col ''_source''), (''_target'', rhs_col ''_target'')]
      (alias_row ''lhs'' (path_row x) ++ alias_row ''rhs'' (path_row y)) | x y.
      x \<in> A \<and> y \<in> B \<and> join_match [] ?f (alias_row ''lhs'' (path_row x)) (alias_row ''rhs'' (path_row y))}"
    by (auto simp: join_path_sequence_def df_sets(1,4) [OF D] alias_rows_def A B) blast+
  also have "\<dots> = path_row ` sequence_paths (disallow_cross_graph_paths info) A B"
    by (auto simp: row sequence_match [OF datafusion_okD(1) [OF D]] sequence_paths_def image_iff) blast+
  finally show ?thesis .
qed

lemma rows_are_paths:
  assumes "set rs = path_row ` S"
  shows "\<exists>xs. rs = map path_row xs \<and> set xs = S"
proof -
  have "\<exists>xs. rs = map path_row xs" unfolding ex_map_conv using assms by blast
  then obtain xs where xs: "rs = map path_row xs" by blast
  have "set xs = S" using assms unfolding xs set_map by (simp add: inj_image_eq_iff [OF path_row_inj])
  with xs show ?thesis by blast
qed

lemma rows_to_batch_decode:
  assumes "literal_ok L"
  shows "\<exists>b. rows_to_batch L (map path_row xs) = Some b \<and> batch_rows L b = map decoded_row xs"
proof -
  let ?c = "\<lambda>n. cell_results n (map path_row xs)"
  obtain g s e where g: "encode_terms L (?c ''_graph'') = Some g" "decode_terms L g = map decoded_of (?c ''_graph'')"
    and s: "encode_terms L (?c ''_source'') = Some s" "decode_terms L s = map decoded_of (?c ''_source'')"
    and e: "encode_terms L (?c ''_target'') = Some e" "decode_terms L e = map decoded_of (?c ''_target'')"
    using encode_terms_decode [OF assms] by meson
  have gr: "map_term_ref_to_graph_name_ref (decoded_of (ok_or (graph_cell h) ExpectedError)) = Decoded h" for h
    by (cases h) simp_all
  have "decode_graph_names L g = map (Decoded \<circ> fst) xs"
    by (simp add: decode_graph_names_def g(2) cell_results_def gr comp_def)
  moreover have "decode_terms L s = map (Decoded \<circ> fst \<circ> snd) xs" "decode_terms L e = map (Decoded \<circ> snd \<circ> snd) xs"
    by (simp_all add: s(2) e(2) cell_results_def comp_def)
  ultimately have "batch_rows L \<lparr>graph_column = g, source_column = s, target_column = e\<rparr> = map decoded_row xs"
    by (simp add: batch_rows_def zip_map1 zip_map2 zip_same_conv_map decoded_row_def comp_def)
  then show ?thesis by (simp add: rows_to_batch_def g(1) s(1) e(1))
qed

lemma row_of_decoded_row: "row_of_decoded (decoded_row x) = path_row x"
  by (simp add: row_of_decoded_def decoded_row_def path_row_def cong: if_cong)

lemma kleene_plus_node_set:
  assumes L: "literal_ok L" and rs: "set rs = path_row ` S"
  shows "\<exists>out. kleene_plus_node L disallow rs = Inr out \<and> distinct out \<and>
    set out = path_row ` path_closure (\<not> disallow) S"
proof -
  obtain xs where xs: "rs = map path_row xs" "set xs = S" using rows_are_paths [OF rs] by blast
  obtain b where b: "rows_to_batch L rs = Some b" "batch_rows L b = map decoded_row xs"
    using rows_to_batch_decode [OF L, of xs] xs(1) by blast
  obtain item s where poll: "poll_inner L (\<not> disallow) (stream_new (map Inr [b])) = (item, s)" by (meson surj_pair)
  have "concat (map (batch_rows L) [b]) = map decoded_row xs" by (simp add: b(2))
  note res = kleene_plus_result [OF L this poll]
  show ?thesis
  proof (cases item)
    case None
    then have "S = {}" using res xs(2) by simp
    then show ?thesis using None poll b(1) by (simp add: kleene_plus_node_def path_closure_def)
  next
    case (Some r)
    with res obtain out ps where out: "r = Inr out" "batch_rows L out = map decoded_row ps" "distinct ps"
      "set ps = path_closure (\<not> disallow) (set xs)"
      by (cases r) auto
    have rows: "map row_of_decoded (batch_rows L out) = map path_row ps"
      by (simp add: out(2) row_of_decoded_row)
    moreover have "distinct (map path_row ps)"
      using out(3) by (simp add: distinct_map inj_on_subset [OF path_row_inj])
    ultimately show ?thesis using Some out(1,4) poll b(1) xs(2) by (simp add: kleene_plus_node_def)
  qed
qed

section \<open>Path semantics\<close>

text \<open>What the lowered plan denotes, graph by graph.\<close>

fun path_sem :: "bool \<Rightarrow> 'l Quad set \<Rightarrow> PropertyPathExpression \<Rightarrow> (GraphName \<times> 'l Term \<times> 'l Term) set" where
  "path_sem dis Q (PathNamedNode n) = quad_path ` {q \<in> Q. quad_predicate q = n}"
| "path_sem dis Q (Reverse p) = (\<lambda>(g, s, e). (g, e, s)) ` path_sem dis Q p"
| "path_sem dis Q (Sequence a b) = sequence_paths dis (path_sem dis Q a) (path_sem dis Q b)"
| "path_sem dis Q (Alternative a b) = path_sem dis Q a \<union> path_sem dis Q b"
| "path_sem dis Q (ZeroOrMore p) =
     (\<Union>(g, s, e) \<in> quad_path ` Q. {(g, s, s), (g, e, e)}) \<union> path_closure (\<not> dis) (path_sem dis Q p)"
| "path_sem dis Q (OneOrMore p) = path_closure (\<not> dis) (path_sem dis Q p)"
| "path_sem dis Q (ZeroOrOne p) = (\<Union>(g, s, e) \<in> quad_path ` Q. {(g, s, s), (g, e, e)}) \<union> path_sem dis Q p"
| "path_sem dis Q (NegatedPropertySet ns) = quad_path ` {q \<in> Q. quad_predicate q \<notin> set ns}"

fun no_empty_set :: "PropertyPathExpression \<Rightarrow> bool" where
  "no_empty_set (PathNamedNode n) = True"
| "no_empty_set (Reverse p) = no_empty_set p"
| "no_empty_set (Sequence a b) = (no_empty_set a \<and> no_empty_set b)"
| "no_empty_set (Alternative a b) = (no_empty_set a \<and> no_empty_set b)"
| "no_empty_set (ZeroOrMore p) = no_empty_set p"
| "no_empty_set (OneOrMore p) = no_empty_set p"
| "no_empty_set (ZeroOrOne p) = no_empty_set p"
| "no_empty_set (NegatedPropertySet ns) = (ns \<noteq> [])"

lemma rewrite_path_denotes:
  assumes D: "datafusion_ok D" and L: "literal_ok L"
  shows "if no_empty_set p
    then \<exists>rs. rewrite_property_path_expression D L quads info p = Inr rs \<and>
      set rs = path_row ` path_sem (disallow_cross_graph_paths info) (active_quads quads (active_graph info)) p
    else \<exists>e. rewrite_property_path_expression D L quads info p = Inl e"
proof (induction p)
  case (PathNamedNode n)
  show ?case
    using scan_quads_set [OF D, of quads "active_graph info" "Some (same_predicate n)"]
    by (simp add: rewrite_named_node_def same_predicate_eval [OF datafusion_okD(1) [OF D]])
next
  case (NegatedPropertySet ns)
  show ?case
  proof (cases "reduce_or (map same_predicate ns) :: 'a Term Expr option")
    case None
    then show ?thesis by (cases ns) (simp_all add: rewrite_negated_property_set_def)
  next
    case (Some e)
    then have "ns \<noteq> []" by auto
    then show ?thesis
      using Some scan_quads_set [OF D, of quads "active_graph info" "Some (ENot e)"]
      by (simp add: rewrite_negated_property_set_def datafusion_okD(6) [OF D]
          negated_filter_true [OF datafusion_okD(1) [OF D] Some] del: opt_simps(2))
  qed
next
  case (Reverse p)
  then show ?case using reverse_rows_set [OF D] by (auto split: if_splits)
next
  case (Sequence a b)
  then show ?case using join_path_sequence_set [OF D] by (auto split: if_splits)
next
  case (Alternative a b)
  then show ?case by (auto simp: join_path_alternatives_def df_sets(2) [OF D] image_Un split: if_splits)
next
  case (OneOrMore p)
  show ?case
  proof (cases "no_empty_set p")
    case True
    with OneOrMore show ?thesis using kleene_plus_node_set [OF L] by fastforce
  qed (use OneOrMore in auto)
next
  case (ZeroOrMore p)
  show ?case
  proof (cases "no_empty_set p")
    case True
    let ?S = "path_sem (disallow_cross_graph_paths info) (active_quads quads (active_graph info)) p"
    obtain rs where rs: "rewrite_property_path_expression D L quads info p = Inr rs" "set rs = path_row ` ?S"
      using ZeroOrMore True by auto
    obtain out where "kleene_plus_node L (disallow_cross_graph_paths info) rs = Inr out"
      "set out = path_row ` path_closure (\<not> disallow_cross_graph_paths info) ?S"
      using kleene_plus_node_set [OF L rs(2)] by blast
    with True rs(1) show ?thesis
      by (simp add: join_path_alternatives_def df_sets(2) [OF D] datafusion_okD(6) [OF D] zero_length_paths_set [OF D] image_Un)
  qed (use ZeroOrMore in auto)
next
  case (ZeroOrOne p)
  then show ?case
    by (auto simp: join_path_alternatives_def df_sets(2) [OF D] datafusion_okD(6) [OF D] zero_length_paths_set [OF D]
        image_Un split: if_splits)
qed

text \<open>The specification: a path expression over a set of triples denotes a binary relation; the
  zero-length paths are those of the nodes of the graph.\<close>

definition triples :: "'l Quad set \<Rightarrow> ('l Term \<times> string \<times> 'l Term) set" where
  "triples Q = (\<lambda>q. (node_term (quad_subject q), quad_predicate q, quad_object q)) ` Q"

definition nodes :: "('t \<times> string \<times> 't) set \<Rightarrow> 't set" where
  "nodes T = {x. \<exists>s p e. (s, p, e) \<in> T \<and> (x = s \<or> x = e)}"

fun path_rel :: "('t \<times> string \<times> 't) set \<Rightarrow> PropertyPathExpression \<Rightarrow> ('t \<times> 't) set" where
  "path_rel T (PathNamedNode n) = {(s, e). (s, n, e) \<in> T}"
| "path_rel T (Reverse p) = (path_rel T p)\<inverse>"
| "path_rel T (Sequence a b) = path_rel T a O path_rel T b"
| "path_rel T (Alternative a b) = path_rel T a \<union> path_rel T b"
| "path_rel T (ZeroOrMore p) = Id_on (nodes T) \<union> (path_rel T p)\<^sup>+"
| "path_rel T (OneOrMore p) = (path_rel T p)\<^sup>+"
| "path_rel T (ZeroOrOne p) = Id_on (nodes T) \<union> path_rel T p"
| "path_rel T (NegatedPropertySet ns) = {(s, e). \<exists>n. n \<notin> set ns \<and> (s, n, e) \<in> T}"

lemma path_rel_nodes: "path_rel T p \<subseteq> nodes T \<times> nodes T"
proof (induction p)
  case (OneOrMore p)
  then show ?case unfolding path_rel.simps by (rule trancl_subset_Sigma)
next
  case (ZeroOrMore p)
  then have "(path_rel T p)\<^sup>+ \<subseteq> nodes T \<times> nodes T" by (rule trancl_subset_Sigma)
  then show ?case by auto
qed (auto simp: nodes_def)

text \<open>The source and target pairs of a set of paths, in one graph or in all.\<close>

definition pairs_in :: "GraphName \<Rightarrow> (GraphName \<times> 't \<times> 't) set \<Rightarrow> ('t \<times> 't) set" where
  "pairs_in g S = {(s, e). (g, s, e) \<in> S}"

definition all_pairs :: "(GraphName \<times> 't \<times> 't) set \<Rightarrow> ('t \<times> 't) set" where
  "all_pairs S = {(s, e). \<exists>g. (g, s, e) \<in> S}"

lemma graph_edges_pairs:
  "graph_edges True S g = all_pairs S" "graph_edges False S g = pairs_in g S"
  by (auto simp: graph_edges_def all_pairs_def pairs_in_def)

lemma closure_pairs:
  "all_pairs (path_closure True S) = (all_pairs S)\<^sup>+" "pairs_in g (path_closure False S) = (pairs_in g S)\<^sup>+"
proof -
  have 1: "all_pairs (path_closure True S) = all_pairs S O (all_pairs S)\<^sup>*"
    by (auto simp: path_closure_def graph_edges_pairs relcomp_unfold) (auto simp: all_pairs_def)
  have 2: "pairs_in g (path_closure False S) = pairs_in g S O (pairs_in g S)\<^sup>*"
    by (auto simp: path_closure_def graph_edges_pairs relcomp_unfold) (auto simp: pairs_in_def)
  show "all_pairs (path_closure True S) = (all_pairs S)\<^sup>+" "pairs_in g (path_closure False S) = (pairs_in g S)\<^sup>+"
    unfolding 1 2 by (rule trancl_unfold_left [symmetric])+
qed

lemma reverse_mem: "(g, a, b) \<in> (\<lambda>(g, s, e). (g, e, s)) ` A \<longleftrightarrow> (g, b, a) \<in> A"
  by force

text \<open>A projection of paths to pairs that commutes with the constructions of the lowering: the
  pairs of all graphs, when paths may cross graphs, and the pairs of one named graph, when they
  may not.\<close>

locale path_projection =
  fixes dis :: bool
    and pairs :: "(GraphName \<times> 'l Term \<times> 'l Term) set \<Rightarrow> ('l Term \<times> 'l Term) set"
    and Q Q' :: "'l Quad set"
  assumes pairs_quads: "pairs (quad_path ` {q \<in> Q. P (quad_predicate q)}) =
      {(s, e). \<exists>n. P n \<and> (s, n, e) \<in> triples Q'}"
    and pairs_reverse: "pairs ((\<lambda>(g, s, e). (g, e, s)) ` A) = (pairs A)\<inverse>"
    and pairs_union: "pairs (A \<union> B) = pairs A \<union> pairs B"
    and pairs_sequence: "pairs (sequence_paths dis A B) = pairs A O pairs B"
    and pairs_closure: "pairs (path_closure (\<not> dis) A) = (pairs A)\<^sup>+"
    and pairs_zero: "pairs (\<Union>(g, s, e) \<in> quad_path ` Q. {(g, s, s), (g, e, e)}) = Id_on (nodes (triples Q'))"
begin

lemma pairs_path_sem: "pairs (path_sem dis Q p) = path_rel (triples Q') p"
proof (induction p)
  case (PathNamedNode n)
  then show ?case using pairs_quads [of "\<lambda>x. x = n"] by auto
next
  case (NegatedPropertySet ns)
  then show ?case using pairs_quads [of "\<lambda>x. x \<notin> set ns"] by auto
qed (simp_all only: path_sem.simps path_rel.simps pairs_reverse pairs_union pairs_sequence pairs_closure pairs_zero)

end

interpretation merged_graphs: path_projection False all_pairs Q Q for Q :: "'l Quad set"
proof
  fix P and A B :: "(GraphName \<times> 'l Term \<times> 'l Term) set"
  show "all_pairs (quad_path ` {q \<in> Q. P (quad_predicate q)}) = {(s, e). \<exists>n. P n \<and> (s, n, e) \<in> triples Q}"
    by (auto simp: all_pairs_def quad_path_def triples_def)
  show "all_pairs (sequence_paths False A B) = all_pairs A O all_pairs B"
    by (auto simp: sequence_paths_def all_pairs_def relcomp_unfold)
  show "all_pairs (path_closure (\<not> False) A) = (all_pairs A)\<^sup>+" by (simp add: closure_pairs)
  show "all_pairs (\<Union>(g, s, e) \<in> quad_path ` Q. {(g, s, s), (g, e, e)}) = Id_on (nodes (triples Q))"
    by (fastforce simp: all_pairs_def quad_path_def nodes_def triples_def)
qed (auto simp: all_pairs_def reverse_mem)

lemma pairs_in_laws:
  "pairs_in g (quad_path ` {q \<in> Q. P (quad_predicate q)}) =
     {(s, e). \<exists>n. P n \<and> (s, n, e) \<in> triples {q \<in> Q. quad_graph_name q = g}}"
  "g \<noteq> DefaultGraph \<Longrightarrow> pairs_in g (sequence_paths True A B) = pairs_in g A O pairs_in g B"
  "pairs_in g (path_closure (\<not> True) A) = (pairs_in g A)\<^sup>+"
  "pairs_in g (\<Union>(g, s, e) \<in> quad_path ` Q. {(g, s, s), (g, e, e)}) =
     Id_on (nodes (triples {q \<in> Q. quad_graph_name q = g}))"
  "pairs_in g (A \<union> B) = pairs_in g A \<union> pairs_in g B"
  "pairs_in g ((\<lambda>(g, s, e). (g, e, s)) ` A) = (pairs_in g A)\<inverse>"
proof -
  show "pairs_in g (quad_path ` {q \<in> Q. P (quad_predicate q)}) =
     {(s, e). \<exists>n. P n \<and> (s, n, e) \<in> triples {q \<in> Q. quad_graph_name q = g}}"
    by (auto simp: pairs_in_def quad_path_def triples_def)
  show "g \<noteq> DefaultGraph \<Longrightarrow> pairs_in g (sequence_paths True A B) = pairs_in g A O pairs_in g B"
    by (auto simp: sequence_paths_def pairs_in_def relcomp_unfold)
  show "pairs_in g (path_closure (\<not> True) A) = (pairs_in g A)\<^sup>+" by (simp add: closure_pairs)
  show "pairs_in g (\<Union>(g, s, e) \<in> quad_path ` Q. {(g, s, s), (g, e, e)}) =
     Id_on (nodes (triples {q \<in> Q. quad_graph_name q = g}))"
    by (fastforce simp: pairs_in_def quad_path_def nodes_def triples_def)
qed (auto simp: pairs_in_def reverse_mem)

interpretation named_graph: path_projection True "pairs_in (GNamedNode n)" Q "{q \<in> Q. quad_graph_name q = GNamedNode n}"
  for n and Q :: "'l Quad set"
  by unfold_locales (simp_all only: pairs_in_laws GraphName.distinct not_False_eq_True)

interpretation blank_graph: path_projection True "pairs_in (GBlankNode n)" Q "{q \<in> Q. quad_graph_name q = GBlankNode n}"
  for n and Q :: "'l Quad set"
  by unfold_locales (simp_all only: pairs_in_laws GraphName.distinct not_False_eq_True)

lemma path_sem_graph:
  assumes "g \<noteq> DefaultGraph"
  shows "pairs_in g (path_sem True Q p) = path_rel (triples {q \<in> Q. quad_graph_name q = g}) p"
  using assms by (cases g) (simp_all add: named_graph.pairs_path_sem blank_graph.pairs_path_sem)

section \<open>Properties\<close>

lemma path_row_mem: "set rs = path_row ` S \<Longrightarrow> path_row x \<in> set rs \<longleftrightarrow> x \<in> S"
  by (simp add: inj_image_mem_iff [OF path_row_inj])

text \<open>C34: A property path without an empty negated set is lowered to a plan whose source and
  target pairs are exactly the relation of the path: over the merge of the active graphs when paths
  may cross graphs, and over each named graph on its own inside a graph pattern. With an empty
  negated set the lowering fails.\<close>

theorem path_lowering_correct:
  assumes "datafusion_ok D" "literal_ok L"
  shows "case rewrite_property_path_expression D L quads info p of
      Inl _ \<Rightarrow> \<not> no_empty_set p
    | Inr rs \<Rightarrow> no_empty_set p \<and>
       (if disallow_cross_graph_paths info
        then \<forall>g. g \<noteq> DefaultGraph \<longrightarrow> {(s, e). path_row (g, s, e) \<in> set rs} =
          path_rel (triples {q \<in> active_quads quads (active_graph info). quad_graph_name q = g}) p
        else {(s, e). \<exists>g. path_row (g, s, e) \<in> set rs} = path_rel (triples (active_quads quads (active_graph info))) p)"
proof (cases "no_empty_set p")
  case True
  let ?S = "path_sem (disallow_cross_graph_paths info) (active_quads quads (active_graph info)) p"
  obtain rs where rs: "rewrite_property_path_expression D L quads info p = Inr rs" "set rs = path_row ` ?S"
    using rewrite_path_denotes [OF assms, of p quads info] True by auto
  have "{(s, e). path_row (g, s, e) \<in> set rs} = pairs_in g ?S" "{(s, e). \<exists>g. path_row (g, s, e) \<in> set rs} = all_pairs ?S" for g
    by (simp_all add: path_row_mem [OF rs(2)] pairs_in_def all_pairs_def)
  then show ?thesis
    using True rs(1) merged_graphs.pairs_path_sem [of "active_quads quads (active_graph info)" p]
    by (simp add: path_sem_graph)
next
  case False
  then show ?thesis using rewrite_path_denotes [OF assms, of p quads info] by auto
qed

definition demo_quad :: "GraphName \<Rightarrow> string \<Rightarrow> string \<Rightarrow> string \<Rightarrow> RefLiteral Quad" where
  "demo_quad g s p e = \<lparr>quad_graph_name = g, quad_subject = NBNamedNode s, quad_predicate = p, quad_object = NamedNode e\<rparr>"

definition demo_quads :: "RefLiteral Quad list" where
  "demo_quads = [demo_quad DefaultGraph ''a'' ''p'' ''b'', demo_quad (GNamedNode ''g'') ''a'' ''p'' ''b'',
     demo_quad (GNamedNode ''g'') ''b'' ''p'' ''c'']"

theorem path_lowering_correct_witness:
  "\<exists>rs. rewrite_property_path_expression ref_df ref_literals demo_quads
       \<lparr>active_graph = AnyNamedGraph, disallow_cross_graph_paths = True\<rparr> (OneOrMore (PathNamedNode ''p'')) = Inr rs \<and>
     path_row (GNamedNode ''g'', NamedNode ''a'', NamedNode ''c'') \<in> set rs"
proof -
  let ?info = "\<lparr>active_graph = AnyNamedGraph, disallow_cross_graph_paths = True\<rparr>"
  let ?p = "OneOrMore (PathNamedNode ''p'')"
  let ?Q = "{q \<in> active_quads demo_quads (active_graph ?info). quad_graph_name q = GNamedNode ''g''}"
  have "(NamedNode ''a'', ''p'', NamedNode ''b'') \<in> triples ?Q" "(NamedNode ''b'', ''p'', NamedNode ''c'') \<in> triples ?Q"
    by (force simp: triples_def active_quads_def demo_quads_def demo_quad_def)+
  then have "(NamedNode ''a'', NamedNode ''c'') \<in> path_rel (triples ?Q) ?p"
    by (auto intro: trancl_into_trancl)
  with path_lowering_correct [OF ref_df_ok ref_literals_ok, where quads = demo_quads and info = ?info and p = ?p] show ?thesis
    by (auto split: sum.splits)
qed

text \<open>A closure path reports one row per graph in which the first step lies: when the same
  triple is in two active graphs, the solutions of the path contain the same solution twice, although
  the closure over the merged graphs has the pair once.\<close>

theorem closure_repeats_across_graphs:
  assumes "datafusion_ok D" "literal_ok L" "x \<noteq> y"
    "q1 \<in> active_quads quads ag" "q2 \<in> active_quads quads ag" "quad_graph_name q1 \<noteq> quad_graph_name q2"
    "quad_subject q1 = quad_subject q2" "quad_predicate q1 = quad_predicate q2" "quad_object q1 = quad_object q2"
  shows "\<exists>rs. rewrite_property_path_node D L quads \<lparr>node_active_graph = ag, graph_name_var = None,
      path_subject = PVariable x, node_path = OneOrMore (PathNamedNode (quad_predicate q1)), path_object = PVariable y\<rparr> = Inr rs \<and>
    2 \<le> count (mset (map solution rs)) [x \<mapsto> node_term (quad_subject q1), y \<mapsto> quad_object q1]"
proof -
  let ?info = "\<lparr>active_graph = ag, disallow_cross_graph_paths = False\<rparr>"
  let ?n = "quad_predicate q1" and ?Q = "active_quads quads ag"
  let ?S = "path_sem False ?Q (PathNamedNode ?n)"
  obtain inner where inner: "rewrite_property_path_expression D L quads ?info (PathNamedNode ?n) = Inr inner" "set inner = path_row ` ?S"
    using rewrite_path_denotes [OF assms(1,2), of "PathNamedNode ?n" quads ?info] by auto
  obtain out where out: "kleene_plus_node L False inner = Inr out" "distinct out" "set out = path_row ` path_closure True ?S"
    using kleene_plus_node_set [OF assms(2) inner(2), of False] by auto
  have S: "quad_path q1 \<in> ?S" "quad_path q2 \<in> ?S" using assms(4,5,8) by auto
  have sub: "?S \<subseteq> path_closure True ?S" by (auto simp: path_closure_def)
  have rows: "path_row (quad_path q1) \<in> set out" "path_row (quad_path q2) \<in> set out"
    using S sub by (auto simp: out(3))
  have neq: "path_row (quad_path q1) \<noteq> path_row (quad_path q2)"
    using assms(6) by (auto simp: quad_path_def inj_eq [OF path_row_inj])
  have two: "{#path_row (quad_path q1), path_row (quad_path q2)#} \<subseteq># mset out"
    using rows neq by (simp add: insert_subset_eq_iff in_diff_count)
  let ?pats = "[None, Some (PVariable x), Some (PVariable y)]"
  obtain node where node: "pattern_try_new \<lparr>plan_schema = path_table_schema, plan_rows = out\<rparr> ?pats = Inr node"
    by (simp add: pattern_try_new_def path_table_schema_def)
  have input: "pattern_input node = \<lparr>plan_schema = path_table_schema, plan_rows = out\<rparr>"
    and cols: "pattern_columns node = zip [''_graph'', ''_source'', ''_target''] ?pats"
    using node by (auto simp: pattern_try_new_def pattern_columns_def path_table_schema_def schema_names_def path_field_def split: if_splits)
  have pc: "placeholder_columns (pattern_columns node) (PVariable v) =
      (if x = v then [''_source''] else []) @ (if y = v then [''_target''] else [])" for v
    by (simp add: cols placeholder_columns_def)
  have const: "\<forall>c \<in> set (pattern_columns node). pattern_constant (snd c) = None" by (simp add: cols)
  have agree: "cells_agree r (placeholder_columns (pattern_columns node) (PVariable v))" for r :: "'a Term row" and v
    using assms(3) by (cases "x = v"; cases "y = v") (simp_all add: pc cells_agree_def)
  have all: "opt_true D r (compute_filters_for_pattern node)" for r
    unfolding compute_filters_true [OF datafusion_okD(1) [OF assms(1)]] using const agree by simp
  let ?sol = "[x \<mapsto> node_term (quad_subject q1), y \<mapsto> quad_object q1]"
  have sol: "pattern_solution (pattern_columns node) (path_row (quad_path q)) =
      [x \<mapsto> node_term (quad_subject q), y \<mapsto> quad_object q]" for q :: "'a Quad"
    by (rule ext) (use assms(3) in \<open>simp add: cols pattern_solution_def quad_path_def\<close>)
  have "mset (map solution (rewrite_pattern_node D node)) = image_mset (pattern_solution (pattern_columns node)) (mset out)"
    using mset_map_cong [OF rewrite_pattern_rows [OF assms(1), of node], of solution] all
    by (simp add: input multiset.map_comp comp_def)
  moreover have "{#?sol, ?sol#} \<subseteq># image_mset (pattern_solution (pattern_columns node)) (mset out)"
    using image_mset_subseteq_mono [OF two, of "pattern_solution (pattern_columns node)"] assms(7,9) by (simp add: sol)
  ultimately have "count {#?sol, ?sol#} ?sol \<le> count (mset (map solution (rewrite_pattern_node D node))) ?sol"
    by (simp only: mset_subset_eq_count)
  then have "2 \<le> count (mset (map solution (rewrite_pattern_node D node))) ?sol" by simp
  then show ?thesis using inner(1) out(1) node by (simp add: rewrite_property_path_node_def Let_def)
qed

theorem closure_repeats_across_graphs_witness:
  "\<exists>rs. rewrite_property_path_node ref_df ref_literals demo_quads \<lparr>node_active_graph = AllGraphs, graph_name_var = None,
      path_subject = PVariable ''x'', node_path = OneOrMore (PathNamedNode ''p''), path_object = PVariable ''y''\<rparr> = Inr rs \<and>
    2 \<le> count (mset (map solution rs)) [''x'' \<mapsto> NamedNode ''a'', ''y'' \<mapsto> NamedNode ''b'']"
proof -
  let ?q1 = "demo_quad DefaultGraph ''a'' ''p'' ''b''" and ?q2 = "demo_quad (GNamedNode ''g'') ''a'' ''p'' ''b''"
  have "?q1 \<in> active_quads demo_quads AllGraphs" "?q2 \<in> active_quads demo_quads AllGraphs"
    by (simp_all add: active_quads_def demo_quads_def)
  from closure_repeats_across_graphs [OF ref_df_ok ref_literals_ok _ this, of "''x''" "''y''"] show ?thesis
    by (simp add: demo_quad_def)
qed

text \<open>A zero-or-more path from a constant yields nothing when the constant is not a node of
  the active graphs, also not the zero-length path from the constant to itself.\<close>

theorem zero_length_path_needs_node:
  assumes "datafusion_ok D" "literal_ok L" "no_empty_set p"
    "NamedNode a \<notin> nodes (triples (active_quads quads ag))"
  shows "rewrite_property_path_node D L quads \<lparr>node_active_graph = ag, graph_name_var = None,
      path_subject = PNamedNode a, node_path = ZeroOrMore p, path_object = PVariable y\<rparr> = Inr []"
proof -
  let ?info = "\<lparr>active_graph = ag, disallow_cross_graph_paths = False\<rparr>"
  let ?Q = "active_quads quads ag"
  let ?S = "path_sem False ?Q (ZeroOrMore p)"
  obtain rs where rs: "rewrite_property_path_expression D L quads ?info (ZeroOrMore p) = Inr rs" "set rs = path_row ` ?S"
    using rewrite_path_denotes [OF assms(1,2), of "ZeroOrMore p" quads ?info] assms(3) by auto
  have "(NamedNode a, e) \<notin> path_rel (triples ?Q) (ZeroOrMore p)" for e
    using assms(4) path_rel_nodes [of "triples ?Q" "ZeroOrMore p"] by auto
  then have "(NamedNode a, e) \<notin> all_pairs ?S" for e by (simp only: merged_graphs.pairs_path_sem not_False_eq_True)
  then have start: "(g, NamedNode a, e) \<notin> ?S" for g e unfolding all_pairs_def by blast
  let ?pats = "[None, Some (PNamedNode a), Some (PVariable y)]"
  obtain node where node: "pattern_try_new \<lparr>plan_schema = path_table_schema, plan_rows = rs\<rparr> ?pats = Inr node"
    by (simp add: pattern_try_new_def path_table_schema_def)
  have input: "plan_rows (pattern_input node) = rs"
    and cols: "pattern_columns node = zip [''_graph'', ''_source'', ''_target''] ?pats"
    using node by (auto simp: pattern_try_new_def pattern_columns_def path_table_schema_def schema_names_def path_field_def split: if_splits)
  have "\<not> opt_true D r (compute_filters_for_pattern node)" if "r \<in> set rs" for r
  proof -
    obtain x where "x \<in> ?S" "r = path_row x" using \<open>r \<in> set rs\<close> unfolding rs(2) by (rule imageE)
    moreover have "fst (snd x) \<noteq> NamedNode a" using start [of "fst x" "snd (snd x)"] \<open>x \<in> ?S\<close> by (metis prod.collapse)
    ultimately show ?thesis
      by (auto simp: compute_filters_true [OF datafusion_okD(1) [OF assms(1)]] cols)
  qed
  then have "mset (rewrite_pattern_node D node) = {#}"
    using rewrite_pattern_rows [OF assms(1), of node] by (simp add: input filter_empty_conv [THEN iffD2])
  then show ?thesis using rs(1) node by (simp add: rewrite_property_path_node_def Let_def)
qed

theorem zero_length_path_needs_node_witness:
  "rewrite_property_path_node ref_df ref_literals demo_quads \<lparr>node_active_graph = ActiveDefaultGraph, graph_name_var = None,
      path_subject = PNamedNode ''c'', node_path = ZeroOrMore (PathNamedNode ''p''), path_object = PVariable ''y''\<rparr> = Inr []"
proof (rule zero_length_path_needs_node [OF ref_df_ok ref_literals_ok])
  show "NamedNode ''c'' \<notin> nodes (triples (active_quads demo_quads ActiveDefaultGraph))"
    by (auto simp: triples_def nodes_def active_quads_def demo_quads_def demo_quad_def)
qed simp

end
