(* ===== verification/Quad_Pattern.thy ===== *)
theory Quad_Pattern
  imports Sparql_Path Delta_Properties
begin

text \<open>
  Quad patterns (\<open>lib/common/src/quad_pattern.rs\<close>, \<open>lib/logical/src/quad_pattern\<close>): the filters
  over a quad table, the projection of its components to variables, the schema, and the logical
  node with its projection. Shown: the filters keep exactly the quads that match the pattern in
  the active graph; together with the scan of the Delta storage, a pattern is answered from the
  committed quads.
\<close>

section \<open>Patterns\<close>

datatype BlankNodeMatchingMode = Match_Variable | Match_Filter

datatype NamedNodePattern = NNamedNode string | NVariable string

fun term_pattern_of :: "NamedNodePattern \<Rightarrow> 'l TermPattern" where
  "term_pattern_of (NNamedNode nn) = PNamedNode nn"
| "term_pattern_of (NVariable v) = PVariable v"

record 'l TriplePattern =
  tp_subject :: "'l TermPattern"
  tp_predicate :: NamedNodePattern
  tp_object :: "'l TermPattern"

record 'l QuadPattern =
  qp_active_graph :: ActiveGraph
  graph_variable :: "string option"
  triple_pattern :: "'l TriplePattern"
  blank_node_mode :: BlankNodeMatchingMode

definition all_quads :: "'l QuadPattern" where
  "all_quads = \<lparr>qp_active_graph = AllGraphs, graph_variable = Some ''graph'',
     triple_pattern = \<lparr>tp_subject = PVariable ''subject'', tp_predicate = NVariable ''predicate'', tp_object = PVariable ''object''\<rparr>,
     blank_node_mode = Match_Variable\<rparr>"

definition quad_components :: "QuadComponent list" where
  "quad_components = [GraphName, Subject, Predicate, Object]"

fun column_name :: "QuadComponent \<Rightarrow> string" where
  "column_name GraphName = ''graph''"
| "column_name Subject = ''subject''"
| "column_name Predicate = ''predicate''"
| "column_name Object = ''object''"

definition component_patterns :: "'l QuadPattern \<Rightarrow> (QuadComponent \<times> 'l TermPattern option) list" where
  "component_patterns p = zip quad_components
     [map_option PVariable (graph_variable p), Some (tp_subject (triple_pattern p)),
      Some (term_pattern_of (tp_predicate (triple_pattern p))), Some (tp_object (triple_pattern p))]"

fun is_bound_to_single_value :: "'l TermPattern \<Rightarrow> BlankNodeMatchingMode \<Rightarrow> bool" where
  "is_bound_to_single_value (PNamedNode _) _ = True"
| "is_bound_to_single_value (PBlankNode _) mode = (mode = Match_Filter)"
| "is_bound_to_single_value (PLiteral _) _ = True"
| "is_bound_to_single_value (PVariable _) _ = False"

definition bound_components :: "'l QuadPattern \<Rightarrow> QuadComponent list" where
  "bound_components p =
     (if is_bound_to_single_graph (qp_active_graph p) then [GraphName] else []) @
     (if is_bound_to_single_value (tp_subject (triple_pattern p)) (blank_node_mode p) then [Subject] else []) @
     (if is_bound_to_single_value (term_pattern_of (tp_predicate (triple_pattern p)) :: 'l TermPattern) (blank_node_mode p) then [Predicate] else []) @
     (if is_bound_to_single_value (tp_object (triple_pattern p)) (blank_node_mode p) then [Object] else [])"

text \<open>The name that a part of the pattern binds.\<close>

fun projected_name :: "BlankNodeMatchingMode \<Rightarrow> 'l TermPattern option \<Rightarrow> string option" where
  "projected_name mode (Some (PBlankNode b)) = (if mode = Match_Variable then Some b else None)"
| "projected_name mode (Some (PVariable v)) = Some v"
| "projected_name mode _ = None"

fun projected_components ::
    "BlankNodeMatchingMode \<Rightarrow> (QuadComponent \<times> 'l TermPattern option) list \<Rightarrow> string list \<Rightarrow> (QuadComponent \<times> string) list" where
  "projected_components mode [] seen = []"
| "projected_components mode ((c, p) # cps) seen =
     (case projected_name mode p of
        None \<Rightarrow> projected_components mode cps seen
      | Some n \<Rightarrow> if n \<in> set seen then projected_components mode cps seen else (c, n) # projected_components mode cps (n # seen))"

definition compute_projected_components :: "'l QuadPattern \<Rightarrow> (QuadComponent \<times> string) list" where
  "compute_projected_components p = projected_components (blank_node_mode p) (component_patterns p) []"

definition compute_projection :: "'l QuadPattern \<Rightarrow> (string \<times> string) list" where
  "compute_projection p = map (\<lambda>(c, n). (column_name c, n)) (compute_projected_components p)"

definition number_of_unique_variables :: "'l QuadPattern \<Rightarrow> nat" where
  "number_of_unique_variables p = card (set (map fst (compute_projected_components p)))"

section \<open>Schemas\<close>

fun pattern_fields :: "BlankNodeMatchingMode \<Rightarrow> ('l TermPattern option \<times> field) list \<Rightarrow> string list \<Rightarrow> field list" where
  "pattern_fields mode [] seen = []"
| "pattern_fields mode ((p, f) # pfs) seen =
     (case projected_name mode p of
        None \<Rightarrow> pattern_fields mode pfs seen
      | Some n \<Rightarrow> if n \<in> set seen then pattern_fields mode pfs seen else f\<lparr>field_name := n\<rparr> # pattern_fields mode pfs (n # seen))"

definition compute_schema_for_pattern :: "field list \<Rightarrow> 'l TermPattern option list \<Rightarrow> BlankNodeMatchingMode \<Rightarrow> field list" where
  "compute_schema_for_pattern inner_schema patterns mode = pattern_fields mode (zip patterns inner_schema) []"

definition compute_quad_pattern_schema :: "field list \<Rightarrow> 'l QuadPattern \<Rightarrow> field list" where
  "compute_quad_pattern_schema quad_schema p =
     compute_schema_for_pattern quad_schema (map snd (component_patterns p)) (blank_node_mode p)"

section \<open>Filters\<close>

text \<open>The expressions over the columns of a quad table that occur as filters, with SQL's logic.\<close>

datatype 'e QuadFilter =
    FIsNull QuadComponent
  | FIsNotNull QuadComponent
  | FFalse
  | FInList QuadComponent "'e list"
  | FOr "'e QuadFilter" "'e QuadFilter"
  | FEqTerm QuadComponent 'e
  | FEqColumn QuadComponent QuadComponent

fun quad_filter_value :: "'e quad_row \<Rightarrow> 'e QuadFilter \<Rightarrow> 'e val" where
  "quad_filter_value r (FIsNull c) = VBool (component_col c r = None)"
| "quad_filter_value r (FIsNotNull c) = VBool (component_col c r \<noteq> None)"
| "quad_filter_value r FFalse = VBool False"
| "quad_filter_value r (FInList c es) = (case component_col c r of None \<Rightarrow> VNull | Some e \<Rightarrow> VBool (e \<in> set es))"
| "quad_filter_value r (FOr a b) = sql_or (quad_filter_value r a) (quad_filter_value r b)"
| "quad_filter_value r (FEqTerm c e) = (case component_col c r of None \<Rightarrow> VNull | Some e' \<Rightarrow> VBool (e' = e))"
| "quad_filter_value r (FEqColumn c d) =
     (case (component_col c r, component_col d r) of (Some e, Some e') \<Rightarrow> VBool (e = e') | _ \<Rightarrow> VNull)"

text \<open>\<open>try_encode_term\<close> of the storage encoding: the stored form of a term, if it has one (an object id exists only for known
  terms). It may fail.\<close>

type_synonym ('l, 'e) encoder = "'l Term \<Rightarrow> (plan_error, 'e option) result"

fun graph_name_term :: "GraphName \<Rightarrow> 'l Term option" where
  "graph_name_term (GNamedNode nn) = Some (NamedNode nn)"
| "graph_name_term (GBlankNode bn) = Some (BlankNode bn)"
| "graph_name_term DefaultGraph = None"

fun union_literals :: "('l, 'e) encoder \<Rightarrow> GraphName list \<Rightarrow> (plan_error, 'e list \<times> bool) result" where
  "union_literals enc [] = Inr ([], False)"
| "union_literals enc (g # gs) =
     (case graph_name_term g of
        None \<Rightarrow> map_ok (\<lambda>(ls, d). (ls, True)) (union_literals enc gs)
      | Some t \<Rightarrow> and_then (enc t) (\<lambda>e. map_ok (\<lambda>(ls, d). (case e of None \<Rightarrow> ls | Some e \<Rightarrow> e # ls, d)) (union_literals enc gs)))"

fun filter_active_graph :: "('l, 'e) encoder \<Rightarrow> ActiveGraph \<Rightarrow> (plan_error, 'e QuadFilter option) result" where
  "filter_active_graph enc ActiveDefaultGraph = Inr (Some (FIsNull GraphName))"
| "filter_active_graph enc AnyNamedGraph = Inr (Some (FIsNotNull GraphName))"
| "filter_active_graph enc (UnionGraphs gs) =
     (if gs = [] then Inr (Some FFalse)
      else map_ok (\<lambda>(literals, include_default). Some (
             if literals = [] then (if include_default then FIsNull GraphName else FFalse)
             else if include_default then FOr (FInList GraphName literals) (FIsNull GraphName)
             else FInList GraphName literals)) (union_literals enc gs))"
| "filter_active_graph enc AllGraphs = Inr None"

fun fixed_term :: "BlankNodeMatchingMode \<Rightarrow> 'l TermPattern option \<Rightarrow> 'l Term option" where
  "fixed_term mode (Some (PNamedNode nn)) = Some (NamedNode nn)"
| "fixed_term mode (Some (PLiteral l)) = Some (Literal l)"
| "fixed_term mode (Some (PBlankNode b)) = (if mode = Match_Filter then Some (BlankNode b) else None)"
| "fixed_term mode _ = None"

fun filter_by_terms ::
    "('l, 'e) encoder \<Rightarrow> BlankNodeMatchingMode \<Rightarrow> (QuadComponent \<times> 'l TermPattern option) list \<Rightarrow> (plan_error, 'e QuadFilter list) result" where
  "filter_by_terms enc mode [] = Inr []"
| "filter_by_terms enc mode ((c, p) # cps) =
     (case fixed_term mode p of
        None \<Rightarrow> filter_by_terms enc mode cps
      | Some t \<Rightarrow> and_then (enc t) (\<lambda>e. map_ok (Cons (case e of Some e \<Rightarrow> FEqTerm c e | None \<Rightarrow> FFalse)) (filter_by_terms enc mode cps)))"

text \<open>The order of the columns of a variable is kept; that of the variables is not fixed by the code.\<close>

fun columns_of :: "BlankNodeMatchingMode \<Rightarrow> (QuadComponent \<times> 'l TermPattern option) list \<Rightarrow> string \<Rightarrow> QuadComponent list" where
  "columns_of mode [] v = []"
| "columns_of mode ((c, p) # cps) v = (if projected_name mode p = Some v then c # columns_of mode cps v else columns_of mode cps v)"

definition filters_on_repeated_variables ::
    "BlankNodeMatchingMode \<Rightarrow> (QuadComponent \<times> 'l TermPattern option) list \<Rightarrow> 'e QuadFilter list" where
  "filters_on_repeated_variables mode cps =
     concat (map (\<lambda>v. case columns_of mode cps v of [] \<Rightarrow> [] | c # cs \<Rightarrow> map (FEqColumn c) cs)
       (remdups (List.map_filter (\<lambda>(c, p). projected_name mode p) cps)))"

definition compute_quad_pattern_filters :: "('l, 'e) encoder \<Rightarrow> 'l QuadPattern \<Rightarrow> (plan_error, 'e QuadFilter list) result" where
  "compute_quad_pattern_filters enc p =
     and_then (filter_active_graph enc (qp_active_graph p)) (\<lambda>active_graph_filter.
     map_ok (\<lambda>term_filters.
         (case active_graph_filter of None \<Rightarrow> [] | Some f \<Rightarrow> [f]) @ term_filters @
         filters_on_repeated_variables (blank_node_mode p) (component_patterns p))
       (filter_by_terms enc (blank_node_mode p) (component_patterns p)))"

section \<open>The node of a pattern\<close>

record 'l QuadPatternNode =
  qn_pattern :: "'l QuadPattern"
  qn_schema :: "field list"
  qn_projection :: "nat list option"

definition quad_pattern_node_new :: "field list \<Rightarrow> ActiveGraph \<Rightarrow> string option \<Rightarrow> 'l TriplePattern \<Rightarrow> 'l QuadPatternNode" where
  "quad_pattern_node_new quad_schema ag g tp =
     (let p = \<lparr>qp_active_graph = ag, graph_variable = g, triple_pattern = tp, blank_node_mode = Match_Variable\<rparr>
      in \<lparr>qn_pattern = p, qn_schema = compute_quad_pattern_schema quad_schema p, qn_projection = None\<rparr>)"

definition new_with_blank_nodes_as_filter :: "field list \<Rightarrow> ActiveGraph \<Rightarrow> string option \<Rightarrow> 'l TriplePattern \<Rightarrow> 'l QuadPatternNode" where
  "new_with_blank_nodes_as_filter quad_schema ag g tp =
     (let p = \<lparr>qp_active_graph = ag, graph_variable = g, triple_pattern = tp, blank_node_mode = Match_Filter\<rparr>
      in \<lparr>qn_pattern = p, qn_schema = compute_quad_pattern_schema quad_schema p, qn_projection = None\<rparr>)"

definition new_all_quads :: "field list \<Rightarrow> ActiveGraph \<Rightarrow> 'l QuadPatternNode" where
  "new_all_quads quad_schema ag =
     \<lparr>qn_pattern = \<lparr>qp_active_graph = ag, graph_variable = Some ''graph'',
        triple_pattern = \<lparr>tp_subject = PVariable ''subject'', tp_predicate = NVariable ''predicate'', tp_object = PVariable ''object''\<rparr>,
        blank_node_mode = Match_Filter\<rparr>,
      qn_schema = quad_schema, qn_projection = None\<rparr>"

text \<open>An index out of range is a panic, duplicate names are an error of the schema.\<close>

definition with_projection :: "'l QuadPatternNode \<Rightarrow> nat list \<Rightarrow> (plan_error, 'l QuadPatternNode) result" where
  "with_projection node idx =
     (if \<not> list_all (\<lambda>i. i < length (qn_schema node)) idx then Inl (PlanError ''index out of bounds'')
      else if \<not> distinct (schema_names (map ((!) (qn_schema node)) idx)) then Inl (PlanError ''Schema contains duplicate unqualified field name'')
      else Inr (node\<lparr>qn_schema := map ((!) (qn_schema node)) idx, qn_projection := Some idx\<rparr>))"

fun select_projections :: "'a list \<Rightarrow> nat list \<Rightarrow> (plan_error, 'a list) result" where
  "select_projections full [] = Inr []"
| "select_projections full (i # idx) =
     (if i < length full then map_ok (Cons (full ! i)) (select_projections full idx)
      else Inl (PlanError ''Projection quad_table out of bounds for schema length''))"

definition compute_projection_exprs :: "'l QuadPattern \<Rightarrow> nat list option \<Rightarrow> (plan_error, (QuadComponent \<times> string) list) result" where
  "compute_projection_exprs p projection_indices =
     (case projection_indices of None \<Rightarrow> Inr (compute_projected_components p)
      | Some idx \<Rightarrow> select_projections (compute_projected_components p) idx)"

text \<open>What a storage does with a node: filter the quads, then project the components to variables.\<close>

definition project_components_to_variables ::
    "'l QuadPattern \<Rightarrow> nat list option \<Rightarrow> 'e quad_row list \<Rightarrow> (plan_error, string list \<times> 'e option list list) result" where
  "project_components_to_variables p idx rows =
     map_ok (\<lambda>exprs. (map snd exprs, map (\<lambda>r. map (\<lambda>(c, n). component_col c r) exprs) rows)) (compute_projection_exprs p idx)"

definition quad_passes :: "'e QuadFilter list \<Rightarrow> 'e quad_row \<Rightarrow> bool" where
  "quad_passes fs r \<longleftrightarrow> list_all (\<lambda>f. quad_filter_value r f = VBool True) fs"

definition scan_node :: "('l, 'e) encoder \<Rightarrow> 'e quad_row list \<Rightarrow> 'l QuadPatternNode \<Rightarrow> (plan_error, string list \<times> 'e option list list) result" where
  "scan_node enc rows node =
     and_then (compute_quad_pattern_filters enc (qn_pattern node)) (\<lambda>fs.
       project_components_to_variables (qn_pattern node) (qn_projection node) (filter (quad_passes fs) rows))"

section \<open>Matching quads\<close>

text \<open>The specification, on quads of terms: a quad matches when it is in the active graph and some assignment of terms to the
  variables, and to the blank nodes, makes it an instance of the pattern. The graph variable is unbound on the default graph.\<close>

fun quad_term :: "QuadComponent \<Rightarrow> 'l Quad \<Rightarrow> 'l Term option" where
  "quad_term GraphName q = graph_name_term (quad_graph_name q)"
| "quad_term Subject q = Some (node_term (quad_subject q))"
| "quad_term Predicate q = Some (NamedNode (quad_predicate q))"
| "quad_term Object q = Some (quad_object q)"

fun pattern_instance ::
    "BlankNodeMatchingMode \<Rightarrow> (string \<Rightarrow> 'l Term option) \<Rightarrow> (string \<Rightarrow> 'l Term option) \<Rightarrow> 'l TermPattern \<Rightarrow> 'l Term option" where
  "pattern_instance mode m b (PNamedNode nn) = Some (NamedNode nn)"
| "pattern_instance mode m b (PLiteral l) = Some (Literal l)"
| "pattern_instance mode m b (PVariable v) = m v"
| "pattern_instance mode m b (PBlankNode bn) = (if mode = Match_Filter then Some (BlankNode bn) else b bn)"

definition quad_instance :: "'l QuadPattern \<Rightarrow> (string \<Rightarrow> 'l Term option) \<Rightarrow> (string \<Rightarrow> 'l Term option) \<Rightarrow> 'l Quad \<Rightarrow> bool" where
  "quad_instance p m b q \<longleftrightarrow>
     (\<forall>(c, x) \<in> set (component_patterns p). \<forall>t. x = Some t \<longrightarrow> pattern_instance (blank_node_mode p) m b t = quad_term c q)"

definition quad_matches :: "'l QuadPattern \<Rightarrow> 'l Quad \<Rightarrow> bool" where
  "quad_matches p q \<longleftrightarrow> active_graph_matches (qp_active_graph p) (quad_graph_name q) \<and> (\<exists>m b. quad_instance p m b q)"

text \<open>Blank nodes that are matched like variables share the names of the columns with the variables.\<close>

definition no_name_clash :: "'l QuadPattern \<Rightarrow> bool" where
  "no_name_clash p \<longleftrightarrow> blank_node_mode p = Match_Filter \<or>
     (\<forall>x \<in> set (map snd (component_patterns p)). \<forall>y \<in> set (map snd (component_patterns p)). \<forall>n. \<not> (x = Some (PVariable n) \<and> y = Some (PBlankNode n)))"

text \<open>The answer for two assignments: a column has the value of the variable, or else of the blank node, with its name.\<close>

definition pattern_variables :: "'l QuadPattern \<Rightarrow> string set" where
  "pattern_variables p = {n. Some (PVariable n) \<in> set (map snd (component_patterns p))}"

definition pattern_blank_nodes :: "'l QuadPattern \<Rightarrow> string set" where
  "pattern_blank_nodes p = {n. Some (PBlankNode n) \<in> set (map snd (component_patterns p))}"

definition answer_of :: "string set \<Rightarrow> (string \<Rightarrow> 'l Term option) \<Rightarrow> (string \<Rightarrow> 'l Term option) \<Rightarrow> string \<Rightarrow> 'l Term option" where
  "answer_of V m b n = (if n \<in> V then m n else b n)"

text \<open>A storage row for a quad, under a partial encoding of terms.\<close>

definition encodes :: "('l Term \<Rightarrow> 'e option) \<Rightarrow> 'l Quad \<Rightarrow> 'e quad_row \<Rightarrow> bool" where
  "encodes code q r \<longleftrightarrow> (\<forall>c. case quad_term c q of None \<Rightarrow> component_col c r = None | Some t \<Rightarrow> code t \<noteq> None \<and> component_col c r = code t)"

definition code_ok :: "('l Term \<Rightarrow> 'e option) \<Rightarrow> bool" where
  "code_ok code \<longleftrightarrow> (\<forall>s t e. code s = Some e \<and> code t = Some e \<longrightarrow> s = t)"

section \<open>The filters are the pattern\<close>

lemma encodesD:
  assumes "encodes code q r"
  shows "quad_term c q = None \<Longrightarrow> component_col c r = None"
    and "quad_term c q = Some t \<Longrightarrow> \<exists>e. code t = Some e \<and> component_col c r = Some e"
  using assms unfolding encodes_def by (auto split: option.splits dest: spec [of _ c])

lemma encodes_cell:
  assumes r: "encodes code q r" and ok: "code_ok code"
  shows "component_col c r = Some e \<longleftrightarrow> (\<exists>t. quad_term c q = Some t \<and> code t = Some e)"
  by (cases "quad_term c q") (use encodesD [OF r] in \<open>force+\<close>)

lemma encodes_eq:
  assumes r: "encodes code q r" and ok: "code_ok code"
  shows "(case code t of Some e \<Rightarrow> component_col c r = Some e | None \<Rightarrow> False) \<longleftrightarrow> quad_term c q = Some t"
proof (cases "code t")
  case None
  then show ?thesis using encodesD(2) [OF r, of c t] by auto
next
  case (Some e)
  then show ?thesis using encodes_cell [OF r ok, of c e] ok unfolding code_ok_def by auto
qed

lemma union_literals_total: "\<exists>ls. union_literals (\<lambda>t. Inr (code t)) gs = Inr (ls, DefaultGraph \<in> set gs) \<and>
    set ls = {e. \<exists>g \<in> set gs. \<exists>t. graph_name_term g = Some t \<and> code t = Some e}"
proof (induction gs)
  case (Cons g gs)
  then obtain ls where ls: "union_literals (\<lambda>t. Inr (code t)) gs = Inr (ls, DefaultGraph \<in> set gs)"
    "set ls = {e. \<exists>g \<in> set gs. \<exists>t. graph_name_term g = Some t \<and> code t = Some e}" by blast
  show ?case
  proof (cases g)
    case DefaultGraph
    then show ?thesis using ls by auto
  qed (use ls in \<open>auto split: option.splits\<close>)
qed simp

lemma graph_name_term_inj: "graph_name_term g = graph_name_term h \<longleftrightarrow> g = h"
  by (cases g; cases h) auto

lemma filter_active_graph_correct:
  assumes r: "encodes code q r" and ok: "code_ok code"
  shows "\<exists>f. filter_active_graph (\<lambda>t. Inr (code t)) ag = Inr f \<and>
    ((case f of None \<Rightarrow> True | Some f \<Rightarrow> quad_filter_value r f = VBool True) \<longleftrightarrow> active_graph_matches ag (quad_graph_name q))"
proof (cases ag)
  case (UnionGraphs gs)
  obtain ls where ls: "union_literals (\<lambda>t. Inr (code t)) gs = Inr (ls, DefaultGraph \<in> set gs)"
    "set ls = {e. \<exists>g \<in> set gs. \<exists>t. graph_name_term g = Some t \<and> code t = Some e}"
    using union_literals_total [of code gs] by blast
  have null: "component_col GraphName r = None \<longleftrightarrow> quad_graph_name q = DefaultGraph"
    using encodesD [OF r, of GraphName] by (cases "quad_graph_name q") auto
  have inls: "(\<exists>e. component_col GraphName r = Some e \<and> e \<in> set ls) \<longleftrightarrow> quad_graph_name q \<in> set gs \<and> quad_graph_name q \<noteq> DefaultGraph"
  proof
    assume "\<exists>e. component_col GraphName r = Some e \<and> e \<in> set ls"
    then obtain e g t where e: "component_col GraphName r = Some e" "g \<in> set gs" "graph_name_term g = Some t" "code t = Some e" using ls(2) by blast
    then obtain t' where "quad_term GraphName q = Some t'" "code t' = Some e" using encodes_cell [OF r ok, of GraphName e] by blast
    moreover from this have "t' = t" using e(4) ok unfolding code_ok_def by blast
    ultimately have "(graph_name_term (quad_graph_name q) :: 'a Term option) = graph_name_term g" using e(3) by simp
    then show "quad_graph_name q \<in> set gs \<and> quad_graph_name q \<noteq> DefaultGraph" using e(2,3) unfolding graph_name_term_inj by auto
  next
    assume g: "quad_graph_name q \<in> set gs \<and> quad_graph_name q \<noteq> DefaultGraph"
    then obtain t :: "'a Term" where t: "graph_name_term (quad_graph_name q) = Some t" by (cases "quad_graph_name q") auto
    then obtain e where "code t = Some e" "component_col GraphName r = Some e" using encodesD(2) [OF r, of GraphName t] by auto
    then show "\<exists>e. component_col GraphName r = Some e \<and> e \<in> set ls" using ls(2) g t by blast
  qed
  define f where "f = (if ls = [] then (if DefaultGraph \<in> set gs then FIsNull GraphName else FFalse)
      else if DefaultGraph \<in> set gs then FOr (FInList GraphName ls) (FIsNull GraphName) else FInList GraphName ls)"
  have "quad_filter_value r f = VBool True \<longleftrightarrow>
      (\<exists>e. component_col GraphName r = Some e \<and> e \<in> set ls) \<or> DefaultGraph \<in> set gs \<and> component_col GraphName r = None"
  proof (cases "component_col GraphName r")
    case (Some e)
    then show ?thesis by (cases "e \<in> set ls"; cases "ls = []") (simp_all add: f_def sql_or_def)
  qed (simp add: f_def sql_or_def)
  then have "quad_filter_value r f = VBool True \<longleftrightarrow> quad_graph_name q \<in> set gs" unfolding inls null by auto
  moreover have "filter_active_graph (\<lambda>t. Inr (code t)) ag = Inr (Some (if gs = [] then FFalse else f))" using ls(1) by (simp add: UnionGraphs f_def)
  ultimately show ?thesis by (simp add: UnionGraphs)
qed (use encodesD [OF r, of GraphName] in \<open>cases "quad_graph_name q"; auto\<close>)+

lemma filter_by_terms_correct:
  assumes r: "encodes code q r" and ok: "code_ok code"
  shows "\<exists>fs. filter_by_terms (\<lambda>t. Inr (code t)) mode cps = Inr fs \<and>
    (quad_passes fs r \<longleftrightarrow> (\<forall>(c, x) \<in> set cps. \<forall>t. fixed_term mode x = Some t \<longrightarrow> quad_term c q = Some t))"
proof (induction cps)
  case (Cons cp cps)
  then obtain fs where fs: "filter_by_terms (\<lambda>t. Inr (code t)) mode cps = Inr fs"
    "quad_passes fs r \<longleftrightarrow> (\<forall>(c, x) \<in> set cps. \<forall>t. fixed_term mode x = Some t \<longrightarrow> quad_term c q = Some t)" by blast
  obtain c x where cp: "cp = (c, x)" by (cases cp)
  show ?case
  proof (cases "fixed_term mode x")
    case None
    then show ?thesis using fs by (simp add: cp)
  next
    case (Some t)
    let ?f = "case code t of Some e \<Rightarrow> FEqTerm c e | None \<Rightarrow> FFalse"
    have "quad_filter_value r ?f = VBool True \<longleftrightarrow> quad_term c q = Some t"
      using encodes_eq [OF r ok, where t = t and c = c] by (auto split: option.splits)
    then have "quad_passes (?f # fs) r \<longleftrightarrow> (\<forall>(c, x) \<in> set (cp # cps). \<forall>t. fixed_term mode x = Some t \<longrightarrow> quad_term c q = Some t)"
      using fs(2) Some by (simp add: cp quad_passes_def)
    moreover have "filter_by_terms (\<lambda>t. Inr (code t)) mode (cp # cps) = Inr (?f # fs)" using fs(1) Some by (simp add: cp)
    ultimately show ?thesis by blast
  qed
qed (simp add: quad_passes_def)

lemma columns_of_set: "set (columns_of mode cps v) = {c. \<exists>x. (c, x) \<in> set cps \<and> projected_name mode x = Some v}"
  by (induction cps) (auto split: if_splits)

definition terms_agree :: "'l Quad \<Rightarrow> QuadComponent list \<Rightarrow> bool" where
  "terms_agree q cs \<longleftrightarrow> length cs \<le> 1 \<or> (\<exists>t. \<forall>c \<in> set cs. quad_term c q = Some t)"

lemma eq_column_correct:
  assumes r: "encodes code q r" and ok: "code_ok code"
  shows "quad_filter_value r (FEqColumn c d) = VBool True \<longleftrightarrow> (\<exists>t. quad_term c q = Some t \<and> quad_term d q = Some t)"
proof -
  have "quad_filter_value r (FEqColumn c d) = VBool True \<longleftrightarrow> (\<exists>e. component_col c r = Some e \<and> component_col d r = Some e)"
    by (auto split: option.splits)
  also have "\<dots> \<longleftrightarrow> (\<exists>t. quad_term c q = Some t \<and> quad_term d q = Some t)"
    using encodesD(2) [OF r] ok unfolding encodes_cell [OF r ok] code_ok_def by metis
  finally show ?thesis .
qed

lemma repeated_variables_correct:
  assumes r: "encodes code q r" and ok: "code_ok code"
  shows "quad_passes (filters_on_repeated_variables mode cps) r \<longleftrightarrow> (\<forall>v. terms_agree q (columns_of mode cps v))"
proof -
  let ?vs = "remdups (List.map_filter (\<lambda>(c, p). projected_name mode p) cps)"
  let ?fs = "\<lambda>v. case columns_of mode cps v of [] \<Rightarrow> [] | c # cs \<Rightarrow> map (FEqColumn c) cs"
  have one: "quad_passes (?fs v) r \<longleftrightarrow> terms_agree q (columns_of mode cps v)" for v
  proof (cases "columns_of mode cps v")
    case (Cons c cs)
    have "quad_passes (?fs v) r \<longleftrightarrow> (\<forall>d \<in> set cs. \<exists>t. quad_term c q = Some t \<and> quad_term d q = Some t)"
      unfolding quad_passes_def list_all_iff using eq_column_correct [OF r ok] by (simp add: Cons del: quad_filter_value.simps)
    then show ?thesis by (cases cs) (auto simp: Cons terms_agree_def)
  qed (simp add: quad_passes_def terms_agree_def)
  have out: "columns_of mode cps v = []" if "v \<notin> set ?vs" for v
  proof -
    have "set (columns_of mode cps v) = {}" using that unfolding columns_of_set by (force simp: List.map_filter_def)
    then show ?thesis by simp
  qed
  have "quad_passes (filters_on_repeated_variables mode cps) r \<longleftrightarrow> (\<forall>v \<in> set ?vs. quad_passes (?fs v) r)"
    unfolding filters_on_repeated_variables_def quad_passes_def list_all_iff by simp
  also have "\<dots> \<longleftrightarrow> (\<forall>v. terms_agree q (columns_of mode cps v))"
    unfolding one using out by (metis terms_agree_def list.size(3) zero_le)
  finally show ?thesis .
qed

text \<open>A quad is an instance exactly when the fixed terms are those of the quad and the places of a name agree.\<close>

lemma quad_instance_iff:
  assumes clash: "no_name_clash p"
  shows "(\<exists>m b. quad_instance p m b q) \<longleftrightarrow>
    (\<forall>(c, x) \<in> set (component_patterns p). \<forall>t. fixed_term (blank_node_mode p) x = Some t \<longrightarrow> quad_term c q = Some t) \<and>
    (\<forall>v. terms_agree q (columns_of (blank_node_mode p) (component_patterns p) v))" (is "?inst \<longleftrightarrow> ?fixed \<and> ?agree")
proof
  let ?mode = "blank_node_mode p" and ?cps = "component_patterns p"
  assume ?inst
  then obtain m b where mb: "\<And>c t. (c, Some t) \<in> set ?cps \<Longrightarrow> pattern_instance ?mode m b t = quad_term c q" unfolding quad_instance_def by blast
  have ?fixed
  proof (intro ballI, clarify)
    fix c x t assume "(c, x) \<in> set ?cps" "fixed_term ?mode x = Some t"
    then show "quad_term c q = Some t" using mb [of c "the x"] by (cases "(?mode, x)" rule: fixed_term.cases) (auto split: if_splits)
  qed
  moreover have ?agree
  proof
    fix v
    have sem: "\<exists>y. \<forall>c \<in> set (columns_of ?mode ?cps v). quad_term c q = y"
    proof (cases "\<exists>c. (c, Some (PVariable v)) \<in> set ?cps")
      case True
      have "quad_term c q = m v" if c: "c \<in> set (columns_of ?mode ?cps v)" for c
      proof -
        obtain x where x: "(c, x) \<in> set ?cps" "projected_name ?mode x = Some v" using c unfolding columns_of_set by blast
        have "x = Some (PVariable v)"
        proof (rule ccontr)
          assume "x \<noteq> Some (PVariable v)"
          then have bn: "x = Some (PBlankNode v)" "?mode = Match_Variable" using x(2) by (cases "(?mode, x)" rule: projected_name.cases; auto split: if_splits)+
          moreover have "Some (PVariable v) \<in> set (map snd ?cps)" "Some (PBlankNode v) \<in> set (map snd ?cps)" using True x(1) bn(1) by force+
          ultimately show False using clash unfolding no_name_clash_def by (metis BlankNodeMatchingMode.distinct(1))
        qed
        then show ?thesis using mb [of c "PVariable v"] x(1) by simp
      qed
      then show ?thesis by blast
    next
      case False
      have "quad_term c q = b v" if c: "c \<in> set (columns_of ?mode ?cps v)" for c
      proof -
        obtain x where x: "(c, x) \<in> set ?cps" "projected_name ?mode x = Some v" using c unfolding columns_of_set by blast
        then have "x = Some (PBlankNode v)" "?mode = Match_Variable" using False by (cases "(?mode, x)" rule: projected_name.cases; auto split: if_splits)+
        then show ?thesis using mb [of c "PBlankNode v"] x(1) by simp
      qed
      then show ?thesis by blast
    qed
    then obtain y where y: "\<forall>c \<in> set (columns_of ?mode ?cps v). quad_term c q = y" by blast
    have "\<exists>c \<in> set (columns_of ?mode ?cps v). c \<noteq> GraphName" if "1 < length (columns_of ?mode ?cps v)"
    proof -
      have "distinct (columns_of ?mode ?cps v)"
        by (simp add: component_patterns_def quad_components_def)
      then have "1 < card (set (columns_of ?mode ?cps v))" using that by (simp add: distinct_card)
      then show ?thesis by (metis card_1_singleton_iff card.empty less_one not_less_zero subset_singletonD subsetI singletonI less_irrefl One_nat_def)
    qed
    moreover have "quad_term c q \<noteq> None" if "c \<noteq> GraphName" for c using that by (cases c) auto
    ultimately show "terms_agree q (columns_of ?mode ?cps v)" unfolding terms_agree_def using y by (metis linorder_not_less option.exhaust)
  qed
  ultimately show "?fixed \<and> ?agree" ..
next
  let ?mode = "blank_node_mode p" and ?cps = "component_patterns p"
  assume fa: "?fixed \<and> ?agree"
  let ?m = "\<lambda>v. case columns_of ?mode ?cps v of [] \<Rightarrow> None | c # cs \<Rightarrow> quad_term c q"
  have m: "?m v = quad_term c q" if "(c, x) \<in> set ?cps" "projected_name ?mode x = Some v" for c x v
  proof -
    have "c \<in> set (columns_of ?mode ?cps v)" using that unfolding columns_of_set by blast
    moreover have "terms_agree q (columns_of ?mode ?cps v)" using fa by blast
    ultimately show ?thesis by (cases "columns_of ?mode ?cps v") (auto simp: terms_agree_def)
  qed
  have "pattern_instance ?mode ?m ?m t = quad_term c q" if "(c, Some t) \<in> set ?cps" for c t
  proof (cases t)
    case (PBlankNode bn)
    then show ?thesis using m [OF that, of bn] fa that by (cases ?mode) (auto dest!: bspec)
  qed (use m [OF that] fa that in \<open>auto dest!: bspec\<close>)
  then have "quad_instance p ?m ?m q" unfolding quad_instance_def by blast
  then show ?inst by blast
qed

lemma pattern_filters_correct:
  assumes ok: "code_ok code" and r: "encodes code q r" and clash: "no_name_clash p"
  shows "\<exists>fs. compute_quad_pattern_filters (\<lambda>t. Inr (code t)) p = Inr fs \<and> (quad_passes fs r \<longleftrightarrow> quad_matches p q)"
proof -
  let ?mode = "blank_node_mode p" and ?cps = "component_patterns p" and ?enc = "\<lambda>t. Inr (code t)"
  obtain f where f: "filter_active_graph ?enc (qp_active_graph p) = Inr f"
    "(case f of None \<Rightarrow> True | Some f \<Rightarrow> quad_filter_value r f = VBool True) \<longleftrightarrow> active_graph_matches (qp_active_graph p) (quad_graph_name q)"
    using filter_active_graph_correct [OF r ok] by blast
  obtain fs where fs: "filter_by_terms ?enc ?mode ?cps = Inr fs"
    "quad_passes fs r \<longleftrightarrow> (\<forall>(c, x) \<in> set ?cps. \<forall>t. fixed_term ?mode x = Some t \<longrightarrow> quad_term c q = Some t)"
    using filter_by_terms_correct [OF r ok] by blast
  let ?all = "(case f of None \<Rightarrow> [] | Some f \<Rightarrow> [f]) @ fs @ filters_on_repeated_variables ?mode ?cps"
  have "quad_passes ?all r \<longleftrightarrow> (case f of None \<Rightarrow> True | Some f \<Rightarrow> quad_filter_value r f = VBool True) \<and> quad_passes fs r \<and>
      quad_passes (filters_on_repeated_variables ?mode ?cps) r"
    by (cases f) (simp_all add: quad_passes_def)
  then have "quad_passes ?all r \<longleftrightarrow> quad_matches p q"
    unfolding f(2) fs(2) repeated_variables_correct [OF r ok] quad_matches_def quad_instance_iff [OF clash] .
  moreover have "compute_quad_pattern_filters ?enc p = Inr ?all" by (simp add: compute_quad_pattern_filters_def f(1) fs(1))
  ultimately show ?thesis by blast
qed

lemma filters_total: "\<exists>fs. compute_quad_pattern_filters (\<lambda>t. Inr (code t)) p = Inr fs"
proof -
  have "\<exists>f. filter_active_graph (\<lambda>t. Inr (code t)) ag = Inr f" for ag
  proof (cases ag)
    case (UnionGraphs gs)
    obtain ls where "union_literals (\<lambda>t. Inr (code t)) gs = Inr (ls, DefaultGraph \<in> set gs)" using union_literals_total [of code gs] by blast
    then show ?thesis by (simp add: UnionGraphs)
  qed simp_all
  moreover have "\<exists>fs. filter_by_terms (\<lambda>t. Inr (code t)) mode cps = Inr fs" for mode cps
    by (induction cps) (auto split: option.splits)
  ultimately show ?thesis unfolding compute_quad_pattern_filters_def by (metis and_then_simps(2) map_ok_simps(2))
qed

lemma pattern_filters_exist:
  assumes "code_ok code" "no_name_clash p"
  shows "\<exists>fs. compute_quad_pattern_filters (\<lambda>t. Inr (code t)) p = Inr fs \<and> (\<forall>q r. encodes code q r \<longrightarrow> quad_passes fs r = quad_matches p q)"
  using filters_total [of code p] pattern_filters_correct [OF assms(1) _ assms(2)] by (metis sum.inject(2))

section \<open>Solutions\<close>

lemma projected_names:
  "(c, n) \<in> set (projected_components mode cps seen) \<Longrightarrow> \<exists>x. (c, x) \<in> set cps \<and> projected_name mode x = Some n"
  by (induction mode cps seen rule: projected_components.induct) (auto split: option.splits if_splits)

lemma distinct_projected: "distinct (map snd (projected_components mode cps seen)) \<and> set (map snd (projected_components mode cps seen)) \<inter> set seen = {}"
  by (induction mode cps seen rule: projected_components.induct) (auto split: option.splits)

definition solution_cells :: "('l Term \<Rightarrow> 'e option) \<Rightarrow> 'l QuadPattern \<Rightarrow> (string \<Rightarrow> 'l Term option) \<Rightarrow> 'e option list" where
  "solution_cells code p m = map (\<lambda>n. Option.bind (m n) code) (map snd (compute_projected_components p))"

lemma projected_cells:
  assumes r: "encodes code q r" and m: "quad_instance p m m q"
  shows "map (\<lambda>(c, n). component_col c r) (compute_projected_components p) = solution_cells code p m"
proof -
  have "component_col c r = Option.bind (m n) code" if cn: "(c, n) \<in> set (compute_projected_components p)" for c n
  proof -
    obtain x where x: "(c, x) \<in> set (component_patterns p)" "projected_name (blank_node_mode p) x = Some n"
      using projected_names [OF cn [unfolded compute_projected_components_def]] by blast
    have "pattern_instance (blank_node_mode p) m m (the x) = m n" "x \<noteq> None"
      using x(2) by (cases "(blank_node_mode p, x)" rule: projected_name.cases; auto split: if_splits)+
    then have "m n = quad_term c q" using m x(1) unfolding quad_instance_def by fastforce
    then show ?thesis using encodesD [OF r, of c] by (cases "quad_term c q") auto
  qed
  then show ?thesis unfolding solution_cells_def by auto
qed

lemma quad_instanceI:
  "(\<And>c t. (c, Some t) \<in> set (component_patterns p) \<Longrightarrow> pattern_instance (blank_node_mode p) m b t = quad_term c q) \<Longrightarrow> quad_instance p m b q"
  by (auto simp: quad_instance_def)

lemma quad_instance_single:
  assumes clash: "no_name_clash p" and mb: "quad_instance p m b q"
  shows "\<exists>m. quad_instance p m m q"
proof -
  define M where "M = (\<lambda>n. if blank_node_mode p = Match_Variable \<and> Some (PBlankNode n) \<in> set (map snd (component_patterns p)) then b n else m n)"
  have "quad_instance p M M q"
  proof (rule quad_instanceI)
    fix c t assume t: "(c, Some t) \<in> set (component_patterns p)"
    have "pattern_instance (blank_node_mode p) M M t = pattern_instance (blank_node_mode p) m b t"
    proof (cases t)
      case (PVariable v)
      have "Some (PVariable v) \<in> set (map snd (component_patterns p))" using t PVariable by force
      then have "\<not> (blank_node_mode p = Match_Variable \<and> Some (PBlankNode v) \<in> set (map snd (component_patterns p)))"
        using clash unfolding no_name_clash_def by (metis BlankNodeMatchingMode.distinct(1))
      then have "M v = m v" unfolding M_def by (simp only: if_False)
      then show ?thesis by (simp add: PVariable)
    next
      case (PBlankNode bn)
      have "Some (PBlankNode bn) \<in> set (map snd (component_patterns p))" using t PBlankNode by force
      then have "blank_node_mode p = Match_Variable \<Longrightarrow> M bn = b bn" unfolding M_def by (simp only: HOL.simp_thms if_True)
      then show ?thesis by (cases "blank_node_mode p") (simp_all add: PBlankNode)
    qed simp_all
    also have "\<dots> = quad_term c q" using mb t unfolding quad_instance_def by blast
    finally show "pattern_instance (blank_node_mode p) M M t = quad_term c q" .
  qed
  then show ?thesis by (intro exI [of _ M])
qed

lemma pattern_rows:
  assumes clash: "no_name_clash p" and fs: "\<forall>q r. encodes code q r \<longrightarrow> quad_passes fs r = quad_matches p q"
    and R: "\<forall>r \<in> R. \<exists>q. encodes code q r"
  shows "(\<lambda>r. map (\<lambda>(c, n). component_col c r) (compute_projected_components p)) ` {r \<in> R. quad_passes fs r} =
    {solution_cells code p m | m q r. r \<in> R \<and> encodes code q r \<and> active_graph_matches (qp_active_graph p) (quad_graph_name q) \<and> quad_instance p m m q}"
    (is "?f ` ?A = ?B")
proof (intro equalityI subsetI)
  fix x assume "x \<in> ?f ` ?A"
  then obtain r where r: "x = ?f r" "r \<in> R" "quad_passes fs r" by blast
  then obtain q where q: "encodes code q r" using R by blast
  then have "quad_matches p q" using r(3) fs by blast
  then obtain m where "active_graph_matches (qp_active_graph p) (quad_graph_name q)" "quad_instance p m m q"
    using quad_instance_single [OF clash] unfolding quad_matches_def by blast
  then show "x \<in> ?B" using projected_cells [OF q, of p m] r q by blast
next
  fix x assume "x \<in> ?B"
  then obtain m q r where x: "x = solution_cells code p m" "r \<in> R" "encodes code q r"
    "active_graph_matches (qp_active_graph p) (quad_graph_name q)" "quad_instance p m m q" by blast
  then have "quad_passes fs r" using fs unfolding quad_matches_def by blast
  then show "x \<in> ?f ` ?A" using x(1,2) projected_cells [OF x(3,5)] by (metis (mono_tags, lifting) image_eqI mem_Collect_eq)
qed

text \<open>Without a clash of names, two assignments are one.\<close>

lemma quad_instance_answer:
  assumes "pattern_variables p \<subseteq> V" "blank_node_mode p = Match_Filter \<or> V \<inter> pattern_blank_nodes p = {}"
  shows "quad_instance p (answer_of V m b) (answer_of V m b) q \<longleftrightarrow> quad_instance p m b q"
proof -
  have "pattern_instance (blank_node_mode p) (answer_of V m b) (answer_of V m b) t = pattern_instance (blank_node_mode p) m b t"
    if "(c, Some t) \<in> set (component_patterns p)" for c t
  proof (cases t)
    case (PVariable v)
    then have "v \<in> V" using that assms(1) by (force simp: pattern_variables_def)
    then show ?thesis by (simp add: PVariable answer_of_def)
  next
    case (PBlankNode v)
    then have "v \<in> pattern_blank_nodes p" using that by (force simp: pattern_blank_nodes_def)
    then show ?thesis using assms(2) by (auto simp: PBlankNode answer_of_def)
  qed simp_all
  then show ?thesis unfolding quad_instance_def by fastforce
qed

lemma answer_of_same [simp]: "answer_of V m m = m"
  by (simp add: answer_of_def fun_eq_iff)

lemma pattern_rows_answers:
  assumes "no_name_clash p"
  shows "{solution_cells code p m | m q r. r \<in> R \<and> encodes code q r \<and> active_graph_matches (qp_active_graph p) (quad_graph_name q) \<and> quad_instance p m m q} =
    {solution_cells code p (answer_of (pattern_variables p) m b) | m b q r. r \<in> R \<and> encodes code q r \<and>
      active_graph_matches (qp_active_graph p) (quad_graph_name q) \<and> quad_instance p m b q}"
    (is "?A = ?B")
proof (intro equalityI subsetI)
  fix x assume "x \<in> ?A"
  then show "x \<in> ?B" by clarsimp (metis answer_of_same)
next
  have "blank_node_mode p = Match_Filter \<or> pattern_variables p \<inter> pattern_blank_nodes p = {}"
    using assms unfolding no_name_clash_def pattern_variables_def pattern_blank_nodes_def by blast
  note one = quad_instance_answer [OF subset_refl this]
  fix x assume "x \<in> ?B"
  then obtain m b q r where x: "x = solution_cells code p (answer_of (pattern_variables p) m b)" "r \<in> R" "encodes code q r"
    "active_graph_matches (qp_active_graph p) (quad_graph_name q)" "quad_instance p m b q" by blast
  then show "x \<in> ?A" using iffD2 [OF one x(5)] by blast
qed

section \<open>Projections of a node\<close>

lemma select_projections_ok: "list_all (\<lambda>i. i < length full) idx \<Longrightarrow> select_projections full idx = Inr (map ((!) full) idx)"
  by (induction idx) auto

lemma pattern_fields_names:
  "length fs = length cps \<Longrightarrow> schema_names (pattern_fields mode (zip (map snd cps) fs) seen) = map snd (projected_components mode cps seen)"
proof (induction cps arbitrary: fs seen)
  case (Cons cp cps)
  then obtain f fs' where "fs = f # fs'" "length fs' = length cps" by (auto simp: length_Suc_conv)
  then show ?case using Cons.IH [of fs'] by (cases cp) (simp add: schema_names_def split: option.split)
qed (simp add: schema_names_def)

lemma quad_pattern_schema_names:
  "length quad_schema = 4 \<Longrightarrow> schema_names (compute_quad_pattern_schema quad_schema p) = map snd (compute_projected_components p)"
  unfolding compute_quad_pattern_schema_def compute_schema_for_pattern_def compute_projected_components_def
  by (rule pattern_fields_names) (simp add: component_patterns_def quad_components_def)

text \<open>A first projection of a node is a projection of its rows.\<close>

lemma project_columns:
  "list_all (\<lambda>i. i < length (compute_projected_components p)) idx \<Longrightarrow>
    project_components_to_variables p (Some idx) rows =
    map_ok (\<lambda>(names, cells). (map ((!) names) idx, map (\<lambda>r. map ((!) r) idx) cells)) (project_components_to_variables p None rows)"
  by (auto simp: project_components_to_variables_def compute_projection_exprs_def select_projections_ok list_all_iff case_prod_beta)

section \<open>Properties\<close>

text \<open>C4: Answering a quad pattern from the Delta storage: the scan with the filters of the pattern, projected to its variables
  and blank nodes, returns exactly the encoded solutions of the pattern over the quads of the committed dataset, where a solution
  is an assignment of the variables and one of the blank nodes that make some quad of the active graph an instance of the pattern.
  Assumed: no blank node of the pattern has the name of one of its variables (with such a clash the scan is wrong, see
  blank_node_captures_variable); the encoding of terms is injective and every stored row encodes a quad; the log holds the
  committed transactions, the cache and the quad tables are valid, the snapshot is not inside a transaction, and the query engine
  runs its operators as documented.\<close>

theorem pattern_scan_correct:
  assumes "engine_ok E" "0 < n" "committed txns log b" "version s \<le> b" "cache_ok E n txns cache"
    and "\<forall>qt \<in> set (quad_tables s). table_ok txns (version s) qt" "transactional_changeset s = None"
    and "code_ok code" "no_name_clash p" "\<forall>r \<in> replay (history txns 0 (version s)) {}. \<exists>q. encodes code q r"
  shows "\<exists>fs rows cache' cells. compute_quad_pattern_filters (\<lambda>t. Inr (code t)) p = Inr fs \<and>
    plan_quad_pattern_scan E n (quad_passes fs) score log cache s = Inr (rows, cache') \<and>
    project_components_to_variables p None rows = Inr (map snd (compute_projected_components p), cells) \<and>
    set cells = {solution_cells code p (answer_of (pattern_variables p) m b) | m b q r. r \<in> replay (history txns 0 (version s)) {} \<and> encodes code q r \<and>
      active_graph_matches (qp_active_graph p) (quad_graph_name q) \<and> quad_instance p m b q}"
proof -
  obtain fs where fs: "compute_quad_pattern_filters (\<lambda>t. Inr (code t)) p = Inr fs" "\<forall>q r. encodes code q r \<longrightarrow> quad_passes fs r = quad_matches p q"
    using pattern_filters_exist [OF assms(8,9)] by blast
  obtain rows cache' where rows: "plan_quad_pattern_scan E n (quad_passes fs) score log cache s = Inr (rows, cache')"
    "set rows = {r \<in> replay (history txns 0 (version s)) {}. quad_passes fs r}"
    using plan_scan_correct_aux [OF assms(1-6), of "[]" "quad_passes fs" score] assms(7) by (auto simp: replay_def)
  let ?cells = "map (\<lambda>r. map (\<lambda>(c, n). component_col c r) (compute_projected_components p)) rows"
  have "set ?cells = {solution_cells code p (answer_of (pattern_variables p) m b) | m b q r. r \<in> replay (history txns 0 (version s)) {} \<and> encodes code q r \<and>
      active_graph_matches (qp_active_graph p) (quad_graph_name q) \<and> quad_instance p m b q}"
    unfolding set_map rows(2) pattern_rows_answers [OF assms(9), symmetric] by (rule pattern_rows [OF assms(9) fs(2) assms(10)])
  moreover have "project_components_to_variables p None rows = Inr (map snd (compute_projected_components p), ?cells)"
    by (simp add: project_components_to_variables_def compute_projection_exprs_def)
  ultimately show ?thesis using fs(1) rows(1) by blast
qed

text \<open>The components that a pattern reports as bound have one and the same value in all quads that match; the choice of a
  quad table by the bound components is therefore one by a common prefix of the rows.\<close>

theorem bound_components_fixed:
  "c \<in> set (bound_components p) \<Longrightarrow> \<exists>v. \<forall>q. quad_matches p q \<longrightarrow> quad_term c q = v"
proof -
  assume c: "c \<in> set (bound_components p)"
  have fixed: "\<exists>v. \<forall>q. quad_matches p q \<longrightarrow> quad_term d q = v" if "(d, Some x) \<in> set (component_patterns p)" "is_bound_to_single_value x (blank_node_mode p)" for d x
  proof -
    have "pattern_instance (blank_node_mode p) m b x = pattern_instance (blank_node_mode p) Map.empty Map.empty x" for m b using that(2) by (cases x) auto
    moreover have "\<exists>m b. pattern_instance (blank_node_mode p) m b x = quad_term d q" if "quad_matches p q" for q
      using that \<open>(d, Some x) \<in> _\<close> unfolding quad_matches_def quad_instance_def by blast
    ultimately show ?thesis by metis
  qed
  have graph: "\<exists>v. \<forall>q. quad_matches p q \<longrightarrow> quad_term GraphName q = v" if "is_bound_to_single_graph (qp_active_graph p)"
  proof -
    have "\<exists>g. \<forall>h. active_graph_matches (qp_active_graph p) h \<longrightarrow> h = g"
      using that by (cases "qp_active_graph p") (auto simp: length_Suc_conv)
    then show ?thesis unfolding quad_matches_def by (metis quad_term.simps(1))
  qed
  have places: "(Subject, Some (tp_subject (triple_pattern p))) \<in> set (component_patterns p)"
    "(Predicate, Some (term_pattern_of (tp_predicate (triple_pattern p)))) \<in> set (component_patterns p)"
    "(Object, Some (tp_object (triple_pattern p))) \<in> set (component_patterns p)"
    by (simp_all add: component_patterns_def quad_components_def)
  show ?thesis
  proof (cases c)
    case GraphName
    then show ?thesis using graph c by (simp add: bound_components_def split: if_splits)
  next
    case Subject
    then show ?thesis using fixed [OF places(1)] c by (simp add: bound_components_def split: if_splits)
  next
    case Predicate
    then show ?thesis using fixed [OF places(2)] c by (simp add: bound_components_def split: if_splits)
  next
    case Object
    then show ?thesis using fixed [OF places(3)] c by (simp add: bound_components_def split: if_splits)
  qed
qed

section \<open>Witnesses\<close>

definition demo_code :: "RefLiteral Term \<Rightarrow> nat option" where
  "demo_code t = (if t = NamedNode ''s'' then Some 4 else if t = NamedNode ''p'' then Some 2 else if t = NamedNode ''o'' then Some 3 else None)"

definition demo_pattern :: "RefLiteral QuadPattern" where
  "demo_pattern = \<lparr>qp_active_graph = ActiveDefaultGraph, graph_variable = None,
     triple_pattern = \<lparr>tp_subject = PVariable ''x'', tp_predicate = NNamedNode ''p'', tp_object = PVariable ''y''\<rparr>, blank_node_mode = Match_Variable\<rparr>"

definition spo :: "RefLiteral Quad" where
  "spo = \<lparr>quad_graph_name = DefaultGraph, quad_subject = NBNamedNode ''s'', quad_predicate = ''p'', quad_object = NamedNode ''o''\<rparr>"

lemma demo_code_ok: "code_ok demo_code"
  by (auto simp: code_ok_def demo_code_def split: if_splits)

lemma demo_encodes: "encodes demo_code spo (Delta_Properties.demo_quad None 4)"
proof -
  have "case quad_term c spo of None \<Rightarrow> component_col c (Delta_Properties.demo_quad None 4) = None
      | Some t \<Rightarrow> demo_code t \<noteq> None \<and> component_col c (Delta_Properties.demo_quad None 4) = demo_code t" for c
    by (cases c) (simp_all add: spo_def Delta_Properties.demo_quad_def demo_code_def)
  then show ?thesis unfolding encodes_def by blast
qed

lemma demo_no_clash: "no_name_clash demo_pattern"
  by (simp add: no_name_clash_def demo_pattern_def component_patterns_def quad_components_def)

lemma demo_replay: "replay (history demo_txns 0 2) {} = {Delta_Properties.demo_quad None 4}"
  by (auto simp: history_def upt_rec demo_txns_def txn_op_defs row_ops_def from_stored_def replay_def
      Delta_Properties.demo_quad_def graph_only_row_def)

theorem pattern_scan_correct_witness:
  "\<exists>fs rows cache' cells. compute_quad_pattern_filters (\<lambda>t. Inr (demo_code t)) demo_pattern = Inr fs \<and>
     plan_quad_pattern_scan ref_engine 1 (quad_passes fs) (\<lambda>_. 0) demo_log (\<lambda>_. None) demo_snapshot = Inr (rows, cache') \<and>
     project_components_to_variables demo_pattern None rows = Inr ([''x'', ''y''], cells) \<and> [Some 4, Some 3] \<in> set cells"
proof -
  have v: "version demo_snapshot = 2" "transactional_changeset demo_snapshot = None" "quad_tables demo_snapshot = [demo_table]"
    by (simp_all add: demo_snapshot_def)
  let ?m = "[''x'' \<mapsto> NamedNode ''s'', ''y'' \<mapsto> NamedNode ''o'']"
  have cells: "map snd (compute_projected_components demo_pattern) = [''x'', ''y'']" by code_simp
  have "quad_instance demo_pattern ?m ?m spo" "active_graph_matches (qp_active_graph demo_pattern) (quad_graph_name spo)"
    by (simp_all add: quad_instance_def demo_pattern_def component_patterns_def quad_components_def spo_def)
  moreover have "solution_cells demo_code demo_pattern ?m = [Some 4, Some 3]" unfolding solution_cells_def cells by (simp add: demo_code_def)
  moreover have r: "Delta_Properties.demo_quad None 4 \<in> replay (history demo_txns 0 (version demo_snapshot)) {}" by (simp add: v demo_replay)
  ultimately have sol: "[Some 4, Some 3] \<in> {solution_cells demo_code demo_pattern (answer_of (pattern_variables demo_pattern) m b) | m b q r. r \<in> replay (history demo_txns 0 (version demo_snapshot)) {} \<and>
      encodes demo_code q r \<and> active_graph_matches (qp_active_graph demo_pattern) (quad_graph_name q) \<and> quad_instance demo_pattern m b q}"
    using demo_encodes by (intro CollectI exI [of _ ?m] exI [of _ ?m] exI [of _ spo] exI [of _ "Delta_Properties.demo_quad None 4"]) simp
  have enc: "\<forall>r \<in> replay (history demo_txns 0 (version demo_snapshot)) {}. \<exists>q. encodes demo_code q r"
    unfolding v demo_replay using demo_encodes by blast
  have le: "version demo_snapshot \<le> 2" and tables: "\<forall>qt \<in> set (quad_tables demo_snapshot). table_ok demo_txns (version demo_snapshot) qt"
    by (simp_all add: v demo_table_ok)
  obtain fs rows cache' cells where w: "compute_quad_pattern_filters (\<lambda>t. Inr (demo_code t)) demo_pattern = Inr fs"
    "plan_quad_pattern_scan ref_engine 1 (quad_passes fs) (\<lambda>_. 0) demo_log (\<lambda>_. None) demo_snapshot = Inr (rows, cache')"
    "project_components_to_variables demo_pattern None rows = Inr (map snd (compute_projected_components demo_pattern), cells)"
    "set cells = {solution_cells demo_code demo_pattern (answer_of (pattern_variables demo_pattern) m b) | m b q r. r \<in> replay (history demo_txns 0 (version demo_snapshot)) {} \<and>
      encodes demo_code q r \<and> active_graph_matches (qp_active_graph demo_pattern) (quad_graph_name q) \<and> quad_instance demo_pattern m b q}"
    using pattern_scan_correct [OF ref_engine_ok zero_less_one demo_committed [of 2] le empty_cache_ok tables v(2) demo_code_ok demo_no_clash enc, where score = "\<lambda>_. 0"]
    by (elim exE conjE) (rule that)
  show ?thesis using w(1-3) sol unfolding w(4) [symmetric] cells by (intro exI conjI)
qed

section \<open>Names that clash, and projecting twice\<close>

text \<open>A blank node and a variable of the same name are matched as if they were one variable.\<close>

theorem blank_node_captures_variable:
  "\<exists>p (q :: RefLiteral Quad) r fs. quad_matches p q \<and> encodes demo_code q r \<and>
     compute_quad_pattern_filters (\<lambda>t. Inr (demo_code t)) p = Inr fs \<and> \<not> quad_passes fs r"
proof -
  let ?p = "demo_pattern\<lparr>triple_pattern := \<lparr>tp_subject = PBlankNode ''x'', tp_predicate = NNamedNode ''p'', tp_object = PVariable ''x''\<rparr>\<rparr>"
  have "quad_instance ?p [''x'' \<mapsto> NamedNode ''o''] [''x'' \<mapsto> NamedNode ''s''] spo"
    by (simp add: quad_instance_def demo_pattern_def component_patterns_def quad_components_def spo_def)
  then have "quad_matches ?p spo" by (auto simp: quad_matches_def demo_pattern_def spo_def)
  moreover have "map_ok (\<lambda>fs. quad_passes fs (Delta_Properties.demo_quad None 4)) (compute_quad_pattern_filters (\<lambda>t. Inr (demo_code t)) ?p) = Inr False"
    by code_simp
  ultimately show ?thesis using demo_encodes by (auto simp: map_ok_eq_Inr_iff)
qed

text \<open>The projection of a node refers to the columns of the pattern, but a second projection is computed from the columns that
  the first one left, and replaces it: the scan returns another column under the name that the schema announces.\<close>

definition demo_quad_schema :: "field list" where
  "demo_quad_schema = map (\<lambda>n. \<lparr>field_name = n, field_encoding = Some ObjectId, field_nullable = False\<rparr>) [''graph'', ''subject'', ''predicate'', ''object'']"

definition demo_node :: "RefLiteral QuadPatternNode" where
  "demo_node = quad_pattern_node_new demo_quad_schema ActiveDefaultGraph None
     \<lparr>tp_subject = PVariable ''s'', tp_predicate = NVariable ''p'', tp_object = PVariable ''o''\<rparr>"

theorem projection_twice_reads_wrong_column:
  "\<exists>node. and_then (with_projection demo_node [1, 2]) (\<lambda>n. with_projection n [1]) = Inr node \<and> schema_names (qn_schema node) = [''o''] \<and>
     scan_node (\<lambda>t. Inr (demo_code t)) [Delta_Properties.demo_quad None 4] node = Inr ([''p''], [[Some 2]])"
proof -
  have "map_ok (\<lambda>node. (schema_names (qn_schema node), scan_node (\<lambda>t. Inr (demo_code t)) [Delta_Properties.demo_quad None 4] node))
      (and_then (with_projection demo_node [1, 2]) (\<lambda>n. with_projection n [1])) = Inr ([''o''], Inr ([''p''], [[Some 2]]))"
    by code_simp
  then show ?thesis by (auto simp: map_ok_eq_Inr_iff)
qed

end
