(* ===== verification/Bgp_Query.thy ===== *)
theory Bgp_Query
  imports Decoding_Stream Quad_Pattern
begin

text \<open>
  Basic graph patterns over quads: \<open>create_bgp\<close> of
  \<open>lib/logical/src/logical_plan_builder_context.rs\<close> builds a node of quad patterns, the storage
  scans each of them and the planner joins the scans. Shown: the answers are the encoded solutions
  of the basic graph pattern, the assignments under which every triple pattern has a matching quad.
\<close>

section \<open>Building and answering a basic graph pattern\<close>

datatype ('l, 'e) BgpPlan =
    EmptySolution
  | SinglePattern "'l QuadPatternNode"
  | BgpPlan "('l QuadPatternNode, 'e) BgpNode"

definition create_bgp ::
    "field list \<Rightarrow> ActiveGraph \<Rightarrow> string option \<Rightarrow> 'l TriplePattern list \<Rightarrow> (BgpNodeCreationError, ('l, 'e) BgpPlan) result" where
  "create_bgp quad_schema ag g tps =
     (let logical_patterns = map (quad_pattern_node_new quad_schema ag g) tps
      in case logical_patterns of
           [] \<Rightarrow> Inr EmptySolution
         | [p] \<Rightarrow> Inr (SinglePattern p)
         | _ \<Rightarrow> map_ok BgpPlan (bgp_try_new qn_schema logical_patterns [] None []))"

text \<open>The scan of a pattern as an input of the planner.\<close>

fun scan_patterns :: "('l, 'e) encoder \<Rightarrow> 'e quad_row list \<Rightarrow> 'l QuadPatternNode list \<Rightarrow> (plan_error, 'e Exec list) result" where
  "scan_patterns enc rows [] = Inr []"
| "scan_patterns enc rows (node # ns) =
     and_then (scan_node enc rows node) (\<lambda>(names, cells). map_ok (Cons (Input (qn_schema node) cells)) (scan_patterns enc rows ns))"

fun answer_bgp ::
    "'e PhysicalLib \<Rightarrow> bool \<Rightarrow> ('l, 'e) encoder \<Rightarrow> 'e quad_row list \<Rightarrow> ('l, 'e) BgpPlan \<Rightarrow> (plan_error, string list \<times> 'e prow list) result" where
  "answer_bgp L use_oids enc rows EmptySolution = Inr ([], [[]])"
| "answer_bgp L use_oids enc rows (SinglePattern node) = scan_node enc rows node"
| "answer_bgp L use_oids enc rows (BgpPlan bgp) =
     and_then (scan_patterns enc rows (patterns bgp)) (\<lambda>inputs.
       map_ok (\<lambda>e. (schema_names (exec_schema e), run L e)) (plan_extension L use_oids bgp inputs))"

definition quad_pattern_of :: "ActiveGraph \<Rightarrow> string option \<Rightarrow> 'l TriplePattern \<Rightarrow> 'l QuadPattern" where
  "quad_pattern_of ag g tp = \<lparr>qp_active_graph = ag, graph_variable = g, triple_pattern = tp, blank_node_mode = Match_Variable\<rparr>"

section \<open>Solutions\<close>

definition pattern_names :: "'l QuadPattern \<Rightarrow> string list" where
  "pattern_names p = map snd (compute_projected_components p)"

text \<open>An assignment of the variables and one of the blank nodes solve a pattern over the stored quads.\<close>

definition solves_pattern ::
    "('l Term \<Rightarrow> 'e option) \<Rightarrow> 'e quad_row set \<Rightarrow> (string \<Rightarrow> 'l Term option) \<Rightarrow> (string \<Rightarrow> 'l Term option) \<Rightarrow> 'l QuadPattern \<Rightarrow> bool" where
  "solves_pattern code R m b p \<longleftrightarrow>
     (\<exists>r \<in> R. \<exists>q. encodes code q r \<and> active_graph_matches (qp_active_graph p) (quad_graph_name q) \<and> quad_instance p m b q)"

text \<open>No blank node of any pattern has the name of a variable of any pattern.\<close>

definition query_variables :: "'l QuadPattern list \<Rightarrow> string set" where
  "query_variables ps = (\<Union>p \<in> set ps. pattern_variables p)"

definition no_query_clash :: "'l QuadPattern list \<Rightarrow> bool" where
  "no_query_clash ps \<longleftrightarrow> (\<forall>p \<in> set ps. query_variables ps \<inter> pattern_blank_nodes p = {})"

text \<open>Then one assignment does for both.\<close>

definition solves_with :: "('l Term \<Rightarrow> 'e option) \<Rightarrow> 'e quad_row set \<Rightarrow> (string \<Rightarrow> 'l Term option) \<Rightarrow> 'l QuadPattern \<Rightarrow> bool" where
  "solves_with code R m p \<longleftrightarrow> (\<exists>r \<in> R. \<exists>q. encodes code q r \<and> active_graph_matches (qp_active_graph p) (quad_graph_name q) \<and> quad_instance p m m q)"

lemma solves_answer:
  assumes "no_query_clash ps" "p \<in> set ps"
  shows "solves_with code R (answer_of (query_variables ps) m b) p \<longleftrightarrow> solves_pattern code R m b p"
proof -
  have "pattern_variables p \<subseteq> query_variables ps" "query_variables ps \<inter> pattern_blank_nodes p = {}"
    using assms by (auto simp: query_variables_def no_query_clash_def)
  then show ?thesis unfolding solves_with_def solves_pattern_def by (simp add: quad_instance_answer)
qed

lemma no_query_clash_single: "no_query_clash ps \<Longrightarrow> p \<in> set ps \<Longrightarrow> no_name_clash p"
  unfolding no_query_clash_def no_name_clash_def query_variables_def pattern_variables_def pattern_blank_nodes_def by blast

lemma query_answers:
  assumes "no_query_clash ps"
  shows "{f m | m. \<forall>p \<in> set ps. solves_with code R m p} =
    {f (answer_of (query_variables ps) m b) | m b. \<forall>p \<in> set ps. solves_pattern code R m b p}" (is "?A = ?B")
proof (intro equalityI subsetI)
  fix x assume "x \<in> ?A"
  then obtain m where m: "x = f m" "\<forall>p \<in> set ps. solves_with code R m p" by blast
  then have "\<forall>p \<in> set ps. solves_pattern code R m m p" by (simp add: solves_with_def solves_pattern_def)
  then show "x \<in> ?B" using m(1) by clarsimp (metis answer_of_same)
next
  fix x assume "x \<in> ?B"
  then show "x \<in> ?A" using solves_answer [OF assms] by blast
qed

definition encoded_solution :: "('l Term \<Rightarrow> 'e option) \<Rightarrow> string set \<Rightarrow> (string \<Rightarrow> 'l Term option) \<Rightarrow> 'e sol" where
  "encoded_solution code N m = (\<lambda>n. if n \<in> N then Option.bind (m n) code else None)"

lemma projected_cover:
  "(c, x) \<in> set cps \<Longrightarrow> projected_name mode x = Some n \<Longrightarrow> n \<in> set (map snd (projected_components mode cps seen)) \<or> n \<in> set seen"
  by (induction mode cps seen rule: projected_components.induct) (auto split: option.splits)

lemma pattern_names_set: "set (pattern_names p) = {n. \<exists>c x. (c, x) \<in> set (component_patterns p) \<and> projected_name (blank_node_mode p) x = Some n}"
proof -
  have "\<exists>c x. (c, x) \<in> set (component_patterns p) \<and> projected_name (blank_node_mode p) x = Some n" if "n \<in> set (pattern_names p)" for n
    using that projected_names unfolding pattern_names_def compute_projected_components_def by fastforce
  moreover have "n \<in> set (pattern_names p)" if "(c, x) \<in> set (component_patterns p)" "projected_name (blank_node_mode p) x = Some n" for n c x
    using projected_cover [OF that, of "[]"] by (simp add: pattern_names_def compute_projected_components_def)
  ultimately show ?thesis by blast
qed

text \<open>Only the names of a pattern matter, and on an instance they are bound, except for a graph variable on the default graph.\<close>

lemma instance_names:
  assumes "(c, Some t) \<in> set (component_patterns p)" "\<forall>n \<in> set (pattern_names p). m n = m' n"
  shows "pattern_instance (blank_node_mode p) m m t = pattern_instance (blank_node_mode p) m' m' t"
proof -
  have "m n = m' n" if "projected_name (blank_node_mode p) (Some t) = Some n" for n
    using assms that unfolding pattern_names_set by blast
  then show ?thesis by (cases t; cases "blank_node_mode p") simp_all
qed

lemma quad_instance_cong:
  assumes "\<forall>n \<in> set (pattern_names p). m n = m' n" "quad_instance p m m q"
  shows "quad_instance p m' m' q"
proof (rule quad_instanceI)
  fix c t assume "(c, Some t) \<in> set (component_patterns p)"
  then show "pattern_instance (blank_node_mode p) m' m' t = quad_term c q"
    using instance_names [OF _ assms(1)] assms(2) unfolding quad_instance_def by fastforce
qed

lemma solves_with_cong: "\<forall>n \<in> set (pattern_names p). m n = m' n \<Longrightarrow> solves_with code R m p \<Longrightarrow> solves_with code R m' p"
  unfolding solves_with_def using quad_instance_cong [of p m m'] by blast

lemma solution_bound:
  assumes g: "graph_variable p = None \<or> \<not> active_graph_matches (qp_active_graph p) DefaultGraph"
    and m: "solves_with code R m p" and n: "n \<in> set (pattern_names p)"
  shows "\<exists>t e. m n = Some t \<and> code t = Some e"
proof -
  obtain r q where q: "encodes code q r" "active_graph_matches (qp_active_graph p) (quad_graph_name q)" "quad_instance p m m q"
    using m unfolding solves_with_def by blast
  obtain c x where x: "(c, x) \<in> set (component_patterns p)" "projected_name (blank_node_mode p) x = Some n" using n unfolding pattern_names_set by blast
  obtain t where t: "x = Some t" "pattern_instance (blank_node_mode p) m m t = m n"
    using x(2) by (cases "(blank_node_mode p, x)" rule: projected_name.cases) (auto split: if_splits)
  then have mn: "m n = quad_term c q" using q(3) x(1) unfolding quad_instance_def by fastforce
  have "quad_term c q \<noteq> None"
  proof (cases c)
    case GraphName
    then have "graph_variable p \<noteq> None" using x(1) t(1) by (cases "graph_variable p") (auto simp: component_patterns_def quad_components_def)
    then have "quad_graph_name q \<noteq> DefaultGraph" using g q(2) by auto
    then show ?thesis using GraphName by (cases "quad_graph_name q") auto
  qed simp_all
  then show ?thesis using encodesD(2) [OF q(1), of c] mn by fastforce
qed

section \<open>Joining solutions\<close>

lemma mem_bgp_join:
  assumes "\<forall>r \<in> set rs. \<forall>a. a \<in># snd r \<longrightarrow> dom a = fst r"
  shows "x \<in># snd (bgp_join rs) \<longleftrightarrow> dom x = fst (bgp_join rs) \<and> (\<forall>r \<in> set rs. x |` fst r \<in># snd r)"
  using assms
proof (induction rs arbitrary: x)
  case (Cons r rs)
  let ?N = "fst r" and ?M = "fst (bgp_join rs)"
  have IH: "y \<in># snd (bgp_join rs) \<longleftrightarrow> dom y = ?M \<and> (\<forall>r \<in> set rs. y |` fst r \<in># snd r)" for y using Cons by simp
  have sub: "fst q \<subseteq> ?M" if "q \<in> set rs" for q using that unfolding fst_bgp_join by blast
  have "x \<in># snd (bgp_join (r # rs)) \<longleftrightarrow> (\<exists>a b. a \<in># snd r \<and> b \<in># snd (bgp_join rs) \<and> agree (?N \<inter> ?M) a b \<and> x = a ++ b)"
    by (auto simp: njoin_def in_mbind split: if_splits)
  also have "\<dots> \<longleftrightarrow> dom x = ?N \<union> ?M \<and> x |` ?N \<in># snd r \<and> x |` ?M \<in># snd (bgp_join rs)"
  proof (intro iffI; (elim exE conjE)?)
    fix a b assume ab: "a \<in># snd r" "b \<in># snd (bgp_join rs)" "agree (?N \<inter> ?M) a b" "x = a ++ b"
    have dom: "dom a = ?N" "dom b = ?M" using Cons.prems ab(1,2) IH by auto
    have "x |` ?N = a" "x |` ?M = b"
      using add_agree [OF ab(3)] add_agree_right [OF _ _ ab(3)] dom by (auto simp: ab(4) restrict_map_def fun_eq_iff) (blast intro: sym)+
    then show "dom x = ?N \<union> ?M \<and> x |` ?N \<in># snd r \<and> x |` ?M \<in># snd (bgp_join rs)" using ab dom by auto
  next
    assume x: "dom x = ?N \<union> ?M" "x |` ?N \<in># snd r" "x |` ?M \<in># snd (bgp_join rs)"
    have "agree (?N \<inter> ?M) (x |` ?N) (x |` ?M)" using x(1) by (auto simp: agree_def)
    moreover have "x = x |` ?N ++ x |` ?M" using x(1) by (auto simp: map_add_def restrict_map_def fun_eq_iff split: option.split)
    ultimately show "\<exists>a b. a \<in># snd r \<and> b \<in># snd (bgp_join rs) \<and> agree (?N \<inter> ?M) a b \<and> x = a ++ b" using x(2,3) by blast
  qed
  also have "\<dots> \<longleftrightarrow> dom x = fst (bgp_join (r # rs)) \<and> (\<forall>q \<in> set (r # rs). x |` fst q \<in># snd q)"
  proof -
    have "x |` ?M |` fst q = x |` fst q" if "q \<in> set rs" for q using sub [OF that] by (simp add: inf.absorb2)
    then show ?thesis unfolding IH by auto
  qed
  finally show ?case .
qed (auto simp: dom_def fun_eq_iff)

section \<open>Scans as inputs of the planner\<close>

text \<open>What the planner relies on in a scan: the schema has the names of the pattern, and the rows are its encoded solutions.\<close>

definition scan_wf :: "('l Term \<Rightarrow> 'e option) \<Rightarrow> 'e quad_row set \<Rightarrow> 'l QuadPattern \<Rightarrow> 'e Exec \<Rightarrow> bool" where
  "scan_wf code R p e \<longleftrightarrow> (\<exists>s rows. e = Input s rows \<and> schema_names s = pattern_names p \<and>
     set rows = {map (\<lambda>n. Option.bind (m n) code) (pattern_names p) | m. solves_with code R m p})"

lemma scan_node_correct:
  assumes code: "code_ok code" and clash: "no_name_clash (quad_pattern_of ag g tp)" and R: "\<forall>r \<in> set rows. \<exists>q. encodes code q r"
  shows "\<exists>cells. scan_node (\<lambda>t. Inr (code t)) rows (quad_pattern_node_new quad_schema ag g tp) = Inr (pattern_names (quad_pattern_of ag g tp), cells) \<and>
    set cells = {map (\<lambda>n. Option.bind (m n) code) (pattern_names (quad_pattern_of ag g tp)) | m. solves_with code (set rows) m (quad_pattern_of ag g tp)}"
proof -
  let ?p = "quad_pattern_of ag g tp"
  obtain fs where fs: "compute_quad_pattern_filters (\<lambda>t. Inr (code t)) ?p = Inr fs" "\<forall>q r. encodes code q r \<longrightarrow> quad_passes fs r = quad_matches ?p q"
    using pattern_filters_exist [OF code clash] by blast
  let ?cells = "map (\<lambda>r. map (\<lambda>(c, n). component_col c r) (compute_projected_components ?p)) (filter (quad_passes fs) rows)"
  have "set ?cells = {solution_cells code ?p m | m q r. r \<in> set rows \<and> encodes code q r \<and>
      active_graph_matches (qp_active_graph ?p) (quad_graph_name q) \<and> quad_instance ?p m m q}"
    using pattern_rows [OF clash fs(2) R] by (simp add: setcompr_eq_image [symmetric] Setcompr_eq_image)
  also have "\<dots> = {map (\<lambda>n. Option.bind (m n) code) (pattern_names ?p) | m. solves_with code (set rows) m ?p}"
    unfolding solution_cells_def solves_with_def pattern_names_def by blast
  finally have "set ?cells = {map (\<lambda>n. Option.bind (m n) code) (pattern_names ?p) | m. solves_with code (set rows) m ?p}" .
  moreover have "scan_node (\<lambda>t. Inr (code t)) rows (quad_pattern_node_new quad_schema ag g tp) = Inr (pattern_names ?p, ?cells)"
    using fs(1) by (simp add: scan_node_def quad_pattern_node_new_def quad_pattern_of_def Let_def project_components_to_variables_def
        compute_projection_exprs_def pattern_names_def)
  ultimately show ?thesis by blast
qed

lemma node_schema_names: "length quad_schema = 4 \<Longrightarrow> schema_names (qn_schema (quad_pattern_node_new quad_schema ag g tp)) = pattern_names (quad_pattern_of ag g tp)"
  by (simp add: quad_pattern_node_new_def Let_def quad_pattern_schema_names pattern_names_def quad_pattern_of_def)

lemma scan_patterns_correct:
  assumes code: "code_ok code" and R: "\<forall>r \<in> set rows. \<exists>q. encodes code q r" and qs: "length quad_schema = 4"
  shows "\<forall>tp \<in> set tps. no_name_clash (quad_pattern_of ag g tp) \<Longrightarrow>
    \<exists>es. scan_patterns (\<lambda>t. Inr (code t)) rows (map (quad_pattern_node_new quad_schema ag g) tps) = Inr es \<and>
      map exec_schema es = map (\<lambda>tp. qn_schema (quad_pattern_node_new quad_schema ag g tp)) tps \<and>
      list_all2 (\<lambda>e tp. scan_wf code (set rows) (quad_pattern_of ag g tp) e) es tps"
proof (induction tps)
  case (Cons tp tps)
  obtain cells where c: "scan_node (\<lambda>t. Inr (code t)) rows (quad_pattern_node_new quad_schema ag g tp) = Inr (pattern_names (quad_pattern_of ag g tp), cells)"
    "set cells = {map (\<lambda>n. Option.bind (m n) code) (pattern_names (quad_pattern_of ag g tp)) | m. solves_with code (set rows) m (quad_pattern_of ag g tp)}"
    using scan_node_correct [OF code _ R, of ag g tp quad_schema] Cons.prems by auto
  obtain es where es: "scan_patterns (\<lambda>t. Inr (code t)) rows (map (quad_pattern_node_new quad_schema ag g) tps) = Inr es"
    "map exec_schema es = map (\<lambda>tp. qn_schema (quad_pattern_node_new quad_schema ag g tp)) tps"
    "list_all2 (\<lambda>e tp. scan_wf code (set rows) (quad_pattern_of ag g tp) e) es tps" using Cons by auto
  have "scan_wf code (set rows) (quad_pattern_of ag g tp) (Input (qn_schema (quad_pattern_node_new quad_schema ag g tp)) cells)"
    using c(2) node_schema_names [OF qs, of ag g tp] unfolding scan_wf_def by blast
  then show ?case using c(1) es by simp
qed simp

lemma scan_rel:
  assumes "scan_wf code R p e"
  shows "fst (rel_of L e) = set (pattern_names p)"
    and "a \<in># snd (rel_of L e) \<longleftrightarrow> (\<exists>m. solves_with code R m p \<and> a = encoded_solution code (set (pattern_names p)) m)"
proof -
  obtain s rows where e: "e = Input s rows" "schema_names s = pattern_names p"
    "set rows = {map (\<lambda>n. Option.bind (m n) code) (pattern_names p) | m. solves_with code R m p}" using assms unfolding scan_wf_def by blast
  show "fst (rel_of L e) = set (pattern_names p)" by (simp add: rel_of_def e(1,2))
  have d: "distinct (schema_names s)" using distinct_projected unfolding e(2) pattern_names_def compute_projected_components_def by blast
  have "env s (map (\<lambda>n. Option.bind (m n) code) (pattern_names p)) = encoded_solution code (set (pattern_names p)) m" for m
  proof
    fix n
    show "env s (map (\<lambda>n. Option.bind (m n) code) (pattern_names p)) n = encoded_solution code (set (pattern_names p)) m n"
    proof (cases "n \<in> set (pattern_names p)")
      case True
      then obtain i where i: "i < length s" "field_name (s ! i) = n" using in_schema_names [of n s] e(2) by auto
      moreover have "pattern_names p ! i = n" using i nth_schema_names [of i s] e(2) by simp
      moreover have "length (pattern_names p) = length s" using arg_cong [OF e(2), of length] by simp
      ultimately show ?thesis using env_nth [OF d i(1), of "map (\<lambda>n. Option.bind (m n) code) (pattern_names p)"] True by (simp add: encoded_solution_def)
    qed (simp add: encoded_solution_def env_outside e(2))
  qed
  then have "env s ` set rows = {encoded_solution code (set (pattern_names p)) m | m. solves_with code R m p}"
    unfolding e(3) by (auto simp: image_iff) metis+
  then show "a \<in># snd (rel_of L e) \<longleftrightarrow> (\<exists>m. solves_with code R m p \<and> a = encoded_solution code (set (pattern_names p)) m)"
    by (simp add: rel_of_def e(1)) blast
qed

text \<open>The join of scans: the encoded assignments that solve all patterns.\<close>

lemma joined_solutions:
  assumes code: "code_ok code" and wf: "list_all2 (\<lambda>e p. scan_wf code R p e) es ps"
    and bound: "\<forall>p \<in> set ps. graph_variable p = None \<or> \<not> active_graph_matches (qp_active_graph p) DefaultGraph"
  shows "set_mset (snd (bgp_join (map (rel_of L) es))) =
    {encoded_solution code (\<Union>p \<in> set ps. set (pattern_names p)) m | m. \<forall>p \<in> set ps. solves_with code R m p}"
proof -
  let ?N = "\<Union>p \<in> set ps. set (pattern_names p)" and ?rs = "map (rel_of L) es"
  have len: "length es = length ps" using wf by (rule list_all2_lengthD)
  have nth: "scan_wf code R (ps ! i) (es ! i)" if "i < length ps" for i using list_all2_nthD2 [OF wf that] by simp
  have N: "fst (bgp_join ?rs) = ?N"
  proof -
    have "fst (rel_of L (es ! i)) = set (pattern_names (ps ! i))" if "i < length ps" for i by (rule scan_rel(1) [OF nth [OF that]])
    then have "map (\<lambda>e. fst (rel_of L e)) es = map (\<lambda>p. set (pattern_names p)) ps" using len by (intro nth_equalityI) simp_all
    from arg_cong [OF this, of "\<lambda>xs. \<Union> (set xs)"] show ?thesis by (simp add: fst_bgp_join image_image)
  qed
  have dom_sol: "dom (encoded_solution code M m) = M" if "\<And>n. n \<in> M \<Longrightarrow> \<exists>t e. m n = Some t \<and> code t = Some e" for M m
    using that by (fastforce simp: encoded_solution_def dom_def split: if_splits)
  have doms: "\<forall>r \<in> set ?rs. \<forall>a. a \<in># snd r \<longrightarrow> dom a = fst r"
  proof (intro ballI allI impI)
    fix r a assume "r \<in> set ?rs" "a \<in># snd r"
    then obtain i where i: "i < length ps" "r = rel_of L (es ! i)" "a \<in># snd (rel_of L (es ! i))" using len by (auto simp: in_set_conv_nth)
    then obtain m where m: "solves_with code R m (ps ! i)" "a = encoded_solution code (set (pattern_names (ps ! i))) m"
      using scan_rel(2) [OF nth] by blast
    then show "dom a = fst r" using dom_sol solution_bound [OF _ m(1)] bound i(1) unfolding i(2) scan_rel(1) [OF nth [OF i(1)]] by simp
  qed
  have mem: "x \<in># snd (bgp_join ?rs) \<longleftrightarrow> dom x = ?N \<and> (\<forall>i < length ps. x |` set (pattern_names (ps ! i)) \<in># snd (rel_of L (es ! i)))" for x
    unfolding mem_bgp_join [OF doms] N by (simp add: all_set_conv_all_nth len scan_rel(1) [OF nth])
  show ?thesis
  proof (intro equalityI subsetI)
    fix x assume "x \<in># snd (bgp_join ?rs)"
    note joined = this [unfolded mem]
    have x: "dom x = ?N" "\<And>i. i < length ps \<Longrightarrow> \<exists>m. solves_with code R m (ps ! i) \<and>
        x |` set (pattern_names (ps ! i)) = encoded_solution code (set (pattern_names (ps ! i))) m"
      using joined scan_rel(2) [OF nth] by simp_all
    define M where "M = (\<lambda>n. map_option (\<lambda>e. SOME t. code t = Some e) (x n))"
    have dec: "code t = Some e \<Longrightarrow> (SOME t. code t = Some e) = t" for t e using code unfolding code_ok_def by (metis (mono_tags, lifting) someI_ex)
    have M: "M n = m n \<and> x n = Option.bind (m n) code" if i: "i < length ps" and m: "solves_with code R m (ps ! i)"
      "x |` set (pattern_names (ps ! i)) = encoded_solution code (set (pattern_names (ps ! i))) m" and n: "n \<in> set (pattern_names (ps ! i))" for i m n
    proof -
      obtain t e where t: "m n = Some t" "code t = Some e" using solution_bound [OF _ m(1) n] bound i by (metis nth_mem)
      moreover have "x n = Some e" using fun_cong [OF m(2), of n] n t by (simp add: encoded_solution_def restrict_map_def)
      ultimately show ?thesis using dec [OF t(2)] by (simp add: M_def)
    qed
    have "solves_with code R M p" if "p \<in> set ps" for p
    proof -
      obtain i where i: "i < length ps" "p = ps ! i" using \<open>p \<in> set ps\<close> by (auto simp: in_set_conv_nth)
      obtain m where m: "solves_with code R m (ps ! i)" "x |` set (pattern_names (ps ! i)) = encoded_solution code (set (pattern_names (ps ! i))) m"
        using x(2) [OF i(1)] by blast
      have "\<forall>n \<in> set (pattern_names (ps ! i)). m n = M n" using M [OF i(1) m] by simp
      then show ?thesis using solves_with_cong [OF _ m(1)] i(2) by simp
    qed
    moreover have "x = encoded_solution code ?N M"
    proof
      fix n
      show "x n = encoded_solution code ?N M n"
      proof (cases "n \<in> ?N")
        case True
        then obtain p where "p \<in> set ps" "n \<in> set (pattern_names p)" by blast
        then obtain i where i: "i < length ps" "n \<in> set (pattern_names (ps ! i))" by (metis in_set_conv_nth)
        obtain m where m: "solves_with code R m (ps ! i)" "x |` set (pattern_names (ps ! i)) = encoded_solution code (set (pattern_names (ps ! i))) m"
          using x(2) [OF i(1)] by blast
        then show ?thesis using M [OF i(1) m i(2)] True by (simp add: encoded_solution_def)
      next
        case False
        then have "x n = None" using x(1) by (metis domIff)
        then show ?thesis using False by (simp add: encoded_solution_def)
      qed
    qed
    ultimately show "x \<in> {encoded_solution code ?N m | m. \<forall>p \<in> set ps. solves_with code R m p}" by blast
  next
    fix x assume "x \<in> {encoded_solution code ?N m | m. \<forall>p \<in> set ps. solves_with code R m p}"
    then obtain m where m: "x = encoded_solution code ?N m" "\<forall>p \<in> set ps. solves_with code R m p" by blast
    have "\<exists>t e. m n = Some t \<and> code t = Some e" if "n \<in> ?N" for n using that m(2) solution_bound [of _ code R m n] bound by blast
    then have "dom x = ?N" unfolding m(1) by (rule dom_sol)
    moreover have "x |` set (pattern_names (ps ! i)) \<in># snd (rel_of L (es ! i))" if "i < length ps" for i
    proof -
      have "x |` set (pattern_names (ps ! i)) = encoded_solution code (set (pattern_names (ps ! i))) m"
        using that by (auto simp: m(1) encoded_solution_def restrict_map_def fun_eq_iff)
      then show ?thesis using scan_rel(2) [OF nth [OF that]] m(2) that by auto
    qed
    ultimately show "x \<in># snd (bgp_join ?rs)" using mem by blast
  qed
qed

section \<open>Answers of a basic graph pattern\<close>

lemma bgp_try_new_plain:
  "bgp_try_new schema_of ps [] None [] =
    Inr \<lparr>patterns = ps, bgp_schema = merge_schemas (map schema_of ps), filters = [], projection = None, columns_to_decode = []\<rparr>"
  by (simp add: bgp_try_new_def extract_referenced_columns_if_object_id_def btree_set_def validate_columns_to_decode_def compute_schema_def Let_def)

lemma pattern_fields_encoding: "f \<in> set (pattern_fields mode pfs seen) \<Longrightarrow> \<exists>f0 \<in> set (map snd pfs). field_encoding f = field_encoding f0"
  by (induction mode pfs seen rule: pattern_fields.induct) (auto split: option.splits if_splits)

lemma node_schema_encoding:
  assumes "\<forall>f \<in> set quad_schema. field_encoding f = Some k" "f \<in> set (qn_schema (quad_pattern_node_new quad_schema ag g tp))"
  shows "field_encoding f = Some k"
proof -
  have "f \<in> set (pattern_fields Match_Variable (zip (map snd (component_patterns (quad_pattern_of ag g tp))) quad_schema) [])"
    using assms(2) by (simp add: quad_pattern_node_new_def quad_pattern_of_def Let_def compute_quad_pattern_schema_def compute_schema_for_pattern_def)
  from pattern_fields_encoding [OF this] obtain f0 where "f0 \<in> set quad_schema" "field_encoding f = field_encoding f0"
    by (auto dest: set_zip_rightD)
  then show ?thesis using assms(1) by simp
qed

lemma scan_input_wf:
  assumes "scan_wf code R p e" "\<forall>f \<in> set (exec_schema e). field_encoding f = Some k"
    and "\<forall>s xs. \<exists>st. compute_statistics L (Input s xs) = Inr st \<and> (num_rows st = Exact 0 \<longrightarrow> xs = [])"
  shows "input_wf L (\<lambda>n. Some k) e"
proof -
  obtain s rows where e: "e = Input s rows" "schema_names s = pattern_names p"
    "set rows = {map (\<lambda>n. Option.bind (m n) code) (pattern_names p) | m. solves_with code R m p}" using assms(1) unfolding scan_wf_def by blast
  have "distinct (schema_names s)" using distinct_projected unfolding e(2) pattern_names_def compute_projected_components_def by blast
  moreover have "length row = length s" if "row \<in> set rows" for row using that e(3) arg_cong [OF e(2), of length] by auto
  ultimately show ?thesis using assms(2,3) by (simp add: input_wf_def e(1))
qed

lemma planned_query_correct:
  assumes L: "physical_ok L" and code: "code_ok code" and R: "\<forall>r \<in> set rows. \<exists>q. encodes code q r"
    and qs: "length quad_schema = 4" "\<forall>f \<in> set quad_schema. field_encoding f = Some k" and oid: "use_oids \<or> k \<noteq> ObjectId"
    and st: "\<forall>s xs. \<exists>st. compute_statistics L (Input s xs) = Inr st \<and> (num_rows st = Exact 0 \<longrightarrow> xs = [])"
    and clash: "\<forall>tp \<in> set tps. no_name_clash (quad_pattern_of ag g tp)" and g: "g = None \<or> \<not> active_graph_matches ag DefaultGraph"
    and ne: "tps \<noteq> []" and bgp: "bgp_try_new qn_schema (map (quad_pattern_node_new quad_schema ag g) tps) [] None [] = Inr bgp"
  shows "\<exists>names cells. answer_bgp L use_oids (\<lambda>t. Inr (code t)) rows (BgpPlan bgp) = Inr (names, cells) \<and>
    set names = (\<Union>tp \<in> set tps. set (pattern_names (quad_pattern_of ag g tp))) \<and>
    set cells = {map (\<lambda>n. Option.bind (m n) code) names | m. \<forall>tp \<in> set tps. solves_with code (set rows) m (quad_pattern_of ag g tp)}"
proof -
  let ?node = "quad_pattern_node_new quad_schema ag g" and ?N = "\<Union>tp \<in> set tps. set (pattern_names (quad_pattern_of ag g tp))"
  obtain es where es: "scan_patterns (\<lambda>t. Inr (code t)) rows (map ?node tps) = Inr es" "map exec_schema es = map (\<lambda>tp. qn_schema (?node tp)) tps"
    "list_all2 (\<lambda>e tp. scan_wf code (set rows) (quad_pattern_of ag g tp) e) es tps"
    using scan_patterns_correct [OF code R qs(1) clash] by blast
  have eqs: "patterns bgp = map ?node tps" "filters bgp = []" "columns_to_decode bgp = []" "bgp_schema bgp = merge_schemas (map (\<lambda>tp. qn_schema (?node tp)) tps)"
    using bgp unfolding bgp_try_new_plain by (auto simp: comp_def)
  have wf: "\<forall>e \<in> set es. input_wf L (\<lambda>n. Some k) e"
  proof
    fix e assume e: "e \<in> set es"
    then obtain tp where "scan_wf code (set rows) (quad_pattern_of ag g tp) e" using es(3) by (metis list_all2_nthD in_set_conv_nth)
    moreover have "exec_schema e \<in> set (map (\<lambda>tp. qn_schema (?node tp)) tps)" using e unfolding es(2) [symmetric] by simp
    then have "\<forall>f \<in> set (exec_schema e). field_encoding f = Some k" using node_schema_encoding [OF qs(2)] by auto
    ultimately show "input_wf L (\<lambda>n. Some k) e" using st by (rule scan_input_wf)
  qed
  have esn: "es \<noteq> []" using es(2) ne by auto
  have schemas: "map qn_schema (map ?node tps) = map exec_schema es" using es(2) by (simp add: comp_def)
  obtain e where e: "plan_extension L use_oids bgp es = Inr e" "column_types (exec_schema e) = column_types (bgp_schema bgp)"
    "mset (run L e) = bgp_answers L bgp (map (rel_of L) es)"
    using plan_extension_correct [OF L wf esn bgp schemas, of use_oids] oid by auto
  have names: "schema_names (exec_schema e) = schema_names (bgp_schema bgp)"
    using arg_cong [OF e(2), of "map fst"] by (simp add: schema_names_def comp_def)
  have N: "set (schema_names (bgp_schema bgp)) = ?N" unfolding eqs(4) set_merge_schemas(2) by (simp add: node_schema_names [OF qs(1)])
  have wf2: "list_all2 (\<lambda>e p. scan_wf code (set rows) p e) es (map (quad_pattern_of ag g) tps)" using es(3) by (simp add: list_all2_map2)
  have "\<forall>p \<in> set (map (quad_pattern_of ag g) tps). graph_variable p = None \<or> \<not> active_graph_matches (qp_active_graph p) DefaultGraph"
    using g by (auto simp: quad_pattern_of_def)
  from joined_solutions [OF code wf2 this, of L]
  have sols: "set_mset (snd (bgp_join (map (rel_of L) es))) = {encoded_solution code ?N m | m. \<forall>tp \<in> set tps. solves_with code (set rows) m (quad_pattern_of ag g tp)}" by simp
  have "set (run L e) = set_mset (bgp_answers L bgp (map (rel_of L) es))" using arg_cong [OF e(3), of set_mset] by simp
  also have "\<dots> = (\<lambda>x. map x (schema_names (bgp_schema bgp))) ` set_mset (snd (bgp_join (map (rel_of L) es)))"
    by (simp add: bgp_answers_def Let_def eqs(2,3))
  also have "\<dots> = {map (\<lambda>n. Option.bind (m n) code) (schema_names (bgp_schema bgp)) | m. \<forall>tp \<in> set tps. solves_with code (set rows) m (quad_pattern_of ag g tp)}"
  proof -
    have "map (encoded_solution code ?N m) (schema_names (bgp_schema bgp)) = map (\<lambda>n. Option.bind (m n) code) (schema_names (bgp_schema bgp))" for m
      using N by (intro map_cong) (simp_all add: encoded_solution_def)
    then show ?thesis unfolding sols by (auto simp: image_iff) metis+
  qed
  finally show ?thesis using e(1) es(1) N by (simp add: eqs(1) names)
qed

lemma bgp_query_one_assignment:
  fixes L :: "'e PhysicalLib" and code :: "'l Term \<Rightarrow> 'e option"
  assumes "physical_ok L" "code_ok code" "\<forall>r \<in> set rows. \<exists>q. encodes code q r"
    and "length quad_schema = 4" "\<forall>f \<in> set quad_schema. field_encoding f = Some k" "use_oids \<or> k \<noteq> ObjectId"
    and "\<forall>s xs. \<exists>st. compute_statistics L (Input s xs) = Inr st \<and> (num_rows st = Exact 0 \<longrightarrow> xs = [])"
    and "\<forall>tp \<in> set tps. no_name_clash (quad_pattern_of ag g tp)" "g = None \<or> \<not> active_graph_matches ag DefaultGraph"
  shows "\<exists>plan names cells. create_bgp quad_schema ag g tps = Inr plan \<and> answer_bgp L use_oids (\<lambda>t. Inr (code t)) rows plan = Inr (names, cells) \<and>
    set names = (\<Union>tp \<in> set tps. set (pattern_names (quad_pattern_of ag g tp))) \<and>
    set cells = {map (\<lambda>n. Option.bind (m n) code) names | m. \<forall>tp \<in> set tps. solves_with code (set rows) m (quad_pattern_of ag g tp)}"
proof -
  consider "tps = []" | tp where "tps = [tp]" | "2 \<le> length tps" by (cases tps; cases "tl tps") auto
  then show ?thesis
  proof cases
    case 1
    then show ?thesis by (simp add: create_bgp_def)
  next
    case 2
    let ?node = "quad_pattern_node_new quad_schema ag g tp" and ?p = "quad_pattern_of ag g tp"
    have "no_name_clash ?p" using assms(8) 2 by simp
    then obtain cells where "scan_node (\<lambda>t. Inr (code t)) rows ?node = Inr (pattern_names ?p, cells)"
      "set cells = {map (\<lambda>n. Option.bind (m n) code) (pattern_names ?p) | m. solves_with code (set rows) m ?p}"
      using scan_node_correct [OF assms(2) _ assms(3)] by blast
    then show ?thesis using 2
      by (intro exI [of _ "SinglePattern ?node"] exI [of _ "pattern_names ?p"] exI [of _ cells]) (simp add: create_bgp_def)
  next
    case 3
    then obtain tp tp' rest where tps: "tps = tp # tp' # rest" by (cases tps; cases "tl tps") auto
    obtain bgp :: "('l QuadPatternNode, 'e) BgpNode" where bgp: "bgp_try_new qn_schema (map (quad_pattern_node_new quad_schema ag g) tps) [] None [] = Inr bgp"
      using bgp_try_new_plain by blast
    then have "create_bgp quad_schema ag g tps = Inr (BgpPlan bgp)" unfolding create_bgp_def Let_def by (simp add: tps)
    moreover have "tps \<noteq> []" using tps by simp
    ultimately show ?thesis using planned_query_correct [OF assms _ bgp] by blast
  qed
qed

text \<open>C5: A basic graph pattern is answered correctly from the stored quads to the joined rows. For a list of triple patterns, also
  an empty one or a single one, the plan that is built has exactly the names of the patterns as columns, and its rows are, as a
  set, exactly the encoded answers: an assignment of the variables and one of the blank nodes under which every triple pattern has
  a matching quad in the active graph, whatever order and operators the planner chooses. Assumed: no blank node of any of the
  patterns has the name of a variable of any of them; a graph variable, if there is one, ranges over active graphs without the
  default graph; all four quad columns have one encoding, and object ids are in use if it is the object id encoding; the encoding
  of terms is injective and every stored row encodes a quad; the operators of the query engine behave as documented, and an
  exact row count of zero in its statistics is right.\<close>

theorem bgp_query_correct:
  fixes L :: "'e PhysicalLib" and code :: "'l Term \<Rightarrow> 'e option"
  assumes "physical_ok L" "code_ok code" "\<forall>r \<in> set rows. \<exists>q. encodes code q r"
    and "length quad_schema = 4" "\<forall>f \<in> set quad_schema. field_encoding f = Some k" "use_oids \<or> k \<noteq> ObjectId"
    and "\<forall>s xs. \<exists>st. compute_statistics L (Input s xs) = Inr st \<and> (num_rows st = Exact 0 \<longrightarrow> xs = [])"
    and clash: "no_query_clash (map (quad_pattern_of ag g) tps)" and g: "g = None \<or> \<not> active_graph_matches ag DefaultGraph"
  shows "\<exists>plan names cells. create_bgp quad_schema ag g tps = Inr plan \<and> answer_bgp L use_oids (\<lambda>t. Inr (code t)) rows plan = Inr (names, cells) \<and>
    set names = (\<Union>tp \<in> set tps. set (pattern_names (quad_pattern_of ag g tp))) \<and>
    set cells = {map (\<lambda>n. Option.bind (answer_of (query_variables (map (quad_pattern_of ag g) tps)) m b n) code) names | m b.
      \<forall>tp \<in> set tps. solves_pattern code (set rows) m b (quad_pattern_of ag g tp)}"
proof -
  have each: "\<forall>tp \<in> set tps. no_name_clash (quad_pattern_of ag g tp)" using no_query_clash_single [OF clash] by simp
  have "\<exists>plan names cells. create_bgp quad_schema ag g tps = Inr plan \<and> answer_bgp L use_oids (\<lambda>t. Inr (code t)) rows plan = Inr (names, cells) \<and>
    set names = (\<Union>tp \<in> set tps. set (pattern_names (quad_pattern_of ag g tp))) \<and>
    set cells = {map (\<lambda>n. Option.bind (m n) code) names | m. \<forall>p \<in> set (map (quad_pattern_of ag g) tps). solves_with code (set rows) m p}"
    using bgp_query_one_assignment [OF assms(1-7) each g] by simp
  then show ?thesis unfolding query_answers [OF clash] by simp
qed

section \<open>Witness\<close>

definition p_pattern :: "RefLiteral TriplePattern" where
  "p_pattern = \<lparr>tp_subject = PVariable ''x'', tp_predicate = NNamedNode ''p'', tp_object = PVariable ''y''\<rparr>"

definition o_pattern :: "RefLiteral TriplePattern" where
  "o_pattern = \<lparr>tp_subject = PVariable ''x'', tp_predicate = NVariable ''q'', tp_object = PNamedNode ''o''\<rparr>"

lemma example_answer:
  "(case create_bgp demo_quad_schema ActiveDefaultGraph None [p_pattern, o_pattern] of
      Inr plan \<Rightarrow> answer_bgp ref_physical True (\<lambda>t. Inr (demo_code t)) [Delta_Properties.demo_quad None 4] plan = Inr ([''x'', ''y'', ''q''], [[Some 4, Some 3, Some 2]])
    | Inl _ \<Rightarrow> False)"
  by code_simp

theorem bgp_query_correct_witness:
  "{map (\<lambda>n. Option.bind (answer_of (query_variables (map (quad_pattern_of ActiveDefaultGraph None) [p_pattern, o_pattern])) m b n) demo_code) [''x'', ''y'', ''q''] | m b.
      \<forall>tp \<in> set [p_pattern, o_pattern]. solves_pattern demo_code {Delta_Properties.demo_quad None 4} m b (quad_pattern_of ActiveDefaultGraph None tp)} =
   {[Some 4, Some 3, Some 2]}"
proof -
  have enc: "\<forall>r \<in> set [Delta_Properties.demo_quad None 4]. \<exists>q. encodes demo_code q r" using demo_encodes by auto
  have qs: "length demo_quad_schema = 4" "\<forall>f \<in> set demo_quad_schema. field_encoding f = Some ObjectId" by (simp_all add: demo_quad_schema_def)
  have st: "\<forall>s xs. \<exists>st. compute_statistics ref_physical (Input s xs) = Inr st \<and> (num_rows st = Exact 0 \<longrightarrow> xs = [])"
    by (simp add: ref_physical_def ref_statistics_def)
  have clash: "no_query_clash (map (quad_pattern_of ActiveDefaultGraph None) [p_pattern, o_pattern])"
    by (simp add: no_query_clash_def query_variables_def pattern_variables_def pattern_blank_nodes_def quad_pattern_of_def component_patterns_def
        quad_components_def p_pattern_def o_pattern_def)
  obtain plan :: "(RefLiteral, nat) BgpPlan" and names cells where w: "create_bgp demo_quad_schema ActiveDefaultGraph None [p_pattern, o_pattern] = Inr plan"
    "answer_bgp ref_physical True (\<lambda>t. Inr (demo_code t)) [Delta_Properties.demo_quad None 4] plan = Inr (names, cells)"
    "set cells = {map (\<lambda>n. Option.bind (answer_of (query_variables (map (quad_pattern_of ActiveDefaultGraph None) [p_pattern, o_pattern])) m b n) demo_code) names | m b.
      \<forall>tp \<in> set [p_pattern, o_pattern]. solves_pattern demo_code (set [Delta_Properties.demo_quad None 4]) m b (quad_pattern_of ActiveDefaultGraph None tp)}"
    using bgp_query_correct [OF ref_physical_ok demo_code_ok enc qs disjI1 [OF TrueI] st clash disjI1 [OF HOL.refl]]
    by (elim exE conjE) (rule that)
  have "names = [''x'', ''y'', ''q'']" "cells = [[Some 4, Some 3, Some 2]]" using example_answer w(1,2) by simp_all
  then show ?thesis using w(3) by (simp only: list.set)
qed

end
