(* ===== verification/Spec2Isabelle.thy ===== *)
theory Spec2Isabelle
  imports Object_Id_Stream_Properties Xsd_Date_Types Delta_Properties Bgp_Query
begin

text \<open>
  A verification library for RDF Fusion, a SPARQL engine in Rust on top of DataFusion
  (the repository is under \<open>src\<close>, all paths below are relative to it).

  \<^bold>\<open>The program.\<close> A query is parsed and rewritten to a logical plan (\<open>lib/sparql-parser\<close>,
  \<open>lib/logical\<close>), whose SPARQL nodes are lowered to relational operators or planned by planners of
  its own (\<open>lib/physical\<close>); expressions compute with the XSD value types (\<open>lib/common/src/xsd\<close>) on
  terms that are stored as plain terms or as object ids (\<open>lib/encoding\<close>). Quads live in Delta tables
  (\<open>lib/storage-deltalake\<close>): an operations log, sorted quad tables that are brought up to date by
  changesets of the log, and a dictionary of object ids shared by several nodes.

  \<^bold>\<open>Conventions.\<close> Machine integers are integers with an explicit range (\<open>in_int w\<close>), and
  where the code computes without checks the wrap-around is written out (the release profile has
  overflow checks off). Strings are lists of bytes as characters. A \<open>Result\<close> is a sum, the error on the
  left, and \<open>and_then\<close> is the question mark. A panic is an error value of its own or an explicit \<open>None\<close>; where a state outlives it
  (\<open>Path_Closure\<close>) it leaves the state as it was. Code
  outside the repository (DataFusion operators, Arrow's row format and coalescer, the object store, the
  embedded database's cache, the literals of oxrdf) is a record of functions that the definitions take as an
  argument; a predicate (\<open>datafusion_ok\<close>, \<open>engine_ok\<close>, \<open>physical_ok\<close>, \<open>row_format\<close>, \<open>literal_ok\<close>,
  \<open>coalescer_ok\<close>, \<open>cache_ok\<close> and others) states its documented behaviour, and each has an instance
  on lists that the witnesses evaluate.

  \<^bold>\<open>Shared theories.\<close>
  \<^item> \<open>Rust_Prelude\<close>, \<open>Rust_Text\<close>: results, checked machine arithmetic, strings, number parsing and printing,
    with the collections \<open>rust_int\<close> and \<open>result_simps\<close>.
  \<^item> \<open>Checked_Arith\<close>: the locale \<open>checked_additive\<close> (checked addition, subtraction and negation of a type that
    wraps one integer), interpreted for integers, decimals and both durations; big-endian bytes.
  \<^item> \<open>Relational\<close>: rows by column name, SQL values, expressions and the operators of DataFusion with bag semantics.

  \<^bold>\<open>XSD values\<close> (\<open>lib/common/src/xsd\<close>).
  \<^item> \<open>Xsd_Integer\<close>, \<open>Xsd_Decimal\<close>, \<open>Xsd_Decimal_Text\<close>: integers, booleans and the 128-bit decimal with 18 digits;
    multiplication is exact or an error, division truncates, rounding is half up, printing and parsing are inverse.
  \<^item> \<open>Xsd_Duration\<close>, \<open>Xsd_Duration_Text\<close>: durations, their arithmetic with the sign rule, lexical forms.
  \<^item> \<open>Xsd_Calendar\<close>, \<open>Xsd_DateTime\<close>, \<open>Xsd_DateTime_Text\<close>, \<open>Xsd_Date_Types\<close>: the timeline, normalisation of days and
    months (the loop ends, its result is the calendar date), timestamps and their components, order with and without time
    zone, adding durations, lexical forms of dateTime, time, date and the Gregorian types.

  \<^bold>\<open>Terms and encodings\<close> (\<open>lib/encoding/src/plain_term\<close>). \<open>Plain_Term\<close>: arrays of encoded terms and quads, builders, encoders
  and decoders; decoding is the inverse of encoding and encoded terms are equal exactly when the terms are the same.

  \<^bold>\<open>SPARQL operators\<close> (\<open>lib/logical\<close>, \<open>lib/physical\<close>).
  \<^item> \<open>Sparql_Join\<close>, \<open>Sparql_Algebra\<close>: join, left join, minus and extend; the lowering picks a cross join, an equality join or
    a join with compatibility checks, and each is the operator of the SPARQL algebra as a bag.
  \<^item> \<open>Sparql_Pattern\<close>, \<open>Quad_Pattern\<close>: the pattern node, and quad patterns with their filters and projections; the rows kept
    are the quads that match. \<open>Quad_Pattern\<close> composes this with the scan of the Delta storage.
  \<^item> \<open>Path_Closure\<close>, \<open>Sparql_Path\<close>: the operator that computes the closure of a path (a worklist; it ends because the set of paths
    over the known nodes is finite) and the lowering of property paths. The locale \<open>path_projection\<close> relates path triples
    to the pairs of a path relation, per graph and over the merge of the graphs.
  \<^item> \<open>Bgp_Plan\<close>: the node of a basic graph pattern, the operator that decodes object ids and the planner that orders joins, places
    filters and decodings and prunes columns. \<open>Bgp_Join\<close> is the specification, a natural join of bags of solutions that is
    invariant under permutation; \<open>Bgp_Operators\<close> shows that every operator keeps the relation \<open>yields\<close> between a plan and the solutions
    it stands for; \<open>Bgp_Properties\<close> follows the joins and \<open>Bgp_Planner\<close> the whole planner. \<open>Bgp_Query\<close> composes the planner with
    quad patterns: a basic graph pattern over quads is answered by its solutions, when no blank node has the name of a variable.
  \<^item> \<open>Decoding_Stream\<close>: the stream of the decoding operator as a state machine that is polled; it drains.
  \<^item> \<open>Sorted_Distinct\<close>: duplicate elimination over sorted batches.

  \<^bold>\<open>Delta storage\<close> (\<open>lib/storage-deltalake\<close>).
  \<^item> \<open>Delta_Log\<close>, \<open>Delta_Changeset\<close>, \<open>Delta_Changeset_Trait\<close>: log rows, the ordered map that compacts a range of the log,
    eager and insertion-only changesets behind the locale \<open>changeset_contract\<close> (interpreted for both and for their union).
  \<^item> \<open>Delta_Storage\<close>, \<open>Delta_Storage_Scan\<close>, \<open>Delta_Properties\<close>: transactions, snapshots, scans and the optimisation of quad
    tables; a scan returns the quads that replaying all committed transactions gives, a transaction reads its own writes, and
    a rewritten quad table has its rows in the order of its components.
  \<^item> \<open>Redb_Term\<close>, \<open>Object_Id_Claim\<close>, \<open>Object_Id_Dictionary\<close>, \<open>Object_Id_Invariant\<close>, \<open>Object_Id_Properties\<close>: the local dictionary
    of object ids behind the locale \<open>object_id_dictionary\<close>, its byte format, and the claims of id ranges by concurrent nodes
    (an \<open>inductive\<close> step relation over reads and conditional puts).
  \<^item> \<open>Object_Id_Stream\<close>, \<open>Object_Id_Stream_Invariant\<close>, \<open>Object_Id_Stream_Properties\<close>: the streams that encode batches through one
    shared writer, interleaved with other nodes, conflicts and errors; every batch given out is an input batch encoded exactly once.
    These theories assume that a sync brings only pairs that the local dictionary does not know; the code does not ensure it, and
    \<open>lost_commit_reuses_ids\<close> shows how a commit that fails half way breaks it.

  \<^bold>\<open>Loops.\<close> All loops are total functions: structural recursion, or a measure (the digits left in normalisation and parsing, the
  paths not yet found in the closure, the patterns not yet joined in the planner, the input left in a poll). The retries of the claimer and
  the interleaved streams are step relations, with the number of retries as in the code. No fuel is used.

  \<^bold>\<open>Not modelled.\<close> Floating point (\<open>float.rs\<close>, \<open>double.rs\<close>): there is no IEEE arithmetic among the library theories used, and
  with it the numeric promotions and most numeric functions. The lexer and parser of \<open>lib/sparql-parser\<close> are grammars in
  the combinators of third-party libraries. The scalar and aggregate functions of \<open>lib/functions\<close> and the typed family encoding are
  loops over Arrow arrays. Configuration, sessions, file readers and writers, the Parquet file layout, the command line,
  web and WebAssembly interfaces are input and output. Asynchronous execution is modelled where it matters to the result
  (claims, encoding streams, decoding stream) and as sequential code elsewhere; statistics are arbitrary numbers.
\<close>

end
